(* ===== verification/NX_Prelude.thy ===== *)
theory NX_Prelude
  imports Main "HOL-Library.Word" "HOL-Library.List_Lexorder"
begin

text \<open>
  Shared vocabulary of the development: the outcome type of fallible Rust code, bytes and
  little-endian integers, slices, alignment, and UTF-8 strings.

  A \<^verbatim>\<open>usize\<close> is a natural number and the target is a 64-bit one, so its largest value is
  \<open>2 ^ 64 - 1\<close>.  Arithmetic on quantities that come out of an image is checked against
  that bound where the code checks it; the length of a buffer that exists in memory, and sums of
  a few such lengths, stay below it and are added as plain natural numbers.  A \<^verbatim>\<open>str\<close> or
  \<^verbatim>\<open>String\<close> is the list of its UTF-8 bytes.
\<close>

unbundle bit_operations_syntax

section \<open>Results and panics\<close>

text \<open>
  What a Rust function returning \<^verbatim>\<open>Result<T, E>\<close> can do: return a value, return an error, or
  panic (an index or slice out of range, an arithmetic overflow under overflow checks, a failed
  assertion).  Making the panic a value is what lets a theorem say it does not happen.
\<close>

datatype ('a, 'e) result = Ok 'a | Err 'e | Panic

text \<open>The \<^verbatim>\<open>?\<close> operator: go on with the value, or return what was not a value.\<close>

fun rbind :: "('a, 'e) result \<Rightarrow> ('a \<Rightarrow> ('b, 'e) result) \<Rightarrow> ('b, 'e) result" where
  "rbind (Ok x) f = f x"
| "rbind (Err e) f = Err e"
| "rbind Panic f = Panic"

text \<open>\<^verbatim>\<open>Result::map_err\<close> and \<^verbatim>\<open>Option::ok_or\<close>.\<close>

fun map_err :: "('e \<Rightarrow> 'f) \<Rightarrow> ('a, 'e) result \<Rightarrow> ('a, 'f) result" where
  "map_err g (Ok x) = Ok x"
| "map_err g (Err e) = Err (g e)"
| "map_err g Panic = Panic"

definition ok_or :: "'e \<Rightarrow> 'a option \<Rightarrow> ('a, 'e) result" where
  "ok_or e x = (case x of None \<Rightarrow> Err e | Some y \<Rightarrow> Ok y)"

text \<open>A \<^verbatim>\<open>for\<close> loop whose body may return early.\<close>

fun rfold :: "('s \<Rightarrow> 'x \<Rightarrow> ('s, 'e) result) \<Rightarrow> 's \<Rightarrow> 'x list \<Rightarrow> ('s, 'e) result" where
  "rfold f s [] = Ok s"
| "rfold f s (x # xs) = rbind (f s x) (\<lambda>s'. rfold f s' xs)"

lemma rbind_cong [fundef_cong]:
  "m = m' \<Longrightarrow> (\<And>x. m' = Ok x \<Longrightarrow> f x = g x) \<Longrightarrow> rbind m f = rbind m' g"
  by (cases m') auto

lemma rbind_Ok [simp]: "rbind m Ok = m"
  by (cases m) auto

lemma rbind_assoc: "rbind (rbind m f) g = rbind m (\<lambda>x. rbind (f x) g)"
  by (cases m) auto

lemma rbind_eq_Ok: "rbind m f = Ok y \<longleftrightarrow> (\<exists>x. m = Ok x \<and> f x = Ok y)"
  by (cases m) auto

lemma rbind_eq_Err: "rbind m f = Err e \<longleftrightarrow> m = Err e \<or> (\<exists>x. m = Ok x \<and> f x = Err e)"
  by (cases m) auto

lemma rbind_eq_Panic: "rbind m f = Panic \<longleftrightarrow> m = Panic \<or> (\<exists>x. m = Ok x \<and> f x = Panic)"
  by (cases m) auto

lemmas rbind_eqs = rbind_eq_Ok rbind_eq_Err rbind_eq_Panic

text \<open>Absence of panics goes through \<open>rbind\<close> step by step.\<close>

lemma rbind_no_Panic:
  "m \<noteq> Panic \<Longrightarrow> (\<And>x. m = Ok x \<Longrightarrow> f x \<noteq> Panic) \<Longrightarrow> rbind m f \<noteq> Panic"
  by (cases m) auto

lemma map_err_eq [simp]:
  "map_err g m = Ok x \<longleftrightarrow> m = Ok x"
  "map_err g m = Panic \<longleftrightarrow> m = Panic"
  by (cases m; simp)+

lemma ok_or_simps [simp]:
  "ok_or e None = Err e" "ok_or e (Some x) = Ok x"
  by (simp_all add: ok_or_def)

lemma ok_or_eq [simp]:
  "ok_or e m = Ok x \<longleftrightarrow> m = Some x"
  "ok_or e m \<noteq> Panic" "Panic \<noteq> ok_or e m"
  by (cases m; simp)+

lemma rfold_append:
  "rfold f s (xs @ ys) = rbind (rfold f s xs) (\<lambda>s'. rfold f s' ys)"
proof (induction xs arbitrary: s)
  case (Cons x xs)
  then show ?case by (cases "f s x") auto
qed simp

text \<open>Loops that only check: they pass when every step does, and never panic if no step does.\<close>

lemma rfold_unit: "(\<And>x. x \<in> set xs \<Longrightarrow> f () x = Ok ()) \<Longrightarrow> rfold f () xs = Ok ()"
  by (induction xs) auto

lemma rfold_unit_all: "rfold f () xs = Ok () \<Longrightarrow> x \<in> set xs \<Longrightarrow> f () x = Ok ()"
  by (induction xs) (auto simp: rbind_eq_Ok)

lemma rfold_no_panic: "(\<And>s x. x \<in> set xs \<Longrightarrow> f s x \<noteq> Panic) \<Longrightarrow> rfold f s xs \<noteq> Panic"
proof (induction xs arbitrary: s)
  case (Cons x xs)
  then have "rfold f t xs \<noteq> Panic" for t by simp
  with Cons.prems show ?case by (simp add: rbind_eq_Panic)
qed simp

lemma rfold_collect:
  "(\<And>acc x. x \<in> set xs \<Longrightarrow> f acc x = Ok (acc @ g x)) \<Longrightarrow> rfold f acc xs = Ok (acc @ concat (map g xs))"
  by (induction xs arbitrary: acc) simp_all

text \<open>A loop of checks stops at the first step that fails.\<close>

lemma rfold_find:
  "(\<And>x. x \<in> set xs \<Longrightarrow> f () x = (if bad x then Err (e x) else Ok ())) \<Longrightarrow>
     rfold f () xs = (case find bad xs of None \<Rightarrow> Ok () | Some x \<Rightarrow> Err (e x))"
  by (induction xs) auto

text \<open>Sorting commutes with a map under the key.\<close>

lemma insort_key_map: "insort_key f (g x) (map g xs) = map g (insort_key (\<lambda>x. f (g x)) x xs)"
  by (induction xs) simp_all

lemma sort_key_map: "sort_key f (map g xs) = map g (sort_key (\<lambda>x. f (g x)) xs)"
  by (induction xs) (simp_all add: insort_key_map)

lemma find_append: "find P (xs @ ys) = (case find P xs of None \<Rightarrow> find P ys | Some x \<Rightarrow> Some x)"
  by (induction xs) auto

section \<open>Machine integers\<close>

type_synonym u8 = "8 word"
type_synonym u16 = "16 word"
type_synonym u32 = "32 word"
type_synonym u64 = "64 word"
type_synonym bytes = "u8 list"

definition usize_max :: nat where
  "usize_max = 2 ^ 64 - 1"

text \<open>\<^verbatim>\<open>usize::checked_add\<close> and \<^verbatim>\<open>usize::checked_sub\<close>.\<close>

definition checked_add :: "nat \<Rightarrow> nat \<Rightarrow> nat option" where
  "checked_add a b = (if a + b \<le> usize_max then Some (a + b) else None)"

definition checked_sub :: "nat \<Rightarrow> nat \<Rightarrow> nat option" where
  "checked_sub a b = (if b \<le> a then Some (a - b) else None)"

text \<open>\<^verbatim>\<open>+\<close> and \<^verbatim>\<open>-\<close> on \<^verbatim>\<open>usize\<close>, which panic on overflow.\<close>

definition uadd :: "nat \<Rightarrow> nat \<Rightarrow> (nat, 'e) result" where
  "uadd a b = (if a + b \<le> usize_max then Ok (a + b) else Panic)"

definition usub :: "nat \<Rightarrow> nat \<Rightarrow> (nat, 'e) result" where
  "usub a b = (if b \<le> a then Ok (a - b) else Panic)"

lemma checked_add_Some [simp]:
  "checked_add a b = Some c \<longleftrightarrow> a + b \<le> usize_max \<and> c = a + b"
  by (auto simp: checked_add_def)

lemma checked_add_None [simp]:
  "checked_add a b = None \<longleftrightarrow> usize_max < a + b"
  by (auto simp: checked_add_def)

lemma checked_sub_Some [simp]:
  "checked_sub a b = Some c \<longleftrightarrow> b \<le> a \<and> c = a - b"
  by (auto simp: checked_sub_def)

lemma checked_sub_None [simp]:
  "checked_sub a b = None \<longleftrightarrow> a < b"
  by (auto simp: checked_sub_def)

lemma uadd_eq [simp]:
  "uadd a b = Ok c \<longleftrightarrow> a + b \<le> usize_max \<and> c = a + b"
  "uadd a b = Panic \<longleftrightarrow> usize_max < a + b"
  "uadd a b \<noteq> Err e"
  by (auto simp: uadd_def)

lemma usub_eq [simp]:
  "usub a b = Ok c \<longleftrightarrow> b \<le> a \<and> c = a - b"
  "usub a b = Panic \<longleftrightarrow> a < b"
  "usub a b \<noteq> Err e"
  by (auto simp: usub_def)

lemma unat_lt2p: "unat (w :: 'a::len word) < 2 ^ LENGTH('a)"
  by (rule unsigned_less)

lemma unat_u32_bound: "unat (w :: u32) < 2 ^ 32"
  using unat_lt2p [of w] by simp

lemma unat_u64_bound: "unat (w :: u64) \<le> usize_max"
  using unat_lt2p [of w] by (simp add: usize_max_def)

lemma unat_u32_of_nat: "n < 2 ^ 32 \<Longrightarrow> unat (word_of_nat n :: u32) = n"
  by (simp add: unat_of_nat)

lemma unat_u64_of_nat: "n < 2 ^ 64 \<Longrightarrow> unat (word_of_nat n :: u64) = n"
  by (simp add: unat_of_nat)

lemma unat_u32_sum_usize: "unat (v :: u32) + unat (w :: u32) \<le> usize_max"
  using unat_u32_bound [of v] unat_u32_bound [of w] by (simp add: usize_max_def)

section \<open>Little-endian integers\<close>

fun le_nat :: "bytes \<Rightarrow> nat" where
  "le_nat [] = 0"
| "le_nat (b # bs) = unat b + 256 * le_nat bs"

fun le_bytes :: "nat \<Rightarrow> nat \<Rightarrow> bytes" where
  "le_bytes 0 n = []"
| "le_bytes (Suc k) n = word_of_nat n # le_bytes k (n div 256)"

text \<open>\<^verbatim>\<open>to_le_bytes\<close> at the three widths the formats use.\<close>

definition le16 :: "u16 \<Rightarrow> bytes" where "le16 w = le_bytes 2 (unat w)"
definition le32 :: "u32 \<Rightarrow> bytes" where "le32 w = le_bytes 4 (unat w)"
definition le64 :: "u64 \<Rightarrow> bytes" where "le64 w = le_bytes 8 (unat w)"

text \<open>Reading a field at a byte offset, and the bytes of a fixed-size array field.\<close>

definition sub_bytes :: "bytes \<Rightarrow> nat \<Rightarrow> nat \<Rightarrow> bytes" where
  "sub_bytes bs off n = take n (drop off bs)"

definition rd8 :: "bytes \<Rightarrow> nat \<Rightarrow> u8" where "rd8 bs off = bs ! off"
definition rd16 :: "bytes \<Rightarrow> nat \<Rightarrow> u16" where
  "rd16 bs off = word_of_nat (le_nat (sub_bytes bs off 2))"
definition rd32 :: "bytes \<Rightarrow> nat \<Rightarrow> u32" where
  "rd32 bs off = word_of_nat (le_nat (sub_bytes bs off 4))"
definition rd64 :: "bytes \<Rightarrow> nat \<Rightarrow> u64" where
  "rd64 bs off = word_of_nat (le_nat (sub_bytes bs off 8))"

lemma length_le_bytes [simp]: "length (le_bytes k n) = k"
  by (induction k arbitrary: n) auto

lemma length_le [simp]: "length (le16 a) = 2" "length (le32 b) = 4" "length (le64 c) = 8"
  by (simp_all add: le16_def le32_def le64_def)

lemma length_concat_le32 [simp]: "length (concat (map le32 ws)) = 4 * length ws"
  by (induction ws) simp_all

lemma le_nat_le_bytes: "le_nat (le_bytes k n) = n mod 256 ^ k"
proof (induction k arbitrary: n)
  case (Suc k)
  have "unat (word_of_nat n :: u8) = n mod 256"
    by (simp add: unat_of_nat)
  then show ?case
    using mod_mult2_eq [of n 256 "256 ^ k"] Suc by simp
qed simp

lemma take_le_bytes: "j \<le> k \<Longrightarrow> take j (le_bytes k n) = le_bytes j n"
proof (induction k arbitrary: j n)
  case (Suc k)
  then show ?case by (cases j) simp_all
qed simp

lemma le_nat_append_zeros: "le_nat (xs @ replicate n 0) = le_nat xs"
proof -
  have "le_nat (replicate n 0) = 0" by (induction n) simp_all
  then show ?thesis by (induction xs) simp_all
qed

lemma le_bytes_le_nat: "length bs = k \<Longrightarrow> le_bytes k (le_nat bs) = bs"
proof (induction bs arbitrary: k)
  case (Cons b bs)
  have low: "(word_of_nat (unat b + 256 * m) :: u8) = b" for m
  proof -
    have "unat (word_of_nat (unat b + 256 * m) :: u8) = unat b"
      using unat_lt2p [of b] by (subst unat_of_nat) simp
    then show ?thesis by (rule unsigned_word_eqI)
  qed
  have "(unat b + 256 * m) div 256 = m" for m
    using unat_lt2p [of b] by simp
  with low Cons show ?case by (cases k) auto
qed simp

lemma le_nat_bound: "le_nat bs < 256 ^ length bs"
proof (induction bs)
  case (Cons b bs)
  have "unat b < 256" using unat_lt2p [of b] by simp
  with Cons show ?case by simp
qed simp

lemma word_of_nat_le_nat:
  "(word_of_nat (le_nat (le16 a)) :: u16) = a"
  "(word_of_nat (le_nat (le32 b)) :: u32) = b"
  "(word_of_nat (le_nat (le64 c)) :: u64) = c"
  using unat_lt2p [of a] unat_lt2p [of b] unat_lt2p [of c]
  by (simp_all add: le16_def le32_def le64_def le_nat_le_bytes)

text \<open>
  Reading what was written: a field at offset zero, and a field behind a prefix of known length.
  Together they evaluate every field of a header that was serialised field by field.
\<close>

lemma sub_bytes_skip: "length xs \<le> n \<Longrightarrow> sub_bytes (xs @ ys) n k = sub_bytes ys (n - length xs) k"
  by (simp add: sub_bytes_def)

lemma sub_bytes_here: "length xs = k \<Longrightarrow> sub_bytes (xs @ ys) 0 k = xs"
  by (simp add: sub_bytes_def)

lemma length_sub_bytes: "off + n \<le> length bs \<Longrightarrow> length (sub_bytes bs off n) = n"
  by (simp add: sub_bytes_def)

named_theorems field_simps_le \<open>reading back serialised fields\<close>

lemma rd_skip [field_simps_le]:
  "length xs \<le> n \<Longrightarrow> rd8 (xs @ ys) n = rd8 ys (n - length xs)"
  "length xs \<le> n \<Longrightarrow> rd16 (xs @ ys) n = rd16 ys (n - length xs)"
  "length xs \<le> n \<Longrightarrow> rd32 (xs @ ys) n = rd32 ys (n - length xs)"
  "length xs \<le> n \<Longrightarrow> rd64 (xs @ ys) n = rd64 ys (n - length xs)"
  "length xs \<le> n \<Longrightarrow> sub_bytes (xs @ ys) n k = sub_bytes ys (n - length xs) k"
  by (simp_all add: rd8_def rd16_def rd32_def rd64_def sub_bytes_skip nth_append)

lemma rd_here [field_simps_le]:
  "rd8 (b # ys) 0 = b"
  "rd16 (le16 a @ ys) 0 = a"
  "rd32 (le32 c @ ys) 0 = c"
  "rd64 (le64 d @ ys) 0 = d"
  "length xs = k \<Longrightarrow> sub_bytes (xs @ ys) 0 k = xs"
  by (simp_all add: rd8_def rd16_def rd32_def rd64_def sub_bytes_here word_of_nat_le_nat)

lemma rd_skip_one [field_simps_le]:
  "0 < n \<Longrightarrow> rd8 (b # ys) n = rd8 ys (n - 1)"
  "0 < n \<Longrightarrow> rd16 (b # ys) n = rd16 ys (n - 1)"
  "0 < n \<Longrightarrow> rd32 (b # ys) n = rd32 ys (n - 1)"
  "0 < n \<Longrightarrow> rd64 (b # ys) n = rd64 ys (n - 1)"
  "0 < n \<Longrightarrow> sub_bytes (b # ys) n k = sub_bytes ys (n - 1) k"
  using rd_skip [of "[b]" n ys] by (simp_all add: Suc_le_eq rd8_def)

lemma drop_skip: "length xs \<le> n \<Longrightarrow> drop n (xs @ ys) = drop (n - length xs) ys"
  by simp

text \<open>Writing what was read: the bytes of the field come back.\<close>

lemma le_rd [field_simps_le]:
  "off + 2 \<le> length bs \<Longrightarrow> le16 (rd16 bs off) = sub_bytes bs off 2"
  "off + 4 \<le> length bs \<Longrightarrow> le32 (rd32 bs off) = sub_bytes bs off 4"
  "off + 8 \<le> length bs \<Longrightarrow> le64 (rd64 bs off) = sub_bytes bs off 8"
proof -
  have u: "length xs = k \<Longrightarrow> le_bytes k (le_nat xs mod 256 ^ k) = xs" for xs k
    using le_nat_bound [of xs] by (simp add: le_bytes_le_nat)
  have u4: "length xs = 4 \<Longrightarrow> le_bytes 4 (le_nat xs mod 4294967296) = xs"
    and u2: "length xs = 2 \<Longrightarrow> le_bytes 2 (le_nat xs mod 65536) = xs"
    and u8: "length xs = 8 \<Longrightarrow> le_bytes 8 (le_nat xs mod 18446744073709551616) = xs" for xs
    using u [of xs 4] u [of xs 2] u [of xs 8] by simp_all
  show "off + 2 \<le> length bs \<Longrightarrow> le16 (rd16 bs off) = sub_bytes bs off 2"
    by (simp add: le16_def rd16_def unat_of_nat u2 length_sub_bytes)
  show "off + 4 \<le> length bs \<Longrightarrow> le32 (rd32 bs off) = sub_bytes bs off 4"
    by (simp add: le32_def rd32_def unat_of_nat u4 length_sub_bytes)
  show "off + 8 \<le> length bs \<Longrightarrow> le64 (rd64 bs off) = sub_bytes bs off 8"
    by (simp add: le64_def rd64_def unat_of_nat u8 length_sub_bytes)
qed

lemma rd8_cons [field_simps_le]: "off < length bs \<Longrightarrow> rd8 bs off # xs = sub_bytes bs off 1 @ xs"
  by (simp add: rd8_def sub_bytes_def take_Suc_conv_app_nth Cons_nth_drop_Suc [symmetric])

lemma sub_bytes_join: "sub_bytes bs off m @ sub_bytes bs (off + m) n = sub_bytes bs off (m + n)"
  by (simp add: sub_bytes_def take_add add.commute)

text \<open>Adjacent fields join up again, whatever their offsets are written as.\<close>

named_theorems field_join \<open>joining the fields of a structure\<close>

lemma sub_bytes_join_at [field_join]:
  "off' = off + m \<Longrightarrow> sub_bytes bs off m @ sub_bytes bs off' n = sub_bytes bs off (m + n)"
  "off' = off + m \<Longrightarrow> sub_bytes bs off m @ sub_bytes bs off' n @ xs = sub_bytes bs off (m + n) @ xs"
  using sub_bytes_join [of bs off m n] by (simp_all flip: append_assoc)

lemma sub_bytes_0 [field_join]: "sub_bytes bs 0 n = take n bs"
  by (simp add: sub_bytes_def)

lemma take_join [field_join]:
  "take m bs @ sub_bytes bs m n = take (m + n) bs"
  "take m bs @ sub_bytes bs m n @ xs = take (m + n) bs @ xs"
  by (simp_all add: sub_bytes_def take_add)

lemma all_sub_bytes: "sub_bytes bs 0 (length bs) = bs"
  by (simp add: sub_bytes_def)

section \<open>Slices and buffers\<close>

text \<open>
  \<^verbatim>\<open>&bs[a..b]\<close> panics out of range; \<^verbatim>\<open>bs.get(a..b)\<close> is \<open>None\<close> there.  Indexing and storing
  one byte are the same on single positions.
\<close>

definition slice :: "'x list \<Rightarrow> nat \<Rightarrow> nat \<Rightarrow> ('x list, 'e) result" where
  "slice bs a b = (if a \<le> b \<and> b \<le> length bs then Ok (take (b - a) (drop a bs)) else Panic)"

definition get_range :: "'x list \<Rightarrow> nat \<Rightarrow> nat \<Rightarrow> 'x list option" where
  "get_range bs a b = (if a \<le> b \<and> b \<le> length bs then Some (take (b - a) (drop a bs)) else None)"

definition at :: "'x list \<Rightarrow> nat \<Rightarrow> ('x, 'e) result" where
  "at bs i = (if i < length bs then Ok (bs ! i) else Panic)"

definition store :: "'x list \<Rightarrow> nat \<Rightarrow> 'x \<Rightarrow> ('x list, 'e) result" where
  "store bs i b = (if i < length bs then Ok (bs[i := b]) else Panic)"

text \<open>\<^verbatim>\<open>buf[a..a + xs.len()].copy_from_slice(&xs)\<close>.\<close>

definition copy_at :: "'x list \<Rightarrow> nat \<Rightarrow> 'x list \<Rightarrow> ('x list, 'e) result" where
  "copy_at buf a xs =
     (if a + length xs \<le> length buf then Ok (take a buf @ xs @ drop (a + length xs) buf) else Panic)"

text \<open>The digests of the third-party \<^verbatim>\<open>sha2\<close> crate are 32 bytes long; nothing else is assumed.\<close>

definition digest_size :: "(bytes \<Rightarrow> bytes) \<Rightarrow> bool" where
  "digest_size sha \<longleftrightarrow> (\<forall>x. length (sha x) = 0x20)"

text \<open>\<^verbatim>\<open>vec![0u8; n]\<close>, and \<^verbatim>\<open>Vec::resize(n, 0)\<close>.\<close>

definition zeros :: "nat \<Rightarrow> bytes" where
  "zeros n = replicate n 0"

definition resize0 :: "bytes \<Rightarrow> nat \<Rightarrow> bytes" where
  "resize0 bs n = take n bs @ zeros (n - length bs)"

lemma length_zeros [simp]: "length (zeros n) = n"
  by (simp add: zeros_def)

lemma length_resize0 [simp]: "length (resize0 bs n) = n"
  by (simp add: resize0_def)

lemma zeros_0 [simp]: "zeros 0 = []"
  by (simp add: zeros_def)

lemma slice_Ok [simp]:
  "slice bs a b = Ok r \<longleftrightarrow> a \<le> b \<and> b \<le> length bs \<and> r = take (b - a) (drop a bs)"
  by (auto simp: slice_def)

lemma slice_Panic [simp]: "slice bs a b = Panic \<longleftrightarrow> b < a \<or> length bs < b"
  by (auto simp: slice_def)

lemma slice_no_Err [simp]: "slice bs a b \<noteq> Err e"
  by (auto simp: slice_def)

lemma get_range_Some [simp]:
  "get_range bs a b = Some r \<longleftrightarrow> a \<le> b \<and> b \<le> length bs \<and> r = take (b - a) (drop a bs)"
  by (auto simp: get_range_def)

lemma get_range_None [simp]: "get_range bs a b = None \<longleftrightarrow> b < a \<or> length bs < b"
  by (auto simp: get_range_def)

lemma at_Ok [simp]: "at bs i = Ok b \<longleftrightarrow> i < length bs \<and> b = bs ! i"
  by (auto simp: at_def)

lemma at_Panic [simp]: "at bs i = Panic \<longleftrightarrow> length bs \<le> i"
  by (auto simp: at_def)

lemma at_no_Err [simp]: "at bs i \<noteq> Err e"
  by (auto simp: at_def)

lemma store_Ok [simp]: "store bs i b = Ok r \<longleftrightarrow> i < length bs \<and> r = bs[i := b]"
  by (auto simp: store_def)

lemma store_Panic [simp]: "store bs i b = Panic \<longleftrightarrow> length bs \<le> i"
  by (auto simp: store_def)

lemma store_no_Err [simp]: "store bs i b \<noteq> Err e"
  by (auto simp: store_def)

lemma copy_at_Ok [simp]:
  "copy_at buf a xs = Ok r \<longleftrightarrow>
     a + length xs \<le> length buf \<and> r = take a buf @ xs @ drop (a + length xs) buf"
  by (auto simp: copy_at_def)

lemma copy_at_Panic [simp]: "copy_at buf a xs = Panic \<longleftrightarrow> length buf < a + length xs"
  by (auto simp: copy_at_def)

lemma copy_at_no_Err [simp]: "copy_at buf a xs \<noteq> Err e"
  by (auto simp: copy_at_def)

text \<open>Evaluating a step whose bounds are known.\<close>

named_theorems run_simps \<open>bounds-checked steps that succeed\<close>

lemma run_ok [run_simps]:
  "a + b \<le> usize_max \<Longrightarrow> checked_add a b = Some (a + b)"
  "b \<le> a \<Longrightarrow> checked_sub a b = Some (a - b)"
  "a + b \<le> usize_max \<Longrightarrow> uadd a b = Ok (a + b)"
  "b \<le> a \<Longrightarrow> usub a b = Ok (a - b)"
  "a \<le> b \<Longrightarrow> b \<le> length bs \<Longrightarrow> slice bs a b = Ok (take (b - a) (drop a bs))"
  "a \<le> b \<Longrightarrow> b \<le> length bs \<Longrightarrow> get_range bs a b = Some (take (b - a) (drop a bs))"
  "i < length bs \<Longrightarrow> at bs i = Ok (bs ! i)"
  "i < length bs \<Longrightarrow> store bs i x = Ok (bs[i := x])"
  by simp_all

lemma run_none [run_simps]:
  "usize_max < a + b \<Longrightarrow> checked_add a b = None"
  "a < b \<Longrightarrow> checked_sub a b = None"
  "length bs < b \<Longrightarrow> get_range bs a b = None"
  "b < a \<Longrightarrow> get_range bs a b = None"
  by simp_all

text \<open>Writing ahead of the cursor leaves zeros in between.\<close>

lemma copy_at_ahead:
  "length pre \<le> a \<Longrightarrow> copy_at (pre @ zeros n) a xs =
     (if a + length xs \<le> length pre + n
      then Ok ((pre @ zeros (a - length pre) @ xs) @ zeros (length pre + n - a - length xs)) else Panic)"
  by (auto simp: copy_at_def zeros_def)

text \<open>The running cursor of a layout: what has been written, and zeros after it.\<close>

lemma copy_at_cursor:
  "copy_at (pre @ zeros n) (length pre) xs =
     (if length xs \<le> n then Ok ((pre @ xs) @ zeros (n - length xs)) else Panic)"
  by (auto simp: copy_at_def zeros_def)

lemma copy_at_gap:
  "a = length A \<Longrightarrow> length xs \<le> n \<Longrightarrow>
     copy_at (A @ zeros n @ B) a xs = Ok (A @ xs @ zeros (n - length xs) @ B)"
  by (simp add: copy_at_def zeros_def)

text \<open>\<^verbatim>\<open>+=\<close> on a \<^verbatim>\<open>u32\<close> or \<^verbatim>\<open>u64\<close> cursor, which panics on overflow.\<close>

definition wadd :: "'a::len word \<Rightarrow> 'a word \<Rightarrow> ('a word, 'e) result" where
  "wadd a b = (if unat a + unat b < 2 ^ LENGTH('a) then Ok (a + b) else Panic)"

lemma wadd_of_nat [run_simps]:
  "m + n < 2 ^ LENGTH('a) \<Longrightarrow>
     wadd (word_of_nat m :: 'a::len word) (word_of_nat n) = Ok (word_of_nat (m + n))"
  by (simp add: wadd_def unat_of_nat)

text \<open>\<^verbatim>\<open>+\<close> on a \<^verbatim>\<open>u32\<close> that only ever holds sizes and offsets, kept as a number.\<close>

definition u32_add :: "nat \<Rightarrow> nat \<Rightarrow> (nat, 'e) result" where
  "u32_add a b = (if a + b < 2 ^ 32 then Ok (a + b) else Panic)"

lemma u32_add_ok [run_simps]: "a + b < 2 ^ 32 \<Longrightarrow> u32_add a b = Ok (a + b)"
  by (simp add: u32_add_def)

section \<open>Alignment\<close>

text \<open>\<^verbatim>\<open>(value + (a - 1)) & !(a - 1)\<close> for a power of two \<open>a\<close>.\<close>

definition align_up :: "nat \<Rightarrow> nat \<Rightarrow> nat" where
  "align_up v a = (v + (a - 1)) div a * a"

text \<open>\<^verbatim>\<open>usize::div_ceil\<close>.\<close>

definition div_ceil :: "nat \<Rightarrow> nat \<Rightarrow> nat" where
  "div_ceil a b = (a + b - 1) div b"

lemma align_up_ge: "0 < a \<Longrightarrow> v \<le> align_up v a"
proof -
  assume "0 < a"
  then have "v + (a - 1) < (v + (a - 1)) div a * a + a"
    using div_mult_mod_eq [of "v + (a - 1)" a] mod_less_divisor [of a "v + (a - 1)"] by linarith
  with \<open>0 < a\<close> show ?thesis by (simp add: align_up_def)
qed

lemma align_up_lt: "0 < a \<Longrightarrow> align_up v a < v + a"
  using div_mult_mod_eq [of "v + (a - 1)" a] unfolding align_up_def by linarith

lemma align_up_dvd [simp]: "a dvd align_up v a"
  by (simp add: align_up_def)

lemma align_up_add: "0 < a \<Longrightarrow> a dvd c \<Longrightarrow> align_up (c + v) a = c + align_up v a"
proof -
  assume a: "0 < a" "a dvd c"
  then obtain q where "c = a * q" by blast
  moreover have "a * q + v + (a - 1) = a * q + (v + (a - 1))" by (rule add.assoc)
  ultimately have "(c + v + (a - 1)) div a = q + (v + (a - 1)) div a"
    using a by (simp only: div_mult_self4)
  then show ?thesis using \<open>c = a * q\<close> by (simp add: align_up_def algebra_simps)
qed

text \<open>The mask form of the source is the division form above.\<close>

lemma align_up_mask:
  "push_bit k (drop_bit k (v + (2 ^ k - 1))) = align_up v (2 ^ k)"
  by (simp add: align_up_def push_bit_eq_mult drop_bit_eq_div)

section \<open>UTF-8 strings\<close>

text \<open>
  \<^verbatim>\<open>core::str::from_utf8\<close> accepts exactly the well-formed byte sequences of the standard: no
  overlong form, no surrogate, nothing above U+10FFFF.
\<close>

definition cont :: "u8 \<Rightarrow> bool" where
  "cont b \<longleftrightarrow> 0x80 \<le> b \<and> b \<le> 0xBF"

fun utf8_valid :: "bytes \<Rightarrow> bool" where
  "utf8_valid [] = True"
| "utf8_valid (b # bs) =
     (if b \<le> 0x7F then utf8_valid bs
      else if 0xC2 \<le> b \<and> b \<le> 0xDF then
        (case bs of c1 # r \<Rightarrow> cont c1 \<and> utf8_valid r | _ \<Rightarrow> False)
      else if 0xE0 \<le> b \<and> b \<le> 0xEF then
        (case bs of c1 # c2 # r \<Rightarrow>
           (if b = 0xE0 then 0xA0 \<le> c1 \<and> c1 \<le> 0xBF
            else if b = 0xED then 0x80 \<le> c1 \<and> c1 \<le> 0x9F else cont c1)
           \<and> cont c2 \<and> utf8_valid r
         | _ \<Rightarrow> False)
      else if 0xF0 \<le> b \<and> b \<le> 0xF4 then
        (case bs of c1 # c2 # c3 # r \<Rightarrow>
           (if b = 0xF0 then 0x90 \<le> c1 \<and> c1 \<le> 0xBF
            else if b = 0xF4 then 0x80 \<le> c1 \<and> c1 \<le> 0x8F else cont c1)
           \<and> cont c2 \<and> cont c3 \<and> utf8_valid r
         | _ \<Rightarrow> False)
      else False)"

text \<open>\<^verbatim>\<open>from_utf8(bs).unwrap_or("")\<close>, and the same on the bytes before the first NUL.\<close>

definition str_or_empty :: "bytes \<Rightarrow> bytes" where
  "str_or_empty bs = (if utf8_valid bs then bs else [])"

definition cstr :: "bytes \<Rightarrow> bytes" where
  "cstr bs = str_or_empty (takeWhile (\<lambda>b. b \<noteq> 0) bs)"

lemma utf8_ascii: "\<forall>b \<in> set bs. b \<le> 0x7F \<Longrightarrow> utf8_valid bs"
  by (induction bs) auto

lemma drop_zeros: "drop k (zeros n) = zeros (n - k)" and take_zeros: "take k (zeros n) = zeros (min k n)"
  by (simp_all add: zeros_def min.commute)

text \<open>Padding does not change the text before the first NUL.\<close>

lemma takeWhile_padded: "takeWhile (\<lambda>b. b \<noteq> 0) (xs @ zeros n) = takeWhile (\<lambda>b. b \<noteq> 0) xs"
  by (induction xs) (cases n, simp_all add: zeros_def)

lemma cstr_padded: "cstr (xs @ zeros n) = cstr xs"
  by (simp add: cstr_def takeWhile_padded)

lemma takeWhile_nul: "0 \<notin> set xs \<Longrightarrow> takeWhile (\<lambda>b. b \<noteq> 0) (xs @ 0 # ys) = (xs :: bytes)"
  by (induction xs) auto

lemma takeWhile_zeros: "0 \<notin> set xs \<Longrightarrow> takeWhile (\<lambda>b. b \<noteq> 0) (xs @ zeros n) = (xs :: bytes)"
  by (cases n) (auto simp: zeros_def takeWhile_nul intro!: takeWhile_eq_all_conv [THEN iffD2])

lemma cstr_zeros: "0 \<notin> set xs \<Longrightarrow> utf8_valid xs \<Longrightarrow> cstr (xs @ zeros n) = xs"
  by (simp add: cstr_def str_or_empty_def takeWhile_zeros)

text \<open>ASCII text in a format string, and \<^verbatim>\<open>{:0kx}\<close>: the \<open>k\<close> low hexadecimal digits.\<close>

definition ascii :: "string \<Rightarrow> bytes" where
  "ascii s = map (\<lambda>c. word_of_nat (of_char c)) s"

definition hex_digit :: "nat \<Rightarrow> u8" where
  "hex_digit d = (if d < 10 then word_of_nat (48 + d) else word_of_nat (87 + d))"

fun hex_lower :: "nat \<Rightarrow> nat \<Rightarrow> bytes" where
  "hex_lower 0 n = []"
| "hex_lower (Suc k) n = hex_lower k (n div 16) @ [hex_digit (n mod 16)]"

lemma length_ascii [simp]: "length (ascii s) = length s"
  by (simp add: ascii_def)

lemma length_hex_lower [simp]: "length (hex_lower k n) = k"
  by (induction k arbitrary: n) simp_all

lemma hex_digit_inj:
  assumes "d < 16" "e < 16" "hex_digit d = hex_digit e"
  shows "d = e"
proof -
  have small: "unat (word_of_nat m :: u8) = m" if "m < 256" for m
    using that by (simp add: unat_of_nat)
  have val: "unat (hex_digit x) = (if x < 10 then 48 + x else 87 + x)" if "x < 16" for x
    using that small [of "48 + x"] small [of "87 + x"] by (simp only: hex_digit_def split: if_split) simp
  have "(if d < 10 then 48 + d else 87 + d) = (if e < 10 then 48 + e else 87 + e)"
    using val [OF assms(1)] val [OF assms(2)] assms(3) by simp
  then show ?thesis using assms(1,2) by presburger
qed

lemma hex_lower_inj: "hex_lower k m = hex_lower k n \<Longrightarrow> m mod 16 ^ k = n mod 16 ^ k"
proof (induction k arbitrary: m n)
  case (Suc k)
  then have "hex_lower k (m div 16) = hex_lower k (n div 16)" "hex_digit (m mod 16) = hex_digit (n mod 16)"
    by simp_all
  then have "m div 16 mod 16 ^ k = n div 16 mod 16 ^ k" "m mod 16 = n mod 16"
    by (blast intro: Suc.IH, intro hex_digit_inj) simp_all
  then show ?case by (simp only: power_Suc mod_mult2_eq)
qed simp

end
