(* ===== verification/Blz_Match.thy ===== *)
theory Blz_Match
  imports NX_Prelude
begin

text \<open>
  The match finder of \<^verbatim>\<open>src/blz.rs\<close>: the hash-chain index over the reversed input, the longest
  match it finds at a position, and the exhaustive search its tests compare it with.
\<close>

section \<open>Encoding constants\<close>

definition MATCH_THRESHOLD :: nat where "MATCH_THRESHOLD = 2"
definition MAX_OFFSET :: nat where "MAX_OFFSET = 0x1002"
definition MAX_MATCH :: nat where "MAX_MATCH = 2 ^ 4 + MATCH_THRESHOLD"
definition MIN_MATCH :: nat where "MIN_MATCH = MATCH_THRESHOLD + 1"
definition HASH_BITS :: nat where "HASH_BITS = 16"
definition HASH_SIZE :: nat where "HASH_SIZE = 2 ^ HASH_BITS"
definition HASH_MULTIPLIER :: u32 where "HASH_MULTIPLIER = 0x9E3779B1"

text \<open>\<^verbatim>\<open>u32::MAX\<close>, the empty bucket and the end of a chain (\<^verbatim>\<open>NONE\<close>).\<close>

definition NO_POS :: nat where "NO_POS = 2 ^ 32 - 1"

lemmas blz_consts = MATCH_THRESHOLD_def MAX_OFFSET_def MAX_MATCH_def MIN_MATCH_def

section \<open>The index\<close>

text \<open>Map the three-byte prefix at \<open>pos\<close> to a hash bucket.\<close>

definition hash :: "bytes \<Rightarrow> nat \<Rightarrow> nat" where
  "hash data pos =
     (let key = (ucast (data ! pos) :: u32)
                OR push_bit 8 (ucast (data ! (pos + 1)))
                OR push_bit 16 (ucast (data ! (pos + 2)))
      in unat (drop_bit (32 - HASH_BITS) (key * HASH_MULTIPLIER)))"

record match_finder =
  mf_data :: bytes
  mf_prev :: "nat list"

text \<open>
  One iteration of the linking loop.  The bucket table is an array of \<open>HASH_SIZE\<close> entries that
  only the loop reads; as a function from buckets to positions it is the same table.
\<close>

definition link_step ::
  "bytes \<Rightarrow> (nat \<Rightarrow> nat) \<times> nat list \<Rightarrow> nat \<Rightarrow> (nat \<Rightarrow> nat) \<times> nat list" where
  "link_step data st pos =
     (let head = fst st; prev = snd st; bucket = hash data pos
      in (head(bucket := pos mod 2 ^ 32), prev[pos := head bucket]))"

text \<open>\<^verbatim>\<open>MatchFinder::new\<close>.\<close>

definition mf_new :: "bytes \<Rightarrow> (match_finder, 'e) result" where
  "mf_new data =
     (if \<not> length data < NO_POS then Panic
      else let head = (\<lambda>_. NO_POS); prev = replicate (length data) NO_POS;
               linked = (case checked_sub (length data) (MIN_MATCH - 1) of
                           None \<Rightarrow> (head, prev)
                         | Some hashable \<Rightarrow> foldl (link_step data) (head, prev) [0..<hashable])
           in Ok \<lparr>mf_data = data, mf_prev = snd linked\<rparr>)"

section \<open>The search\<close>

text \<open>The inner loop: how far the bytes at \<open>pos\<close> agree with the bytes \<open>offset\<close> behind.\<close>

function extend :: "bytes \<Rightarrow> nat \<Rightarrow> nat \<Rightarrow> nat \<Rightarrow> nat \<Rightarrow> nat" where
  "extend data pos offset remaining len =
     (if len < MAX_MATCH \<and> len \<noteq> remaining \<and> len < offset
         \<and> data ! (pos + len) = data ! (pos + len - offset)
      then extend data pos offset remaining (len + 1) else len)"
  by pat_completeness auto
termination
  by (relation "measure (\<lambda>(data, pos, offset, remaining, len). MAX_MATCH - len)") auto

declare extend.simps [simp del]

text \<open>
  The walk along a chain, newest position first.  The fuel bounds the number of links followed;
  \<open>walk_follows_chain\<close> below shows that the fuel \<open>longest_match\<close> gives is never used up.
\<close>

fun walk :: "nat \<Rightarrow> match_finder \<Rightarrow> nat \<Rightarrow> nat \<Rightarrow> nat \<Rightarrow> nat \<Rightarrow> nat \<Rightarrow> (nat \<times> nat) option" where
  "walk 0 mf pos remaining candidate best_len best_offset = None"
| "walk (Suc fuel) mf pos remaining candidate best_len best_offset =
     (if candidate = NO_POS then Some (best_len, best_offset)
      else let offset = pos - candidate in
        if offset > MAX_OFFSET then Some (best_len, best_offset)
        else if offset \<ge> MIN_MATCH then
          (let len = extend (mf_data mf) pos offset remaining 0 in
           if len > best_len then
             (if len = MAX_MATCH then Some (len, offset)
              else walk fuel mf pos remaining (mf_prev mf ! candidate) len offset)
           else walk fuel mf pos remaining (mf_prev mf ! candidate) best_len best_offset)
        else walk fuel mf pos remaining (mf_prev mf ! candidate) best_len best_offset)"

text \<open>\<^verbatim>\<open>MatchFinder::longest_match\<close>: length of the longest match and its distance.\<close>

definition longest_match :: "match_finder \<Rightarrow> nat \<Rightarrow> nat \<times> nat" where
  "longest_match mf pos =
     (let data = mf_data mf in
      if length data < pos + MIN_MATCH then (MATCH_THRESHOLD, 0)
      else case walk (pos + 2) mf pos (length data - pos) (mf_prev mf ! pos) MATCH_THRESHOLD 0 of
             Some r \<Rightarrow> r | None \<Rightarrow> (MATCH_THRESHOLD, 0))"

section \<open>The exhaustive search\<close>

text \<open>\<^verbatim>\<open>longest_match_brute_force\<close>, which scans every offset in ascending order.\<close>

function brute_len :: "bytes \<Rightarrow> nat \<Rightarrow> nat \<Rightarrow> nat \<Rightarrow> nat" where
  "brute_len data pos offset len =
     (if len < MAX_MATCH then
        (if len = length data - pos \<or> len \<ge> offset then len
         else if data ! (pos + len) \<noteq> data ! (pos + len - offset) then len
         else brute_len data pos offset (len + 1))
      else len)"
  by pat_completeness auto
termination
  by (relation "measure (\<lambda>(data, pos, offset, len). MAX_MATCH - len)") auto

declare brute_len.simps [simp del]

fun brute_scan :: "bytes \<Rightarrow> nat \<Rightarrow> nat list \<Rightarrow> nat \<Rightarrow> nat \<Rightarrow> nat \<times> nat" where
  "brute_scan data pos [] best_len best_offset = (best_len, best_offset)"
| "brute_scan data pos (offset # offsets) best_len best_offset =
     (let len = brute_len data pos offset 0 in
      if len > best_len then
        (if len = MAX_MATCH then (len, offset)
         else brute_scan data pos offsets len offset)
      else brute_scan data pos offsets best_len best_offset)"

definition longest_match_brute_force :: "bytes \<Rightarrow> nat \<Rightarrow> nat \<times> nat" where
  "longest_match_brute_force data pos =
     brute_scan data pos [3..<Suc (min pos MAX_OFFSET)] MATCH_THRESHOLD 0"

section \<open>What a match is\<close>

lemma extend_props:
  assumes "len \<le> MAX_MATCH" "len \<le> remaining" "len \<le> offset"
    and "\<forall>j<len. data ! (pos + j) = data ! (pos + j - offset)"
  shows "extend data pos offset remaining len \<le> MAX_MATCH
       \<and> extend data pos offset remaining len \<le> remaining
       \<and> extend data pos offset remaining len \<le> offset
       \<and> (\<forall>j < extend data pos offset remaining len. data ! (pos + j) = data ! (pos + j - offset))"
  using assms
proof (induction data pos offset remaining len rule: extend.induct)
  case (1 data pos offset remaining len)
  let ?go = "len < MAX_MATCH \<and> len \<noteq> remaining \<and> len < offset
             \<and> data ! (pos + len) = data ! (pos + len - offset)"
  show ?case
  proof (cases ?go)
    case True
    have more: "\<forall>j<len + 1. data ! (pos + j) = data ! (pos + j - offset)"
    proof (intro allI impI)
      fix j assume "j < len + 1"
      then consider "j < len" | "j = len" by linarith
      then show "data ! (pos + j) = data ! (pos + j - offset)"
        using True "1.prems"(4) by cases blast+
    qed
    have step: "extend data pos offset remaining len = extend data pos offset remaining (len + 1)"
      by (subst extend.simps) (use True in argo)
    have "len + 1 \<le> MAX_MATCH" "len + 1 \<le> remaining" "len + 1 \<le> offset"
      using True "1.prems"(2) by auto
    then show ?thesis
      unfolding step by (rule "1.IH" [OF True _ _ _ more])
  next
    case False
    then have "extend data pos offset remaining len = len"
      by (subst extend.simps) argo
    with "1.prems" show ?thesis by metis
  qed
qed

lemmas extend_from_0 = extend_props [where len = 0, simplified]

lemma brute_len_extend: "brute_len data pos offset len = extend data pos offset (length data - pos) len"
proof (induction data pos offset len rule: brute_len.induct)
  case (1 data pos offset len)
  let ?go = "len < MAX_MATCH \<and> len \<noteq> length data - pos \<and> len < offset
             \<and> data ! (pos + len) = data ! (pos + len - offset)"
  note unf = brute_len.simps [of data pos offset len]
    extend.simps [of data pos offset "length data - pos" len]
  show ?case
  proof (cases ?go)
    case True
    then have "brute_len data pos offset (len + 1) = extend data pos offset (length data - pos) (len + 1)"
      by (intro "1.IH") auto
    with True show ?thesis by (simp only: unf) simp
  next
    case False
    then show ?thesis by (simp only: unf) auto
  qed
qed

lemma hash_cong:
  assumes "data ! p = data ! q" "data ! (p + 1) = data ! (q + 1)" "data ! (p + 2) = data ! (q + 2)"
  shows "hash data p = hash data q"
  using assms by (simp add: hash_def)

text \<open>A candidate in another bucket has another prefix, so it matches fewer than three bytes.\<close>

lemma extend_other_bucket:
  assumes "hash data (pos - offset) \<noteq> hash data pos" "offset \<le> pos"
  shows "extend data pos offset remaining 0 \<le> MATCH_THRESHOLD"
proof (rule ccontr)
  assume "\<not> ?thesis"
  then have three: "0 < extend data pos offset remaining 0" "1 < extend data pos offset remaining 0"
    "2 < extend data pos offset remaining 0"
    by (simp_all add: blz_consts)
  have "\<forall>j < extend data pos offset remaining 0. data ! (pos + j) = data ! (pos + j - offset)"
    using extend_from_0 [of data pos offset remaining] by blast
  with three have "data ! (pos + 0) = data ! (pos + 0 - offset)"
    "data ! (pos + 1) = data ! (pos + 1 - offset)" "data ! (pos + 2) = data ! (pos + 2 - offset)"
    by blast+
  then have "hash data pos = hash data (pos - offset)"
    using assms(2) by (intro hash_cong) (simp_all add: Suc_diff_le)
  with assms(1) show False by simp
qed

section \<open>The chains of the index\<close>

text \<open>The positions below \<open>n\<close> in bucket \<open>b\<close>, newest first.\<close>

definition chain :: "bytes \<Rightarrow> nat \<Rightarrow> nat \<Rightarrow> nat list" where
  "chain data b n = filter (\<lambda>q. hash data q = b) (rev [0..<n])"

definition chain_head :: "nat list \<Rightarrow> nat" where
  "chain_head qs = (case qs of [] \<Rightarrow> NO_POS | q # _ \<Rightarrow> q)"

lemma chain_0 [simp]: "chain data b 0 = []"
  by (simp add: chain_def)

lemma chain_Suc: "chain data b (Suc n) = (if hash data n = b then n # chain data b n else chain data b n)"
  by (simp add: chain_def)

lemma set_chain: "set (chain data b n) = {q. q < n \<and> hash data q = b}"
  by (auto simp: chain_def)

lemma length_chain: "length (chain data b n) \<le> n"
  unfolding chain_def by (rule order_trans [OF length_filter_le]) simp

lemma chain_tail: "chain data b n = q # qs \<Longrightarrow> qs = chain data b q \<and> q < n \<and> hash data q = b"
  by (induction n) (auto simp: chain_Suc split: if_splits)

text \<open>The linking loop after \<open>n\<close> positions.\<close>

lemma link_loop:
  assumes "n \<le> length data" "length data < NO_POS"
  shows "let st = foldl (link_step data) (\<lambda>_. NO_POS, replicate (length data) NO_POS) [0..<n]
         in (\<forall>b. fst st b = chain_head (chain data b n)) \<and> length (snd st) = length data
            \<and> (\<forall>p<n. snd st ! p = chain_head (chain data (hash data p) p))"
  using assms
proof (induction n)
  case 0
  then show ?case by (simp add: chain_head_def)
next
  case (Suc n)
  obtain head prev where
    st: "foldl (link_step data) (\<lambda>_. NO_POS, replicate (length data) NO_POS) [0..<n] = (head, prev)"
    by fastforce
  with Suc have IH: "\<forall>b. head b = chain_head (chain data b n)" "length prev = length data"
    "\<forall>p<n. prev ! p = chain_head (chain data (hash data p) p)"
    by (simp_all add: Let_def)
  have "n mod 2 ^ 32 = n"
    using Suc.prems by (simp add: NO_POS_def)
  then have step: "link_step data (head, prev) n = (head(hash data n := n), prev[n := head (hash data n)])"
    by (simp add: link_step_def Let_def)
  have "\<forall>b. (head(hash data n := n)) b = chain_head (chain data b (Suc n))"
    using IH(1) by (auto simp: chain_Suc chain_head_def)
  moreover have "\<forall>p<Suc n. prev[n := head (hash data n)] ! p = chain_head (chain data (hash data p) p)"
    using IH Suc.prems by (auto simp: nth_list_update less_Suc_eq)
  ultimately show ?case
    using IH(2) by (simp add: st step)
qed

lemma mf_new_chain:
  assumes "mf_new data = Ok mf"
  shows "mf_data mf = data" "length data < NO_POS" "length (mf_prev mf) = length data"
    "\<And>p. p + 2 < length data \<Longrightarrow> mf_prev mf ! p = chain_head (chain data (hash data p) p)"
proof -
  from assms show len: "length data < NO_POS" and "mf_data mf = data"
    by (auto simp: mf_new_def Let_def split: if_splits)
  show "length (mf_prev mf) = length data"
    using assms link_loop [of "length data - 2" data, OF _ len]
    by (auto simp: mf_new_def Let_def blz_consts split: if_splits option.splits)
  show "mf_prev mf ! p = chain_head (chain data (hash data p) p)" if "p + 2 < length data" for p
    using assms that link_loop [of "length data - 2" data, OF _ len]
    by (auto simp: mf_new_def Let_def blz_consts split: if_splits option.splits)
qed

lemma mf_new_Ok: "length data < NO_POS \<Longrightarrow> \<exists>mf. mf_new data = Ok mf"
  by (simp add: mf_new_def Let_def)

section \<open>Both searches are one scan\<close>

fun scan :: "(nat \<Rightarrow> nat) \<Rightarrow> nat list \<Rightarrow> nat \<Rightarrow> nat \<Rightarrow> nat \<times> nat" where
  "scan L [] best_len best_offset = (best_len, best_offset)"
| "scan L (offset # offsets) best_len best_offset =
     (if L offset > best_len then
        (if L offset = MAX_MATCH then (L offset, offset) else scan L offsets (L offset) offset)
      else scan L offsets best_len best_offset)"

lemma brute_scan_scan:
  "brute_scan data pos offsets best_len best_offset =
     scan (\<lambda>d. extend data pos d (length data - pos) 0) offsets best_len best_offset"
  by (induction offsets arbitrary: best_len best_offset) (auto simp: brute_len_extend Let_def)

lemma scan_filter:
  "\<forall>d \<in> set offsets. \<not> P d \<longrightarrow> L d \<le> best_len \<Longrightarrow>
   scan L (filter P offsets) best_len best_offset = scan L offsets best_len best_offset"
proof (induction offsets arbitrary: best_len best_offset)
  case (Cons o' offsets)
  then show ?case by (fastforce intro: Cons.IH)
qed simp

text \<open>What a scan returns is either what it started from or a longer match at an offset it was given.\<close>

lemma scan_result:
  "scan L offsets best_len best_offset = (l, off) \<Longrightarrow>
     (l = best_len \<and> off = best_offset) \<or> (best_len < l \<and> off \<in> set offsets \<and> l = L off)"
proof (induction offsets arbitrary: best_len best_offset)
  case (Cons d offsets)
  show ?case
  proof (cases "L d > best_len \<and> L d \<noteq> MAX_MATCH")
    case True
    with Cons.prems have "scan L offsets (L d) d = (l, off)" by simp
    from Cons.IH [OF this] True show ?thesis by auto
  next
    case False
    with Cons.prems have "(l = L d \<and> off = d \<and> best_len < l) \<or> scan L offsets best_len best_offset = (l, off)"
      by (auto split: if_splits)
    with Cons.IH show ?thesis by auto
  qed
qed simp

section \<open>The hash-chain search is exact\<close>

lemma walk_scan:
  assumes mf: "mf_new data = Ok mf" and pos: "pos + 2 < length data"
    and "n \<le> pos" "length (chain data b n) < fuel"
  shows "walk fuel mf pos remaining (chain_head (chain data b n)) best_len best_offset =
     Some (scan (\<lambda>d. extend data pos d remaining 0)
            (filter (\<lambda>d. MIN_MATCH \<le> d \<and> d \<le> MAX_OFFSET) (map (\<lambda>q. pos - q) (chain data b n)))
            best_len best_offset)"
  using assms(3,4)
proof (induction fuel arbitrary: n best_len best_offset)
  case (Suc fuel)
  note mfp = mf_new_chain [OF mf]
  show ?case
  proof (cases "chain data b n")
    case Nil
    then show ?thesis by (simp add: chain_head_def)
  next
    case (Cons q qs)
    with chain_tail have q: "qs = chain data b q" "q < n" "hash data q = b" by blast+
    then have "q \<noteq> NO_POS" "mf_prev mf ! q = chain_head qs"
      using mfp(2,4) pos Suc.prems(1) by auto
    moreover have "filter (\<lambda>d. MIN_MATCH \<le> d \<and> d \<le> MAX_OFFSET) (map (\<lambda>q. pos - q) qs) = []"
      if "pos - q > MAX_OFFSET"
      using that by (auto simp: filter_empty_conv q(1) set_chain)
    ultimately show ?thesis
      using Suc.IH [of q] Suc.prems Cons q mfp(1)
      by (auto simp: chain_head_def Let_def not_less)
  qed
qed simp

lemma map_diff_rev_upt: "map (\<lambda>q. pos - q) (rev [0..<pos]) = [1..<Suc pos]"
  by (rule nth_equalityI) (auto simp: rev_nth simp del: upt_Suc)

lemma chain_offsets:
  "map (\<lambda>q. pos - q) (chain data b pos) = filter (\<lambda>d. hash data (pos - d) = b) [1..<Suc pos]"
proof -
  have "filter (\<lambda>d. hash data (pos - d) = b) [1..<Suc pos] =
        map (\<lambda>q. pos - q) (filter (\<lambda>q. hash data (pos - (pos - q)) = b) (rev [0..<pos]))"
    by (simp only: map_diff_rev_upt [symmetric] filter_map comp_def)
  also have "filter (\<lambda>q. hash data (pos - (pos - q)) = b) (rev [0..<pos]) = chain data b pos"
    unfolding chain_def by (rule filter_cong) auto
  finally show ?thesis by simp
qed

lemma window_offsets:
  "[3..<Suc (min pos MAX_OFFSET)] = filter (\<lambda>d. MIN_MATCH \<le> d \<and> d \<le> MAX_OFFSET) [1..<Suc pos]"
  by (rule sorted_distinct_set_unique)
     (auto simp: blz_consts sorted_wrt_filter simp del: upt_Suc)

theorem walk_follows_chain:
  assumes mf: "mf_new data = Ok mf" and pos: "pos + 2 < length data"
  shows "walk (pos + 2) mf pos (length data - pos) (mf_prev mf ! pos) MATCH_THRESHOLD 0 =
     Some (longest_match_brute_force data pos)"
proof -
  let ?b = "hash data pos"
  let ?L = "\<lambda>d. extend data pos d (length data - pos) 0"
  let ?window = "[3..<Suc (min pos MAX_OFFSET)]"
  have "length (chain data ?b pos) < pos + 2"
    using length_chain [of data ?b pos] by simp
  then have "walk (pos + 2) mf pos (length data - pos) (mf_prev mf ! pos) MATCH_THRESHOLD 0 =
      Some (scan ?L (filter (\<lambda>d. MIN_MATCH \<le> d \<and> d \<le> MAX_OFFSET)
             (filter (\<lambda>d. hash data (pos - d) = ?b) [1..<Suc pos])) MATCH_THRESHOLD 0)"
    using walk_scan [OF mf pos order_refl] mf_new_chain(4) [OF mf pos] by (simp only: chain_offsets)
  also have "filter (\<lambda>d. MIN_MATCH \<le> d \<and> d \<le> MAX_OFFSET)
               (filter (\<lambda>d. hash data (pos - d) = ?b) [1..<Suc pos]) =
             filter (\<lambda>d. hash data (pos - d) = ?b) ?window"
    by (simp only: window_offsets filter_filter conj_commute)
  also have "scan ?L (filter (\<lambda>d. hash data (pos - d) = ?b) ?window) MATCH_THRESHOLD 0 =
             scan ?L ?window MATCH_THRESHOLD 0"
    by (intro scan_filter ballI impI extend_other_bucket) auto
  finally show ?thesis
    by (simp only: longest_match_brute_force_def brute_scan_scan)
qed

text \<open>Fewer than three bytes left: neither search reports a match.\<close>

lemma brute_force_short:
  assumes "length data < pos + MIN_MATCH"
  shows "longest_match_brute_force data pos = (MATCH_THRESHOLD, 0)"
proof -
  let ?L = "\<lambda>d. extend data pos d (length data - pos) 0"
  have "?L d \<le> MATCH_THRESHOLD" for d
    using extend_from_0 [of data pos d "length data - pos"] assms by (auto simp: blz_consts)
  then have "scan ?L [3..<Suc (min pos MAX_OFFSET)] MATCH_THRESHOLD 0 =
             scan ?L (filter (\<lambda>_. False) [3..<Suc (min pos MAX_OFFSET)]) MATCH_THRESHOLD 0"
    by (intro scan_filter [symmetric]) auto
  then show ?thesis
    by (simp add: longest_match_brute_force_def brute_scan_scan del: upt_Suc)
qed

lemma longest_match_eq:
  assumes "mf_new data = Ok mf"
  shows "longest_match mf pos = longest_match_brute_force data pos"
proof (cases "length data < pos + MIN_MATCH")
  case True
  then show ?thesis
    using mf_new_chain(1) [OF assms] by (simp add: longest_match_def brute_force_short)
next
  case False
  then have "pos + 2 < length data" by (simp add: blz_consts)
  from walk_follows_chain [OF assms this] False show ?thesis
    using mf_new_chain(1) [OF assms] by (simp add: longest_match_def)
qed

section \<open>The contract the encoder relies on\<close>

text \<open>
  The encoder uses a search only through this contract: a reported length above the threshold is
  a true match, at a distance and of a length that a back-reference can record, and it does not
  overlap the position it starts from.
\<close>

locale match_source =
  fixes data :: bytes and search :: "nat \<Rightarrow> nat \<times> nat"
  assumes search_sound: "search pos = (l, off) \<Longrightarrow> MATCH_THRESHOLD < l \<Longrightarrow>
      MIN_MATCH \<le> off \<and> off \<le> MAX_OFFSET \<and> off \<le> pos \<and> l \<le> MAX_MATCH \<and> pos + l \<le> length data
      \<and> (\<forall>j<l. data ! (pos + j) = data ! (pos + j - off))"

lemma brute_force_sound:
  assumes "longest_match_brute_force data pos = (l, off)" "MATCH_THRESHOLD < l"
  shows "MIN_MATCH \<le> off \<and> off \<le> MAX_OFFSET \<and> off \<le> pos \<and> l \<le> MAX_MATCH \<and> pos + l \<le> length data
      \<and> (\<forall>j<l. data ! (pos + j) = data ! (pos + j - off))"
proof -
  let ?L = "\<lambda>d. extend data pos d (length data - pos) 0"
  from assms have "scan ?L [3..<Suc (min pos MAX_OFFSET)] MATCH_THRESHOLD 0 = (l, off)"
    by (simp only: longest_match_brute_force_def brute_scan_scan)
  from scan_result [OF this] assms(2)
  have "off \<in> set [3..<Suc (min pos MAX_OFFSET)]" and l: "l = ?L off"
    by auto
  then have "MIN_MATCH \<le> off" "off \<le> MAX_OFFSET" "off \<le> pos"
    by (auto simp: blz_consts simp del: upt_Suc)
  moreover have "l \<le> MAX_MATCH" "l \<le> length data - pos"
    "\<forall>j<l. data ! (pos + j) = data ! (pos + j - off)"
    using extend_from_0 [of data pos off "length data - pos"] by (simp_all add: l)
  moreover from \<open>l \<le> length data - pos\<close> assms(2) have "pos + l \<le> length data"
    by (simp add: blz_consts)
  ultimately show ?thesis by blast
qed

interpretation brute: match_source data "longest_match_brute_force data" for data
  by unfold_locales (rule brute_force_sound)

end
