(* ===== verification/Blz_Encode.thy ===== *)
theory Blz_Encode
  imports Blz_Match
begin

text \<open>
  The encoder of \<^verbatim>\<open>src/blz.rs\<close>: \<^verbatim>\<open>compress_into\<close> as a step function over its local
  variables, the two ways it lays the finished stream out, and \<^verbatim>\<open>compress\<close> itself.  Every write
  to the output buffer is a bounds-checked store, so that a buffer that is too small is a panic.
\<close>

definition FLAG_SHIFT :: nat where "FLAG_SHIFT = 1"
definition FLAG_MASK_INIT :: u8 where "FLAG_MASK_INIT = 0x80"

text \<open>The local variables of the encoding loop.\<close>

record enc_state =
  e_mask :: u8
  e_read :: nat
  e_write :: nat
  e_flag :: nat
  e_out :: bytes
  e_best_packed :: nat
  e_best_remaining :: nat

definition enc_init :: "nat \<Rightarrow> bytes \<Rightarrow> enc_state" where
  "enc_init len output =
     \<lparr>e_mask = 0, e_read = 0, e_write = 0, e_flag = 0, e_out = output,
      e_best_packed = 0, e_best_remaining = len\<rparr>"

text \<open>Start a new flag byte when the eight bits of the current one are used up.\<close>

definition open_flag :: "enc_state \<Rightarrow> (enc_state, 'e) result" where
  "open_flag st =
     (let mask = drop_bit FLAG_SHIFT (e_mask st) in
      if mask = 0 then
        rbind (store (e_out st) (e_write st) 0) (\<lambda>out.
          Ok (st\<lparr>e_mask := FLAG_MASK_INIT, e_flag := e_write st, e_out := out,
                 e_write := e_write st + 1\<rparr>))
      else Ok (st\<lparr>e_mask := mask\<rparr>))"

text \<open>
  Lazy matching: compare emitting this match now against deferring it by one byte.
\<close>

definition lazy_len :: "(nat \<Rightarrow> nat \<times> nat) \<Rightarrow> nat \<Rightarrow> nat \<Rightarrow> nat \<Rightarrow> nat" where
  "lazy_len search len read_pos match_len =
     (if match_len > MATCH_THRESHOLD \<and> read_pos + match_len < len then
        let next_len = fst (search (read_pos + match_len));
            post_len = fst (search (read_pos + 1));
            next_len = (if next_len \<le> MATCH_THRESHOLD then 1 else next_len);
            post_len = (if post_len \<le> MATCH_THRESHOLD then 1 else post_len)
        in if match_len + next_len \<le> 1 + post_len then 1 else match_len
      else match_len)"

text \<open>Emit one code: its flag bit, then a literal byte or a two-byte back-reference.\<close>

definition emit_code :: "bytes \<Rightarrow> nat \<Rightarrow> nat \<Rightarrow> enc_state \<Rightarrow> (enc_state, 'e) result" where
  "emit_code input match_len match_offset st =
     rbind (at (e_out st) (e_flag st)) (\<lambda>flag.
     rbind (store (e_out st) (e_flag st) (push_bit 1 flag)) (\<lambda>out.
       if match_len > MATCH_THRESHOLD then
         rbind (at out (e_flag st)) (\<lambda>flag.
         rbind (store out (e_flag st) (flag OR 1)) (\<lambda>out.
         rbind (usub match_offset 3) (\<lambda>dist.
         rbind (store out (e_write st)
                  (word_of_nat (push_bit 4 (match_len - (MATCH_THRESHOLD + 1)) OR drop_bit 8 dist))) (\<lambda>out.
         rbind (store out (e_write st + 1) (word_of_nat (dist AND 0xFF))) (\<lambda>out.
           Ok (st\<lparr>e_out := out, e_read := e_read st + match_len, e_write := e_write st + 2\<rparr>))))))
       else
         rbind (at input (e_read st)) (\<lambda>b.
         rbind (store out (e_write st) b) (\<lambda>out.
           Ok (st\<lparr>e_out := out, e_read := e_read st + 1, e_write := e_write st + 1\<rparr>)))))"

text \<open>Keep the split point where packed and still-raw bytes together are fewest.\<close>

definition track_best :: "nat \<Rightarrow> enc_state \<Rightarrow> enc_state" where
  "track_best len st =
     (if e_write st + len - e_read st < e_best_packed st + e_best_remaining st
      then st\<lparr>e_best_packed := e_write st, e_best_remaining := len - e_read st\<rparr> else st)"

text \<open>One iteration of the encoding loop.\<close>

definition enc_step :: "(nat \<Rightarrow> nat \<times> nat) \<Rightarrow> bytes \<Rightarrow> enc_state \<Rightarrow> (enc_state, 'e) result" where
  "enc_step search input st =
     rbind (open_flag st) (\<lambda>st.
       let m = search (e_read st);
           match_len = lazy_len search (length input) (e_read st) (fst m)
       in rbind (emit_code input match_len (snd m) st) (\<lambda>st.
            Ok (track_best (length input) st)))"

lemma emit_code_read: "emit_code input ml off st = Ok st' \<Longrightarrow> e_read st < e_read st'"
  by (auto simp: emit_code_def rbind_eq_Ok MATCH_THRESHOLD_def split: if_splits)

lemma enc_step_read: "enc_step search input st = Ok st' \<Longrightarrow> e_read st < e_read st'"
  by (auto simp: enc_step_def open_flag_def track_best_def Let_def rbind_eq_Ok
      split: if_splits dest!: emit_code_read)

function enc_loop :: "(nat \<Rightarrow> nat \<times> nat) \<Rightarrow> bytes \<Rightarrow> enc_state \<Rightarrow> (enc_state, 'e) result" where
  "enc_loop search input st =
     (if e_read st < length input then
        (case enc_step search input st of
           Ok st' \<Rightarrow> enc_loop search input st' | Err e \<Rightarrow> Err e | Panic \<Rightarrow> Panic)
      else Ok st)"
  by pat_completeness auto
termination
  by (relation "measure (\<lambda>(search, input, st). length input - e_read st)")
     (auto dest: enc_step_read)

declare enc_loop.simps [simp del]

text \<open>Flush the trailing flag byte by shifting out its unused bits.\<close>

lemma drop_bit_less: "(m :: u8) \<noteq> 0 \<Longrightarrow> unat (drop_bit (Suc 0) m) < unat m"
proof -
  assume "m \<noteq> 0"
  then have "0 < unat m" by (simp add: unat_gt_0)
  moreover have "unat (drop_bit (Suc 0) m) = unat m div 2"
    by (simp add: unsigned_drop_bit_eq drop_bit_eq_div unat_div)
  ultimately show ?thesis by simp
qed

function flush :: "u8 \<Rightarrow> nat \<Rightarrow> bytes \<Rightarrow> (bytes, 'e) result" where
  "flush m flag_pos out =
     (if m \<noteq> 0 \<and> m \<noteq> 1 then
        rbind (at out flag_pos) (\<lambda>flag.
        rbind (store out flag_pos (push_bit 1 flag)) (\<lambda>out.
          flush (drop_bit FLAG_SHIFT m) flag_pos out))
      else Ok out)"
  by pat_completeness auto
termination
  by (relation "measure (\<lambda>(m, flag_pos, out). unat m)") (auto simp: FLAG_SHIFT_def drop_bit_less)

declare flush.simps [simp del]

section \<open>The two layouts of a stream\<close>

text \<open>
  \<^verbatim>\<open>packed_header_size\<close>: the twelve trailer bytes and the padding before them; the padding is
  the two low bits of the 64-bit negation of the end of the packed region.
\<close>

definition packed_header_size :: "nat \<Rightarrow> nat" where
  "packed_header_size packed_end = 12 + unat ((- word_of_nat packed_end :: u64) AND 3)"

text \<open>The padding loop of both layouts: fill with \<open>v\<close> up to a multiple of four.\<close>

lemma nat_and_3: "(n :: nat) AND 3 = n mod 4"
proof -
  have "n AND mask 2 = take_bit 2 n" by (simp only: take_bit_eq_mask)
  then show ?thesis by (simp add: mask_eq_exp_minus_1 take_bit_eq_mod)
qed

function pad4 :: "u8 \<Rightarrow> bytes \<Rightarrow> nat \<Rightarrow> (bytes \<times> nat, 'e) result" where
  "pad4 v out pos =
     (if pos AND 3 \<noteq> 0 then rbind (store out pos v) (\<lambda>out. pad4 v out (pos + 1)) else Ok (out, pos))"
  by pat_completeness auto
termination
proof (relation "measure (\<lambda>(v, out, pos :: nat). (4 - pos mod 4) mod 4)", goal_cases)
  case (2 v out pos x)
  have "(4 - (pos + 1) mod 4) mod 4 < (4 - pos mod 4) mod 4" if "pos mod 4 \<noteq> 0"
    using that mod_less_divisor [of 4 pos] by (auto simp: mod_Suc simp del: mod_less_divisor)
  with 2 show ?case by (simp add: nat_and_3)
qed simp

declare pad4.simps [simp del]

definition store_uncompressed :: "bytes \<Rightarrow> bytes \<Rightarrow> (bytes \<times> nat, 'e) result" where
  "store_uncompressed input output =
     rbind (copy_at output 0 input) (\<lambda>output.
     rbind (pad4 0 output (length input)) (\<lambda>(output, pos).
     rbind (copy_at output pos (le32 0)) (\<lambda>output. Ok (output, pos + 4))))"

text \<open>The relocation loop of \<^verbatim>\<open>store_packed\<close>, one byte per iteration.\<close>

definition relocate :: "bytes \<Rightarrow> nat \<Rightarrow> nat \<Rightarrow> nat \<Rightarrow> (bytes, 'e) result" where
  "relocate output remaining packed_start count =
     rfold (\<lambda>out i. rbind (at out (packed_start + i)) (\<lambda>b. store out (remaining + i) b))
       output [0..<count]"

definition footer_bytes :: "nat \<Rightarrow> nat \<Rightarrow> nat \<Rightarrow> bytes" where
  "footer_bytes enc_len header_size extra_len =
     le32 (word_of_nat enc_len) @ le32 (word_of_nat header_size) @ le32 (word_of_nat extra_len)"

definition store_packed ::
  "bytes \<Rightarrow> bytes \<Rightarrow> nat \<Rightarrow> nat \<Rightarrow> nat \<Rightarrow> (bytes \<times> nat, 'e) result" where
  "store_packed input output packed_len best_packed remaining =
     rbind (usub packed_len best_packed) (\<lambda>packed_start.
     rbind (relocate output remaining packed_start best_packed) (\<lambda>output.
     rbind (slice input 0 remaining) (\<lambda>prefix.
     rbind (copy_at output 0 prefix) (\<lambda>output.
       let pos = remaining + best_packed; header_size = packed_header_size pos in
       rbind (usub (length input) best_packed) (\<lambda>n.
       rbind (usub n remaining) (\<lambda>inc_len.
       rbind (pad4 0xFF output pos) (\<lambda>(output, pos).
       rbind (usub inc_len header_size) (\<lambda>extra_len.
       rbind (copy_at output pos (footer_bytes (best_packed + header_size) header_size extra_len)) (\<lambda>output.
         Ok (output, pos + 12))))))))))"

section \<open>The whole encoder\<close>

text \<open>Choose the layout once the encoding loop is done and the packed region is reversed.\<close>

definition finish ::
  "bytes \<Rightarrow> bytes \<Rightarrow> nat \<Rightarrow> nat \<Rightarrow> nat \<Rightarrow> (bytes \<times> nat, 'e) result" where
  "finish input output packed_len best_packed best_remaining =
     (let len = length input in
      rbind (usub len best_packed) (\<lambda>n.
      rbind (usub n best_remaining) (\<lambda>saved.
        let trailer_fits = saved > packed_header_size (best_remaining + best_packed) in
        if best_packed = 0 \<or> \<not> trailer_fits
           \<or> len + 4 < ((best_packed + best_remaining + 3) AND 0xFFFFFFFC) + 8
        then store_uncompressed input output
        else store_packed input output packed_len best_packed best_remaining)))"

definition compress_into :: "bytes \<Rightarrow> bytes \<Rightarrow> (bytes \<times> nat, 'e) result" where
  "compress_into input output =
     (let reversed = rev input in
      rbind (mf_new reversed) (\<lambda>finder.
      rbind (enc_loop (longest_match finder) reversed (enc_init (length reversed) output)) (\<lambda>st.
      rbind (flush (e_mask st) (e_flag st) (e_out st)) (\<lambda>out.
        let packed_len = e_write st;
            out = rev (take packed_len out) @ drop packed_len out
        in finish input out packed_len (e_best_packed st) (e_best_remaining st)))))"

definition worst_case_len :: "nat \<Rightarrow> nat" where
  "worst_case_len raw_len = raw_len + div_ceil raw_len 8 + 15"

definition compress :: "bytes \<Rightarrow> (bytes, 'e) result" where
  "compress data =
     rbind (compress_into data (zeros (worst_case_len (length data)))) (\<lambda>(output, len).
       Ok (take len output))"

end
