(* ===== verification/Blz_Decode.thy ===== *)
theory Blz_Decode
  imports Blz_Encode
begin

text \<open>
  The decoder of \<^verbatim>\<open>src/blz.rs\<close>.  It works in one buffer, as the code does: the stream is
  copied into a buffer of the final length, the packed region is read downwards from \<open>cmp\<close> and the
  output is written downwards from \<open>dst\<close>.  Reads and writes are bounds-checked, so an index outside
  the buffer is a panic and every rejection of a stream is an error.
\<close>

datatype decompress_error =
    Blz_BufferTooSmall (required: nat) (available: nat)
  | Blz_MalformedTrailer (enc_len: nat) (header_size: nat) (available: nat)
  | Blz_TruncatedCode (code_at: nat)
  | Blz_OutputUnderflow
  | Blz_UnexpectedLength (expected: nat) (produced: nat)
  | Blz_MatchOutOfBounds (dst: nat) (distance: nat)

text \<open>The little-endian \<^verbatim>\<open>u32\<close> sitting \<open>back\<close> bytes from the end of \<open>data\<close>.\<close>

definition trailing_u32 :: "bytes \<Rightarrow> nat \<Rightarrow> u32 option" where
  "trailing_u32 data back =
     (case checked_sub (length data) back of
        None \<Rightarrow> None
      | Some start \<Rightarrow>
          (case get_range data start (start + 4) of
             None \<Rightarrow> None
           | Some bs \<Rightarrow> Some (word_of_nat (le_nat bs))))"

text \<open>Copy one literal byte from the packed region to the output cursor.\<close>

definition copy_literal :: "bytes \<Rightarrow> nat \<Rightarrow> nat \<Rightarrow> (bytes \<times> nat, decompress_error) result" where
  "copy_literal out cmp d =
     rbind (ok_or Blz_OutputUnderflow (checked_sub d 1)) (\<lambda>d.
     rbind (at out cmp) (\<lambda>b.
     rbind (store out d b) (\<lambda>out. Ok (out, d))))"

text \<open>Copy \<open>length\<close> bytes from \<open>distance\<close> ahead of the output cursor, one byte at a time.\<close>

fun copy_match :: "bytes \<Rightarrow> nat \<Rightarrow> nat \<Rightarrow> nat \<Rightarrow> (bytes \<times> nat, decompress_error) result" where
  "copy_match out d 0 dist = Ok (out, d)"
| "copy_match out d (Suc n) dist =
     rbind (ok_or Blz_OutputUnderflow (checked_sub d 1)) (\<lambda>d.
     rbind (ok_or (Blz_MatchOutOfBounds d dist)
              (case checked_add d dist of
                 None \<Rightarrow> None
               | Some from \<Rightarrow> if from < length out then Some from else None)) (\<lambda>from.
     rbind (at out from) (\<lambda>b.
     rbind (store out d b) (\<lambda>out. copy_match out d n dist))))"

text \<open>The inner loop: at most eight codes under one flag byte.\<close>

fun decode_codes ::
  "nat \<Rightarrow> u8 \<Rightarrow> nat \<Rightarrow> bytes \<Rightarrow> nat \<Rightarrow> nat \<Rightarrow> (bytes \<times> nat \<times> nat, decompress_error) result" where
  "decode_codes 0 flags packed_start out cmp d = Ok (out, cmp, d)"
| "decode_codes (Suc n) flags packed_start out cmp d =
     (if cmp \<le> packed_start then Ok (out, cmp, d)
      else if flags AND FLAG_MASK_INIT = 0 then
        rbind (copy_literal out (cmp - 1) d) (\<lambda>(out, d).
          decode_codes n (push_bit FLAG_SHIFT flags) packed_start out (cmp - 1) d)
      else if cmp - packed_start < 2 then Err (Blz_TruncatedCode cmp)
      else
        rbind (at out (cmp - 1)) (\<lambda>first.
        rbind (at out (cmp - 2)) (\<lambda>second.
          let len = unat (drop_bit 4 first) + MIN_MATCH;
              dist = (push_bit 8 (unat (first AND 0x0F)) OR unat second) + MIN_MATCH
          in rbind (copy_match out d len dist) (\<lambda>(out, d).
               decode_codes n (push_bit FLAG_SHIFT flags) packed_start out (cmp - 2) d))))"

lemma decode_codes_cmp:
  "decode_codes n flags ps out cmp d = Ok (out', cmp', d') \<Longrightarrow> cmp' \<le> cmp"
proof (induction n arbitrary: flags out cmp d)
  case (Suc n)
  then show ?case
    by (fastforce simp: rbind_eq_Ok Let_def split: if_splits dest!: Suc.IH)
qed simp

text \<open>The outer loop: read a flag byte, then the codes under it, down to the start of the region.\<close>

function decode_loop ::
  "nat \<Rightarrow> bytes \<Rightarrow> nat \<Rightarrow> nat \<Rightarrow> (bytes, decompress_error) result" where
  "decode_loop packed_start out cmp d =
     (if cmp > packed_start then
        rbind (at out (cmp - 1)) (\<lambda>flags.
        rbind (decode_codes 8 flags packed_start out (cmp - 1) d) (\<lambda>(out', cmp', d').
          decode_loop packed_start out' cmp' d'))
      else Ok out)"
  by pat_completeness auto
termination
  by (relation "measure (\<lambda>(packed_start, out, cmp, d). cmp)") (auto dest!: decode_codes_cmp)

declare decode_loop.simps [simp del]

text \<open>\<^verbatim>\<open>decompress\<close>.\<close>

definition decompress :: "bytes \<Rightarrow> nat \<Rightarrow> (bytes, decompress_error) result" where
  "decompress data decompressed_size =
     rbind (ok_or (Blz_BufferTooSmall 4 (length data)) (trailing_u32 data 4)) (\<lambda>extra.
       if extra = 0 then
         rbind (slice data 0 (length data - 4)) (\<lambda>stored.
           ok_or (Blz_UnexpectedLength decompressed_size (length stored))
             (get_range stored 0 decompressed_size))
       else
         let footer_size = 12 in
         rbind (ok_or (Blz_BufferTooSmall footer_size (length data)) (trailing_u32 data 8)) (\<lambda>hs.
         rbind (ok_or (Blz_BufferTooSmall footer_size (length data)) (trailing_u32 data footer_size)) (\<lambda>el.
           let header = unat hs; enc = unat el; total = length data;
               malformed = Blz_MalformedTrailer enc header total
           in if header < footer_size \<or> header > enc \<or> enc > total then Err malformed
              else rbind (ok_or malformed (checked_add total (unat extra))) (\<lambda>final_len.
                   rbind (copy_at (zeros final_len) 0 data) (\<lambda>out.
                   rbind (decode_loop (total - enc) out (total - header) final_len) (\<lambda>out.
                     if length out \<noteq> decompressed_size
                     then Err (Blz_UnexpectedLength decompressed_size (length out))
                     else Ok out))))))"

section \<open>The decoder keeps the buffer's length and never leaves it\<close>

lemma copy_literal_len: "copy_literal out cmp d = Ok (out', d') \<Longrightarrow> length out' = length out \<and> d' \<le> d"
  by (auto simp: copy_literal_def rbind_eq_Ok)

lemma copy_match_len: "copy_match out d n dist = Ok (out', d') \<Longrightarrow> length out' = length out \<and> d' \<le> d"
proof (induction n arbitrary: out d)
  case (Suc n)
  then show ?case by (fastforce simp: rbind_eq_Ok split: option.splits if_splits dest!: Suc.IH)
qed simp

lemma decode_codes_len:
  "decode_codes n flags ps out cmp d = Ok (out', cmp', d') \<Longrightarrow> length out' = length out \<and> d' \<le> d"
proof (induction n arbitrary: flags out cmp d)
  case (Suc n)
  then show ?case
    by (fastforce simp: rbind_eq_Ok Let_def split: if_splits
        dest!: Suc.IH copy_literal_len copy_match_len)
qed simp

text \<open>
  The two ways the outer loop goes: it is done, or it reads a flag byte and runs the inner loop.
\<close>

lemma decode_loop_done: "\<not> ps < cmp \<Longrightarrow> decode_loop ps out cmp d = Ok out"
  by (subst decode_loop.simps) simp

lemma decode_loop_step:
  "ps < cmp \<Longrightarrow> decode_loop ps out cmp d =
     rbind (at out (cmp - 1)) (\<lambda>flags.
     rbind (decode_codes 8 flags ps out (cmp - 1) d) (\<lambda>(out', cmp', d').
       decode_loop ps out' cmp' d'))"
  by (subst decode_loop.simps) simp

lemma decode_loop_len: "decode_loop ps out cmp d = Ok out' \<Longrightarrow> length out' = length out"
proof (induction ps out cmp d rule: decode_loop.induct)
  case (1 ps out cmp d)
  show ?case
  proof (cases "ps < cmp")
    case True
    with "1.prems" obtain flags o1 c1 d1 where
      step: "(at out (cmp - 1) :: (u8, decompress_error) result) = Ok flags" "decode_codes 8 flags ps out (cmp - 1) d = Ok (o1, c1, d1)"
      "decode_loop ps o1 c1 d1 = Ok out'"
      by (auto simp: decode_loop_step rbind_eq_Ok)
    from "1.IH" [OF True step(1,2) refl refl step(3)] decode_codes_len [OF step(2)]
    show ?thesis by simp
  next
    case False
    with "1.prems" show ?thesis by (simp add: decode_loop_done)
  qed
qed

lemma copy_literal_no_panic:
  "cmp < length out \<Longrightarrow> d \<le> length out \<Longrightarrow> copy_literal out cmp d \<noteq> Panic"
  by (auto simp: copy_literal_def rbind_eq_Panic)

lemma copy_match_no_panic: "d \<le> length out \<Longrightarrow> copy_match out d n dist \<noteq> Panic"
proof (induction n arbitrary: out d)
  case (Suc n)
  then show ?case by (auto simp: rbind_eq_Panic split: option.splits if_splits)
qed simp

lemma decode_codes_no_panic:
  "cmp \<le> length out \<Longrightarrow> d \<le> length out \<Longrightarrow> decode_codes n flags ps out cmp d \<noteq> Panic"
proof (induction n arbitrary: flags out cmp d)
  case (Suc n)
  have next_ok: "decode_codes n fl ps o' c d' \<noteq> Panic"
    if "length o' = length out \<and> d' \<le> d" "c \<le> cmp" for fl o' c d'
    using that Suc.prems by (intro Suc.IH) auto
  show ?case
    using Suc.prems
    by (auto simp: Let_def rbind_eq_Panic next_ok copy_literal_no_panic copy_match_no_panic
        split: if_splits dest!: copy_literal_len copy_match_len)
qed simp

lemma decode_loop_no_panic:
  "cmp \<le> length out \<Longrightarrow> d \<le> length out \<Longrightarrow> decode_loop ps out cmp d \<noteq> Panic"
proof (induction ps out cmp d rule: decode_loop.induct)
  case (1 ps out cmp d)
  have inner: "decode_codes 8 flags ps out (cmp - 1) d \<noteq> Panic" for flags
    using "1.prems" by (intro decode_codes_no_panic) auto
  show ?case
  proof (cases "ps < cmp")
    case True
    have "decode_loop ps o1 c1 d1 \<noteq> Panic"
      if "(at out (cmp - 1) :: (u8, decompress_error) result) = Ok flags" "decode_codes 8 flags ps out (cmp - 1) d = Ok (o1, c1, d1)"
      for flags o1 c1 d1
      using "1.IH" [OF True that refl refl] decode_codes_len [OF that(2)] decode_codes_cmp [OF that(2)]
        "1.prems" by simp
    moreover have "at out (cmp - 1) \<noteq> (Panic :: (u8, decompress_error) result)"
      using True "1.prems" by simp
    ultimately show ?thesis
      using inner by (auto simp: decode_loop_step [OF True] rbind_eq_Panic)
  next
    case False
    then show ?thesis by (simp add: decode_loop_done)
  qed
qed

lemma decompress_no_panic_lib: "decompress data n \<noteq> Panic"
  by (auto simp: decompress_def rbind_eq_Panic Let_def decode_loop_no_panic)

lemma decompress_length_lib: "decompress data n = Ok out \<Longrightarrow> length out = n"
  by (auto simp: decompress_def rbind_eq_Ok Let_def split: if_splits)

end
