(* ===== verification/Blz_Stream.thy ===== *)
theory Blz_Stream
  imports Blz_Decode
begin

text \<open>
  The code stream as data: literals and back-references in groups of eight under a flag byte.
  The decoder is shown to reproduce the data a valid stream describes, in place, whenever the
  write cursor stays ahead of the read cursor at every code boundary.
\<close>

section \<open>Codes and their bytes\<close>

datatype code = Lit u8 | Ref nat nat

fun code_len :: "code \<Rightarrow> nat" where
  "code_len (Lit b) = 1"
| "code_len (Ref l d) = l"

fun code_bytes :: "code \<Rightarrow> bytes" where
  "code_bytes (Lit b) = [b]"
| "code_bytes (Ref l d) =
     [word_of_nat (push_bit 4 (l - (MATCH_THRESHOLD + 1)) OR drop_bit 8 (d - 3)),
      word_of_nat ((d - 3) AND 0xFF)]"

fun code_bit :: "code \<Rightarrow> bool" where
  "code_bit (Lit b) = False"
| "code_bit (Ref l d) = True"

definition rsize :: "code list \<Rightarrow> nat" where "rsize cs = sum_list (map code_len cs)"
definition bsize :: "code list \<Rightarrow> nat" where "bsize cs = length (concat (map code_bytes cs))"

text \<open>Bytes of a stream holding \<open>cs\<close>: the codes and one flag byte per eight of them.\<close>

definition psize :: "code list \<Rightarrow> nat" where "psize cs = (length cs + 7) div 8 + bsize cs"

lemma rsize_simps [simp]:
  "rsize [] = 0" "rsize (c # cs) = code_len c + rsize cs" "rsize (cs @ ds) = rsize cs + rsize ds"
  by (simp_all add: rsize_def)

lemma bsize_simps [simp]:
  "bsize [] = 0" "bsize (c # cs) = length (code_bytes c) + bsize cs" "bsize (cs @ ds) = bsize cs + bsize ds"
  by (simp_all add: bsize_def)

lemma psize_Nil [simp]: "psize [] = 0"
  by (simp add: psize_def)

lemma psize_group: "length g = 8 \<Longrightarrow> psize (g @ cs) = 1 + bsize g + psize cs"
  by (simp add: psize_def)

lemma psize_short: "g \<noteq> [] \<Longrightarrow> length g \<le> 8 \<Longrightarrow> psize g = 1 + bsize g"
  by (cases g) (auto simp: psize_def div_nat_eqI)

lemma unat_word8: "n < 256 \<Longrightarrow> unat (word_of_nat n :: u8) = n"
  by (simp add: unat_of_nat)

lemma or_disjoint_nat: "b < 2 ^ n \<Longrightarrow> push_bit n a OR b = 2 ^ n * a + (b :: nat)"
proof -
  assume "b < 2 ^ n"
  then have "take_bit n b = b" by (simp add: take_bit_nat_eq_self)
  then have low: "bit b m \<Longrightarrow> m < n" for m
    by (metis bit_take_bit_iff)
  have "push_bit n a AND b = 0"
    by (rule bit_eqI) (auto simp: bit_and_iff bit_push_bit_iff dest: low)
  then show ?thesis
    by (simp add: disjunctive_add_eq_or [symmetric] push_bit_eq_mult mult.commute)
qed

text \<open>The two bytes of a back-reference give its length and its distance back.\<close>

lemma ref_bytes_decode:
  assumes "MIN_MATCH \<le> l" "l \<le> MAX_MATCH" "MIN_MATCH \<le> d" "d \<le> MAX_OFFSET"
    and "code_bytes (Ref l d) = [b0, b1]"
  shows "unat (drop_bit 4 b0) + MIN_MATCH = l"
    and "(push_bit 8 (unat (b0 AND 0x0F)) OR unat b1) + MIN_MATCH = d"
proof -
  define a h t where "a = l - 3" and "h = (d - 3) div 256" and "t = (d - 3) mod 256"
  have range: "d - 3 < 4096" "3 \<le> d" "3 \<le> l" "l \<le> 18"
    using assms(1-4) by (simp_all add: blz_consts)
  have split: "d - 3 = 256 * h + t"
    unfolding h_def t_def by (rule mult_div_mod_eq [symmetric])
  have a: "a < 16" "l = a + 3" using range by (simp_all add: a_def)
  have t: "t < 256" unfolding t_def by simp
  have h: "h < 16" "d = 256 * h + t + 3" using range split by linarith+
  have "drop_bit 8 (d - 3) = h" unfolding h_def by (simp add: drop_bit_eq_div)
  then have "push_bit 4 a OR drop_bit 8 (d - 3) = 16 * a + h"
    using or_disjoint_nat [of h 4 a] h(1) by simp
  moreover have "(d - 3) AND 255 = t"
  proof -
    have "(d - 3) AND mask 8 = take_bit 8 (d - 3)" by (simp only: take_bit_eq_mask)
    then show ?thesis unfolding t_def by (simp add: mask_eq_exp_minus_1 take_bit_eq_mod)
  qed
  ultimately have b: "b0 = word_of_nat (16 * a + h)" "b1 = word_of_nat t"
    using assms(5) unfolding a_def by (simp_all add: blz_consts)
  have u: "unat b0 = 16 * a + h" "unat b1 = t"
    unfolding b using a(1) h(1) t by (simp_all only: unat_word8)
  have "unat (drop_bit 4 b0) = unat b0 div 16"
    by (simp add: unsigned_drop_bit_eq drop_bit_eq_div unat_div)
  then show "unat (drop_bit 4 b0) + MIN_MATCH = l"
    using u(1) a h(1) by (simp add: blz_consts)
  have "b0 AND 0x0F = take_bit 4 b0"
    by (simp add: take_bit_eq_mask mask_eq_exp_minus_1)
  then have "unat (b0 AND 0x0F) = h"
    using u(1) h(1) by (simp add: unsigned_take_bit_eq take_bit_eq_mod unat_mod)
  then show "(push_bit 8 (unat (b0 AND 0x0F)) OR unat b1) + MIN_MATCH = d"
    using or_disjoint_nat [of t 8 h] u(2) t h(2) by (simp add: blz_consts)
qed

section \<open>Validity of a code at a cursor\<close>

text \<open>
  With the bytes of \<open>D\<close> from \<open>d\<close> on already produced, a code describes the bytes just below \<open>d\<close>.
\<close>

fun valid_code :: "bytes \<Rightarrow> nat \<Rightarrow> code \<Rightarrow> bool" where
  "valid_code D d (Lit b) \<longleftrightarrow> 0 < d \<and> D ! (d - 1) = b"
| "valid_code D d (Ref l k) \<longleftrightarrow>
     MIN_MATCH \<le> l \<and> l \<le> MAX_MATCH \<and> MIN_MATCH \<le> k \<and> k \<le> MAX_OFFSET
     \<and> l \<le> d \<and> d + k \<le> length D \<and> (\<forall>j<l. D ! (d - 1 - j) = D ! (d - 1 - j + k))"

fun valid_codes :: "bytes \<Rightarrow> nat \<Rightarrow> code list \<Rightarrow> bool" where
  "valid_codes D d [] \<longleftrightarrow> True"
| "valid_codes D d (c # cs) \<longleftrightarrow> valid_code D d c \<and> valid_codes D (d - code_len c) cs"

text \<open>The write cursor never falls below the read cursor, at any code boundary.\<close>

fun fits :: "nat \<Rightarrow> nat \<Rightarrow> code list \<Rightarrow> bool" where
  "fits cmp d [] \<longleftrightarrow> cmp \<le> d"
| "fits cmp d (c # cs) \<longleftrightarrow>
     cmp \<le> d \<and> length (code_bytes c) \<le> cmp \<and> fits (cmp - length (code_bytes c)) (d - code_len c) cs"

lemma fits_head: "fits cmp d cs \<Longrightarrow> cmp \<le> d"
  by (cases cs) auto

lemma valid_code_len: "valid_code D d c \<Longrightarrow> code_len c \<le> d"
  by (cases c) auto

lemma valid_codes_append:
  "valid_codes D d (cs @ ds) \<longleftrightarrow> valid_codes D d cs \<and> valid_codes D (d - rsize cs) ds"
  by (induction cs arbitrary: d) auto

lemma valid_codes_rsize: "valid_codes D d cs \<Longrightarrow> rsize cs \<le> d"
proof (induction cs arbitrary: d)
  case (Cons c cs)
  then show ?case using valid_code_len [of D d c] by fastforce
qed simp

section \<open>The decoder's invariant\<close>

text \<open>
  \<open>T\<close> is the unread part of the packed region in reading order, the bytes below the region are
  the raw prefix of \<open>D\<close>, and everything from \<open>d\<close> on is already the data.
\<close>

definition dec_inv :: "bytes \<Rightarrow> bytes \<Rightarrow> nat \<Rightarrow> bytes \<Rightarrow> nat \<Rightarrow> nat \<Rightarrow> bool" where
  "dec_inv D T ps out cmp d \<longleftrightarrow>
     length out = length D \<and> cmp \<le> d \<and> d \<le> length D \<and> cmp = ps + length T
     \<and> (\<forall>i<length T. out ! (cmp - 1 - i) = T ! i)
     \<and> (\<forall>i<ps. out ! i = D ! i)
     \<and> (\<forall>i. d \<le> i \<and> i < length D \<longrightarrow> out ! i = D ! i)"

lemma dec_inv_read:
  assumes "dec_inv D (b # T) ps out cmp d"
  shows "at out (cmp - 1) = Ok b" "dec_inv D T ps out (cmp - 1) d"
proof -
  have all: "\<forall>i<length (b # T). out ! (cmp - 1 - i) = (b # T) ! i" and len: "cmp = ps + Suc (length T)"
    using assms unfolding dec_inv_def by (blast, simp)
  from all have "out ! (cmp - 1) = b" by (auto dest: spec [of _ 0])
  then show "at out (cmp - 1) = Ok b"
    using assms by (auto simp: dec_inv_def)
  have "out ! (cmp - 1 - 1 - i) = T ! i" if "i < length T" for i
    using all [rule_format, of "Suc i"] that len by (simp add: diff_diff_eq)
  with assms show "dec_inv D T ps out (cmp - 1) d"
    by (auto simp: dec_inv_def)
qed

lemma dec_inv_write:
  assumes "dec_inv D T ps out cmp d" "cmp < d" "b = D ! (d - 1)"
  shows "dec_inv D T ps (out[d - 1 := b]) cmp (d - 1)"
proof -
  from assms have "cmp - 1 - i \<noteq> d - 1 \<or> cmp = 0" for i by auto
  moreover have "T \<noteq> [] \<Longrightarrow> cmp \<noteq> 0" using assms(1) by (auto simp: dec_inv_def)
  ultimately show ?thesis
    using assms by (auto simp: dec_inv_def nth_list_update)
qed

lemma dec_inv_done: "dec_inv D [] ps out cmp ps \<Longrightarrow> out = D"
  by (auto simp: dec_inv_def intro!: nth_equalityI) (metis not_le)

section \<open>One code\<close>

lemma copy_literal_ok:
  assumes "dec_inv D (b # T) ps out cmp d" "valid_code D d (Lit b)"
  shows "\<exists>out'. copy_literal out (cmp - 1) d = Ok (out', d - 1) \<and> dec_inv D T ps out' (cmp - 1) (d - 1)"
proof -
  note rd = dec_inv_read [OF assms(1)]
  from assms have "0 < d" "cmp - 1 < d" "0 < cmp" "d - 1 < length out"
    by (auto simp: dec_inv_def)
  then have "dec_inv D T ps (out[d - 1 := b]) (cmp - 1) (d - 1)"
    using dec_inv_write [OF rd(2)] assms(2) by simp
  moreover have "checked_sub d 1 = Some (d - 1)"
    using \<open>0 < d\<close> by simp
  ultimately show ?thesis
    using rd(1) \<open>d - 1 < length out\<close> by (auto simp: copy_literal_def rbind_eq_Ok)
qed

lemma copy_match_ok:
  assumes "dec_inv D T ps out cmp d" "cmp + n \<le> d" "0 < k" "d + k \<le> length D"
    and "\<forall>j<n. D ! (d - 1 - j) = D ! (d - 1 - j + k)" "length D \<le> usize_max"
  shows "\<exists>out'. copy_match out d n k = Ok (out', d - n) \<and> dec_inv D T ps out' cmp (d - n)"
  using assms(1,2,4,5)
proof (induction n arbitrary: out d)
  case (Suc n)
  have eq: "D ! (d - 1) = D ! (d - 1 + k)"
    using Suc.prems(4) by (auto dest: spec [of _ 0])
  have len: "length out = length D" and above: "\<forall>i. d \<le> i \<and> i < length D \<longrightarrow> out ! i = D ! i"
    using Suc.prems(1) by (simp_all add: dec_inv_def)
  have reach: "d \<le> d - 1 + k" "d - 1 + k < length D"
    using Suc.prems(2,3) assms(3) by simp_all
  have from_ok: "d - 1 + k < length out" "out ! (d - 1 + k) = D ! (d - 1 + k)" "length out = length D"
    using reach len above [rule_format, OF conjI [OF reach]] by simp_all
  have inv: "dec_inv D T ps (out[d - 1 := out ! (d - 1 + k)]) cmp (d - 1)"
    using dec_inv_write [OF Suc.prems(1)] Suc.prems(2) from_ok(2) eq by simp
  have rest: "\<forall>j<n. D ! (d - 1 - 1 - j) = D ! (d - 1 - 1 - j + k)"
  proof (intro allI impI)
    fix j assume "j < n"
    then show "D ! (d - 1 - 1 - j) = D ! (d - 1 - 1 - j + k)"
      using Suc.prems(4) [rule_format, of "Suc j"] by simp
  qed
  have "cmp + n \<le> d - 1" "d - 1 + k \<le> length D"
    using Suc.prems(2,3) by simp_all
  then obtain out' where "copy_match (out[d - 1 := out ! (d - 1 + k)]) (d - 1) n k = Ok (out', d - 1 - n)"
    "dec_inv D T ps out' cmp (d - 1 - n)"
    using Suc.IH [OF inv _ _ rest] by blast
  moreover have "checked_sub d 1 = Some (d - 1)" "checked_add (d - 1) k = Some (d - 1 + k)"
    using Suc.prems(2) from_ok assms(6) by auto
  moreover have "at out (d - 1 + k) = (Ok (out ! (d - 1 + k)) :: (u8, decompress_error) result)"
    using from_ok by simp
  moreover have "store out (d - 1) b = (Ok (out[d - 1 := b]) :: (bytes, decompress_error) result)" for b
    using from_ok(1) by simp
  ultimately have "copy_match out d (Suc n) k = Ok (out', d - 1 - n)"
    using from_ok(1) by (simp only: copy_match.simps ok_or_def rbind.simps option.case if_True)
  with \<open>dec_inv D T ps out' cmp (d - 1 - n)\<close> show ?case
    by (auto simp: diff_diff_eq)
qed simp

section \<open>One group of codes\<close>

text \<open>The flag byte announces the codes, from its top bit down.\<close>

definition flag_ok :: "u8 \<Rightarrow> code list \<Rightarrow> bool" where
  "flag_ok f cs \<longleftrightarrow> (\<forall>i<length cs. bit f (7 - i) = code_bit (cs ! i))"

lemma flag_top: "(f AND FLAG_MASK_INIT = 0) = (\<not> bit f 7)"
proof -
  have "FLAG_MASK_INIT = 2 ^ 7" by (simp add: FLAG_MASK_INIT_def)
  then show ?thesis using and_exp_eq_0_iff_not_bit [of f 7] by argo
qed

lemma flag_ok_Cons:
  assumes "flag_ok f (c # cs)" "length cs < 8"
  shows "bit f 7 = code_bit c" "flag_ok (push_bit FLAG_SHIFT f) cs"
proof -
  have all: "bit f (7 - i) = code_bit ((c # cs) ! i)" if "i < Suc (length cs)" for i
    using assms(1) that by (simp add: flag_ok_def)
  from all [of 0] show "bit f 7 = code_bit c" by simp
  have "bit (push_bit FLAG_SHIFT f) (7 - i) = code_bit (cs ! i)" if "i < length cs" for i
  proof -
    have "i < 7" using that assms(2) by simp
    then have "7 - i = Suc (6 - i)" "7 - Suc i = 6 - i" "7 - i < 8" by simp_all
    with all [of "Suc i"] that show ?thesis
      by (simp only: FLAG_SHIFT_def bit_push_bit_iff) simp
  qed
  then show "flag_ok (push_bit FLAG_SHIFT f) cs"
    by (simp add: flag_ok_def)
qed

lemma decode_codes_ok:
  assumes "dec_inv D (concat (map code_bytes cs) @ T) ps out cmp d"
    and "length cs \<le> n" "n \<le> 8" "length cs < n \<Longrightarrow> T = []"
    and "valid_codes D d cs" "fits cmp d cs" "flag_ok flags cs" "length D \<le> usize_max"
  shows "\<exists>out'. decode_codes n flags ps out cmp d = Ok (out', cmp - bsize cs, d - rsize cs)
             \<and> dec_inv D T ps out' (cmp - bsize cs) (d - rsize cs)"
  using assms
proof (induction cs arbitrary: n flags out cmp d)
  case Nil
  show ?case
  proof (cases n)
    case (Suc m)
    with Nil.prems have "cmp \<le> ps" by (auto simp: dec_inv_def)
    with Nil.prems Suc show ?thesis by simp
  qed (use Nil.prems in simp)
next
  case (Cons c cs)
  then obtain m where n: "n = Suc m" "length cs \<le> m" "m \<le> 8" "length cs < 8"
    by (cases n) auto
  have unread: "\<not> cmp \<le> ps"
    using Cons.prems(1) by (cases c) (auto simp: dec_inv_def)
  note flag = flag_ok_Cons [OF Cons.prems(7) n(4)]
  let ?rest = "concat (map code_bytes cs) @ T"
  have later: "\<exists>out'. decode_codes m (push_bit FLAG_SHIFT flags) ps o1 c1 d1 = Ok (out', c1 - bsize cs, d1 - rsize cs)
             \<and> dec_inv D T ps out' (c1 - bsize cs) (d1 - rsize cs)"
    if "dec_inv D ?rest ps o1 c1 d1" "c1 = cmp - length (code_bytes c)" "d1 = d - code_len c" for o1 c1 d1
    using Cons.IH [OF that(1) n(2,3) _ _ _ flag(2) Cons.prems(8)] that(2,3) Cons.prems(4-6) n by simp
  show ?case
  proof (cases c)
    case (Lit b)
    with Cons.prems obtain o1 where
      o1: "copy_literal out (cmp - 1) d = Ok (o1, d - 1)" "dec_inv D ?rest ps o1 (cmp - 1) (d - 1)"
      using copy_literal_ok [of D b ?rest ps out cmp d] by auto
    with later [OF o1(2)] Lit unread flag(1) n(1) show ?thesis
      by (auto simp: flag_top diff_diff_eq)
  next
    case (Ref l k)
    obtain b0 b1 where bs: "code_bytes (Ref l k) = [b0, b1]" by simp
    from Cons.prems(1) have inv: "dec_inv D (b0 # b1 # ?rest) ps out cmp d"
      unfolding Ref list.map concat.simps bs by simp
    note r0 = dec_inv_read [OF inv]
    note r1 = dec_inv_read [OF r0(2)]
    have vc: "valid_code D d (Ref l k)"
      using Cons.prems(5) by (simp only: Ref valid_codes.simps)
    have fit: "cmp - 2 + l \<le> d"
      using Cons.prems(6) vc fits_head [of "cmp - 2" "d - l" cs] by (simp add: Ref bs numeral_2_eq_2) linarith
    have "0 < k" using vc by (simp add: blz_consts)
    then obtain o1 where o1: "copy_match out d l k = Ok (o1, d - l)" "dec_inv D ?rest ps o1 (cmp - 2) (d - l)"
      using copy_match_ok [OF r1(2), of l k] vc fit Cons.prems(8) by (auto simp: numeral_2_eq_2 diff_diff_eq)
    have ge2: "\<not> cmp - ps < 2"
      using inv by (auto simp: dec_inv_def)
    have dec: "unat (drop_bit 4 b0) + MIN_MATCH = l"
      "(push_bit 8 (unat (b0 AND 0x0F)) OR unat b1) + MIN_MATCH = k"
      using ref_bytes_decode [OF _ _ _ _ bs] vc by auto
    have at1: "at out (cmp - 2) = Ok b1" using r1(1) by (simp add: numeral_2_eq_2)
    have "\<not> flags AND FLAG_MASK_INIT = 0" using flag(1) by (simp add: flag_top Ref)
    then have "decode_codes n flags ps out cmp d =
        decode_codes m (push_bit FLAG_SHIFT flags) ps o1 (cmp - 2) (d - l)"
      using unread ge2 by (simp only: n(1) decode_codes.simps if_False r0(1) at1 rbind.simps Let_def dec o1(1) prod.case)
    with later [OF o1(2)] show ?thesis
      by (auto simp: Ref bs numeral_2_eq_2 diff_diff_eq)
  qed
qed

section \<open>The whole packed region\<close>

type_synonym groups = "(u8 \<times> code list) list"

fun group_bytes :: "u8 \<times> code list \<Rightarrow> bytes" where
  "group_bytes (f, g) = f # concat (map code_bytes g)"

definition stream_bytes :: "groups \<Rightarrow> bytes" where
  "stream_bytes gs = concat (map group_bytes gs)"

definition stream_codes :: "groups \<Rightarrow> code list" where
  "stream_codes gs = concat (map snd gs)"

text \<open>Every group is full except the last one, which is not empty.\<close>

fun groups_ok :: "groups \<Rightarrow> bool" where
  "groups_ok [] \<longleftrightarrow> True"
| "groups_ok ((f, g) # gs) \<longleftrightarrow>
     g \<noteq> [] \<and> length g \<le> 8 \<and> (gs \<noteq> [] \<longrightarrow> length g = 8) \<and> flag_ok f g \<and> groups_ok gs"

fun gfits :: "nat \<Rightarrow> nat \<Rightarrow> groups \<Rightarrow> bool" where
  "gfits cmp d [] \<longleftrightarrow> True"
| "gfits cmp d ((f, g) # gs) \<longleftrightarrow>
     fits (cmp - 1) d g \<and> gfits (cmp - 1 - bsize g) (d - rsize g) gs"

lemma stream_simps [simp]:
  "stream_bytes [] = []" "stream_bytes ((f, g) # gs) = f # concat (map code_bytes g) @ stream_bytes gs"
  "stream_codes [] = []" "stream_codes ((f, g) # gs) = g @ stream_codes gs"
  by (simp_all add: stream_bytes_def stream_codes_def)

lemma length_stream_bytes: "groups_ok gs \<Longrightarrow> length (stream_bytes gs) = psize (stream_codes gs)"
proof (induction gs)
  case (Cons fg gs)
  obtain f g where fg: "fg = (f, g)" by (cases fg)
  show ?case
  proof (cases gs)
    case Nil
    with Cons.prems show ?thesis by (simp add: fg psize_short bsize_def)
  next
    case (Cons h hs)
    with Cons.prems Cons.IH show ?thesis by (simp add: fg psize_group bsize_def)
  qed
qed simp

lemma decode_loop_ok:
  assumes "dec_inv D (stream_bytes gs) ps out cmp d" "groups_ok gs"
    and "valid_codes D d (stream_codes gs)" "gfits cmp d gs" "length D \<le> usize_max"
    and "d - rsize (stream_codes gs) = ps"
  shows "decode_loop ps out cmp d = Ok D"
  using assms
proof (induction gs arbitrary: out cmp d)
  case Nil
  then have "dec_inv D [] ps out cmp ps" "\<not> ps < cmp" by (auto simp: dec_inv_def)
  then show ?case by (simp add: decode_loop_done dec_inv_done)
next
  case (Cons fg gs)
  obtain f g where fg: "fg = (f, g)" by (cases fg)
  have inv: "dec_inv D (f # concat (map code_bytes g) @ stream_bytes gs) ps out cmp d"
    using Cons.prems(1) by (simp add: fg)
  note rd = dec_inv_read [OF inv]
  have v: "valid_codes D d g" "valid_codes D (d - rsize g) (stream_codes gs)"
    using Cons.prems(3) by (simp_all add: fg valid_codes_append)
  have short: "length g < 8 \<Longrightarrow> stream_bytes gs = []" "length g \<le> 8" "flag_ok f g"
    using Cons.prems(2) by (auto simp: fg)
  obtain out' where
    step: "decode_codes 8 f ps out (cmp - 1) d = Ok (out', cmp - 1 - bsize g, d - rsize g)"
      "dec_inv D (stream_bytes gs) ps out' (cmp - 1 - bsize g) (d - rsize g)"
    using decode_codes_ok [OF rd(2) short(2) _ short(1) v(1) _ short(3) Cons.prems(5)] Cons.prems(4)
    by (auto simp: fg)
  have "decode_loop ps out' (cmp - 1 - bsize g) (d - rsize g) = Ok D"
    using Cons.IH [OF step(2) _ v(2)] Cons.prems by (simp add: fg diff_diff_eq)
  moreover have "ps < cmp" using inv by (auto simp: dec_inv_def)
  ultimately show ?case
    by (subst decode_loop_step) (simp_all only: rd(1) step(1) rbind.simps prod.case)
qed

section \<open>Room for decoding in place\<close>

text \<open>
  When no prefix of the codes saves more than all of them, the write cursor stays ahead.
\<close>

lemma fits_prefix:
  assumes "\<And>i. i \<le> length cs \<Longrightarrow> cmp + rsize (take i cs) \<le> d + bsize (take i cs)"
    and "bsize cs \<le> cmp" "rsize cs \<le> d"
  shows "fits cmp d cs"
  using assms
proof (induction cs arbitrary: cmp d)
  case Nil
  from Nil.prems(1) [of 0] show ?case by simp
next
  case (Cons c cs)
  have "cmp - length (code_bytes c) + rsize (take i cs) \<le> d - code_len c + bsize (take i cs)"
    if "i \<le> length cs" for i
    using Cons.prems(1) [of "Suc i"] Cons.prems(2,3) that by simp
  then have "fits (cmp - length (code_bytes c)) (d - code_len c) cs"
    using Cons.prems(2,3) by (intro Cons.IH) simp_all
  with Cons.prems(1) [of 0] Cons.prems(2) show ?case by simp
qed

lemma gfits_prefix:
  assumes "groups_ok gs"
    and "\<And>i. i \<le> length (stream_codes gs) \<Longrightarrow>
           cmp + rsize (take i (stream_codes gs)) \<le> d + psize (take i (stream_codes gs))"
    and "psize (stream_codes gs) \<le> cmp" "rsize (stream_codes gs) \<le> d"
  shows "gfits cmp d gs"
  using assms
proof (induction gs arbitrary: cmp d)
  case (Cons fg gs)
  obtain f g where fg: "fg = (f, g)" by (cases fg)
  have g: "g \<noteq> []" "length g \<le> 8" "gs \<noteq> [] \<Longrightarrow> length g = 8" "groups_ok gs"
    using Cons.prems(1) by (auto simp: fg)
  let ?ks = "stream_codes gs"
  have sum: "psize (g @ ?ks) = 1 + bsize g + psize ?ks"
    using g psize_group [of g ?ks] psize_short [of g] by (cases gs) simp_all
  have "cmp - 1 + rsize (take i g) \<le> d + bsize (take i g)" if "i \<le> length g" for i
  proof (cases "i = 0")
    case True
    with Cons.prems(2) [of 0] show ?thesis by simp
  next
    case False
    then have "take i g \<noteq> []" "length (take i g) \<le> 8" using g by auto
    moreover have "1 \<le> cmp" using Cons.prems(3) sum by (simp add: fg)
    ultimately show ?thesis
      using psize_short [of "take i g"] Cons.prems(2) [of i] that by (simp add: fg)
  qed
  then have "fits (cmp - 1) d g"
    using Cons.prems(3,4) sum by (intro fits_prefix) (simp_all add: fg)
  moreover have "gfits (cmp - 1 - bsize g) (d - rsize g) gs"
  proof (cases "gs = []")
    case False
    have "cmp - 1 - bsize g + rsize (take i ?ks) \<le> d - rsize g + psize (take i ?ks)" if "i \<le> length ?ks" for i
      using Cons.prems(2) [of "length g + i"] psize_group [OF g(3) [OF False], of "take i ?ks"]
        Cons.prems(3,4) sum that by (simp add: fg)
    then show ?thesis
      using Cons.prems(3,4) sum by (intro Cons.IH [OF g(4)]) (simp_all add: fg)
  qed simp
  ultimately show ?case by (simp add: fg)
qed simp

section \<open>The stream of the first codes\<close>

fun trunc :: "nat \<Rightarrow> groups \<Rightarrow> groups" where
  "trunc k [] = []"
| "trunc k ((f, g) # gs) =
     (if k = 0 then [] else if k \<le> length g then [(f, take k g)] else (f, g) # trunc (k - length g) gs)"

lemma flag_ok_take: "flag_ok f g \<Longrightarrow> flag_ok f (take k g)"
  by (simp add: flag_ok_def)

lemma trunc_codes: "stream_codes (trunc k gs) = take k (stream_codes gs)"
  by (induction k gs rule: trunc.induct) auto

lemma trunc_ok: "groups_ok gs \<Longrightarrow> groups_ok (trunc k gs)"
  by (induction k gs rule: trunc.induct) (auto simp: flag_ok_take)

lemma trunc_bytes:
  "groups_ok gs \<Longrightarrow> stream_bytes (trunc k gs) = take (psize (take k (stream_codes gs))) (stream_bytes gs)"
proof (induction k gs rule: trunc.induct)
  case (2 k f g gs)
  show ?case
  proof (cases "k = 0 \<or> k \<le> length g")
    case True
    have split: "concat (map code_bytes g) = concat (map code_bytes (take k g)) @ concat (map code_bytes (drop k g))"
      by (simp only: concat_append [symmetric] map_append [symmetric] append_take_drop_id)
    show ?thesis
    proof (cases "k = 0")
      case False
      then have "take k g \<noteq> []" "length (take k g) \<le> 8" using True "2.prems" by auto
      from psize_short [OF this] False True show ?thesis
        by (simp add: split bsize_def)
    qed simp
  next
    case False
    have rest: "length g = 8 \<or> gs = []" "groups_ok gs" "g \<noteq> []" "length g \<le> 8" using "2.prems" by auto
    let ?t = "take (k - length g) (stream_codes gs)"
    have "psize (g @ ?t) = 1 + bsize g + psize ?t"
      using rest psize_group [of g ?t] psize_short [of g] by (cases gs) auto
    moreover have "length (concat (map code_bytes g)) = bsize g" by (simp add: bsize_def)
    ultimately show ?thesis using "2.IH" False rest(2) by simp
  qed
qed simp

end
