(* ===== verification/Blz_Roundtrip.thy ===== *)
theory Blz_Roundtrip
  imports Blz_Stream
begin

text \<open>
  The encoder against the decoder.  The encoding loop is shown to write a valid stream of codes
  for the reversed input, to remember the split with the fewest bytes, and to stay inside the
  buffer that \<^verbatim>\<open>compress\<close> allocates; decoding the finished stream then gives the input back.
\<close>

section \<open>The flag byte of a group that is being filled\<close>

definition pflag :: "code list \<Rightarrow> u8" where
  "pflag cs = foldl (\<lambda>f c. push_bit 1 f OR (if code_bit c then 1 else 0)) 0 cs"

lemma pflag_Nil [simp]: "pflag [] = 0"
  by (simp add: pflag_def)

lemma pflag_snoc: "pflag (cs @ [c]) = push_bit 1 (pflag cs) OR (if code_bit c then 1 else 0)"
  by (simp add: pflag_def)

lemma bit_pflag:
  "length cs \<le> 8 \<Longrightarrow> bit (pflag cs) m \<longleftrightarrow> m < length cs \<and> code_bit (cs ! (length cs - 1 - m))"
proof (induction cs arbitrary: m rule: rev_induct)
  case (snoc c cs)
  show ?case
  proof (cases m)
    case 0
    then show ?thesis by (simp add: pflag_snoc bit_0 even_or_iff)
  next
    case (Suc j)
    have "bit (pflag (cs @ [c])) m \<longleftrightarrow> m < 8 \<and> bit (pflag cs) j"
      by (simp only: pflag_snoc Suc bit_or_iff bit_push_bit_iff) (auto simp: bit_1_iff)
    also have "\<dots> \<longleftrightarrow> j < length cs \<and> code_bit (cs ! (length cs - 1 - j))"
    proof -
      have "length cs \<le> 8" "length cs < 8" using snoc.prems by simp_all
      from snoc.IH [OF this(1), of j] this(2) show ?thesis unfolding Suc by linarith
    qed
    finally show ?thesis
      by (auto simp: Suc nth_append)
  qed
qed simp

lemma flag_ok_pflag:
  assumes "length cs \<le> 8"
  shows "flag_ok (push_bit (8 - length cs) (pflag cs)) cs"
  unfolding flag_ok_def
proof (intro allI impI)
  fix i assume i: "i < length cs"
  have "bit (push_bit (8 - length cs) (pflag cs)) (7 - i) \<longleftrightarrow> bit (pflag cs) (length cs - 1 - i)"
    using i assms by (auto simp: bit_push_bit_iff diff_diff_eq)
  also have "\<dots> \<longleftrightarrow> code_bit (cs ! i)"
    using i assms by (subst bit_pflag) auto
  finally show "bit (push_bit (8 - length cs) (pflag cs)) (7 - i) = code_bit (cs ! i)" .
qed

text \<open>The mask walks down from the top bit, and is used up after eight codes.\<close>

lemma mask_zero: "drop_bit k FLAG_MASK_INIT = 0 \<longleftrightarrow> 8 \<le> k"
proof (cases "k < 8")
  case True
  then have "bit (drop_bit k FLAG_MASK_INIT) (7 - k)"
    by (simp add: bit_drop_bit_eq FLAG_MASK_INIT_def bit_numeral_rec)
  then have "drop_bit k FLAG_MASK_INIT \<noteq> 0" by (auto simp del: bit_drop_bit_eq)
  then show ?thesis using True by simp
next
  case False
  then show ?thesis
    by (auto intro!: bit_eqI simp: bit_drop_bit_eq dest: bit_imp_le_length)
qed

lemma mask_one: "k < 8 \<Longrightarrow> drop_bit k FLAG_MASK_INIT = 1 \<longleftrightarrow> k = 7"
proof -
  assume "k < 8"
  then have "k \<in> {0, 1, 2, 3, 4, 5, 6, 7}" by auto
  then show ?thesis by (elim insertE emptyE) (simp_all add: FLAG_MASK_INIT_def)
qed

lemma flush_ok:
  assumes "j \<le> 7" "p < length out"
  shows "(flush (drop_bit j FLAG_MASK_INIT) p out :: (bytes, 'e) result) = Ok (out[p := push_bit (7 - j) (out ! p)])"
  using assms
proof (induction "7 - j" arbitrary: j out)
  case 0
  then have "j = 7" by simp
  then show ?case by (subst flush.simps) (simp add: FLAG_MASK_INIT_def)
next
  case (Suc n)
  then have j: "j < 7" "7 - Suc j = n" by simp_all
  have m: "drop_bit j FLAG_MASK_INIT \<noteq> 0" "drop_bit j FLAG_MASK_INIT \<noteq> 1"
    using j by (simp_all add: mask_zero mask_one)
  have "drop_bit FLAG_SHIFT (drop_bit j FLAG_MASK_INIT) = drop_bit (Suc j) FLAG_MASK_INIT"
    by (simp add: FLAG_SHIFT_def drop_bit_drop_bit)
  moreover have "7 - j = Suc n" using j by simp
  moreover have "push_bit n (push_bit 1 x) = push_bit (Suc n) x" for x :: u8
    by (simp only: push_bit_push_bit) simp
  moreover have "at out p = (Ok (out ! p) :: (u8, 'e) result)"
    "store out p v = (Ok (out[p := v]) :: (bytes, 'e) result)" for v
    using Suc.prems by simp_all
  moreover have "flush (drop_bit (Suc j) FLAG_MASK_INIT) p (out[p := push_bit 1 (out ! p)]) =
      (Ok (out[p := push_bit n (push_bit 1 (out ! p))]) :: (bytes, 'e) result)"
    using Suc.hyps(1) [of "Suc j" "out[p := push_bit 1 (out ! p)]"] j Suc.prems
    by (simp only: list_update_overwrite length_list_update nth_list_update_eq)
  ultimately show ?case
    using m by (subst flush.simps) (simp only: HOL.simp_thms if_True rbind.simps)
qed

section \<open>Full groups\<close>

definition pgroup :: "code list \<Rightarrow> bytes" where
  "pgroup g = pflag g # concat (map code_bytes g)"

definition full_bytes :: "code list list \<Rightarrow> bytes" where
  "full_bytes gs = concat (map pgroup gs)"

definition full :: "code list list \<Rightarrow> bool" where
  "full gs \<longleftrightarrow> (\<forall>g\<in>set gs. length g = 8)"

lemma full_simps [simp]:
  "full []" "full (gs @ [g]) \<longleftrightarrow> full gs \<and> length g = 8"
  "full_bytes [] = []" "full_bytes (gs @ [g]) = full_bytes gs @ pgroup g"
  by (auto simp: full_def full_bytes_def)

lemma psize_full: "full gs \<Longrightarrow> psize (concat gs @ cs) = length (full_bytes gs) + psize cs"
proof (induction gs)
  case (Cons g gs)
  then show ?case
    by (simp add: full_def full_bytes_def psize_group pgroup_def bsize_def)
qed (simp add: full_bytes_def)

lemma psize_full_alone: "full gs \<Longrightarrow> psize (concat gs) = length (full_bytes gs)"
  using psize_full [of gs "[]"] by simp

text \<open>A code is never longer than the data it stands for, so a stream has a known bound.\<close>

lemma valid_code_shrinks: "valid_code D d c \<Longrightarrow> length (code_bytes c) \<le> code_len c \<and> 1 \<le> code_len c"
  by (cases c) (auto simp: blz_consts)

lemma valid_codes_shrink: "valid_codes D d cs \<Longrightarrow> bsize cs \<le> rsize cs \<and> length cs \<le> rsize cs"
proof (induction cs arbitrary: d)
  case (Cons c cs)
  then show ?case using valid_code_shrinks [of D d c] by fastforce
qed simp

lemma valid_codes_psize:
  assumes "valid_codes D (length D) cs"
  shows "psize cs \<le> rsize cs + div_ceil (rsize cs) 8" "psize cs \<le> length D + div_ceil (length D) 8"
proof -
  have "bsize cs \<le> rsize cs" "length cs \<le> rsize cs"
    using valid_codes_shrink [OF assms] by auto
  then show A: "psize cs \<le> rsize cs + div_ceil (rsize cs) 8"
    by (auto simp: psize_def div_ceil_def intro!: add_mono div_le_mono)
  have "div_ceil (rsize cs) 8 \<le> div_ceil (length D) 8"
    using valid_codes_rsize [OF assms] by (auto simp: div_ceil_def intro!: div_le_mono)
  then show "psize cs \<le> length D + div_ceil (length D) 8"
    using A valid_codes_rsize [OF assms] by linarith
qed

lemma rsize_take: "rsize (take i cs) \<le> rsize cs"
  by (metis append_take_drop_id rsize_simps(3) le_add1)

lemma psize_snoc: "psize cs < psize (cs @ [c])"
proof -
  have "(length cs + 7) div 8 \<le> (length (cs @ [c]) + 7) div 8" by (rule div_le_mono) simp
  moreover have "0 < bsize [c]" by (cases c) simp_all
  ultimately show ?thesis unfolding psize_def bsize_simps(3) by linarith
qed

section \<open>The invariant of the encoding loop\<close>

text \<open>The remembered split is one between two codes, and no other one needs fewer bytes.\<close>

definition best_inv :: "nat \<Rightarrow> code list \<Rightarrow> nat \<Rightarrow> nat \<Rightarrow> bool" where
  "best_inv n cs bp br \<longleftrightarrow>
     (\<exists>k\<le>length cs. bp = psize (take k cs) \<and> br = n - rsize (take k cs))
     \<and> (\<forall>j\<le>length cs. bp + br \<le> psize (take j cs) + (n - rsize (take j cs)))"

text \<open>
  \<open>gs\<close> are the finished groups and \<open>cur\<close> the one being filled.  \<open>enc_inv\<close> holds between two
  iterations, \<open>enc_open\<close> after the flag byte of the next code is in place.
\<close>

definition enc_common :: "bytes \<Rightarrow> nat \<Rightarrow> code list list \<Rightarrow> code list \<Rightarrow> enc_state \<Rightarrow> bool" where
  "enc_common R cap gs cur st \<longleftrightarrow>
     full gs \<and> valid_codes (rev R) (length R) (concat gs @ cur)
     \<and> e_read st = rsize (concat gs @ cur)
     \<and> e_flag st = length (full_bytes gs)
     \<and> length (e_out st) = cap"

definition enc_open :: "bytes \<Rightarrow> nat \<Rightarrow> code list list \<Rightarrow> code list \<Rightarrow> enc_state \<Rightarrow> bool" where
  "enc_open R cap gs cur st \<longleftrightarrow>
     enc_common R cap gs cur st \<and> length cur < 8
     \<and> e_write st = length (full_bytes gs @ pgroup cur)
     \<and> e_mask st = drop_bit (length cur) FLAG_MASK_INIT
     \<and> (\<exists>rest. e_out st = full_bytes gs @ pgroup cur @ rest)"

definition enc_inv :: "bytes \<Rightarrow> nat \<Rightarrow> code list list \<Rightarrow> code list \<Rightarrow> enc_state \<Rightarrow> bool" where
  "enc_inv R cap gs cur st \<longleftrightarrow>
     enc_common R cap gs cur st \<and> length cur \<le> 8
     \<and> (if cur = [] then gs = [] \<and> e_mask st = 0 \<and> e_write st = 0
        else e_write st = length (full_bytes gs @ pgroup cur)
             \<and> e_mask st = drop_bit (length cur - 1) FLAG_MASK_INIT
             \<and> (\<exists>rest. e_out st = full_bytes gs @ pgroup cur @ rest))"

lemma enc_inv_write: "enc_inv R cap gs cur st \<Longrightarrow> e_write st = psize (concat gs @ cur)"
  by (cases "cur = []")
    (simp_all add: enc_inv_def enc_common_def psize_full psize_short pgroup_def bsize_def)

text \<open>Opening the flag byte of the next code.\<close>

lemma open_flag_ok:
  assumes inv: "enc_inv R cap gs cur st" and room: "e_write st < cap"
  shows "\<exists>gs' cur' st'. open_flag st = Ok st' \<and> enc_open R cap gs' cur' st'
    \<and> concat gs' @ cur' = concat gs @ cur
    \<and> e_best_packed st' = e_best_packed st \<and> e_best_remaining st' = e_best_remaining st"
proof (cases "cur = [] \<or> length cur = 8")
  case True
  let ?gs = "if cur = [] then [] else gs @ [cur]"
  have zero: "drop_bit FLAG_SHIFT (e_mask st) = 0"
  proof (cases "cur = []")
    case False
    with inv True have "e_mask st = drop_bit 7 FLAG_MASK_INIT" by (simp add: enc_inv_def)
    then show ?thesis by (simp add: FLAG_SHIFT_def drop_bit_drop_bit mask_zero)
  qed (use inv in \<open>simp add: enc_inv_def\<close>)
  have out: "\<exists>rest. e_out st = full_bytes ?gs @ rest" "e_write st = length (full_bytes ?gs)"
    using inv True by (auto simp: enc_inv_def)
  then obtain b rest where b: "e_out st = full_bytes ?gs @ b # rest"
    using room inv by (auto simp: enc_inv_def enc_common_def neq_Nil_conv)
  let ?st = "st\<lparr>e_mask := FLAG_MASK_INIT, e_flag := e_write st, e_out := (e_out st)[e_write st := 0],
    e_write := e_write st + 1\<rparr>"
  have "open_flag st = Ok ?st"
    using zero room inv by (simp add: open_flag_def enc_inv_def enc_common_def rbind_eq_Ok)
  moreover have "enc_open R cap ?gs [] ?st"
    using inv True out(2) b by (auto simp: enc_inv_def enc_open_def enc_common_def pgroup_def)
  moreover have "concat ?gs @ [] = concat gs @ cur"
    using inv by (auto simp: enc_inv_def)
  ultimately show ?thesis by (intro exI [of _ ?gs] exI [of _ "[]"] exI [of _ ?st]) simp
next
  case False
  let ?st = "st\<lparr>e_mask := drop_bit (length cur) FLAG_MASK_INIT\<rparr>"
  have "drop_bit FLAG_SHIFT (e_mask st) = drop_bit (length cur) FLAG_MASK_INIT"
    using inv False by (simp add: enc_inv_def FLAG_SHIFT_def drop_bit_drop_bit)
  moreover have "length cur < 8" using inv False by (simp add: enc_inv_def)
  ultimately have "open_flag st = Ok ?st"
    by (simp add: open_flag_def mask_zero)
  moreover have "enc_open R cap gs cur ?st"
    using inv False by (auto simp: enc_inv_def enc_open_def enc_common_def)
  ultimately show ?thesis by (intro exI [of _ gs] exI [of _ cur] exI [of _ ?st]) simp
qed

text \<open>Emitting a code extends the group being filled.\<close>

lemma update_after:
  "(A @ f # B @ C)[Suc (length A + length B + i) := v] = A @ f # B @ C[i := v]"
  by (simp add: list_update_append)

lemmas update_after_0 = update_after [where i = 0, simplified]
lemmas update_after_1 = update_after [where i = "Suc 0", simplified]

lemma room_for:
  assumes "out = A @ rest" "length A + n \<le> length out"
  obtains xs ys where "rest = xs @ ys" "length xs = n"
  using that [of "take n rest" "drop n rest"] assms by simp

lemma emit_code_ok:
  assumes op: "enc_open R cap gs cur st"
    and code: "valid_code (rev R) (length R - e_read st) c"
    and what: "c = (if MATCH_THRESHOLD < ml then Ref ml off else Lit (R ! e_read st))"
    and read: "e_read st < length R"
    and room: "e_write st + length (code_bytes c) \<le> cap"
  shows "\<exists>st'. emit_code R ml off st = Ok st' \<and> enc_inv R cap gs (cur @ [c]) st'
    \<and> e_best_packed st' = e_best_packed st \<and> e_best_remaining st' = e_best_remaining st"
proof -
  let ?A = "full_bytes gs"
  let ?B = "concat (map code_bytes cur)"
  let ?f = "pflag cur"
  obtain rest where out: "e_out st = ?A @ ?f # ?B @ rest" and len: "length (e_out st) = cap"
    and flag: "e_flag st = length ?A" and wr: "e_write st = length (?A @ ?f # ?B)"
    using op by (auto simp: enc_open_def enc_common_def pgroup_def)
  have "e_out st = (?A @ ?f # ?B) @ rest" "length (?A @ ?f # ?B) + length (code_bytes c) \<le> length (e_out st)"
    using out wr len room by simp_all
  then obtain xs ys where rest: "rest = xs @ ys" "length xs = length (code_bytes c)"
    by (rule room_for)
  let ?out' = "full_bytes gs @ pgroup (cur @ [c]) @ ys"
  let ?st = "st\<lparr>e_out := ?out', e_read := e_read st + code_len c,
                e_write := e_write st + length (code_bytes c)\<rparr>"
  have "emit_code R ml off st = Ok ?st"
  proof (cases "MATCH_THRESHOLD < ml")
    case True
    then have c: "c = Ref ml off" by (simp add: what)
    obtain b0 b1 where bs: "code_bytes c = [b0, b1]" by (simp add: c)
    with rest obtain x0 x1 where xs: "xs = [x0, x1]" by (auto simp: length_Suc_conv)
    have "3 \<le> off" using code by (simp add: c blz_consts)
    then show ?thesis
      using True bs
      by (simp add: emit_code_def rbind_eq_Ok out flag wr rest xs c pgroup_def pflag_snoc
          update_after_0 update_after_1)
    next
    case False
    then have c: "c = Lit (R ! e_read st)" by (simp add: what)
    with rest obtain x0 where xs: "xs = [x0]" by (auto simp: length_Suc_conv)
    show ?thesis
      using False read
      by (simp add: emit_code_def rbind_eq_Ok out flag wr rest xs c pgroup_def pflag_snoc
          update_after_0 update_after_1)
  qed
  moreover have "enc_inv R cap gs (cur @ [c]) ?st"
    using op code rest len out wr
    by (auto simp: enc_inv_def enc_open_def enc_common_def valid_codes_append pgroup_def)
  ultimately show ?thesis by (intro exI [of _ ?st]) simp
qed

text \<open>The split that is remembered after one more code.\<close>

lemma best_inv_snoc:
  assumes "best_inv n cs bp br"
  shows "psize (cs @ [c]) + (n - rsize (cs @ [c])) < bp + br \<Longrightarrow>
           best_inv n (cs @ [c]) (psize (cs @ [c])) (n - rsize (cs @ [c]))"
    and "\<not> psize (cs @ [c]) + (n - rsize (cs @ [c])) < bp + br \<Longrightarrow> best_inv n (cs @ [c]) bp br"
proof -
  let ?cs = "cs @ [c]"
  let ?cost = "\<lambda>j. psize (take j ?cs) + (n - rsize (take j ?cs))"
  have short: "take j ?cs = take j cs" if "j \<le> length cs" for j using that by simp
  have old: "bp + br \<le> ?cost j" if "j \<le> length cs" for j
    using assms that by (simp add: best_inv_def)
  have ext: "j \<le> length ?cs \<Longrightarrow> j \<le> length cs \<or> take j ?cs = ?cs" for j by (auto simp: le_Suc_eq)
  show "best_inv n ?cs (psize ?cs) (n - rsize ?cs)" if less: "psize ?cs + (n - rsize ?cs) < bp + br"
    unfolding best_inv_def
  proof (intro conjI allI impI)
    show "\<exists>k\<le>length ?cs. psize ?cs = psize (take k ?cs) \<and> n - rsize ?cs = n - rsize (take k ?cs)"
      by (rule exI [of _ "length ?cs"]) simp
    fix j assume "j \<le> length ?cs"
    from ext [OF this] show "psize ?cs + (n - rsize ?cs) \<le> ?cost j"
    proof
      assume "j \<le> length cs"
      from old [OF this] less show ?thesis by linarith
    next
      assume full: "take j ?cs = ?cs"
      show ?thesis by (simp only: full order_refl)
    qed
  qed
  show "best_inv n ?cs bp br" if less: "\<not> psize ?cs + (n - rsize ?cs) < bp + br"
    unfolding best_inv_def
  proof (intro conjI allI impI)
    from assms obtain k where k: "k \<le> length cs" "bp = psize (take k cs)" "br = n - rsize (take k cs)"
      by (auto simp: best_inv_def)
    then show "\<exists>k\<le>length ?cs. bp = psize (take k ?cs) \<and> br = n - rsize (take k ?cs)"
      by (intro exI [of _ k]) simp
    fix j assume "j \<le> length ?cs"
    from ext [OF this] show "bp + br \<le> ?cost j"
    proof
      assume full: "take j ?cs = ?cs"
      show ?thesis using less by (simp only: full not_less)
    qed (rule old)
  qed
qed

definition enc_full :: "bytes \<Rightarrow> nat \<Rightarrow> code list list \<Rightarrow> code list \<Rightarrow> enc_state \<Rightarrow> bool" where
  "enc_full R cap gs cur st \<longleftrightarrow>
     enc_inv R cap gs cur st \<and> best_inv (length R) (concat gs @ cur) (e_best_packed st) (e_best_remaining st)"

lemma enc_inv_read: "enc_inv R cap gs cur st \<Longrightarrow> e_read st = rsize (concat gs @ cur) \<and> e_read st \<le> length R"
  using valid_codes_rsize [of "rev R" "length R" "concat gs @ cur"]
  by (simp add: enc_inv_def enc_common_def)

lemma track_best_ok:
  assumes inv: "enc_inv R cap gs (cur @ [c]) st"
    and best: "best_inv (length R) (concat gs @ cur) (e_best_packed st) (e_best_remaining st)"
  shows "enc_full R cap gs (cur @ [c]) (track_best (length R) st)"
proof -
  let ?cs = "(concat gs @ cur) @ [c]"
  have "e_write st = psize ?cs" "e_read st = rsize ?cs" "rsize ?cs \<le> length R"
    using enc_inv_write [OF inv] enc_inv_read [OF inv] by simp_all
  then have "best_inv (length R) ?cs (e_best_packed (track_best (length R) st))
               (e_best_remaining (track_best (length R) st))"
    using best_inv_snoc [OF best, of c] by (simp add: track_best_def)
  moreover have "enc_inv R cap gs (cur @ [c]) (track_best (length R) st)"
    using inv by (simp add: track_best_def enc_inv_def enc_common_def)
  ultimately show ?thesis by (simp add: enc_full_def)
qed

lemma enc_inv_init: "enc_full R (length out) [] [] (enc_init (length R) out)"
  by (simp add: enc_full_def enc_inv_def enc_common_def enc_init_def best_inv_def)

context match_source
begin

text \<open>The code that one iteration emits is valid for the data read so far.\<close>

lemma next_code_valid:
  assumes "r < length data" and "ml = lazy_len search (length data) r (fst (search r))"
    and "c = (if MATCH_THRESHOLD < ml then Ref ml (snd (search r)) else Lit (data ! r))"
  shows "valid_code (rev data) (length data - r) c"
proof (cases "MATCH_THRESHOLD < ml")
  case True
  then have ml: "ml = fst (search r)"
    using assms(2) by (auto simp: lazy_len_def Let_def blz_consts split: if_splits)
  let ?k = "snd (search r)"
  have s: "MIN_MATCH \<le> ?k" "?k \<le> MAX_OFFSET" "?k \<le> r" "ml \<le> MAX_MATCH" "r + ml \<le> length data"
    "\<And>j. j < ml \<Longrightarrow> data ! (r + j) = data ! (r + j - ?k)"
    using search_sound [of r ml ?k] True ml by auto
  have "rev data ! (length data - r - 1 - j) = rev data ! (length data - r - 1 - j + ?k)" if "j < ml" for j
  proof -
    have "length data - Suc (length data - r - 1 - j) = r + j"
      "length data - Suc (length data - r - 1 - j + ?k) = r + j - ?k"
      using that s(1,3,5) by auto
    then show ?thesis
      using s(6) [OF that] that s(1,3,5) by (simp add: rev_nth)
  qed
  then show ?thesis
    using True s assms(3) by (auto simp: blz_consts)
next
  case False
  then show ?thesis
    using assms(1,3) by (auto simp: rev_nth)
qed

lemma enc_step_ok:
  assumes inv: "enc_full data cap gs cur st" and more: "e_read st < length data"
    and cap: "length data + div_ceil (length data) 8 \<le> cap"
  shows "\<exists>gs' cur' st'. (enc_step search data st :: (enc_state, 'e) result) = Ok st' \<and> enc_full data cap gs' cur' st'"
proof -
  have ei: "enc_inv data cap gs cur st" and best: "best_inv (length data) (concat gs @ cur)
      (e_best_packed st) (e_best_remaining st)"
    using inv by (simp_all add: enc_full_def)
  define ml where "ml = lazy_len search (length data) (e_read st) (fst (search (e_read st)))"
  let ?off = "snd (search (e_read st))"
  define c where "c = (if MATCH_THRESHOLD < ml then Ref ml ?off else Lit (data ! e_read st))"
  have c: "valid_code (rev data) (length data - e_read st) c"
    unfolding c_def by (rule next_code_valid [OF more ml_def refl])
  have rd: "e_read st = rsize (concat gs @ cur)"
    using enc_inv_read [OF ei] by simp
  have valid: "valid_codes (rev data) (length (rev data)) ((concat gs @ cur) @ [c])"
    using ei c rd unfolding valid_codes_append [of _ _ "concat gs @ cur"]
    by (simp add: enc_inv_def enc_common_def del: valid_code.simps)
  have bound: "psize ((concat gs @ cur) @ [c]) \<le> cap"
    using valid_codes_psize(2) [OF valid] cap by simp
  have grow: "e_write st < psize ((concat gs @ cur) @ [c])"
    unfolding enc_inv_write [OF ei] by (rule psize_snoc)
  obtain gs1 cur1 st1 where s1: "(open_flag st :: (enc_state, 'e) result) = Ok st1" "enc_open data cap gs1 cur1 st1"
    "concat gs1 @ cur1 = concat gs @ cur"
    "e_best_packed st1 = e_best_packed st" "e_best_remaining st1 = e_best_remaining st"
    using open_flag_ok [OF ei] grow bound by (meson less_le_trans)
  have rd1: "e_read st1 = e_read st"
    using s1(2,3) rd by (simp add: enc_open_def enc_common_def flip: rsize_simps(3))
  have w1: "e_write st1 + length (code_bytes c) = psize ((concat gs @ cur) @ [c])"
    using s1(2) psize_full [of gs1 "cur1 @ [c]"] psize_short [of "cur1 @ [c]"]
    by (simp add: enc_open_def enc_common_def pgroup_def bsize_def flip: s1(3))
  obtain st2 where s2: "(emit_code data ml ?off st1 :: (enc_state, 'e) result) = Ok st2" "enc_inv data cap gs1 (cur1 @ [c]) st2"
    "e_best_packed st2 = e_best_packed st1" "e_best_remaining st2 = e_best_remaining st1"
    using emit_code_ok [OF s1(2), of c ml ?off, unfolded rd1, OF c c_def more] bound w1 by auto
  have "enc_full data cap gs1 (cur1 @ [c]) (track_best (length data) st2)"
    using track_best_ok [OF s2(2)] best s1(3-5) s2(3,4) by simp
  moreover have "(enc_step search data st :: (enc_state, 'e) result) = Ok (track_best (length data) st2)"
    using s1(1) s2(1) rd1 by (simp add: enc_step_def Let_def ml_def)
  ultimately show ?thesis by blast
qed

lemma enc_loop_ok:
  assumes "enc_full data cap gs cur st" "length data + div_ceil (length data) 8 \<le> cap"
  shows "\<exists>gs' cur' st'. (enc_loop search data st :: (enc_state, 'e) result) = Ok st' \<and> enc_full data cap gs' cur' st'
           \<and> e_read st' = length data"
  using assms(1)
proof (induction "length data - e_read st" arbitrary: gs cur st rule: less_induct)
  case less
  show ?case
  proof (cases "e_read st < length data")
    case True
    obtain gs1 cur1 st1 where s1: "(enc_step search data st :: (enc_state, 'e) result) = Ok st1" "enc_full data cap gs1 cur1 st1"
      using enc_step_ok [OF less.prems True assms(2)] by blast
    have "e_read st < e_read st1" by (rule enc_step_read [OF s1(1)])
    then show ?thesis
      using less.hyps [OF _ s1(2)] True s1(1) by (subst enc_loop.simps) auto
  next
    case False
    moreover have "e_read st \<le> length data"
      using less.prems enc_inv_read [of data cap gs cur st] by (simp add: enc_full_def)
    ultimately have "e_read st = length data" by simp
    moreover from this have "(enc_loop search data st :: (enc_state, 'e) result) = Ok st"
      by (subst enc_loop.simps) simp
    ultimately show ?thesis using less.prems by blast
  qed
qed

end

section \<open>The stream of the finished groups\<close>

text \<open>Once the last flag byte is flushed, the packed bytes are a valid stream.\<close>

definition enc_groups :: "code list list \<Rightarrow> code list \<Rightarrow> groups" where
  "enc_groups gs cur =
     map (\<lambda>g. (pflag g, g)) gs @
     (if cur = [] then [] else [(push_bit (8 - length cur) (pflag cur), cur)])"

lemma groups_ok_full: "full gs \<Longrightarrow> groups_ok hs \<Longrightarrow> groups_ok (map (\<lambda>g. (pflag g, g)) gs @ hs)"
proof (induction gs)
  case (Cons g gs)
  then show ?case using flag_ok_pflag [of g] by (auto simp: full_def)
qed simp

lemma enc_groups_ok: "full gs \<Longrightarrow> length cur \<le> 8 \<Longrightarrow> groups_ok (enc_groups gs cur)"
  unfolding enc_groups_def by (rule groups_ok_full) (auto simp: flag_ok_pflag)

lemma enc_groups_codes: "stream_codes (enc_groups gs cur) = concat gs @ cur"
  by (simp add: enc_groups_def stream_codes_def comp_def)

lemma enc_groups_bytes:
  "stream_bytes (enc_groups gs cur) = full_bytes gs @
     (if cur = [] then [] else push_bit (8 - length cur) (pflag cur) # concat (map code_bytes cur))"
proof -
  have "stream_bytes (map (\<lambda>g. (pflag g, g)) gs @ hs) = full_bytes gs @ stream_bytes hs" for hs
    by (simp add: stream_bytes_def full_bytes_def comp_def pgroup_def [abs_def])
  then show ?thesis by (simp add: enc_groups_def)
qed

lemma flush_groups:
  assumes "enc_inv R cap gs cur st"
  shows "\<exists>rest. (flush (e_mask st) (e_flag st) (e_out st) :: (bytes, 'e) result)
           = Ok (stream_bytes (enc_groups gs cur) @ rest)
         \<and> length (stream_bytes (enc_groups gs cur) @ rest) = cap"
proof (cases "cur = []")
  case True
  with assms have "e_mask st = 0" "gs = []" "length (e_out st) = cap"
    by (simp_all add: enc_inv_def enc_common_def)
  then show ?thesis
    by (subst flush.simps) (simp add: enc_groups_bytes True)
next
  case False
  with assms obtain rest where
    st: "e_flag st = length (full_bytes gs)" "e_mask st = drop_bit (length cur - 1) FLAG_MASK_INIT"
      "e_out st = full_bytes gs @ pgroup cur @ rest" "length cur \<le> 8" "length (e_out st) = cap"
    by (auto simp: enc_inv_def enc_common_def)
  have j: "7 - (length cur - 1) = 8 - length cur" "length cur - 1 \<le> 7"
    using False st(4) by (cases cur; simp)+
  have "length (full_bytes gs) < length (e_out st)" by (simp add: st(3) pgroup_def)
  note flush_ok [OF j(2) this, unfolded j(1)]
  then have "(flush (e_mask st) (e_flag st) (e_out st) :: (bytes, 'e) result)
           = Ok (stream_bytes (enc_groups gs cur) @ rest)"
    using False unfolding st(1,2) by (simp add: st(3) pgroup_def enc_groups_bytes)
  moreover have "length (stream_bytes (enc_groups gs cur) @ rest) = cap"
    using st(3,5) False by (simp add: pgroup_def enc_groups_bytes)
  ultimately show ?thesis by blast
qed

section \<open>The two layouts\<close>

lemma relocate_ok:
  assumes "rem \<le> start" "start + n \<le> length out"
  shows "\<exists>out'. (relocate out rem start n :: (bytes, 'e) result) = Ok out' \<and> length out' = length out
     \<and> (\<forall>i<n. out' ! (rem + i) = out ! (start + i)) \<and> (\<forall>i\<ge>rem + n. out' ! i = out ! i)"
  using assms(2)
proof (induction n)
  case 0
  show ?case by (simp add: relocate_def)
next
  case (Suc n)
  then obtain o1 where o1: "(relocate out rem start n :: (bytes, 'e) result) = Ok o1"
    "length o1 = length out" "\<And>i. i < n \<Longrightarrow> o1 ! (rem + i) = out ! (start + i)"
    "\<And>i. rem + n \<le> i \<Longrightarrow> o1 ! i = out ! i" by auto
  let ?o2 = "o1[rem + n := o1 ! (start + n)]"
  have "(relocate out rem start (Suc n) :: (bytes, 'e) result) = Ok ?o2"
    using o1(1,2) Suc.prems assms(1) by (simp add: relocate_def rfold_append rbind_eq_Ok)
  moreover have "?o2 ! (rem + i) = out ! (start + i)" if "i < Suc n" for i
    using o1(2-4) that Suc.prems assms(1) by (cases "i = n") (simp_all add: nth_list_update)
  moreover have "?o2 ! i = out ! i" if "rem + Suc n \<le> i" for i
    using o1(4) that by simp
  ultimately show ?case using o1(2) by auto
qed

text \<open>The padding up to the next multiple of four.\<close>

definition padlen :: "nat \<Rightarrow> nat" where
  "padlen n = (4 - n mod 4) mod 4"

lemma padlen_less: "padlen n < 4"
  by (simp add: padlen_def)

lemma padlen_step: "n mod 4 \<noteq> 0 \<Longrightarrow> padlen n = Suc (padlen (Suc n))"
  using mod_less_divisor [of 4 n] by (auto simp: padlen_def mod_Suc simp del: mod_less_divisor)

lemma padlen_0: "padlen n = 0 \<longleftrightarrow> n mod 4 = 0"
  using padlen_step [of n] by (cases "n mod 4 = 0") (simp_all add: padlen_def)

lemma packed_header_size_eq: "packed_header_size n = 12 + padlen n"
proof -
  let ?w = "- word_of_nat n :: u64"
  have "?w AND 3 = take_bit 2 ?w" by (simp add: take_bit_eq_mask mask_eq_exp_minus_1)
  then have "int (unat (?w AND 3)) = uint (take_bit 2 ?w)"
    by (simp only: of_nat_unat)
  also have "\<dots> = take_bit 2 (uint ?w)"
    by (simp only: unsigned_take_bit_eq)
  also have "\<dots> = (- int n) mod 4"
  proof -
    have "int (n mod 2 ^ 64) mod 4 = int n mod 4"
      by (simp add: zmod_int mod_mod_cancel)
    then have "(- int (n mod 2 ^ 64)) mod 4 = (- int n) mod 4"
      by (metis mod_minus_eq)
    then show ?thesis
      by (simp add: take_bit_eq_mod uint_word_ariths unsigned_of_nat mod_minus_eq mod_mod_cancel)
  qed
  also have "\<dots> = int (padlen n)"
    by (simp add: padlen_def zmod_zminus1_eq_if zmod_int of_nat_diff)
  finally show ?thesis by (simp only: packed_header_size_def of_nat_eq_iff)
qed

lemma pad4_ok:
  "length A = pos \<Longrightarrow> padlen pos \<le> length B \<Longrightarrow>
     (pad4 v (A @ B) pos :: (bytes \<times> nat, 'e) result)
       = Ok (A @ replicate (padlen pos) v @ drop (padlen pos) B, pos + padlen pos)"
proof (induction "padlen pos" arbitrary: A B pos)
  case 0
  then have "padlen pos = 0" "pos mod 4 = 0" using padlen_0 [of pos] by simp_all
  then show ?case by (subst pad4.simps) (simp add: nat_and_3)
next
  case (Suc k)
  then obtain b B' where B: "B = b # B'" by (cases B) auto
  have nz: "pos mod 4 \<noteq> 0" using Suc.hyps(2) padlen_0 [of pos] by simp
  have k: "padlen (Suc pos) = k" using padlen_step [OF nz] Suc.hyps(2) by simp
  have "(pad4 v ((A @ [v]) @ B') (Suc pos) :: (bytes \<times> nat, 'e) result)
       = Ok ((A @ [v]) @ replicate k v @ drop k B', Suc pos + k)"
    using Suc.hyps(1) [of "Suc pos" "A @ [v]" B'] Suc.prems B k Suc.hyps(2) by simp
  moreover have "(store (A @ B) pos v :: (bytes, 'e) result) = Ok ((A @ [v]) @ B')"
    by (simp add: Suc.prems(1) [symmetric] B)
  ultimately show ?case
    using nz by (subst pad4.simps)
      (simp only: nat_and_3 HOL.simp_thms if_True rbind.simps Suc_eq_plus1 [symmetric]
        Suc.hyps(2) [symmetric], simp add: B)
qed

lemma store_uncompressed_ok:
  assumes "length input + 7 \<le> length output"
  shows "\<exists>rest. (store_uncompressed input output :: (bytes \<times> nat, 'e) result)
     = Ok (input @ zeros (padlen (length input)) @ le32 0 @ rest, length input + padlen (length input) + 4)"
proof -
  let ?k = "padlen (length input)"
  let ?B = "drop (length input) output"
  have k: "?k \<le> length ?B" "?k < 4" using assms padlen_less [of "length input"] by simp_all
  have "(copy_at output 0 input :: (bytes, 'e) result) = Ok (input @ ?B)" using assms by simp
  moreover have "(pad4 0 (input @ ?B) (length input) :: (bytes \<times> nat, 'e) result)
      = Ok (input @ zeros ?k @ drop ?k ?B, length input + ?k)"
    using pad4_ok [OF refl k(1), of 0] by (simp add: zeros_def)
  moreover have "(copy_at (input @ zeros ?k @ drop ?k ?B) (length input + ?k) (le32 0) :: (bytes, 'e) result)
      = Ok (input @ zeros ?k @ le32 0 @ drop 4 (drop ?k ?B))"
    using assms k(2) by simp
  ultimately show ?thesis
    by (simp only: store_uncompressed_def rbind.simps prod.case) blast
qed

lemma store_packed_ok:
  assumes packed: "output = rev S @ rest" "length S = plen" "bp \<le> plen" "rem + bp \<le> plen"
    and room: "length input + 7 \<le> length output"
    and saved: "rem + bp + packed_header_size (rem + bp) \<le> length input"
  shows "\<exists>tail. (store_packed input output plen bp rem :: (bytes \<times> nat, 'e) result)
     = Ok (take rem input @ rev (take bp S) @ replicate (padlen (rem + bp)) 0xFF
           @ footer_bytes (bp + packed_header_size (rem + bp)) (packed_header_size (rem + bp))
               (length input - bp - rem - packed_header_size (rem + bp)) @ tail,
           rem + bp + packed_header_size (rem + bp))"
proof -
  let ?pos = "rem + bp" and ?start = "plen - bp"
  let ?k = "padlen (rem + bp)" and ?h = "packed_header_size (rem + bp)"
  let ?f = "footer_bytes (bp + ?h) ?h (length input - bp - rem - ?h)"
  have bounds: "rem \<le> ?start" "?start + bp \<le> length output" "?h = 12 + ?k" "rem \<le> length input"
    using packed saved by (simp_all add: packed_header_size_eq)
  obtain o1 where o1: "(relocate output rem ?start bp :: (bytes, 'e) result) = Ok o1"
    "length o1 = length output" "\<forall>i<bp. o1 ! (rem + i) = output ! (?start + i)"
    using relocate_ok [OF bounds(1,2)] by blast
  have moved: "take bp (drop rem o1) = rev (take bp S)"
  proof (rule nth_equalityI)
    show "length (take bp (drop rem o1)) = length (rev (take bp S))"
      using o1(2) packed by simp
    fix i assume "i < length (take bp (drop rem o1))"
    then have i: "i < bp" "rem + i < length o1" by auto
    have "output ! (?start + i) = rev S ! (?start + i)"
    proof -
      have "?start + i < length (rev S)" using i(1) packed(2,3) by (simp add: less_diff_conv2)
      then show ?thesis by (simp add: packed(1) nth_append)
    qed
    also have "\<dots> = rev (take bp S) ! i"
      using i(1) packed(2,3) by (simp add: rev_take)
    finally show "take bp (drop rem o1) ! i = rev (take bp S) ! i"
      using i o1(3) by simp
  qed
  let ?A = "take rem input @ rev (take bp S)" and ?B = "drop ?pos o1"
  have A: "length ?A = ?pos" using bounds(4) packed(2,3) by simp
  have "take bp (drop rem o1) @ drop bp (drop rem o1) = drop rem o1" by (rule append_take_drop_id)
  then have "drop rem o1 = rev (take bp S) @ ?B" by (simp only: moved drop_drop add.commute [of bp rem])
  then have copied: "(copy_at o1 0 (take rem input) :: (bytes, 'e) result) = Ok (?A @ ?B)"
    using o1(2) room bounds(4) by simp
  have lenB: "?k + 12 \<le> length ?B"
    using o1(2) room saved bounds(3) by simp
  then have pad: "(pad4 0xFF (?A @ ?B) ?pos :: (bytes \<times> nat, 'e) result)
      = Ok (?A @ replicate ?k 0xFF @ drop ?k ?B, ?pos + ?k)"
    by (intro pad4_ok A) simp
  let ?C = "?A @ replicate ?k 0xFF"
  have "length ?C = ?pos + ?k" using A by simp
  moreover have "12 \<le> length (drop ?k ?B)" using lenB by simp
  ultimately have last: "(copy_at (?A @ replicate ?k 0xFF @ drop ?k ?B) (?pos + ?k) ?f :: (bytes, 'e) result)
      = Ok (?A @ replicate ?k 0xFF @ ?f @ drop 12 (drop ?k ?B))"
    using A by (simp add: footer_bytes_def)
  have "(store_packed input output plen bp rem :: (bytes \<times> nat, 'e) result)
     = Ok (?A @ replicate ?k 0xFF @ ?f @ drop 12 (drop ?k ?B), ?pos + ?k + 12)"
  proof -
    have sub: "(usub plen bp :: (nat, 'e) result) = Ok ?start"
      "(usub (length input) bp :: (nat, 'e) result) = Ok (length input - bp)"
      "(usub (length input - bp) rem :: (nat, 'e) result) = Ok (length input - bp - rem)"
      "(usub (length input - bp - rem) ?h :: (nat, 'e) result) = Ok (length input - bp - rem - ?h)"
      "(slice input 0 rem :: (bytes, 'e) result) = Ok (take rem input)"
      using packed(3) bounds(4) saved by simp_all
    show ?thesis
      by (simp only: store_packed_def rbind.simps Let_def prod.case sub o1(1) copied pad last)
  qed
  then show ?thesis using bounds(3) by (auto simp: add.assoc)
qed

section \<open>Decoding the two layouts\<close>

lemma trailing_u32_at: "back = 4 + length B \<Longrightarrow> trailing_u32 (A @ le32 w @ B) back = Some w"
  by (auto simp: trailing_u32_def word_of_nat_le_nat split: option.split)

lemma decompress_stored: "decompress (input @ zeros k @ le32 0) (length input) = Ok input"
proof -
  have "trailing_u32 ((input @ zeros k) @ le32 0 @ []) 4 = Some 0"
    by (rule trailing_u32_at) simp
  then show ?thesis
    by (simp add: decompress_def rbind_eq_Ok)
qed

lemma decompress_form:
  assumes "trailing_u32 data 4 = Some we" "trailing_u32 data 8 = Some wh" "trailing_u32 data 12 = Some wl"
    and "we \<noteq> 0" "12 \<le> unat wh" "unat wh \<le> unat wl" "unat wl \<le> length data"
    and n: "length data + unat we = n" "n \<le> usize_max"
    and "decode_loop (length data - unat wl) (data @ zeros (unat we)) (length data - unat wh) n = Ok out"
    and "length out = n"
  shows "decompress data n = Ok out"
proof -
  have "(copy_at (zeros n) 0 data :: (bytes, decompress_error) result) = Ok (data @ zeros (unat we))"
    using n(1) by (auto simp: zeros_def)
  moreover have "checked_add (length data) (unat we) = Some n" using n by simp
  moreover have "\<not> (unat wh < 12 \<or> unat wl < unat wh \<or> length data < unat wl)" using assms by simp
  ultimately show ?thesis
    using assms(4,11)
    by (simp only: decompress_def assms(1-3,10) ok_or_simps rbind.simps Let_def if_False simp_thms)
qed

lemma nth_mid: "length A = a \<Longrightarrow> j < length B \<Longrightarrow> (A @ B @ C) ! (a + j) = B ! j"
  by (auto simp: nth_append)

lemma decompress_packed:
  assumes D: "length D < 2 ^ 32"
    and gs: "groups_ok gs" "valid_codes D (length D) (stream_codes gs)" "gfits (rem + bp) (length D) gs"
    and T: "length (stream_bytes gs) = bp" "rem = length D - rsize (stream_codes gs)"
    and h: "h = 12 + k" "rem + bp + h < length D" "e = length D - bp - rem - h"
  shows "decompress (take rem D @ rev (stream_bytes gs) @ replicate k 0xFF @ footer_bytes (bp + h) h e)
           (length D) = Ok D"
proof -
  let ?T = "stream_bytes gs"
  let ?P = "take rem D @ rev ?T @ replicate k 0xFF"
  let ?data = "?P @ footer_bytes (bp + h) h e"
  have len: "length ?data = rem + bp + h" "length ?P = rem + bp + k" "e \<noteq> 0"
    "rem + bp + h + e = length D"
    using T(1) h by (simp_all add: footer_bytes_def)
  have f: "unat (word_of_nat n :: u32) = n" if "n \<le> length D" for n
    using that D by (simp add: unat_of_nat)
  have t4: "trailing_u32 ?data 4 = Some (word_of_nat e)"
    using trailing_u32_at [of 4 "[]" "?P @ le32 (word_of_nat (bp + h)) @ le32 (word_of_nat h)"]
    by (simp add: footer_bytes_def)
  have t8: "trailing_u32 ?data 8 = Some (word_of_nat h)"
    using trailing_u32_at [of 8 "le32 (word_of_nat e)" "?P @ le32 (word_of_nat (bp + h))"]
    by (simp add: footer_bytes_def)
  have t12: "trailing_u32 ?data 12 = Some (word_of_nat (bp + h))"
    using trailing_u32_at [of 12 "le32 (word_of_nat h) @ le32 (word_of_nat e)" ?P]
    by (simp add: footer_bytes_def)
  have w: "unat (word_of_nat e :: u32) = e" "unat (word_of_nat h :: u32) = h"
    "unat (word_of_nat (bp + h) :: u32) = bp + h"
    using h(2,3) by (intro f; simp)+
  have e0: "(word_of_nat e :: u32) \<noteq> 0"
    using w(1) len(3) by (metis unsigned_0)
  have inv: "dec_inv D ?T rem (?data @ zeros e) (rem + bp) (length D)"
    unfolding dec_inv_def
  proof (intro conjI allI impI)
    show "length (?data @ zeros e) = length D" using len by simp
    show "(?data @ zeros e) ! (rem + bp - 1 - i) = ?T ! i" if "i < length ?T" for i
    proof -
      have j: "rem + bp - 1 - i = rem + (bp - 1 - i)" "bp - 1 - i < length (rev ?T)" "length (take rem D) = rem"
        using that T(1) h(2) by simp_all
      show ?thesis
        unfolding j(1) append_assoc nth_mid [OF j(3,2)] using that T(1) by (simp add: rev_nth)
    qed
    show "(?data @ zeros e) ! i = D ! i" if "i < rem" for i
      using that h(2) by (simp add: nth_append)
  qed (use T(1) h(2) in auto)
  have loop: "decode_loop rem (?data @ zeros e) (rem + bp) (length D) = Ok D"
    using decode_loop_ok [OF inv gs] D T(2) by (simp add: usize_max_def)
  have "decompress ?data (length D) = Ok D"
  proof (rule decompress_form [OF t4 t8 t12 e0], unfold w len(1))
    have "rem + bp + h - (bp + h) = rem" "rem + bp + h - h = rem + bp" by simp_all
    then show "decode_loop (rem + bp + h - (bp + h)) (?data @ zeros e) (rem + bp + h - h) (length D) = Ok D"
      by (simp only: loop)
  qed (use D h(1) len(4) in \<open>simp_all add: usize_max_def\<close>)
  then show ?thesis by (simp only: append_assoc)
qed

section \<open>Compressing and decompressing\<close>

text \<open>What the encoding loop hands over, for any search that honours the contract.\<close>

context match_source
begin

lemma encoded_stream:
  assumes "length data + div_ceil (length data) 8 \<le> length output"
  shows "\<exists>st gs rest k cs.
     (enc_loop search data (enc_init (length data) output) :: (enc_state, 'e) result) = Ok st
     \<and> (flush (e_mask st) (e_flag st) (e_out st) :: (bytes, 'e) result) = Ok (stream_bytes gs @ rest)
     \<and> length (stream_bytes gs @ rest) = length output
     \<and> groups_ok gs \<and> cs = stream_codes gs \<and> e_write st = psize cs
     \<and> valid_codes (rev data) (length data) cs \<and> rsize cs = length data
     \<and> k \<le> length cs \<and> e_best_packed st = psize (take k cs)
     \<and> e_best_remaining st = length data - rsize (take k cs)
     \<and> (\<forall>j\<le>length cs. e_best_packed st + e_best_remaining st
                        \<le> psize (take j cs) + (length data - rsize (take j cs)))"
proof -
  obtain gs cur st where st: "(enc_loop search data (enc_init (length data) output) :: (enc_state, 'e) result) = Ok st"
    "enc_full data (length output) gs cur st" "e_read st = length data"
    using enc_loop_ok [OF enc_inv_init assms] by blast
  from st(2) have inv: "enc_inv data (length output) gs cur st"
    and best: "best_inv (length data) (concat gs @ cur) (e_best_packed st) (e_best_remaining st)"
    by (simp_all add: enc_full_def)
  from inv have gs: "groups_ok (enc_groups gs cur)" and valid: "valid_codes (rev data) (length data) (concat gs @ cur)"
    by (auto simp: enc_inv_def enc_common_def intro: enc_groups_ok)
  obtain rest where rest: "(flush (e_mask st) (e_flag st) (e_out st) :: (bytes, 'e) result)
      = Ok (stream_bytes (enc_groups gs cur) @ rest)"
    "length (stream_bytes (enc_groups gs cur) @ rest) = length output"
    using flush_groups [OF inv] by blast
  obtain k where k: "k \<le> length (concat gs @ cur)" "e_best_packed st = psize (take k (concat gs @ cur))"
    "e_best_remaining st = length data - rsize (take k (concat gs @ cur))"
    using best unfolding best_inv_def by blast
  have "\<forall>j\<le>length (concat gs @ cur). e_best_packed st + e_best_remaining st
      \<le> psize (take j (concat gs @ cur)) + (length data - rsize (take j (concat gs @ cur)))"
    using best unfolding best_inv_def by blast
  moreover have "rsize (concat gs @ cur) = length data"
    using enc_inv_read [OF inv] st(3) by simp
  ultimately show ?thesis
    using st(1) rest gs valid k enc_inv_write [OF inv]
    by (intro exI [of _ st] exI [of _ "enc_groups gs cur"] exI [of _ rest] exI [of _ k]
        exI [of _ "concat gs @ cur"]) (simp only: enc_groups_codes simp_thms)
qed

end

text \<open>
  The chosen layout holds the input: the result of the encoder's tail decodes to it, and needs no
  more than the buffer.
\<close>

lemma finish_ok:
  assumes D: "length D < NO_POS"
    and S: "output = rev (stream_bytes gs) @ rest" "groups_ok gs" "cs = stream_codes gs"
      "valid_codes D (length D) cs" "rsize cs = length D" "plen = psize cs"
    and best: "k \<le> length cs" "bp = psize (take k cs)" "br = length D - rsize (take k cs)"
      "\<And>j. j \<le> length cs \<Longrightarrow> bp + br \<le> psize (take j cs) + (length D - rsize (take j cs))"
    and room: "length D + 7 \<le> length output"
  shows "\<exists>out n. (finish D output plen bp br :: (bytes \<times> nat, 'e) result) = Ok (out, n)
     \<and> n \<le> length output \<and> decompress (take n out) (length D) = Ok D \<and> n \<le> length D + 7"
proof -
  let ?h = "packed_header_size (br + bp)"
  have sum: "bp + br \<le> length D" using best(4) [of 0] by simp
  have last: "br + bp \<le> plen" using best(4) [of "length cs"] S(5,6) by simp
  have h: "?h = 12 + padlen (br + bp)" by (rule packed_header_size_eq)
  show ?thesis
  proof (cases "bp = 0 \<or> \<not> length D - bp - br > ?h \<or>
      length D + 4 < ((bp + br + 3) AND 0xFFFFFFFC) + 8")
    case True
    obtain tail where t: "(store_uncompressed D output :: (bytes \<times> nat, 'e) result)
       = Ok (D @ zeros (padlen (length D)) @ le32 0 @ tail, length D + padlen (length D) + 4)"
      using store_uncompressed_ok [OF room] by blast
    have "(finish D output plen bp br :: (bytes \<times> nat, 'e) result) = store_uncompressed D output"
      using True sum by (auto simp: finish_def Let_def usub_def)
    then show ?thesis
      using t decompress_stored [of D "padlen (length D)"] padlen_less [of "length D"] room
      by (intro exI conjI) (assumption | simp)+
  next
    case False
    from False have "?h < length D - bp - br" by blast
    then have fit: "br + bp + ?h < length D" by linarith
    let ?T = "trunc k gs"
    have codes: "stream_codes ?T = take k cs" by (simp add: trunc_codes S(3))
    have bytes: "stream_bytes ?T = take bp (stream_bytes gs)"
      using trunc_bytes [OF S(2), of k] by (simp add: best(2) S(3))
    have glen: "length (stream_bytes gs) = plen"
      using length_stream_bytes [OF S(2)] by (simp add: S(3,6))
    obtain tail where t: "(store_packed D output plen bp br :: (bytes \<times> nat, 'e) result)
     = Ok (take br D @ rev (take bp (stream_bytes gs)) @ replicate (padlen (br + bp)) 0xFF
           @ footer_bytes (bp + ?h) ?h (length D - bp - br - ?h) @ tail, br + bp + ?h)"
      using store_packed_ok [OF S(1) glen _ last room] last fit by auto
    have "(finish D output plen bp br :: (bytes \<times> nat, 'e) result) = store_packed D output plen bp br"
      using False sum by (auto simp: finish_def Let_def usub_def)
    moreover have "length (take br D @ rev (take bp (stream_bytes gs)) @ replicate (padlen (br + bp)) 0xFF
           @ footer_bytes (bp + ?h) ?h (length D - bp - br - ?h)) = br + bp + ?h"
      using sum last glen h by (simp add: footer_bytes_def)
    moreover have "decompress (take br D @ rev (stream_bytes ?T) @ replicate (padlen (br + bp)) 0xFF
           @ footer_bytes (bp + ?h) ?h (length D - bp - br - ?h)) (length D) = Ok D"
    proof (rule decompress_packed)
      show "length D < 2 ^ 32" using D by (simp add: NO_POS_def)
      have split: "valid_codes D (length D) (take k cs @ drop k cs)" using S(4) by simp
      then show v: "valid_codes D (length D) (stream_codes ?T)"
        unfolding codes valid_codes_append by blast
      show "gfits (br + bp) (length D) ?T"
      proof (rule gfits_prefix, goal_cases)
        case 1 show ?case by (rule trunc_ok [OF S(2)])
      next
        case (2 i)
        then have "i \<le> length cs" "take i (take k cs) = take i cs" by (auto simp: codes)
        then show ?case
          using best(4) [of i] rsize_take [of i cs] S(5) by (simp add: codes)
      qed (use best(2) valid_codes_rsize [OF v] in \<open>simp_all add: codes\<close>)
    qed (use trunc_ok [OF S(2)] bytes glen last codes best(3) h fit in \<open>simp_all\<close>)
    ultimately show ?thesis
      using t fit room by (intro exI conjI) (assumption | simp add: bytes)+
  qed
qed

text \<open>The match finder of \<^verbatim>\<open>compress_into\<close>, as the search the encoding loop runs.\<close>

definition finder_search :: "bytes \<Rightarrow> nat \<Rightarrow> nat \<times> nat" where
  "finder_search data pos =
     (case mf_new data :: (match_finder, unit) result of
        Ok mf \<Rightarrow> longest_match mf pos | _ \<Rightarrow> (MATCH_THRESHOLD, 0))"

interpretation finder: match_source data "finder_search data" for data
proof unfold_locales
  fix pos l off assume "finder_search data pos = (l, off)" "MATCH_THRESHOLD < l"
  then have "longest_match_brute_force data pos = (l, off)"
    by (auto simp: finder_search_def longest_match_eq split: result.splits)
  from brute_force_sound [OF this \<open>MATCH_THRESHOLD < l\<close>]
  show "MIN_MATCH \<le> off \<and> off \<le> MAX_OFFSET \<and> off \<le> pos \<and> l \<le> MAX_MATCH \<and> pos + l \<le> length data
      \<and> (\<forall>j<l. data ! (pos + j) = data ! (pos + j - off))" .
qed

lemma finder_search_eq:
  assumes "length data < NO_POS"
  obtains mf where "(mf_new data :: (match_finder, 'e) result) = Ok mf" "longest_match mf = finder_search data"
proof -
  obtain mf where mf: "(mf_new data :: (match_finder, 'e) result) = Ok mf"
    using mf_new_Ok [OF assms] by blast
  obtain mf' where mf': "(mf_new data :: (match_finder, unit) result) = Ok mf'"
    using mf_new_Ok [OF assms] by blast
  have "longest_match mf = finder_search data"
    using longest_match_eq [OF mf] longest_match_eq [OF mf'] by (auto simp: finder_search_def mf')
  with mf that show thesis by blast
qed

lemma compress_ok:
  assumes D: "length D < NO_POS"
  shows "\<exists>out. (compress D :: (bytes, 'e) result) = Ok out
     \<and> length out \<le> length D + 7 \<and> length out \<le> worst_case_len (length D)
     \<and> decompress out (length D) = Ok D"
proof -
  let ?R = "rev D" and ?buf = "zeros (worst_case_len (length D))"
  obtain mf where mf: "(mf_new ?R :: (match_finder, 'e) result) = Ok mf" "longest_match mf = finder_search ?R"
    using finder_search_eq [of ?R] D by (metis length_rev)
  have room: "length ?R + div_ceil (length ?R) 8 \<le> length ?buf" by (simp add: worst_case_len_def)
  obtain st gs rest k cs where e:
    "(enc_loop (finder_search ?R) ?R (enc_init (length ?R) ?buf) :: (enc_state, 'e) result) = Ok st"
    "(flush (e_mask st) (e_flag st) (e_out st) :: (bytes, 'e) result) = Ok (stream_bytes gs @ rest)"
    "length (stream_bytes gs @ rest) = length ?buf"
    "groups_ok gs" "cs = stream_codes gs" "e_write st = psize cs"
    "valid_codes (rev ?R) (length ?R) cs" "rsize cs = length ?R"
    "k \<le> length cs" "e_best_packed st = psize (take k cs)"
    "e_best_remaining st = length ?R - rsize (take k cs)"
    "\<forall>j\<le>length cs. e_best_packed st + e_best_remaining st
                        \<le> psize (take j cs) + (length ?R - rsize (take j cs))"
    using finder.encoded_stream [OF room] by metis
  have plen: "length (stream_bytes gs) = e_write st"
    using length_stream_bytes [OF e(4)] e(5,6) by simp
  have out: "rev (take (e_write st) (stream_bytes gs @ rest)) @ drop (e_write st) (stream_bytes gs @ rest)
      = rev (stream_bytes gs) @ rest"
    by (simp add: plen)
  have "length D + 7 \<le> length (rev (stream_bytes gs) @ rest)"
    using e(3) by (simp add: worst_case_len_def)
  then obtain out n where fin:
    "(finish D (rev (stream_bytes gs) @ rest) (e_write st) (e_best_packed st) (e_best_remaining st)
        :: (bytes \<times> nat, 'e) result) = Ok (out, n)"
    "n \<le> length (rev (stream_bytes gs) @ rest)" "decompress (take n out) (length D) = Ok D" "n \<le> length D + 7"
    using finish_ok [OF D refl e(4,5) _ _ e(6,9,10)] e(7,8,11,12) by (metis length_rev rev_rev_ident)
  have "(compress D :: (bytes, 'e) result) = Ok (take n out)"
    by (simp only: compress_def compress_into_def Let_def mf rbind.simps e(1,2) out fin(1) prod.case)
  moreover have "length (take n out) \<le> length D + 7" "length (take n out) \<le> worst_case_len (length D)"
    using fin(2,4) e(3) by auto
  ultimately show ?thesis using fin(3) by blast
qed

text \<open>
  A compressor as the KIP builder and reader use one: a packed segment keeps its length in the
  header, and unpacking to that length gives the segment back.
\<close>

locale segment_codec =
  fixes pack :: "bytes \<Rightarrow> (bytes, unit) result"
    and unpack :: "bytes \<Rightarrow> nat \<Rightarrow> (bytes, 'd) result"
    and limit :: nat
  assumes pack_unpack: "length xs < limit \<Longrightarrow> \<exists>p. pack xs = Ok p \<and> unpack p (length xs) = Ok xs \<and> length p \<le> length xs + 7"
    and unpack_total: "unpack p n \<noteq> Panic"
    and unpack_length: "unpack p n = Ok xs \<Longrightarrow> length xs = n"

interpretation blz: segment_codec compress decompress NO_POS
proof unfold_locales
  show "\<exists>p. compress xs = Ok p \<and> decompress p (length xs) = Ok xs \<and> length p \<le> length xs + 7"
    if "length xs < NO_POS" for xs
    using compress_ok [OF that] by blast
qed (auto simp: decompress_no_panic_lib dest: decompress_length_lib)

end
