(* ===== verification/Blz_Properties.thy ===== *)
theory Blz_Properties
  imports Blz_Roundtrip
begin

text \<open>What the compressor and the decompressor of \<^verbatim>\<open>src/blz.rs\<close> promise.\<close>

text \<open>C1. Round trip: any input below the position limit of the match finder compresses without a
  panic, and decompressing the stream to the recorded length gives the input back.\<close>

theorem blz_round_trip:
  assumes "length D < NO_POS"
  shows "\<exists>out. (compress D :: (bytes, 'e) result) = Ok out \<and> decompress out (length D) = Ok D"
  using compress_ok [OF assms] by blast

theorem blz_round_trip_witness:
  "\<exists>out. (compress [7, 7, 7, 7, 7, 9] :: (bytes, unit) result) = Ok out
       \<and> decompress out 6 = Ok [7, 7, 7, 7, 7, 9]"
proof -
  have "length ([7, 7, 7, 7, 7, 9] :: bytes) < NO_POS" by (simp add: NO_POS_def)
  from blz_round_trip [OF this, where 'e = unit] show ?thesis by (simp add: eval_nat_numeral)
qed

text \<open>C6. The buffer \<^verbatim>\<open>compress\<close> allocates is always large enough, and a stream is never
  more than seven bytes longer than its input.\<close>

theorem blz_compress_bounded:
  assumes "length D < NO_POS"
  shows "\<exists>out. (compress D :: (bytes, 'e) result) = Ok out
     \<and> length out \<le> worst_case_len (length D) \<and> length out \<le> length D + 7"
  using compress_ok [OF assms] by blast

theorem blz_compress_bounded_witness:
  "\<exists>out. (compress [1, 2] :: (bytes, unit) result) = Ok out
     \<and> length out \<le> worst_case_len 2 \<and> length out \<le> 9"
proof -
  have "length ([1, 2] :: bytes) < NO_POS" by (simp add: NO_POS_def)
  from blz_compress_bounded [OF this, where 'e = unit] show ?thesis by (simp add: eval_nat_numeral)
qed

text \<open>C7. The hash-chain match finder reports exactly what the exhaustive search reports, at every
  position: the longest match, and the nearest one among the longest.\<close>

theorem blz_finder_exhaustive:
  assumes "(mf_new data :: (match_finder, 'e) result) = Ok mf"
  shows "longest_match mf pos = longest_match_brute_force data pos"
  by (rule longest_match_eq [OF assms])

theorem blz_finder_exhaustive_witness:
  "\<exists>mf. (mf_new [1, 2, 3, 1, 2, 3] :: (match_finder, unit) result) = Ok mf
     \<and> longest_match mf 3 = longest_match_brute_force [1, 2, 3, 1, 2, 3] 3"
proof -
  obtain mf where mf: "(mf_new [1, 2, 3, 1, 2, 3] :: (match_finder, unit) result) = Ok mf"
    using mf_new_Ok [of "[1, 2, 3, 1, 2, 3]"] by (auto simp: NO_POS_def)
  from mf blz_finder_exhaustive [OF mf, of 3] show ?thesis by blast
qed

text \<open>C8. The walk along a hash chain ends: \<open>pos + 2\<close> steps are always enough, so the search
  returns at every position with a full prefix.\<close>

theorem blz_walk_terminates:
  assumes "(mf_new data :: (match_finder, 'e) result) = Ok mf" "pos + 2 < length data"
  shows "\<exists>r. walk (pos + 2) mf pos (length data - pos) (mf_prev mf ! pos) MATCH_THRESHOLD 0 = Some r"
  using walk_follows_chain [OF assms] by blast

theorem blz_walk_terminates_witness:
  "\<exists>mf r. (mf_new [1, 2, 3, 1, 2, 3] :: (match_finder, unit) result) = Ok mf
     \<and> walk 5 mf 3 3 (mf_prev mf ! 3) MATCH_THRESHOLD 0 = Some r"
proof -
  obtain mf where mf: "(mf_new [1, 2, 3, 1, 2, 3] :: (match_finder, unit) result) = Ok mf"
    using mf_new_Ok [of "[1, 2, 3, 1, 2, 3]"] by (auto simp: NO_POS_def)
  from mf blz_walk_terminates [OF mf, of 3] show ?thesis by (auto simp: eval_nat_numeral)
qed

text \<open>C9. Decompression never panics, whatever bytes it is given: no index leaves the buffer.\<close>

theorem blz_decompress_no_panic: "decompress data n \<noteq> Panic"
  by (rule blz.unpack_total)

text \<open>A successful decompression has the length the caller asked for.\<close>

theorem blz_decompress_length:
  assumes "decompress data n = Ok out"
  shows "length out = n"
  using assms by (rule blz.unpack_length)

theorem blz_decompress_length_witness:
  "decompress ([5] @ zeros 3 @ le32 0) 1 = Ok [5] \<and> length [5 :: u8] = 1"
  using decompress_stored [of "[5]" 3] blz_decompress_length [of "[5] @ zeros 3 @ le32 0" 1 "[5]"] by simp

text \<open>A trailer is rejected, with the three lengths it is judged by, unless the header holds at
  least its twelve bytes, fits in the encoded region, and the region fits in the data; and data too
  short for a trailer is rejected first.\<close>

theorem blz_bad_trailer:
  assumes "trailing_u32 data 4 = Some e" "e \<noteq> 0"
  shows "(length data < 12 \<longrightarrow> decompress data n = Err (Blz_BufferTooSmall 12 (length data)))
    \<and> (\<forall>h l. trailing_u32 data 8 = Some h \<and> trailing_u32 data 12 = Some l
         \<and> (unat h < 12 \<or> unat l < unat h \<or> length data < unat l) \<longrightarrow>
         decompress data n = Err (Blz_MalformedTrailer (unat l) (unat h) (length data)))"
proof (intro conjI impI allI)
  assume "length data < 12"
  then have "checked_sub (length data) 12 = None" by simp
  then have "trailing_u32 data 12 = None" by (simp only: trailing_u32_def option.case)
  then show "decompress data n = Err (Blz_BufferTooSmall 12 (length data))"
    using assms by (cases "trailing_u32 data 8") (simp_all add: decompress_def Let_def)
next
  fix h l assume "trailing_u32 data 8 = Some h \<and> trailing_u32 data 12 = Some l
         \<and> (unat h < 12 \<or> unat l < unat h \<or> length data < unat l)"
  then show "decompress data n = Err (Blz_MalformedTrailer (unat l) (unat h) (length data))"
    using assms by (auto simp: decompress_def Let_def)
qed

theorem blz_bad_trailer_witness:
  "decompress [0, 0, 0, 0, 11, 0, 0, 0, 1, 0, 0, 0] 3 = Err (Blz_MalformedTrailer 0 11 12)"
proof -
  let ?d = "[0, 0, 0, 0, 11, 0, 0, 0, 1, 0, 0, 0] :: bytes"
  have "trailing_u32 ?d 4 = Some 1" "trailing_u32 ?d 8 = Some 11" "trailing_u32 ?d 12 = Some 0"
    by (simp_all add: trailing_u32_def checked_sub_def get_range_def)
  then show ?thesis using blz_bad_trailer [of ?d 1 3] by simp
qed

end
