(* ===== verification/NX_Codec.thy ===== *)
theory NX_Codec
  imports NX_Prelude
begin

text \<open>
  The wire layouts of \<^verbatim>\<open>src/raw/\<close>.  The source declares each header as a packed
  \<^verbatim>\<open>repr(C)\<close> structure and lets the \<^verbatim>\<open>zerocopy\<close> traits map it onto bytes; here every
  header is a record with an encoder and a decoder that spell its field offsets out, and the
  locale \<open>layout\<close> states what the rest of the development relies on.
\<close>

section \<open>Mapping a structure onto a buffer\<close>

text \<open>\<^verbatim>\<open>T::ref_from_prefix\<close>: the structure and the bytes after it, unless the buffer is short.\<close>

definition ref_from_prefix :: "(bytes \<Rightarrow> 'r) \<Rightarrow> nat \<Rightarrow> bytes \<Rightarrow> ('r \<times> bytes) option" where
  "ref_from_prefix dec n bs = (if n \<le> length bs then Some (dec bs, drop n bs) else None)"

lemma ref_from_prefix_Some [simp]:
  "ref_from_prefix dec n bs = Some p \<longleftrightarrow> n \<le> length bs \<and> p = (dec bs, drop n bs)"
  by (auto simp: ref_from_prefix_def)

lemma ref_from_prefix_None [simp]: "ref_from_prefix dec n bs = None \<longleftrightarrow> length bs < n"
  by (auto simp: ref_from_prefix_def)

lemma ref_from_prefix_run [run_simps]:
  "n \<le> length bs \<Longrightarrow> ref_from_prefix dec n bs = Some (dec bs, drop n bs)"
  "length bs < n \<Longrightarrow> ref_from_prefix dec n bs = None"
  by simp_all

text \<open>An array of structures: \<^verbatim>\<open><[T]>::ref_from_bytes\<close> on \<open>k\<close> of them, and its bytes.\<close>

definition dec_table :: "(bytes \<Rightarrow> 'r) \<Rightarrow> nat \<Rightarrow> nat \<Rightarrow> bytes \<Rightarrow> 'r list" where
  "dec_table dec n k bs = map (\<lambda>i. dec (drop (i * n) bs)) [0..<k]"

definition enc_table :: "('r \<Rightarrow> bytes) \<Rightarrow> 'r list \<Rightarrow> bytes" where
  "enc_table enc rs = concat (map enc rs)"

lemma length_dec_table [simp]: "length (dec_table dec n k bs) = k"
  by (simp add: dec_table_def)

lemma nth_dec_table [simp]: "i < k \<Longrightarrow> dec_table dec n k bs ! i = dec (drop (i * n) bs)"
  by (simp add: dec_table_def)

lemma enc_table_simps [simp]:
  "enc_table enc [] = []" "enc_table enc (r # rs) = enc r @ enc_table enc rs"
  "enc_table enc (rs @ rs') = enc_table enc rs @ enc_table enc rs'"
  by (simp_all add: enc_table_def)

lemma dec_table_0 [simp]: "dec_table dec n 0 bs = []"
  by (simp add: dec_table_def)

lemma dec_table_Suc: "dec_table dec n (Suc k) bs = dec bs # dec_table dec n k (drop n bs)"
proof -
  have "[0..<Suc k] = 0 # map Suc [0..<k]" by (simp add: map_Suc_upt upt_conv_Cons del: upt_Suc)
  then show ?thesis by (simp add: dec_table_def comp_def add.commute)
qed

section \<open>The contract of a layout\<close>

text \<open>
  \<open>wf\<close> collects what the Rust type guarantees and the record does not: the lengths of array
  fields.  Any long enough buffer maps to a well-formed structure, and mapping and serialising
  are inverse to each other.
\<close>

locale layout =
  fixes enc :: "'r \<Rightarrow> bytes" and dec :: "bytes \<Rightarrow> 'r" and size :: nat and wf :: "'r \<Rightarrow> bool"
  assumes enc_length: "wf r \<Longrightarrow> length (enc r) = size"
    and dec_enc: "wf r \<Longrightarrow> dec (enc r @ rest) = r"
    and dec_wf: "size \<le> length bs \<Longrightarrow> wf (dec bs)"
    and enc_dec: "size \<le> length bs \<Longrightarrow> enc (dec bs) = take size bs"
begin

lemma prefix_of_written:
  "wf r \<Longrightarrow> ref_from_prefix dec size (enc r @ rest) = Some (r, rest)"
  by (simp add: enc_length dec_enc)

lemma dec_take:
  assumes "size \<le> n" "size \<le> length bs"
  shows "dec (take n bs) = dec bs"
proof -
  have "enc (dec bs) @ drop size (take n bs) = take size (take n bs) @ drop size (take n bs)"
    using assms by (simp add: enc_dec min_absorb1)
  then have "enc (dec bs) @ drop size (take n bs) = take n bs"
    by (simp only: append_take_drop_id)
  then show ?thesis
    using dec_enc [OF dec_wf [OF assms(2)], of "drop size (take n bs)"] by simp
qed

lemma enc_inject: "wf r \<Longrightarrow> wf r' \<Longrightarrow> enc r = enc r' \<longleftrightarrow> r = r'"
  by (metis dec_enc)

lemma enc_table_length: "\<forall>r\<in>set rs. wf r \<Longrightarrow> length (enc_table enc rs) = length rs * size"
  by (induction rs) (simp_all add: enc_length)

lemma dec_enc_table:
  "\<forall>r\<in>set rs. wf r \<Longrightarrow> dec_table dec size (length rs) (enc_table enc rs @ rest) = rs"
proof (induction rs)
  case (Cons r rs)
  then show ?case by (simp add: dec_table_Suc dec_enc enc_length)
qed simp

lemma dec_table_wf: "k * size \<le> length bs \<Longrightarrow> \<forall>r\<in>set (dec_table dec size k bs). wf r"
proof (induction k arbitrary: bs)
  case (Suc k)
  then have "k * size \<le> length (drop size bs)" "size \<le> length bs" by simp_all
  with Suc.IH [of "drop size bs"] show ?case by (simp add: dec_table_Suc dec_wf)
qed simp

lemma enc_dec_table: "k * size \<le> length bs \<Longrightarrow> enc_table enc (dec_table dec size k bs) = take (k * size) bs"
proof (induction k arbitrary: bs)
  case (Suc k)
  then show ?case by (simp add: dec_table_Suc enc_dec take_add)
qed simp

text \<open>Reading record \<open>i\<close> of a table in place.\<close>

lemma dec_nth_table:
  assumes "i < length rs" "\<forall>r\<in>set rs. wf r"
  shows "dec (drop (i * size) (enc_table enc rs @ rest)) = rs ! i"
proof -
  have "dec_table dec size (length rs) (enc_table enc rs @ rest) ! i = rs ! i"
    using dec_enc_table [OF assms(2)] by simp
  with assms(1) show ?thesis by simp
qed

end

section \<open>Tables of integers\<close>

interpretation u32_word: layout le32 "\<lambda>bs. rd32 bs 0" 4 "\<lambda>_. True"
  by unfold_locales (simp_all add: field_simps_le field_join)

interpretation u64_word: layout le64 "\<lambda>bs. rd64 bs 0" 8 "\<lambda>_. True"
  by unfold_locales (simp_all add: field_simps_le field_join)

end
