(* ===== verification/Kip.thy ===== *)
theory Kip
  imports NX_Codec Blz_Roundtrip
begin

text \<open>
  KIP1, the initial-process format: the header of \<^verbatim>\<open>src/raw/kip.rs\<close>, the builder of
  \<^verbatim>\<open>src/write/kip.rs\<close> and the reader of \<^verbatim>\<open>src/read/kip.rs\<close>.
\<close>

section \<open>The header\<close>

definition KIP1_MAGIC :: u32 where "KIP1_MAGIC = 0x3150494b"

record kip1_raw_segment =
  ks_dst_addr :: u32
  ks_decomp_size :: u32
  ks_comp_size :: u32
  ks_attributes :: u32

definition enc_kip1_segment :: "kip1_raw_segment \<Rightarrow> bytes" where
  "enc_kip1_segment s =
     le32 (ks_dst_addr s) @ le32 (ks_decomp_size s) @ le32 (ks_comp_size s) @ le32 (ks_attributes s)"

definition dec_kip1_segment :: "bytes \<Rightarrow> kip1_raw_segment" where
  "dec_kip1_segment bs =
     \<lparr>ks_dst_addr = rd32 bs 0, ks_decomp_size = rd32 bs 4, ks_comp_size = rd32 bs 8,
      ks_attributes = rd32 bs 12\<rparr>"

interpretation kip1_segment: layout enc_kip1_segment dec_kip1_segment "0x10" "\<lambda>_. True"
  by unfold_locales
    (simp_all add: enc_kip1_segment_def dec_kip1_segment_def field_simps_le field_join)

record kip1_header =
  kh_magic :: u32
  kh_name :: bytes
  kh_title_id :: u64
  kh_process_category :: u32
  kh_main_thread_priority :: u8
  kh_default_cpu_id :: u8
  kh_reserved :: u8
  kh_flags :: u8
  kh_segments :: "kip1_raw_segment list"
  kh_capabilities :: bytes

definition enc_kip1_header :: "kip1_header \<Rightarrow> bytes" where
  "enc_kip1_header h =
     le32 (kh_magic h) @ kh_name h @ le64 (kh_title_id h) @ le32 (kh_process_category h)
     @ [kh_main_thread_priority h, kh_default_cpu_id h, kh_reserved h, kh_flags h]
     @ enc_table enc_kip1_segment (kh_segments h) @ kh_capabilities h"

definition dec_kip1_header :: "bytes \<Rightarrow> kip1_header" where
  "dec_kip1_header bs =
     \<lparr>kh_magic = rd32 bs 0, kh_name = sub_bytes bs 4 12, kh_title_id = rd64 bs 0x10,
      kh_process_category = rd32 bs 0x18, kh_main_thread_priority = rd8 bs 0x1C,
      kh_default_cpu_id = rd8 bs 0x1D, kh_reserved = rd8 bs 0x1E, kh_flags = rd8 bs 0x1F,
      kh_segments = dec_table dec_kip1_segment 0x10 6 (drop 0x20 bs),
      kh_capabilities = sub_bytes bs 0x80 0x80\<rparr>"

definition kip1_header_wf :: "kip1_header \<Rightarrow> bool" where
  "kip1_header_wf h \<longleftrightarrow>
     length (kh_name h) = 12 \<and> length (kh_segments h) = 6 \<and> length (kh_capabilities h) = 0x80"

interpretation kip1_header: layout enc_kip1_header dec_kip1_header "0x100" kip1_header_wf
proof unfold_locales
  fix r rest assume wf: "kip1_header_wf r"
  note len = kip1_segment.enc_table_length [of "kh_segments r"]
  show "length (enc_kip1_header r) = 0x100"
    using wf len by (simp add: enc_kip1_header_def kip1_header_wf_def)
  show "dec_kip1_header (enc_kip1_header r @ rest) = r"
    using wf len kip1_segment.dec_enc_table [of "kh_segments r"]
    by (simp add: enc_kip1_header_def dec_kip1_header_def kip1_header_wf_def field_simps_le)
next
  fix bs :: bytes assume len: "0x100 \<le> length bs"
  then show "kip1_header_wf (dec_kip1_header bs)"
    by (simp add: dec_kip1_header_def kip1_header_wf_def length_sub_bytes)
  have "enc_table enc_kip1_segment (dec_table dec_kip1_segment 0x10 6 (drop 0x20 bs)) = sub_bytes bs 0x20 0x60"
    using kip1_segment.enc_dec_table [of 6 "drop 0x20 bs"] len by (simp add: sub_bytes_def)
  with len show "enc_kip1_header (dec_kip1_header bs) = take 0x100 bs"
    by (simp add: enc_kip1_header_def dec_kip1_header_def field_simps_le field_join)
qed

section \<open>The builder\<close>

record kip1_builder =
  kb_name :: "bytes option"
  kb_title_id :: u64
  kb_process_category :: u32
  kb_main_thread_priority :: u8
  kb_default_cpu_id :: u8
  kb_flags :: "u8 option"
  kb_text :: "bytes option"
  kb_text_vaddr :: u32
  kb_rodata :: "bytes option"
  kb_rodata_vaddr :: u32
  kb_rodata_attributes :: u32
  kb_data :: "bytes option"
  kb_data_vaddr :: u32
  kb_bss_vaddr :: "u32 option"
  kb_bss_size :: "u32 option"
  kb_kernel_capabilities :: "u32 list"

definition kip1_new :: kip1_builder where
  "kip1_new =
     \<lparr>kb_name = None, kb_title_id = 0, kb_process_category = 0, kb_main_thread_priority = 0,
      kb_default_cpu_id = 0, kb_flags = None, kb_text = None, kb_text_vaddr = 0, kb_rodata = None,
      kb_rodata_vaddr = 0, kb_rodata_attributes = 0, kb_data = None, kb_data_vaddr = 0,
      kb_bss_vaddr = None, kb_bss_size = None, kb_kernel_capabilities = []\<rparr>"

text \<open>The setters, each consuming the builder and returning it with one field replaced.\<close>

definition kip1_name :: "bytes \<Rightarrow> kip1_builder \<Rightarrow> kip1_builder" where
  "kip1_name n b = b\<lparr>kb_name := Some n\<rparr>"
definition kip1_title_id :: "u64 \<Rightarrow> kip1_builder \<Rightarrow> kip1_builder" where
  "kip1_title_id i b = b\<lparr>kb_title_id := i\<rparr>"
definition kip1_process_category :: "u32 \<Rightarrow> kip1_builder \<Rightarrow> kip1_builder" where
  "kip1_process_category c b = b\<lparr>kb_process_category := c\<rparr>"
definition kip1_main_thread_priority :: "u8 \<Rightarrow> kip1_builder \<Rightarrow> kip1_builder" where
  "kip1_main_thread_priority p b = b\<lparr>kb_main_thread_priority := p\<rparr>"
definition kip1_default_cpu_id :: "u8 \<Rightarrow> kip1_builder \<Rightarrow> kip1_builder" where
  "kip1_default_cpu_id c b = b\<lparr>kb_default_cpu_id := c\<rparr>"
definition kip1_flags :: "u8 \<Rightarrow> kip1_builder \<Rightarrow> kip1_builder" where
  "kip1_flags f b = b\<lparr>kb_flags := Some f\<rparr>"
definition kip1_text :: "bytes \<Rightarrow> kip1_builder \<Rightarrow> kip1_builder" where
  "kip1_text d b = b\<lparr>kb_text := Some d\<rparr>"
definition kip1_text_vaddr :: "u32 \<Rightarrow> kip1_builder \<Rightarrow> kip1_builder" where
  "kip1_text_vaddr v b = b\<lparr>kb_text_vaddr := v\<rparr>"
definition kip1_rodata :: "bytes \<Rightarrow> kip1_builder \<Rightarrow> kip1_builder" where
  "kip1_rodata d b = b\<lparr>kb_rodata := Some d\<rparr>"
definition kip1_rodata_vaddr :: "u32 \<Rightarrow> kip1_builder \<Rightarrow> kip1_builder" where
  "kip1_rodata_vaddr v b = b\<lparr>kb_rodata_vaddr := v\<rparr>"
definition kip1_rodata_attributes :: "u32 \<Rightarrow> kip1_builder \<Rightarrow> kip1_builder" where
  "kip1_rodata_attributes a b = b\<lparr>kb_rodata_attributes := a\<rparr>"
definition kip1_data :: "bytes \<Rightarrow> kip1_builder \<Rightarrow> kip1_builder" where
  "kip1_data d b = b\<lparr>kb_data := Some d\<rparr>"
definition kip1_data_vaddr :: "u32 \<Rightarrow> kip1_builder \<Rightarrow> kip1_builder" where
  "kip1_data_vaddr v b = b\<lparr>kb_data_vaddr := v\<rparr>"
definition kip1_bss_vaddr :: "u32 \<Rightarrow> kip1_builder \<Rightarrow> kip1_builder" where
  "kip1_bss_vaddr v b = b\<lparr>kb_bss_vaddr := Some v\<rparr>"
definition kip1_bss_size :: "u32 \<Rightarrow> kip1_builder \<Rightarrow> kip1_builder" where
  "kip1_bss_size n b = b\<lparr>kb_bss_size := Some n\<rparr>"
definition kip1_kernel_capabilities :: "u32 list \<Rightarrow> kip1_builder \<Rightarrow> kip1_builder" where
  "kip1_kernel_capabilities cs b = b\<lparr>kb_kernel_capabilities := kb_kernel_capabilities b @ cs\<rparr>"

lemmas kip1_setters =
  kip1_new_def kip1_name_def kip1_title_id_def kip1_process_category_def
  kip1_main_thread_priority_def kip1_default_cpu_id_def kip1_flags_def kip1_text_def
  kip1_text_vaddr_def kip1_rodata_def kip1_rodata_vaddr_def kip1_rodata_attributes_def
  kip1_data_def kip1_data_vaddr_def kip1_bss_vaddr_def kip1_bss_size_def
  kip1_kernel_capabilities_def

datatype kip1_build_error =
    Kip1_MissingName | Kip1_MissingText | Kip1_MissingRodata | Kip1_MissingData
  | Kip1_IncompleteBssConfiguration (has_vaddr: bool) (has_size: bool)
  | Kip1_TooManyKernelCapabilities (cap_count: nat)

text \<open>The name field: at most eleven bytes, then zeros up to twelve.\<close>

definition kip1_name_field :: "bytes \<Rightarrow> bytes" where
  "kip1_name_field name = resize0 (take 11 name) 12"

text \<open>The capability block: the words in order over a block of \<^verbatim>\<open>0xFF\<close> bytes.\<close>

definition kip1_cap_bytes :: "u32 list \<Rightarrow> (bytes, 'e) result" where
  "kip1_cap_bytes caps =
     rfold (\<lambda>bytes (i, cap). copy_at bytes (i * 4) (le32 cap))
       (replicate 0x80 0xFF) (zip [0..<length caps] caps)"

definition kip1_segment_of :: "u32 \<Rightarrow> nat \<Rightarrow> nat \<Rightarrow> u32 \<Rightarrow> kip1_raw_segment" where
  "kip1_segment_of vaddr expanded packed attrs =
     \<lparr>ks_dst_addr = vaddr, ks_decomp_size = word_of_nat expanded, ks_comp_size = word_of_nat packed,
      ks_attributes = attrs\<rparr>"

definition kip1_zero_segment :: kip1_raw_segment where
  "kip1_zero_segment = \<lparr>ks_dst_addr = 0, ks_decomp_size = 0, ks_comp_size = 0, ks_attributes = 0\<rparr>"

definition kip1_bss_segment :: "kip1_builder \<Rightarrow> kip1_raw_segment" where
  "kip1_bss_segment b =
     (case (kb_bss_vaddr b, kb_bss_size b) of
        (Some v, Some n) \<Rightarrow> \<lparr>ks_dst_addr = v, ks_decomp_size = n, ks_comp_size = 0, ks_attributes = 0\<rparr>
      | _ \<Rightarrow> kip1_zero_segment)"

text \<open>The validation at the head of \<^verbatim>\<open>build\<close>, in the order of the code.\<close>

definition kip1_check :: "kip1_builder \<Rightarrow> (bytes \<times> bytes \<times> bytes \<times> bytes, kip1_build_error) result" where
  "kip1_check b =
     rbind (ok_or Kip1_MissingName (kb_name b)) (\<lambda>name.
     rbind (ok_or Kip1_MissingText (kb_text b)) (\<lambda>text.
     rbind (ok_or Kip1_MissingRodata (kb_rodata b)) (\<lambda>rodata.
     rbind (ok_or Kip1_MissingData (kb_data b)) (\<lambda>data.
     rbind (case (kb_bss_vaddr b, kb_bss_size b) of
              (Some _, None) \<Rightarrow> Err (Kip1_IncompleteBssConfiguration True False)
            | (None, Some _) \<Rightarrow> Err (Kip1_IncompleteBssConfiguration False True)
            | _ \<Rightarrow> Ok ()) (\<lambda>_.
       if length (kb_kernel_capabilities b) > 0x20
       then Err (Kip1_TooManyKernelCapabilities (length (kb_kernel_capabilities b)))
       else Ok (name, text, rodata, data))))))"

definition kip1_build :: "kip1_builder \<Rightarrow> (bytes, kip1_build_error) result" where
  "kip1_build b =
     rbind (kip1_check b) (\<lambda>(name, text, rodata, data).
     rbind (compress text) (\<lambda>text_c.
     rbind (compress rodata) (\<lambda>rodata_c.
     rbind (compress data) (\<lambda>data_c.
     rbind (kip1_cap_bytes (kb_kernel_capabilities b)) (\<lambda>caps.
       let flags = (case kb_flags b of Some f \<Rightarrow> f | None \<Rightarrow> 0x3F);
           header =
             \<lparr>kh_magic = KIP1_MAGIC, kh_name = kip1_name_field name, kh_title_id = kb_title_id b,
              kh_process_category = kb_process_category b,
              kh_main_thread_priority = kb_main_thread_priority b,
              kh_default_cpu_id = kb_default_cpu_id b, kh_reserved = 0, kh_flags = flags,
              kh_segments =
                [kip1_segment_of (kb_text_vaddr b) (length text) (length text_c) 0,
                 kip1_segment_of (kb_rodata_vaddr b) (length rodata) (length rodata_c)
                   (kb_rodata_attributes b),
                 kip1_segment_of (kb_data_vaddr b) (length data) (length data_c) 0,
                 kip1_bss_segment b, kip1_zero_segment, kip1_zero_segment],
              kh_capabilities = caps\<rparr>
       in Ok (enc_kip1_header header @ text_c @ rodata_c @ data_c))))))"

section \<open>The reader\<close>

definition LOADED_SEGMENT_COUNT :: nat where "LOADED_SEGMENT_COUNT = 4"
definition BSS_INDEX :: nat where "BSS_INDEX = 3"

datatype kip1_parse_error =
    Kip1_BufferTooSmall (required: nat) (available: nat)
  | Kip1_InvalidMagic (found: u32)
  | Kip1_SegmentBoundsOverflow (segment_index: nat) (seg_offset: nat) (seg_size: nat)
  | Kip1_SegmentOutOfBounds (segment_index: nat) (seg_offset: nat) (seg_size: nat) (available: nat)

definition stored_size :: "kip1_header \<Rightarrow> nat \<Rightarrow> nat" where
  "stored_size h index = (if index = BSS_INDEX then 0 else unat (ks_comp_size (kh_segments h ! index)))"

definition is_compressed :: "kip1_header \<Rightarrow> nat \<Rightarrow> bool" where
  "is_compressed h index =
     (if index \<ge> BSS_INDEX then False else kh_flags h AND push_bit index 1 \<noteq> 0)"

text \<open>\<^verbatim>\<open>Kip1\<close>: the parsed header and the whole image.\<close>

record kip1 =
  kip_header :: kip1_header
  kip_bytes :: bytes

definition kip1_try_from_bytes :: "bytes \<Rightarrow> (kip1, kip1_parse_error) result" where
  "kip1_try_from_bytes bs =
     rbind (ok_or (Kip1_BufferTooSmall 0x100 (length bs)) (ref_from_prefix dec_kip1_header 0x100 bs)) (\<lambda>(header, _).
       if kh_magic header \<noteq> KIP1_MAGIC then Err (Kip1_InvalidMagic (kh_magic header))
       else rbind (rfold (\<lambda>off index.
                let stored = stored_size header index in
                rbind (ok_or (Kip1_SegmentBoundsOverflow index off stored) (checked_add off stored)) (\<lambda>end_off.
                  if end_off > length bs
                  then Err (Kip1_SegmentOutOfBounds index off stored (length bs))
                  else Ok end_off)) 0x100 [0..<LOADED_SEGMENT_COUNT]) (\<lambda>_.
              Ok \<lparr>kip_header = header, kip_bytes = bs\<rparr>))"

definition kip1_reader_name :: "kip1 \<Rightarrow> bytes" where
  "kip1_reader_name k = cstr (kh_name (kip_header k))"

definition kip1_reader_title_id :: "kip1 \<Rightarrow> u64" where
  "kip1_reader_title_id k = kh_title_id (kip_header k)"

record kip1_segment_view =
  kv_index :: nat
  kv_descriptor :: kip1_raw_segment
  kv_compressed :: bool
  kv_stored :: bytes

definition kip1_segment :: "kip1 \<Rightarrow> nat \<Rightarrow> (kip1_segment_view option, 'e) result" where
  "kip1_segment k index =
     (if index \<ge> LOADED_SEGMENT_COUNT then Ok None
      else
        let h = kip_header k in
        rbind (rfold (\<lambda>off before. uadd off (stored_size h before)) 0x100 [0..<index]) (\<lambda>off.
        let stored = stored_size h index in
        rbind (uadd off stored) (\<lambda>end_off.
        rbind (slice (kip_bytes k) off end_off) (\<lambda>bs.
        rbind (at (kh_segments h) index) (\<lambda>d.
          Ok (Some \<lparr>kv_index = index, kv_descriptor = d, kv_compressed = is_compressed h index,
                    kv_stored = bs\<rparr>))))))"

text \<open>\<^verbatim>\<open>segments\<close>: the present ones among the four, in order.\<close>

definition kip1_segments :: "kip1 \<Rightarrow> (kip1_segment_view list, 'e) result" where
  "kip1_segments k =
     rfold (\<lambda>acc index. rbind (kip1_segment k index) (\<lambda>s.
              Ok (case s of None \<Rightarrow> acc | Some v \<Rightarrow> acc @ [v]))) [] [0..<LOADED_SEGMENT_COUNT]"

definition kip1_address :: "kip1_segment_view \<Rightarrow> u32" where
  "kip1_address v = ks_dst_addr (kv_descriptor v)"

definition kip1_decompressed_size :: "kip1_segment_view \<Rightarrow> nat" where
  "kip1_decompressed_size v = unat (ks_decomp_size (kv_descriptor v))"

datatype kip1_decompress_error = Kip1_Decompress (failed_segment: nat) (source: decompress_error)

definition kip1_decompress :: "kip1_segment_view \<Rightarrow> (bytes, kip1_decompress_error) result" where
  "kip1_decompress v =
     (if \<not> kv_compressed v then Ok (kv_stored v)
      else map_err (Kip1_Decompress (kv_index v))
             (decompress (kv_stored v) (kip1_decompressed_size v)))"

section \<open>What the builder writes\<close>

lemma length_kip1_name_field [simp]: "length (kip1_name_field name) = 12"
  by (simp add: kip1_name_field_def)

lemma kip1_cap_bytes_ok:
  assumes "length caps \<le> 0x20"
  shows "(kip1_cap_bytes caps :: (bytes, 'e) result)
     = Ok (concat (map le32 caps) @ replicate (0x80 - 4 * length caps) 0xFF)"
  using assms
proof (induction caps rule: rev_induct)
  case Nil
  show ?case by (simp add: kip1_cap_bytes_def)
next
  case (snoc c caps)
  let ?done = "concat (map le32 caps)"
  have "(kip1_cap_bytes (caps @ [c]) :: (bytes, 'e) result)
      = rbind (kip1_cap_bytes caps) (\<lambda>bs. copy_at bs (length caps * 4) (le32 c))"
    by (simp add: kip1_cap_bytes_def rfold_append zip_append)
  also have "\<dots> = Ok (?done @ le32 c @ drop 4 (replicate (0x80 - 4 * length caps) 0xFF))"
    using snoc by simp
  finally show ?case using snoc.prems by simp
qed

text \<open>The header and segments of a build that gets past the checks.\<close>

definition kip1_header_of :: "kip1_builder \<Rightarrow> bytes \<Rightarrow> bytes list \<Rightarrow> bytes list \<Rightarrow> kip1_header" where
  "kip1_header_of b name raws packed =
     \<lparr>kh_magic = KIP1_MAGIC, kh_name = kip1_name_field name, kh_title_id = kb_title_id b,
      kh_process_category = kb_process_category b,
      kh_main_thread_priority = kb_main_thread_priority b,
      kh_default_cpu_id = kb_default_cpu_id b, kh_reserved = 0,
      kh_flags = (case kb_flags b of Some f \<Rightarrow> f | None \<Rightarrow> 0x3F),
      kh_segments =
        [kip1_segment_of (kb_text_vaddr b) (length (raws ! 0)) (length (packed ! 0)) 0,
         kip1_segment_of (kb_rodata_vaddr b) (length (raws ! 1)) (length (packed ! 1)) (kb_rodata_attributes b),
         kip1_segment_of (kb_data_vaddr b) (length (raws ! 2)) (length (packed ! 2)) 0,
         kip1_bss_segment b, kip1_zero_segment, kip1_zero_segment],
      kh_capabilities = concat (map le32 (kb_kernel_capabilities b))
         @ replicate (0x80 - 4 * length (kb_kernel_capabilities b)) 0xFF\<rparr>"

lemma kip1_check_Ok:
  "kip1_check b = Ok (name, text, rodata, data) \<longleftrightarrow>
     kb_name b = Some name \<and> kb_text b = Some text \<and> kb_rodata b = Some rodata \<and> kb_data b = Some data
     \<and> (kb_bss_vaddr b = None \<longleftrightarrow> kb_bss_size b = None) \<and> length (kb_kernel_capabilities b) \<le> 0x20"
  by (auto simp: kip1_check_def rbind_eq_Ok split: option.splits if_splits)

lemma kip1_check_no_panic: "kip1_check b \<noteq> Panic"
  by (auto simp: kip1_check_def rbind_eq_Panic split: option.splits if_splits)

lemma kip1_build_ok:
  assumes "kip1_check b = Ok (name, text, rodata, data)"
    and "(compress text :: (bytes, kip1_build_error) result) = Ok p0"
    and "(compress rodata :: (bytes, kip1_build_error) result) = Ok p1"
    and "(compress data :: (bytes, kip1_build_error) result) = Ok p2"
  shows "kip1_build b = Ok (enc_kip1_header (kip1_header_of b name [text, rodata, data] [p0, p1, p2]) @ p0 @ p1 @ p2)"
proof -
  have "length (kb_kernel_capabilities b) \<le> 0x20" using assms(1) by (simp add: kip1_check_Ok)
  then show ?thesis
    by (simp add: kip1_build_def assms kip1_header_of_def kip1_cap_bytes_ok Let_def)
qed

lemma kip1_header_of_wf:
  "length (kb_kernel_capabilities b) \<le> 0x20 \<Longrightarrow> kip1_header_wf (kip1_header_of b name raws packed)"
  by (simp add: kip1_header_wf_def kip1_header_of_def)

section \<open>What the reader accepts\<close>

text \<open>Where segment \<open>index\<close> starts: after the header and the stored bytes before it.\<close>

definition kip1_offset :: "kip1_header \<Rightarrow> nat \<Rightarrow> nat" where
  "kip1_offset h index = 0x100 + sum_list (map (stored_size h) [0..<index])"

lemma kip1_offset_simps [simp]:
  "kip1_offset h 0 = 0x100" "kip1_offset h (Suc i) = kip1_offset h i + stored_size h i"
  by (simp_all add: kip1_offset_def)

lemma kip1_offset_mono: "i \<le> j \<Longrightarrow> kip1_offset h i \<le> kip1_offset h j"
  by (rule lift_Suc_mono_le) simp

lemma stored_size_less: "stored_size h i < 2 ^ 32"
  using unat_u32_bound [of "ks_comp_size (kh_segments h ! i)"] by (simp add: stored_size_def)

lemma kip1_offset_small: "i \<le> 4 \<Longrightarrow> kip1_offset h i \<le> usize_max"
proof -
  have "kip1_offset h i \<le> 0x100 + i * 2 ^ 32" for i
  proof (induction i)
    case (Suc i)
    then show ?case using stored_size_less [of h i] by simp
  qed simp
  from this [of i] show "i \<le> 4 \<Longrightarrow> kip1_offset h i \<le> usize_max"
    by (auto simp: usize_max_def)
qed

text \<open>The offsets are checked left to right, so the first segment past the end is reported.\<close>

lemma kip1_bounds_loop:
  assumes "n \<le> 4"
  shows "rfold (\<lambda>off index.
            let stored = stored_size h index in
            rbind (ok_or (Kip1_SegmentBoundsOverflow index off stored) (checked_add off stored)) (\<lambda>end_off.
              if end_off > length bs
              then Err (Kip1_SegmentOutOfBounds index off stored (length bs))
              else Ok end_off)) 0x100 [0..<n]
    = (case find (\<lambda>i. length bs < kip1_offset h (Suc i)) [0..<n] of
         None \<Rightarrow> Ok (kip1_offset h n)
       | Some i \<Rightarrow> Err (Kip1_SegmentOutOfBounds i (kip1_offset h i) (stored_size h i) (length bs)))"
  using assms
proof (induction n)
  case (Suc n)
  have "kip1_offset h n + stored_size h n \<le> usize_max"
    using kip1_offset_small [of "Suc n" h] Suc.prems by simp
  with Suc show ?case
    by (simp add: rfold_append Let_def find_append run_simps split: option.split)
qed simp

lemma kip1_try_eq:
  "kip1_try_from_bytes bs =
     (if length bs < 0x100 then Err (Kip1_BufferTooSmall 0x100 (length bs))
      else let h = dec_kip1_header bs in
        if kh_magic h \<noteq> KIP1_MAGIC then Err (Kip1_InvalidMagic (kh_magic h))
        else (case find (\<lambda>i. length bs < kip1_offset h (Suc i)) [0..<4] of
                None \<Rightarrow> Ok \<lparr>kip_header = h, kip_bytes = bs\<rparr>
              | Some i \<Rightarrow> Err (Kip1_SegmentOutOfBounds i (kip1_offset h i) (stored_size h i) (length bs))))"
proof (cases "length bs < 0x100")
  case False
  with kip1_bounds_loop [of 4 "dec_kip1_header bs" bs] show ?thesis
    by (simp add: kip1_try_from_bytes_def LOADED_SEGMENT_COUNT_def Let_def run_simps
        del: upt_Suc kip1_offset_simps split: option.split)
qed (simp add: kip1_try_from_bytes_def run_simps)

lemma kip1_try_Ok:
  "kip1_try_from_bytes bs = Ok k \<longleftrightarrow>
     0x100 \<le> length bs \<and> kh_magic (dec_kip1_header bs) = KIP1_MAGIC
     \<and> kip1_offset (dec_kip1_header bs) 4 \<le> length bs \<and> k = \<lparr>kip_header = dec_kip1_header bs, kip_bytes = bs\<rparr>"
proof -
  have "find (\<lambda>i. length bs < kip1_offset h (Suc i)) [0..<4] = None \<longleftrightarrow> kip1_offset h 4 \<le> length bs" for h
  proof -
    have "find (\<lambda>i. length bs < kip1_offset h (Suc i)) [0..<4] = None \<longleftrightarrow> (\<forall>i<4. kip1_offset h (Suc i) \<le> length bs)"
      by (auto simp: find_None_iff not_less simp del: kip1_offset_simps upt_Suc) (metis not_le)
    also have "\<dots> \<longleftrightarrow> kip1_offset h 4 \<le> length bs"
    proof
      assume "\<forall>i<4. kip1_offset h (Suc i) \<le> length bs"
      then have "kip1_offset h (Suc 3) \<le> length bs" by (rule allE [of _ 3]) simp
      then show "kip1_offset h 4 \<le> length bs" by (simp add: eval_nat_numeral)
    next
      assume "kip1_offset h 4 \<le> length bs"
      then show "\<forall>i<4. kip1_offset h (Suc i) \<le> length bs"
        using kip1_offset_mono [of "Suc i" 4 h for i] by (meson Suc_leI order.trans)
    qed
    finally show ?thesis .
  qed
  from this [of "dec_kip1_header bs"] show ?thesis
    by (auto simp: kip1_try_eq Let_def simp del: kip1_offset_simps upt_Suc split: option.splits if_splits)
qed

lemma kip1_try_no_panic: "kip1_try_from_bytes bs \<noteq> Panic"
  by (simp add: kip1_try_eq Let_def del: upt_Suc split: option.split)

text \<open>Every accessor of a parsed image succeeds, on the bytes the header assigns it.\<close>

lemma kip1_segment_ok:
  assumes "kip1_try_from_bytes bs = Ok k"
  shows "(kip1_segment k index :: (kip1_segment_view option, 'e) result) =
     Ok (if index \<ge> 4 then None
         else Some \<lparr>kv_index = index, kv_descriptor = kh_segments (kip_header k) ! index,
                    kv_compressed = is_compressed (kip_header k) index,
                    kv_stored = sub_bytes bs (kip1_offset (kip_header k) index) (stored_size (kip_header k) index)\<rparr>)"
proof (cases "index \<ge> 4")
  case False
  let ?h = "kip_header k"
  have k: "kip_bytes k = bs" "kip1_offset ?h 4 \<le> length bs" "length (kh_segments ?h) = 6"
    using assms kip1_header.dec_wf [of bs] by (auto simp: kip1_try_Ok kip1_header_wf_def)
  have "(rfold (\<lambda>off before. uadd off (stored_size ?h before)) 0x100 [0..<n] :: (nat, 'e) result)
      = Ok (kip1_offset ?h n)" if "n \<le> 4" for n
    using that
  proof (induction n)
    case (Suc n)
    then show ?case
      using kip1_offset_small [of "Suc n" ?h] by (simp add: rfold_append run_simps)
  qed simp
  moreover have "kip1_offset ?h (Suc index) \<le> length bs" "kip1_offset ?h (Suc index) \<le> usize_max"
    using False k(2) kip1_offset_mono [of "Suc index" 4 ?h] kip1_offset_small [of "Suc index" ?h] by linarith+
  ultimately show ?thesis
    using False k by (simp add: kip1_segment_def LOADED_SEGMENT_COUNT_def Let_def run_simps sub_bytes_def)
qed (simp add: kip1_segment_def LOADED_SEGMENT_COUNT_def)

lemma kip1_segments_ok:
  assumes "kip1_try_from_bytes bs = Ok k"
  shows "(kip1_segments k :: (kip1_segment_view list, 'e) result) =
     Ok (map (\<lambda>index. \<lparr>kv_index = index, kv_descriptor = kh_segments (kip_header k) ! index,
                    kv_compressed = is_compressed (kip_header k) index,
                    kv_stored = sub_bytes bs (kip1_offset (kip_header k) index) (stored_size (kip_header k) index)\<rparr>)
           [0..<4])"
proof -
  have "[0..<4] = [0, 1, 2, 3 :: nat]" by (simp add: upt_rec)
  then show ?thesis
    by (simp add: kip1_segments_def LOADED_SEGMENT_COUNT_def kip1_segment_ok [OF assms] del: upt_Suc)
qed

lemma kip1_decompress_no_panic: "kip1_decompress v \<noteq> Panic"
  by (simp add: kip1_decompress_def blz.unpack_total)

section \<open>Reading back what was built\<close>

text \<open>The image parses, and each of the first three segments is the stored form the builder made.\<close>

lemma kip1_built:
  assumes h: "h = kip1_header_of b name [t, r, d] [p0, p1, p2]" "length (kb_kernel_capabilities b) \<le> 0x20"
    and small: "length p0 < 2 ^ 32" "length p1 < 2 ^ 32" "length p2 < 2 ^ 32"
    and img: "img = enc_kip1_header h @ p0 @ p1 @ p2"
  shows "kip1_try_from_bytes img = Ok \<lparr>kip_header = h, kip_bytes = img\<rparr>"
    and "map (\<lambda>i. sub_bytes img (kip1_offset h i) (stored_size h i)) [0..<4] = [p0, p1, p2, []]"
proof -
  have wf: "kip1_header_wf h" unfolding h(1) by (rule kip1_header_of_wf [OF h(2)])
  have dec: "dec_kip1_header img = h" "length (enc_kip1_header h) = 0x100"
    unfolding img by (rule kip1_header.dec_enc [OF wf], rule kip1_header.enc_length [OF wf])
  have sz: "stored_size h 0 = length p0" "stored_size h 1 = length p1" "stored_size h 2 = length p2"
    "stored_size h 3 = 0"
    using small by (simp_all add: h(1) stored_size_def BSS_INDEX_def kip1_header_of_def kip1_segment_of_def
        unat_of_nat take_bit_nat_eq_self)
  have off: "kip1_offset h 1 = 0x100 + length p0" "kip1_offset h 2 = 0x100 + length p0 + length p1"
    "kip1_offset h 3 = 0x100 + length p0 + length p1 + length p2"
    "kip1_offset h 4 = 0x100 + length p0 + length p1 + length p2"
    using sz by (simp_all add: kip1_offset_def upt_rec numeral_2_eq_2 numeral_3_eq_3)
  have "kh_magic h = KIP1_MAGIC" by (simp add: h(1) kip1_header_of_def)
  then show "kip1_try_from_bytes img = Ok \<lparr>kip_header = h, kip_bytes = img\<rparr>"
    using dec off by (simp add: kip1_try_Ok img)
  have "[0..<4] = [0, 1, 2, 3 :: nat]" by (simp add: upt_rec)
  then show "map (\<lambda>i. sub_bytes img (kip1_offset h i) (stored_size h i)) [0..<4] = [p0, p1, p2, []]"
    using dec(2) sz off by (simp add: img sub_bytes_def kip1_offset_def del: upt_Suc kip1_offset_simps(2))
qed

lemma kip1_name_read:
  "0 \<notin> set (take 11 name) \<Longrightarrow> utf8_valid (take 11 name) \<Longrightarrow> cstr (kip1_name_field name) = take 11 name"
  unfolding kip1_name_field_def resize0_def by (simp add: cstr_zeros)

lemma kip1_compressed_bits:
  assumes "kh_flags h AND 7 = 7"
  shows "is_compressed h 0" "is_compressed h 1" "is_compressed h 2"
proof -
  have "bit (kh_flags h) i" if "i < 3" for i
  proof -
    have "bit (kh_flags h AND 7) i = bit (7 :: u8) i" using assms by simp
    moreover have "bit (7 :: u8) i" using that by (auto simp: less_Suc_eq numeral_3_eq_3 bit_numeral_rec)
    ultimately show ?thesis by (simp add: bit_and_iff)
  qed
  moreover have "kh_flags h AND push_bit i 1 \<noteq> 0" if "bit (kh_flags h) i" for i
    using that and_exp_eq_0_iff_not_bit [of "kh_flags h" i] by (simp add: push_bit_eq_mult)
  ultimately have "kh_flags h AND push_bit i 1 \<noteq> 0" if "i < 3" for i using that by blast
  then have "is_compressed h i" if "i < 3" for i
    using that by (auto simp: is_compressed_def BSS_INDEX_def)
  then show "is_compressed h 0" "is_compressed h 1" "is_compressed h 2" by simp_all
qed

text \<open>The whole way: build, parse, expand.\<close>

lemma kip1_build_parse:
  assumes chk: "kip1_check b = Ok (name, text, rodata, data)"
    and small: "length text + 7 < 2 ^ 32" "length rodata + 7 < 2 ^ 32" "length data + 7 < 2 ^ 32"
  shows "\<exists>img p0 p1 p2. kip1_build b = Ok img
    \<and> kip1_try_from_bytes img = Ok \<lparr>kip_header = kip1_header_of b name [text, rodata, data] [p0, p1, p2], kip_bytes = img\<rparr>
    \<and> map (\<lambda>i. sub_bytes img (kip1_offset (kip1_header_of b name [text, rodata, data] [p0, p1, p2]) i)
                             (stored_size (kip1_header_of b name [text, rodata, data] [p0, p1, p2]) i)) [0..<4]
         = [p0, p1, p2, []]
    \<and> decompress p0 (length text) = Ok text \<and> decompress p1 (length rodata) = Ok rodata
    \<and> decompress p2 (length data) = Ok data"
proof -
  have lim: "length xs < NO_POS" if "length xs + 7 < 2 ^ 32" for xs :: bytes
    using that by (simp add: NO_POS_def)
  obtain p0 where p0: "(compress text :: (bytes, kip1_build_error) result) = Ok p0"
    "length p0 \<le> length text + 7" "decompress p0 (length text) = Ok text"
    using compress_ok [OF lim [OF small(1)]] by blast
  obtain p1 where p1: "(compress rodata :: (bytes, kip1_build_error) result) = Ok p1"
    "length p1 \<le> length rodata + 7" "decompress p1 (length rodata) = Ok rodata"
    using compress_ok [OF lim [OF small(2)]] by blast
  obtain p2 where p2: "(compress data :: (bytes, kip1_build_error) result) = Ok p2"
    "length p2 \<le> length data + 7" "decompress p2 (length data) = Ok data"
    using compress_ok [OF lim [OF small(3)]] by blast
  have caps: "length (kb_kernel_capabilities b) \<le> 0x20" using chk by (simp add: kip1_check_Ok)
  have len: "length p0 < 2 ^ 32" "length p1 < 2 ^ 32" "length p2 < 2 ^ 32"
    using p0(2) p1(2) p2(2) small by simp_all
  note parsed = kip1_built [OF refl caps len refl, of name "text" rodata data]
  show ?thesis
    by (intro exI conjI) (rule kip1_build_ok [OF chk p0(1) p1(1) p2(1)] parsed p0(3) p1(3) p2(3))+
qed

lemma kip1_expand:
  assumes chk: "kip1_check b = Ok (name, text, rodata, data)"
    and small: "length text + 7 < 2 ^ 32" "length rodata + 7 < 2 ^ 32" "length data + 7 < 2 ^ 32"
    and flags: "kb_flags b = None \<or> (\<exists>f. kb_flags b = Some f \<and> f AND 7 = 7)"
  shows "\<exists>img k vs. kip1_build b = Ok img \<and> kip1_try_from_bytes img = Ok k
    \<and> (kip1_segments k :: (kip1_segment_view list, 'e) result) = Ok vs
    \<and> map kip1_decompress vs = [Ok text, Ok rodata, Ok data, Ok []]
    \<and> kip1_reader_name k = cstr (kip1_name_field name) \<and> kip1_reader_title_id k = kb_title_id b"
proof -
  obtain img p0 p1 p2 where b: "kip1_build b = Ok img"
    "kip1_try_from_bytes img = Ok \<lparr>kip_header = kip1_header_of b name [text, rodata, data] [p0, p1, p2], kip_bytes = img\<rparr>"
    "map (\<lambda>i. sub_bytes img (kip1_offset (kip1_header_of b name [text, rodata, data] [p0, p1, p2]) i)
                             (stored_size (kip1_header_of b name [text, rodata, data] [p0, p1, p2]) i)) [0..<4]
         = [p0, p1, p2, []]"
    "decompress p0 (length text) = Ok text" "decompress p1 (length rodata) = Ok rodata"
    "decompress p2 (length data) = Ok data"
    using kip1_build_parse [OF chk small] by (elim exE conjE) (rule that)
  define h where "h = kip1_header_of b name [text, rodata, data] [p0, p1, p2]"
  let ?k = "\<lparr>kip_header = h, kip_bytes = img\<rparr>"
  let ?view = "\<lambda>i. \<lparr>kv_index = i, kv_descriptor = kh_segments h ! i, kv_compressed = is_compressed h i,
                    kv_stored = sub_bytes img (kip1_offset h i) (stored_size h i)\<rparr>"
  have parse: "kip1_try_from_bytes img = Ok ?k" using b(2) by (simp add: h_def)
  have segs: "(kip1_segments ?k :: (kip1_segment_view list, 'e) result) = Ok (map ?view [0..<4])"
    using kip1_segments_ok [OF parse] by simp
  have four: "[0..<4] = [0, 1, 2, 3 :: nat]" by (simp add: upt_rec)
  have "kh_flags h AND 7 = 7"
    using flags by (auto simp: h_def kip1_header_of_def)
  note bits = kip1_compressed_bits [OF this]
  have "\<not> is_compressed h 3" by (simp add: is_compressed_def BSS_INDEX_def)
  moreover have "unat (word_of_nat (length xs) :: u32) = length xs" if "length xs + 7 < 2 ^ 32" for xs :: bytes
    using that by (simp add: unat_of_nat)
  ultimately have "map kip1_decompress (map ?view [0..<4]) = [Ok text, Ok rodata, Ok data, Ok []]"
    using b(3-6) bits small unfolding h_def [symmetric] four
    by (simp add: kip1_decompress_def kip1_decompressed_size_def)
      (simp add: h_def kip1_header_of_def kip1_segment_of_def)
  then show ?thesis
    using b(1) parse segs
    by (intro exI conjI) (assumption | simp add: kip1_reader_name_def kip1_reader_title_id_def h_def kip1_header_of_def)+
qed

text \<open>With the compression bits cleared, the stored bytes come out unexpanded.\<close>

lemma kip1_clear_bits:
  assumes "kh_flags h AND 7 = 0"
  shows "\<not> is_compressed h i"
proof (cases "i < 3")
  case True
  have "(push_bit i 1 :: u8) = 7 AND push_bit i 1"
    using True by (auto simp: less_Suc_eq numeral_3_eq_3)
  then have "kh_flags h AND push_bit i 1 = (kh_flags h AND 7) AND push_bit i 1"
    by (metis and.assoc)
  with assms show ?thesis by (simp add: is_compressed_def)
qed (simp add: is_compressed_def BSS_INDEX_def)

lemma kip1_expand_uncompressed:
  assumes chk: "kip1_check b = Ok (name, text, rodata, data)"
    and flags: "kb_flags b = Some f" "f AND 7 = 0"
    and small: "length text + 7 < 2 ^ 32" "length rodata + 7 < 2 ^ 32" "length data + 7 < 2 ^ 32"
  shows "\<exists>img k vs p0 p1 p2. kip1_build b = Ok img \<and> kip1_try_from_bytes img = Ok k
    \<and> (kip1_segments k :: (kip1_segment_view list, 'e) result) = Ok vs
    \<and> map kip1_decompress vs = [Ok p0, Ok p1, Ok p2, Ok []]
    \<and> decompress p0 (length text) = Ok text \<and> decompress p1 (length rodata) = Ok rodata
    \<and> decompress p2 (length data) = Ok data"
proof -
  obtain img p0 p1 p2 where b: "kip1_build b = Ok img"
    "kip1_try_from_bytes img = Ok \<lparr>kip_header = kip1_header_of b name [text, rodata, data] [p0, p1, p2], kip_bytes = img\<rparr>"
    "map (\<lambda>i. sub_bytes img (kip1_offset (kip1_header_of b name [text, rodata, data] [p0, p1, p2]) i)
                             (stored_size (kip1_header_of b name [text, rodata, data] [p0, p1, p2]) i)) [0..<4]
         = [p0, p1, p2, []]"
    "decompress p0 (length text) = Ok text" "decompress p1 (length rodata) = Ok rodata"
    "decompress p2 (length data) = Ok data"
    using kip1_build_parse [OF chk small] by (elim exE conjE) (rule that)
  define h where "h = kip1_header_of b name [text, rodata, data] [p0, p1, p2]"
  have "kh_flags h AND 7 = 0" using flags by (simp add: h_def kip1_header_of_def)
  note bits = kip1_clear_bits [OF this]
  have parse: "kip1_try_from_bytes img = Ok \<lparr>kip_header = h, kip_bytes = img\<rparr>"
    using b(2) by (simp add: h_def)
  let ?vs = "map (\<lambda>i. \<lparr>kv_index = i, kv_descriptor = kh_segments h ! i, kv_compressed = is_compressed h i,
                    kv_stored = sub_bytes img (kip1_offset h i) (stored_size h i)\<rparr>) [0..<4]"
  have segs: "(kip1_segments \<lparr>kip_header = h, kip_bytes = img\<rparr> :: (kip1_segment_view list, 'e) result) = Ok ?vs"
    using kip1_segments_ok [OF parse] by simp
  have "map kip1_decompress ?vs = map Ok (map (\<lambda>i. sub_bytes img (kip1_offset h i) (stored_size h i)) [0..<4])"
    by (simp add: kip1_decompress_def bits)
  also have "\<dots> = [Ok p0, Ok p1, Ok p2, Ok []]"
    using b(3) by (simp add: h_def)
  finally show ?thesis
    using b(1,4-6) parse segs by (intro exI conjI)
qed

end
