(* ===== verification/Kip_Properties.thy ===== *)
theory Kip_Properties
  imports Kip
begin

text \<open>What the KIP1 builder and reader promise.\<close>

text \<open>The smallest complete builder, for the witnesses.\<close>

definition kip1_example :: kip1_builder where
  "kip1_example = kip1_data [3] (kip1_rodata [2] (kip1_text [1] (kip1_name [65, 66] kip1_new)))"

lemma kip1_example_check: "kip1_check kip1_example = Ok ([65, 66], [1], [2], [3])"
  by (simp add: kip1_check_Ok kip1_example_def kip1_setters)

text \<open>C10. A KIP1 image built with the default flags, or with flags that keep the three compression
  bits, parses, and its segments expand to what the builder was given; \<open>bss\<close> is empty.  The title
  comes back, and the name up to the eleven bytes the header keeps.\<close>

theorem kip1_round_trip:
  assumes "kip1_check b = Ok (name, text, rodata, data)"
    and "length text + 7 < 2 ^ 32" "length rodata + 7 < 2 ^ 32" "length data + 7 < 2 ^ 32"
    and "kb_flags b = None \<or> (\<exists>f. kb_flags b = Some f \<and> f AND 7 = 7)"
    and "0 \<notin> set (take 11 name)" "utf8_valid (take 11 name)"
  shows "\<exists>img k vs. kip1_build b = Ok img \<and> kip1_try_from_bytes img = Ok k
    \<and> (kip1_segments k :: (kip1_segment_view list, 'e) result) = Ok vs
    \<and> map kip1_decompress vs = [Ok text, Ok rodata, Ok data, Ok []]
    \<and> kip1_reader_name k = take 11 name \<and> kip1_reader_title_id k = kb_title_id b"
  using kip1_expand [OF assms(1-5)] kip1_name_read [OF assms(6,7)] by simp

theorem kip1_round_trip_witness:
  "\<exists>img k vs. kip1_build kip1_example = Ok img \<and> kip1_try_from_bytes img = Ok k
    \<and> (kip1_segments k :: (kip1_segment_view list, unit) result) = Ok vs
    \<and> map kip1_decompress vs = [Ok [1], Ok [2], Ok [3], Ok []]
    \<and> kip1_reader_name k = [65, 66] \<and> kip1_reader_title_id k = 0"
  using kip1_round_trip [OF kip1_example_check, where 'e = unit]
  by (simp add: kip1_example_def kip1_setters)

text \<open>Validation is exact: a buffer is accepted if and only if it holds the header, the magic is
  right, and the stored segments end inside it.\<close>

theorem kip1_accepts_iff:
  "(\<exists>k. kip1_try_from_bytes bs = Ok k) \<longleftrightarrow>
     0x100 \<le> length bs \<and> kh_magic (dec_kip1_header bs) = KIP1_MAGIC
     \<and> 0x100 + (\<Sum>i<4. stored_size (dec_kip1_header bs) i) \<le> length bs"
proof -
  have "(\<Sum>i<4. stored_size h i) = sum_list (map (stored_size h) [0..<4])" for h
    by (simp add: sum_list_sum_nth atLeast0LessThan)
  then show ?thesis by (simp add: kip1_try_Ok kip1_offset_def del: upt_Suc)
qed

text \<open>Every rejection names what is wrong: a short buffer, the magic that was found, or the first
  segment past the end with its offset and size.  The overflow error cannot arise from 32-bit sizes
  on a 64-bit target, and no input makes the parser panic.\<close>

theorem kip1_rejects:
  "kip1_try_from_bytes bs =
     (if length bs < 0x100 then Err (Kip1_BufferTooSmall 0x100 (length bs))
      else let h = dec_kip1_header bs in
        if kh_magic h \<noteq> KIP1_MAGIC then Err (Kip1_InvalidMagic (kh_magic h))
        else (case find (\<lambda>i. length bs < kip1_offset h (Suc i)) [0..<4] of
                None \<Rightarrow> Ok \<lparr>kip_header = h, kip_bytes = bs\<rparr>
              | Some i \<Rightarrow> Err (Kip1_SegmentOutOfBounds i (kip1_offset h i) (stored_size h i) (length bs))))"
  by (rule kip1_try_eq)

text \<open>On a parsed image every accessor succeeds: the index is answered with a slice of the
  stored length, \<open>None\<close> past the loaded segments, and expanding a segment never panics.\<close>

theorem kip1_accessors_safe:
  assumes "kip1_try_from_bytes bs = Ok k"
  shows "\<exists>r. (kip1_segment k index :: (kip1_segment_view option, 'e) result) = Ok r
    \<and> (r = None \<longleftrightarrow> 4 \<le> index)
    \<and> (case r of None \<Rightarrow> True
       | Some v \<Rightarrow> length (kv_stored v) = stored_size (kip_header k) index \<and> kip1_decompress v \<noteq> Panic)"
proof (cases "4 \<le> index")
  case False
  have "kip1_offset (kip_header k) (Suc index) \<le> length bs"
    using assms False kip1_offset_mono [of "Suc index" 4 "kip_header k"]
    by (auto simp: kip1_try_Ok)
  then show ?thesis
    using False by (simp add: kip1_segment_ok [OF assms] kip1_decompress_no_panic length_sub_bytes)
qed (simp add: kip1_segment_ok [OF assms])

theorem kip1_accessors_safe_witness:
  "\<exists>img k r. kip1_build kip1_example = Ok img \<and> kip1_try_from_bytes img = Ok k
    \<and> (kip1_segment k 1 :: (kip1_segment_view option, unit) result) = Ok (Some r)
    \<and> kip1_decompress r \<noteq> Panic"
proof -
  obtain img k where b: "kip1_build kip1_example = Ok img" "kip1_try_from_bytes img = Ok k"
    using kip1_expand [OF kip1_example_check, where 'e = unit] by (auto simp: kip1_example_def kip1_setters)
  from kip1_accessors_safe [OF b(2), of 1, where 'e = unit] b show ?thesis
    by (auto split: option.splits)
qed

text \<open>The builder's checks are the only errors, reported in the order the code makes them.\<close>

theorem kip1_build_errors:
  assumes "\<forall>xs. Some xs \<in> {kb_text b, kb_rodata b, kb_data b} \<longrightarrow> length xs < NO_POS"
  shows "kip1_build b = Err e \<longleftrightarrow>
     (if kb_name b = None then e = Kip1_MissingName
      else if kb_text b = None then e = Kip1_MissingText
      else if kb_rodata b = None then e = Kip1_MissingRodata
      else if kb_data b = None then e = Kip1_MissingData
      else if (kb_bss_vaddr b = None) \<noteq> (kb_bss_size b = None)
        then e = Kip1_IncompleteBssConfiguration (kb_bss_vaddr b \<noteq> None) (kb_bss_size b \<noteq> None)
      else 0x20 < length (kb_kernel_capabilities b)
        \<and> e = Kip1_TooManyKernelCapabilities (length (kb_kernel_capabilities b)))"
proof (cases "kip1_check b")
  case (Ok c)
  then obtain name t r d where c: "kip1_check b = Ok (name, t, r, d)" by (cases c) auto
  then have f: "kb_name b = Some name" "kb_text b = Some t" "kb_rodata b = Some r" "kb_data b = Some d"
    "(kb_bss_vaddr b = None) = (kb_bss_size b = None)" "length (kb_kernel_capabilities b) \<le> 0x20"
    by (simp_all add: kip1_check_Ok)
  then have "length t < NO_POS" "length r < NO_POS" "length d < NO_POS" using assms by auto
  from this [THEN compress_ok [where 'e = kip1_build_error]] obtain p0 p1 p2 where
    p: "(compress t :: (bytes, kip1_build_error) result) = Ok p0"
      "(compress r :: (bytes, kip1_build_error) result) = Ok p1"
      "(compress d :: (bytes, kip1_build_error) result) = Ok p2"
    by blast
  have "kip1_build b \<noteq> Err e" by (simp add: kip1_build_ok [OF c p])
  then show ?thesis using f by auto
next
  case (Err e')
  then have "kip1_build b = Err e'" by (simp add: kip1_build_def)
  moreover have "kip1_check b = Err e'" by (rule Err)
  ultimately show ?thesis
    by (auto simp: kip1_check_def ok_or_def split: option.splits if_splits)
next
  case Panic
  then show ?thesis by (simp add: kip1_check_no_panic)
qed

theorem kip1_build_errors_witness:
  "kip1_build (kip1_bss_size 16 kip1_example) = Err (Kip1_IncompleteBssConfiguration False True)"
proof -
  have "\<forall>xs. Some xs \<in> {kb_text (kip1_bss_size 16 kip1_example), kb_rodata (kip1_bss_size 16 kip1_example),
      kb_data (kip1_bss_size 16 kip1_example)} \<longrightarrow> length xs < NO_POS"
    by (simp add: kip1_example_def kip1_setters NO_POS_def)
  from kip1_build_errors [OF this] show ?thesis
    by (simp add: kip1_example_def kip1_setters)
qed

text \<open>Overriding the flags with a clear compression bit leaves the segments packed: the reader
  then hands the BLZ stream out as if it were the segment.\<close>

theorem kip1_flags_override:
  assumes "kip1_check b = Ok (name, text, rodata, data)" "kb_flags b = Some f" "f AND 7 = 0"
    and "length text + 7 < 2 ^ 32" "length rodata + 7 < 2 ^ 32" "length data + 7 < 2 ^ 32"
  shows "\<exists>img k vs p0 p1 p2. kip1_build b = Ok img \<and> kip1_try_from_bytes img = Ok k
    \<and> (kip1_segments k :: (kip1_segment_view list, 'e) result) = Ok vs
    \<and> map kip1_decompress vs = [Ok p0, Ok p1, Ok p2, Ok []]
    \<and> decompress p0 (length text) = Ok text \<and> decompress p1 (length rodata) = Ok rodata
    \<and> decompress p2 (length data) = Ok data"
  by (rule kip1_expand_uncompressed [OF assms])

theorem kip1_flags_override_witness:
  "\<exists>img k vs p0 p1 p2. kip1_build (kip1_flags 0x38 kip1_example) = Ok img \<and> kip1_try_from_bytes img = Ok k
    \<and> (kip1_segments k :: (kip1_segment_view list, unit) result) = Ok vs
    \<and> map kip1_decompress vs = [Ok p0, Ok p1, Ok p2, Ok []]
    \<and> decompress p0 1 = Ok [1] \<and> decompress p1 1 = Ok [2] \<and> decompress p2 1 = Ok [3]"
proof -
  have "kip1_check (kip1_flags 0x38 kip1_example) = Ok ([65, 66], [1], [2], [3])"
    by (simp add: kip1_check_Ok kip1_example_def kip1_setters)
  from kip1_flags_override [OF this, of "0x38", where 'e = unit] show ?thesis
    by (simp add: kip1_flags_def)
qed

end
