(* ===== verification/Pfs0.thy ===== *)
theory Pfs0
  imports NX_Codec "HOL-Library.Multiset"
begin

text \<open>
  PFS0, the flat archive: the layouts of \<^verbatim>\<open>src/raw/pfs0.rs\<close>, the builder of
  \<^verbatim>\<open>src/write/pfs0.rs\<close> and the reader of \<^verbatim>\<open>src/read/pfs0.rs\<close>.  Names are UTF-8 byte
  lists, compared as the standard library compares strings.
\<close>

section \<open>Layouts\<close>

definition PFS0_MAGIC :: u32 where "PFS0_MAGIC = 0x30534650"

record pfs0_header =
  ph_magic :: u32
  ph_file_count :: u32
  ph_string_table_size :: u32
  ph_reserved :: u32

definition enc_pfs0_header :: "pfs0_header \<Rightarrow> bytes" where
  "enc_pfs0_header h =
     le32 (ph_magic h) @ le32 (ph_file_count h) @ le32 (ph_string_table_size h) @ le32 (ph_reserved h)"

definition dec_pfs0_header :: "bytes \<Rightarrow> pfs0_header" where
  "dec_pfs0_header bs =
     \<lparr>ph_magic = rd32 bs 0, ph_file_count = rd32 bs 4, ph_string_table_size = rd32 bs 8,
      ph_reserved = rd32 bs 12\<rparr>"

interpretation pfs0_header: layout enc_pfs0_header dec_pfs0_header "0x10" "\<lambda>_. True"
  by unfold_locales
    (simp_all add: enc_pfs0_header_def dec_pfs0_header_def field_simps_le field_join)

record pfs0_entry =
  pe_offset :: u64
  pe_size :: u64
  pe_string_table_offset :: u32
  pe_reserved :: u32

definition enc_pfs0_entry :: "pfs0_entry \<Rightarrow> bytes" where
  "enc_pfs0_entry e =
     le64 (pe_offset e) @ le64 (pe_size e) @ le32 (pe_string_table_offset e) @ le32 (pe_reserved e)"

definition dec_pfs0_entry :: "bytes \<Rightarrow> pfs0_entry" where
  "dec_pfs0_entry bs =
     \<lparr>pe_offset = rd64 bs 0, pe_size = rd64 bs 8, pe_string_table_offset = rd32 bs 16,
      pe_reserved = rd32 bs 20\<rparr>"

interpretation pfs0_entry: layout enc_pfs0_entry dec_pfs0_entry "0x18" "\<lambda>_. True"
  by unfold_locales
    (simp_all add: enc_pfs0_entry_def dec_pfs0_entry_def field_simps_le field_join)

section \<open>The builder\<close>

text \<open>\<^verbatim>\<open>Pfs0Builder\<close>: the files in the order they were added.\<close>

type_synonym pfs0_builder = "(bytes \<times> bytes) list"

datatype pfs0_add_error =
    Pfs0_EmptyFileName
  | Pfs0_InvalidFileName bytes string
  | Pfs0_DuplicateFile bytes

definition pfs0_new :: pfs0_builder where
  "pfs0_new = []"

definition pfs0_add_file :: "pfs0_builder \<Rightarrow> bytes \<Rightarrow> bytes \<Rightarrow> (pfs0_builder, pfs0_add_error) result" where
  "pfs0_add_file files n data =
     (if n = [] then Err Pfs0_EmptyFileName
      else if 0 \<in> set n then Err (Pfs0_InvalidFileName n ''filename contains null byte'')
      else if 0x2F \<in> set n \<or> 0x5C \<in> set n
      then Err (Pfs0_InvalidFileName n ''filename contains path separator'')
      else if \<exists>f\<in>set files. fst f = n then Err (Pfs0_DuplicateFile n)
      else Ok (files @ [(n, data)]))"

text \<open>
  \<^verbatim>\<open>from_directory\<close> over what the filesystem answers: the listing, and for each entry its
  kind, its name if that is valid UTF-8, and its contents; \<open>None\<close> is a read that failed.
\<close>

datatype dir_kind = Is_Dir | Is_File | Is_Other

datatype dir_entry =
    Unreadable_Entry
  | Dir_Entry bytes "dir_kind option" "bytes option" "bytes option"

datatype pfs0_dir_error =
    Pfs0_Io bytes
  | Pfs0_Dir_InvalidFileName bytes
  | Pfs0_AddFile pfs0_add_error

definition pfs0_scan_entry ::
  "bytes \<Rightarrow> (bytes \<times> bytes) list \<Rightarrow> dir_entry \<Rightarrow> ((bytes \<times> bytes) list, pfs0_dir_error) result" where
  "pfs0_scan_entry path found e =
     (case e of
        Unreadable_Entry \<Rightarrow> Err (Pfs0_Io path)
      | Dir_Entry p meta fname read_data \<Rightarrow>
          rbind (ok_or (Pfs0_Io p) meta) (\<lambda>kind.
            if kind = Is_Dir then Ok found
            else if kind \<noteq> Is_File then Ok found
            else rbind (ok_or (Pfs0_Dir_InvalidFileName p) fname) (\<lambda>n.
                 rbind (ok_or (Pfs0_Io p) read_data) (\<lambda>d. Ok (found @ [(n, d)])))))"

definition pfs0_from_directory ::
  "bytes \<Rightarrow> dir_entry list option \<Rightarrow> (pfs0_builder, pfs0_dir_error) result" where
  "pfs0_from_directory path listing =
     rbind (ok_or (Pfs0_Io path) listing) (\<lambda>entries.
     rbind (rfold (pfs0_scan_entry path) [] entries) (\<lambda>found.
       rfold (\<lambda>b (n, d). map_err Pfs0_AddFile (pfs0_add_file b n d)) pfs0_new (sort_key fst found)))"

text \<open>One iteration of the loop of \<^verbatim>\<open>build\<close>: the entry, the name, and the data of file \<open>i\<close>.\<close>

definition pfs0_write_file ::
  "nat \<Rightarrow> nat \<Rightarrow> bytes \<times> u32 \<times> u64 \<Rightarrow> nat \<times> bytes \<times> bytes \<Rightarrow> (bytes \<times> u32 \<times> u64, 'e) result" where
  "pfs0_write_file file_table_end data_start = (\<lambda>(buf, string_offset, data_offset) (i, n, data).
     let entry = \<lparr>pe_offset = data_offset, pe_size = word_of_nat (length data),
                  pe_string_table_offset = string_offset, pe_reserved = 0\<rparr>
     in rbind (copy_at buf (0x10 + i * 0x18) (enc_pfs0_entry entry)) (\<lambda>buf.
        rbind (copy_at buf (file_table_end + unat string_offset) n) (\<lambda>buf.
        rbind (copy_at buf (data_start + unat data_offset) data) (\<lambda>buf.
        rbind (wadd string_offset (word_of_nat (length n + 1))) (\<lambda>string_offset.
        rbind (wadd data_offset (word_of_nat (length data))) (\<lambda>data_offset.
          Ok (buf, string_offset, data_offset)))))))"

definition pfs0_build :: "pfs0_builder \<Rightarrow> (bytes, 'e) result" where
  "pfs0_build added =
     (let files = sort_key fst added;
          file_count = word_of_nat (length files) :: u32;
          string_table_size = align_up (sum_list (map (\<lambda>f. length (fst f) + 1) files)) 0x20;
          file_table_end = 0x10 + unat file_count * 0x18;
          data_start = file_table_end + string_table_size;
          total_size = data_start + sum_list (map (\<lambda>f. length (snd f)) files);
          header = \<lparr>ph_magic = PFS0_MAGIC, ph_file_count = file_count,
                    ph_string_table_size = word_of_nat string_table_size, ph_reserved = 0\<rparr>
      in rbind (copy_at (zeros total_size) 0 (enc_pfs0_header header)) (\<lambda>buf.
         rbind (rfold (pfs0_write_file file_table_end data_start) (buf, 0, 0)
                  (zip [0..<length files] files)) (\<lambda>(buf, _).
           Ok buf)))"

section \<open>The reader\<close>

datatype pfs0_parse_error =
    Pfs0_BufferTooSmall nat nat
  | Pfs0_InvalidMagic u32
  | Pfs0_EntryTableOutOfBounds nat nat
  | Pfs0_StringTableOutOfBounds nat nat
  | Pfs0_FileBoundsOverflow nat nat nat
  | Pfs0_FileOutOfBounds nat nat nat nat
  | Pfs0_NameOutOfBounds nat nat nat
  | Pfs0_NameUnterminated nat nat

record pfs0 =
  p_header :: pfs0_header
  p_entries :: "pfs0_entry list"
  p_string_table :: bytes
  p_data :: bytes

record pfs0_file =
  pf_name :: bytes
  pf_data :: bytes

definition check_file_bounds :: "nat \<Rightarrow> pfs0_entry \<Rightarrow> nat \<Rightarrow> (unit, pfs0_parse_error) result" where
  "check_file_bounds index entry available =
     (let offset = unat (pe_offset entry); size = unat (pe_size entry) in
      rbind (ok_or (Pfs0_FileBoundsOverflow index offset size) (checked_add offset size)) (\<lambda>end_off.
        if end_off > available then Err (Pfs0_FileOutOfBounds index offset size available) else Ok ()))"

definition check_name_bounds :: "nat \<Rightarrow> pfs0_entry \<Rightarrow> bytes \<Rightarrow> (unit, pfs0_parse_error) result" where
  "check_name_bounds index entry table =
     (let offset = unat (pe_string_table_offset entry) in
      rbind (ok_or (Pfs0_NameOutOfBounds index offset (length table)) (get_range table offset (length table)))
        (\<lambda>name_bytes. if 0 \<notin> set name_bytes then Err (Pfs0_NameUnterminated index offset) else Ok ()))"

definition pfs0_try_from_bytes :: "bytes \<Rightarrow> (pfs0, pfs0_parse_error) result" where
  "pfs0_try_from_bytes bs =
     rbind (ok_or (Pfs0_BufferTooSmall 0x10 (length bs)) (ref_from_prefix dec_pfs0_header 0x10 bs)) (\<lambda>(header, rest).
       if ph_magic header \<noteq> PFS0_MAGIC then Err (Pfs0_InvalidMagic (ph_magic header))
       else
         let file_count = unat (ph_file_count header);
             string_table_size = unat (ph_string_table_size header)
         in rbind (ok_or (Pfs0_EntryTableOutOfBounds file_count (length bs))
                     (ref_from_prefix (dec_table dec_pfs0_entry 0x18 file_count) (file_count * 0x18) rest)) (\<lambda>(entries, rest).
            rbind (ok_or (Pfs0_StringTableOutOfBounds string_table_size (length rest))
                     (get_range rest 0 string_table_size)) (\<lambda>table.
            rbind (slice rest string_table_size (length rest)) (\<lambda>data.
            rbind (rfold (\<lambda>_ (index, entry).
                     rbind (check_file_bounds index entry (length data)) (\<lambda>_. check_name_bounds index entry table))
                     () (zip [0..<length entries] entries)) (\<lambda>_.
              Ok \<lparr>p_header = header, p_entries = entries, p_string_table = table, p_data = data\<rparr>)))))"

definition pfs0_file_count :: "pfs0 \<Rightarrow> nat" where
  "pfs0_file_count p = length (p_entries p)"

definition pfs0_resolve :: "pfs0 \<Rightarrow> pfs0_entry \<Rightarrow> (pfs0_file, 'e) result" where
  "pfs0_resolve p entry =
     (let off = unat (pe_offset entry); size = unat (pe_size entry);
          name_offset = unat (pe_string_table_offset entry)
      in rbind (slice (p_string_table p) name_offset (length (p_string_table p))) (\<lambda>name_bytes.
         rbind (uadd off size) (\<lambda>end_off.
         rbind (slice (p_data p) off end_off) (\<lambda>d.
           Ok \<lparr>pf_name = cstr name_bytes, pf_data = d\<rparr>))))"

definition pfs0_file_at :: "pfs0 \<Rightarrow> nat \<Rightarrow> (pfs0_file option, 'e) result" where
  "pfs0_file_at p index =
     (if index < length (p_entries p)
      then rbind (pfs0_resolve p (p_entries p ! index)) (\<lambda>f. Ok (Some f)) else Ok None)"

definition pfs0_files :: "pfs0 \<Rightarrow> (pfs0_file list, 'e) result" where
  "pfs0_files p = rfold (\<lambda>acc e. rbind (pfs0_resolve p e) (\<lambda>f. Ok (acc @ [f]))) [] (p_entries p)"

text \<open>\<^verbatim>\<open>file_by_name\<close> resolves the entries lazily, up to the first whose name matches.\<close>

fun pfs0_find :: "pfs0 \<Rightarrow> bytes \<Rightarrow> pfs0_entry list \<Rightarrow> (pfs0_file option, 'e) result" where
  "pfs0_find p n [] = Ok None"
| "pfs0_find p n (e # es) =
     rbind (pfs0_resolve p e) (\<lambda>f. if pf_name f = n then Ok (Some f) else pfs0_find p n es)"

definition pfs0_file_by_name :: "pfs0 \<Rightarrow> bytes \<Rightarrow> (pfs0_file option, 'e) result" where
  "pfs0_file_by_name p n = pfs0_find p n (p_entries p)"

section \<open>The archive as data\<close>

text \<open>What an archive of the files \<open>fs\<close> consists of, in closed form.\<close>

fun pfs0_entries :: "nat \<Rightarrow> nat \<Rightarrow> (bytes \<times> bytes) list \<Rightarrow> pfs0_entry list" where
  "pfs0_entries so sd [] = []"
| "pfs0_entries so sd ((n, d) # fs) =
     \<lparr>pe_offset = word_of_nat sd, pe_size = word_of_nat (length d),
      pe_string_table_offset = word_of_nat so, pe_reserved = 0\<rparr>
     # pfs0_entries (so + length n + 1) (sd + length d) fs"

definition pfs0_names :: "(bytes \<times> bytes) list \<Rightarrow> bytes" where
  "pfs0_names fs = concat (map (\<lambda>f. fst f @ [0]) fs)"

definition pfs0_datas :: "(bytes \<times> bytes) list \<Rightarrow> bytes" where
  "pfs0_datas fs = concat (map snd fs)"

lemma pfs0_simps [simp]:
  "pfs0_names [] = []" "pfs0_names ((n, d) # fs) = n @ 0 # pfs0_names fs"
  "pfs0_datas [] = []" "pfs0_datas ((n, d) # fs) = d @ pfs0_datas fs"
  by (simp_all add: pfs0_names_def pfs0_datas_def)

lemma length_pfs0_entries [simp]: "length (pfs0_entries so sd fs) = length fs"
  by (induction so sd fs rule: pfs0_entries.induct) simp_all

lemma length_enc_pfs0_entry [simp]: "length (enc_pfs0_entry e) = 0x18"
  using pfs0_entry.enc_length [of e] by simp

lemma sum_names: "sum_list (map (\<lambda>f. length (fst f) + 1) fs) = length (pfs0_names fs)"
  by (induction fs) (simp_all add: pfs0_names_def)

lemma sum_datas: "sum_list (map (\<lambda>f. length (snd f)) fs) = length (pfs0_datas fs)"
  by (induction fs) (simp_all add: pfs0_datas_def)

text \<open>The loop of \<^verbatim>\<open>build\<close> fills the three regions, each behind its own cursor.\<close>

lemma pfs0_write_loop:
  assumes "length H + length T = 0x10 + i * 0x18" "length S + length (pfs0_names fs) < 2 ^ 32"
    and "length D + length (pfs0_datas fs) < 2 ^ 64"
    and "te = length H + length T + length fs * 0x18" "length (pfs0_names fs) \<le> ns"
    and "ds = te + length S + ns"
  shows "\<exists>cursors. (rfold (pfs0_write_file te ds)
      (H @ T @ zeros (length fs * 0x18) @ S @ zeros ns @ D @ zeros (length (pfs0_datas fs)),
       word_of_nat (length S), word_of_nat (length D))
      (zip [i..<i + length fs] fs) :: (bytes \<times> u32 \<times> u64, 'e) result)
    = Ok (H @ (T @ enc_table enc_pfs0_entry (pfs0_entries (length S) (length D) fs))
          @ (S @ pfs0_names fs) @ zeros (ns - length (pfs0_names fs)) @ D @ pfs0_datas fs, cursors)"
  using assms
proof (induction fs arbitrary: T S D i ns)
  case Nil
  then show ?case by simp
next
  case (Cons f fs)
  obtain n d where f: "f = (n, d)" by (cases f)
  let ?e = "\<lparr>pe_offset = word_of_nat (length D), pe_size = word_of_nat (length d),
                pe_string_table_offset = word_of_nat (length S), pe_reserved = 0\<rparr>"
  let ?T = "T @ enc_pfs0_entry ?e" and ?S = "S @ n @ [0]" and ?D = "D @ d"
  let ?ns = "ns - length n - 1" and ?nd = "length (pfs0_datas fs)" and ?nt = "length fs * 0x18"
  have split: "[i..<i + length (f # fs)] = i # [Suc i..<Suc i + length fs]"
    by (simp add: upt_rec)
  have u: "unat (word_of_nat (length S) :: u32) = length S" "unat (word_of_nat (length D) :: u64) = length D"
    using Cons.prems(2,3) by (simp_all add: unat_of_nat)
  have c1: "(copy_at (H @ T @ zeros (length (f # fs) * 0x18) @ S @ zeros ns @ D @ zeros (length (pfs0_datas (f # fs))))
      (0x10 + i * 0x18) (enc_pfs0_entry ?e) :: (bytes, 'e) result)
      = Ok (H @ ?T @ zeros ?nt @ S @ zeros ns @ D @ zeros (length d + ?nd))"
    using copy_at_gap [of "0x10 + i * 0x18" "H @ T" "enc_pfs0_entry ?e" "length (f # fs) * 0x18"
        "S @ zeros ns @ D @ zeros (length d + ?nd)", where 'a = "8 word"] Cons.prems(1)
    by (simp add: f)
  have c2: "(copy_at (H @ ?T @ zeros ?nt @ S @ zeros ns @ D @ zeros (length d + ?nd)) (te + length S) n :: (bytes, 'e) result)
      = Ok (H @ ?T @ zeros ?nt @ S @ n @ zeros (ns - length n) @ D @ zeros (length d + ?nd))"
    using copy_at_gap [of "te + length S" "H @ ?T @ zeros ?nt @ S" n ns "D @ zeros (length d + ?nd)"] Cons.prems(4,5)
    by (simp add: f)
  have z: "zeros (ns - length n) = 0 # zeros ?ns"
    using Cons.prems(5) by (cases "ns - length n") (simp_all add: f zeros_def)
  have c3: "(copy_at (H @ ?T @ zeros ?nt @ S @ n @ zeros (ns - length n) @ D @ zeros (length d + ?nd)) (ds + length D) d :: (bytes, 'e) result)
      = Ok (H @ ?T @ zeros ?nt @ ?S @ zeros ?ns @ ?D @ zeros ?nd)"
    using copy_at_gap [of "ds + length D" "H @ ?T @ zeros ?nt @ ?S @ zeros ?ns @ D" d "length d + ?nd" "[]"] Cons.prems(4-6)
    by (simp add: f z)
  have w1: "(wadd (word_of_nat (length S) :: u32) (word_of_nat (length n + 1)) :: (u32, 'e) result) = Ok (word_of_nat (length ?S))"
    by (subst wadd_of_nat) (use Cons.prems(2) in \<open>simp_all add: f\<close>)
  have w2: "(wadd (word_of_nat (length D) :: u64) (word_of_nat (length d)) :: (u64, 'e) result) = Ok (word_of_nat (length ?D))"
    by (subst wadd_of_nat) (use Cons.prems(3) in \<open>simp_all add: f\<close>)
  have step: "(pfs0_write_file te ds (H @ T @ zeros (length (f # fs) * 0x18) @ S @ zeros ns @ D @ zeros (length (pfs0_datas (f # fs))),
       word_of_nat (length S), word_of_nat (length D)) (i, f) :: (bytes \<times> u32 \<times> u64, 'e) result)
    = Ok (H @ ?T @ zeros ?nt @ ?S @ zeros ?ns @ ?D @ zeros ?nd, word_of_nat (length ?S), word_of_nat (length ?D))"
    unfolding pfs0_write_file_def f prod.case Let_def
    by (simp only: c1 [unfolded f] c2 c3 w1 w2 rbind.simps u)
  show ?case
    using Cons.IH [of ?T "Suc i" ?S ?D ?ns] Cons.prems step
    unfolding split zip_Cons_Cons rfold.simps by (simp add: f add.assoc)
qed

text \<open>The archive of \<open>fs\<close>, and what \<^verbatim>\<open>build\<close> returns.\<close>

definition pfs0_pad :: "(bytes \<times> bytes) list \<Rightarrow> nat" where
  "pfs0_pad fs = align_up (length (pfs0_names fs)) 0x20 - length (pfs0_names fs)"

definition pfs0_header_of :: "(bytes \<times> bytes) list \<Rightarrow> pfs0_header" where
  "pfs0_header_of fs =
     \<lparr>ph_magic = PFS0_MAGIC, ph_file_count = word_of_nat (length fs),
      ph_string_table_size = word_of_nat (align_up (length (pfs0_names fs)) 0x20), ph_reserved = 0\<rparr>"

definition pfs0_archive :: "(bytes \<times> bytes) list \<Rightarrow> bytes" where
  "pfs0_archive fs =
     enc_pfs0_header (pfs0_header_of fs) @ enc_table enc_pfs0_entry (pfs0_entries 0 0 fs)
     @ pfs0_names fs @ zeros (pfs0_pad fs) @ pfs0_datas fs"

text \<open>The sizes the header's 32-bit and the entries' 64-bit fields can hold.\<close>

definition pfs0_fits :: "(bytes \<times> bytes) list \<Rightarrow> bool" where
  "pfs0_fits fs \<longleftrightarrow> length (pfs0_names fs) + 0x20 \<le> 2 ^ 32 \<and> length (pfs0_datas fs) \<le> usize_max"

lemma pfs0_names_count: "length fs \<le> length (pfs0_names fs)"
  by (induction fs) (auto simp: pfs0_names_def)

lemma pfs0_fits_bounds:
  assumes "pfs0_fits fs"
  shows "length fs < 2 ^ 32" "length (pfs0_names fs) < 2 ^ 32" "length (pfs0_datas fs) < 2 ^ 64"
    and "align_up (length (pfs0_names fs)) 0x20 < 2 ^ 32"
    and "length (pfs0_names fs) + pfs0_pad fs = align_up (length (pfs0_names fs)) 0x20"
  using assms pfs0_names_count [of fs] align_up_lt [of "0x20" "length (pfs0_names fs)"]
    align_up_ge [of "0x20" "length (pfs0_names fs)"]
  by (auto simp: pfs0_fits_def usize_max_def pfs0_pad_def)

lemma sort_key_names:
  "length (pfs0_names (sort_key f fs)) = length (pfs0_names fs)"
  "length (pfs0_datas (sort_key f fs)) = length (pfs0_datas fs)"
proof -
  have "sum_list (map g (sort_key f fs)) = (sum_list (map g fs) :: nat)" for g
    by (simp only: sum_mset_sum_list [symmetric] mset_map mset_sort)
  then show "length (pfs0_names (sort_key f fs)) = length (pfs0_names fs)"
    "length (pfs0_datas (sort_key f fs)) = length (pfs0_datas fs)"
    by (simp_all only: sum_names [symmetric] sum_datas [symmetric])
qed

lemma pfs0_build_archive:
  assumes "pfs0_fits added"
  shows "(pfs0_build added :: (bytes, 'e) result) = Ok (pfs0_archive (sort_key fst added))"
proof -
  define fs where "fs = sort_key fst added"
  have fits: "pfs0_fits fs" using assms by (simp add: fs_def pfs0_fits_def sort_key_names)
  note b = pfs0_fits_bounds [OF fits]
  let ?tab = "align_up (length (pfs0_names fs)) 0x20"
  let ?te = "0x10 + length fs * 0x18"
  let ?H = "enc_pfs0_header (pfs0_header_of fs)"
  have H: "length ?H = 0x10" by (simp add: pfs0_header.enc_length)
  have count: "unat (word_of_nat (length fs) :: u32) = length fs" using b(1) by (simp add: unat_of_nat)
  have head: "(copy_at (zeros (?te + ?tab + length (pfs0_datas fs))) 0 ?H :: (bytes, 'e) result)
      = Ok (?H @ [] @ zeros (length fs * 0x18) @ [] @ zeros ?tab @ [] @ zeros (length (pfs0_datas fs)))"
    using H by (simp add: copy_at_def zeros_def replicate_add [symmetric] add.assoc)
  obtain c where loop: "(rfold (pfs0_write_file ?te (?te + ?tab))
      (?H @ [] @ zeros (length fs * 0x18) @ [] @ zeros ?tab @ [] @ zeros (length (pfs0_datas fs)), 0, 0)
      (zip [0..<length fs] fs) :: (bytes \<times> u32 \<times> u64, 'e) result) = Ok (pfs0_archive fs, c)"
    using pfs0_write_loop [of ?H "[]" 0 "[]" fs "[]" ?te ?tab "?te + ?tab"] H b(2,3)
      align_up_ge [of "0x20" "length (pfs0_names fs)"]
    by (auto simp: pfs0_archive_def pfs0_pad_def)
  have len: "sum_list (map (\<lambda>f. length (fst f) + 1) fs) = length (pfs0_names fs)"
    "sum_list (map (\<lambda>f. length (snd f)) fs) = length (pfs0_datas fs)"
    by (rule sum_names, rule sum_datas)
  show ?thesis
    by (simp only: pfs0_build_def fs_def [symmetric] Let_def count len pfs0_header_of_def [of fs, symmetric]
        head loop rbind.simps prod.case)
qed

section \<open>Reading an archive\<close>

lemma pfs0_names_append [simp]: "pfs0_names (fs @ gs) = pfs0_names fs @ pfs0_names gs"
  "pfs0_datas (fs @ gs) = pfs0_datas fs @ pfs0_datas gs"
  by (simp_all add: pfs0_names_def pfs0_datas_def)

lemma pfs0_split:
  assumes "i < length fs"
  shows "pfs0_names fs = pfs0_names (take i fs) @ fst (fs ! i) @ 0 # pfs0_names (drop (Suc i) fs)"
    and "pfs0_datas fs = pfs0_datas (take i fs) @ snd (fs ! i) @ pfs0_datas (drop (Suc i) fs)"
proof -
  have "fs = take i fs @ (fst (fs ! i), snd (fs ! i)) # drop (Suc i) fs"
    using assms by (simp add: id_take_nth_drop [symmetric])
  then show "pfs0_names fs = pfs0_names (take i fs) @ fst (fs ! i) @ 0 # pfs0_names (drop (Suc i) fs)"
    and "pfs0_datas fs = pfs0_datas (take i fs) @ snd (fs ! i) @ pfs0_datas (drop (Suc i) fs)"
    by (metis pfs0_names_append(1) pfs0_simps(2), metis pfs0_names_append(2) pfs0_simps(4))
qed

lemma nth_pfs0_entries:
  "i < length fs \<Longrightarrow> pfs0_entries so sd fs ! i =
     \<lparr>pe_offset = word_of_nat (sd + length (pfs0_datas (take i fs))),
      pe_size = word_of_nat (length (snd (fs ! i))),
      pe_string_table_offset = word_of_nat (so + length (pfs0_names (take i fs))), pe_reserved = 0\<rparr>"
proof (induction so sd fs arbitrary: i rule: pfs0_entries.induct)
  case (2 so sd n d fs)
  then show ?case by (cases i) (simp_all add: add.assoc)
qed simp

text \<open>The parsed view of an archive, with every entry resolving to its file.\<close>

definition pfs0_view :: "(bytes \<times> bytes) list \<Rightarrow> pfs0" where
  "pfs0_view fs =
     \<lparr>p_header = pfs0_header_of fs, p_entries = pfs0_entries 0 0 fs,
      p_string_table = pfs0_names fs @ zeros (pfs0_pad fs), p_data = pfs0_datas fs\<rparr>"

lemma pfs0_view_entries [simp]: "p_entries (pfs0_view fs) = pfs0_entries 0 0 fs"
  by (simp add: pfs0_view_def)

lemma pfs0_entry_values:
  assumes "pfs0_fits fs" "i < length fs"
  shows "unat (pe_offset (pfs0_entries 0 0 fs ! i)) = length (pfs0_datas (take i fs))"
    and "unat (pe_size (pfs0_entries 0 0 fs ! i)) = length (snd (fs ! i))"
    and "unat (pe_string_table_offset (pfs0_entries 0 0 fs ! i)) = length (pfs0_names (take i fs))"
  using pfs0_fits_bounds(2,3) [OF assms(1)] pfs0_split [OF assms(2)]
  by (simp_all add: nth_pfs0_entries [OF assms(2)] unat_of_nat)

lemma pfs0_resolve_view:
  assumes "pfs0_fits fs" "i < length fs" "0 \<notin> set (fst (fs ! i))" "utf8_valid (fst (fs ! i))"
  shows "(pfs0_resolve (pfs0_view fs) (pfs0_entries 0 0 fs ! i) :: (pfs0_file, 'e) result)
     = Ok \<lparr>pf_name = fst (fs ! i), pf_data = snd (fs ! i)\<rparr>"
proof -
  note v = pfs0_entry_values [OF assms(1,2)]
  note sp = pfs0_split [OF assms(2)]
  have le: "length (pfs0_datas (take i fs)) + length (snd (fs ! i)) \<le> length (pfs0_datas fs)"
    unfolding sp(2) by simp
  then have "length (pfs0_datas (take i fs)) + length (snd (fs ! i)) \<le> usize_max"
    using assms(1) by (simp add: pfs0_fits_def)
  moreover have "cstr (fst (fs ! i) @ 0 # xs) = fst (fs ! i)" for xs
    using assms(3,4) by (simp add: cstr_def str_or_empty_def takeWhile_nul)
  ultimately show ?thesis
    using le sp
    by (simp add: pfs0_resolve_def pfs0_view_def Let_def v run_simps)
qed

lemma pfs0_checks_pass:
  assumes "pfs0_fits fs" "i < length fs"
  shows "check_file_bounds k (pfs0_entries 0 0 fs ! i) (length (pfs0_datas fs)) = Ok ()"
    and "check_name_bounds k (pfs0_entries 0 0 fs ! i) (pfs0_names fs @ zeros (pfs0_pad fs)) = Ok ()"
proof -
  note v = pfs0_entry_values [OF assms]
  note sp = pfs0_split [OF assms(2)]
  have le: "length (pfs0_datas (take i fs)) + length (snd (fs ! i)) \<le> length (pfs0_datas fs)"
    unfolding sp(2) by simp
  then have "length (pfs0_datas (take i fs)) + length (snd (fs ! i)) \<le> usize_max"
    using assms(1) by (simp add: pfs0_fits_def)
  with le show "check_file_bounds k (pfs0_entries 0 0 fs ! i) (length (pfs0_datas fs)) = Ok ()"
    by (simp add: check_file_bounds_def Let_def v run_simps)
  show "check_name_bounds k (pfs0_entries 0 0 fs ! i) (pfs0_names fs @ zeros (pfs0_pad fs)) = Ok ()"
    using sp(1) by (simp add: check_name_bounds_def Let_def v run_simps)
qed

lemma pfs0_parse_archive:
  assumes "pfs0_fits fs"
  shows "pfs0_try_from_bytes (pfs0_archive fs) = Ok (pfs0_view fs)"
proof -
  note b = pfs0_fits_bounds [OF assms]
  let ?h = "pfs0_header_of fs" and ?es = "pfs0_entries 0 0 fs"
  let ?tab = "pfs0_names fs @ zeros (pfs0_pad fs)"
  have hdr: "ref_from_prefix dec_pfs0_header 0x10 (pfs0_archive fs)
      = Some (?h, enc_table enc_pfs0_entry ?es @ ?tab @ pfs0_datas fs)"
    by (simp only: pfs0_archive_def append_assoc pfs0_header.prefix_of_written)
  have vals: "ph_magic ?h = PFS0_MAGIC" "unat (ph_file_count ?h) = length fs"
    "unat (ph_string_table_size ?h) = length ?tab"
    using b by (simp_all add: pfs0_header_of_def unat_of_nat)
  have len: "length (enc_table enc_pfs0_entry ?es) = length fs * 0x18"
    using pfs0_entry.enc_table_length [of ?es] by simp
  have tab: "ref_from_prefix (dec_table dec_pfs0_entry 0x18 (length fs)) (length fs * 0x18)
        (enc_table enc_pfs0_entry ?es @ ?tab @ pfs0_datas fs) = Some (?es, ?tab @ pfs0_datas fs)"
    using pfs0_entry.dec_enc_table [of ?es "?tab @ pfs0_datas fs"] len by (simp add: run_simps)
  have strs: "get_range (?tab @ pfs0_datas fs) 0 (length ?tab) = Some ?tab"
    "(slice (?tab @ pfs0_datas fs) (length ?tab) (length (?tab @ pfs0_datas fs)) :: (bytes, pfs0_parse_error) result)
       = Ok (pfs0_datas fs)"
    by simp_all
  have checks: "rfold (\<lambda>_ (index, entry).
      rbind (check_file_bounds index entry (length (pfs0_datas fs))) (\<lambda>_. check_name_bounds index entry ?tab))
      () (zip [0..<length ?es] ?es) = Ok ()"
    by (rule rfold_unit) (auto simp: in_set_zip pfs0_checks_pass [OF assms])
  show ?thesis
    by (simp only: pfs0_try_from_bytes_def hdr ok_or_simps rbind.simps prod.case vals Let_def tab strs checks
        simp_thms if_False pfs0_view_def)
qed

text \<open>Lookups over the parsed archive are lookups over the list of files.\<close>

definition pfs0_clean :: "(bytes \<times> bytes) list \<Rightarrow> bool" where
  "pfs0_clean fs \<longleftrightarrow> (\<forall>f\<in>set fs. 0 \<notin> set (fst f) \<and> utf8_valid (fst f))"

definition pfs0_mk_file :: "bytes \<times> bytes \<Rightarrow> pfs0_file" where
  "pfs0_mk_file f = \<lparr>pf_name = fst f, pf_data = snd f\<rparr>"

lemma pfs0_resolve_clean:
  assumes "pfs0_fits fs" "pfs0_clean fs" "i < length fs"
  shows "(pfs0_resolve (pfs0_view fs) (pfs0_entries 0 0 fs ! i) :: (pfs0_file, 'e) result)
     = Ok (pfs0_mk_file (fs ! i))"
  using pfs0_resolve_view [OF assms(1,3)] assms(2,3) by (simp add: pfs0_clean_def pfs0_mk_file_def)

lemma pfs0_file_at_view:
  assumes "pfs0_fits fs" "pfs0_clean fs"
  shows "(pfs0_file_at (pfs0_view fs) i :: (pfs0_file option, 'e) result)
     = Ok (if i < length fs then Some (pfs0_mk_file (fs ! i)) else None)"
  by (simp add: pfs0_file_at_def pfs0_resolve_clean [OF assms])

lemma pfs0_files_loop:
  assumes "\<And>i. i < length es \<Longrightarrow> (pfs0_resolve p (es ! i) :: (pfs0_file, 'e) result) = Ok (g i)"
  shows "(rfold (\<lambda>acc e. rbind (pfs0_resolve p e) (\<lambda>f. Ok (acc @ [f]))) acc es :: (pfs0_file list, 'e) result)
     = Ok (acc @ map g [0..<length es])"
  using assms
proof (induction es rule: rev_induct)
  case (snoc e es)
  have "(pfs0_resolve p (es ! i) :: (pfs0_file, 'e) result) = Ok (g i)" if "i < length es" for i
    using snoc.prems [of i] that by (simp add: nth_append)
  moreover have "(pfs0_resolve p e :: (pfs0_file, 'e) result) = Ok (g (length es))"
    using snoc.prems [of "length es"] by simp
  ultimately show ?case using snoc.IH by (simp add: rfold_append)
qed simp

lemma pfs0_files_view:
  assumes "pfs0_fits fs" "pfs0_clean fs"
  shows "(pfs0_files (pfs0_view fs) :: (pfs0_file list, 'e) result) = Ok (map pfs0_mk_file fs)"
proof -
  have "map (\<lambda>i. pfs0_mk_file (fs ! i)) [0..<length fs] = map pfs0_mk_file fs"
    by (rule nth_equalityI) simp_all
  then show ?thesis
    unfolding pfs0_files_def pfs0_view_entries
    by (subst pfs0_files_loop [where g = "\<lambda>i. pfs0_mk_file (fs ! i)"])
      (simp_all add: pfs0_resolve_clean [OF assms])
qed

lemma pfs0_find_loop:
  assumes "\<And>i. i < length es \<Longrightarrow> (pfs0_resolve p (es ! i) :: (pfs0_file, 'e) result) = Ok (pfs0_mk_file (fs ! i))"
    and "length es = length fs"
  shows "(pfs0_find p n es :: (pfs0_file option, 'e) result)
     = Ok (map_option pfs0_mk_file (find (\<lambda>f. fst f = n) fs))"
  using assms
proof (induction es arbitrary: fs)
  case (Cons e es)
  then obtain f fs' where fs: "fs = f # fs'" by (cases fs) auto
  have e: "(pfs0_resolve p e :: (pfs0_file, 'e) result) = Ok (pfs0_mk_file f)"
    using Cons.prems(1) [of 0] by (simp add: fs)
  have "(pfs0_resolve p (es ! i) :: (pfs0_file, 'e) result) = Ok (pfs0_mk_file (fs' ! i))" if "i < length es" for i
    using Cons.prems(1) [of "Suc i"] that by (simp add: fs)
  from Cons.IH [OF this] Cons.prems(2) show ?case
    by (simp add: fs e) (simp add: pfs0_mk_file_def)
qed simp

lemma pfs0_by_name_view:
  assumes "pfs0_fits fs" "pfs0_clean fs"
  shows "(pfs0_file_by_name (pfs0_view fs) n :: (pfs0_file option, 'e) result)
     = Ok (map_option pfs0_mk_file (find (\<lambda>f. fst f = n) fs))"
  unfolding pfs0_file_by_name_def pfs0_view_entries
  by (rule pfs0_find_loop) (simp_all add: pfs0_resolve_clean [OF assms])

section \<open>The builder's invariant\<close>

text \<open>
  What \<^verbatim>\<open>add_file\<close> maintains: distinct, non-empty names with no terminator and no separator.
  A Rust string is UTF-8, so names are valid as well.
\<close>

definition pfs0_inv :: "pfs0_builder \<Rightarrow> bool" where
  "pfs0_inv files \<longleftrightarrow> distinct (map fst files) \<and>
     (\<forall>f\<in>set files. fst f \<noteq> [] \<and> 0 \<notin> set (fst f) \<and> 0x2F \<notin> set (fst f) \<and> 0x5C \<notin> set (fst f) \<and> utf8_valid (fst f))"

lemma pfs0_inv_new: "pfs0_inv pfs0_new"
  by (simp add: pfs0_inv_def pfs0_new_def)

lemma pfs0_inv_add: "pfs0_inv files \<Longrightarrow> utf8_valid n \<Longrightarrow> pfs0_add_file files n d = Ok files' \<Longrightarrow> pfs0_inv files'"
  by (auto simp: pfs0_inv_def pfs0_add_file_def split: if_splits)

lemma pfs0_inv_clean: "pfs0_inv files \<Longrightarrow> pfs0_clean (sort_key fst files)"
  by (auto simp: pfs0_inv_def pfs0_clean_def)

lemma find_distinct:
  "distinct (map fst fs) \<Longrightarrow> find (\<lambda>f. fst f = n) fs = (case map_of fs n of None \<Rightarrow> None | Some d \<Rightarrow> Some (n, d))"
  by (induction fs) auto

lemma map_of_sorted:
  assumes "distinct (map fst files)"
  shows "map_of (sort_key fst files) = map_of files"
proof -
  have "mset (map fst (sort_key fst files)) = mset (map fst files)" by simp
  then have "distinct (map fst (sort_key fst files))" using assms mset_eq_imp_distinct_iff by blast
  then show ?thesis using assms by (intro map_of_inject_set [THEN iffD2]) simp_all
qed

lemma pfs0_lookup:
  assumes "pfs0_inv files" "pfs0_fits files"
  shows "\<exists>img p. (pfs0_build files :: (bytes, 'e) result) = Ok img \<and> pfs0_try_from_bytes img = Ok p
     \<and> (\<forall>n. (pfs0_file_by_name p n :: (pfs0_file option, 'f) result)
           = Ok (map_option (\<lambda>d. \<lparr>pf_name = n, pf_data = d\<rparr>) (map_of files n)))
     \<and> (pfs0_files p :: (pfs0_file list, 'f) result) = Ok (map pfs0_mk_file (sort_key fst files))"
proof -
  let ?fs = "sort_key fst files"
  have fits: "pfs0_fits ?fs" using assms(2) by (simp add: pfs0_fits_def sort_key_names)
  have clean: "pfs0_clean ?fs" by (rule pfs0_inv_clean [OF assms(1)])
  have dist: "distinct (map fst files)" using assms(1) by (simp add: pfs0_inv_def)
  have "mset (map fst ?fs) = mset (map fst files)" by simp
  then have dist': "distinct (map fst ?fs)" using dist mset_eq_imp_distinct_iff by blast
  have "map_option pfs0_mk_file (find (\<lambda>f. fst f = n) ?fs)
      = map_option (\<lambda>d. \<lparr>pf_name = n, pf_data = d\<rparr>) (map_of files n)" for n
    by (simp add: find_distinct [OF dist'] map_of_sorted [OF dist] pfs0_mk_file_def split: option.split)
  then show ?thesis
    using pfs0_build_archive [OF assms(2)] pfs0_parse_archive [OF fits]
      pfs0_by_name_view [OF fits clean] pfs0_files_view [OF fits clean] by auto
qed

text \<open>The order in which files were added does not show in the archive.\<close>

lemma pfs0_build_cong:
  assumes "mset files = mset files'" "distinct (map fst files)"
  shows "pfs0_build files = pfs0_build files'"
proof -
  have "inj_on fst (set files)" using assms(2) by (simp add: distinct_map)
  then have "sort_key fst files = sort_key fst files'"
    by (intro sort_key_inj_key_eq) (simp_all add: assms(1))
  then show ?thesis by (simp add: pfs0_build_def)
qed

section \<open>The reader on any input\<close>

lemma pfs0_check_no_panic:
  "check_file_bounds i e n \<noteq> Panic" "check_name_bounds i e t \<noteq> Panic"
  by (simp_all add: check_file_bounds_def check_name_bounds_def Let_def rbind_eq_Panic)

lemma pfs0_try_no_panic: "pfs0_try_from_bytes bs \<noteq> Panic"
proof -
  have "rfold (\<lambda>_ (index, entry). rbind (check_file_bounds index entry n)
      (\<lambda>_. check_name_bounds index entry t)) () es \<noteq> Panic" for n t es
    by (rule rfold_no_panic) (auto simp: rbind_eq_Panic pfs0_check_no_panic)
  then show ?thesis
    by (auto simp: pfs0_try_from_bytes_def Let_def rbind_eq_Panic)
qed

text \<open>A parsed archive has passed both checks on every entry.\<close>

lemma pfs0_try_checked:
  assumes "pfs0_try_from_bytes bs = Ok p" "i < length (p_entries p)"
  shows "unat (pe_offset (p_entries p ! i)) + unat (pe_size (p_entries p ! i)) \<le> length (p_data p)"
    and "unat (pe_offset (p_entries p ! i)) + unat (pe_size (p_entries p ! i)) \<le> usize_max"
    and "unat (pe_string_table_offset (p_entries p ! i)) \<le> length (p_string_table p)"
    and "0 \<in> set (drop (unat (pe_string_table_offset (p_entries p ! i))) (p_string_table p))"
proof -
  let ?e = "p_entries p ! i"
  have "rfold (\<lambda>_ (index, entry). rbind (check_file_bounds index entry (length (p_data p)))
      (\<lambda>_. check_name_bounds index entry (p_string_table p))) ()
      (zip [0..<length (p_entries p)] (p_entries p)) = Ok ()"
    using assms(1) by (auto simp: pfs0_try_from_bytes_def Let_def rbind_eq_Ok split: if_splits)
  moreover have "(i, ?e) \<in> set (zip [0..<length (p_entries p)] (p_entries p))"
    using assms(2) by (auto simp: in_set_zip intro!: exI [of _ i])
  ultimately have "rbind (check_file_bounds i ?e (length (p_data p))) (\<lambda>_. check_name_bounds i ?e (p_string_table p)) = Ok ()"
    by (auto dest: rfold_unit_all)
  then have "check_file_bounds i ?e (length (p_data p)) = Ok ()" "check_name_bounds i ?e (p_string_table p) = Ok ()"
    by (simp_all add: rbind_eq_Ok)
  then show "unat (pe_offset ?e) + unat (pe_size ?e) \<le> length (p_data p)"
    and "unat (pe_offset ?e) + unat (pe_size ?e) \<le> usize_max"
    and "unat (pe_string_table_offset ?e) \<le> length (p_string_table p)"
    and "0 \<in> set (drop (unat (pe_string_table_offset ?e)) (p_string_table p))"
    by (auto simp: check_file_bounds_def check_name_bounds_def Let_def rbind_eq_Ok split: if_splits)
qed

lemma pfs0_resolve_checked:
  assumes "pfs0_try_from_bytes bs = Ok p" "i < length (p_entries p)"
  shows "(pfs0_resolve p (p_entries p ! i) :: (pfs0_file, 'e) result)
     = Ok \<lparr>pf_name = cstr (drop (unat (pe_string_table_offset (p_entries p ! i))) (p_string_table p)),
           pf_data = sub_bytes (p_data p) (unat (pe_offset (p_entries p ! i))) (unat (pe_size (p_entries p ! i)))\<rparr>"
  using pfs0_try_checked [OF assms] by (simp add: pfs0_resolve_def Let_def run_simps sub_bytes_def)

text \<open>Every accessor, once every entry resolves.\<close>

lemma pfs0_find_resolved:
  assumes "list_all2 (\<lambda>e f. (pfs0_resolve p e :: (pfs0_file, 'e) result) = Ok f) es fs"
  shows "(pfs0_find p n es :: (pfs0_file option, 'e) result) = Ok (find (\<lambda>f. pf_name f = n) fs)"
  using assms by (induction rule: list_all2_induct) simp_all

lemma pfs0_files_resolved:
  assumes "list_all2 (\<lambda>e f. (pfs0_resolve p e :: (pfs0_file, 'e) result) = Ok f) es fs"
  shows "(rfold (\<lambda>acc e. rbind (pfs0_resolve p e) (\<lambda>f. Ok (acc @ [f]))) acc es :: (pfs0_file list, 'e) result) = Ok (acc @ fs)"
  using assms by (induction arbitrary: acc rule: list_all2_induct) simp_all

lemma pfs0_accessors_checked:
  fixes p :: pfs0
  defines "f \<equiv> \<lambda>e. \<lparr>pf_name = cstr (drop (unat (pe_string_table_offset e)) (p_string_table p)),
    pf_data = sub_bytes (p_data p) (unat (pe_offset e)) (unat (pe_size e))\<rparr>"
  assumes "pfs0_try_from_bytes bs = Ok p"
  shows "(pfs0_files p :: (pfs0_file list, 'e) result) = Ok (map f (p_entries p))"
    and "(pfs0_file_by_name p n :: (pfs0_file option, 'e) result) = Ok (find (\<lambda>x. pf_name x = n) (map f (p_entries p)))"
proof -
  have r: "list_all2 (\<lambda>e x. (pfs0_resolve p e :: (pfs0_file, 'e) result) = Ok x) (p_entries p) (map f (p_entries p))"
    using pfs0_resolve_checked [OF assms(2), where 'e = 'e] by (simp add: list_all2_conv_all_nth f_def)
  show "(pfs0_files p :: (pfs0_file list, 'e) result) = Ok (map f (p_entries p))"
    using pfs0_files_resolved [OF r, of "[]"] by (simp add: pfs0_files_def)
  show "(pfs0_file_by_name p n :: (pfs0_file option, 'e) result) = Ok (find (\<lambda>x. pf_name x = n) (map f (p_entries p)))"
    using pfs0_find_resolved [OF r] by (simp add: pfs0_file_by_name_def)
qed

text \<open>The view of a parsed archive is the whole of it, cut in four.\<close>

lemma pfs0_parsed_whole:
  assumes "pfs0_try_from_bytes bs = Ok p"
  shows "bs = enc_pfs0_header (p_header p) @ enc_table enc_pfs0_entry (p_entries p) @ p_string_table p @ p_data p"
proof -
  obtain h k t where p: "p = \<lparr>p_header = h, p_entries = dec_table dec_pfs0_entry 0x18 k (drop 0x10 bs),
      p_string_table = take t (drop (k * 0x18) (drop 0x10 bs)), p_data = drop t (drop (k * 0x18) (drop 0x10 bs))\<rparr>"
    "h = dec_pfs0_header bs" "0x10 \<le> length bs" "k * 0x18 \<le> length (drop 0x10 bs)"
    using assms
    by (auto simp: pfs0_try_from_bytes_def Let_def rbind_eq_Ok get_range_def slice_def split: if_splits option.splits)
  have "enc_pfs0_header h = take 0x10 bs" unfolding p(2) by (rule pfs0_header.enc_dec [OF p(3)])
  moreover have "enc_table enc_pfs0_entry (dec_table dec_pfs0_entry 0x18 k (drop 0x10 bs)) = take (k * 0x18) (drop 0x10 bs)"
    by (rule pfs0_entry.enc_dec_table [OF p(4)])
  ultimately show ?thesis unfolding p(1) by (simp only: pfs0.simps append_take_drop_id)
qed

section \<open>Scanning a directory\<close>

lemma pfs0_scan_ok:
  assumes "set es \<subseteq> {Dir_Entry p (Some k) (Some n) (Some d) |p k n d. True}"
  shows "rfold (pfs0_scan_entry path) acc es = Ok (acc @
     concat (map (\<lambda>e. case e of Dir_Entry p (Some Is_File) (Some n) (Some d) \<Rightarrow> [(n, d)] | _ \<Rightarrow> []) es))"
  using assms
proof (induction es arbitrary: acc)
  case (Cons e es)
  then obtain p k n d where "e = Dir_Entry p (Some k) (Some n) (Some d)" by auto
  with Cons show ?case by (cases k) (simp_all add: pfs0_scan_entry_def)
qed simp

lemma pfs0_add_all:
  assumes "distinct (map fst (acc @ fs))"
    and "\<forall>f\<in>set fs. fst f \<noteq> [] \<and> 0 \<notin> set (fst f) \<and> 0x2F \<notin> set (fst f) \<and> 0x5C \<notin> set (fst f)"
  shows "rfold (\<lambda>b (n, d). map_err Pfs0_AddFile (pfs0_add_file b n d)) acc fs = Ok (acc @ fs)"
  using assms
proof (induction fs arbitrary: acc)
  case (Cons f fs)
  obtain n d where f: "f = (n, d)" by (cases f)
  with Cons.prems have "pfs0_add_file acc n d = Ok (acc @ [f])"
    by (auto simp: pfs0_add_file_def rev_image_eqI)
  with Cons.IH [of "acc @ [f]"] Cons.prems f show ?case by simp
qed simp

lemma pfs0_from_directory_ok:
  assumes "set es \<subseteq> {Dir_Entry p (Some k) (Some n) (Some d) |p k n d. True}"
    and "distinct (map fst fs)"
    and "fs = concat (map (\<lambda>e. case e of Dir_Entry p (Some Is_File) (Some n) (Some d) \<Rightarrow> [(n, d)] | _ \<Rightarrow> []) es)"
    and "\<forall>f\<in>set fs. fst f \<noteq> [] \<and> 0 \<notin> set (fst f) \<and> 0x2F \<notin> set (fst f) \<and> 0x5C \<notin> set (fst f)"
  shows "pfs0_from_directory path (Some es) = Ok (sort_key fst fs)"
proof -
  have "mset (map fst (sort_key fst fs)) = mset (map fst fs)" by simp
  then have "distinct (map fst ([] @ sort_key fst fs))"
    using assms(2) mset_eq_imp_distinct_iff by (simp only: append_Nil) blast
  from pfs0_add_all [OF this] assms(4) show ?thesis
    using pfs0_scan_ok [OF assms(1), of path "[]"]
    by (simp add: pfs0_from_directory_def pfs0_new_def flip: assms(3))
qed

text \<open>A scan of any directory, if it succeeds, leaves a builder in its invariant.\<close>

lemma pfs0_scan_utf8:
  assumes "rfold (pfs0_scan_entry path) found es = Ok found'"
    and "\<forall>f\<in>set found. utf8_valid (fst f)" "\<forall>p k n d. Dir_Entry p k (Some n) d \<in> set es \<longrightarrow> utf8_valid n"
  shows "\<forall>f\<in>set found'. utf8_valid (fst f)"
  using assms
proof (induction es arbitrary: found)
  case (Cons e es)
  obtain found1 where f: "pfs0_scan_entry path found e = Ok found1" "rfold (pfs0_scan_entry path) found1 es = Ok found'"
    using Cons.prems(1) by (auto simp: rbind_eq_Ok)
  have "\<forall>f\<in>set found1. utf8_valid (fst f)"
    using f(1) Cons.prems(2,3) by (cases e) (auto simp: pfs0_scan_entry_def rbind_eq_Ok split: if_splits option.splits)
  with Cons.IH [OF f(2)] Cons.prems(3) show ?case by fastforce
qed simp

lemma pfs0_add_all_inv:
  assumes "rfold (\<lambda>b (n, d). map_err Pfs0_AddFile (pfs0_add_file b n d)) b fs = Ok b'"
    and "pfs0_inv b" "\<forall>f\<in>set fs. utf8_valid (fst f)"
  shows "pfs0_inv b'"
  using assms
proof (induction fs arbitrary: b)
  case (Cons f fs)
  obtain n d where f: "f = (n, d)" by (cases f)
  obtain b1 where "map_err Pfs0_AddFile (pfs0_add_file b n d) = Ok b1"
    and fs: "rfold (\<lambda>b (n, d). map_err Pfs0_AddFile (pfs0_add_file b n d)) b1 fs = Ok b'"
    using Cons.prems(1) by (auto simp: f rbind_eq_Ok)
  then have "pfs0_add_file b n d = Ok b1" by (cases "pfs0_add_file b n d") simp_all
  then have "pfs0_inv b1" using Cons.prems(2,3) by (auto simp: f intro: pfs0_inv_add)
  from Cons.IH [OF fs this] Cons.prems(3) show ?case by simp
qed simp

lemma pfs0_from_directory_inv:
  assumes "pfs0_from_directory path (Some es) = Ok b"
    and "\<forall>p k n d. Dir_Entry p k (Some n) d \<in> set es \<longrightarrow> utf8_valid n"
  shows "pfs0_inv b"
proof -
  obtain found where f: "rfold (pfs0_scan_entry path) [] es = Ok found"
    and b: "rfold (\<lambda>b (n, d). map_err Pfs0_AddFile (pfs0_add_file b n d)) pfs0_new (sort_key fst found) = Ok b"
    using assms(1) by (auto simp: pfs0_from_directory_def rbind_eq_Ok)
  from pfs0_scan_utf8 [OF f _ assms(2)] show ?thesis
    by (intro pfs0_add_all_inv [OF b pfs0_inv_new]) simp
qed

end
