(* ===== verification/Pfs0_Properties.thy ===== *)
theory Pfs0_Properties
  imports Pfs0
begin

text \<open>What the PFS0 builder and reader promise.\<close>

text \<open>Whatever \<^verbatim>\<open>add_file\<close> accepts keeps the names distinct, non-empty, and free of
  terminators and separators; it refuses a name for exactly these reasons, in this order.\<close>

theorem pfs0_add_file_spec:
  assumes "pfs0_inv files" "utf8_valid n"
  shows "(case pfs0_add_file files n d of
      Ok files' \<Rightarrow> pfs0_inv files' \<and> files' = files @ [(n, d)]
    | Err e \<Rightarrow>
        (if n = [] then e = Pfs0_EmptyFileName
         else if 0 \<in> set n then e = Pfs0_InvalidFileName n ''filename contains null byte''
         else if 0x2F \<in> set n \<or> 0x5C \<in> set n
           then e = Pfs0_InvalidFileName n ''filename contains path separator''
         else n \<in> fst ` set files \<and> e = Pfs0_DuplicateFile n)
    | Panic \<Rightarrow> False)"
  using pfs0_inv_add [OF assms] by (auto simp: pfs0_add_file_def split: result.split)

theorem pfs0_add_file_spec_witness:
  "pfs0_add_file [([0x61], [1])] [0x61] [2] = Err (Pfs0_DuplicateFile [0x61])
   \<and> pfs0_inv [([0x61], [1]), ([0x62], [2])]"
proof -
  have "pfs0_inv [([0x61], [1])]" by (simp add: pfs0_inv_def)
  from pfs0_add_file_spec [OF this, of "[0x61]" "[2]"] pfs0_add_file_spec [OF this, of "[0x62]" "[2]"]
  show ?thesis by (simp add: pfs0_add_file_def)
qed

text \<open>C11. Refinement: an archive answers every lookup by name as the finite map of the files that
  were added, and lists them in name order.\<close>

theorem pfs0_refines_map:
  assumes "pfs0_inv files" "pfs0_fits files"
  shows "\<exists>img p. (pfs0_build files :: (bytes, 'e) result) = Ok img \<and> pfs0_try_from_bytes img = Ok p
     \<and> (\<forall>n. (pfs0_file_by_name p n :: (pfs0_file option, 'f) result)
           = Ok (map_option (\<lambda>d. \<lparr>pf_name = n, pf_data = d\<rparr>) (map_of files n)))
     \<and> (pfs0_files p :: (pfs0_file list, 'f) result)
           = Ok (map (\<lambda>(n, d). \<lparr>pf_name = n, pf_data = d\<rparr>) (sort_key fst files))"
proof -
  have "map pfs0_mk_file fs = map (\<lambda>(n, d). \<lparr>pf_name = n, pf_data = d\<rparr>) fs" for fs
    by (auto simp: pfs0_mk_file_def)
  with pfs0_lookup [OF assms, where 'e = 'e and 'f = 'f] show ?thesis by simp
qed

theorem pfs0_refines_map_witness:
  "\<exists>img p. (pfs0_build [([0x62], [1]), ([0x61], [2, 3])] :: (bytes, unit) result) = Ok img
     \<and> pfs0_try_from_bytes img = Ok p
     \<and> (pfs0_file_by_name p [0x61] :: (pfs0_file option, unit) result)
         = Ok (Some \<lparr>pf_name = [0x61], pf_data = [2, 3]\<rparr>)
     \<and> (pfs0_file_by_name p [0x63] :: (pfs0_file option, unit) result) = Ok None"
proof -
  let ?fs = "[([0x62], [1]), ([0x61], [2, 3])] :: (bytes \<times> bytes) list"
  have "pfs0_inv ?fs" "pfs0_fits ?fs"
    by (simp_all add: pfs0_inv_def pfs0_fits_def usize_max_def)
  from pfs0_refines_map [OF this, where 'e = unit and 'f = unit] obtain img p where
    "(pfs0_build ?fs :: (bytes, unit) result) = Ok img" "pfs0_try_from_bytes img = Ok p"
    "\<forall>n. (pfs0_file_by_name p n :: (pfs0_file option, unit) result)
           = Ok (map_option (\<lambda>d. \<lparr>pf_name = n, pf_data = d\<rparr>) (map_of ?fs n))"
    by blast
  then show ?thesis by (intro exI [of _ img] exI [of _ p]) simp
qed

text \<open>The archive depends on the set of files only, not on the order they were added in.\<close>

theorem pfs0_deterministic:
  assumes "mset files = mset files'" "distinct (map fst files)"
  shows "(pfs0_build files :: (bytes, 'e) result) = pfs0_build files'"
  by (rule pfs0_build_cong [OF assms])

theorem pfs0_deterministic_witness:
  "(pfs0_build [([0x62], [1]), ([0x61], [2])] :: (bytes, unit) result) = pfs0_build [([0x61], [2]), ([0x62], [1])]"
  by (rule pfs0_deterministic) (simp_all add: add_mset_commute)

text \<open>C12. The reader never panics: not while validating, and not on any accessor of an archive that
  validated.  The view is the whole buffer, cut into header, entries, string table and data; a file's data is the slice its entry
  names, and its name the text up to the terminator where its entry points; \<^verbatim>\<open>files\<close> lists what \<^verbatim>\<open>file\<close> gives
  index by index, and \<^verbatim>\<open>file_by_name\<close> finds the first of that name.\<close>

theorem pfs0_reader_safe:
  "pfs0_try_from_bytes bs \<noteq> Panic
   \<and> (\<forall>p. pfs0_try_from_bytes bs = Ok p \<longrightarrow>
        bs = enc_pfs0_header (p_header p) @ enc_table enc_pfs0_entry (p_entries p) @ p_string_table p @ p_data p
      \<and> (\<exists>fs. length fs = pfs0_file_count p
        \<and> (\<forall>i<pfs0_file_count p. (pfs0_file_at p i :: (pfs0_file option, 'e) result) = Ok (Some (fs ! i))
           \<and> pf_name (fs ! i) = cstr (drop (unat (pe_string_table_offset (p_entries p ! i))) (p_string_table p))
           \<and> pf_data (fs ! i) = sub_bytes (p_data p) (unat (pe_offset (p_entries p ! i))) (unat (pe_size (p_entries p ! i)))
           \<and> length (pf_data (fs ! i)) = unat (pe_size (p_entries p ! i)))
        \<and> (\<forall>i\<ge>pfs0_file_count p. (pfs0_file_at p i :: (pfs0_file option, 'e) result) = Ok None)
        \<and> (pfs0_files p :: (pfs0_file list, 'e) result) = Ok fs
        \<and> (\<forall>n. (pfs0_file_by_name p n :: (pfs0_file option, 'e) result) = Ok (find (\<lambda>f. pf_name f = n) fs))))"
proof (intro conjI allI impI)
  show "pfs0_try_from_bytes bs \<noteq> Panic" by (rule pfs0_try_no_panic)
  fix p
  assume p: "pfs0_try_from_bytes bs = Ok p"
  show "bs = enc_pfs0_header (p_header p) @ enc_table enc_pfs0_entry (p_entries p) @ p_string_table p @ p_data p"
    by (rule pfs0_parsed_whole [OF p])
  note all = pfs0_accessors_checked [OF p, where 'e = 'e]
  show "\<exists>fs. length fs = pfs0_file_count p
        \<and> (\<forall>i<pfs0_file_count p. (pfs0_file_at p i :: (pfs0_file option, 'e) result) = Ok (Some (fs ! i))
           \<and> pf_name (fs ! i) = cstr (drop (unat (pe_string_table_offset (p_entries p ! i))) (p_string_table p))
           \<and> pf_data (fs ! i) = sub_bytes (p_data p) (unat (pe_offset (p_entries p ! i))) (unat (pe_size (p_entries p ! i)))
           \<and> length (pf_data (fs ! i)) = unat (pe_size (p_entries p ! i)))
        \<and> (\<forall>i\<ge>pfs0_file_count p. (pfs0_file_at p i :: (pfs0_file option, 'e) result) = Ok None)
        \<and> (pfs0_files p :: (pfs0_file list, 'e) result) = Ok fs
        \<and> (\<forall>n. (pfs0_file_by_name p n :: (pfs0_file option, 'e) result) = Ok (find (\<lambda>f. pf_name f = n) fs))"
    by (rule exI, intro conjI allI, rule length_map [of _ "p_entries p", folded pfs0_file_count_def])
      (use pfs0_try_checked(1) [OF p] in
        \<open>simp_all add: all pfs0_file_at_def pfs0_file_count_def pfs0_resolve_checked [OF p] length_sub_bytes\<close>)
qed

theorem pfs0_reader_safe_witness:
  "pfs0_try_from_bytes (pfs0_archive [([0x61], [7])]) = Ok (pfs0_view [([0x61], [7])])
   \<and> (\<exists>f. (pfs0_files (pfs0_view [([0x61], [7])]) :: (pfs0_file list, unit) result) = Ok [f] \<and> length (pf_data f) = 1
        \<and> (pfs0_file_by_name (pfs0_view [([0x61], [7])]) (pf_name f) :: (pfs0_file option, unit) result) = Ok (Some f))"
proof -
  have p: "pfs0_try_from_bytes (pfs0_archive [([0x61], [7])]) = Ok (pfs0_view [([0x61], [7])])"
    by (rule pfs0_parse_archive) (simp add: pfs0_fits_def usize_max_def)
  have n: "pfs0_file_count (pfs0_view [([0x61], [7])]) = 1" by (simp add: pfs0_file_count_def pfs0_view_def)
  obtain fs where fs: "length fs = 1" "length (pf_data (fs ! 0)) = 1"
    "(pfs0_files (pfs0_view [([0x61], [7])]) :: (pfs0_file list, unit) result) = Ok fs"
    "\<forall>n. (pfs0_file_by_name (pfs0_view [([0x61], [7])]) n :: (pfs0_file option, unit) result) = Ok (find (\<lambda>f. pf_name f = n) fs)"
    using conjunct2 [OF conjunct2 [OF pfs0_reader_safe, rule_format, OF p, where 'e = unit]] unfolding n by (auto simp: pfs0_view_def)
  then obtain f where "fs = [f]" by (auto simp: length_Suc_conv)
  with p fs show ?thesis by (intro conjI exI [of _ f]) simp_all
qed

text \<open>A lookup by the empty string can succeed: an entry whose name is not UTF-8 reads as the
  empty name, and so matches it.\<close>

theorem pfs0_empty_lookup_matches:
  assumes "pfs0_try_from_bytes bs = Ok p" "p_entries p \<noteq> []"
    and "\<not> utf8_valid (takeWhile (\<lambda>b. b \<noteq> 0)
           (drop (unat (pe_string_table_offset (hd (p_entries p)))) (p_string_table p)))"
  shows "\<exists>d. (pfs0_file_by_name p [] :: (pfs0_file option, 'e) result) = Ok (Some \<lparr>pf_name = [], pf_data = d\<rparr>)"
proof -
  obtain e es where es: "p_entries p = e # es" using assms(2) by (cases "p_entries p") auto
  with pfs0_resolve_checked [OF assms(1), of 0, where 'e = 'e] assms(3) show ?thesis
    by (simp add: pfs0_file_by_name_def cstr_def str_or_empty_def)
qed

theorem pfs0_empty_lookup_matches_witness:
  "\<exists>d. (pfs0_file_by_name (pfs0_view [([0xFF], [7])]) [] :: (pfs0_file option, unit) result)
     = Ok (Some \<lparr>pf_name = [], pf_data = d\<rparr>)"
proof (rule pfs0_empty_lookup_matches)
  show "pfs0_try_from_bytes (pfs0_archive [([0xFF], [7])]) = Ok (pfs0_view [([0xFF], [7])])"
    by (rule pfs0_parse_archive) (simp add: pfs0_fits_def usize_max_def)
qed (simp_all add: pfs0_view_def)

text \<open>Scanning a directory adds its regular files in name order and skips everything else.\<close>

theorem pfs0_from_directory_files:
  assumes "set es \<subseteq> {Dir_Entry p (Some k) (Some n) (Some d) |p k n d. True}"
    and "distinct (map fst fs)"
    and "fs = concat (map (\<lambda>e. case e of Dir_Entry p (Some Is_File) (Some n) (Some d) \<Rightarrow> [(n, d)] | _ \<Rightarrow> []) es)"
    and "\<forall>f\<in>set fs. fst f \<noteq> [] \<and> 0 \<notin> set (fst f) \<and> 0x2F \<notin> set (fst f) \<and> 0x5C \<notin> set (fst f)"
  shows "pfs0_from_directory path (Some es) = Ok (sort_key fst fs)"
  by (rule pfs0_from_directory_ok [OF assms])

theorem pfs0_from_directory_files_witness:
  "pfs0_from_directory [] (Some [Dir_Entry [] (Some Is_File) (Some [0x62]) (Some [1]),
       Dir_Entry [] (Some Is_Dir) (Some [0x63]) (Some []), Dir_Entry [] (Some Is_File) (Some [0x61]) (Some [2])])
     = Ok (sort_key fst [([0x62], [1]), ([0x61], [2])])"
  by (rule pfs0_from_directory_files) auto

end
