(* ===== verification/Cnmt.thy ===== *)
theory Cnmt
  imports NX_Codec "HOL-Library.Multiset"
begin

text \<open>
  CNMT, the content meta of a title: the layouts of \<^verbatim>\<open>src/raw/cnmt.rs\<close>, the builder of
  \<^verbatim>\<open>src/write/cnmt.rs\<close> and the reader of \<^verbatim>\<open>src/read/cnmt.rs\<close>.
\<close>

section \<open>Layouts\<close>

record cnmt_header =
  ch_title_id :: u64
  ch_title_version :: u32
  ch_meta_type :: u8
  ch_reserved_0xd :: u8
  ch_extended_header_size :: u16
  ch_content_entry_count :: u16
  ch_meta_entry_count :: u16
  ch_reserved_0x14 :: bytes

definition enc_cnmt_header :: "cnmt_header \<Rightarrow> bytes" where
  "enc_cnmt_header h =
     le64 (ch_title_id h) @ le32 (ch_title_version h) @ [ch_meta_type h, ch_reserved_0xd h]
     @ le16 (ch_extended_header_size h) @ le16 (ch_content_entry_count h)
     @ le16 (ch_meta_entry_count h) @ ch_reserved_0x14 h"

definition dec_cnmt_header :: "bytes \<Rightarrow> cnmt_header" where
  "dec_cnmt_header bs =
     \<lparr>ch_title_id = rd64 bs 0, ch_title_version = rd32 bs 8, ch_meta_type = rd8 bs 0xC,
      ch_reserved_0xd = rd8 bs 0xD, ch_extended_header_size = rd16 bs 0xE,
      ch_content_entry_count = rd16 bs 0x10, ch_meta_entry_count = rd16 bs 0x12,
      ch_reserved_0x14 = sub_bytes bs 0x14 0xC\<rparr>"

interpretation cnmt_header: layout enc_cnmt_header dec_cnmt_header "0x20" "\<lambda>h. length (ch_reserved_0x14 h) = 0xC"
  by unfold_locales
    (simp_all add: enc_cnmt_header_def dec_cnmt_header_def field_simps_le field_join length_sub_bytes)

record cnmt_app_header =
  ca_patch_title_id :: u64
  ca_required_system_version :: u32
  ca_required_application_version :: u32

definition enc_cnmt_app_header :: "cnmt_app_header \<Rightarrow> bytes" where
  "enc_cnmt_app_header h =
     le64 (ca_patch_title_id h) @ le32 (ca_required_system_version h) @ le32 (ca_required_application_version h)"

definition dec_cnmt_app_header :: "bytes \<Rightarrow> cnmt_app_header" where
  "dec_cnmt_app_header bs =
     \<lparr>ca_patch_title_id = rd64 bs 0, ca_required_system_version = rd32 bs 8,
      ca_required_application_version = rd32 bs 12\<rparr>"

interpretation cnmt_app_header: layout enc_cnmt_app_header dec_cnmt_app_header "0x10" "\<lambda>_. True"
  by unfold_locales
    (simp_all add: enc_cnmt_app_header_def dec_cnmt_app_header_def field_simps_le field_join)

record cnmt_record =
  cr_hash :: bytes
  cr_nca_id :: bytes
  cr_size :: bytes
  cr_content_type :: u8
  cr_id_offset :: u8

definition enc_cnmt_record :: "cnmt_record \<Rightarrow> bytes" where
  "enc_cnmt_record r = cr_hash r @ cr_nca_id r @ cr_size r @ [cr_content_type r, cr_id_offset r]"

definition dec_cnmt_record :: "bytes \<Rightarrow> cnmt_record" where
  "dec_cnmt_record bs =
     \<lparr>cr_hash = sub_bytes bs 0 0x20, cr_nca_id = sub_bytes bs 0x20 0x10, cr_size = sub_bytes bs 0x30 6,
      cr_content_type = rd8 bs 0x36, cr_id_offset = rd8 bs 0x37\<rparr>"

definition cnmt_record_wf :: "cnmt_record \<Rightarrow> bool" where
  "cnmt_record_wf r \<longleftrightarrow> length (cr_hash r) = 0x20 \<and> length (cr_nca_id r) = 0x10 \<and> length (cr_size r) = 6"

interpretation cnmt_record: layout enc_cnmt_record dec_cnmt_record "0x38" cnmt_record_wf
proof unfold_locales
  fix bs :: bytes assume "0x38 \<le> length bs"
  moreover have "[rd8 bs 0x36, rd8 bs 0x37] = sub_bytes bs 0x36 2" if "0x38 \<le> length bs"
    using that by (simp add: rd8_def sub_bytes_def take_Suc_conv_app_nth Cons_nth_drop_Suc [symmetric] eval_nat_numeral)
  ultimately show "enc_cnmt_record (dec_cnmt_record bs) = take 0x38 bs"
    by (simp add: enc_cnmt_record_def dec_cnmt_record_def field_join)
qed (simp_all add: enc_cnmt_record_def dec_cnmt_record_def cnmt_record_wf_def field_simps_le length_sub_bytes)

text \<open>The enumerations, with the bytes they are stored as.\<close>

datatype cnmt_meta_type = Cnmt_Application | Cnmt_Patch | Cnmt_AddOnContent | Cnmt_Delta

fun cnmt_meta_type_u8 :: "cnmt_meta_type \<Rightarrow> u8" where
  "cnmt_meta_type_u8 Cnmt_Application = 0x80"
| "cnmt_meta_type_u8 Cnmt_Patch = 0x81"
| "cnmt_meta_type_u8 Cnmt_AddOnContent = 0x82"
| "cnmt_meta_type_u8 Cnmt_Delta = 0x83"

datatype cnmt_content_type =
    Cnmt_Meta | Cnmt_Program | Cnmt_Data | Cnmt_Control | Cnmt_HtmlDocument
  | Cnmt_LegalInformation | Cnmt_DeltaFragment

fun cnmt_content_type_u8 :: "cnmt_content_type \<Rightarrow> u8" where
  "cnmt_content_type_u8 Cnmt_Meta = 0"
| "cnmt_content_type_u8 Cnmt_Program = 1"
| "cnmt_content_type_u8 Cnmt_Data = 2"
| "cnmt_content_type_u8 Cnmt_Control = 3"
| "cnmt_content_type_u8 Cnmt_HtmlDocument = 4"
| "cnmt_content_type_u8 Cnmt_LegalInformation = 5"
| "cnmt_content_type_u8 Cnmt_DeltaFragment = 6"

section \<open>The builder\<close>

definition PATCH_TITLE_ID_OFFSET :: u64 where "PATCH_TITLE_ID_OFFSET = 0x800"
definition MAX_CONTENT_SIZE :: u64 where "MAX_CONTENT_SIZE = push_bit 48 1 - 1"

record content_record =
  co_hash :: bytes
  co_size :: u64
  co_type :: cnmt_content_type

record cnmt_builder =
  cb_title_id :: u64
  cb_title_version :: u32
  cb_records :: "content_record list"

datatype cnmt_add_error =
    Cnmt_ContentTooLarge u64
  | Cnmt_DuplicateContentType cnmt_content_type

definition cnmt_new :: "u64 \<Rightarrow> cnmt_builder" where
  "cnmt_new title_id = \<lparr>cb_title_id = title_id, cb_title_version = 0, cb_records = []\<rparr>"

definition cnmt_title_version :: "u32 \<Rightarrow> cnmt_builder \<Rightarrow> cnmt_builder" where
  "cnmt_title_version v b = b\<lparr>cb_title_version := v\<rparr>"

definition cnmt_add_content :: "cnmt_builder \<Rightarrow> content_record \<Rightarrow> (cnmt_builder, cnmt_add_error) result" where
  "cnmt_add_content b r =
     (if co_size r > MAX_CONTENT_SIZE then Err (Cnmt_ContentTooLarge (co_size r))
      else if \<exists>e\<in>set (cb_records b). cnmt_content_type_u8 (co_type e) = cnmt_content_type_u8 (co_type r)
      then Err (Cnmt_DuplicateContentType (co_type r))
      else Ok (b\<lparr>cb_records := cb_records b @ [r]\<rparr>))"

definition cnmt_file_name :: "cnmt_builder \<Rightarrow> bytes" where
  "cnmt_file_name b = ascii ''Application_'' @ hex_lower 16 (unat (cb_title_id b)) @ ascii ''.cnmt''"

definition cnmt_raw_record :: "content_record \<Rightarrow> cnmt_record" where
  "cnmt_raw_record r =
     \<lparr>cr_hash = co_hash r, cr_nca_id = take 0x10 (co_hash r), cr_size = take 6 (le64 (co_size r)),
      cr_content_type = cnmt_content_type_u8 (co_type r), cr_id_offset = 0\<rparr>"

definition cnmt_build :: "cnmt_builder \<Rightarrow> bytes" where
  "cnmt_build b =
     (let records = sort_key (\<lambda>r. cnmt_content_type_u8 (co_type r)) (cb_records b);
          header = \<lparr>ch_title_id = cb_title_id b, ch_title_version = cb_title_version b,
            ch_meta_type = cnmt_meta_type_u8 Cnmt_Application, ch_reserved_0xd = 0,
            ch_extended_header_size = 0x10, ch_content_entry_count = word_of_nat (length records),
            ch_meta_entry_count = 0, ch_reserved_0x14 = zeros 0xC\<rparr>;
          extended = \<lparr>ca_patch_title_id = cb_title_id b + PATCH_TITLE_ID_OFFSET,
            ca_required_system_version = 0, ca_required_application_version = 0\<rparr>
      in enc_cnmt_header header @ enc_cnmt_app_header extended
         @ enc_table enc_cnmt_record (map cnmt_raw_record records) @ zeros 0x20)"

section \<open>The reader\<close>

datatype cnmt_parse_error =
    Cnmt_BufferTooSmall nat nat
  | Cnmt_ExtendedHeaderOutOfBounds nat nat
  | Cnmt_RecordsOutOfBounds nat nat

record cnmt =
  cn_header :: cnmt_header
  cn_extended :: "cnmt_app_header option"
  cn_records :: "cnmt_record list"

definition cnmt_try_from_bytes :: "bytes \<Rightarrow> (cnmt, cnmt_parse_error) result" where
  "cnmt_try_from_bytes bs =
     rbind (ok_or (Cnmt_BufferTooSmall 0x20 (length bs)) (ref_from_prefix dec_cnmt_header 0x20 bs)) (\<lambda>(header, rest).
       let ext = unat (ch_extended_header_size header) in
       rbind (ok_or (Cnmt_ExtendedHeaderOutOfBounds ext (length rest)) (get_range rest ext (length rest))) (\<lambda>rest.
       rbind (if ext = 0x10 \<and> ch_meta_type header = cnmt_meta_type_u8 Cnmt_Application
              then rbind (slice bs 0x20 (length bs)) (\<lambda>tail.
                     Ok (map_option fst (ref_from_prefix dec_cnmt_app_header 0x10 tail)))
              else Ok None) (\<lambda>extended.
       let count = unat (ch_content_entry_count header) in
       rbind (ok_or (Cnmt_RecordsOutOfBounds count (length rest))
               (ref_from_prefix (dec_table dec_cnmt_record 0x38 count) (count * 0x38) rest)) (\<lambda>(records, _).
         Ok \<lparr>cn_header = header, cn_extended = extended, cn_records = records\<rparr>))))"

text \<open>The two byte-to-enumeration functions, arm by arm.\<close>

definition cnmt_meta_type_of :: "u8 \<Rightarrow> cnmt_meta_type option" where
  "cnmt_meta_type_of v =
     (if v = cnmt_meta_type_u8 Cnmt_Application then Some Cnmt_Application
      else if v = cnmt_meta_type_u8 Cnmt_Patch then Some Cnmt_Patch
      else if v = cnmt_meta_type_u8 Cnmt_AddOnContent then Some Cnmt_AddOnContent
      else None)"

definition cnmt_content_type_of :: "u8 \<Rightarrow> cnmt_content_type option" where
  "cnmt_content_type_of v =
     (if v = cnmt_content_type_u8 Cnmt_Meta then Some Cnmt_Meta
      else if v = cnmt_content_type_u8 Cnmt_Program then Some Cnmt_Program
      else if v = cnmt_content_type_u8 Cnmt_Data then Some Cnmt_Data
      else if v = cnmt_content_type_u8 Cnmt_Control then Some Cnmt_Control
      else if v = cnmt_content_type_u8 Cnmt_HtmlDocument then Some Cnmt_HtmlDocument
      else if v = cnmt_content_type_u8 Cnmt_LegalInformation then Some Cnmt_LegalInformation
      else if v = cnmt_content_type_u8 Cnmt_DeltaFragment then Some Cnmt_DeltaFragment
      else None)"

definition cnmt_title_id :: "cnmt \<Rightarrow> u64" where "cnmt_title_id c = ch_title_id (cn_header c)"
definition cnmt_reader_version :: "cnmt \<Rightarrow> u32" where
  "cnmt_reader_version c = ch_title_version (cn_header c)"
definition cnmt_reader_meta_type :: "cnmt \<Rightarrow> cnmt_meta_type option" where
  "cnmt_reader_meta_type c = cnmt_meta_type_of (ch_meta_type (cn_header c))"
definition cnmt_record_count :: "cnmt \<Rightarrow> nat" where "cnmt_record_count c = length (cn_records c)"

text \<open>\<^verbatim>\<open>ContentRecord::size\<close>: the six stored bytes under two zero ones.\<close>

definition cnmt_record_size :: "cnmt_record \<Rightarrow> u64" where
  "cnmt_record_size r = word_of_nat (le_nat (take 6 (cr_size r) @ zeros 2))"

definition cnmt_record_type :: "cnmt_record \<Rightarrow> cnmt_content_type option" where
  "cnmt_record_type r = cnmt_content_type_of (cr_content_type r)"

section \<open>Invariant of the builder\<close>

text \<open>One record per content type, sizes that fit six bytes, and SHA-256 digests.\<close>

definition cnmt_inv :: "cnmt_builder \<Rightarrow> bool" where
  "cnmt_inv b \<longleftrightarrow> distinct (map co_type (cb_records b)) \<and>
     (\<forall>r\<in>set (cb_records b). co_size r \<le> MAX_CONTENT_SIZE \<and> length (co_hash r) = 0x20)"

lemma cnmt_content_type_u8_inj [simp]: "cnmt_content_type_u8 t = cnmt_content_type_u8 t' \<longleftrightarrow> t = t'"
  by (cases t; cases t') simp_all

lemma cnmt_content_type_of_u8 [simp]: "cnmt_content_type_of (cnmt_content_type_u8 t) = Some t"
  by (cases t) (simp_all add: cnmt_content_type_of_def)

lemma cnmt_content_type_of_Some: "cnmt_content_type_of v = Some t \<longleftrightarrow> v = cnmt_content_type_u8 t"
proof
  assume "cnmt_content_type_of v = Some t"
  then show "v = cnmt_content_type_u8 t"
    by (auto simp: cnmt_content_type_of_def simp del: cnmt_content_type_u8.simps split: if_splits)
qed simp

lemma cnmt_inv_new: "cnmt_inv (cnmt_new t)"
  by (simp add: cnmt_inv_def cnmt_new_def)

lemma cnmt_inv_version: "cnmt_inv b \<Longrightarrow> cnmt_inv (cnmt_title_version v b)"
  by (simp add: cnmt_inv_def cnmt_title_version_def)

lemma cnmt_inv_add:
  "cnmt_inv b \<Longrightarrow> length (co_hash r) = 0x20 \<Longrightarrow> cnmt_add_content b r = Ok b' \<Longrightarrow> cnmt_inv b'"
  by (auto simp: cnmt_inv_def cnmt_add_content_def split: if_splits) (metis (no_types))

text \<open>There are seven content types, so the record count fits its field.\<close>

lemma cnmt_inv_count: "cnmt_inv b \<Longrightarrow> length (cb_records b) \<le> 7"
proof -
  assume inv: "cnmt_inv b"
  let ?all = "{Cnmt_Meta, Cnmt_Program, Cnmt_Data, Cnmt_Control, Cnmt_HtmlDocument,
    Cnmt_LegalInformation, Cnmt_DeltaFragment}"
  have "set (map co_type (cb_records b)) \<subseteq> ?all"
  proof
    show "t \<in> ?all" for t by (cases t) simp_all
  qed
  then have "card (set (map co_type (cb_records b))) \<le> card ?all"
    by (rule card_mono [rotated]) simp
  moreover have "card (set (map co_type (cb_records b))) = length (cb_records b)"
    using inv distinct_card [of "map co_type (cb_records b)"] by (simp add: cnmt_inv_def)
  ultimately show ?thesis by simp
qed

lemma unat_max_content_size: "unat MAX_CONTENT_SIZE = 2 ^ 48 - 1"
  by (simp add: MAX_CONTENT_SIZE_def push_bit_eq_mult)

section \<open>Reading back what was built\<close>

lemma cnmt_raw_record_wf: "length (co_hash r) = 0x20 \<Longrightarrow> cnmt_record_wf (cnmt_raw_record r)"
  by (simp add: cnmt_record_wf_def cnmt_raw_record_def)

lemma cnmt_record_size_raw:
  assumes "co_size r \<le> MAX_CONTENT_SIZE"
  shows "cnmt_record_size (cnmt_raw_record r) = co_size r"
proof -
  have "unat (co_size r) < 256 ^ 6"
    using assms unat_max_content_size by (simp add: word_le_nat_alt)
  moreover have "le_nat (take 6 (le64 (co_size r)) @ zeros 2) = unat (co_size r) mod 256 ^ 6"
    unfolding le64_def zeros_def by (simp add: take_le_bytes le_nat_append_zeros le_nat_le_bytes)
  ultimately show ?thesis
    by (simp add: cnmt_record_size_def cnmt_raw_record_def)
qed

text \<open>The parsed form of a built meta.\<close>

definition cnmt_view :: "cnmt_builder \<Rightarrow> cnmt" where
  "cnmt_view b =
     (let records = sort_key (\<lambda>r. cnmt_content_type_u8 (co_type r)) (cb_records b) in
      \<lparr>cn_header = \<lparr>ch_title_id = cb_title_id b, ch_title_version = cb_title_version b,
            ch_meta_type = 0x80, ch_reserved_0xd = 0, ch_extended_header_size = 0x10,
            ch_content_entry_count = word_of_nat (length records), ch_meta_entry_count = 0,
            ch_reserved_0x14 = zeros 0xC\<rparr>,
       cn_extended = Some \<lparr>ca_patch_title_id = cb_title_id b + PATCH_TITLE_ID_OFFSET,
            ca_required_system_version = 0, ca_required_application_version = 0\<rparr>,
       cn_records = map cnmt_raw_record records\<rparr>)"

lemma cnmt_parse_built:
  assumes "cnmt_inv b"
  shows "cnmt_try_from_bytes (cnmt_build b) = Ok (cnmt_view b)"
proof -
  define recs where "recs = sort_key (\<lambda>r. cnmt_content_type_u8 (co_type r)) (cb_records b)"
  define h where "h = cn_header (cnmt_view b)"
  define x where "x = the (cn_extended (cnmt_view b))"
  define raws where "raws = map cnmt_raw_record recs"
  have wf: "\<forall>r\<in>set raws. cnmt_record_wf r"
    using assms by (auto simp: raws_def recs_def cnmt_inv_def intro!: cnmt_raw_record_wf)
  have cnt: "length recs \<le> 7" using cnmt_inv_count [OF assms] by (simp add: recs_def)
  let ?rest = "enc_cnmt_app_header x @ enc_table enc_cnmt_record raws @ zeros 0x20"
  have img: "cnmt_build b = enc_cnmt_header h @ ?rest"
    by (simp add: cnmt_build_def cnmt_view_def h_def x_def raws_def recs_def Let_def)
  have hwf: "length (ch_reserved_0x14 h) = 0xC" by (simp add: h_def cnmt_view_def Let_def)
  have hv: "unat (ch_extended_header_size h) = 0x10" "ch_meta_type h = 0x80"
    "unat (ch_content_entry_count h) = length raws"
    using cnt by (simp_all add: h_def cnmt_view_def raws_def recs_def [symmetric] Let_def unat_of_nat)
  have lens: "length (enc_cnmt_header h) = 0x20" "length (enc_cnmt_app_header x) = 0x10"
    "length (enc_table enc_cnmt_record raws) = length raws * 0x38"
    using cnmt_header.enc_length [OF hwf] cnmt_app_header.enc_length cnmt_record.enc_table_length [OF wf] by simp_all
  have p1: "ref_from_prefix dec_cnmt_header 0x20 (cnmt_build b) = Some (h, ?rest)"
    unfolding img by (rule cnmt_header.prefix_of_written [OF hwf])
  have p2: "get_range ?rest 0x10 (length ?rest) = Some (enc_table enc_cnmt_record raws @ zeros 0x20)"
    using lens(2) by simp
  have p3: "(slice (cnmt_build b) 0x20 (length (cnmt_build b)) :: (bytes, cnmt_parse_error) result) = Ok ?rest"
    using lens(1) by (simp add: img)
  have p4: "ref_from_prefix dec_cnmt_app_header 0x10 ?rest = Some (x, enc_table enc_cnmt_record raws @ zeros 0x20)"
    by (simp only: cnmt_app_header.prefix_of_written)
  have p5: "ref_from_prefix (dec_table dec_cnmt_record 0x38 (length raws)) (length raws * 0x38)
      (enc_table enc_cnmt_record raws @ zeros 0x20) = Some (raws, zeros 0x20)"
    using cnmt_record.dec_enc_table [OF wf, of "zeros 0x20"] lens(3) by (simp add: run_simps)
  have "cnmt_try_from_bytes (cnmt_build b) = Ok \<lparr>cn_header = h, cn_extended = Some x, cn_records = raws\<rparr>"
    by (simp only: cnmt_try_from_bytes_def p1 ok_or_simps rbind.simps prod.case hv Let_def p2 p3 p4 p5
        cnmt_meta_type_u8.simps simp_thms if_True option.map fst_conv)
  also have "\<lparr>cn_header = h, cn_extended = Some x, cn_records = raws\<rparr> = cnmt_view b"
    by (simp add: h_def x_def raws_def recs_def cnmt_view_def Let_def)
  finally show ?thesis .
qed

lemma cnmt_try_no_panic: "cnmt_try_from_bytes bs \<noteq> Panic"
  by (auto simp: cnmt_try_from_bytes_def rbind_eq_Panic Let_def split: if_splits)

lemma cnmt_build_cong:
  assumes "mset rs = mset rs'" "distinct (map co_type rs)"
  shows "cnmt_build (b\<lparr>cb_records := rs\<rparr>) = cnmt_build (b\<lparr>cb_records := rs'\<rparr>)"
proof -
  let ?key = "\<lambda>r. cnmt_content_type_u8 (co_type r)"
  have "inj_on ?key (set rs)" using assms(2) by (auto simp: distinct_map inj_on_def)
  then have "sort_key ?key rs = sort_key ?key rs'"
    by (intro sort_key_inj_key_eq) (simp_all add: assms(1))
  then show ?thesis by (simp add: cnmt_build_def)
qed

end
