(* ===== verification/Cnmt_Properties.thy ===== *)
theory Cnmt_Properties
  imports Cnmt
begin

text \<open>What the content meta builder and reader promise.\<close>

definition cnmt_example :: cnmt_builder where
  "cnmt_example = \<lparr>cb_title_id = 0x0100000000001000, cb_title_version = 1, cb_records =
     [\<lparr>co_hash = replicate 0x20 0xCD, co_size = 0x5678, co_type = Cnmt_Control\<rparr>,
      \<lparr>co_hash = replicate 0x20 0xAB, co_size = 0x1234, co_type = Cnmt_Program\<rparr>]\<rparr>"

lemma cnmt_example_inv: "cnmt_inv cnmt_example"
  by (simp add: cnmt_inv_def cnmt_example_def word_le_nat_alt unat_max_content_size)

text \<open>C13. A built content meta parses, and every record comes back in content-type order with the
  hash, the size, and the type it was added with; the NCA is named by the head of its hash, and the
  patch title is the title with \<^verbatim>\<open>0x800\<close> added.\<close>

theorem cnmt_round_trip:
  assumes "cnmt_inv b"
  shows "\<exists>c. cnmt_try_from_bytes (cnmt_build b) = Ok c
    \<and> cnmt_title_id c = cb_title_id b \<and> cnmt_reader_version c = cb_title_version b
    \<and> cnmt_reader_meta_type c = Some Cnmt_Application
    \<and> map_option ca_patch_title_id (cn_extended c) = Some (cb_title_id b + 0x800)
    \<and> map (\<lambda>r. (cr_hash r, cnmt_record_size r, cnmt_record_type r)) (cn_records c)
        = map (\<lambda>r. (co_hash r, co_size r, Some (co_type r)))
            (sort_key (\<lambda>r. cnmt_content_type_u8 (co_type r)) (cb_records b))
    \<and> (\<forall>r\<in>set (cn_records c). cr_nca_id r = take 0x10 (cr_hash r))"
proof -
  have "map (\<lambda>r. (cr_hash r, cnmt_record_size r, cnmt_record_type r)) (map cnmt_raw_record rs)
      = map (\<lambda>r. (co_hash r, co_size r, Some (co_type r))) rs"
    if "set rs = set (cb_records b)" for rs
    using assms that
    by (auto simp: cnmt_inv_def cnmt_record_size_raw cnmt_record_type_def)
       (simp_all add: cnmt_raw_record_def)
  then show ?thesis
    unfolding cnmt_parse_built [OF assms]
    by (intro exI [of _ "cnmt_view b"] conjI)
      (simp_all add: cnmt_view_def Let_def cnmt_title_id_def cnmt_reader_version_def
        cnmt_reader_meta_type_def cnmt_meta_type_of_def PATCH_TITLE_ID_OFFSET_def cnmt_raw_record_def)
qed

theorem cnmt_round_trip_witness:
  "\<exists>c. cnmt_try_from_bytes (cnmt_build cnmt_example) = Ok c
    \<and> map cnmt_record_size (cn_records c) = [0x1234, 0x5678]
    \<and> map_option ca_patch_title_id (cn_extended c) = Some 0x0100000000001800"
proof -
  obtain c where c: "cnmt_try_from_bytes (cnmt_build cnmt_example) = Ok c"
    "map_option ca_patch_title_id (cn_extended c) = Some (cb_title_id cnmt_example + 0x800)"
    "map (\<lambda>r. (cr_hash r, cnmt_record_size r, cnmt_record_type r)) (cn_records c)
        = map (\<lambda>r. (co_hash r, co_size r, Some (co_type r)))
            (sort_key (\<lambda>r. cnmt_content_type_u8 (co_type r)) (cb_records cnmt_example))"
    using cnmt_round_trip [OF cnmt_example_inv] by blast
  have "map cnmt_record_size (cn_records c)
      = map (fst \<circ> snd) (map (\<lambda>r. (cr_hash r, cnmt_record_size r, cnmt_record_type r)) (cn_records c))"
    by simp
  also have "\<dots> = [0x1234, 0x5678]"
    unfolding c(3) by (simp add: cnmt_example_def word_le_nat_alt)
  finally show ?thesis using c(1,2) by (simp add: cnmt_example_def)
qed

text \<open>\<^verbatim>\<open>add_content\<close> keeps the records within what the format can express, and so at
  most seven of them; it refuses a size above six bytes first, then a repeated content type.\<close>

theorem cnmt_add_content_spec:
  assumes "cnmt_inv b" "length (co_hash r) = 0x20"
  shows "(case cnmt_add_content b r of
      Ok b' \<Rightarrow> cnmt_inv b' \<and> cb_records b' = cb_records b @ [r] \<and> length (cb_records b') \<le> 7
    | Err e \<Rightarrow>
        (if 2 ^ 48 \<le> unat (co_size r) then e = Cnmt_ContentTooLarge (co_size r)
         else co_type r \<in> co_type ` set (cb_records b) \<and> e = Cnmt_DuplicateContentType (co_type r))
    | Panic \<Rightarrow> False)"
proof -
  have "co_size r > MAX_CONTENT_SIZE \<longleftrightarrow> 2 ^ 48 \<le> unat (co_size r)"
    by (simp add: word_less_nat_alt unat_max_content_size) linarith
  then have big: "MAX_CONTENT_SIZE < co_size r \<longleftrightarrow> 2 ^ 48 \<le> unat (co_size r)" .
  show ?thesis
  proof (cases "cnmt_add_content b r")
    case (Ok b')
    then have "cnmt_inv b'" by (rule cnmt_inv_add [OF assms])
    moreover from this have "length (cb_records b') \<le> 7" by (rule cnmt_inv_count)
    moreover have "cb_records b' = cb_records b @ [r]"
      using Ok by (auto simp: cnmt_add_content_def split: if_splits)
    ultimately show ?thesis using Ok by simp
  next
    case (Err e)
    then show ?thesis
      using big by (auto simp: cnmt_add_content_def image_iff split: if_splits) metis+
  next
    case Panic
    then show ?thesis by (simp add: cnmt_add_content_def split: if_splits)
  qed
qed

theorem cnmt_add_content_spec_witness:
  "cnmt_add_content cnmt_example \<lparr>co_hash = replicate 0x20 0, co_size = 1, co_type = Cnmt_Program\<rparr>
     = Err (Cnmt_DuplicateContentType Cnmt_Program)"
proof -
  let ?r = "\<lparr>co_hash = replicate 0x20 0, co_size = 1, co_type = Cnmt_Program\<rparr>"
  have "co_type ?r \<in> co_type ` set (cb_records cnmt_example)" by (simp add: cnmt_example_def)
  then have "\<not> (\<exists>b'. cnmt_add_content cnmt_example ?r = Ok b')"
    by (auto simp: cnmt_add_content_def split: if_splits)
  with cnmt_add_content_spec [OF cnmt_example_inv, of ?r] show ?thesis
    by (auto split: result.splits)
qed

text \<open>The bytes do not depend on the order the contents were added in.\<close>

theorem cnmt_deterministic:
  assumes "mset rs = mset rs'" "distinct (map co_type rs)"
  shows "cnmt_build (b\<lparr>cb_records := rs\<rparr>) = cnmt_build (b\<lparr>cb_records := rs'\<rparr>)"
  by (rule cnmt_build_cong [OF assms])

theorem cnmt_deterministic_witness:
  "cnmt_build cnmt_example = cnmt_build (cnmt_example\<lparr>cb_records := rev (cb_records cnmt_example)\<rparr>)"
  using cnmt_deterministic [of "cb_records cnmt_example" "rev (cb_records cnmt_example)" cnmt_example]
  by (simp add: cnmt_example_def)

text \<open>The name a content meta is stored under determines its title.\<close>

theorem cnmt_file_name_injective:
  "cnmt_file_name b = cnmt_file_name b' \<longleftrightarrow> cb_title_id b = cb_title_id b'"
proof
  assume "cnmt_file_name b = cnmt_file_name b'"
  then have "hex_lower 16 (unat (cb_title_id b)) = hex_lower 16 (unat (cb_title_id b'))"
    by (simp add: cnmt_file_name_def)
  from hex_lower_inj [OF this] have "unat (cb_title_id b) = unat (cb_title_id b')"
    using unat_lt2p [of "cb_title_id b"] unat_lt2p [of "cb_title_id b'"] by simp
  then show "cb_title_id b = cb_title_id b'" by (simp add: word_unat_eq_iff)
qed (simp add: cnmt_file_name_def)

text \<open>Parsing any buffer returns: an error naming the first region that does not fit, or a view
  holding as many records as the header counts.\<close>

theorem cnmt_parse_total:
  "(case cnmt_try_from_bytes bs of
      Ok c \<Rightarrow> cnmt_record_count c = unat (ch_content_entry_count (cn_header c))
        \<and> 0x20 + unat (ch_extended_header_size (cn_header c)) + 0x38 * cnmt_record_count c \<le> length bs
        \<and> (\<forall>r\<in>set (cn_records c). cnmt_record_wf r)
    | Err e \<Rightarrow> let h = dec_cnmt_header bs; ext = unat (ch_extended_header_size h) in
        (if length bs < 0x20 then e = Cnmt_BufferTooSmall 0x20 (length bs)
         else if length bs - 0x20 < ext then e = Cnmt_ExtendedHeaderOutOfBounds ext (length bs - 0x20)
         else length bs - 0x20 - ext < 0x38 * unat (ch_content_entry_count h)
           \<and> e = Cnmt_RecordsOutOfBounds (unat (ch_content_entry_count h)) (length bs - 0x20 - ext))
    | Panic \<Rightarrow> False)"
proof (cases "cnmt_try_from_bytes bs")
  case (Ok c)
  let ?h = "dec_cnmt_header bs"
  let ?rest = "drop (unat (ch_extended_header_size ?h)) (drop 0x20 bs)"
  from Ok have "0x20 \<le> length bs" "cn_header c = ?h"
    "unat (ch_extended_header_size ?h) \<le> length (drop 0x20 bs)"
    "cn_records c = dec_table dec_cnmt_record 0x38 (unat (ch_content_entry_count ?h)) ?rest"
    "unat (ch_content_entry_count ?h) * 0x38 \<le> length ?rest"
    by (auto simp: cnmt_try_from_bytes_def rbind_eq_Ok Let_def)
  then show ?thesis
    using Ok cnmt_record.dec_table_wf [of "unat (ch_content_entry_count ?h)" ?rest]
    by (simp add: cnmt_record_count_def)
next
  case (Err e)
  let ?h = "dec_cnmt_header bs"
  let ?ext = "unat (ch_extended_header_size ?h)"
  consider "length bs < 0x20" | "0x20 \<le> length bs" "length bs - 0x20 < ?ext"
    | "0x20 \<le> length bs" "?ext \<le> length bs - 0x20" by linarith
  then show ?thesis
  proof cases
    case 3
    have "\<exists>x. (if ?ext = 0x10 \<and> ch_meta_type ?h = cnmt_meta_type_u8 Cnmt_Application
        then rbind (slice bs 0x20 (length bs)) (\<lambda>tail.
               Ok (map_option fst (ref_from_prefix dec_cnmt_app_header 0x10 tail)))
        else Ok None) = (Ok x :: (cnmt_app_header option, cnmt_parse_error) result)"
      using 3 by (auto simp: run_simps)
    then obtain x where x: "(if ?ext = 0x10 \<and> ch_meta_type ?h = cnmt_meta_type_u8 Cnmt_Application
        then rbind (slice bs 0x20 (length bs)) (\<lambda>tail.
               Ok (map_option fst (ref_from_prefix dec_cnmt_app_header 0x10 tail)))
        else Ok None) = (Ok x :: (cnmt_app_header option, cnmt_parse_error) result)" ..
    show ?thesis
      using Err 3 x unfolding cnmt_try_from_bytes_def
      by (cases "length bs - 0x20 - ?ext < unat (ch_content_entry_count ?h) * 0x38")
        (auto simp: run_simps Let_def mult.commute add.commute)
  qed (use Err in \<open>simp_all add: cnmt_try_from_bytes_def run_simps Let_def\<close>)
next
  case Panic
  then show ?thesis by (simp add: cnmt_try_no_panic)
qed

theorem cnmt_parse_total_witness: "cnmt_try_from_bytes [0] = Err (Cnmt_BufferTooSmall 0x20 1)"
  using cnmt_parse_total [of "[0]"] by (auto simp: Let_def split: result.splits)

end
