(* ===== verification/Nca_Layout.thy ===== *)
theory Nca_Layout
  imports NX_Codec
begin

text \<open>
  The structures of \<^verbatim>\<open>src/raw/nca.rs\<close>: the NCA header, its section entries and FS headers,
  and the two superblocks that share one span of bytes.
\<close>

section \<open>Constants and enumerations\<close>

definition NCA3_MAGIC :: u32 where "NCA3_MAGIC = 0x3341434E"
definition IVFC_MAGIC :: u32 where "IVFC_MAGIC = 0x43465649"
definition MEDIA_UNIT_SIZE :: nat where "MEDIA_UNIT_SIZE = 0x200"
definition NCA_HEADER_SIZE :: nat where "NCA_HEADER_SIZE = 0xC00"
definition NCA_SECTION_COUNT :: nat where "NCA_SECTION_COUNT = 4"
definition IVFC_MAX_LEVELS :: nat where "IVFC_MAX_LEVELS = 6"

lemmas nca_consts =
  MEDIA_UNIT_SIZE_def NCA_HEADER_SIZE_def NCA_SECTION_COUNT_def IVFC_MAX_LEVELS_def

datatype nca_fs_type = Fs_RomFs | Fs_Pfs0

fun nca_fs_type_u8 :: "nca_fs_type \<Rightarrow> u8" where
  "nca_fs_type_u8 Fs_RomFs = 0"
| "nca_fs_type_u8 Fs_Pfs0 = 1"

datatype nca_hash_type = Hash_Pfs0 | Hash_RomFs

fun nca_hash_type_u8 :: "nca_hash_type \<Rightarrow> u8" where
  "nca_hash_type_u8 Hash_Pfs0 = 2"
| "nca_hash_type_u8 Hash_RomFs = 3"

datatype nca_crypt_type = Crypt_None | Crypt_Xts | Crypt_Ctr | Crypt_Bktr

fun nca_crypt_type_u8 :: "nca_crypt_type \<Rightarrow> u8" where
  "nca_crypt_type_u8 Crypt_None = 1"
| "nca_crypt_type_u8 Crypt_Xts = 2"
| "nca_crypt_type_u8 Crypt_Ctr = 3"
| "nca_crypt_type_u8 Crypt_Bktr = 4"

datatype nca_content_type =
    Nca_Program | Nca_Meta | Nca_Control | Nca_Manual | Nca_Data | Nca_PublicData

fun nca_content_type_u8 :: "nca_content_type \<Rightarrow> u8" where
  "nca_content_type_u8 Nca_Program = 0"
| "nca_content_type_u8 Nca_Meta = 1"
| "nca_content_type_u8 Nca_Control = 2"
| "nca_content_type_u8 Nca_Manual = 3"
| "nca_content_type_u8 Nca_Data = 4"
| "nca_content_type_u8 Nca_PublicData = 5"

section \<open>Fixed-size byte arrays\<close>

interpretation array_16: layout "\<lambda>x. x" "take 0x10" "0x10" "\<lambda>x. length x = 0x10"
  by unfold_locales simp_all

interpretation array_32: layout "\<lambda>x. x" "take 0x20" "0x20" "\<lambda>x. length x = 0x20"
  by unfold_locales simp_all

section \<open>Structures\<close>

record nca_section_entry =
  ns_media_start_offset :: u32
  ns_media_end_offset :: u32
  ns_reserved :: bytes

definition enc_nca_section_entry :: "nca_section_entry \<Rightarrow> bytes" where
  "enc_nca_section_entry e = le32 (ns_media_start_offset e) @ le32 (ns_media_end_offset e) @ ns_reserved e"

definition dec_nca_section_entry :: "bytes \<Rightarrow> nca_section_entry" where
  "dec_nca_section_entry bs =
     \<lparr>ns_media_start_offset = rd32 bs 0, ns_media_end_offset = rd32 bs 4, ns_reserved = sub_bytes bs 8 8\<rparr>"

interpretation nca_section_entry: layout enc_nca_section_entry dec_nca_section_entry "0x10"
    "\<lambda>e. length (ns_reserved e) = 8"
  by unfold_locales
    (simp_all add: enc_nca_section_entry_def dec_nca_section_entry_def field_simps_le field_join length_sub_bytes)

record ivfc_level_header =
  il_logical_offset :: u64
  il_hash_data_size :: u64
  il_block_size :: u32
  il_reserved :: u32

definition enc_ivfc_level_header :: "ivfc_level_header \<Rightarrow> bytes" where
  "enc_ivfc_level_header h =
     le64 (il_logical_offset h) @ le64 (il_hash_data_size h) @ le32 (il_block_size h) @ le32 (il_reserved h)"

definition dec_ivfc_level_header :: "bytes \<Rightarrow> ivfc_level_header" where
  "dec_ivfc_level_header bs =
     \<lparr>il_logical_offset = rd64 bs 0, il_hash_data_size = rd64 bs 8, il_block_size = rd32 bs 0x10,
      il_reserved = rd32 bs 0x14\<rparr>"

interpretation ivfc_level_header: layout enc_ivfc_level_header dec_ivfc_level_header "0x18" "\<lambda>_. True"
  by unfold_locales
    (simp_all add: enc_ivfc_level_header_def dec_ivfc_level_header_def field_simps_le field_join)

record ivfc_header =
  iv_magic :: u32
  iv_version :: u32
  iv_master_hash_size :: u32
  iv_level_count :: u32
  iv_level_headers :: "ivfc_level_header list"
  iv_signature_salt :: bytes
  iv_master_hash :: bytes

definition enc_ivfc_header :: "ivfc_header \<Rightarrow> bytes" where
  "enc_ivfc_header h =
     le32 (iv_magic h) @ le32 (iv_version h) @ le32 (iv_master_hash_size h) @ le32 (iv_level_count h)
     @ enc_table enc_ivfc_level_header (iv_level_headers h) @ iv_signature_salt h @ iv_master_hash h"

definition dec_ivfc_header :: "bytes \<Rightarrow> ivfc_header" where
  "dec_ivfc_header bs =
     \<lparr>iv_magic = rd32 bs 0, iv_version = rd32 bs 4, iv_master_hash_size = rd32 bs 8,
      iv_level_count = rd32 bs 12,
      iv_level_headers = dec_table dec_ivfc_level_header 0x18 6 (drop 0x10 bs),
      iv_signature_salt = sub_bytes bs 0xA0 0x20, iv_master_hash = sub_bytes bs 0xC0 0x20\<rparr>"

definition ivfc_header_wf :: "ivfc_header \<Rightarrow> bool" where
  "ivfc_header_wf h \<longleftrightarrow> length (iv_level_headers h) = 6 \<and> length (iv_signature_salt h) = 0x20
     \<and> length (iv_master_hash h) = 0x20"

interpretation ivfc_header: layout enc_ivfc_header dec_ivfc_header "0xE0" ivfc_header_wf
proof unfold_locales
  fix r rest assume wf: "ivfc_header_wf r"
  note len = ivfc_level_header.enc_table_length [of "iv_level_headers r"]
  show "length (enc_ivfc_header r) = 0xE0"
    using wf len by (simp add: enc_ivfc_header_def ivfc_header_wf_def)
  show "dec_ivfc_header (enc_ivfc_header r @ rest) = r"
    using wf len ivfc_level_header.dec_enc_table [of "iv_level_headers r"]
    by (simp add: enc_ivfc_header_def dec_ivfc_header_def ivfc_header_wf_def field_simps_le)
next
  fix bs :: bytes assume len: "0xE0 \<le> length bs"
  then show "ivfc_header_wf (dec_ivfc_header bs)"
    by (simp add: dec_ivfc_header_def ivfc_header_wf_def length_sub_bytes)
  have "enc_table enc_ivfc_level_header (dec_table dec_ivfc_level_header 0x18 6 (drop 0x10 bs)) = sub_bytes bs 0x10 0x90"
    using ivfc_level_header.enc_dec_table [of 6 "drop 0x10 bs"] len by (simp add: sub_bytes_def)
  with len show "enc_ivfc_header (dec_ivfc_header bs) = take 0xE0 bs"
    by (simp add: enc_ivfc_header_def dec_ivfc_header_def field_simps_le field_join)
qed

record romfs_superblock =
  rs_ivfc_header :: ivfc_header
  rs_reserved :: bytes

definition enc_romfs_superblock :: "romfs_superblock \<Rightarrow> bytes" where
  "enc_romfs_superblock s = enc_ivfc_header (rs_ivfc_header s) @ rs_reserved s"

definition dec_romfs_superblock :: "bytes \<Rightarrow> romfs_superblock" where
  "dec_romfs_superblock bs = \<lparr>rs_ivfc_header = dec_ivfc_header bs, rs_reserved = sub_bytes bs 0xE0 0x58\<rparr>"

interpretation romfs_superblock: layout enc_romfs_superblock dec_romfs_superblock "0x138"
    "\<lambda>s. ivfc_header_wf (rs_ivfc_header s) \<and> length (rs_reserved s) = 0x58"
  by unfold_locales
    (simp_all add: enc_romfs_superblock_def dec_romfs_superblock_def ivfc_header.enc_length
      ivfc_header.dec_enc ivfc_header.dec_wf ivfc_header.enc_dec field_simps_le field_join length_sub_bytes)

record pfs0_superblock =
  ps_master_hash :: bytes
  ps_block_size :: u32
  ps_layer_count :: u32
  ps_hash_table_offset :: u64
  ps_hash_table_size :: u64
  ps_pfs0_offset :: u64
  ps_pfs0_size :: u64
  ps_reserved :: bytes

definition enc_pfs0_superblock :: "pfs0_superblock \<Rightarrow> bytes" where
  "enc_pfs0_superblock s =
     ps_master_hash s @ le32 (ps_block_size s) @ le32 (ps_layer_count s) @ le64 (ps_hash_table_offset s)
     @ le64 (ps_hash_table_size s) @ le64 (ps_pfs0_offset s) @ le64 (ps_pfs0_size s) @ ps_reserved s"

definition dec_pfs0_superblock :: "bytes \<Rightarrow> pfs0_superblock" where
  "dec_pfs0_superblock bs =
     \<lparr>ps_master_hash = sub_bytes bs 0 0x20, ps_block_size = rd32 bs 0x20, ps_layer_count = rd32 bs 0x24,
      ps_hash_table_offset = rd64 bs 0x28, ps_hash_table_size = rd64 bs 0x30, ps_pfs0_offset = rd64 bs 0x38,
      ps_pfs0_size = rd64 bs 0x40, ps_reserved = sub_bytes bs 0x48 0xF0\<rparr>"

interpretation pfs0_superblock: layout enc_pfs0_superblock dec_pfs0_superblock "0x138"
    "\<lambda>s. length (ps_master_hash s) = 0x20 \<and> length (ps_reserved s) = 0xF0"
  by unfold_locales
    (simp_all add: enc_pfs0_superblock_def dec_pfs0_superblock_def field_simps_le field_join length_sub_bytes)

section \<open>The FS header and the archive header\<close>

record nca_fs_header =
  fh_version :: u16
  fh_fs_type :: u8
  fh_hash_type :: u8
  fh_crypt_type :: u8
  fh_reserved_0x5 :: bytes
  fh_superblock :: bytes
  fh_section_ctr :: bytes
  fh_reserved_0x148 :: bytes

definition enc_nca_fs_header :: "nca_fs_header \<Rightarrow> bytes" where
  "enc_nca_fs_header h =
     le16 (fh_version h) @ [fh_fs_type h, fh_hash_type h, fh_crypt_type h] @ fh_reserved_0x5 h
     @ fh_superblock h @ fh_section_ctr h @ fh_reserved_0x148 h"

definition dec_nca_fs_header :: "bytes \<Rightarrow> nca_fs_header" where
  "dec_nca_fs_header bs =
     \<lparr>fh_version = rd16 bs 0, fh_fs_type = rd8 bs 2, fh_hash_type = rd8 bs 3, fh_crypt_type = rd8 bs 4,
      fh_reserved_0x5 = sub_bytes bs 5 3, fh_superblock = sub_bytes bs 8 0x138,
      fh_section_ctr = sub_bytes bs 0x140 8, fh_reserved_0x148 = sub_bytes bs 0x148 0xB8\<rparr>"

definition nca_fs_header_wf :: "nca_fs_header \<Rightarrow> bool" where
  "nca_fs_header_wf h \<longleftrightarrow> length (fh_reserved_0x5 h) = 3 \<and> length (fh_superblock h) = 0x138
     \<and> length (fh_section_ctr h) = 8 \<and> length (fh_reserved_0x148 h) = 0xB8"

interpretation nca_fs_header: layout enc_nca_fs_header dec_nca_fs_header "0x200" nca_fs_header_wf
  by unfold_locales
    (simp_all add: enc_nca_fs_header_def dec_nca_fs_header_def nca_fs_header_wf_def field_simps_le
      field_join length_sub_bytes)

record nca_header =
  nh_fixed_key_sig :: bytes
  nh_npdm_key_sig :: bytes
  nh_magic :: u32
  nh_distribution :: u8
  nh_content_type :: u8
  nh_crypto_type :: u8
  nh_kaek_index :: u8
  nh_nca_size :: u64
  nh_title_id :: u64
  nh_reserved_0x218 :: bytes
  nh_sdk_version :: u32
  nh_crypto_type2 :: u8
  nh_reserved_0x221 :: bytes
  nh_rights_id :: bytes
  nh_section_entries :: "nca_section_entry list"
  nh_section_hashes :: "bytes list"
  nh_encrypted_keys :: "bytes list"
  nh_reserved_0x340 :: bytes
  nh_fs_headers :: "nca_fs_header list"

definition enc_nca_header :: "nca_header \<Rightarrow> bytes" where
  "enc_nca_header h =
     nh_fixed_key_sig h @ nh_npdm_key_sig h @ le32 (nh_magic h)
     @ [nh_distribution h, nh_content_type h, nh_crypto_type h, nh_kaek_index h]
     @ le64 (nh_nca_size h) @ le64 (nh_title_id h) @ nh_reserved_0x218 h @ le32 (nh_sdk_version h)
     @ nh_crypto_type2 h # nh_reserved_0x221 h @ nh_rights_id h
     @ enc_table enc_nca_section_entry (nh_section_entries h)
     @ enc_table (\<lambda>x. x) (nh_section_hashes h) @ enc_table (\<lambda>x. x) (nh_encrypted_keys h)
     @ nh_reserved_0x340 h @ enc_table enc_nca_fs_header (nh_fs_headers h)"

definition dec_nca_header :: "bytes \<Rightarrow> nca_header" where
  "dec_nca_header bs =
     \<lparr>nh_fixed_key_sig = sub_bytes bs 0 0x100, nh_npdm_key_sig = sub_bytes bs 0x100 0x100,
      nh_magic = rd32 bs 0x200, nh_distribution = rd8 bs 0x204, nh_content_type = rd8 bs 0x205,
      nh_crypto_type = rd8 bs 0x206, nh_kaek_index = rd8 bs 0x207, nh_nca_size = rd64 bs 0x208,
      nh_title_id = rd64 bs 0x210, nh_reserved_0x218 = sub_bytes bs 0x218 4,
      nh_sdk_version = rd32 bs 0x21C, nh_crypto_type2 = rd8 bs 0x220,
      nh_reserved_0x221 = sub_bytes bs 0x221 0xF, nh_rights_id = sub_bytes bs 0x230 0x10,
      nh_section_entries = dec_table dec_nca_section_entry 0x10 4 (drop 0x240 bs),
      nh_section_hashes = dec_table (take 0x20) 0x20 4 (drop 0x280 bs),
      nh_encrypted_keys = dec_table (take 0x10) 0x10 4 (drop 0x300 bs),
      nh_reserved_0x340 = sub_bytes bs 0x340 0xC0,
      nh_fs_headers = dec_table dec_nca_fs_header 0x200 4 (drop 0x400 bs)\<rparr>"

definition nca_header_wf :: "nca_header \<Rightarrow> bool" where
  "nca_header_wf h \<longleftrightarrow>
     length (nh_fixed_key_sig h) = 0x100 \<and> length (nh_npdm_key_sig h) = 0x100
     \<and> length (nh_reserved_0x218 h) = 4 \<and> length (nh_reserved_0x221 h) = 0xF
     \<and> length (nh_rights_id h) = 0x10 \<and> length (nh_reserved_0x340 h) = 0xC0
     \<and> length (nh_section_entries h) = 4 \<and> (\<forall>e\<in>set (nh_section_entries h). length (ns_reserved e) = 8)
     \<and> length (nh_section_hashes h) = 4 \<and> (\<forall>x\<in>set (nh_section_hashes h). length x = 0x20)
     \<and> length (nh_encrypted_keys h) = 4 \<and> (\<forall>x\<in>set (nh_encrypted_keys h). length x = 0x10)
     \<and> length (nh_fs_headers h) = 4 \<and> (\<forall>f\<in>set (nh_fs_headers h). nca_fs_header_wf f)"

interpretation nca_header: layout enc_nca_header dec_nca_header "0xC00" nca_header_wf
proof unfold_locales
  fix r rest assume wf: "nca_header_wf r"
  note len = nca_section_entry.enc_table_length [of "nh_section_entries r"]
    array_32.enc_table_length [of "nh_section_hashes r"] array_16.enc_table_length [of "nh_encrypted_keys r"]
    nca_fs_header.enc_table_length [of "nh_fs_headers r"]
  show "length (enc_nca_header r) = 0xC00"
    using wf len by (simp add: enc_nca_header_def nca_header_wf_def)
  have L: "length (nh_fixed_key_sig r) = 0x100" "length (nh_npdm_key_sig r) = 0x100"
    "length (nh_reserved_0x218 r) = 4" "length (nh_reserved_0x221 r) = 0xF" "length (nh_rights_id r) = 0x10"
    "length (nh_reserved_0x340 r) = 0xC0"
    "length (enc_table enc_nca_section_entry (nh_section_entries r)) = 0x40"
    "length (enc_table (\<lambda>x. x) (nh_section_hashes r)) = 0x80"
    "length (enc_table (\<lambda>x. x) (nh_encrypted_keys r)) = 0x40"
    using wf len by (simp_all add: nca_header_wf_def)
  have n: "length (nh_section_entries r) = 4" "length (nh_section_hashes r) = 4"
    "length (nh_encrypted_keys r) = 4" "length (nh_fs_headers r) = 4"
    using wf by (simp_all add: nca_header_wf_def)
  have all: "\<forall>e\<in>set (nh_section_entries r). length (ns_reserved e) = 8"
    "\<forall>x\<in>set (nh_section_hashes r). length x = 0x20" "\<forall>x\<in>set (nh_encrypted_keys r). length x = 0x10"
    "\<forall>f\<in>set (nh_fs_headers r). nca_fs_header_wf f"
    using wf unfolding nca_header_wf_def by blast+
  have T: "dec_table dec_nca_section_entry 0x10 4 (enc_table enc_nca_section_entry (nh_section_entries r) @ xs) = nh_section_entries r"
    "dec_table (take 0x20) 0x20 4 (enc_table (\<lambda>x. x) (nh_section_hashes r) @ xs) = nh_section_hashes r"
    "dec_table (take 0x10) 0x10 4 (enc_table (\<lambda>x. x) (nh_encrypted_keys r) @ xs) = nh_encrypted_keys r"
    "dec_table dec_nca_fs_header 0x200 4 (enc_table enc_nca_fs_header (nh_fs_headers r) @ xs) = nh_fs_headers r" for xs
    by (rule nca_section_entry.dec_enc_table [of "nh_section_entries r", unfolded n(1), OF all(1)]
        array_32.dec_enc_table [of "nh_section_hashes r", unfolded n(2), OF all(2)]
        array_16.dec_enc_table [of "nh_encrypted_keys r", unfolded n(3), OF all(3)]
        nca_fs_header.dec_enc_table [of "nh_fs_headers r", unfolded n(4), OF all(4)])+
  show "dec_nca_header (enc_nca_header r @ rest) = r"
    unfolding dec_nca_header_def enc_nca_header_def append_assoc append_Cons append_Nil
    by (simp add: L T field_simps_le drop_skip del: drop_append)
next
  fix bs :: bytes assume len: "0xC00 \<le> length bs"
  have w: "\<forall>e\<in>set (dec_table dec_nca_section_entry 0x10 4 (drop 0x240 bs)). length (ns_reserved e) = 8"
    "\<forall>x\<in>set (dec_table (take 0x20) 0x20 4 (drop 0x280 bs)). length x = 0x20"
    "\<forall>x\<in>set (dec_table (take 0x10) 0x10 4 (drop 0x300 bs)). length x = 0x10"
    "\<forall>f\<in>set (dec_table dec_nca_fs_header 0x200 4 (drop 0x400 bs)). nca_fs_header_wf f"
    by (rule nca_section_entry.dec_table_wf array_32.dec_table_wf array_16.dec_table_wf
        nca_fs_header.dec_table_wf; use len in simp)+
  show "nca_header_wf (dec_nca_header bs)"
    using w unfolding nca_header_wf_def dec_nca_header_def nca_header.simps
    by (intro conjI) (use len in \<open>simp_all only: length_dec_table length_sub_bytes\<close>)
  have t: "enc_table enc_nca_section_entry (dec_table dec_nca_section_entry 0x10 4 (drop 0x240 bs)) = sub_bytes bs 0x240 0x40"
    "enc_table (\<lambda>x. x) (dec_table (take 0x20) 0x20 4 (drop 0x280 bs)) = sub_bytes bs 0x280 0x80"
    "enc_table (\<lambda>x. x) (dec_table (take 0x10) 0x10 4 (drop 0x300 bs)) = sub_bytes bs 0x300 0x40"
    "enc_table enc_nca_fs_header (dec_table dec_nca_fs_header 0x200 4 (drop 0x400 bs)) = sub_bytes bs 0x400 0x800"
    unfolding sub_bytes_def
    by (subst nca_section_entry.enc_dec_table array_32.enc_dec_table array_16.enc_dec_table
        nca_fs_header.enc_dec_table; use len in simp)+
  from len show "enc_nca_header (dec_nca_header bs) = take 0xC00 bs"
    by (simp add: enc_nca_header_def dec_nca_header_def t field_simps_le field_join)
qed

end
