(* ===== verification/Nca_Hash.thy ===== *)
theory Nca_Hash
  imports Nca_Layout
begin

text \<open>
  The verification structures of \<^verbatim>\<open>src/write/nca/partition.rs\<close> and
  \<^verbatim>\<open>src/write/nca/ivfc.rs\<close>.  SHA-256 comes from a third-party crate and is a parameter
  \<open>sha\<close> of every definition; the only thing the code relies on is that a digest has 32 bytes
  (\<open>digest_size\<close>).
\<close>

text \<open>
  Two of the given inputs that differ and have one digest.  A digest function with a fixed output
  size always has collisions somewhere; what matters is that these two are at hand.
\<close>

definition clash :: "(bytes \<Rightarrow> bytes) \<Rightarrow> bytes list \<Rightarrow> bytes list \<Rightarrow> bool" where
  "clash sha xs ys \<longleftrightarrow> (\<exists>x\<in>set xs. \<exists>y\<in>set ys. x \<noteq> y \<and> sha x = sha y)"

lemma clashI: "x \<in> set xs \<Longrightarrow> y \<in> set ys \<Longrightarrow> x \<noteq> y \<Longrightarrow> sha x = sha y \<Longrightarrow> clash sha xs ys"
  by (auto simp: clash_def)

section \<open>Blocks\<close>

text \<open>\<^verbatim>\<open>slice::chunks\<close> for a positive size: the last block may be short.\<close>

function chunk_list :: "nat \<Rightarrow> 'x list \<Rightarrow> 'x list list" where
  "chunk_list n xs = (if n = 0 \<or> xs = [] then [] else take n xs # chunk_list n (drop n xs))"
  by pat_completeness auto
termination by (relation "measure (\<lambda>(n, xs). length xs)") (auto simp: length_greater_0_conv)

declare chunk_list.simps [simp del]

lemma chunk_list_Nil [simp]: "chunk_list n [] = []"
  by (subst chunk_list.simps) simp

lemma chunk_list_step: "0 < n \<Longrightarrow> xs \<noteq> [] \<Longrightarrow> chunk_list n xs = take n xs # chunk_list n (drop n xs)"
  by (subst chunk_list.simps) simp

lemma concat_chunk_list: "0 < n \<Longrightarrow> concat (chunk_list n xs) = xs"
proof (induction n xs rule: chunk_list.induct)
  case (1 n xs)
  then show ?case by (cases "xs = []") (simp_all add: chunk_list_step)
qed

lemma chunk_list_same_shape:
  "0 < n \<Longrightarrow> length xs = length ys \<Longrightarrow> length (chunk_list n xs) = length (chunk_list n ys)"
proof (induction n xs arbitrary: ys rule: chunk_list.induct)
  case (1 n xs)
  show ?case
  proof (cases "xs = []")
    case False
    then have "ys \<noteq> []" using "1.prems" by auto
    with False "1.IH" [of "drop n ys"] "1.prems" show ?thesis by (simp add: chunk_list_step)
  qed (use "1.prems" in simp)
qed

lemma length_chunk_list: "0 < n \<Longrightarrow> length (chunk_list n xs) = div_ceil (length xs) n"
proof (induction n xs rule: chunk_list.induct)
  case (1 n xs)
  show ?case
  proof (cases "xs = []")
    case False
    then have IH: "length (chunk_list n (drop n xs)) = (length xs - n + n - 1) div n"
      using "1.IH" [OF _ "1.prems"] "1.prems" unfolding div_ceil_def length_drop by blast
    have "(length xs + n - 1) div n = Suc ((length xs - n + n - 1) div n)"
    proof (cases "n \<le> length xs")
      case True
      then have e: "length xs + n - 1 = (length xs - n + n - 1) + n" using "1.prems" by simp
      show ?thesis by (subst e) (use "1.prems" in \<open>simp only: div_add_self2\<close>)
    next
      case short: False
      then have "(length xs - n + n - 1) div n = 0" "(length xs - 1) div n = 0"
        using "1.prems" by simp_all
      moreover have e: "length xs + n - 1 = (length xs - 1) + n"
        using False by (simp add: Suc_le_eq)
      ultimately show ?thesis
        by (subst e) (use "1.prems" in \<open>simp only: div_add_self2\<close>)
    qed
    with IH False "1.prems" show ?thesis by (simp add: chunk_list_step div_ceil_def)
  qed (simp add: div_ceil_def "1.prems")
qed

text \<open>The digests of the blocks, one after the other.\<close>

definition block_digests :: "(bytes \<Rightarrow> bytes) \<Rightarrow> nat \<Rightarrow> bytes \<Rightarrow> bytes" where
  "block_digests sha n xs = concat (map sha (chunk_list n xs))"

lemma length_block_digests:
  assumes "digest_size sha" "0 < n"
  shows "length (block_digests sha n xs) = 0x20 * div_ceil (length xs) n"
proof -
  have "length (concat (map sha cs)) = 0x20 * length cs" for cs
    using assms(1) by (induction cs) (simp_all add: digest_size_def)
  then show ?thesis by (simp add: block_digests_def length_chunk_list assms(2))
qed

text \<open>Equal digests of inputs of equal length mean equal inputs, or two blocks that clash.\<close>

lemma block_digests_eq:
  assumes "digest_size sha" "0 < n" "length xs = length ys"
    and "block_digests sha n xs = block_digests sha n ys"
  shows "xs = ys \<or> clash sha (chunk_list n xs) (chunk_list n ys)"
proof -
  let ?cx = "chunk_list n xs" and ?cy = "chunk_list n ys"
  have len: "length ?cx = length ?cy" by (rule chunk_list_same_shape [OF assms(2,3)])
  have "map sha ?cx = map sha ?cy"
    using assms(4) unfolding block_digests_def
    by (rule concat_injective) (use len assms(1) in \<open>auto simp: digest_size_def in_set_zip\<close>)
  then show ?thesis
  proof (cases "?cx = ?cy")
    case True
    then show ?thesis using concat_chunk_list [OF assms(2)] by metis
  next
    case False
    then obtain i where "i < length ?cx" "?cx ! i \<noteq> ?cy ! i" using len by (metis nth_equalityI)
    moreover from this have "sha (?cx ! i) = sha (?cy ! i)"
      using \<open>map sha ?cx = map sha ?cy\<close> len by (metis nth_map)
    ultimately show ?thesis using len by (metis clashI nth_mem)
  qed
qed

section \<open>The hash table of a PFS0 section\<close>

text \<open>
  \<^verbatim>\<open>partition::build\<close>: the section's bytes and its superblock.  A block size of zero
  divides by zero in the capacity computation, which is a panic.
\<close>

definition partition_build ::
  "(bytes \<Rightarrow> bytes) \<Rightarrow> bytes \<Rightarrow> u32 \<Rightarrow> (bytes \<times> pfs0_superblock, 'e) result" where
  "partition_build sha archive block_size =
     (if block_size = 0 then Panic
      else
        let hash_table = block_digests sha (unat block_size) archive;
            hash_table_size = length hash_table;
            master_hash = sha hash_table;
            padding = MEDIA_UNIT_SIZE - hash_table_size mod MEDIA_UNIT_SIZE;
            hash_table = hash_table @ zeros padding;
            archive_offset = length hash_table;
            superblock =
              \<lparr>ps_master_hash = master_hash, ps_block_size = block_size, ps_layer_count = 2,
               ps_hash_table_offset = 0, ps_hash_table_size = word_of_nat hash_table_size,
               ps_pfs0_offset = word_of_nat archive_offset, ps_pfs0_size = word_of_nat (length archive),
               ps_reserved = zeros 0xF0\<rparr>
        in Ok (hash_table @ archive, superblock))"

text \<open>What a console checks of a PFS0 section before it trusts the archive in it.\<close>

definition partition_verifies :: "(bytes \<Rightarrow> bytes) \<Rightarrow> pfs0_superblock \<Rightarrow> bytes \<Rightarrow> bool" where
  "partition_verifies sha sb bs =
     (let tab = sub_bytes bs (unat (ps_hash_table_offset sb)) (unat (ps_hash_table_size sb));
          archive = sub_bytes bs (unat (ps_pfs0_offset sb)) (unat (ps_pfs0_size sb))
      in 0 < unat (ps_block_size sb)
         \<and> unat (ps_pfs0_offset sb) + unat (ps_pfs0_size sb) \<le> length bs
         \<and> sha tab = ps_master_hash sb
         \<and> tab = block_digests sha (unat (ps_block_size sb)) archive)"

definition partition_archive :: "pfs0_superblock \<Rightarrow> bytes \<Rightarrow> bytes" where
  "partition_archive sb bs = sub_bytes bs (unat (ps_pfs0_offset sb)) (unat (ps_pfs0_size sb))"

text \<open>The section a build makes, in closed form.\<close>

lemma partition_build_ok:
  assumes "digest_size sha" "bsz \<noteq> 0" "length archive \<le> 2 ^ 58"
  shows "\<exists>pad sb. (partition_build sha archive bsz :: (bytes \<times> pfs0_superblock, 'e) result)
      = Ok (block_digests sha (unat bsz) archive @ zeros pad @ archive, sb)
    \<and> 0 < pad \<and> pad \<le> MEDIA_UNIT_SIZE
    \<and> unat (ps_block_size sb) = unat bsz
    \<and> unat (ps_hash_table_offset sb) = 0
    \<and> unat (ps_hash_table_size sb) = length (block_digests sha (unat bsz) archive)
    \<and> unat (ps_pfs0_offset sb) = length (block_digests sha (unat bsz) archive) + pad
    \<and> MEDIA_UNIT_SIZE dvd unat (ps_pfs0_offset sb)
    \<and> unat (ps_pfs0_size sb) = length archive
    \<and> ps_master_hash sb = sha (block_digests sha (unat bsz) archive)
    \<and> length (ps_reserved sb) = 0xF0"
proof -
  let ?t = "block_digests sha (unat bsz) archive"
  let ?pad = "MEDIA_UNIT_SIZE - length ?t mod MEDIA_UNIT_SIZE"
  let ?sb = "\<lparr>ps_master_hash = sha ?t, ps_block_size = bsz, ps_layer_count = 2,
               ps_hash_table_offset = 0, ps_hash_table_size = word_of_nat (length ?t),
               ps_pfs0_offset = word_of_nat (length ?t + ?pad), ps_pfs0_size = word_of_nat (length archive),
               ps_reserved = zeros 0xF0\<rparr>"
  have pos: "0 < unat bsz" using assms(2) by (simp add: unat_gt_0)
  have "length archive \<le> length archive * unat bsz" using pos by simp
  then have "length archive + unat bsz - 1 < (length archive + 1) * unat bsz"
    using pos unfolding add_mult_distrib by linarith
  then have "div_ceil (length archive) (unat bsz) < length archive + 1"
    using pos by (simp only: div_ceil_def div_less_iff_less_mult)
  then have "div_ceil (length archive) (unat bsz) \<le> length archive" by simp
  then have "length ?t \<le> 2 ^ 63"
    using assms(3) by (simp add: length_block_digests [OF assms(1) pos])
  moreover have pad: "?pad \<le> 0x200" "0 < ?pad" by (simp_all add: MEDIA_UNIT_SIZE_def)
  moreover have "a < 2 ^ 64 \<and> a + p < 2 ^ 64 \<and> c < 2 ^ 64" if "a \<le> 2 ^ 63" "p \<le> 0x200" "c \<le> 2 ^ 58" for a p c :: nat
    using that by simp
  ultimately have "length ?t < 2 ^ 64 \<and> length ?t + ?pad < 2 ^ 64 \<and> length archive < 2 ^ 64"
    using assms(3) by blast
  then have u: "unat (word_of_nat (length ?t) :: u64) = length ?t"
    "unat (word_of_nat (length ?t + ?pad) :: u64) = length ?t + ?pad"
    "unat (word_of_nat (length archive) :: u64) = length archive"
    by (blast intro: unat_u64_of_nat)+
  have "MEDIA_UNIT_SIZE dvd length ?t + ?pad"
  proof -
    have "n + (m - n mod m) = (n div m + 1) * m" if "0 < m" for n m :: nat
    proof -
      have "n = n div m * m + n mod m" "n mod m < m" using that by simp_all
      then have "n + (m - n mod m) = n div m * m + m" by linarith
      then show ?thesis by simp
    qed
    from this [of MEDIA_UNIT_SIZE "length ?t"]
    have "length ?t + ?pad = (length ?t div MEDIA_UNIT_SIZE + 1) * MEDIA_UNIT_SIZE"
      by (simp add: MEDIA_UNIT_SIZE_def)
    then show ?thesis by simp
  qed
  moreover have "(partition_build sha archive bsz :: (bytes \<times> pfs0_superblock, 'e) result) = Ok (?t @ zeros ?pad @ archive, ?sb)"
    using assms(2) by (simp add: partition_build_def Let_def)
  ultimately show ?thesis
    using u pad(2) by (intro exI [of _ ?pad] exI [of _ ?sb]) (simp add: MEDIA_UNIT_SIZE_def)
qed

lemma partition_verifies_built:
  assumes "digest_size sha" "bsz \<noteq> 0" "length archive \<le> 2 ^ 58"
    and "(partition_build sha archive bsz :: (bytes \<times> pfs0_superblock, 'e) result) = Ok (bs, sb)"
  shows "partition_verifies sha sb (bs @ tail)" "partition_archive sb (bs @ tail) = archive"
proof -
  obtain pad where "bs = block_digests sha (unat bsz) archive @ zeros pad @ archive"
    "unat (ps_block_size sb) = unat bsz" "unat (ps_hash_table_offset sb) = 0"
    "unat (ps_hash_table_size sb) = length (block_digests sha (unat bsz) archive)"
    "unat (ps_pfs0_offset sb) = length (block_digests sha (unat bsz) archive) + pad"
    "unat (ps_pfs0_size sb) = length archive"
    "ps_master_hash sb = sha (block_digests sha (unat bsz) archive)"
    using partition_build_ok [OF assms(1-3), where 'e = 'e] assms(4) by auto
  moreover have "0 < unat bsz" using assms(2) by (simp add: unat_gt_0)
  ultimately show "partition_verifies sha sb (bs @ tail)" "partition_archive sb (bs @ tail) = archive"
    by (simp_all add: partition_verifies_def partition_archive_def Let_def sub_bytes_def)
qed

text \<open>What verification hashes, and the commitment: another archive that verifies is a clash.\<close>

definition partition_inputs :: "pfs0_superblock \<Rightarrow> bytes \<Rightarrow> bytes list" where
  "partition_inputs sb bs =
     sub_bytes bs (unat (ps_hash_table_offset sb)) (unat (ps_hash_table_size sb))
     # chunk_list (unat (ps_block_size sb)) (partition_archive sb bs)"

lemma partition_binding:
  assumes "digest_size sha" "partition_verifies sha sb bs" "partition_verifies sha sb bs'"
  shows "partition_archive sb bs = partition_archive sb bs'
    \<or> clash sha (partition_inputs sb bs) (partition_inputs sb bs')"
proof (cases "block_digests sha (unat (ps_block_size sb)) (partition_archive sb bs)
    = block_digests sha (unat (ps_block_size sb)) (partition_archive sb bs')")
  case True
  have "length (partition_archive sb bs) = length (partition_archive sb bs')"
    using assms(2,3) by (simp add: partition_verifies_def partition_archive_def Let_def length_sub_bytes)
  moreover have "0 < unat (ps_block_size sb)" using assms(2) by (simp add: partition_verifies_def Let_def)
  ultimately have "partition_archive sb bs = partition_archive sb bs'
      \<or> clash sha (chunk_list (unat (ps_block_size sb)) (partition_archive sb bs))
          (chunk_list (unat (ps_block_size sb)) (partition_archive sb bs'))"
    using block_digests_eq [OF assms(1) _ _ True] by blast
  then show ?thesis by (auto simp: partition_inputs_def clash_def)
next
  case False
  let ?t = "\<lambda>cs. sub_bytes cs (unat (ps_hash_table_offset sb)) (unat (ps_hash_table_size sb))"
  have "?t bs \<noteq> ?t bs'" "sha (?t bs) = sha (?t bs')"
    using False assms(2,3) unfolding partition_verifies_def partition_archive_def Let_def by metis+
  then show ?thesis by (auto simp: partition_inputs_def intro: clashI)
qed

section \<open>The IVFC tree of a RomFS section\<close>

definition IVFC_BLOCK_SIZE :: nat where "IVFC_BLOCK_SIZE = 0x4000"
definition IVFC_BLOCK_SIZE_LOG2 :: u32 where "IVFC_BLOCK_SIZE_LOG2 = 14"

definition hash_level :: "(bytes \<Rightarrow> bytes) \<Rightarrow> bytes \<Rightarrow> bytes" where
  "hash_level sha level =
     (let hashes = block_digests sha IVFC_BLOCK_SIZE level;
          padding = IVFC_BLOCK_SIZE - length hashes mod IVFC_BLOCK_SIZE
      in hashes @ zeros padding)"

text \<open>The loop that derives the levels, from the image down, and the level headers.\<close>

function ivfc_grow :: "(bytes \<Rightarrow> bytes) \<Rightarrow> bytes list \<Rightarrow> bytes \<Rightarrow> bytes list" where
  "ivfc_grow sha levels level_above =
     (if length levels < IVFC_MAX_LEVELS - 1
      then ivfc_grow sha (levels @ [level_above]) (hash_level sha level_above)
      else levels @ [level_above])"
  by pat_completeness auto
termination by (relation "measure (\<lambda>(sha, levels, above). IVFC_MAX_LEVELS - length levels)") auto

declare ivfc_grow.simps [simp del]

fun ivfc_headers :: "nat \<Rightarrow> bytes list \<Rightarrow> ivfc_level_header list" where
  "ivfc_headers logical_offset [] = []"
| "ivfc_headers logical_offset (level # levels) =
     \<lparr>il_logical_offset = word_of_nat logical_offset, il_hash_data_size = word_of_nat (length level),
      il_block_size = IVFC_BLOCK_SIZE_LOG2, il_reserved = 0\<rparr>
     # ivfc_headers (logical_offset + length level) levels"

record ivfc_tree =
  it_data :: bytes
  it_level_headers :: "ivfc_level_header list"
  it_master_hash :: bytes

definition ivfc_build :: "(bytes \<Rightarrow> bytes) \<Rightarrow> bytes \<Rightarrow> ivfc_tree" where
  "ivfc_build sha romfs =
     (let levels = rev (ivfc_grow sha [] romfs)
      in \<lparr>it_data = concat levels, it_level_headers = ivfc_headers 0 levels,
          it_master_hash = sha (levels ! 0)\<rparr>)"

text \<open>
  What a console checks of the tree: the master hash covers level 0, and the digests at the head
  of each level are those of the blocks of the next one.
\<close>

definition ivfc_level :: "bytes \<Rightarrow> ivfc_level_header \<Rightarrow> bytes" where
  "ivfc_level bs h = sub_bytes bs (unat (il_logical_offset h)) (unat (il_hash_data_size h))"

fun ivfc_chain :: "(bytes \<Rightarrow> bytes) \<Rightarrow> (nat \<times> bytes) list \<Rightarrow> bool" where
  "ivfc_chain sha ((_, level) # (n, below) # rest) \<longleftrightarrow>
     (let d = block_digests sha n below in take (length d) level = d) \<and> ivfc_chain sha ((n, below) # rest)"
| "ivfc_chain sha _ \<longleftrightarrow> True"

definition ivfc_levels :: "bytes \<Rightarrow> ivfc_level_header list \<Rightarrow> (nat \<times> bytes) list" where
  "ivfc_levels bs hs = map (\<lambda>h. (2 ^ unat (il_block_size h), ivfc_level bs h)) hs"

definition ivfc_verifies :: "(bytes \<Rightarrow> bytes) \<Rightarrow> ivfc_header \<Rightarrow> bytes \<Rightarrow> bool" where
  "ivfc_verifies sha iv bs =
     (iv_level_headers iv \<noteq> []
      \<and> list_all (\<lambda>h. unat (il_logical_offset h) + unat (il_hash_data_size h) \<le> length bs) (iv_level_headers iv)
      \<and> sha (ivfc_level bs (hd (iv_level_headers iv))) = iv_master_hash iv
      \<and> ivfc_chain sha (ivfc_levels bs (iv_level_headers iv)))"

definition ivfc_image :: "ivfc_header \<Rightarrow> bytes \<Rightarrow> bytes" where
  "ivfc_image iv bs = ivfc_level bs (last (iv_level_headers iv))"

text \<open>The six levels a build makes.\<close>

definition ivfc_tree_levels :: "(bytes \<Rightarrow> bytes) \<Rightarrow> bytes \<Rightarrow> bytes list" where
  "ivfc_tree_levels sha x =
     (let l4 = hash_level sha x; l3 = hash_level sha l4; l2 = hash_level sha l3;
          l1 = hash_level sha l2; l0 = hash_level sha l1
      in [l0, l1, l2, l3, l4, x])"

lemma ivfc_grow_levels: "rev (ivfc_grow sha [] x) = ivfc_tree_levels sha x"
  by (simp add: ivfc_grow.simps [of sha] ivfc_tree_levels_def Let_def IVFC_MAX_LEVELS_def)

lemma length_hash_level:
  assumes "digest_size sha"
  shows "length (hash_level sha l) \<le> length l + 0x8000"
proof -
  have "div_ceil (length l) 0x4000 * 0x4000 \<le> length l + 0x4000"
    unfolding div_ceil_def using div_mult_mod_eq [of "length l + 0x4000 - 1" "0x4000 :: nat"] by linarith
  moreover have "length (block_digests sha 0x4000 l) = 0x20 * div_ceil (length l) 0x4000"
    by (rule length_block_digests [OF assms]) simp
  ultimately show ?thesis by (simp add: hash_level_def Let_def IVFC_BLOCK_SIZE_def)
qed

lemma length_ivfc_headers [simp]: "length (ivfc_headers off ls) = length ls"
  by (induction ls arbitrary: off) simp_all

text \<open>Headers locate the levels they were computed from.\<close>

lemma ivfc_levels_built:
  assumes "off = length pre" "off + length (concat ls) < 2 ^ 64"
  shows "ivfc_levels (pre @ concat ls @ tail) (ivfc_headers off ls) = map (Pair IVFC_BLOCK_SIZE) ls
    \<and> list_all (\<lambda>h. unat (il_logical_offset h) + unat (il_hash_data_size h) \<le> off + length (concat ls))
        (ivfc_headers off ls)"
  using assms
proof (induction ls arbitrary: off pre)
  case Nil
  then show ?case by (simp add: ivfc_levels_def)
next
  case (Cons l ls)
  let ?bs = "pre @ l @ concat ls @ tail"
  have u: "unat (word_of_nat off :: u64) = off" "unat (word_of_nat (length l) :: u64) = length l"
    using Cons.prems by (simp_all add: unat_of_nat)
  have b: "unat IVFC_BLOCK_SIZE_LOG2 = 14" by (simp add: IVFC_BLOCK_SIZE_LOG2_def)
  have "ivfc_levels ((pre @ l) @ concat ls @ tail) (ivfc_headers (off + length l) ls) = map (Pair IVFC_BLOCK_SIZE) ls
    \<and> list_all (\<lambda>h. unat (il_logical_offset h) + unat (il_hash_data_size h)
          \<le> off + length l + length (concat ls)) (ivfc_headers (off + length l) ls)"
    by (rule Cons.IH) (use Cons.prems in simp_all)
  moreover have "sub_bytes ?bs off (length l) = l"
    using Cons.prems(1) by (simp add: sub_bytes_def)
  ultimately show ?case
    using u b by (simp add: ivfc_levels_def ivfc_level_def IVFC_BLOCK_SIZE_def add.assoc)
qed

lemma ivfc_chain_tree: "ivfc_chain sha (map (Pair IVFC_BLOCK_SIZE) (ivfc_tree_levels sha x))"
proof -
  have "take (length (block_digests sha IVFC_BLOCK_SIZE l)) (hash_level sha l) = block_digests sha IVFC_BLOCK_SIZE l" for l
    by (simp add: hash_level_def Let_def)
  then show ?thesis by (simp add: ivfc_tree_levels_def Let_def)
qed

lemma length_ivfc_tree:
  assumes "digest_size sha" "length x \<le> 2 ^ 58"
  shows "length (concat (ivfc_tree_levels sha x)) < 2 ^ 61"
proof -
  note h = length_hash_level [OF assms(1)]
  define l4 l3 l2 l1 l0 where d: "l4 = hash_level sha x" "l3 = hash_level sha l4" "l2 = hash_level sha l3"
    "l1 = hash_level sha l2" "l0 = hash_level sha l1"
  have "length l4 \<le> length x + 0x8000" "length l3 \<le> length l4 + 0x8000" "length l2 \<le> length l3 + 0x8000"
    "length l1 \<le> length l2 + 0x8000" "length l0 \<le> length l1 + 0x8000"
    unfolding d by (rule h)+
  moreover have "ivfc_tree_levels sha x = [l0, l1, l2, l3, l4, x]"
    by (simp add: ivfc_tree_levels_def Let_def d)
  ultimately show ?thesis using assms(2) by simp
qed

text \<open>The tree a build makes verifies the image it was made from, whatever follows it.\<close>

lemma ivfc_built:
  assumes "digest_size sha" "length x \<le> 2 ^ 58"
    and "iv_level_headers iv = it_level_headers (ivfc_build sha x)"
    and "iv_master_hash iv = it_master_hash (ivfc_build sha x)"
  shows "ivfc_verifies sha iv (it_data (ivfc_build sha x) @ tail)"
    and "ivfc_image iv (it_data (ivfc_build sha x) @ tail) = x"
    and "length (iv_level_headers iv) = 6"
    and "unat (il_logical_offset (iv_level_headers iv ! 5)) + unat (il_hash_data_size (iv_level_headers iv ! 5))
      \<le> length (it_data (ivfc_build sha x))"
    and "iv_level_headers iv ! 5 = last (iv_level_headers iv)"
proof -
  let ?ls = "ivfc_tree_levels sha x" and ?hs = "iv_level_headers iv"
  let ?bs = "it_data (ivfc_build sha x) @ tail"
  have hs: "?hs = ivfc_headers 0 ?ls" and m: "iv_master_hash iv = sha (?ls ! 0)"
    and bs: "it_data (ivfc_build sha x) = concat ?ls"
    using assms(3,4) by (simp_all add: ivfc_build_def ivfc_grow_levels Let_def)
  have built: "ivfc_levels ?bs ?hs = map (Pair IVFC_BLOCK_SIZE) ?ls
    \<and> list_all (\<lambda>h. unat (il_logical_offset h) + unat (il_hash_data_size h) \<le> 0 + length (concat ?ls)) ?hs"
    using ivfc_levels_built [of 0 "[]" ?ls tail] length_ivfc_tree [OF assms(1,2)] by (simp add: hs bs)
  have six: "length ?ls = 6" by (simp add: ivfc_tree_levels_def Let_def)
  then show len: "length ?hs = 6" by (simp add: hs)
  then have ne: "?hs \<noteq> []" by auto
  have lv: "i < 6 \<Longrightarrow> ivfc_level ?bs (?hs ! i) = ?ls ! i" for i
    using arg_cong [OF conjunct1 [OF built], of "\<lambda>ps. snd (ps ! i)"] len six by (simp add: ivfc_levels_def)
  have all: "h \<in> set ?hs \<Longrightarrow> unat (il_logical_offset h) + unat (il_hash_data_size h) \<le> length (concat ?ls)" for h
    using conjunct2 [OF built] by (simp add: list_all_iff)
  have "ivfc_chain sha (ivfc_levels ?bs ?hs)"
    using built ivfc_chain_tree [of sha x] by simp
  then show "ivfc_verifies sha iv ?bs"
    using lv [of 0] all ne by (auto simp: ivfc_verifies_def m bs hd_conv_nth list_all_iff intro: trans_le_add1)
  show l5: "?hs ! 5 = last ?hs" using ne len by (simp add: last_conv_nth)
  show "ivfc_image iv ?bs = x"
    using lv [of 5] l5 by (simp add: ivfc_image_def ivfc_tree_levels_def Let_def)
  show "unat (il_logical_offset (?hs ! 5)) + unat (il_hash_data_size (?hs ! 5)) \<le> length (it_data (ivfc_build sha x))"
    using all [of "?hs ! 5"] len by (simp add: bs)
qed

text \<open>The master hash commits to the image: another one that verifies is a clash.\<close>

definition chain_inputs :: "(nat \<times> bytes) list \<Rightarrow> bytes list" where
  "chain_inputs xs = concat (map (\<lambda>(n, level). chunk_list n level) (tl xs))"

definition ivfc_inputs :: "ivfc_header \<Rightarrow> bytes \<Rightarrow> bytes list" where
  "ivfc_inputs iv bs =
     ivfc_level bs (hd (iv_level_headers iv)) # chain_inputs (ivfc_levels bs (iv_level_headers iv))"

lemma block_digests_prefix_eq:
  assumes "digest_size sha" "0 < n" "length x = length y"
    and "take (length (block_digests sha n x)) l = block_digests sha n x"
    and "take (length (block_digests sha n y)) l = block_digests sha n y"
  shows "x = y \<or> clash sha (chunk_list n x) (chunk_list n y)"
proof -
  have "length (block_digests sha n x) = length (block_digests sha n y)"
    by (simp add: length_block_digests [OF assms(1,2)] assms(3))
  with assms(4,5) have "block_digests sha n x = block_digests sha n y" by metis
  then show ?thesis by (rule block_digests_eq [OF assms(1-3)])
qed

lemma ivfc_chain_binding:
  assumes "digest_size sha" "list_all2 (\<lambda>(n, x) (m, y). n = m \<and> 0 < n \<and> length x = length y) xs ys"
    and "ivfc_chain sha xs" "ivfc_chain sha ys" "xs \<noteq> []" "snd (hd xs) = snd (hd ys)"
  shows "snd (last xs) = snd (last ys) \<or> clash sha (chain_inputs xs) (chain_inputs ys)"
  using assms
proof (induction sha xs arbitrary: ys rule: ivfc_chain.induct)
  case (1 sha n0 l0 n l rest)
  from "1.prems"(2) obtain n0' l0' l' rest' where ys: "ys = (n0', l0') # (n, l') # rest'"
    and n: "0 < n" "length l = length l'"
    and rest: "list_all2 (\<lambda>(n, x) (m, y). n = m \<and> 0 < n \<and> length x = length y) ((n, l) # rest) ((n, l') # rest')"
    by (auto simp: list_all2_Cons1)
  have tk: "take (length (block_digests sha n l)) l0 = block_digests sha n l"
    "take (length (block_digests sha n l')) l0 = block_digests sha n l'"
    and ch: "ivfc_chain sha ((n, l) # rest)" "ivfc_chain sha ((n, l') # rest')"
    using "1.prems"(3,4,6) by (simp_all add: ys Let_def)
  have "l = l' \<or> clash sha (chunk_list n l) (chunk_list n l')"
    by (rule block_digests_prefix_eq [OF "1.prems"(1) n tk])
  then show ?case
  proof
    assume "l = l'"
    then show ?thesis
      using "1.IH" [OF "1.prems"(1) rest ch] by (fastforce simp: ys chain_inputs_def clash_def)
  qed (auto simp: ys chain_inputs_def clash_def)
qed (auto simp: list_all2_Cons1)

lemma ivfc_binding:
  assumes "digest_size sha" "ivfc_verifies sha iv bs" "ivfc_verifies sha iv bs'"
  shows "ivfc_image iv bs = ivfc_image iv bs' \<or> clash sha (ivfc_inputs iv bs) (ivfc_inputs iv bs')"
proof -
  let ?hs = "iv_level_headers iv"
  have ne: "?hs \<noteq> []" using assms(2) by (simp add: ivfc_verifies_def)
  have hd: "snd (hd (ivfc_levels cs ?hs)) = ivfc_level cs (hd ?hs)" and
    last: "snd (last (ivfc_levels cs ?hs)) = ivfc_image iv cs" for cs
    using ne by (simp_all add: ivfc_levels_def ivfc_image_def hd_map last_map)
  show ?thesis
  proof (cases "ivfc_level bs (hd ?hs) = ivfc_level bs' (hd ?hs)")
    case True
    have "length (ivfc_level bs h) = length (ivfc_level bs' h)" if "h \<in> set ?hs" for h
      using assms(2,3) that by (simp add: ivfc_verifies_def ivfc_level_def list_all_iff length_sub_bytes)
    then have "list_all2 (\<lambda>(n, x) (m, y). n = m \<and> 0 < n \<and> length x = length y)
        (ivfc_levels bs ?hs) (ivfc_levels bs' ?hs)"
      by (simp add: ivfc_levels_def list.rel_map list.rel_refl_strong)
    from ivfc_chain_binding [OF assms(1) this] True ne assms(2,3)
    have "ivfc_image iv bs = ivfc_image iv bs'
        \<or> clash sha (chain_inputs (ivfc_levels bs ?hs)) (chain_inputs (ivfc_levels bs' ?hs))"
      unfolding hd last by (simp add: ivfc_verifies_def ivfc_levels_def)
    then show ?thesis by (auto simp: ivfc_inputs_def clash_def)
  next
    case False
    moreover have "sha (ivfc_level bs (hd ?hs)) = sha (ivfc_level bs' (hd ?hs))"
      using assms(2,3) by (simp add: ivfc_verifies_def)
    ultimately show ?thesis by (auto simp: ivfc_inputs_def intro: clashI)
  qed
qed

end
