(* ===== verification/Nca_Write.thy ===== *)
theory Nca_Write
  imports Nca_Hash
begin

text \<open>
  The NCA builder of \<^verbatim>\<open>src/write/nca.rs\<close>: key generations, the builder and its section
  slots, the layout of one section, and the assembled plaintext archive.  Media offsets, file
  offsets, and sizes are natural numbers; the builder checks them where it narrows them.
\<close>

section \<open>Key generations\<close>

type_synonym key_generation = u8

definition MAX_KEY_GENERATION :: u8 where "MAX_KEY_GENERATION = 32"
definition KEY_GENERATION_FIRST :: key_generation where "KEY_GENERATION_FIRST = 1"

datatype parse_key_generation_error = NotANumber | OutOfRange nat

definition key_generation_try_from :: "u8 \<Rightarrow> (key_generation, parse_key_generation_error) result" where
  "key_generation_try_from v =
     (if v = 0 \<or> v > MAX_KEY_GENERATION then Err (OutOfRange (unat v)) else Ok v)"

text \<open>
  \<^verbatim>\<open>str::parse::<u32>\<close> on the bytes of the string: an optional plus sign, then at least one
  digit, and no overflow at any digit.
\<close>

fun parse_digits :: "nat \<Rightarrow> bytes \<Rightarrow> nat option" where
  "parse_digits acc [] = Some acc"
| "parse_digits acc (b # bs) =
     (if 48 \<le> b \<and> b \<le> 57 \<and> acc * 10 + (unat b - 48) < 2 ^ 32
      then parse_digits (acc * 10 + (unat b - 48)) bs else None)"

definition parse_u32 :: "bytes \<Rightarrow> nat option" where
  "parse_u32 s =
     (let ds = (case s of [] \<Rightarrow> [] | b # r \<Rightarrow> if b = 43 then r else s)
      in if ds = [] then None else parse_digits 0 ds)"

definition key_generation_from_str :: "bytes \<Rightarrow> (key_generation, parse_key_generation_error) result" where
  "key_generation_from_str s =
     rbind (ok_or NotANumber (parse_u32 s)) (\<lambda>v.
     rbind (if v < 256 then Ok (word_of_nat v) else Err (OutOfRange v)) key_generation_try_from)"

text \<open>The \<^verbatim>\<open>Display\<close> form: the decimal digits.\<close>

fun decimal :: "nat \<Rightarrow> bytes" where
  "decimal n = (if n < 10 then [word_of_nat (48 + n)] else decimal (n div 10) @ [word_of_nat (48 + n mod 10)])"

declare decimal.simps [simp del]

definition key_generation_display :: "key_generation \<Rightarrow> bytes" where
  "key_generation_display g = decimal (unat g)"

definition split_key_generation :: "key_generation \<Rightarrow> u8 \<times> u8" where
  "split_key_generation g = (if g = 1 then (0, 0) else if g = 2 then (2, 0) else (2, g))"

lemma unat_decimal_digit: "d < 10 \<Longrightarrow> unat (word_of_nat (48 + d) :: u8) = 48 + d"
  by (simp add: unat_of_nat del: of_nat_add)

lemma decimal_digit: "d < 10 \<Longrightarrow> (48 :: u8) \<le> word_of_nat (48 + d) \<and> (word_of_nat (48 + d) :: u8) \<le> 57
    \<and> unat (word_of_nat (48 + d) :: u8) - 48 = d"
  using unat_decimal_digit [of d] by (simp add: word_le_nat_alt del: of_nat_add)

lemma parse_digits_append:
  "parse_digits acc (xs @ ys) = (case parse_digits acc xs of None \<Rightarrow> None | Some v \<Rightarrow> parse_digits v ys)"
  by (induction acc xs rule: parse_digits.induct) auto

lemma parse_digits_step: "d < 10 \<Longrightarrow> a * 10 + d < 2 ^ 32 \<Longrightarrow>
    parse_digits a [word_of_nat (48 + d)] = Some (a * 10 + d)"
  using decimal_digit [of d] by simp

lemma parse_decimal: "n < 2 ^ 32 \<Longrightarrow> parse_digits 0 (decimal n) = Some n"
proof (induction n rule: decimal.induct)
  case (1 n)
  show ?case
  proof (cases "n < 10")
    case True
    then show ?thesis
      using parse_digits_step [of n 0] by (subst decimal.simps) simp
  next
    case False
    have "parse_digits 0 (decimal (n div 10)) = Some (n div 10)"
      by (rule "1.IH" [OF False]) (use "1.prems" in simp)
    moreover have "parse_digits (n div 10) [word_of_nat (48 + n mod 10)] = Some (n div 10 * 10 + n mod 10)"
      by (rule parse_digits_step) (use "1.prems" in simp_all)
    ultimately show ?thesis
      using False by (subst decimal.simps) (simp only: if_False parse_digits_append option.case div_mult_mod_eq)
  qed
qed

lemma decimal_shape: "decimal n \<noteq> [] \<and> hd (decimal n) \<noteq> 43"
proof (induction n rule: decimal.induct)
  case (1 n)
  have "n < 10 \<Longrightarrow> unat (word_of_nat (48 + n) :: u8) \<noteq> 43" using unat_decimal_digit [of n] by linarith
  moreover have "unat (43 :: u8) = 43" by simp
  ultimately have "n < 10 \<Longrightarrow> (word_of_nat (48 + n) :: u8) \<noteq> 43" by metis
  with 1 show ?case by (subst (1 2) decimal.simps) auto
qed

lemma parse_u32_decimal: "n < 2 ^ 32 \<Longrightarrow> parse_u32 (decimal n) = Some n"
  using decimal_shape [of n] parse_decimal [of n]
  by (cases "decimal n") (simp_all add: parse_u32_def)

section \<open>The builder\<close>

datatype section_encryption = Section_None | Section_Ctr

datatype section_data = Section_RomFs bytes | Section_Partition bytes u32

record nca_write_section =
  ws_data :: section_data
  ws_encryption :: section_encryption

record nca_builder =
  nb_content_type :: nca_content_type
  nb_title_id :: u64
  nb_sdk_version :: u32
  nb_key_generation :: key_generation
  nb_key_area :: "bytes list"
  nb_sections :: "nca_write_section option list"

definition nca_new :: "nca_content_type \<Rightarrow> u64 \<Rightarrow> nca_builder" where
  "nca_new content_type title_id =
     \<lparr>nb_content_type = content_type, nb_title_id = title_id, nb_sdk_version = 0,
      nb_key_generation = KEY_GENERATION_FIRST, nb_key_area = replicate NCA_SECTION_COUNT (zeros 0x10),
      nb_sections = replicate NCA_SECTION_COUNT None\<rparr>"

definition nca_sdk_version :: "nca_builder \<Rightarrow> u32 \<Rightarrow> nca_builder" where
  "nca_sdk_version b v = b\<lparr>nb_sdk_version := v\<rparr>"

definition nca_set_key_generation :: "nca_builder \<Rightarrow> key_generation \<Rightarrow> nca_builder" where
  "nca_set_key_generation b g = b\<lparr>nb_key_generation := g\<rparr>"

datatype add_section_error = IndexOutOfRange nat | IndexOccupied nat

definition nca_key_area_key :: "nca_builder \<Rightarrow> nat \<Rightarrow> bytes \<Rightarrow> (nca_builder, add_section_error) result" where
  "nca_key_area_key b index key =
     (if index < length (nb_key_area b) then Ok (b\<lparr>nb_key_area := (nb_key_area b)[index := key]\<rparr>)
      else Err (IndexOutOfRange index))"

definition nca_add_section ::
  "nca_builder \<Rightarrow> nat \<Rightarrow> nca_write_section \<Rightarrow> (nca_builder, add_section_error) result" where
  "nca_add_section b index s =
     (if index < length (nb_sections b)
      then if nb_sections b ! index \<noteq> None then Err (IndexOccupied index)
           else Ok (b\<lparr>nb_sections := (nb_sections b)[index := Some s]\<rparr>)
      else Err (IndexOutOfRange index))"

definition nca_builder_inv :: "nca_builder \<Rightarrow> bool" where
  "nca_builder_inv b \<longleftrightarrow>
     length (nb_sections b) = 4 \<and> length (nb_key_area b) = 4
     \<and> (\<forall>k\<in>set (nb_key_area b). length k = 0x10)
     \<and> 0 < nb_key_generation b \<and> nb_key_generation b \<le> MAX_KEY_GENERATION"

lemma nca_builder_inv_new: "nca_builder_inv (nca_new t i)"
  by (simp add: nca_builder_inv_def nca_new_def nca_consts KEY_GENERATION_FIRST_def MAX_KEY_GENERATION_def)

lemma nca_builder_inv_set:
  "nca_builder_inv b \<Longrightarrow> nca_builder_inv (nca_sdk_version b v)"
  "nca_builder_inv b \<Longrightarrow> key_generation_try_from u = Ok g \<Longrightarrow> nca_builder_inv (nca_set_key_generation b g)"
  "nca_builder_inv b \<Longrightarrow> length k = 0x10 \<Longrightarrow> nca_key_area_key b i k = Ok b' \<Longrightarrow> nca_builder_inv b'"
  "nca_builder_inv b \<Longrightarrow> nca_add_section b i s = Ok b' \<Longrightarrow> nca_builder_inv b'"
  by (auto simp: nca_builder_inv_def nca_sdk_version_def nca_set_key_generation_def nca_key_area_key_def
      nca_add_section_def key_generation_try_from_def word_neq_0_conv split: if_splits
      dest!: set_update_subset_insert [THEN subsetD])

section \<open>Laying a section out\<close>

text \<open>\<^verbatim>\<open>BuildError\<close>: the size that could not be recorded.\<close>

datatype nca_build_error = Nca_TooLarge nat

definition EMPTY_SECTION_ENTRY :: nca_section_entry where
  "EMPTY_SECTION_ENTRY =
     \<lparr>ns_media_start_offset = 0, ns_media_end_offset = 0, ns_reserved = zeros 8\<rparr>"

definition EMPTY_FS_HEADER :: nca_fs_header where
  "EMPTY_FS_HEADER =
     \<lparr>fh_version = 0, fh_fs_type = 0, fh_hash_type = 0, fh_crypt_type = 0, fh_reserved_0x5 = zeros 3,
      fh_superblock = zeros 0x138, fh_section_ctr = zeros 8, fh_reserved_0x148 = zeros 0xB8\<rparr>"

text \<open>\<^verbatim>\<open>dst.copy_from_slice(src)\<close> panics unless the lengths agree.\<close>

definition copy_from_slice :: "'x list \<Rightarrow> 'x list \<Rightarrow> ('x list, 'e) result" where
  "copy_from_slice dst src = (if length dst = length src then Ok src else Panic)"

definition lay_out_section ::
  "(bytes \<Rightarrow> bytes) \<Rightarrow> nca_write_section \<Rightarrow> (bytes \<times> nca_fs_header, nca_build_error) result" where
  "lay_out_section sha s =
     (let fs_header = EMPTY_FS_HEADER\<lparr>fh_version := 2, fh_crypt_type :=
            (case ws_encryption s of
               Section_None \<Rightarrow> nca_crypt_type_u8 Crypt_None
             | Section_Ctr \<Rightarrow> nca_crypt_type_u8 Crypt_Ctr)\<rparr>
      in case ws_data s of
           Section_RomFs img \<Rightarrow>
             let tree = ivfc_build sha img;
                 superblock =
                   \<lparr>rs_ivfc_header =
                      \<lparr>iv_magic = IVFC_MAGIC, iv_version = 0x20000, iv_master_hash_size = 0x20,
                       iv_level_count = word_of_nat (length (it_level_headers tree) + 1),
                       iv_level_headers = it_level_headers tree, iv_signature_salt = zeros 0x20,
                       iv_master_hash = it_master_hash tree\<rparr>,
                    rs_reserved = zeros 0x58\<rparr>
             in rbind (copy_from_slice (fh_superblock fs_header) (enc_romfs_superblock superblock)) (\<lambda>sb.
                Ok (it_data tree,
                    fs_header\<lparr>fh_fs_type := nca_fs_type_u8 Fs_RomFs,
                              fh_hash_type := nca_hash_type_u8 Hash_RomFs, fh_superblock := sb\<rparr>))
         | Section_Partition archive hash_block_size \<Rightarrow>
             rbind (partition_build sha archive hash_block_size) (\<lambda>(data, superblock).
             rbind (copy_from_slice (fh_superblock fs_header) (enc_pfs0_superblock superblock)) (\<lambda>sb.
                Ok (data,
                    fs_header\<lparr>fh_fs_type := nca_fs_type_u8 Fs_Pfs0,
                              fh_hash_type := nca_hash_type_u8 Hash_Pfs0, fh_superblock := sb\<rparr>))))"

section \<open>Assembling the archive\<close>

definition media_offset :: "nat \<Rightarrow> (u32, nca_build_error) result" where
  "media_offset offset =
     (let units = offset div MEDIA_UNIT_SIZE
      in if units < 2 ^ 32 then Ok (word_of_nat units) else Err (Nca_TooLarge offset))"

definition pad_to_media_unit :: "bytes \<Rightarrow> bytes" where
  "pad_to_media_unit body =
     (let remainder = length body mod MEDIA_UNIT_SIZE
      in if remainder \<noteq> 0 then body @ zeros (MEDIA_UNIT_SIZE - remainder) else body)"

text \<open>One turn of the loop over the slots, on the header and the body so far.\<close>

definition nca_place ::
  "(bytes \<Rightarrow> bytes) \<Rightarrow> nca_header \<times> bytes \<Rightarrow> nat \<times> nca_write_section option
     \<Rightarrow> (nca_header \<times> bytes, nca_build_error) result" where
  "nca_place sha st slot =
     (case st of (header, body) \<Rightarrow> case slot of (index, s) \<Rightarrow>
        (case s of
           None \<Rightarrow> Ok (header, body)
         | Some section \<Rightarrow>
             rbind (media_offset (NCA_HEADER_SIZE + length body)) (\<lambda>media_start.
             rbind (lay_out_section sha section) (\<lambda>(data, fs_header).
             let body = pad_to_media_unit (body @ data) in
             rbind (media_offset (NCA_HEADER_SIZE + length body)) (\<lambda>media_end.
             rbind (store (nh_section_entries header) index
                     \<lparr>ns_media_start_offset = media_start, ns_media_end_offset = media_end,
                      ns_reserved = [1, 0, 0, 0, 0, 0, 0, 0]\<rparr>) (\<lambda>entries.
             rbind (store (nh_section_hashes header) index (sha (enc_nca_fs_header fs_header))) (\<lambda>hashes.
             rbind (store (nh_fs_headers header) index fs_header) (\<lambda>fs_headers.
               Ok (header\<lparr>nh_section_entries := entries, nh_section_hashes := hashes,
                          nh_fs_headers := fs_headers\<rparr>, body)))))))))"

record plain_nca =
  pn_header :: nca_header
  pn_body :: bytes

definition nca_start_header :: "nca_builder \<Rightarrow> nca_header" where
  "nca_start_header b =
     (let (low, high) = split_key_generation (nb_key_generation b)
      in \<lparr>nh_fixed_key_sig = zeros 0x100, nh_npdm_key_sig = zeros 0x100, nh_magic = NCA3_MAGIC,
          nh_distribution = 0, nh_content_type = nca_content_type_u8 (nb_content_type b),
          nh_crypto_type = low, nh_kaek_index = 0, nh_nca_size = 0, nh_title_id = nb_title_id b,
          nh_reserved_0x218 = zeros 4, nh_sdk_version = nb_sdk_version b, nh_crypto_type2 = high,
          nh_reserved_0x221 = zeros 0xF, nh_rights_id = zeros 0x10,
          nh_section_entries = replicate NCA_SECTION_COUNT EMPTY_SECTION_ENTRY,
          nh_section_hashes = replicate NCA_SECTION_COUNT (zeros 0x20),
          nh_encrypted_keys = nb_key_area b, nh_reserved_0x340 = zeros 0xC0,
          nh_fs_headers = replicate NCA_SECTION_COUNT EMPTY_FS_HEADER\<rparr>)"

definition nca_build :: "(bytes \<Rightarrow> bytes) \<Rightarrow> nca_builder \<Rightarrow> (plain_nca, nca_build_error) result" where
  "nca_build sha b =
     rbind (rfold (nca_place sha) (nca_start_header b, []) (enumerate 0 (nb_sections b))) (\<lambda>(header, body).
       Ok \<lparr>pn_header = header\<lparr>nh_nca_size := word_of_nat (NCA_HEADER_SIZE + length body)\<rparr>,
           pn_body = body\<rparr>)"

definition plain_nca_to_bytes :: "plain_nca \<Rightarrow> bytes" where
  "plain_nca_to_bytes p = enc_nca_header (pn_header p) @ pn_body p"

section \<open>Counters\<close>

text \<open>\<^verbatim>\<open>section_counter\<close>: the reversed FS counter, then the AES block number, big-endian.\<close>

definition section_counter :: "bytes \<Rightarrow> nat \<Rightarrow> bytes" where
  "section_counter ctr offset = rev ctr @ rev (le64 (word_of_nat (offset div 0x10)))"

record ctr_section =
  cs_start :: nat
  cs_end :: nat
  cs_counter :: bytes

definition plain_nca_ctr_sections :: "plain_nca \<Rightarrow> (ctr_section list, 'e) result" where
  "plain_nca_ctr_sections p =
     rfold (\<lambda>sections (entry, fs_header).
         if fh_crypt_type fs_header \<noteq> nca_crypt_type_u8 Crypt_Ctr then Ok sections
         else
           let start = unat (ns_media_start_offset entry) * MEDIA_UNIT_SIZE;
               end = unat (ns_media_end_offset entry) * MEDIA_UNIT_SIZE
           in rbind (usub start NCA_HEADER_SIZE) (\<lambda>from.
              rbind (usub end NCA_HEADER_SIZE) (\<lambda>to.
                Ok (sections @ [\<lparr>cs_start = from, cs_end = to,
                                 cs_counter = section_counter (fh_section_ctr fs_header) start\<rparr>]))))
       [] (zip (nh_section_entries (pn_header p)) (nh_fs_headers (pn_header p)))"

end
