(* ===== verification/Nca_Build.thy ===== *)
theory Nca_Build
  imports Nca_Write
begin

text \<open>
  What the NCA builder lays out: the closed form of one section, and the invariant of the loop that
  places the sections behind the header.
\<close>

section \<open>One section\<close>

fun section_content :: "section_data \<Rightarrow> bytes" where
  "section_content (Section_RomFs img) = img"
| "section_content (Section_Partition archive n) = archive"

fun zero_block :: "section_data \<Rightarrow> bool" where
  "zero_block (Section_RomFs img) = False"
| "zero_block (Section_Partition archive n) = (n = 0)"

text \<open>What a console accepts as the section's file system, read by the header's hash type.\<close>

definition section_verifies :: "(bytes \<Rightarrow> bytes) \<Rightarrow> nca_fs_header \<Rightarrow> bytes \<Rightarrow> bool" where
  "section_verifies sha fs bs =
     (if fh_hash_type fs = nca_hash_type_u8 Hash_Pfs0
      then partition_verifies sha (dec_pfs0_superblock (fh_superblock fs)) bs
      else ivfc_verifies sha (rs_ivfc_header (dec_romfs_superblock (fh_superblock fs))) bs)"

definition section_payload :: "nca_fs_header \<Rightarrow> bytes \<Rightarrow> bytes" where
  "section_payload fs bs =
     (if fh_hash_type fs = nca_hash_type_u8 Hash_Pfs0
      then partition_archive (dec_pfs0_superblock (fh_superblock fs)) bs
      else ivfc_image (rs_ivfc_header (dec_romfs_superblock (fh_superblock fs))) bs)"

definition section_inputs :: "nca_fs_header \<Rightarrow> bytes \<Rightarrow> bytes list" where
  "section_inputs fs bs =
     (if fh_hash_type fs = nca_hash_type_u8 Hash_Pfs0
      then partition_inputs (dec_pfs0_superblock (fh_superblock fs)) bs
      else ivfc_inputs (rs_ivfc_header (dec_romfs_superblock (fh_superblock fs))) bs)"

lemma section_binding:
  assumes "digest_size sha" "section_verifies sha fs bs" "section_verifies sha fs bs'"
  shows "section_payload fs bs = section_payload fs bs'
    \<or> clash sha (section_inputs fs bs) (section_inputs fs bs')"
  using partition_binding [OF assms(1)] ivfc_binding [OF assms(1)] assms(2,3)
  by (auto simp: section_verifies_def section_payload_def section_inputs_def split: if_splits)

lemma partition_build_eqs [simp]:
  "partition_build sha archive 0 = Panic" "partition_build sha archive n \<noteq> Err e"
  by (simp_all add: partition_build_def Let_def)

lemma partition_build_total:
  "n \<noteq> 0 \<Longrightarrow> \<exists>r. (partition_build sha archive n :: (bytes \<times> pfs0_superblock, nca_build_error) result) = Ok r"
  by (simp add: partition_build_def Let_def)

lemma partition_build_shape:
  assumes "partition_build sha archive n = Ok (data, sb)" "digest_size sha"
  shows "length archive \<le> length data" "n \<noteq> 0" "length (ps_master_hash sb) = 0x20" "length (ps_reserved sb) = 0xF0"
  using assms by (auto simp: partition_build_def Let_def digest_size_def split: if_splits)

definition partition_fs_header :: "section_encryption \<Rightarrow> pfs0_superblock \<Rightarrow> nca_fs_header" where
  "partition_fs_header enc sb = EMPTY_FS_HEADER\<lparr>fh_version := 2,
     fh_crypt_type := (case enc of Section_None \<Rightarrow> 1 | Section_Ctr \<Rightarrow> 3),
     fh_fs_type := 1, fh_hash_type := 2, fh_superblock := enc_pfs0_superblock sb\<rparr>"

definition romfs_superblock_of :: "ivfc_tree \<Rightarrow> romfs_superblock" where
  "romfs_superblock_of tree =
     \<lparr>rs_ivfc_header =
        \<lparr>iv_magic = IVFC_MAGIC, iv_version = 0x20000, iv_master_hash_size = 0x20, iv_level_count = 7,
         iv_level_headers = it_level_headers tree, iv_signature_salt = zeros 0x20,
         iv_master_hash = it_master_hash tree\<rparr>,
      rs_reserved = zeros 0x58\<rparr>"

definition romfs_fs_header :: "section_encryption \<Rightarrow> ivfc_tree \<Rightarrow> nca_fs_header" where
  "romfs_fs_header enc tree = EMPTY_FS_HEADER\<lparr>fh_version := 2,
     fh_crypt_type := (case enc of Section_None \<Rightarrow> 1 | Section_Ctr \<Rightarrow> 3),
     fh_fs_type := 0, fh_hash_type := 3, fh_superblock := enc_romfs_superblock (romfs_superblock_of tree)\<rparr>"

lemma ivfc_build_shape:
  "length (it_level_headers (ivfc_build sha img)) = 6"
  "length img \<le> length (it_data (ivfc_build sha img))"
  "digest_size sha \<Longrightarrow> length (it_master_hash (ivfc_build sha img)) = 0x20"
  by (simp_all add: ivfc_build_def ivfc_grow_levels ivfc_tree_levels_def Let_def digest_size_def)

lemma romfs_superblock_wf:
  assumes "digest_size sha"
  shows "ivfc_header_wf (rs_ivfc_header (romfs_superblock_of (ivfc_build sha img)))
    \<and> length (rs_reserved (romfs_superblock_of (ivfc_build sha img))) = 0x58"
  using ivfc_build_shape(1) [of sha img] ivfc_build_shape(3) [OF assms, of img]
  by (simp add: ivfc_header_wf_def romfs_superblock_of_def)

lemma lay_out_partition:
  assumes "digest_size sha"
  shows "lay_out_section sha \<lparr>ws_data = Section_Partition archive n, ws_encryption = enc\<rparr>
    = rbind (partition_build sha archive n) (\<lambda>(data, sb). Ok (data, partition_fs_header enc sb))"
proof (cases "partition_build sha archive n :: (bytes \<times> pfs0_superblock, nca_build_error) result")
  case (Ok r)
  obtain data sb where r: "r = (data, sb)" by (cases r)
  have "length (enc_pfs0_superblock sb) = 0x138"
    by (rule pfs0_superblock.enc_length) (use partition_build_shape [OF _ assms] Ok r in metis)
  with Ok r show ?thesis
    by (simp add: lay_out_section_def Let_def copy_from_slice_def EMPTY_FS_HEADER_def
        partition_fs_header_def split: section_encryption.split)
qed (simp_all add: lay_out_section_def Let_def)

lemma lay_out_romfs:
  assumes "digest_size sha"
  shows "lay_out_section sha \<lparr>ws_data = Section_RomFs img, ws_encryption = enc\<rparr>
    = Ok (it_data (ivfc_build sha img), romfs_fs_header enc (ivfc_build sha img))"
proof -
  have "length (enc_romfs_superblock (romfs_superblock_of (ivfc_build sha img))) = 0x138"
    by (rule romfs_superblock.enc_length [OF romfs_superblock_wf [OF assms]])
  then show ?thesis
    by (simp add: lay_out_section_def Let_def copy_from_slice_def EMPTY_FS_HEADER_def ivfc_build_shape
        romfs_fs_header_def romfs_superblock_of_def split: section_encryption.split)
qed

lemma lay_out_outcome:
  assumes "digest_size sha"
  shows "lay_out_section sha s \<noteq> Err e" "lay_out_section sha s = Panic \<longleftrightarrow> zero_block (ws_data s)"
proof -
  have "lay_out_section sha s \<noteq> Err e \<and> (lay_out_section sha s = Panic \<longleftrightarrow> zero_block (ws_data s))"
  proof (cases s rule: nca_write_section.cases)
    case (fields d enc)
    show ?thesis
    proof (cases d)
      case (Section_RomFs img)
      then show ?thesis using fields by (simp add: lay_out_romfs [OF assms])
    next
      case (Section_Partition archive n)
      then show ?thesis
        using fields partition_build_total [of n sha archive]
        by (cases "n = 0") (auto simp: lay_out_partition [OF assms])
    qed
  qed
  then show "lay_out_section sha s \<noteq> Err e" "lay_out_section sha s = Panic \<longleftrightarrow> zero_block (ws_data s)"
    by blast+
qed

text \<open>The FS header a section gets is well formed, and under it the section verifies its content.\<close>

lemma partition_section:
  assumes "digest_size sha" "partition_build sha archive n = Ok (data, sb)" "length data \<le> 2 ^ 58"
  shows "nca_fs_header_wf (partition_fs_header enc sb)"
    and "section_verifies sha (partition_fs_header enc sb) (data @ tail)"
    and "section_payload (partition_fs_header enc sb) (data @ tail) = archive"
proof -
  note sh = partition_build_shape [OF assms(2,1)]
  have wf: "length (ps_master_hash sb) = 0x20 \<and> length (ps_reserved sb) = 0xF0" using sh by simp
  have dec: "dec_pfs0_superblock (enc_pfs0_superblock sb) = sb"
    using pfs0_superblock.dec_enc [OF wf, of "[]"] by simp
  have "length archive \<le> 2 ^ 58" using sh(1) assms(3) by linarith
  note v = partition_verifies_built [OF assms(1) sh(2) this assms(2), of tail]
  show "nca_fs_header_wf (partition_fs_header enc sb)"
    using pfs0_superblock.enc_length [OF wf]
    by (simp add: nca_fs_header_wf_def partition_fs_header_def EMPTY_FS_HEADER_def)
  show "section_verifies sha (partition_fs_header enc sb) (data @ tail)"
    "section_payload (partition_fs_header enc sb) (data @ tail) = archive"
    using v by (simp_all add: section_verifies_def section_payload_def partition_fs_header_def dec)
qed

lemma romfs_section:
  assumes "digest_size sha" "length (it_data (ivfc_build sha img)) \<le> 2 ^ 58"
  shows "nca_fs_header_wf (romfs_fs_header enc (ivfc_build sha img))"
    and "section_verifies sha (romfs_fs_header enc (ivfc_build sha img)) (it_data (ivfc_build sha img) @ tail)"
    and "section_payload (romfs_fs_header enc (ivfc_build sha img)) (it_data (ivfc_build sha img) @ tail) = img"
proof -
  let ?t = "ivfc_build sha img"
  note wf = romfs_superblock_wf [OF assms(1), of img]
  have dec: "dec_romfs_superblock (enc_romfs_superblock (romfs_superblock_of ?t)) = romfs_superblock_of ?t"
    using romfs_superblock.dec_enc [OF wf, of "[]"] by simp
  have "length img \<le> 2 ^ 58" using ivfc_build_shape(2) [of img sha] assms(2) by linarith
  moreover have "iv_level_headers (rs_ivfc_header (romfs_superblock_of ?t)) = it_level_headers ?t"
    "iv_master_hash (rs_ivfc_header (romfs_superblock_of ?t)) = it_master_hash ?t"
    by (simp_all add: romfs_superblock_of_def)
  ultimately have v: "ivfc_verifies sha (rs_ivfc_header (romfs_superblock_of ?t)) (it_data ?t @ tail)"
    "ivfc_image (rs_ivfc_header (romfs_superblock_of ?t)) (it_data ?t @ tail) = img"
    by (rule ivfc_built [OF assms(1)])+
  show "nca_fs_header_wf (romfs_fs_header enc ?t)"
    using romfs_superblock.enc_length [OF wf]
    by (simp add: nca_fs_header_wf_def romfs_fs_header_def EMPTY_FS_HEADER_def)
  show "section_verifies sha (romfs_fs_header enc ?t) (it_data ?t @ tail)"
    "section_payload (romfs_fs_header enc ?t) (it_data ?t @ tail) = img"
    using v by (simp_all add: section_verifies_def section_payload_def romfs_fs_header_def dec)
qed

lemma lay_out_ok:
  assumes "digest_size sha" "lay_out_section sha s = Ok (data, fs)" "length data \<le> 2 ^ 58"
  shows "nca_fs_header_wf fs" "section_verifies sha fs (data @ tail)"
    "section_payload fs (data @ tail) = section_content (ws_data s)"
    "fh_crypt_type fs = (case ws_encryption s of Section_None \<Rightarrow> 1 | Section_Ctr \<Rightarrow> 3)"
    "(case ws_data s of Section_RomFs img \<Rightarrow> fh_fs_type fs = 0 \<and> fh_hash_type fs = 3
       | Section_Partition a n \<Rightarrow> fh_fs_type fs = 1 \<and> fh_hash_type fs = 2)"
    "fh_section_ctr fs = zeros 8"
proof -
  have "nca_fs_header_wf fs \<and> section_verifies sha fs (data @ tail)
    \<and> section_payload fs (data @ tail) = section_content (ws_data s)
    \<and> fh_crypt_type fs = (case ws_encryption s of Section_None \<Rightarrow> 1 | Section_Ctr \<Rightarrow> 3)
    \<and> (case ws_data s of Section_RomFs img \<Rightarrow> fh_fs_type fs = 0 \<and> fh_hash_type fs = 3
       | Section_Partition a n \<Rightarrow> fh_fs_type fs = 1 \<and> fh_hash_type fs = 2)
    \<and> fh_section_ctr fs = zeros 8"
  proof (cases s rule: nca_write_section.cases)
    case (fields d enc)
    show ?thesis
    proof (cases d)
      case (Section_RomFs img)
      with assms(2) fields have "data = it_data (ivfc_build sha img)" "fs = romfs_fs_header enc (ivfc_build sha img)"
        by (simp_all add: lay_out_romfs [OF assms(1)])
      with romfs_section(1) [OF assms(1), of img enc]
        romfs_section(2,3) [OF assms(1), of img enc tail] assms(3) fields Section_RomFs show ?thesis
        by (simp add: romfs_fs_header_def EMPTY_FS_HEADER_def)
    next
      case (Section_Partition archive n)
      with assms(2) fields obtain sb where
        "(partition_build sha archive n :: (bytes \<times> pfs0_superblock, nca_build_error) result) = Ok (data, sb)"
        "fs = partition_fs_header enc sb"
        by (auto simp: lay_out_partition [OF assms(1)] rbind_eq_Ok)
      with partition_section(1) [OF assms(1) this(1) assms(3), of enc]
        partition_section(2,3) [OF assms(1) this(1) assms(3), of enc tail] fields Section_Partition show ?thesis
        by (simp add: partition_fs_header_def EMPTY_FS_HEADER_def)
    qed
  qed
  then show "nca_fs_header_wf fs" "section_verifies sha fs (data @ tail)"
    "section_payload fs (data @ tail) = section_content (ws_data s)"
    "fh_crypt_type fs = (case ws_encryption s of Section_None \<Rightarrow> 1 | Section_Ctr \<Rightarrow> 3)"
    "(case ws_data s of Section_RomFs img \<Rightarrow> fh_fs_type fs = 0 \<and> fh_hash_type fs = 3
       | Section_Partition a n \<Rightarrow> fh_fs_type fs = 1 \<and> fh_hash_type fs = 2)"
    "fh_section_ctr fs = zeros 8"
    by blast+
qed

section \<open>The loop over the slots\<close>

definition sec_start :: "nca_header \<Rightarrow> nat \<Rightarrow> nat" where
  "sec_start h i = unat (ns_media_start_offset (nh_section_entries h ! i)) * MEDIA_UNIT_SIZE"

definition sec_end :: "nca_header \<Rightarrow> nat \<Rightarrow> nat" where
  "sec_end h i = unat (ns_media_end_offset (nh_section_entries h ! i)) * MEDIA_UNIT_SIZE"

text \<open>Slot \<open>i\<close> describes section \<open>s\<close>, which lies in the body where the entry says.\<close>

definition placed ::
  "(bytes \<Rightarrow> bytes) \<Rightarrow> nca_header \<Rightarrow> bytes \<Rightarrow> nat \<Rightarrow> nca_write_section \<Rightarrow> bool" where
  "placed sha h body i s \<longleftrightarrow>
     (\<exists>data. lay_out_section sha s = Ok (data, nh_fs_headers h ! i)
        \<and> nh_section_hashes h ! i = sha (enc_nca_fs_header (nh_fs_headers h ! i))
        \<and> length (ns_reserved (nh_section_entries h ! i)) = 8
        \<and> NCA_HEADER_SIZE \<le> sec_start h i \<and> sec_start h i + length data \<le> sec_end h i
        \<and> sec_end h i \<le> NCA_HEADER_SIZE + length body
        \<and> sub_bytes body (sec_start h i - NCA_HEADER_SIZE) (length data) = data)"

definition same_slot :: "nca_header \<Rightarrow> nca_header \<Rightarrow> nat \<Rightarrow> bool" where
  "same_slot h h' i \<longleftrightarrow> nh_section_entries h' ! i = nh_section_entries h ! i
     \<and> nh_section_hashes h' ! i = nh_section_hashes h ! i \<and> nh_fs_headers h' ! i = nh_fs_headers h ! i"

definition only_slots_differ :: "nca_header \<Rightarrow> nca_header \<Rightarrow> bool" where
  "only_slots_differ h h' \<longleftrightarrow>
     h' = h\<lparr>nh_section_entries := nh_section_entries h', nh_section_hashes := nh_section_hashes h',
            nh_fs_headers := nh_fs_headers h'\<rparr>
     \<and> length (nh_section_entries h') = length (nh_section_entries h)
     \<and> length (nh_section_hashes h') = length (nh_section_hashes h)
     \<and> length (nh_fs_headers h') = length (nh_fs_headers h)"

definition four_slots :: "nca_header \<Rightarrow> bool" where
  "four_slots h \<longleftrightarrow> length (nh_section_entries h) = 4 \<and> length (nh_section_hashes h) = 4
     \<and> length (nh_fs_headers h) = 4"

lemma only_slots_differ_refl [simp]: "only_slots_differ h h"
  by (simp add: only_slots_differ_def)

lemma only_slots_differ_trans: "only_slots_differ h h1 \<Longrightarrow> only_slots_differ h1 h2 \<Longrightarrow> only_slots_differ h h2"
  unfolding only_slots_differ_def by (cases h; cases h1; cases h2) simp

lemma four_slots_differ: "only_slots_differ h h' \<Longrightarrow> four_slots h' = four_slots h"
  by (auto simp: only_slots_differ_def four_slots_def)

lemma placed_later:
  assumes "placed sha h body i s" "same_slot h h' i"
  shows "placed sha h' (body @ ext) i s"
proof -
  have st: "sec_start h' i = sec_start h i" "sec_end h' i = sec_end h i"
    using assms(2) by (simp_all add: same_slot_def sec_start_def sec_end_def)
  have keep: "sub_bytes (body @ ext) off n = sub_bytes body off n" if "off + n \<le> length body" for off n
    using that by (simp add: sub_bytes_def)
  from assms(1) obtain data where d: "lay_out_section sha s = Ok (data, nh_fs_headers h ! i)"
    "NCA_HEADER_SIZE \<le> sec_start h i" "sec_start h i + length data \<le> sec_end h i"
    "sec_end h i \<le> NCA_HEADER_SIZE + length body"
    "sub_bytes body (sec_start h i - NCA_HEADER_SIZE) (length data) = data"
    by (auto simp: placed_def)
  have "sub_bytes (body @ ext) (sec_start h i - NCA_HEADER_SIZE) (length data) = data"
    using keep [of "sec_start h i - NCA_HEADER_SIZE" "length data"] d(2-) by simp
  then show ?thesis
    unfolding placed_def st using d(1-4) assms
    by (intro exI [of _ data]) (simp add: placed_def same_slot_def)
qed

lemma pad_to_media_unit_pads: "\<exists>n<MEDIA_UNIT_SIZE. pad_to_media_unit body = body @ zeros n"
proof (cases "length body mod MEDIA_UNIT_SIZE = 0")
  case False
  then show ?thesis
    by (intro exI [of _ "MEDIA_UNIT_SIZE - length body mod MEDIA_UNIT_SIZE"])
      (simp add: pad_to_media_unit_def Let_def MEDIA_UNIT_SIZE_def)
qed (auto simp: pad_to_media_unit_def Let_def MEDIA_UNIT_SIZE_def intro: exI [of _ 0])

lemma pad_to_media_unit_dvd: "MEDIA_UNIT_SIZE dvd length (pad_to_media_unit body)"
proof (cases "length body mod MEDIA_UNIT_SIZE = 0")
  case False
  let ?n = "length body" and ?m = MEDIA_UNIT_SIZE
  have "?n mod ?m < ?m" by (rule mod_less_divisor) (simp add: MEDIA_UNIT_SIZE_def)
  moreover have "?n = ?n div ?m * ?m + ?n mod ?m" by simp
  ultimately have "?n + (?m - ?n mod ?m) = ?n div ?m * ?m + ?m" by linarith
  then show ?thesis using False by (simp add: pad_to_media_unit_def Let_def)
qed (auto simp: pad_to_media_unit_def Let_def)

lemma media_offset_Ok:
  assumes "media_offset off = Ok u" "MEDIA_UNIT_SIZE dvd off"
  shows "unat u * MEDIA_UNIT_SIZE = off"
  using assms by (auto simp: media_offset_def Let_def unat_of_nat split: if_splits)

lemma media_offset_eqs:
  "media_offset off \<noteq> Panic" "media_offset off = Err e \<longleftrightarrow> e = Nca_TooLarge off \<and> 2 ^ 41 \<le> off"
  by (auto simp: media_offset_def Let_def MEDIA_UNIT_SIZE_def)

lemma nca_place_some:
  assumes "nca_place sha (h, body) (i, Some s) = Ok (h', body')"
    and "four_slots h" "i < 4" "MEDIA_UNIT_SIZE dvd length body"
  shows "\<exists>ext. body' = body @ ext \<and> MEDIA_UNIT_SIZE dvd length body' \<and> only_slots_differ h h'
    \<and> placed sha h' body' i s \<and> (\<forall>j. j \<noteq> i \<longrightarrow> same_slot h h' j)
    \<and> sec_start h' i = NCA_HEADER_SIZE + length body \<and> sec_end h' i = NCA_HEADER_SIZE + length body'"
proof -
  from assms(1-3) obtain us data fs ue where
    us: "media_offset (NCA_HEADER_SIZE + length body) = Ok us"
    and lay: "lay_out_section sha s = Ok (data, fs)"
    and b': "body' = pad_to_media_unit (body @ data)"
    and ue: "media_offset (NCA_HEADER_SIZE + length body') = Ok ue"
    and h': "h' = h\<lparr>nh_section_entries := (nh_section_entries h)[i := \<lparr>ns_media_start_offset = us,
                     ns_media_end_offset = ue, ns_reserved = [1, 0, 0, 0, 0, 0, 0, 0]\<rparr>],
                   nh_section_hashes := (nh_section_hashes h)[i := sha (enc_nca_fs_header fs)],
                   nh_fs_headers := (nh_fs_headers h)[i := fs]\<rparr>"
    by (auto simp: nca_place_def rbind_eq_Ok Let_def four_slots_def)
  obtain n where n: "body' = body @ data @ zeros n" using pad_to_media_unit_pads [of "body @ data"] b' by auto
  have dvd: "MEDIA_UNIT_SIZE dvd length body'" unfolding b' by (rule pad_to_media_unit_dvd)
  have "MEDIA_UNIT_SIZE dvd NCA_HEADER_SIZE" by (simp add: nca_consts)
  with us ue dvd assms(4) have off: "unat us * MEDIA_UNIT_SIZE = NCA_HEADER_SIZE + length body"
    "unat ue * MEDIA_UNIT_SIZE = NCA_HEADER_SIZE + length body'"
    by (auto intro!: media_offset_Ok)
  have se: "sec_start h' i = NCA_HEADER_SIZE + length body" "sec_end h' i = NCA_HEADER_SIZE + length body'"
    using off assms(2,3) by (simp_all add: sec_start_def sec_end_def h' four_slots_def)
  have "placed sha h' body' i s"
    using lay assms(2,3) unfolding placed_def se
    by (intro exI [of _ data]) (simp add: h' four_slots_def n sub_bytes_def)
  moreover have "only_slots_differ h h'" by (simp add: only_slots_differ_def h')
  moreover have "j \<noteq> i \<Longrightarrow> same_slot h h' j" for j by (simp add: same_slot_def h')
  ultimately show ?thesis using dvd n se by blast
qed

text \<open>All slots: each section is placed, in slot order, and everything else is untouched.\<close>

lemma nca_place_all:
  assumes "rfold (nca_place sha) (h, body) (enumerate k ss) = Ok (h', body')"
    and "four_slots h" "k + length ss \<le> 4" "MEDIA_UNIT_SIZE dvd length body"
  shows "\<exists>ext. body' = body @ ext \<and> MEDIA_UNIT_SIZE dvd length body' \<and> only_slots_differ h h'
    \<and> (\<forall>j<length ss. \<forall>s. ss ! j = Some s \<longrightarrow> placed sha h' body' (k + j) s
          \<and> NCA_HEADER_SIZE + length body \<le> sec_start h' (k + j))
    \<and> (\<forall>j. j < k \<or> k + length ss \<le> j \<or> ss ! (j - k) = None \<longrightarrow> same_slot h h' j)
    \<and> (\<forall>i j. i < j \<and> j < length ss \<and> ss ! i \<noteq> None \<and> ss ! j \<noteq> None
          \<longrightarrow> sec_end h' (k + i) \<le> sec_start h' (k + j))"
  using assms
proof (induction ss arbitrary: k h body)
  case Nil
  then show ?case by (simp add: same_slot_def)
next
  case (Cons so ss)
  from Cons.prems(1) obtain h1 body1 where
    one: "nca_place sha (h, body) (k, so) = Ok (h1, body1)"
    and more: "rfold (nca_place sha) (h1, body1) (enumerate (Suc k) ss) = Ok (h', body')"
    by (auto simp: rbind_eq_Ok)
  have step: "\<exists>ext. body1 = body @ ext \<and> MEDIA_UNIT_SIZE dvd length body1 \<and> only_slots_differ h h1
    \<and> (\<forall>s. so = Some s \<longrightarrow> placed sha h1 body1 k s \<and> sec_start h1 k = NCA_HEADER_SIZE + length body
          \<and> sec_end h1 k = NCA_HEADER_SIZE + length body1)
    \<and> (\<forall>j. j \<noteq> k \<or> so = None \<longrightarrow> same_slot h h1 j)"
  proof (cases so)
    case None
    with one Cons.prems(4) show ?thesis by (simp add: nca_place_def same_slot_def)
  next
    case (Some s)
    with nca_place_some [of sha h body k s h1 body1] one Cons.prems show ?thesis by auto
  qed
  then obtain ext1 where s1: "body1 = body @ ext1" "MEDIA_UNIT_SIZE dvd length body1" "only_slots_differ h h1"
    "\<And>s. so = Some s \<Longrightarrow> placed sha h1 body1 k s \<and> sec_start h1 k = NCA_HEADER_SIZE + length body
          \<and> sec_end h1 k = NCA_HEADER_SIZE + length body1"
    "\<And>j. j \<noteq> k \<or> so = None \<Longrightarrow> same_slot h h1 j"
    by blast
  have f1: "four_slots h1" using four_slots_differ [OF s1(3)] Cons.prems(2) by simp
  have "Suc k + length ss \<le> 4" using Cons.prems(3) by simp
  from Cons.IH [OF more f1 this s1(2)] obtain ext2 where s2: "body' = body1 @ ext2"
    "MEDIA_UNIT_SIZE dvd length body'" "only_slots_differ h1 h'"
    "\<forall>j<length ss. \<forall>s. ss ! j = Some s \<longrightarrow> placed sha h' body' (Suc k + j) s
          \<and> NCA_HEADER_SIZE + length body1 \<le> sec_start h' (Suc k + j)"
    "\<forall>j. j < Suc k \<or> Suc k + length ss \<le> j \<or> ss ! (j - Suc k) = None \<longrightarrow> same_slot h1 h' j"
    "\<forall>i j. i < j \<and> j < length ss \<and> ss ! i \<noteq> None \<and> ss ! j \<noteq> None
          \<longrightarrow> sec_end h' (Suc k + i) \<le> sec_start h' (Suc k + j)"
    by (elim exE conjE) (rule that)
  have kk: "same_slot h1 h' k" using s2(5) by simp
  have same_ends: "sec_end h' k = sec_end h1 k" "sec_start h' k = sec_start h1 k"
    using kk by (simp_all add: same_slot_def sec_end_def sec_start_def)
  have A: "placed sha h' body' (k + j) s \<and> NCA_HEADER_SIZE + length body \<le> sec_start h' (k + j)"
    if "j < length (so # ss)" "(so # ss) ! j = Some s" for j s
  proof (cases j)
    case 0
    with that s1(4) [of s] placed_later [OF _ kk, of sha body1 s ext2] same_ends show ?thesis
      by (simp add: s2(1))
  next
    case (Suc i)
    with that have "placed sha h' body' (Suc k + i) s \<and> NCA_HEADER_SIZE + length body1 \<le> sec_start h' (Suc k + i)"
      using s2(4) by simp
    with Suc show ?thesis by (simp add: s1(1))
  qed
  have B: "same_slot h h' j" if "j < k \<or> k + length (so # ss) \<le> j \<or> (so # ss) ! (j - k) = None" for j
  proof -
    have "j \<noteq> k \<or> so = None" using that by auto
    then have "same_slot h h1 j" by (rule s1(5))
    moreover have "j < Suc k \<or> Suc k + length ss \<le> j \<or> ss ! (j - Suc k) = None"
    proof (cases "k < j")
      case True
      then have "(so # ss) ! (j - k) = ss ! (j - Suc k)" by (simp add: nth_Cons')
      then show ?thesis using that by auto
    qed simp
    then have "same_slot h1 h' j" using s2(5) by blast
    ultimately show ?thesis by (simp add: same_slot_def)
  qed
  have C: "sec_end h' (k + i) \<le> sec_start h' (k + j)"
    if ij: "i < j" "j < length (so # ss)" "(so # ss) ! i \<noteq> None" "(so # ss) ! j \<noteq> None" for i j
  proof -
    obtain j' where j: "j = Suc j'" using ij(1) by (cases j) simp_all
    show ?thesis
    proof (cases i)
      case 0
      from ij(2,4) j obtain s' where "j' < length ss" "ss ! j' = Some s'" by auto
      then have "NCA_HEADER_SIZE + length body1 \<le> sec_start h' (Suc k + j')" using s2(4) by blast
      moreover obtain s where "so = Some s" using ij(3) \<open>i = 0\<close> by auto
      ultimately show ?thesis using s1(4) [of s] same_ends 0 j by simp
    next
      case (Suc i')
      with ij j have "sec_end h' (Suc k + i') \<le> sec_start h' (Suc k + j')" using s2(6) by simp
      then show ?thesis using Suc j by simp
    qed
  qed
  show ?case
  proof (intro exI [of _ "ext1 @ ext2"] conjI allI impI)
    show "body' = body @ ext1 @ ext2" using s1(1) s2(1) by simp
  qed (use s2(2) only_slots_differ_trans [OF s1(3) s2(3)] A B C in blast)+
qed

section \<open>When a build succeeds\<close>

definition section_size :: "(bytes \<Rightarrow> bytes) \<Rightarrow> nca_write_section \<Rightarrow> nat" where
  "section_size sha s = (case lay_out_section sha s of Ok (data, fs) \<Rightarrow> length data | _ \<Rightarrow> 0)"

text \<open>The length of the body once the given slots are placed behind \<open>n\<close> bytes.\<close>

fun nca_body_size :: "(bytes \<Rightarrow> bytes) \<Rightarrow> nat \<Rightarrow> nca_write_section option list \<Rightarrow> nat" where
  "nca_body_size sha n [] = n"
| "nca_body_size sha n (None # ss) = nca_body_size sha n ss"
| "nca_body_size sha n (Some s # ss) = nca_body_size sha (align_up (n + section_size sha s) MEDIA_UNIT_SIZE) ss"

lemma nca_body_size_ge: "n \<le> nca_body_size sha n ss"
proof (induction sha n ss rule: nca_body_size.induct)
  case (3 sha n s ss)
  have "n + section_size sha s \<le> align_up (n + section_size sha s) MEDIA_UNIT_SIZE"
    by (rule align_up_ge) (simp add: MEDIA_UNIT_SIZE_def)
  with 3 show ?case by simp
qed simp_all

lemma length_pad_to_media_unit: "length (pad_to_media_unit body) = align_up (length body) MEDIA_UNIT_SIZE"
proof -
  obtain n where n: "n < MEDIA_UNIT_SIZE" "pad_to_media_unit body = body @ zeros n"
    using pad_to_media_unit_pads by blast
  obtain q where q: "length body + n = q * MEDIA_UNIT_SIZE"
    using pad_to_media_unit_dvd [of body] n(2) by (auto simp: dvd_def mult.commute)
  have "length body + (MEDIA_UNIT_SIZE - 1) = (MEDIA_UNIT_SIZE - 1 - n) + q * MEDIA_UNIT_SIZE"
    using q n(1) by linarith
  moreover have "(MEDIA_UNIT_SIZE - 1 - n) div MEDIA_UNIT_SIZE = 0" by (simp add: MEDIA_UNIT_SIZE_def)
  ultimately have "(length body + (MEDIA_UNIT_SIZE - 1)) div MEDIA_UNIT_SIZE = q"
    by (simp add: MEDIA_UNIT_SIZE_def)
  then show ?thesis using q n(2) by (simp add: align_up_def)
qed

lemma nca_place_outcome:
  assumes "digest_size sha" "four_slots h" "k + length ss \<le> 4" "NCA_HEADER_SIZE + length body < 2 ^ 41"
  shows "case rfold (nca_place sha) (h, body) (enumerate k ss) of
      Ok (h', body') \<Rightarrow> (\<forall>s\<in>set ss. \<forall>t. s = Some t \<longrightarrow> \<not> zero_block (ws_data t))
        \<and> length body' = nca_body_size sha (length body) ss \<and> NCA_HEADER_SIZE + length body' < 2 ^ 41
    | Err (Nca_TooLarge n) \<Rightarrow> 2 ^ 41 \<le> n \<and> n \<le> NCA_HEADER_SIZE + nca_body_size sha (length body) ss
    | Panic \<Rightarrow> \<exists>s\<in>set ss. \<exists>t. s = Some t \<and> zero_block (ws_data t)"
  using assms(2-)
proof (induction ss arbitrary: k h body)
  case Nil
  then show ?case by simp
next
  case (Cons so ss)
  show ?case
  proof (cases so)
    case None
    with Cons.IH [of h "Suc k" body] Cons.prems show ?thesis
      by (simp add: nca_place_def split: result.splits prod.splits nca_build_error.splits)
  next
    case (Some s)
    let ?body1 = "\<lambda>data. pad_to_media_unit (body @ data)"
    obtain us where us: "media_offset (NCA_HEADER_SIZE + length body) = Ok us"
      using Cons.prems(3) media_offset_eqs [of "NCA_HEADER_SIZE + length body"]
      by (cases "media_offset (NCA_HEADER_SIZE + length body)") auto
    show ?thesis
    proof (cases "lay_out_section sha s")
      case (Ok r)
      obtain data fs where r: "r = (data, fs)" by (cases r)
      have nz: "\<not> zero_block (ws_data s)"
        using lay_out_outcome(2) [OF assms(1), of s] Ok by simp
      have len: "length (?body1 data) = align_up (length body + section_size sha s) MEDIA_UNIT_SIZE"
        using Ok r by (simp add: length_pad_to_media_unit section_size_def)
      show ?thesis
      proof (cases "media_offset (NCA_HEADER_SIZE + length (?body1 data))")
        case (Err e)
        then have "e = Nca_TooLarge (NCA_HEADER_SIZE + length (?body1 data))"
          "2 ^ 41 \<le> NCA_HEADER_SIZE + length (?body1 data)"
          by (simp_all add: media_offset_eqs)
        with Err us Ok r Some len nca_body_size_ge [of _ sha ss] show ?thesis
          by (simp add: nca_place_def Let_def)
      next
        case Panic
        then show ?thesis by (simp add: media_offset_eqs)
      next
        case me: (Ok ue)
        let ?h1 = "h\<lparr>nh_section_entries := (nh_section_entries h)[k := \<lparr>ns_media_start_offset = us,
                     ns_media_end_offset = ue, ns_reserved = [1, 0, 0, 0, 0, 0, 0, 0]\<rparr>],
                   nh_section_hashes := (nh_section_hashes h)[k := sha (enc_nca_fs_header fs)],
                   nh_fs_headers := (nh_fs_headers h)[k := fs]\<rparr>"
        have one: "nca_place sha (h, body) (k, Some s) = Ok (?h1, ?body1 data)"
          using us Ok r me Cons.prems(1,2) by (simp add: nca_place_def Let_def four_slots_def run_simps)
        have "NCA_HEADER_SIZE + length (?body1 data) < 2 ^ 41"
          using me media_offset_eqs(2) [of "NCA_HEADER_SIZE + length (?body1 data)"]
          by (cases "NCA_HEADER_SIZE + length (?body1 data) < 2 ^ 41") auto
        with Cons.IH [of ?h1 "Suc k" "?body1 data"] Cons.prems(1,2) one len Some nz show ?thesis
          by (simp add: four_slots_def split: result.splits prod.splits nca_build_error.splits)
      qed
    next
      case (Err e)
      then show ?thesis using lay_out_outcome(1) [OF assms(1)] by simp
    next
      case Panic
      then have "zero_block (ws_data s)" using lay_out_outcome(2) [OF assms(1), of s] by simp
      moreover have "nca_place sha (h, body) (k, Some s) = Panic" using us Panic by (simp add: nca_place_def)
      ultimately show ?thesis using Some by simp
    qed
  qed
qed

section \<open>The archive as a whole\<close>

lemma start_header_slots: "four_slots (nca_start_header b)"
  by (simp add: nca_start_header_def four_slots_def nca_consts split: prod.split)

lemma start_header_empty:
  assumes "i < 4"
  shows "nh_section_entries (nca_start_header b) ! i = EMPTY_SECTION_ENTRY"
    "nh_section_hashes (nca_start_header b) ! i = zeros 0x20"
    "nh_fs_headers (nca_start_header b) ! i = EMPTY_FS_HEADER"
  using assms by (simp_all add: nca_start_header_def nca_consts split: prod.split)

lemma start_header_fields:
  "nh_fixed_key_sig (nca_start_header b) = zeros 0x100" "nh_npdm_key_sig (nca_start_header b) = zeros 0x100"
  "nh_magic (nca_start_header b) = NCA3_MAGIC"
  "nh_content_type (nca_start_header b) = nca_content_type_u8 (nb_content_type b)"
  "nh_title_id (nca_start_header b) = nb_title_id b" "nh_sdk_version (nca_start_header b) = nb_sdk_version b"
  "nh_reserved_0x218 (nca_start_header b) = zeros 4" "nh_reserved_0x221 (nca_start_header b) = zeros 0xF"
  "nh_rights_id (nca_start_header b) = zeros 0x10" "nh_reserved_0x340 (nca_start_header b) = zeros 0xC0"
  "nh_encrypted_keys (nca_start_header b) = nb_key_area b"
  "nh_crypto_type (nca_start_header b) = fst (split_key_generation (nb_key_generation b))"
  "nh_crypto_type2 (nca_start_header b) = snd (split_key_generation (nb_key_generation b))"
  by (simp_all add: nca_start_header_def split: prod.split)

text \<open>The fields a slot does not touch.\<close>

lemma only_slots_differ_fields:
  assumes "only_slots_differ h h'"
  shows "nh_fixed_key_sig h' = nh_fixed_key_sig h" "nh_npdm_key_sig h' = nh_npdm_key_sig h"
    "nh_magic h' = nh_magic h" "nh_content_type h' = nh_content_type h" "nh_title_id h' = nh_title_id h"
    "nh_sdk_version h' = nh_sdk_version h" "nh_reserved_0x218 h' = nh_reserved_0x218 h"
    "nh_reserved_0x221 h' = nh_reserved_0x221 h" "nh_rights_id h' = nh_rights_id h"
    "nh_reserved_0x340 h' = nh_reserved_0x340 h" "nh_encrypted_keys h' = nh_encrypted_keys h"
    "nh_crypto_type h' = nh_crypto_type h" "nh_crypto_type2 h' = nh_crypto_type2 h"
    "nh_nca_size h' = nh_nca_size h"
proof -
  have "h' = h\<lparr>nh_section_entries := nh_section_entries h', nh_section_hashes := nh_section_hashes h',
            nh_fs_headers := nh_fs_headers h'\<rparr>"
    using assms unfolding only_slots_differ_def by blast
  then obtain es hs fs where "h' = h\<lparr>nh_section_entries := es, nh_section_hashes := hs, nh_fs_headers := fs\<rparr>"
    by blast
  then show "nh_fixed_key_sig h' = nh_fixed_key_sig h" "nh_npdm_key_sig h' = nh_npdm_key_sig h"
    "nh_magic h' = nh_magic h" "nh_content_type h' = nh_content_type h" "nh_title_id h' = nh_title_id h"
    "nh_sdk_version h' = nh_sdk_version h" "nh_reserved_0x218 h' = nh_reserved_0x218 h"
    "nh_reserved_0x221 h' = nh_reserved_0x221 h" "nh_rights_id h' = nh_rights_id h"
    "nh_reserved_0x340 h' = nh_reserved_0x340 h" "nh_encrypted_keys h' = nh_encrypted_keys h"
    "nh_crypto_type h' = nh_crypto_type h" "nh_crypto_type2 h' = nh_crypto_type2 h"
    "nh_nca_size h' = nh_nca_size h"
    by simp_all
qed

lemma EMPTY_FS_HEADER_wf: "nca_fs_header_wf EMPTY_FS_HEADER"
  by (simp add: nca_fs_header_wf_def EMPTY_FS_HEADER_def)

lemma placed_wf:
  assumes "digest_size sha" "placed sha h body i s"
  shows "nca_fs_header_wf (nh_fs_headers h ! i)" "length (nh_section_hashes h ! i) = 0x20"
    "length (ns_reserved (nh_section_entries h ! i)) = 8"
proof -
  obtain data where lay: "lay_out_section sha s = Ok (data, nh_fs_headers h ! i)"
    and len: "sec_start h i + length data \<le> sec_end h i"
    using assms(2) by (auto simp: placed_def)
  have "unat (ns_media_end_offset (nh_section_entries h ! i)) < 2 ^ 32" by (rule unat_u32_bound)
  then have "sec_end h i \<le> 2 ^ 58" by (simp add: sec_end_def MEDIA_UNIT_SIZE_def)
  with len have "length data \<le> 2 ^ 58" by linarith
  then show "nca_fs_header_wf (nh_fs_headers h ! i)" by (rule lay_out_ok [OF assms(1) lay])
  show "length (nh_section_hashes h ! i) = 0x20" "length (ns_reserved (nh_section_entries h ! i)) = 8"
    using assms by (auto simp: placed_def digest_size_def)
qed

text \<open>Everything a successful build fixes.\<close>

lemma nca_build_ok:
  assumes "nca_build sha b = Ok p" "nca_builder_inv b" "digest_size sha"
  shows "only_slots_differ (nca_start_header b\<lparr>nh_nca_size := word_of_nat (NCA_HEADER_SIZE + length (pn_body p))\<rparr>) (pn_header p)"
    and "NCA_HEADER_SIZE + length (pn_body p) < 2 ^ 41"
    and "\<forall>i<4. \<forall>s. nb_sections b ! i = Some s \<longrightarrow> placed sha (pn_header p) (pn_body p) i s"
    and "\<forall>i<4. nb_sections b ! i = None \<longrightarrow> same_slot (nca_start_header b) (pn_header p) i"
    and "\<forall>i j. i < j \<and> j < 4 \<and> nb_sections b ! i \<noteq> None \<and> nb_sections b ! j \<noteq> None
          \<longrightarrow> sec_end (pn_header p) i \<le> sec_start (pn_header p) j"
    and "nca_header_wf (pn_header p)"
proof -
  obtain h body where fold: "rfold (nca_place sha) (nca_start_header b, []) (enumerate 0 (nb_sections b)) = Ok (h, body)"
    and p: "p = \<lparr>pn_header = h\<lparr>nh_nca_size := word_of_nat (NCA_HEADER_SIZE + length body)\<rparr>, pn_body = body\<rparr>"
    using assms(1) by (auto simp: nca_build_def rbind_eq_Ok)
  have n: "length (nb_sections b) = 4" using assms(2) by (simp add: nca_builder_inv_def)
  have "\<exists>ext. body = [] @ ext \<and> MEDIA_UNIT_SIZE dvd length body \<and> only_slots_differ (nca_start_header b) h
    \<and> (\<forall>j<length (nb_sections b). \<forall>s. nb_sections b ! j = Some s \<longrightarrow> placed sha h body (0 + j) s
          \<and> NCA_HEADER_SIZE + length ([] :: bytes) \<le> sec_start h (0 + j))
    \<and> (\<forall>j. j < 0 \<or> 0 + length (nb_sections b) \<le> j \<or> nb_sections b ! (j - 0) = None
          \<longrightarrow> same_slot (nca_start_header b) h j)
    \<and> (\<forall>i j. i < j \<and> j < length (nb_sections b) \<and> nb_sections b ! i \<noteq> None \<and> nb_sections b ! j \<noteq> None
          \<longrightarrow> sec_end h (0 + i) \<le> sec_start h (0 + j))"
    by (rule nca_place_all [OF fold start_header_slots]) (simp_all add: n)
  then have all: "only_slots_differ (nca_start_header b) h"
    "\<forall>j<4. \<forall>s. nb_sections b ! j = Some s \<longrightarrow> placed sha h body j s"
    "\<forall>j<4. nb_sections b ! j = None \<longrightarrow> same_slot (nca_start_header b) h j"
    "\<forall>i j. i < j \<and> j < 4 \<and> nb_sections b ! i \<noteq> None \<and> nb_sections b ! j \<noteq> None
          \<longrightarrow> sec_end h i \<le> sec_start h j"
    by (simp_all add: n)
  have sec: "sec_start (pn_header p) i = sec_start h i" "sec_end (pn_header p) i = sec_end h i" for i
    by (simp_all add: sec_start_def sec_end_def p)
  have "four_slots h" using four_slots_differ [OF all(1)] start_header_slots by simp
  then have l4: "length (nh_section_entries h) = 4" "length (nh_section_hashes h) = 4" "length (nh_fs_headers h) = 4"
    by (simp_all add: four_slots_def)
  show d: "only_slots_differ (nca_start_header b\<lparr>nh_nca_size := word_of_nat (NCA_HEADER_SIZE + length (pn_body p))\<rparr>) (pn_header p)"
    using all(1) unfolding p only_slots_differ_def by (cases h) simp
  show "NCA_HEADER_SIZE + length (pn_body p) < 2 ^ 41"
    using nca_place_outcome [OF assms(3) start_header_slots, of 0 "nb_sections b" "[]" b] fold
    by (simp add: n p NCA_HEADER_SIZE_def)
  show pl: "\<forall>i<4. \<forall>s. nb_sections b ! i = Some s \<longrightarrow> placed sha (pn_header p) (pn_body p) i s"
    using all(2) by (simp add: placed_def sec) (simp add: p)
  show em: "\<forall>i<4. nb_sections b ! i = None \<longrightarrow> same_slot (nca_start_header b) (pn_header p) i"
    using all(3) by (simp add: same_slot_def p)
  show "\<forall>i j. i < j \<and> j < 4 \<and> nb_sections b ! i \<noteq> None \<and> nb_sections b ! j \<noteq> None
          \<longrightarrow> sec_end (pn_header p) i \<le> sec_start (pn_header p) j"
    using all(4) by (simp add: sec)
  have slot: "nca_fs_header_wf (nh_fs_headers (pn_header p) ! i) \<and> length (nh_section_hashes (pn_header p) ! i) = 0x20
    \<and> length (ns_reserved (nh_section_entries (pn_header p) ! i)) = 8" if "i < 4" for i
  proof (cases "nb_sections b ! i")
    case None
    then have "same_slot (nca_start_header b) (pn_header p) i" using em that by blast
    then show ?thesis
      using start_header_empty [OF that, of b] EMPTY_FS_HEADER_wf
      by (simp add: same_slot_def EMPTY_SECTION_ENTRY_def)
  next
    case (Some s)
    then have "placed sha (pn_header p) (pn_body p) i s" using pl that by blast
    then show ?thesis using placed_wf [OF assms(3)] by blast
  qed
  have rest: "length (nh_fixed_key_sig (pn_header p)) = 0x100" "length (nh_npdm_key_sig (pn_header p)) = 0x100"
    "length (nh_reserved_0x218 (pn_header p)) = 4" "length (nh_reserved_0x221 (pn_header p)) = 0xF"
    "length (nh_rights_id (pn_header p)) = 0x10" "length (nh_reserved_0x340 (pn_header p)) = 0xC0"
    "nh_encrypted_keys (pn_header p) = nb_key_area b"
    using only_slots_differ_fields [OF d] by (simp_all add: start_header_fields)
  show "nca_header_wf (pn_header p)"
    unfolding nca_header_wf_def
    using slot rest assms(2) l4 by (auto simp: p nca_builder_inv_def in_set_conv_nth)
qed

end
