(* ===== verification/Nca_Read.thy ===== *)
theory Nca_Read
  imports Nca_Layout
begin

text \<open>
  The NCA reader of \<^verbatim>\<open>src/read/nca.rs\<close>, over a decrypted image.  Media offsets and the
  offsets of a superblock are 64-bit in the source; none of the products here can leave that
  range, and the one sum that could is checked.
\<close>

section \<open>Errors\<close>

datatype nca_parse_error =
    Nca_BufferTooSmall nat nat
  | Nca_InvalidMagic u32
  | Nca_UnknownContentType u8
  | Nca_UnknownHashType nat u8
  | Nca_UnknownCryptType nat u8
  | Nca_SectionBoundsInvalid nat nat nat
  | Nca_SectionOutOfBounds nat nat nat nat
  | Nca_SuperblockUnreadable nat
  | Nca_IvfcLevelCountInvalid nat u32
  | Nca_DataRegionOutOfBounds nat nat nat nat

section \<open>The checks\<close>

definition nca_read_content_type :: "u8 \<Rightarrow> (nca_content_type, nca_parse_error) result" where
  "nca_read_content_type v =
     (if v = nca_content_type_u8 Nca_Program then Ok Nca_Program
      else if v = nca_content_type_u8 Nca_Meta then Ok Nca_Meta
      else if v = nca_content_type_u8 Nca_Control then Ok Nca_Control
      else if v = nca_content_type_u8 Nca_Manual then Ok Nca_Manual
      else if v = nca_content_type_u8 Nca_Data then Ok Nca_Data
      else if v = nca_content_type_u8 Nca_PublicData then Ok Nca_PublicData
      else Err (Nca_UnknownContentType v))"

definition nca_read_hash_type :: "nat \<Rightarrow> u8 \<Rightarrow> (nca_hash_type, nca_parse_error) result" where
  "nca_read_hash_type index v =
     (if v = nca_hash_type_u8 Hash_Pfs0 then Ok Hash_Pfs0
      else if v = nca_hash_type_u8 Hash_RomFs then Ok Hash_RomFs
      else Err (Nca_UnknownHashType index v))"

definition nca_read_crypt_type :: "nat \<Rightarrow> u8 \<Rightarrow> (nca_crypt_type, nca_parse_error) result" where
  "nca_read_crypt_type index v =
     (if v = nca_crypt_type_u8 Crypt_None then Ok Crypt_None
      else if v = nca_crypt_type_u8 Crypt_Xts then Ok Crypt_Xts
      else if v = nca_crypt_type_u8 Crypt_Ctr then Ok Crypt_Ctr
      else if v = nca_crypt_type_u8 Crypt_Bktr then Ok Crypt_Bktr
      else Err (Nca_UnknownCryptType index v))"

definition nca_section_range ::
  "nat \<Rightarrow> nca_section_entry \<Rightarrow> nat \<Rightarrow> ((nat \<times> nat) option, nca_parse_error) result" where
  "nca_section_range index entry available =
     (let start = unat (ns_media_start_offset entry) * MEDIA_UNIT_SIZE;
          end = unat (ns_media_end_offset entry) * MEDIA_UNIT_SIZE
      in if end = 0 then Ok None
         else if end < start \<or> start < NCA_HEADER_SIZE then Err (Nca_SectionBoundsInvalid index start end)
         else if end > available then Err (Nca_SectionOutOfBounds index start end available)
         else Ok (Some (start, end)))"

text \<open>\<^verbatim>\<open>T::ref_from_bytes\<close>: the buffer must have exactly the size of the structure.\<close>

definition ref_from_bytes :: "(bytes \<Rightarrow> 'r) \<Rightarrow> nat \<Rightarrow> bytes \<Rightarrow> 'r option" where
  "ref_from_bytes dec n bs = (if length bs = n then Some (dec bs) else None)"

definition nca_data_region ::
  "nat \<Rightarrow> nca_fs_header \<Rightarrow> nca_hash_type \<Rightarrow> (nat \<times> nat, nca_parse_error) result" where
  "nca_data_region index fs_header hash_type =
     (case hash_type of
        Hash_Pfs0 \<Rightarrow>
          rbind (ok_or (Nca_SuperblockUnreadable index)
                  (ref_from_bytes dec_pfs0_superblock 0x138 (fh_superblock fs_header))) (\<lambda>superblock.
            Ok (unat (ps_pfs0_offset superblock), unat (ps_pfs0_size superblock)))
      | Hash_RomFs \<Rightarrow>
          rbind (ok_or (Nca_SuperblockUnreadable index)
                  (ref_from_bytes dec_romfs_superblock 0x138 (fh_superblock fs_header))) (\<lambda>superblock.
          let ivfc = rs_ivfc_header superblock in
          rbind (ok_or (Nca_IvfcLevelCountInvalid index (iv_level_count ivfc))
                  (checked_sub (unat (iv_level_count ivfc)) 2)) (\<lambda>last.
          rbind (if last < length (iv_level_headers ivfc) then Ok (iv_level_headers ivfc ! last)
                 else Err (Nca_IvfcLevelCountInvalid index (iv_level_count ivfc))) (\<lambda>level.
            Ok (unat (il_logical_offset level), unat (il_hash_data_size level))))))"

definition nca_data_range ::
  "nat \<Rightarrow> nca_fs_header \<Rightarrow> nca_hash_type \<Rightarrow> nat \<Rightarrow> (nat \<times> nat, nca_parse_error) result" where
  "nca_data_range index fs_header hash_type section_size =
     rbind (nca_data_region index fs_header hash_type) (\<lambda>(offset, size).
     rbind (ok_or (Nca_DataRegionOutOfBounds index offset size section_size) (checked_add offset size)) (\<lambda>end.
       if end > section_size then Err (Nca_DataRegionOutOfBounds index offset size section_size)
       else Ok (offset, end)))"

section \<open>Validation\<close>

record nca =
  nr_bytes :: bytes
  nr_header :: nca_header
  nr_content_type :: nca_content_type

text \<open>One turn of the validation loop; the indexing panics out of range.\<close>

definition nca_check_section ::
  "nca_header \<Rightarrow> nat \<Rightarrow> unit \<Rightarrow> nat \<Rightarrow> (unit, nca_parse_error) result" where
  "nca_check_section header available u index =
     rbind (at (nh_section_entries header) index) (\<lambda>entry.
     rbind (at (nh_fs_headers header) index) (\<lambda>fs_header.
     rbind (nca_section_range index entry available) (\<lambda>r.
       case r of
         None \<Rightarrow> Ok ()
       | Some (start, end) \<Rightarrow>
           rbind (nca_read_crypt_type index (fh_crypt_type fs_header)) (\<lambda>_.
           rbind (nca_read_hash_type index (fh_hash_type fs_header)) (\<lambda>hash_type.
           rbind (nca_data_range index fs_header hash_type (end - start)) (\<lambda>_. Ok ()))))))"

definition nca_try_from_bytes :: "bytes \<Rightarrow> (nca, nca_parse_error) result" where
  "nca_try_from_bytes bs =
     rbind (ok_or (Nca_BufferTooSmall NCA_HEADER_SIZE (length bs))
             (ref_from_prefix dec_nca_header 0xC00 bs)) (\<lambda>(header, _).
     if nh_magic header \<noteq> NCA3_MAGIC then Err (Nca_InvalidMagic (nh_magic header))
     else
       rbind (nca_read_content_type (nh_content_type header)) (\<lambda>content_type.
       rbind (rfold (nca_check_section header (length bs)) () [0..<NCA_SECTION_COUNT]) (\<lambda>_.
         Ok \<lparr>nr_bytes = bs, nr_header = header, nr_content_type = content_type\<rparr>)))"

section \<open>Accessors of the archive\<close>

definition nca_title_id :: "nca \<Rightarrow> u64" where
  "nca_title_id n = nh_title_id (nr_header n)"

definition nca_nca_size :: "nca \<Rightarrow> u64" where
  "nca_nca_size n = nh_nca_size (nr_header n)"

definition nca_key_generation :: "nca \<Rightarrow> u8" where
  "nca_key_generation n = max (max (nh_crypto_type (nr_header n)) (nh_crypto_type2 (nr_header n))) 1"

record nca_section =
  sx_index :: nat
  sx_range :: "nat \<times> nat"
  sx_fs_header :: nca_fs_header
  sx_bytes :: bytes
  sx_data :: bytes

text \<open>\<^verbatim>\<open>r.ok()?\<close> in a function returning an option: an error becomes an absent result.\<close>

fun result_ok :: "('a, 'e) result \<Rightarrow> ('a option \<Rightarrow> ('b, 'f) result) \<Rightarrow> ('b, 'f) result" where
  "result_ok (Ok x) f = f (Some x)"
| "result_ok (Err e) f = f None"
| "result_ok Panic f = Panic"

definition nca_section_at :: "nca \<Rightarrow> nat \<Rightarrow> (nca_section option, 'e) result" where
  "nca_section_at n index =
     (if \<not> index < NCA_SECTION_COUNT then Panic
      else
        rbind (at (nh_section_entries (nr_header n)) index) (\<lambda>entry.
        rbind (at (nh_fs_headers (nr_header n)) index) (\<lambda>fs_header.
        result_ok (nca_section_range index entry (length (nr_bytes n))) (\<lambda>r.
        case r of
          None \<Rightarrow> Ok None
        | Some None \<Rightarrow> Ok None
        | Some (Some (start, end)) \<Rightarrow>
            rbind (slice (nr_bytes n) start end) (\<lambda>bytes.
            result_ok (nca_read_hash_type index (fh_hash_type fs_header)) (\<lambda>ht.
            case ht of
              None \<Rightarrow> Ok None
            | Some hash_type \<Rightarrow>
                result_ok (nca_data_range index fs_header hash_type (length bytes)) (\<lambda>d.
                case d of
                  None \<Rightarrow> Ok None
                | Some (from, to) \<Rightarrow>
                    rbind (slice bytes from to) (\<lambda>data.
                      Ok (Some \<lparr>sx_index = index, sx_range = (start, end), sx_fs_header = fs_header,
                                sx_bytes = bytes, sx_data = data\<rparr>)))))))))"

text \<open>\<^verbatim>\<open>sections\<close>: the present slots in order.\<close>

definition nca_sections :: "nca \<Rightarrow> (nca_section list, 'e) result" where
  "nca_sections n =
     rfold (\<lambda>acc i. rbind (nca_section_at n i) (\<lambda>s.
         Ok (case s of None \<Rightarrow> acc | Some x \<Rightarrow> acc @ [x]))) [] [0..<NCA_SECTION_COUNT]"

section \<open>Accessors of a section\<close>

definition nca_section_fs_type :: "nca_section \<Rightarrow> nca_fs_type" where
  "nca_section_fs_type s =
     (if fh_fs_type (sx_fs_header s) = nca_fs_type_u8 Fs_Pfs0 then Fs_Pfs0 else Fs_RomFs)"

definition nca_section_encryption :: "nca_section \<Rightarrow> nca_crypt_type" where
  "nca_section_encryption s =
     (case nca_read_crypt_type (sx_index s) (fh_crypt_type (sx_fs_header s)) of
        Ok t \<Rightarrow> t | _ \<Rightarrow> Crypt_None)"

datatype nca_superblock_view =
    View_Pfs0 pfs0_superblock
  | View_RomFs romfs_superblock
  | View_Unreadable

definition nca_section_superblock :: "nca_section \<Rightarrow> nca_superblock_view" where
  "nca_section_superblock s =
     (case nca_read_hash_type (sx_index s) (fh_hash_type (sx_fs_header s)) of
        Ok Hash_Pfs0 \<Rightarrow>
          (case ref_from_bytes dec_pfs0_superblock 0x138 (fh_superblock (sx_fs_header s)) of
             None \<Rightarrow> View_Unreadable | Some b \<Rightarrow> View_Pfs0 b)
      | _ \<Rightarrow>
          (case ref_from_bytes dec_romfs_superblock 0x138 (fh_superblock (sx_fs_header s)) of
             None \<Rightarrow> View_Unreadable | Some b \<Rightarrow> View_RomFs b))"

definition nca_section_counter :: "nca_section \<Rightarrow> bytes option" where
  "nca_section_counter s =
     (if nca_section_encryption s \<noteq> Crypt_Ctr then None
      else Some (rev (fh_section_ctr (sx_fs_header s)) @ rev (le64 (word_of_nat (fst (sx_range s) div 0x10)))))"

section \<open>What validation proves\<close>

lemma read_types_no_panic [simp]:
  "nca_read_content_type v \<noteq> Panic" "nca_read_hash_type i v \<noteq> Panic" "nca_read_crypt_type i v \<noteq> Panic"
  "nca_section_range i e n \<noteq> Panic"
  by (simp_all add: nca_read_content_type_def nca_read_hash_type_def nca_read_crypt_type_def
      nca_section_range_def Let_def)

lemma nca_data_range_no_panic [simp]: "nca_data_range i fs ht n \<noteq> Panic"
  by (auto simp: nca_data_range_def nca_data_region_def Let_def rbind_eq_Panic split: nca_hash_type.splits if_splits)

text \<open>A section that passed, in terms of what the accessors recompute.\<close>

definition section_ok :: "nca_header \<Rightarrow> nat \<Rightarrow> nat \<Rightarrow> bool" where
  "section_ok header available i \<longleftrightarrow>
     (let e = nh_section_entries header ! i; fs = nh_fs_headers header ! i;
          st = unat (ns_media_start_offset e) * MEDIA_UNIT_SIZE;
          en = unat (ns_media_end_offset e) * MEDIA_UNIT_SIZE
      in en = 0
         \<or> NCA_HEADER_SIZE \<le> st \<and> st \<le> en \<and> en \<le> available
           \<and> (\<exists>c. nca_read_crypt_type i (fh_crypt_type fs) = Ok c)
           \<and> (\<exists>ht off size. nca_read_hash_type i (fh_hash_type fs) = Ok ht
                \<and> nca_data_region i fs ht = Ok (off, size) \<and> off + size \<le> en - st))"

lemma nca_data_range_Ok:
  assumes "n \<le> usize_max"
  shows "nca_data_range i fs ht n = Ok (a, b) \<longleftrightarrow>
    (\<exists>size. nca_data_region i fs ht = Ok (a, size) \<and> b = a + size \<and> b \<le> n)"
  using assms
  by (cases "nca_data_region i fs ht") (auto simp: nca_data_range_def rbind_eq_Ok split: if_splits prod.splits)

lemma nca_check_section_iff:
  assumes "i < length (nh_section_entries header)" "i < length (nh_fs_headers header)" "available \<le> usize_max"
  shows "nca_check_section header available u i = Ok () \<longleftrightarrow> section_ok header available i"
proof -
  let ?st = "unat (ns_media_start_offset (nh_section_entries header ! i)) * MEDIA_UNIT_SIZE"
  let ?en = "unat (ns_media_end_offset (nh_section_entries header ! i)) * MEDIA_UNIT_SIZE"
  have "?en \<le> available \<Longrightarrow> ?en - ?st \<le> usize_max" using assms(3) by linarith
  then show ?thesis
    using assms(1,2)
    by (auto simp: nca_check_section_def nca_section_range_def section_ok_def Let_def run_simps
        rbind_eq_Ok nca_data_range_Ok)
qed

lemma nca_check_no_panic:
  assumes "length (nh_section_entries header) = 4" "length (nh_fs_headers header) = 4" "i < 4"
  shows "nca_check_section header available u i \<noteq> Panic"
  using assms
  by (auto simp: nca_check_section_def rbind_eq_Panic run_simps split: option.splits)

lemma dec_nca_header_wf: "0xC00 \<le> length bs \<Longrightarrow> nca_header_wf (dec_nca_header bs)"
  by (rule nca_header.dec_wf)

lemma nca_header_wf_lengths:
  "nca_header_wf h \<Longrightarrow> length (nh_section_entries h) = 4 \<and> length (nh_fs_headers h) = 4"
  by (simp add: nca_header_wf_def)

lemma nca_try_Ok:
  assumes "length bs \<le> usize_max"
  shows "nca_try_from_bytes bs = Ok n \<longleftrightarrow>
    0xC00 \<le> length bs \<and> nh_magic (dec_nca_header bs) = NCA3_MAGIC
    \<and> nr_bytes n = bs \<and> nr_header n = dec_nca_header bs
    \<and> nca_read_content_type (nh_content_type (dec_nca_header bs)) = Ok (nr_content_type n)
    \<and> (\<forall>i<4. section_ok (dec_nca_header bs) (length bs) i)" (is "?l \<longleftrightarrow> ?r")
proof (cases "0xC00 \<le> length bs")
  case False
  then show ?thesis by (simp add: nca_try_from_bytes_def run_simps)
next
  case True
  let ?h = "dec_nca_header bs"
  let ?chk = "rfold (nca_check_section ?h (length bs)) () [0..<4]"
  note len = nca_header_wf_lengths [OF dec_nca_header_wf [OF True]]
  have iff: "nca_check_section ?h (length bs) u i = Ok () \<longleftrightarrow> section_ok ?h (length bs) i" if "i < 4" for u i
    by (rule nca_check_section_iff) (use that len assms in simp_all)
  have loop: "?chk = Ok () \<longleftrightarrow> (\<forall>i<4. section_ok ?h (length bs) i)"
  proof
    assume ok: "?chk = Ok ()"
    show "\<forall>i<4. section_ok ?h (length bs) i"
    proof (intro allI impI)
      fix i :: nat assume "i < 4"
      then have "nca_check_section ?h (length bs) () i = Ok ()" by (intro rfold_unit_all [OF ok]) simp
      with iff [OF \<open>i < 4\<close>] show "section_ok ?h (length bs) i" by blast
    qed
  qed (rule rfold_unit, use iff in simp)
  have "nca_try_from_bytes bs = Ok n \<longleftrightarrow> nh_magic ?h = NCA3_MAGIC
      \<and> (\<exists>t. nca_read_content_type (nh_content_type ?h) = Ok t \<and> ?chk = Ok ()
           \<and> n = \<lparr>nr_bytes = bs, nr_header = ?h, nr_content_type = t\<rparr>)"
    using True by (auto simp: nca_try_from_bytes_def ref_from_prefix_run NCA_SECTION_COUNT_def rbind_eq_Ok)
  also have "\<dots> \<longleftrightarrow> ?r" using True by (cases n) (auto simp: loop)
  finally show ?thesis .
qed

lemma nca_try_no_panic: "nca_try_from_bytes bs \<noteq> Panic"
proof (cases "0xC00 \<le> length bs")
  case True
  note len = nca_header_wf_lengths [OF dec_nca_header_wf [OF True]]
  have "rfold (nca_check_section (dec_nca_header bs) (length bs)) () [0..<4] \<noteq> Panic"
    by (rule rfold_no_panic) (use len in \<open>simp add: nca_check_no_panic\<close>)
  with True show ?thesis
    by (auto simp: nca_try_from_bytes_def ref_from_prefix_run NCA_SECTION_COUNT_def rbind_eq_Panic)
qed (simp add: nca_try_from_bytes_def run_simps)

text \<open>The section a slot holds, in closed form.\<close>

definition nca_slot :: "bytes \<Rightarrow> nca_header \<Rightarrow> nat \<Rightarrow> nat \<Rightarrow> nat \<Rightarrow> nca_section" where
  "nca_slot bs header i from to =
     (let e = nh_section_entries header ! i;
          st = unat (ns_media_start_offset e) * MEDIA_UNIT_SIZE;
          en = unat (ns_media_end_offset e) * MEDIA_UNIT_SIZE
      in \<lparr>sx_index = i, sx_range = (st, en), sx_fs_header = nh_fs_headers header ! i,
          sx_bytes = sub_bytes bs st (en - st), sx_data = sub_bytes (sub_bytes bs st (en - st)) from (to - from)\<rparr>)"

lemma nca_section_at_checked:
  assumes "nca_try_from_bytes bs = Ok n" "length bs \<le> usize_max" "i < 4"
  shows "(ns_media_end_offset (nh_section_entries (nr_header n) ! i) = 0
      \<and> (nca_section_at n i :: (nca_section option, 'e) result) = Ok None)
    \<or> (\<exists>ht off size.
         nca_read_hash_type i (fh_hash_type (nh_fs_headers (nr_header n) ! i)) = Ok ht
         \<and> nca_data_region i (nh_fs_headers (nr_header n) ! i) ht = Ok (off, size)
         \<and> (nca_section_at n i :: (nca_section option, 'e) result)
             = Ok (Some (nca_slot bs (nr_header n) i off (off + size)))
         \<and> off + size \<le> length (sx_bytes (nca_slot bs (nr_header n) i off (off + size)))
         \<and> snd (sx_range (nca_slot bs (nr_header n) i off (off + size))) \<le> length bs
         \<and> fst (sx_range (nca_slot bs (nr_header n) i off (off + size)))
             \<le> snd (sx_range (nca_slot bs (nr_header n) i off (off + size)))
         \<and> NCA_HEADER_SIZE \<le> fst (sx_range (nca_slot bs (nr_header n) i off (off + size))))"
proof -
  let ?h = "dec_nca_header bs"
  from assms(1) have long: "0xC00 \<le> length bs" and n: "nr_bytes n = bs" "nr_header n = ?h"
    and ok: "section_ok ?h (length bs) i"
    using nca_try_Ok [OF assms(2)] assms(3) by auto
  note len = nca_header_wf_lengths [OF dec_nca_header_wf [OF long]]
  let ?e = "nh_section_entries ?h ! i" and ?fs = "nh_fs_headers ?h ! i"
  let ?st = "unat (ns_media_start_offset ?e) * MEDIA_UNIT_SIZE"
  let ?en = "unat (ns_media_end_offset ?e) * MEDIA_UNIT_SIZE"
  show ?thesis
  proof (cases "?en = 0")
    case True
    then have "ns_media_end_offset ?e = 0" by (simp add: MEDIA_UNIT_SIZE_def unat_eq_0)
    then show ?thesis
      using assms(3) len n by (simp add: nca_section_at_def NCA_SECTION_COUNT_def run_simps nca_section_range_def)
  next
    case False
    with ok obtain ht off size where b: "NCA_HEADER_SIZE \<le> ?st" "?st \<le> ?en" "?en \<le> length bs"
      and ht: "nca_read_hash_type i (fh_hash_type ?fs) = Ok ht"
      and reg: "nca_data_region i ?fs ht = Ok (off, size)" and fit: "off + size \<le> ?en - ?st"
      by (auto simp: section_ok_def Let_def)
    have rng: "nca_section_range i ?e (length bs) = Ok (Some (?st, ?en))"
      using b False by (simp add: nca_section_range_def Let_def)
    have l: "length (sub_bytes bs ?st (?en - ?st)) = ?en - ?st"
      by (rule length_sub_bytes) (use b in simp)
    have dr: "nca_data_range i ?fs ht (?en - ?st) = Ok (off, off + size)"
      using reg fit b assms(2) by (simp add: nca_data_range_Ok)
    have "(nca_section_at n i :: (nca_section option, 'e) result) = Ok (Some (nca_slot bs ?h i off (off + size)))"
      using assms(3) len n b l fit rng ht dr
      by (simp add: nca_section_at_def NCA_SECTION_COUNT_def run_simps nca_slot_def Let_def sub_bytes_def)
    with ht reg fit b l n show ?thesis by (simp add: nca_slot_def Let_def)
  qed
qed

end
