(* ===== verification/Nca_Roundtrip.thy ===== *)
theory Nca_Roundtrip
  imports Nca_Build Nca_Read
begin

text \<open>
  The reader on what the builder made: a built archive passes validation, and every slot comes back
  as the section that was placed there.
\<close>

text \<open>The data region the reader computes is the payload the section verifies.\<close>

lemma laid_out_region:
  assumes "digest_size sha" "lay_out_section sha s = Ok (data, fs)" "length data \<le> 2 ^ 58"
  shows "\<exists>ht off size. nca_read_hash_type i (fh_hash_type fs) = Ok ht
    \<and> nca_data_region i fs ht = Ok (off, size) \<and> off + size \<le> length data
    \<and> (\<forall>bs. section_payload fs bs = sub_bytes bs off size)"
proof (cases s rule: nca_write_section.cases)
  case (fields d enc)
  show ?thesis
  proof (cases d)
    case (Section_RomFs img)
    let ?t = "ivfc_build sha img" and ?sb = "romfs_superblock_of (ivfc_build sha img)"
    let ?h = "it_level_headers (ivfc_build sha img) ! 5"
    have e: "data = it_data ?t" "fs = romfs_fs_header enc ?t"
      using assms(2) fields Section_RomFs by (simp_all add: lay_out_romfs [OF assms(1)])
    note wf = romfs_superblock_wf [OF assms(1), of img]
    have dec: "dec_romfs_superblock (enc_romfs_superblock ?sb) = ?sb"
      using romfs_superblock.dec_enc [OF wf, of "[]"] by simp
    have len: "length (enc_romfs_superblock ?sb) = 0x138" by (rule romfs_superblock.enc_length [OF wf])
    have "length img \<le> length data" using ivfc_build_shape(2) [of img sha] e(1) by simp
    then have small: "length img \<le> 2 ^ 58" using assms(3) by linarith
    have six: "length (it_level_headers ?t) = 6" by (rule ivfc_build_shape)
    have hs: "iv_level_headers (rs_ivfc_header ?sb) = it_level_headers ?t"
      "iv_master_hash (rs_ivfc_header ?sb) = it_master_hash ?t" by (simp_all add: romfs_superblock_of_def)
    have count: "iv_level_count (rs_ivfc_header ?sb) = 7" by (simp add: romfs_superblock_of_def)
    note built = ivfc_built(4,5) [OF assms(1) small hs]
    have reg: "nca_data_region i fs Hash_RomFs = Ok (unat (il_logical_offset ?h), unat (il_hash_data_size ?h))"
      using len six by (simp add: nca_data_region_def e romfs_fs_header_def ref_from_bytes_def dec Let_def
          run_simps hs count)
    have pay: "section_payload fs bs = sub_bytes bs (unat (il_logical_offset ?h)) (unat (il_hash_data_size ?h))" for bs
      using built(2) by (simp add: section_payload_def e romfs_fs_header_def dec ivfc_image_def ivfc_level_def hs)
    have "nca_read_hash_type i (fh_hash_type fs) = Ok Hash_RomFs"
      by (simp add: nca_read_hash_type_def e romfs_fs_header_def)
    with reg pay built(1) show ?thesis by (auto simp: hs e)
  next
    case (Section_Partition archive n)
    with assms(2) fields obtain sb where
      b: "(partition_build sha archive n :: (bytes \<times> pfs0_superblock, nca_build_error) result) = Ok (data, sb)"
      and fs: "fs = partition_fs_header enc sb"
      by (auto simp: lay_out_partition [OF assms(1)] rbind_eq_Ok)
    note sh = partition_build_shape [OF b assms(1)]
    have wf: "length (ps_master_hash sb) = 0x20 \<and> length (ps_reserved sb) = 0xF0" using sh by simp
    have dec: "dec_pfs0_superblock (enc_pfs0_superblock sb) = sb"
      using pfs0_superblock.dec_enc [OF wf, of "[]"] by simp
    have len: "length (enc_pfs0_superblock sb) = 0x138" by (rule pfs0_superblock.enc_length [OF wf])
    have small: "length archive \<le> 2 ^ 58" using sh(1) assms(3) by linarith
    have "partition_verifies sha sb (data @ [])"
      by (rule partition_verifies_built [OF assms(1) sh(2) small b])
    then have fit: "unat (ps_pfs0_offset sb) + unat (ps_pfs0_size sb) \<le> length data"
      by (simp add: partition_verifies_def Let_def)
    have reg: "nca_data_region i fs Hash_Pfs0 = Ok (unat (ps_pfs0_offset sb), unat (ps_pfs0_size sb))"
      using len by (simp add: nca_data_region_def fs partition_fs_header_def ref_from_bytes_def dec)
    have "nca_read_hash_type i (fh_hash_type fs) = Ok Hash_Pfs0"
      by (simp add: nca_read_hash_type_def fs partition_fs_header_def)
    with reg fit show ?thesis
      by (auto simp: section_payload_def fs partition_fs_header_def dec partition_archive_def)
  qed
qed

lemma read_content_type_u8 [simp]: "nca_read_content_type (nca_content_type_u8 t) = Ok t"
  by (cases t) (simp_all add: nca_read_content_type_def)

text \<open>What a placed section looks like in the finished image.\<close>

lemma placed_in_image:
  assumes "placed sha h body i s" "length (enc_nca_header h) = NCA_HEADER_SIZE" "digest_size sha"
  obtains data where
    "lay_out_section sha s = Ok (data, nh_fs_headers h ! i)" "length data \<le> 2 ^ 58"
    "NCA_HEADER_SIZE \<le> sec_start h i" "sec_start h i + length data \<le> sec_end h i"
    "sec_end h i \<le> length (enc_nca_header h @ body)"
    "\<exists>tail. sub_bytes (enc_nca_header h @ body) (sec_start h i) (sec_end h i - sec_start h i) = data @ tail"
proof -
  from assms(1) obtain data where d: "lay_out_section sha s = Ok (data, nh_fs_headers h ! i)"
    "NCA_HEADER_SIZE \<le> sec_start h i" "sec_start h i + length data \<le> sec_end h i"
    "sec_end h i \<le> NCA_HEADER_SIZE + length body"
    "sub_bytes body (sec_start h i - NCA_HEADER_SIZE) (length data) = data"
    by (auto simp: placed_def)
  have "unat (ns_media_end_offset (nh_section_entries h ! i)) < 2 ^ 32" by (rule unat_u32_bound)
  then have "sec_end h i \<le> 2 ^ 58" by (simp add: sec_end_def MEDIA_UNIT_SIZE_def)
  then have small: "length data \<le> 2 ^ 58" using d(3) by linarith
  let ?img = "enc_nca_header h @ body" and ?n = "sec_end h i - sec_start h i"
  have "sub_bytes ?img (sec_start h i) ?n = sub_bytes body (sec_start h i - NCA_HEADER_SIZE) ?n"
    using d(2) assms(2) by (simp add: sub_bytes_def)
  also have "\<dots> = sub_bytes body (sec_start h i - NCA_HEADER_SIZE) (length data)
      @ sub_bytes body (sec_start h i - NCA_HEADER_SIZE + length data) (?n - length data)"
    using d(3) by (subst sub_bytes_join) simp
  finally have "\<exists>tail. sub_bytes ?img (sec_start h i) ?n = data @ tail" by (metis d(5))
  with d small assms(2) that show thesis by simp
qed

lemma section_okI:
  assumes "NCA_HEADER_SIZE \<le> sec_start h i" "sec_start h i \<le> sec_end h i" "sec_end h i \<le> n"
    and "\<exists>c. nca_read_crypt_type i (fh_crypt_type (nh_fs_headers h ! i)) = Ok c"
    and "nca_read_hash_type i (fh_hash_type (nh_fs_headers h ! i)) = Ok ht"
    and "nca_data_region i (nh_fs_headers h ! i) ht = Ok (off, sz)" "off + sz \<le> sec_end h i - sec_start h i"
  shows "section_ok h n i"
  using assms unfolding section_ok_def Let_def sec_start_def sec_end_def by blast

lemma placed_section_ok:
  assumes "placed sha h body i s" "length (enc_nca_header h) = NCA_HEADER_SIZE" "digest_size sha"
  shows "section_ok h (length (enc_nca_header h @ body)) i"
proof -
  obtain data where d: "lay_out_section sha s = Ok (data, nh_fs_headers h ! i)" "length data \<le> 2 ^ 58"
    "NCA_HEADER_SIZE \<le> sec_start h i" "sec_start h i + length data \<le> sec_end h i"
    "sec_end h i \<le> length (enc_nca_header h @ body)"
    using placed_in_image [OF assms] by metis
  have c: "\<exists>c. nca_read_crypt_type i (fh_crypt_type (nh_fs_headers h ! i)) = Ok c"
    using lay_out_ok(4) [OF assms(3) d(1,2)]
    by (cases "ws_encryption s") (simp_all add: nca_read_crypt_type_def)
  obtain ht off size where r: "nca_read_hash_type i (fh_hash_type (nh_fs_headers h ! i)) = Ok ht"
    "nca_data_region i (nh_fs_headers h ! i) ht = Ok (off, size)" "off + size \<le> length data"
    using laid_out_region [OF assms(3) d(1,2), of i] by blast
  have "sec_start h i \<le> sec_end h i" "off + size \<le> sec_end h i - sec_start h i" using d(4) r(3) by linarith+
  with d(3,5) c r(1,2) show ?thesis by (blast intro: section_okI)
qed

lemma empty_section_ok: "nh_section_entries h ! i = EMPTY_SECTION_ENTRY \<Longrightarrow> section_ok h n i"
  by (simp add: section_ok_def EMPTY_SECTION_ENTRY_def)

text \<open>A built archive parses.\<close>

lemma nca_parse_built:
  assumes "nca_build sha b = Ok p" "nca_builder_inv b" "digest_size sha"
  shows "nca_try_from_bytes (plain_nca_to_bytes p)
    = Ok \<lparr>nr_bytes = plain_nca_to_bytes p, nr_header = pn_header p, nr_content_type = nb_content_type b\<rparr>"
    and "length (plain_nca_to_bytes p) = NCA_HEADER_SIZE + length (pn_body p)"
    and "length (plain_nca_to_bytes p) \<le> usize_max"
proof -
  note ok = nca_build_ok [OF assms]
  let ?h = "pn_header p" and ?img = "plain_nca_to_bytes p"
  have len: "length (enc_nca_header ?h) = NCA_HEADER_SIZE"
    using nca_header.enc_length [OF ok(6)] by (simp add: NCA_HEADER_SIZE_def)
  have dec: "dec_nca_header ?img = ?h"
    using nca_header.dec_enc [OF ok(6)] by (simp add: plain_nca_to_bytes_def)
  show l: "length ?img = NCA_HEADER_SIZE + length (pn_body p)" by (simp add: plain_nca_to_bytes_def len)
  then show u: "length ?img \<le> usize_max" using ok(2) by (simp add: usize_max_def)
  note f = only_slots_differ_fields [OF ok(1)]
  have secs: "section_ok ?h (length ?img) i" if "i < 4" for i
  proof (cases "nb_sections b ! i")
    case None
    then have "same_slot (nca_start_header b) ?h i" using ok(4) that by blast
    then show ?thesis
      using start_header_empty(1) [OF that, of b] by (simp add: same_slot_def empty_section_ok)
  next
    case (Some s)
    then have "placed sha ?h (pn_body p) i s" using ok(3) that by blast
    from placed_section_ok [OF this len assms(3)] show ?thesis by (simp add: plain_nca_to_bytes_def)
  qed
  show "nca_try_from_bytes ?img
    = Ok \<lparr>nr_bytes = ?img, nr_header = ?h, nr_content_type = nb_content_type b\<rparr>"
    unfolding nca_try_Ok [OF u]
    using l f secs by (simp add: dec start_header_fields NCA_HEADER_SIZE_def)
qed

text \<open>Every slot comes back.\<close>

lemma nca_slot_built:
  assumes "nca_build sha b = Ok p" "nca_builder_inv b" "digest_size sha" "i < 4"
    and "n = \<lparr>nr_bytes = plain_nca_to_bytes p, nr_header = pn_header p, nr_content_type = nb_content_type b\<rparr>"
  shows "nb_sections b ! i = None \<Longrightarrow> (nca_section_at n i :: (nca_section option, 'e) result) = Ok None"
    and "nb_sections b ! i = Some s \<Longrightarrow> \<exists>x. (nca_section_at n i :: (nca_section option, 'e) result) = Ok (Some x)
      \<and> sx_index x = i \<and> sx_fs_header x = nh_fs_headers (pn_header p) ! i
      \<and> sx_range x = (sec_start (pn_header p) i, sec_end (pn_header p) i)
      \<and> sx_data x = section_content (ws_data s)
      \<and> section_verifies sha (sx_fs_header x) (sx_bytes x)
      \<and> nh_section_hashes (pn_header p) ! i = sha (enc_nca_fs_header (sx_fs_header x))
      \<and> nca_section_encryption x = (case ws_encryption s of Section_None \<Rightarrow> Crypt_None | Section_Ctr \<Rightarrow> Crypt_Ctr)
      \<and> nca_section_fs_type x = (case ws_data s of Section_RomFs _ \<Rightarrow> Fs_RomFs | Section_Partition _ _ \<Rightarrow> Fs_Pfs0)"
proof -
  note ok = nca_build_ok [OF assms(1-3)]
  note parse = nca_parse_built [OF assms(1-3)]
  let ?h = "pn_header p" and ?img = "plain_nca_to_bytes p"
  have at: "nca_try_from_bytes ?img = Ok n" using parse(1) assms(5) by simp
  note checked = nca_section_at_checked [OF at parse(3) assms(4), where 'e = 'e]
  have nh: "nr_header n = ?h" by (simp add: assms(5))
  {
    assume "nb_sections b ! i = None"
    then have "same_slot (nca_start_header b) ?h i" using ok(4) assms(4) by blast
    then have "ns_media_end_offset (nh_section_entries ?h ! i) = 0"
      "ns_media_start_offset (nh_section_entries ?h ! i) = 0"
      using start_header_empty(1) [OF assms(4), of b] by (simp_all add: same_slot_def EMPTY_SECTION_ENTRY_def)
    with checked show "(nca_section_at n i :: (nca_section option, 'e) result) = Ok None"
      by (auto simp: nh nca_slot_def Let_def NCA_HEADER_SIZE_def)
  }
  {
    assume "nb_sections b ! i = Some s"
    then have pl: "placed sha ?h (pn_body p) i s" using ok(3) assms(4) by blast
    have len: "length (enc_nca_header ?h) = NCA_HEADER_SIZE"
      using nca_header.enc_length [OF ok(6)] by (simp add: NCA_HEADER_SIZE_def)
    obtain data where d: "lay_out_section sha s = Ok (data, nh_fs_headers ?h ! i)" "length data \<le> 2 ^ 58"
      "NCA_HEADER_SIZE \<le> sec_start ?h i" "sec_start ?h i + length data \<le> sec_end ?h i"
      "sec_end ?h i \<le> length ?img"
      and tail: "\<exists>tail. sub_bytes ?img (sec_start ?h i) (sec_end ?h i - sec_start ?h i) = data @ tail"
      using placed_in_image [OF pl len assms(3)] by (metis plain_nca_to_bytes_def)
    obtain tail where t: "sub_bytes ?img (sec_start ?h i) (sec_end ?h i - sec_start ?h i) = data @ tail"
      using tail by blast
    note lay = lay_out_ok(1) [OF assms(3) d(1,2)] lay_out_ok(2,3) [OF assms(3) d(1,2), of tail]
      lay_out_ok(4-6) [OF assms(3) d(1,2)]
    obtain ht off size where reg: "nca_read_hash_type i (fh_hash_type (nh_fs_headers ?h ! i)) = Ok ht"
      "nca_data_region i (nh_fs_headers ?h ! i) ht = Ok (off, size)"
      "\<forall>bs. section_payload (nh_fs_headers ?h ! i) bs = sub_bytes bs off size"
      using laid_out_region [OF assms(3) d(1,2), of i] by blast
    have "sec_end ?h i \<noteq> 0" using d(3,4) by (simp add: NCA_HEADER_SIZE_def)
    then have "ns_media_end_offset (nh_section_entries ?h ! i) \<noteq> 0" by (auto simp: sec_end_def)
    with checked reg(1,2) have x: "(nca_section_at n i :: (nca_section option, 'e) result)
        = Ok (Some (nca_slot ?img ?h i off (off + size)))"
      by (auto simp: nh)
    let ?x = "nca_slot ?img ?h i off (off + size)"
    have s: "sx_index ?x = i" "sx_fs_header ?x = nh_fs_headers ?h ! i"
      "sx_range ?x = (sec_start ?h i, sec_end ?h i)" "sx_bytes ?x = data @ tail"
      "sx_data ?x = sub_bytes (data @ tail) off size"
      using t by (simp_all add: nca_slot_def Let_def sec_start_def sec_end_def)
    have "sx_data ?x = section_content (ws_data s)" using reg(3) lay(3) s(5) by metis
    moreover have "nca_section_encryption ?x = (case ws_encryption s of Section_None \<Rightarrow> Crypt_None | Section_Ctr \<Rightarrow> Crypt_Ctr)"
      using lay(4) by (cases "ws_encryption s") (simp_all add: nca_section_encryption_def s nca_read_crypt_type_def)
    moreover have "nca_section_fs_type ?x = (case ws_data s of Section_RomFs _ \<Rightarrow> Fs_RomFs | Section_Partition _ _ \<Rightarrow> Fs_Pfs0)"
      using lay(5) by (cases "ws_data s") (simp_all add: nca_section_fs_type_def s)
    moreover have "nh_section_hashes ?h ! i = sha (enc_nca_fs_header (nh_fs_headers ?h ! i))"
      using pl by (auto simp: placed_def)
    ultimately show "\<exists>x. (nca_section_at n i :: (nca_section option, 'e) result) = Ok (Some x)
      \<and> sx_index x = i \<and> sx_fs_header x = nh_fs_headers ?h ! i
      \<and> sx_range x = (sec_start ?h i, sec_end ?h i)
      \<and> sx_data x = section_content (ws_data s)
      \<and> section_verifies sha (sx_fs_header x) (sx_bytes x)
      \<and> nh_section_hashes ?h ! i = sha (enc_nca_fs_header (sx_fs_header x))
      \<and> nca_section_encryption x = (case ws_encryption s of Section_None \<Rightarrow> Crypt_None | Section_Ctr \<Rightarrow> Crypt_Ctr)
      \<and> nca_section_fs_type x = (case ws_data s of Section_RomFs _ \<Rightarrow> Fs_RomFs | Section_Partition _ _ \<Rightarrow> Fs_Pfs0)"
      using x s(1-4) lay(2) by (intro exI [of _ ?x]) simp
  }
qed

section \<open>Outcomes of a build\<close>

lemma nca_build_cases:
  assumes "nca_builder_inv b" "digest_size sha"
  shows "case nca_build sha b of
      Ok p \<Rightarrow> (\<forall>s\<in>set (nb_sections b). \<forall>t. s = Some t \<longrightarrow> \<not> zero_block (ws_data t))
        \<and> length (pn_body p) = nca_body_size sha 0 (nb_sections b)
        \<and> NCA_HEADER_SIZE + length (pn_body p) < 2 ^ 41
    | Err (Nca_TooLarge n) \<Rightarrow> 2 ^ 41 \<le> n \<and> n \<le> NCA_HEADER_SIZE + nca_body_size sha 0 (nb_sections b)
    | Panic \<Rightarrow> \<exists>s\<in>set (nb_sections b). \<exists>t. s = Some t \<and> zero_block (ws_data t)"
proof -
  have "length (nb_sections b) = 4" using assms(1) by (simp add: nca_builder_inv_def)
  then show ?thesis
    using nca_place_outcome [OF assms(2) start_header_slots, of 0 "nb_sections b" "[]" b]
    by (auto simp: nca_build_def NCA_HEADER_SIZE_def split: result.splits nca_build_error.splits)
qed

lemma nca_build_succeeds:
  assumes "nca_builder_inv b" "digest_size sha"
    and "\<And>t. Some t \<in> set (nb_sections b) \<Longrightarrow> \<not> zero_block (ws_data t)"
    and "NCA_HEADER_SIZE + nca_body_size sha 0 (nb_sections b) < 2 ^ 41"
  shows "\<exists>p. nca_build sha b = Ok p"
  using nca_build_cases [OF assms(1,2)] assms(3,4)
  by (auto split: result.splits nca_build_error.splits)

section \<open>The sections to encrypt\<close>

definition ctr_of_slot :: "nca_header \<Rightarrow> nat \<Rightarrow> ctr_section list" where
  "ctr_of_slot h i =
     (if fh_crypt_type (nh_fs_headers h ! i) \<noteq> 3 then []
      else [\<lparr>cs_start = sec_start h i - NCA_HEADER_SIZE, cs_end = sec_end h i - NCA_HEADER_SIZE,
             cs_counter = section_counter (fh_section_ctr (nh_fs_headers h ! i)) (sec_start h i)\<rparr>])"

lemma zip_nth: "length xs = n \<Longrightarrow> length ys = n \<Longrightarrow> zip xs ys = map (\<lambda>i. (xs ! i, ys ! i)) [0..<n]"
  by (rule nth_equalityI) simp_all

lemma ctr_sections_built:
  assumes "four_slots (pn_header p)"
    and "\<And>i. i < 4 \<Longrightarrow> fh_crypt_type (nh_fs_headers (pn_header p) ! i) = 3 \<Longrightarrow>
        NCA_HEADER_SIZE \<le> sec_start (pn_header p) i \<and> NCA_HEADER_SIZE \<le> sec_end (pn_header p) i"
  shows "plain_nca_ctr_sections p = Ok (concat (map (ctr_of_slot (pn_header p)) [0..<4]))"
proof -
  let ?h = "pn_header p"
  have z: "zip (nh_section_entries ?h) (nh_fs_headers ?h)
      = map (\<lambda>i. (nh_section_entries ?h ! i, nh_fs_headers ?h ! i)) [0..<4]"
    using assms(1) by (intro zip_nth) (simp_all add: four_slots_def)
  define g where "g = (\<lambda>(entry :: nca_section_entry, fs :: nca_fs_header).
      if fh_crypt_type fs \<noteq> (3 :: u8) then []
      else [\<lparr>cs_start = unat (ns_media_start_offset entry) * MEDIA_UNIT_SIZE - NCA_HEADER_SIZE,
             cs_end = unat (ns_media_end_offset entry) * MEDIA_UNIT_SIZE - NCA_HEADER_SIZE,
             cs_counter = section_counter (fh_section_ctr fs) (unat (ns_media_start_offset entry) * MEDIA_UNIT_SIZE)\<rparr>])"
  have "plain_nca_ctr_sections p = Ok ([] @ concat (map g (zip (nh_section_entries ?h) (nh_fs_headers ?h))))"
    unfolding plain_nca_ctr_sections_def
  proof (rule rfold_collect)
    fix acc and x :: "nca_section_entry \<times> nca_fs_header"
    assume "x \<in> set (zip (nh_section_entries ?h) (nh_fs_headers ?h))"
    then obtain i where i: "i < 4" "x = (nh_section_entries ?h ! i, nh_fs_headers ?h ! i)"
      by (auto simp: z)
    show "(case x of (entry, fs_header) \<Rightarrow>
        if fh_crypt_type fs_header \<noteq> nca_crypt_type_u8 Crypt_Ctr then Ok acc
        else let start = unat (ns_media_start_offset entry) * MEDIA_UNIT_SIZE;
                 end = unat (ns_media_end_offset entry) * MEDIA_UNIT_SIZE
             in rbind (usub start NCA_HEADER_SIZE) (\<lambda>from.
                rbind (usub end NCA_HEADER_SIZE) (\<lambda>to.
                  Ok (acc @ [\<lparr>cs_start = from, cs_end = to,
                               cs_counter = section_counter (fh_section_ctr fs_header) start\<rparr>]))))
        = Ok (acc @ g x)"
      using assms(2) [OF i(1)]
      by (simp add: i(2) g_def Let_def sec_start_def sec_end_def run_simps)
  qed
  also have "map g (zip (nh_section_entries ?h) (nh_fs_headers ?h)) = map (ctr_of_slot ?h) [0..<4]"
    by (simp add: z g_def ctr_of_slot_def sec_start_def sec_end_def)
  finally show ?thesis by simp
qed

definition slot_list :: "nca_section option \<Rightarrow> nca_section list" where
  "slot_list s = (case s of None \<Rightarrow> [] | Some x \<Rightarrow> [x])"

lemma nca_sections_eq:
  assumes "\<And>i. i < 4 \<Longrightarrow> (nca_section_at n i :: (nca_section option, 'e) result) = Ok (f i)"
  shows "(nca_sections n :: (nca_section list, 'e) result) = Ok (concat (map (\<lambda>i. slot_list (f i)) [0..<4]))"
proof -
  have "(nca_sections n :: (nca_section list, 'e) result) = Ok ([] @ concat (map (\<lambda>i. slot_list (f i)) [0..<4]))"
    unfolding nca_sections_def NCA_SECTION_COUNT_def
    by (rule rfold_collect) (use assms in \<open>auto simp: slot_list_def split: option.split\<close>)
  then show ?thesis by simp
qed

text \<open>Slot by slot, what the writer names for encryption is what the reader calls CTR.\<close>

lemma ctr_slot_matches:
  assumes "nca_build sha b = Ok p" "nca_builder_inv b" "digest_size sha" "i < 4"
    and "n = \<lparr>nr_bytes = plain_nca_to_bytes p, nr_header = pn_header p, nr_content_type = nb_content_type b\<rparr>"
    and "(nca_section_at n i :: (nca_section option, 'e) result) = Ok s"
  shows "map (\<lambda>c. (cs_start c + NCA_HEADER_SIZE, cs_end c + NCA_HEADER_SIZE, Some (cs_counter c)))
        (ctr_of_slot (pn_header p) i)
      = map (\<lambda>x. (fst (sx_range x), snd (sx_range x), nca_section_counter x))
          (filter (\<lambda>x. nca_section_encryption x = Crypt_Ctr) (slot_list s))"
    and "fh_crypt_type (nh_fs_headers (pn_header p) ! i) = 3 \<Longrightarrow>
        NCA_HEADER_SIZE \<le> sec_start (pn_header p) i \<and> NCA_HEADER_SIZE \<le> sec_end (pn_header p) i"
proof -
  let ?h = "pn_header p"
  note ok = nca_build_ok [OF assms(1-3)]
  note slot = nca_slot_built [OF assms(1-5), where 'e = 'e]
  have "map (\<lambda>c. (cs_start c + NCA_HEADER_SIZE, cs_end c + NCA_HEADER_SIZE, Some (cs_counter c))) (ctr_of_slot ?h i)
      = map (\<lambda>x. (fst (sx_range x), snd (sx_range x), nca_section_counter x))
          (filter (\<lambda>x. nca_section_encryption x = Crypt_Ctr) (slot_list s))
    \<and> (fh_crypt_type (nh_fs_headers ?h ! i) = 3 \<longrightarrow> NCA_HEADER_SIZE \<le> sec_start ?h i \<and> NCA_HEADER_SIZE \<le> sec_end ?h i)"
  proof (cases "nb_sections b ! i")
    case None
    have "nh_fs_headers ?h ! i = EMPTY_FS_HEADER"
      using ok(4) assms(4) None start_header_empty(3) [OF assms(4), of b] by (simp add: same_slot_def)
    with slot(1) [OF None] assms(6) show ?thesis
      by (simp add: ctr_of_slot_def EMPTY_FS_HEADER_def slot_list_def)
  next
    case (Some t)
    then have pl: "placed sha ?h (pn_body p) i t" using ok(3) assms(4) by blast
    have len: "length (enc_nca_header ?h) = NCA_HEADER_SIZE"
      using nca_header.enc_length [OF ok(6)] by (simp add: NCA_HEADER_SIZE_def)
    obtain data where d: "lay_out_section sha t = Ok (data, nh_fs_headers ?h ! i)" "length data \<le> 2 ^ 58"
      "NCA_HEADER_SIZE \<le> sec_start ?h i" "sec_start ?h i + length data \<le> sec_end ?h i"
      using placed_in_image [OF pl len assms(3)] by metis
    note crypt = lay_out_ok(4) [OF assms(3) d(1,2)]
    from slot(2) [OF Some] assms(6) obtain x where x: "s = Some x" "sx_fs_header x = nh_fs_headers ?h ! i"
      "sx_range x = (sec_start ?h i, sec_end ?h i)"
      "nca_section_encryption x = (case ws_encryption t of Section_None \<Rightarrow> Crypt_None | Section_Ctr \<Rightarrow> Crypt_Ctr)"
      by auto
    from d(3,4) have "NCA_HEADER_SIZE \<le> sec_end ?h i" by linarith
    with d(3) crypt x show ?thesis
      by (cases "ws_encryption t")
        (simp_all add: ctr_of_slot_def slot_list_def nca_section_counter_def section_counter_def)
  qed
  then show "map (\<lambda>c. (cs_start c + NCA_HEADER_SIZE, cs_end c + NCA_HEADER_SIZE, Some (cs_counter c)))
        (ctr_of_slot ?h i)
      = map (\<lambda>x. (fst (sx_range x), snd (sx_range x), nca_section_counter x))
          (filter (\<lambda>x. nca_section_encryption x = Crypt_Ctr) (slot_list s))"
    "fh_crypt_type (nh_fs_headers ?h ! i) = 3 \<Longrightarrow>
        NCA_HEADER_SIZE \<le> sec_start ?h i \<and> NCA_HEADER_SIZE \<le> sec_end ?h i"
    by blast+
qed

lemma nca_ctr_match:
  assumes "nca_build sha b = Ok p" "nca_builder_inv b" "digest_size sha"
    and "n = \<lparr>nr_bytes = plain_nca_to_bytes p, nr_header = pn_header p, nr_content_type = nb_content_type b\<rparr>"
  shows "\<exists>xs cs. (nca_sections n :: (nca_section list, 'e) result) = Ok xs
    \<and> (plain_nca_ctr_sections p :: (ctr_section list, 'f) result) = Ok cs
    \<and> map (\<lambda>c. (cs_start c + NCA_HEADER_SIZE, cs_end c + NCA_HEADER_SIZE, Some (cs_counter c))) cs
      = map (\<lambda>x. (fst (sx_range x), snd (sx_range x), nca_section_counter x))
          (filter (\<lambda>x. nca_section_encryption x = Crypt_Ctr) xs)"
proof -
  have "\<exists>s. (nca_section_at n i :: (nca_section option, 'e) result) = Ok s" if "i < 4" for i
  proof (cases "nb_sections b ! i")
    case None
    from nca_slot_built(1) [OF assms(1-3) that assms(4) None] show ?thesis by (rule exI)
  next
    case (Some s)
    from nca_slot_built(2) [OF assms(1-3) that assms(4) Some, where 'e = 'e] show ?thesis by (elim exE conjE) (rule exI)
  qed
  then obtain f where f: "\<And>i. i < 4 \<Longrightarrow> (nca_section_at n i :: (nca_section option, 'e) result) = Ok (f i)"
    by metis
  note m = ctr_slot_matches [OF assms(1-3) _ assms(4) f]
  have "nca_header_wf (pn_header p)" by (rule nca_build_ok(6) [OF assms(1-3)])
  then have four: "four_slots (pn_header p)" by (simp add: nca_header_wf_def four_slots_def)
  have cs: "(plain_nca_ctr_sections p :: (ctr_section list, 'f) result) = Ok (concat (map (ctr_of_slot (pn_header p)) [0..<4]))"
    by (rule ctr_sections_built [OF four]) (rule m(2))
  let ?F = "map (\<lambda>c. (cs_start c + NCA_HEADER_SIZE, cs_end c + NCA_HEADER_SIZE, Some (cs_counter c)))"
  let ?G = "\<lambda>xs. map (\<lambda>x. (fst (sx_range x), snd (sx_range x), nca_section_counter x))
          (filter (\<lambda>x. nca_section_encryption x = Crypt_Ctr) xs)"
  have "?F (concat (map (ctr_of_slot (pn_header p)) is)) = ?G (concat (map (\<lambda>i. slot_list (f i)) is))"
    if "\<forall>i\<in>set is. i < 4" for "is"
    using that
  proof (induction "is")
    case (Cons i "is")
    then have i: "i < 4" and IH: "?F (concat (map (ctr_of_slot (pn_header p)) is)) = ?G (concat (map (\<lambda>i. slot_list (f i)) is))"
      by simp_all
    from m(1) [OF i i] IH show ?case by simp
  qed simp
  then have "?F (concat (map (ctr_of_slot (pn_header p)) [0..<4])) = ?G (concat (map (\<lambda>i. slot_list (f i)) [0..<4]))"
    by simp
  with cs nca_sections_eq [OF f] show ?thesis by (intro exI conjI)
qed

end
