(* ===== verification/Nca_Properties.thy ===== *)
theory Nca_Properties
  imports Nca_Roundtrip
begin

text \<open>What the NCA builder and reader promise, for any digest function of 32 bytes.\<close>

section \<open>A concrete archive\<close>

definition toy_digest :: "bytes \<Rightarrow> bytes" where
  "toy_digest x = take 0x20 (rev x @ zeros 0x20)"

lemma toy_digest_size: "digest_size toy_digest"
  by (simp add: digest_size_def toy_digest_def del: take_append)

definition nca_example :: nca_builder where
  "nca_example =
     \<lparr>nb_content_type = Nca_Program, nb_title_id = 0x0100000000001000, nb_sdk_version = 0,
      nb_key_generation = 5, nb_key_area = replicate 4 (zeros 0x10),
      nb_sections = [Some \<lparr>ws_data = Section_Partition [7, 8, 9] 2, ws_encryption = Section_Ctr\<rparr>,
                     None, None, None]\<rparr>"

lemma nca_example_inv: "nca_builder_inv nca_example"
  by (simp add: nca_builder_inv_def nca_example_def MAX_KEY_GENERATION_def)

lemma nca_example_builds: "\<exists>p. nca_build toy_digest nca_example = Ok p"
proof (rule nca_build_succeeds [OF nca_example_inv toy_digest_size])
  show "\<not> zero_block (ws_data t)" if "Some t \<in> set (nb_sections nca_example)" for t
    using that by (auto simp: nca_example_def)
  have "length (block_digests toy_digest 2 [7, 8, 9]) = 0x40"
    by (simp add: length_block_digests [OF toy_digest_size] div_ceil_def)
  then show "NCA_HEADER_SIZE + nca_body_size toy_digest 0 (nb_sections nca_example) < 2 ^ 41"
    by (simp add: nca_example_def section_size_def lay_out_partition [OF toy_digest_size] partition_build_def
        Let_def align_up_def nca_consts)
qed

section \<open>Key generations\<close>

lemma parse_decimal_overflow: "2 ^ 32 \<le> n \<Longrightarrow> parse_digits 0 (decimal n) = None"
proof (induction n rule: decimal.induct)
  case (1 n)
  then have big: "\<not> n < 10" by simp
  have step: "parse_digits 0 (decimal n)
      = (case parse_digits 0 (decimal (n div 10)) of None \<Rightarrow> None
         | Some v \<Rightarrow> parse_digits v [word_of_nat (48 + n mod 10)])"
    using big by (subst decimal.simps) (simp only: if_False parse_digits_append)
  show ?case
  proof (cases "2 ^ 32 \<le> n div 10")
    case True
    with 1 big show ?thesis by (simp only: step) simp
  next
    case False
    then have "parse_digits 0 (decimal (n div 10)) = Some (n div 10)" by (intro parse_decimal) simp
    moreover have "parse_digits (n div 10) [word_of_nat (48 + n mod 10)] = None"
      using decimal_digit [of "n mod 10"] "1.prems" div_mult_mod_eq [of n 10]
      by (simp add: not_less del: of_nat_add)
    ultimately show ?thesis by (simp only: step option.case)
  qed
qed

text \<open>The larger of the two header fields, and at least one, is the generation they stand for.\<close>

lemma split_key_generation_max:
  assumes "0 < g"
  shows "max (max (fst (split_key_generation g)) (snd (split_key_generation g))) 1 = g"
proof (cases "g = 1 \<or> g = 2")
  case True
  then show ?thesis by (auto simp: split_key_generation_def max_def word_le_nat_alt)
next
  case False
  then have "unat g \<noteq> 1" "unat g \<noteq> 2" by (auto simp: word_unat_eq_iff)
  moreover have "0 < unat g" using assms by (simp add: unat_gt_0)
  ultimately have "2 < unat g" by linarith
  then have "2 \<le> g" "1 < g" by (simp_all add: word_less_nat_alt word_le_nat_alt)
  with False show ?thesis by (simp add: split_key_generation_def max_def not_le)
qed

text \<open>C14. Every decimal text parses to the generation it names, when that is one the header can
  express; other numbers are out of range, and those past 32 bits are reported as not being numbers.
  A generation survives being displayed and being split across the two header fields.\<close>

theorem nca_key_generation_text:
  "key_generation_from_str (decimal n) =
     (if 1 \<le> n \<and> n \<le> 32 then Ok (word_of_nat n)
      else if n < 2 ^ 32 then Err (OutOfRange n) else Err NotANumber)
   \<and> (\<forall>u g. key_generation_try_from u = Ok g \<longrightarrow>
        key_generation_from_str (key_generation_display g) = Ok g
        \<and> max (max (fst (split_key_generation g)) (snd (split_key_generation g))) 1 = g)"
proof -
  have parsed: "key_generation_from_str (decimal n) =
     (if 1 \<le> n \<and> n \<le> 32 then Ok (word_of_nat n)
      else if n < 2 ^ 32 then Err (OutOfRange n) else Err NotANumber)" for n
  proof (cases "n < 2 ^ 32")
    case True
    have small: "n < 256 \<Longrightarrow> unat (word_of_nat n :: u8) = n" by (simp add: unat_of_nat)
    have p: "key_generation_from_str (decimal n) = rbind (if n < 256 then Ok (word_of_nat n) else Err (OutOfRange n))
        key_generation_try_from"
      using parse_u32_decimal [OF True] by (simp only: key_generation_from_str_def ok_or_simps rbind.simps)
    show ?thesis
    proof (cases "n < 256")
      case True
      note u = small [OF True]
      then have "(word_of_nat n :: u8) = 0 \<longleftrightarrow> n = 0" "(word_of_nat n :: u8) > 32 \<longleftrightarrow> 32 < n"
        by (metis unat_0 unat_eq_0, simp add: word_less_nat_alt)
      with True u p show ?thesis
        by (auto simp: key_generation_try_from_def MAX_KEY_GENERATION_def)
    qed (use True p in simp)
  next
    case False
    then have "parse_u32 (decimal n) = None"
      using decimal_shape [of n] parse_decimal_overflow [of n] by (cases "decimal n") (simp_all add: parse_u32_def)
    then have "key_generation_from_str (decimal n) = Err NotANumber"
      by (simp only: key_generation_from_str_def ok_or_simps rbind.simps)
    with False show ?thesis by simp
  qed
  have "key_generation_from_str (key_generation_display g) = Ok g
      \<and> max (max (fst (split_key_generation g)) (snd (split_key_generation g))) 1 = g"
    if "key_generation_try_from u = Ok g" for u g
  proof -
    have g: "0 < g" "g \<le> 32"
      using that by (auto simp: key_generation_try_from_def MAX_KEY_GENERATION_def word_neq_0_conv split: if_splits)
    then have n: "1 \<le> unat g" "unat g \<le> 32" by (simp_all add: word_le_nat_alt unat_gt_0 Suc_le_eq)
    have "max (max (fst (split_key_generation g)) (snd (split_key_generation g))) 1 = g"
      by (rule split_key_generation_max [OF g(1)])
    with parsed [of "unat g"] n show ?thesis by (simp add: key_generation_display_def)
  qed
  with parsed show ?thesis by blast
qed

theorem nca_key_generation_text_witness:
  "key_generation_from_str (decimal 5) = Ok 5
   \<and> key_generation_from_str (decimal 33) = Err (OutOfRange 33)
   \<and> key_generation_from_str (decimal 4294967296) = Err NotANumber
   \<and> key_generation_from_str (key_generation_display 7) = Ok 7"
proof -
  have "key_generation_try_from 7 = Ok 7" by (simp add: key_generation_try_from_def MAX_KEY_GENERATION_def)
  then show ?thesis
    using nca_key_generation_text [of 5] nca_key_generation_text [of 33] nca_key_generation_text [of 4294967296]
    by simp
qed

section \<open>The archive\<close>

text \<open>C15. A built archive parses: content type, title, size, key area and key generation come back,
  empty slots are empty, and every placed section comes back with the bytes it was given, its kind and
  encryption, a hash structure that verifies, and an FS header the archive header's hash covers.\<close>

theorem nca_round_trip:
  assumes "nca_build sha b = Ok p" "nca_builder_inv b" "digest_size sha"
  shows "\<exists>n. nca_try_from_bytes (plain_nca_to_bytes p) = Ok n
    \<and> nr_content_type n = nb_content_type b \<and> nca_title_id n = nb_title_id b
    \<and> unat (nca_nca_size n) = length (plain_nca_to_bytes p)
    \<and> nca_key_generation n = nb_key_generation b \<and> nh_encrypted_keys (nr_header n) = nb_key_area b
    \<and> (\<forall>i<4. case nb_sections b ! i of
          None \<Rightarrow> (nca_section_at n i :: (nca_section option, 'e) result) = Ok None
        | Some s \<Rightarrow> \<exists>x. (nca_section_at n i :: (nca_section option, 'e) result) = Ok (Some x)
            \<and> sx_data x = section_content (ws_data s)
            \<and> nca_section_fs_type x = (case ws_data s of Section_RomFs _ \<Rightarrow> Fs_RomFs | Section_Partition _ _ \<Rightarrow> Fs_Pfs0)
            \<and> nca_section_encryption x = (case ws_encryption s of Section_None \<Rightarrow> Crypt_None | Section_Ctr \<Rightarrow> Crypt_Ctr)
            \<and> section_verifies sha (sx_fs_header x) (sx_bytes x)
            \<and> nh_section_hashes (nr_header n) ! i = sha (enc_nca_fs_header (sx_fs_header x)))"
proof -
  let ?n = "\<lparr>nr_bytes = plain_nca_to_bytes p, nr_header = pn_header p, nr_content_type = nb_content_type b\<rparr>"
  note parse = nca_parse_built [OF assms]
  note ok = nca_build_ok [OF assms]
  note f = only_slots_differ_fields [OF ok(1)]
  have size: "unat (nca_nca_size ?n) = length (plain_nca_to_bytes p)"
    using parse(2) f(14) unat_u64_of_nat [of "NCA_HEADER_SIZE + length (pn_body p)"] ok(2)
    by (simp add: nca_nca_size_def del: of_nat_add)
  have "0 < nb_key_generation b" using assms(2) by (simp add: nca_builder_inv_def)
  then have gen: "nca_key_generation ?n = nb_key_generation b"
    by (simp add: nca_key_generation_def f start_header_fields split_key_generation_max)
  have slots: "case nb_sections b ! i of
          None \<Rightarrow> (nca_section_at ?n i :: (nca_section option, 'e) result) = Ok None
        | Some s \<Rightarrow> \<exists>x. (nca_section_at ?n i :: (nca_section option, 'e) result) = Ok (Some x)
            \<and> sx_data x = section_content (ws_data s)
            \<and> nca_section_fs_type x = (case ws_data s of Section_RomFs _ \<Rightarrow> Fs_RomFs | Section_Partition _ _ \<Rightarrow> Fs_Pfs0)
            \<and> nca_section_encryption x = (case ws_encryption s of Section_None \<Rightarrow> Crypt_None | Section_Ctr \<Rightarrow> Crypt_Ctr)
            \<and> section_verifies sha (sx_fs_header x) (sx_bytes x)
            \<and> nh_section_hashes (nr_header ?n) ! i = sha (enc_nca_fs_header (sx_fs_header x))" if "i < 4" for i
    using nca_slot_built [OF assms that refl, where 'e = 'e]
    by (cases "nb_sections b ! i") auto
  show ?thesis
    using parse(1) size gen slots by (intro exI [of _ ?n]) (simp add: nca_title_id_def f start_header_fields)
qed

theorem nca_round_trip_witness:
  "\<exists>p n x. nca_build toy_digest nca_example = Ok p \<and> nca_try_from_bytes (plain_nca_to_bytes p) = Ok n
    \<and> nca_key_generation n = 5 \<and> (nca_section_at n 0 :: (nca_section option, unit) result) = Ok (Some x)
    \<and> sx_data x = [7, 8, 9] \<and> nca_section_encryption x = Crypt_Ctr"
proof -
  obtain p where p: "nca_build toy_digest nca_example = Ok p" using nca_example_builds by blast
  from nca_round_trip [OF this nca_example_inv toy_digest_size, where 'e = unit] obtain n where
    n: "nca_try_from_bytes (plain_nca_to_bytes p) = Ok n" "nca_key_generation n = nb_key_generation nca_example"
    and slots: "\<forall>i<4. case nb_sections nca_example ! i of
          None \<Rightarrow> (nca_section_at n i :: (nca_section option, unit) result) = Ok None
        | Some s \<Rightarrow> \<exists>x. (nca_section_at n i :: (nca_section option, unit) result) = Ok (Some x)
            \<and> sx_data x = section_content (ws_data s)
            \<and> nca_section_fs_type x = (case ws_data s of Section_RomFs _ \<Rightarrow> Fs_RomFs | Section_Partition _ _ \<Rightarrow> Fs_Pfs0)
            \<and> nca_section_encryption x = (case ws_encryption s of Section_None \<Rightarrow> Crypt_None | Section_Ctr \<Rightarrow> Crypt_Ctr)
            \<and> section_verifies toy_digest (sx_fs_header x) (sx_bytes x)
            \<and> nh_section_hashes (nr_header n) ! i = toy_digest (enc_nca_fs_header (sx_fs_header x))"
    by blast
  from slots [rule_format, of 0] p n show ?thesis by (auto simp: nca_example_def)
qed

text \<open>C16. A build succeeds or fails for one of two reasons: it panics only when a partition asks for
  a hash block size of zero, it reports the size it could not address only from two tebibytes on, and a
  success has no such partition and a body of exactly the length the sections come to.\<close>

theorem nca_build_outcome:
  assumes "nca_builder_inv b" "digest_size sha"
  shows "case nca_build sha b of
      Ok p \<Rightarrow> (\<forall>s\<in>set (nb_sections b). \<forall>t. s = Some t \<longrightarrow> \<not> zero_block (ws_data t))
        \<and> length (pn_body p) = nca_body_size sha 0 (nb_sections b)
        \<and> NCA_HEADER_SIZE + length (pn_body p) < 2 ^ 41
    | Err (Nca_TooLarge n) \<Rightarrow> 2 ^ 41 \<le> n \<and> n \<le> NCA_HEADER_SIZE + nca_body_size sha 0 (nb_sections b)
    | Panic \<Rightarrow> \<exists>s\<in>set (nb_sections b). \<exists>t. s = Some t \<and> zero_block (ws_data t)"
  by (rule nca_build_cases [OF assms])

theorem nca_build_outcome_witness:
  "\<exists>p. nca_build toy_digest nca_example = Ok p \<and> NCA_HEADER_SIZE + length (pn_body p) < 2 ^ 41"
proof -
  obtain p where "nca_build toy_digest nca_example = Ok p" using nca_example_builds by blast
  with nca_build_outcome [OF nca_example_inv toy_digest_size] show ?thesis by simp
qed

text \<open>C17. The sections the writer names for encryption are, shifted by the header, exactly the ones
  the reader reports as CTR-encrypted, with the same ranges and the same counters.\<close>

theorem nca_ctr_sections_match:
  assumes "nca_build sha b = Ok p" "nca_builder_inv b" "digest_size sha"
  shows "\<exists>n xs cs. nca_try_from_bytes (plain_nca_to_bytes p) = Ok n
    \<and> (nca_sections n :: (nca_section list, 'e) result) = Ok xs
    \<and> (plain_nca_ctr_sections p :: (ctr_section list, 'f) result) = Ok cs
    \<and> map (\<lambda>c. (cs_start c + NCA_HEADER_SIZE, cs_end c + NCA_HEADER_SIZE, Some (cs_counter c))) cs
      = map (\<lambda>x. (fst (sx_range x), snd (sx_range x), nca_section_counter x))
          (filter (\<lambda>x. nca_section_encryption x = Crypt_Ctr) xs)"
  using nca_parse_built(1) [OF assms] nca_ctr_match [OF assms refl, where 'e = 'e and 'f = 'f] by blast

theorem nca_ctr_sections_match_witness:
  "\<exists>p n xs cs. nca_build toy_digest nca_example = Ok p \<and> nca_try_from_bytes (plain_nca_to_bytes p) = Ok n
    \<and> (nca_sections n :: (nca_section list, unit) result) = Ok xs
    \<and> (plain_nca_ctr_sections p :: (ctr_section list, unit) result) = Ok cs
    \<and> length cs = length (filter (\<lambda>x. nca_section_encryption x = Crypt_Ctr) xs)"
proof -
  obtain p where p: "nca_build toy_digest nca_example = Ok p" using nca_example_builds by blast
  from nca_ctr_sections_match [OF this nca_example_inv toy_digest_size, where 'e = unit and 'f = unit]
  obtain n xs cs where r: "nca_try_from_bytes (plain_nca_to_bytes p) = Ok n"
    "(nca_sections n :: (nca_section list, unit) result) = Ok xs"
    "(plain_nca_ctr_sections p :: (ctr_section list, unit) result) = Ok cs"
    "map (\<lambda>c. (cs_start c + NCA_HEADER_SIZE, cs_end c + NCA_HEADER_SIZE, Some (cs_counter c))) cs
      = map (\<lambda>x. (fst (sx_range x), snd (sx_range x), nca_section_counter x))
          (filter (\<lambda>x. nca_section_encryption x = Crypt_Ctr) xs)"
    by blast
  from r(4) have "length cs = length (filter (\<lambda>x. nca_section_encryption x = Crypt_Ctr) xs)"
    by (rule map_eq_imp_length_eq)
  with p r(1-3) show ?thesis by blast
qed

text \<open>C18. The header commits to its sections: whoever presents another FS header with the recorded
  hash, and section bytes that verify under it, presents the content the builder was given, or two
  inputs of the verification that differ and have one digest.\<close>

theorem nca_header_binds_sections:
  assumes "nca_build sha b = Ok p" "nca_builder_inv b" "digest_size sha"
    and "i < 4" "nb_sections b ! i = Some s"
    and "nca_fs_header_wf fs" "sha (enc_nca_fs_header fs) = nh_section_hashes (pn_header p) ! i"
    and "section_verifies sha fs bs"
  shows "section_payload fs bs = section_content (ws_data s)
    \<or> (\<exists>data. lay_out_section sha s = Ok (data, nh_fs_headers (pn_header p) ! i)
        \<and> clash sha (enc_nca_fs_header fs # section_inputs fs bs)
            (enc_nca_fs_header (nh_fs_headers (pn_header p) ! i)
              # section_inputs (nh_fs_headers (pn_header p) ! i) data))"
proof -
  let ?fs = "nh_fs_headers (pn_header p) ! i"
  note ok = nca_build_ok [OF assms(1-3)]
  have pl: "placed sha (pn_header p) (pn_body p) i s" using ok(3) assms(4,5) by blast
  then obtain data where lay: "lay_out_section sha s = Ok (data, ?fs)"
    and hash: "nh_section_hashes (pn_header p) ! i = sha (enc_nca_fs_header ?fs)"
    and len: "sec_start (pn_header p) i + length data \<le> sec_end (pn_header p) i"
    by (auto simp: placed_def)
  have "unat (ns_media_end_offset (nh_section_entries (pn_header p) ! i)) < 2 ^ 32" by (rule unat_u32_bound)
  then have "sec_end (pn_header p) i \<le> 2 ^ 58" by (simp add: sec_end_def MEDIA_UNIT_SIZE_def)
  then have small: "length data \<le> 2 ^ 58" using len by linarith
  note l = lay_out_ok(1) [OF assms(3) lay small] lay_out_ok(2,3) [OF assms(3) lay small, of "[]"]
  show ?thesis
  proof (cases "enc_nca_fs_header fs = enc_nca_fs_header ?fs")
    case True
    then have "fs = ?fs" using nca_fs_header.enc_inject [OF assms(6) l(1)] by simp
    then have "section_payload fs bs = section_payload ?fs data \<or> clash sha (section_inputs fs bs) (section_inputs ?fs data)"
      using section_binding [OF assms(3), of ?fs bs data] assms(8) l(2) by simp
    then show ?thesis using l(3) lay by (auto simp: clash_def)
  next
    case False
    then have "clash sha (enc_nca_fs_header fs # section_inputs fs bs) (enc_nca_fs_header ?fs # section_inputs ?fs data)"
      using assms(7) hash by (intro clashI [of "enc_nca_fs_header fs" _ "enc_nca_fs_header ?fs"]) simp_all
    then show ?thesis using lay by blast
  qed
qed

theorem nca_header_binds_sections_witness:
  "\<exists>p data fs. nca_build toy_digest nca_example = Ok p
    \<and> lay_out_section toy_digest \<lparr>ws_data = Section_Partition [7, 8, 9] 2, ws_encryption = Section_Ctr\<rparr> = Ok (data, fs)
    \<and> (section_payload fs data = [7, 8, 9]
       \<or> clash toy_digest (enc_nca_fs_header fs # section_inputs fs data) (enc_nca_fs_header fs # section_inputs fs data))"
proof -
  let ?s = "\<lparr>ws_data = Section_Partition [7, 8, 9] 2, ws_encryption = Section_Ctr\<rparr>"
  obtain p where p: "nca_build toy_digest nca_example = Ok p" using nca_example_builds by blast
  let ?fs = "nh_fs_headers (pn_header p) ! 0"
  have s: "nb_sections nca_example ! 0 = Some ?s" by (simp add: nca_example_def)
  have pl: "placed toy_digest (pn_header p) (pn_body p) 0 ?s"
    using nca_build_ok(3) [OF p nca_example_inv toy_digest_size] s by simp
  then obtain data where lay: "lay_out_section toy_digest ?s = Ok (data, ?fs)"
    and hash: "toy_digest (enc_nca_fs_header ?fs) = nh_section_hashes (pn_header p) ! 0"
    by (auto simp: placed_def)
  have "length data \<le> 2 ^ 58"
  proof -
    have "length (block_digests toy_digest 2 [7, 8, 9]) = 0x40"
      by (simp add: length_block_digests [OF toy_digest_size] div_ceil_def)
    with lay show ?thesis
      by (auto simp: lay_out_partition [OF toy_digest_size] partition_build_def Let_def nca_consts)
  qed
  note l = lay_out_ok(1) [OF toy_digest_size lay this] lay_out_ok(2) [OF toy_digest_size lay this, of "[]"]
  have "section_verifies toy_digest ?fs data" using l(2) by simp
  from nca_header_binds_sections [OF p nca_example_inv toy_digest_size _ s l(1) hash this] lay p
  show ?thesis by fastforce
qed

text \<open>C19. The reader is safe on any buffer that fits in memory: it never panics, and once it accepts,
  every slot is answered, a section lies behind the header and inside the image, its data inside the
  section, and its type and superblock are known.\<close>

theorem nca_reader_safe:
  assumes "length bs \<le> usize_max"
  shows "nca_try_from_bytes bs \<noteq> Panic
    \<and> (\<forall>n i. nca_try_from_bytes bs = Ok n \<and> i < 4 \<longrightarrow>
        (nca_section_at n i :: (nca_section option, 'e) result) = Ok None
        \<or> (\<exists>x off. (nca_section_at n i :: (nca_section option, 'e) result) = Ok (Some x)
            \<and> NCA_HEADER_SIZE \<le> fst (sx_range x) \<and> fst (sx_range x) \<le> snd (sx_range x)
            \<and> snd (sx_range x) \<le> length bs
            \<and> sx_bytes x = sub_bytes bs (fst (sx_range x)) (snd (sx_range x) - fst (sx_range x))
            \<and> off + length (sx_data x) \<le> length (sx_bytes x)
            \<and> sx_data x = sub_bytes (sx_bytes x) off (length (sx_data x))
            \<and> nca_section_superblock x \<noteq> View_Unreadable))"
proof -
  have "(nca_section_at n i :: (nca_section option, 'e) result) = Ok None
        \<or> (\<exists>x off. (nca_section_at n i :: (nca_section option, 'e) result) = Ok (Some x)
            \<and> NCA_HEADER_SIZE \<le> fst (sx_range x) \<and> fst (sx_range x) \<le> snd (sx_range x)
            \<and> snd (sx_range x) \<le> length bs
            \<and> sx_bytes x = sub_bytes bs (fst (sx_range x)) (snd (sx_range x) - fst (sx_range x))
            \<and> off + length (sx_data x) \<le> length (sx_bytes x)
            \<and> sx_data x = sub_bytes (sx_bytes x) off (length (sx_data x))
            \<and> nca_section_superblock x \<noteq> View_Unreadable)"
    if ok: "nca_try_from_bytes bs = Ok n" and i: "i < 4" for n i
    using nca_section_at_checked [OF ok assms i, where 'e = 'e]
  proof (elim disjE exE conjE, goal_cases)
    case (2 ht off sz)
    let ?x = "nca_slot bs (nr_header n) i off (off + sz)"
    have l: "length (sx_data ?x) = sz"
      using 2(4) by (simp add: nca_slot_def Let_def length_sub_bytes)
    have "nca_header_wf (nr_header n)"
      using ok nca_try_Ok [OF assms, of n] dec_nca_header_wf [of bs] by auto
    then have "length (fh_superblock (nh_fs_headers (nr_header n) ! i)) = 0x138"
      using i by (simp add: nca_header_wf_def nca_fs_header_wf_def)
    then have "nca_section_superblock ?x \<noteq> View_Unreadable"
      by (simp add: nca_section_superblock_def nca_slot_def Let_def ref_from_bytes_def
          split: result.split nca_hash_type.split)
    with 2 l show ?case
      by (intro disjI2 exI [of _ ?x] exI [of _ off]) (simp add: nca_slot_def Let_def)
  qed simp
  with nca_try_no_panic show ?thesis by blast
qed

theorem nca_reader_safe_witness:
  "\<exists>p n. nca_build toy_digest nca_example = Ok p \<and> nca_try_from_bytes (plain_nca_to_bytes p) = Ok n
    \<and> (\<exists>r. (nca_section_at n 0 :: (nca_section option, unit) result) = Ok r)"
proof -
  obtain p where p: "nca_build toy_digest nca_example = Ok p" using nca_example_builds by blast
  note parse = nca_parse_built [OF p nca_example_inv toy_digest_size]
  from nca_reader_safe [OF parse(3), where 'e = unit] parse(1) p show ?thesis
    by (metis zero_less_numeral)
qed

end
