(* ===== verification/Romfs_Layout.thy ===== *)
theory Romfs_Layout
  imports NX_Codec
begin

text \<open>
  The RomFS structures of \<^verbatim>\<open>src/raw/romfs.rs\<close>: the header that locates the tables, the fixed
  prefixes of directory and file entries, and the hash that picks an entry's bucket.
\<close>

definition NO_ENTRY :: u32 where "NO_ENTRY = 0xFFFFFFFF"

record romfs_header =
  rh_header_size :: u64
  rh_dir_hash_table_offset :: u64
  rh_dir_hash_table_size :: u64
  rh_dir_meta_table_offset :: u64
  rh_dir_meta_table_size :: u64
  rh_file_hash_table_offset :: u64
  rh_file_hash_table_size :: u64
  rh_file_meta_table_offset :: u64
  rh_file_meta_table_size :: u64
  rh_file_data_offset :: u64

definition enc_romfs_header :: "romfs_header \<Rightarrow> bytes" where
  "enc_romfs_header h =
     le64 (rh_header_size h) @ le64 (rh_dir_hash_table_offset h) @ le64 (rh_dir_hash_table_size h)
     @ le64 (rh_dir_meta_table_offset h) @ le64 (rh_dir_meta_table_size h)
     @ le64 (rh_file_hash_table_offset h) @ le64 (rh_file_hash_table_size h)
     @ le64 (rh_file_meta_table_offset h) @ le64 (rh_file_meta_table_size h) @ le64 (rh_file_data_offset h)"

definition dec_romfs_header :: "bytes \<Rightarrow> romfs_header" where
  "dec_romfs_header bs =
     \<lparr>rh_header_size = rd64 bs 0, rh_dir_hash_table_offset = rd64 bs 8, rh_dir_hash_table_size = rd64 bs 0x10,
      rh_dir_meta_table_offset = rd64 bs 0x18, rh_dir_meta_table_size = rd64 bs 0x20,
      rh_file_hash_table_offset = rd64 bs 0x28, rh_file_hash_table_size = rd64 bs 0x30,
      rh_file_meta_table_offset = rd64 bs 0x38, rh_file_meta_table_size = rd64 bs 0x40,
      rh_file_data_offset = rd64 bs 0x48\<rparr>"

interpretation romfs_header: layout enc_romfs_header dec_romfs_header "0x50" "\<lambda>_. True"
  by unfold_locales (simp_all add: enc_romfs_header_def dec_romfs_header_def field_simps_le field_join)

record romfs_dir_entry =
  de_parent_offset :: u32
  de_sibling_offset :: u32
  de_child_offset :: u32
  de_file_offset :: u32
  de_hash_sibling_offset :: u32
  de_name_len :: u32

definition enc_romfs_dir_entry :: "romfs_dir_entry \<Rightarrow> bytes" where
  "enc_romfs_dir_entry e =
     le32 (de_parent_offset e) @ le32 (de_sibling_offset e) @ le32 (de_child_offset e)
     @ le32 (de_file_offset e) @ le32 (de_hash_sibling_offset e) @ le32 (de_name_len e)"

definition dec_romfs_dir_entry :: "bytes \<Rightarrow> romfs_dir_entry" where
  "dec_romfs_dir_entry bs =
     \<lparr>de_parent_offset = rd32 bs 0, de_sibling_offset = rd32 bs 4, de_child_offset = rd32 bs 8,
      de_file_offset = rd32 bs 12, de_hash_sibling_offset = rd32 bs 0x10, de_name_len = rd32 bs 0x14\<rparr>"

interpretation romfs_dir_entry: layout enc_romfs_dir_entry dec_romfs_dir_entry "0x18" "\<lambda>_. True"
  by unfold_locales (simp_all add: enc_romfs_dir_entry_def dec_romfs_dir_entry_def field_simps_le field_join)

record romfs_file_entry =
  fe_parent_offset :: u32
  fe_sibling_offset :: u32
  fe_data_offset :: u64
  fe_data_size :: u64
  fe_hash_sibling_offset :: u32
  fe_name_len :: u32

definition enc_romfs_file_entry :: "romfs_file_entry \<Rightarrow> bytes" where
  "enc_romfs_file_entry e =
     le32 (fe_parent_offset e) @ le32 (fe_sibling_offset e) @ le64 (fe_data_offset e)
     @ le64 (fe_data_size e) @ le32 (fe_hash_sibling_offset e) @ le32 (fe_name_len e)"

definition dec_romfs_file_entry :: "bytes \<Rightarrow> romfs_file_entry" where
  "dec_romfs_file_entry bs =
     \<lparr>fe_parent_offset = rd32 bs 0, fe_sibling_offset = rd32 bs 4, fe_data_offset = rd64 bs 8,
      fe_data_size = rd64 bs 0x10, fe_hash_sibling_offset = rd32 bs 0x18, fe_name_len = rd32 bs 0x1C\<rparr>"

interpretation romfs_file_entry: layout enc_romfs_file_entry dec_romfs_file_entry "0x20" "\<lambda>_. True"
  by unfold_locales (simp_all add: enc_romfs_file_entry_def dec_romfs_file_entry_def field_simps_le field_join)

text \<open>\<^verbatim>\<open>path_hash\<close>: rotate right by five, then mix in the next byte.\<close>

definition path_hash :: "u32 \<Rightarrow> bytes \<Rightarrow> u32" where
  "path_hash parent_offset n =
     foldl (\<lambda>h byte. word_rotr 5 h XOR ucast byte) (parent_offset XOR 123456789) n"

end
