(* ===== verification/Romfs_Write.thy ===== *)
theory Romfs_Write
  imports Romfs_Layout
begin

text \<open>
  The RomFS builder of \<^verbatim>\<open>src/write/romfs.rs\<close>.  Directories and files sit in two vectors and
  refer to each other by index; the indices the builder keeps are always inside the vectors
  (\<open>romfs_wf\<close> in \<open>Romfs_Tree\<close>), so \<open>!\<close> stands for the indexing.  Offsets into the metadata
  tables are \<^verbatim>\<open>u32\<close> and are added with an overflow check; offsets into the image are sums
  of lengths of buffers in memory.
\<close>

section \<open>State\<close>

record rw_dir =
  rd_path :: bytes
  rd_name :: bytes
  rd_entry_offset :: nat
  rd_children :: "nat list"
  rd_files :: "nat list"
  rd_parent :: nat

record rw_file =
  rf_path :: bytes
  rf_name :: bytes
  rf_data :: bytes
  rf_entry_offset :: nat
  rf_data_offset :: nat
  rf_parent :: nat

record romfs_builder =
  rb_dirs :: "rw_dir list"
  rb_files :: "rw_file list"
  rb_dir_hash_siblings :: "nat list"
  rb_file_hash_siblings :: "nat list"

definition new_dir :: "bytes \<Rightarrow> bytes \<Rightarrow> nat \<Rightarrow> rw_dir" where
  "new_dir path n parent =
     \<lparr>rd_path = path, rd_name = n, rd_entry_offset = 0, rd_children = [], rd_files = [], rd_parent = parent\<rparr>"

definition new_file :: "bytes \<Rightarrow> bytes \<Rightarrow> bytes \<Rightarrow> nat \<Rightarrow> rw_file" where
  "new_file path n data parent =
     \<lparr>rf_path = path, rf_name = n, rf_data = data, rf_entry_offset = 0, rf_data_offset = 0, rf_parent = parent\<rparr>"

definition romfs_new :: romfs_builder where
  "romfs_new = \<lparr>rb_dirs = [new_dir [] [] 0], rb_files = [], rb_dir_hash_siblings = [], rb_file_hash_siblings = []\<rparr>"

datatype romfs_build_error = Romfs_Empty | Romfs_InvalidPath bytes | Romfs_DuplicateEntry bytes

section \<open>Adding a file\<close>

text \<open>\<^verbatim>\<open>str::split('/')\<close>.\<close>

fun split_slash :: "bytes \<Rightarrow> bytes list" where
  "split_slash [] = [[]]"
| "split_slash (b # bs) =
     (if b = 0x2F then [] # split_slash bs
      else case split_slash bs of w # ws \<Rightarrow> (b # w) # ws | [] \<Rightarrow> [[b]])"

text \<open>One step of the navigation: the child of that name, or a new one at the end of the vector.\<close>

definition romfs_enter_dir :: "rw_dir list \<times> nat \<Rightarrow> bytes \<Rightarrow> rw_dir list \<times> nat" where
  "romfs_enter_dir st n =
     (case st of (dirs, current) \<Rightarrow>
        (case find (\<lambda>idx. rd_name (dirs ! idx) = n) (rd_children (dirs ! current)) of
           Some idx \<Rightarrow> (dirs, idx)
         | None \<Rightarrow>
             let dir_path = rd_path (dirs ! current) @ 0x2F # n;
                 new_idx = length dirs;
                 dirs = dirs @ [new_dir dir_path n current];
                 dirs = dirs[current := (dirs ! current)\<lparr>rd_children := rd_children (dirs ! current) @ [new_idx]\<rparr>]
             in (dirs, new_idx)))"

definition romfs_add_file :: "romfs_builder \<Rightarrow> bytes \<Rightarrow> bytes \<Rightarrow> (romfs_builder, romfs_build_error) result" where
  "romfs_add_file b path data =
     (if path = [] \<or> hd path \<noteq> 0x2F then Err (Romfs_InvalidPath path)
      else
        let components = filter (\<lambda>s. s \<noteq> []) (split_slash (tl path)) in
        if components = [] then Err (Romfs_InvalidPath path)
        else
          let file_name = last components;
              (dirs, current) = foldl romfs_enter_dir (rb_dirs b, 0) (butlast components)
          in if \<exists>idx\<in>set (rd_files (dirs ! current)). rf_name (rb_files b ! idx) = file_name
             then Err (Romfs_DuplicateEntry path)
             else
               let file_path = rd_path (dirs ! current) @ 0x2F # file_name;
                   file_idx = length (rb_files b)
               in Ok (b\<lparr>rb_files := rb_files b @ [new_file file_path file_name data current],
                        rb_dirs := dirs[current := (dirs ! current)\<lparr>rd_files := rd_files (dirs ! current) @ [file_idx]\<rparr>]\<rparr>))"

section \<open>Adding a directory tree\<close>

text \<open>
  \<^verbatim>\<open>from_directory\<close> over what the filesystem answers: \<open>fs\<close> lists a directory, and each entry
  comes with its path, its kind, its name if that is valid UTF-8, and its contents; \<open>None\<close> is a
  read that failed.
\<close>

datatype fs_kind = Fs_Dir | Fs_File | Fs_Symlink | Fs_Other

datatype fs_entry =
    Fs_Unreadable
  | Fs_Entry bytes "fs_kind option" "bytes option" "bytes option"

datatype romfs_dir_error = Romfs_Io bytes | Romfs_Symlink bytes | Romfs_InvalidFileName bytes

definition romfs_scan_entry ::
  "bytes \<Rightarrow> nat \<Rightarrow> romfs_builder \<times> (nat \<times> bytes) list \<Rightarrow> fs_entry
     \<Rightarrow> (romfs_builder \<times> (nat \<times> bytes) list, romfs_dir_error) result" where
  "romfs_scan_entry fs_path dir_idx st e =
     (case st of (b, stack) \<Rightarrow>
        (case e of
           Fs_Unreadable \<Rightarrow> Err (Romfs_Io fs_path)
         | Fs_Entry path file_type file_name contents \<Rightarrow>
             rbind (ok_or (Romfs_Io path) file_type) (\<lambda>kind.
             rbind (ok_or (Romfs_InvalidFileName path) file_name) (\<lambda>n.
             let entry_path = rd_path (rb_dirs b ! dir_idx) @ 0x2F # n in
             if kind = Fs_Dir then
               let new_idx = length (rb_dirs b);
                   dirs = rb_dirs b @ [new_dir entry_path n dir_idx];
                   dirs = dirs[dir_idx := (dirs ! dir_idx)\<lparr>rd_children := rd_children (dirs ! dir_idx) @ [new_idx]\<rparr>]
               in Ok (b\<lparr>rb_dirs := dirs\<rparr>, stack @ [(new_idx, path)])
             else if kind = Fs_File then
               rbind (ok_or (Romfs_Io path) contents) (\<lambda>data.
               let file_idx = length (rb_files b);
                   files = rb_files b @ [new_file entry_path n data dir_idx];
                   dirs = (rb_dirs b)[dir_idx := (rb_dirs b ! dir_idx)\<lparr>rd_files := rd_files (rb_dirs b ! dir_idx) @ [file_idx]\<rparr>]
               in Ok (b\<lparr>rb_files := files, rb_dirs := dirs\<rparr>, stack))
             else if kind = Fs_Symlink then Err (Romfs_Symlink path)
             else Ok (b, stack)))))"

text \<open>The loop over the stack of directories still to be read; a filesystem with a cycle has no end.\<close>

partial_function (option) romfs_scan ::
  "(bytes \<Rightarrow> fs_entry list option) \<Rightarrow> romfs_builder \<Rightarrow> (nat \<times> bytes) list \<Rightarrow> (romfs_builder, romfs_dir_error) result option" where
  "romfs_scan fs b stack =
     (if stack = [] then Some (Ok b)
      else case fs (snd (last stack)) of
          None \<Rightarrow> Some (Err (Romfs_Io (snd (last stack))))
        | Some entries \<Rightarrow>
            (case rfold (romfs_scan_entry (snd (last stack)) (fst (last stack))) (b, butlast stack) entries of
               Ok st \<Rightarrow> romfs_scan fs (fst st) (snd st)
             | Err e \<Rightarrow> Some (Err e)
             | Panic \<Rightarrow> Some Panic))"

definition romfs_from_directory ::
  "(bytes \<Rightarrow> fs_entry list option) \<Rightarrow> bytes \<Rightarrow> (romfs_builder, romfs_dir_error) result option" where
  "romfs_from_directory fs base_path = romfs_scan fs romfs_new [(0, base_path)]"

section \<open>Putting the tables in path order\<close>

text \<open>Where each old index ends up.\<close>

definition new_index_of :: "nat list \<Rightarrow> nat list" where
  "new_index_of order = foldl (\<lambda>v (new, old). v[old := new]) (replicate (length order) 0) (enumerate 0 order)"

definition sort_entries_by_path :: "romfs_builder \<Rightarrow> romfs_builder" where
  "sort_entries_by_path b =
     (let dirs = rb_dirs b; files = rb_files b;
          dir_order = sort_key (\<lambda>i. rd_path (dirs ! i)) [0..<length dirs];
          new_dir_index = new_index_of dir_order;
          file_order = sort_key (\<lambda>i. rf_path (files ! i)) [0..<length files];
          new_file_index = new_index_of file_order;
          dirs = sort_key rd_path dirs;
          files = sort_key rf_path files;
          dirs = map (\<lambda>d. d\<lparr>rd_parent := new_dir_index ! rd_parent d,
                            rd_children := map ((!) new_dir_index) (rd_children d),
                            rd_files := map ((!) new_file_index) (rd_files d)\<rparr>) dirs;
          files = map (\<lambda>f. f\<lparr>rf_parent := new_dir_index ! rf_parent f\<rparr>) files
      in b\<lparr>rb_dirs := dirs, rb_files := files\<rparr>)"

definition sort_children :: "romfs_builder \<Rightarrow> romfs_builder" where
  "sort_children b =
     b\<lparr>rb_dirs := map (\<lambda>d.
         d\<lparr>rd_children := map fst (sort_key snd (map (\<lambda>idx. (idx, rd_name (rb_dirs b ! idx))) (rd_children d))),
           rd_files := map fst (sort_key snd (map (\<lambda>idx. (idx, rf_name (rb_files b ! idx))) (rd_files d)))\<rparr>)
       (rb_dirs b)\<rparr>"

section \<open>Offsets\<close>

text \<open>\<^verbatim>\<open>align32\<close>, which panics on overflow, and \<^verbatim>\<open>align64\<close>.\<close>

definition align32 :: "nat \<Rightarrow> nat \<Rightarrow> (nat, 'e) result" where
  "align32 v alignment = rbind (u32_add v (alignment - 1)) (\<lambda>s. Ok (s div alignment * alignment))"

definition align64 :: "nat \<Rightarrow> nat \<Rightarrow> nat" where
  "align64 v alignment = align_up v alignment"

fun place_file_data :: "nat \<Rightarrow> rw_file list \<Rightarrow> rw_file list" where
  "place_file_data data_offset [] = []"
| "place_file_data data_offset (f # fs) =
     (let data_offset = align64 data_offset 0x10
      in f\<lparr>rf_data_offset := data_offset\<rparr> # place_file_data (data_offset + length (rf_data f)) fs)"

fun place_file_entries :: "nat \<Rightarrow> rw_file list \<Rightarrow> (rw_file list, 'e) result" where
  "place_file_entries entry_offset [] = Ok []"
| "place_file_entries entry_offset (f # fs) =
     rbind (align32 (length (rf_name f) mod 2 ^ 32) 4) (\<lambda>n.
     rbind (u32_add 0x20 n) (\<lambda>size.
     rbind (u32_add entry_offset size) (\<lambda>next.
     rbind (place_file_entries next fs) (\<lambda>fs.
       Ok (f\<lparr>rf_entry_offset := entry_offset\<rparr> # fs)))))"

fun place_dir_entries :: "nat \<Rightarrow> rw_dir list \<Rightarrow> (rw_dir list, 'e) result" where
  "place_dir_entries entry_offset [] = Ok []"
| "place_dir_entries entry_offset (d # ds) =
     rbind (align32 (length (rd_name d) mod 2 ^ 32) 4) (\<lambda>n.
     rbind (u32_add 0x18 n) (\<lambda>size.
     rbind (u32_add entry_offset size) (\<lambda>next.
     rbind (place_dir_entries next ds) (\<lambda>ds.
       Ok (d\<lparr>rd_entry_offset := entry_offset\<rparr> # ds)))))"

definition calculate_offsets :: "romfs_builder \<Rightarrow> (romfs_builder, 'e) result" where
  "calculate_offsets b =
     rbind (place_file_entries 0 (place_file_data 0 (rb_files b))) (\<lambda>files.
     rbind (place_dir_entries 0 (rb_dirs b)) (\<lambda>dirs.
       Ok (b\<lparr>rb_files := files, rb_dirs := dirs\<rparr>)))"

definition calculate_file_partition_size :: "romfs_builder \<Rightarrow> nat" where
  "calculate_file_partition_size b =
     foldl (\<lambda>size f. align64 size 0x10 + length (rf_data f)) 0 (rb_files b)"

section \<open>Hash tables\<close>

definition small_factor :: "nat \<Rightarrow> bool" where
  "small_factor n \<longleftrightarrow> 2 dvd n \<or> 3 dvd n \<or> 5 dvd n \<or> 7 dvd n \<or> 11 dvd n \<or> 13 dvd n \<or> 17 dvd n"

function next_pseudo_prime :: "nat \<Rightarrow> nat" where
  "next_pseudo_prime n = (if small_factor n then next_pseudo_prime (n + 1) else n)"
  by pat_completeness auto
termination
proof (relation "measure (\<lambda>n. nat ((1 - int n) mod 510510))", goal_cases)
  case (2 n)
  have "(1 - int n) mod 510510 \<noteq> 0"
  proof
    assume "(1 - int n) mod 510510 = 0"
    then obtain k where k: "1 - int n = 510510 * k" by (auto simp: mod_eq_0_iff_dvd dvd_def)
    have "\<not> int p dvd int n" if "int p dvd 510510" "1 < p" for p :: nat
    proof
      assume "int p dvd int n"
      moreover have "int p dvd 1 - int n" using that(1) k by simp
      ultimately have "int p dvd (1 - int n) + int n" by (rule dvd_add [rotated])
      then show False using that(2) by simp
    qed
    then have no: "\<not> p dvd n" if "int p dvd 510510" "1 < p" for p :: nat
      using that by (simp add: int_dvd_int_iff)
    from 2 show False
      using no [of 2] no [of 3] no [of 5] no [of 7] no [of 11] no [of 13] no [of 17]
      by (auto simp: small_factor_def)
  qed
  moreover have "(1 - int n) mod 510510 = ((1 - int (n + 1)) mod 510510 + 1) mod 510510"
    by (simp add: mod_simps)
  moreover have "0 \<le> (1 - int (n + 1)) mod 510510" "(1 - int (n + 1)) mod 510510 < 510510" by simp_all
  ultimately have "(1 - int (n + 1)) mod 510510 < (1 - int n) mod 510510"
    by (smt (verit) mod_pos_pos_trivial mod_self)
  then show ?case by simp
qed simp

declare next_pseudo_prime.simps [simp del]

definition romfs_get_hash_table_count :: "nat \<Rightarrow> nat" where
  "romfs_get_hash_table_count num_entries =
     (if num_entries < 3 then 3
      else if num_entries < 19 then num_entries OR 1
      else next_pseudo_prime num_entries)"

text \<open>One entry of a hash table: it becomes the head of its bucket and points to the old head.\<close>

definition hash_insert :: "nat list \<times> nat list \<Rightarrow> nat \<Rightarrow> nat \<Rightarrow> nat \<Rightarrow> nat list \<times> nat list" where
  "hash_insert st bucket idx entry_offset =
     (case st of (table, siblings) \<Rightarrow> (table[bucket := entry_offset], siblings[idx := table ! bucket]))"

definition generate_dir_hash_table :: "romfs_builder \<Rightarrow> romfs_builder \<times> nat list" where
  "generate_dir_hash_table b =
     (let table_size = romfs_get_hash_table_count (length (rb_dirs b));
          (table, siblings) =
            foldl (\<lambda>st (idx, d).
                let parent_offset = rd_entry_offset (rb_dirs b ! rd_parent d);
                    h = path_hash (word_of_nat parent_offset) (rd_name d)
                in hash_insert st (unat h mod table_size) idx (rd_entry_offset d))
              (replicate table_size (unat NO_ENTRY), rb_dir_hash_siblings b) (enumerate 0 (rb_dirs b))
      in (b\<lparr>rb_dir_hash_siblings := siblings\<rparr>, table))"

definition generate_file_hash_table :: "romfs_builder \<Rightarrow> romfs_builder \<times> nat list" where
  "generate_file_hash_table b =
     (let table_size = romfs_get_hash_table_count (length (rb_files b));
          (table, siblings) =
            foldl (\<lambda>st (idx, f).
                let parent_offset = rd_entry_offset (rb_dirs b ! rf_parent f);
                    h = path_hash (word_of_nat parent_offset) (rf_name f)
                in hash_insert st (unat h mod table_size) idx (rf_entry_offset f))
              (replicate table_size (unat NO_ENTRY), rb_file_hash_siblings b) (enumerate 0 (rb_files b))
      in (b\<lparr>rb_file_hash_siblings := siblings\<rparr>, table))"

section \<open>Metadata tables\<close>

text \<open>\<^verbatim>\<open>windows(2)\<close>.\<close>

definition windows2 :: "'x list \<Rightarrow> ('x \<times> 'x) list" where
  "windows2 xs = zip xs (tl xs)"

definition find_sibling_dir :: "romfs_builder \<Rightarrow> rw_dir \<Rightarrow> nat" where
  "find_sibling_dir b d =
     (case find (\<lambda>w. rd_entry_offset (rb_dirs b ! fst w) = rd_entry_offset d)
             (windows2 (rd_children (rb_dirs b ! rd_parent d))) of
        Some w \<Rightarrow> rd_entry_offset (rb_dirs b ! snd w) | None \<Rightarrow> unat NO_ENTRY)"

definition find_sibling_file :: "romfs_builder \<Rightarrow> rw_file \<Rightarrow> nat" where
  "find_sibling_file b f =
     (case find (\<lambda>w. rf_entry_offset (rb_files b ! fst w) = rf_entry_offset f)
             (windows2 (rd_files (rb_dirs b ! rf_parent f))) of
        Some w \<Rightarrow> rf_entry_offset (rb_files b ! snd w) | None \<Rightarrow> unat NO_ENTRY)"

definition le32n :: "nat \<Rightarrow> bytes" where
  "le32n n = le32 (word_of_nat n)"

definition le64n :: "nat \<Rightarrow> bytes" where
  "le64n n = le64 (word_of_nat n)"

text \<open>The bytes one entry adds, before padding, and the loop that pads after each entry.\<close>

definition dir_record :: "romfs_builder \<Rightarrow> nat \<Rightarrow> rw_dir \<Rightarrow> bytes" where
  "dir_record b idx d =
     (let first_child = (case rd_children d of [] \<Rightarrow> unat NO_ENTRY | c # _ \<Rightarrow> rd_entry_offset (rb_dirs b ! c));
          first_file = (case rd_files d of [] \<Rightarrow> unat NO_ENTRY | c # _ \<Rightarrow> rf_entry_offset (rb_files b ! c))
      in le32n (rd_entry_offset (rb_dirs b ! rd_parent d)) @ le32n (find_sibling_dir b d)
         @ le32n first_child @ le32n first_file @ le32n (rb_dir_hash_siblings b ! idx)
         @ le32n (length (rd_name d)) @ rd_name d)"

definition file_record :: "romfs_builder \<Rightarrow> nat \<Rightarrow> rw_file \<Rightarrow> bytes" where
  "file_record b idx f =
     le32n (rd_entry_offset (rb_dirs b ! rf_parent f)) @ le32n (find_sibling_file b f)
     @ le64n (rf_data_offset f) @ le64n (length (rf_data f)) @ le32n (rb_file_hash_siblings b ! idx)
     @ le32n (length (rf_name f)) @ rf_name f"

definition push_record :: "bytes \<Rightarrow> bytes \<Rightarrow> (bytes, 'e) result" where
  "push_record table r =
     (let table = table @ r
      in rbind (align32 (length table mod 2 ^ 32) 4) (\<lambda>padded_len. Ok (resize0 table padded_len)))"

definition build_dir_table :: "romfs_builder \<Rightarrow> (bytes, 'e) result" where
  "build_dir_table b = rfold (\<lambda>table (idx, d). push_record table (dir_record b idx d)) [] (enumerate 0 (rb_dirs b))"

definition build_file_table :: "romfs_builder \<Rightarrow> (bytes, 'e) result" where
  "build_file_table b = rfold (\<lambda>table (idx, f). push_record table (file_record b idx f)) [] (enumerate 0 (rb_files b))"

section \<open>The image\<close>

definition ROMFS_FILEPARTITION_OFS :: nat where "ROMFS_FILEPARTITION_OFS = 0x200"

definition write_header :: "nat list \<Rightarrow> bytes \<Rightarrow> nat list \<Rightarrow> bytes \<Rightarrow> nat \<Rightarrow> bytes" where
  "write_header dir_hash_table dir_table file_hash_table file_table file_partition_size =
     (let file_data_end = ROMFS_FILEPARTITION_OFS + file_partition_size;
          dir_hash_offset = align64 file_data_end 4;
          dir_hash_size = length dir_hash_table * 4;
          dir_table_offset = dir_hash_offset + dir_hash_size;
          dir_table_size = length dir_table;
          file_hash_offset = dir_table_offset + dir_table_size;
          file_hash_size = length file_hash_table * 4;
          file_table_offset = file_hash_offset + file_hash_size;
          file_table_size = length file_table
      in le64n 0x50 @ le64n dir_hash_offset @ le64n dir_hash_size @ le64n dir_table_offset
         @ le64n dir_table_size @ le64n file_hash_offset @ le64n file_hash_size
         @ le64n file_table_offset @ le64n file_table_size @ le64n ROMFS_FILEPARTITION_OFS)"

definition write_file_data :: "bytes \<Rightarrow> rw_file list \<Rightarrow> bytes" where
  "write_file_data buf files =
     foldl (\<lambda>buf f. resize0 buf (align64 (length buf) 0x10) @ rf_data f) buf files"

definition romfs_build :: "romfs_builder \<Rightarrow> (bytes, romfs_build_error) result" where
  "romfs_build b =
     (if rb_files b = [] then Err Romfs_Empty
      else
        let b = sort_children (sort_entries_by_path b) in
        rbind (calculate_offsets b) (\<lambda>b.
        let b = b\<lparr>rb_dir_hash_siblings := replicate (length (rb_dirs b)) (unat NO_ENTRY),
                  rb_file_hash_siblings := replicate (length (rb_files b)) (unat NO_ENTRY)\<rparr>;
            (b, dir_hash_table) = generate_dir_hash_table b;
            (b, file_hash_table) = generate_file_hash_table b
        in rbind (build_dir_table b) (\<lambda>dir_table.
           rbind (build_file_table b) (\<lambda>file_table.
           let file_partition_size = calculate_file_partition_size b;
               buf = write_header dir_hash_table dir_table file_hash_table file_table file_partition_size;
               buf = resize0 buf ROMFS_FILEPARTITION_OFS;
               buf = write_file_data buf (rb_files b);
               buf = resize0 buf (align64 (length buf) 4)
           in Ok (buf @ concat (map le32n dir_hash_table) @ dir_table
                  @ concat (map le32n file_hash_table) @ file_table)))))"

end
