(* ===== verification/Romfs_Tree.thy ===== *)
theory Romfs_Tree
  imports Romfs_Write "HOL-Library.Multiset"
begin

text \<open>
  The tree a RomFS builder keeps: the invariant of its two vectors, what adding a file does to
  it, and that putting the vectors in path order only renames the indices.
\<close>

section \<open>Paths and components\<close>

definition name_ok :: "bytes \<Rightarrow> bool" where
  "name_ok n \<longleftrightarrow> n \<noteq> [] \<and> 0x2F \<notin> set n"

text \<open>The path of a list of components: each with a slash in front.\<close>

definition path_of :: "bytes list \<Rightarrow> bytes" where
  "path_of cs = concat (map ((#) 0x2F) cs)"

lemma path_of_simps [simp]:
  "path_of [] = []" "path_of (c # cs) = 0x2F # c @ path_of cs" "path_of (cs @ ds) = path_of cs @ path_of ds"
  by (simp_all add: path_of_def)

lemma split_slash_nonempty [simp]: "split_slash bs \<noteq> []"
  by (induction bs) (auto split: list.splits)

lemma path_of_split_slash [simp]: "path_of (split_slash bs) = 0x2F # bs"
proof (induction bs)
  case (Cons b bs)
  then show ?case by (cases "split_slash bs") auto
qed simp

lemma split_slash_no_slash: "c \<in> set (split_slash bs) \<Longrightarrow> 0x2F \<notin> set c"
proof (induction bs arbitrary: c)
  case (Cons b bs)
  then show ?case by (cases "split_slash bs") (auto split: if_splits)
qed simp

text \<open>The last slash of a path separates the name from the directory.\<close>

lemma last_slash_unique:
  assumes "p @ 0x2F # n = q @ 0x2F # m" "0x2F \<notin> set n" "0x2F \<notin> set m"
  shows "p = q \<and> n = (m :: bytes)"
proof -
  have "rev n @ 0x2F # rev p = rev m @ 0x2F # rev q"
    using arg_cong [OF assms(1), of rev] by simp
  moreover have "takeWhile (\<lambda>b. b \<noteq> 0x2F) (rev n @ 0x2F # rev p) = rev n"
    "takeWhile (\<lambda>b. b \<noteq> 0x2F) (rev m @ 0x2F # rev q) = rev m"
    using assms(2,3) by (subst takeWhile_append2; auto)+
  ultimately have "rev n = rev m" by metis
  with assms(1) show ?thesis by simp
qed

lemma path_of_snoc_eq:
  assumes "path_of (cs @ [c]) = p @ 0x2F # n" "0x2F \<notin> set c" "0x2F \<notin> set n"
  shows "p = path_of cs \<and> n = c"
  using last_slash_unique [of "path_of cs" c p n] assms by simp

text \<open>Everything in front of a slash of a path is the path of some of its components.\<close>

lemma path_of_prefix:
  assumes "\<forall>c\<in>set cs. 0x2F \<notin> set c"
  shows "(\<exists>rest. path_of cs = p @ 0x2F # rest) \<longleftrightarrow> (\<exists>k<length cs. p = path_of (take k cs))"
  using assms
proof (induction cs rule: rev_induct)
  case (snoc c cs)
  have split: "path_of (cs @ [c]) = p @ 0x2F # rest \<longleftrightarrow>
      (p = path_of cs \<and> rest = c) \<or> (\<exists>r. path_of cs = p @ 0x2F # r \<and> rest = r @ 0x2F # c)" for rest
  proof
    assume eq: "path_of (cs @ [c]) = p @ 0x2F # rest"
    show "(p = path_of cs \<and> rest = c) \<or> (\<exists>r. path_of cs = p @ 0x2F # r \<and> rest = r @ 0x2F # c)"
    proof (cases "0x2F \<in> set rest")
      case False
      then show ?thesis using path_of_snoc_eq [OF eq] snoc.prems by simp
    next
      case True
      then obtain r m where r: "rest = r @ 0x2F # m" "0x2F \<notin> set m"
        by (meson split_list_last)
      then have "path_of (cs @ [c]) = (p @ 0x2F # r) @ 0x2F # m" using eq by simp
      from path_of_snoc_eq [OF this] snoc.prems r show ?thesis by simp
    qed
  qed auto
  have "(\<exists>rest. path_of (cs @ [c]) = p @ 0x2F # rest) \<longleftrightarrow> p = path_of cs \<or> (\<exists>r. path_of cs = p @ 0x2F # r)"
    unfolding split by blast
  also have "\<dots> \<longleftrightarrow> (\<exists>k<length (cs @ [c]). p = path_of (take k (cs @ [c])))"
    using snoc by (auto simp: less_Suc_eq)
  finally show ?case .
qed simp

section \<open>The invariant\<close>

text \<open>
  Index 0 is the root; every other directory and every file names its parent and is listed there
  exactly once; paths follow the links and are unique.
\<close>

definition romfs_wf :: "romfs_builder \<Rightarrow> bool" where
  "romfs_wf b \<longleftrightarrow>
     rb_dirs b \<noteq> [] \<and> rd_path (rb_dirs b ! 0) = [] \<and> rd_name (rb_dirs b ! 0) = [] \<and> rd_parent (rb_dirs b ! 0) = 0
   \<and> (\<forall>i<length (rb_dirs b).
        distinct (rd_children (rb_dirs b ! i)) \<and> distinct (rd_files (rb_dirs b ! i))
      \<and> (\<forall>c. c \<in> set (rd_children (rb_dirs b ! i)) \<longleftrightarrow> 0 < c \<and> c < length (rb_dirs b) \<and> rd_parent (rb_dirs b ! c) = i)
      \<and> (\<forall>k. k \<in> set (rd_files (rb_dirs b ! i)) \<longleftrightarrow> k < length (rb_files b) \<and> rf_parent (rb_files b ! k) = i))
   \<and> (\<forall>c<length (rb_dirs b). 0 < c \<longrightarrow>
        rd_parent (rb_dirs b ! c) < length (rb_dirs b) \<and> name_ok (rd_name (rb_dirs b ! c))
      \<and> rd_path (rb_dirs b ! c) = rd_path (rb_dirs b ! rd_parent (rb_dirs b ! c)) @ 0x2F # rd_name (rb_dirs b ! c))
   \<and> (\<forall>k<length (rb_files b).
        rf_parent (rb_files b ! k) < length (rb_dirs b) \<and> name_ok (rf_name (rb_files b ! k))
      \<and> rf_path (rb_files b ! k) = rd_path (rb_dirs b ! rf_parent (rb_files b ! k)) @ 0x2F # rf_name (rb_files b ! k))
   \<and> distinct (map rd_path (rb_dirs b)) \<and> distinct (map rf_path (rb_files b))"

lemma romfs_wf_root:
  assumes "romfs_wf b"
  shows "rb_dirs b \<noteq> []" "0 < length (rb_dirs b)" "rd_path (rb_dirs b ! 0) = []"
    "rd_name (rb_dirs b ! 0) = []" "rd_parent (rb_dirs b ! 0) = 0"
  using assms by (simp_all add: romfs_wf_def)

lemma romfs_wf_lists:
  assumes "romfs_wf b" "i < length (rb_dirs b)"
  shows "distinct (rd_children (rb_dirs b ! i))" "distinct (rd_files (rb_dirs b ! i))"
    "c \<in> set (rd_children (rb_dirs b ! i)) \<longleftrightarrow> 0 < c \<and> c < length (rb_dirs b) \<and> rd_parent (rb_dirs b ! c) = i"
    "k \<in> set (rd_files (rb_dirs b ! i)) \<longleftrightarrow> k < length (rb_files b) \<and> rf_parent (rb_files b ! k) = i"
  using assms unfolding romfs_wf_def by blast+

lemma romfs_wf_dir:
  assumes "romfs_wf b" "c < length (rb_dirs b)" "0 < c"
  shows "rd_parent (rb_dirs b ! c) < length (rb_dirs b)" "name_ok (rd_name (rb_dirs b ! c))"
    "rd_path (rb_dirs b ! c) = rd_path (rb_dirs b ! rd_parent (rb_dirs b ! c)) @ 0x2F # rd_name (rb_dirs b ! c)"
  using assms unfolding romfs_wf_def by blast+

lemma romfs_wf_file:
  assumes "romfs_wf b" "k < length (rb_files b)"
  shows "rf_parent (rb_files b ! k) < length (rb_dirs b)" "name_ok (rf_name (rb_files b ! k))"
    "rf_path (rb_files b ! k) = rd_path (rb_dirs b ! rf_parent (rb_files b ! k)) @ 0x2F # rf_name (rb_files b ! k)"
  using assms unfolding romfs_wf_def by blast+

lemma romfs_wf_paths:
  assumes "romfs_wf b"
  shows "distinct (map rd_path (rb_dirs b))" "distinct (map rf_path (rb_files b))"
  using assms by (simp_all add: romfs_wf_def)

lemma romfs_wf_parent: "romfs_wf b \<Longrightarrow> c < length (rb_dirs b) \<Longrightarrow> rd_parent (rb_dirs b ! c) < length (rb_dirs b)"
  by (cases "c = 0") (simp_all add: romfs_wf_root romfs_wf_dir)

lemma romfs_wf_inj:
  assumes "romfs_wf b" "i < length (rb_dirs b)" "j < length (rb_dirs b)"
    "rd_path (rb_dirs b ! i) = rd_path (rb_dirs b ! j)"
  shows "i = j"
  using romfs_wf_paths(1) [OF assms(1)] assms(2-4) nth_eq_iff_index_eq [of "map rd_path (rb_dirs b)" i j] by simp

lemma romfs_wf_new: "romfs_wf romfs_new"
  by (auto simp: romfs_wf_def romfs_new_def new_dir_def)

text \<open>A child is found by its path: the directory with the longer path hangs under the shorter.\<close>

lemma romfs_child_path:
  assumes wf: "romfs_wf b" and i: "i < length (rb_dirs b)" and n: "0x2F \<notin> set n"
  shows "(\<exists>c\<in>set (rd_children (rb_dirs b ! i)). rd_name (rb_dirs b ! c) = n) \<longleftrightarrow>
    rd_path (rb_dirs b ! i) @ 0x2F # n \<in> set (map rd_path (rb_dirs b))"
proof
  assume "\<exists>c\<in>set (rd_children (rb_dirs b ! i)). rd_name (rb_dirs b ! c) = n"
  then obtain c where "0 < c" "c < length (rb_dirs b)" "rd_parent (rb_dirs b ! c) = i" "rd_name (rb_dirs b ! c) = n"
    using romfs_wf_lists(3) [OF wf i] by blast
  then have "rd_path (rb_dirs b ! i) @ 0x2F # n = map rd_path (rb_dirs b) ! c" "c < length (map rd_path (rb_dirs b))"
    using romfs_wf_dir(3) [OF wf] by auto
  then show "rd_path (rb_dirs b ! i) @ 0x2F # n \<in> set (map rd_path (rb_dirs b))" by (metis nth_mem)
next
  assume "rd_path (rb_dirs b ! i) @ 0x2F # n \<in> set (map rd_path (rb_dirs b))"
  then obtain c where c: "c < length (rb_dirs b)" "rd_path (rb_dirs b ! c) = rd_path (rb_dirs b ! i) @ 0x2F # n"
    by (auto simp: in_set_conv_nth)
  then have "c \<noteq> 0" using romfs_wf_root(3) [OF wf] by (metis Nil_is_append_conv list.distinct(1))
  then have d: "rd_parent (rb_dirs b ! c) < length (rb_dirs b)" "0x2F \<notin> set (rd_name (rb_dirs b ! c))"
    "rd_path (rb_dirs b ! rd_parent (rb_dirs b ! c)) @ 0x2F # rd_name (rb_dirs b ! c) = rd_path (rb_dirs b ! i) @ 0x2F # n"
    using romfs_wf_dir [OF wf c(1)] c(2) by (simp_all add: name_ok_def)
  from last_slash_unique [OF d(3) d(2) n] have "rd_parent (rb_dirs b ! c) = i" "rd_name (rb_dirs b ! c) = n"
    using romfs_wf_inj [OF wf d(1) i] by simp_all
  then show "\<exists>c\<in>set (rd_children (rb_dirs b ! i)). rd_name (rb_dirs b ! c) = n"
    using romfs_wf_lists(3) [OF wf i, of c] c(1) \<open>c \<noteq> 0\<close> by blast
qed

lemma romfs_file_path:
  assumes wf: "romfs_wf b" and i: "i < length (rb_dirs b)" and n: "0x2F \<notin> set n"
  shows "(\<exists>k\<in>set (rd_files (rb_dirs b ! i)). rf_name (rb_files b ! k) = n) \<longleftrightarrow>
    rd_path (rb_dirs b ! i) @ 0x2F # n \<in> set (map rf_path (rb_files b))"
proof
  assume "\<exists>k\<in>set (rd_files (rb_dirs b ! i)). rf_name (rb_files b ! k) = n"
  then obtain k where "k < length (rb_files b)" "rf_parent (rb_files b ! k) = i" "rf_name (rb_files b ! k) = n"
    using romfs_wf_lists(4) [OF wf i] by blast
  then have "rd_path (rb_dirs b ! i) @ 0x2F # n = map rf_path (rb_files b) ! k" "k < length (map rf_path (rb_files b))"
    using romfs_wf_file(3) [OF wf] by auto
  then show "rd_path (rb_dirs b ! i) @ 0x2F # n \<in> set (map rf_path (rb_files b))" by (metis nth_mem)
next
  assume "rd_path (rb_dirs b ! i) @ 0x2F # n \<in> set (map rf_path (rb_files b))"
  then obtain k where k: "k < length (rb_files b)" "rf_path (rb_files b ! k) = rd_path (rb_dirs b ! i) @ 0x2F # n"
    by (auto simp: in_set_conv_nth)
  then have d: "rf_parent (rb_files b ! k) < length (rb_dirs b)" "0x2F \<notin> set (rf_name (rb_files b ! k))"
    "rd_path (rb_dirs b ! rf_parent (rb_files b ! k)) @ 0x2F # rf_name (rb_files b ! k) = rd_path (rb_dirs b ! i) @ 0x2F # n"
    using romfs_wf_file [OF wf k(1)] by (simp_all add: name_ok_def)
  from last_slash_unique [OF d(3) d(2) n] have "rf_parent (rb_files b ! k) = i" "rf_name (rb_files b ! k) = n"
    using romfs_wf_inj [OF wf d(1) i] by simp_all
  then show "\<exists>k\<in>set (rd_files (rb_dirs b ! i)). rf_name (rb_files b ! k) = n"
    using romfs_wf_lists(4) [OF wf i, of k] k(1) by blast
qed

section \<open>Adding a file\<close>

text \<open>A new directory at the end of the vector, linked from directory \<open>i\<close>.\<close>

definition link_dir :: "rw_dir list \<Rightarrow> nat \<Rightarrow> bytes \<Rightarrow> rw_dir list" where
  "link_dir ds i n =
     (ds @ [new_dir (rd_path (ds ! i) @ 0x2F # n) n i])
       [i := (ds ! i)\<lparr>rd_children := rd_children (ds ! i) @ [length ds]\<rparr>]"

lemma length_link_dir [simp]: "length (link_dir ds i n) = Suc (length ds)"
  by (simp add: link_dir_def)

lemma nth_link_dir:
  "i < length ds \<Longrightarrow> c < Suc (length ds) \<Longrightarrow> link_dir ds i n ! c =
     (if c = length ds then new_dir (rd_path (ds ! i) @ 0x2F # n) n i
      else if c = i then (ds ! i)\<lparr>rd_children := rd_children (ds ! i) @ [length ds]\<rparr> else ds ! c)"
  by (auto simp: link_dir_def nth_list_update nth_append)

lemma link_dir_paths:
  assumes "i < length ds"
  shows "map rd_path (link_dir ds i n) = map rd_path ds @ [rd_path (ds ! i) @ 0x2F # n]"
  using assms by (intro nth_equalityI) (auto simp: nth_link_dir nth_append new_dir_def)

lemma link_dir_wf:
  assumes wf: "romfs_wf b" and i: "i < length (rb_dirs b)" and n: "name_ok n"
    and fresh: "\<not> (\<exists>c\<in>set (rd_children (rb_dirs b ! i)). rd_name (rb_dirs b ! c) = n)"
  shows "romfs_wf (b\<lparr>rb_dirs := link_dir (rb_dirs b) i n\<rparr>)"
proof -
  let ?ds = "rb_dirs b" and ?fs = "rb_files b"
  let ?new = "link_dir ?ds i n"
  note at_ = nth_link_dir [OF i]
  have old: "rd_path (?new ! c) = rd_path (?ds ! c)" "rd_name (?new ! c) = rd_name (?ds ! c)"
    "rd_parent (?new ! c) = rd_parent (?ds ! c)" "rd_files (?new ! c) = rd_files (?ds ! c)" if "c < length ?ds" for c
    using that at_ [of c n] by simp_all
  have last: "rd_path (?new ! length ?ds) = rd_path (?ds ! i) @ 0x2F # n" "rd_name (?new ! length ?ds) = n"
    "rd_parent (?new ! length ?ds) = i" "rd_children (?new ! length ?ds) = []" "rd_files (?new ! length ?ds) = []"
    using at_ [of "length ?ds" n] by (simp_all add: new_dir_def)
  have kids: "rd_children (?new ! c) = (if c = i then rd_children (?ds ! i) @ [length ?ds] else rd_children (?ds ! c))"
    if "c < length ?ds" for c
    using that at_ [of c n] by simp
  have pos: "0 < length ?ds" by (rule romfs_wf_root [OF wf])
  have root: "?new \<noteq> []" "rd_path (?new ! 0) = []" "rd_name (?new ! 0) = []" "rd_parent (?new ! 0) = 0"
    using old [OF pos] romfs_wf_root [OF wf] by auto (metis length_link_dir list.size(3) nat.simps(3))
  have lists: "distinct (rd_children (?new ! j)) \<and> distinct (rd_files (?new ! j))
      \<and> (\<forall>c. c \<in> set (rd_children (?new ! j)) \<longleftrightarrow> 0 < c \<and> c < length ?new \<and> rd_parent (?new ! c) = j)
      \<and> (\<forall>k. k \<in> set (rd_files (?new ! j)) \<longleftrightarrow> k < length ?fs \<and> rf_parent (?fs ! k) = j)"
    if "j < length ?new" for j
  proof (cases "j = length ?ds")
    case True
    have "\<not> (0 < c \<and> c < length ?new \<and> rd_parent (?new ! c) = j)" for c
      using True old(3) [of c] last(3) romfs_wf_parent [OF wf, of c] i by (auto simp: less_Suc_eq)
    moreover have "\<not> (k < length ?fs \<and> rf_parent (?fs ! k) = j)" for k
      using True romfs_wf_file(1) [OF wf, of k] by auto
    ultimately show ?thesis using True last(4,5) by simp
  next
    case False
    with that have j: "j < length ?ds" by simp
    have "c \<in> set (rd_children (?new ! j)) \<longleftrightarrow> 0 < c \<and> c < length ?new \<and> rd_parent (?new ! c) = j" for c
      using romfs_wf_lists(3) [OF wf j, of c] old(3) [of c] last(3) pos
      by (auto simp: kids [OF j] less_Suc_eq)
    then show ?thesis
      using romfs_wf_lists [OF wf j] by (auto simp: kids [OF j] old(4) [OF j])
  qed
  have dirs: "rd_parent (?new ! c) < length ?new \<and> name_ok (rd_name (?new ! c))
      \<and> rd_path (?new ! c) = rd_path (?new ! rd_parent (?new ! c)) @ 0x2F # rd_name (?new ! c)"
    if "c < length ?new" "0 < c" for c
  proof (cases "c = length ?ds")
    case True
    then show ?thesis using last n old(1) [OF i] i by simp
  next
    case False
    with that have c: "c < length ?ds" by simp
    note d = romfs_wf_dir [OF wf c that(2)]
    show ?thesis unfolding old [OF c] old [OF d(1)] using d(1,2) d(3) by simp
  qed
  have files: "rf_parent (?fs ! k) < length ?new \<and> name_ok (rf_name (?fs ! k))
      \<and> rf_path (?fs ! k) = rd_path (?new ! rf_parent (?fs ! k)) @ 0x2F # rf_name (?fs ! k)"
    if "k < length ?fs" for k
    using romfs_wf_file [OF wf that] old(1) [OF romfs_wf_file(1) [OF wf that]] by simp
  have "distinct (map rd_path ?new)"
    unfolding link_dir_paths [OF i]
    using romfs_wf_paths(1) [OF wf] romfs_child_path [OF wf i] n fresh by (simp add: name_ok_def)
  with root lists dirs files romfs_wf_paths(2) [OF wf] show ?thesis
    unfolding romfs_wf_def by simp
qed

text \<open>A new file at the end of its vector, linked from directory \<open>i\<close>.\<close>

definition link_file :: "romfs_builder \<Rightarrow> nat \<Rightarrow> bytes \<Rightarrow> bytes \<Rightarrow> romfs_builder" where
  "link_file b i n data =
     b\<lparr>rb_files := rb_files b @ [new_file (rd_path (rb_dirs b ! i) @ 0x2F # n) n data i],
       rb_dirs := (rb_dirs b)[i := (rb_dirs b ! i)\<lparr>rd_files := rd_files (rb_dirs b ! i) @ [length (rb_files b)]\<rparr>]\<rparr>"

lemma link_file_wf:
  assumes wf: "romfs_wf b" and i: "i < length (rb_dirs b)" and n: "name_ok n"
    and fresh: "\<not> (\<exists>k\<in>set (rd_files (rb_dirs b ! i)). rf_name (rb_files b ! k) = n)"
  shows "romfs_wf (link_file b i n data)"
proof -
  let ?b = "link_file b i n data" and ?ds = "rb_dirs b" and ?fs = "rb_files b"
  have len: "length (rb_dirs ?b) = length ?ds" "length (rb_files ?b) = Suc (length ?fs)"
    by (simp_all add: link_file_def)
  have at_: "rb_dirs ?b ! c =
      (if c = i then (?ds ! i)\<lparr>rd_files := rd_files (?ds ! i) @ [length ?fs]\<rparr> else ?ds ! c)" if "c < length ?ds" for c
    using that by (simp add: link_file_def nth_list_update)
  have ds: "rd_path (rb_dirs ?b ! c) = rd_path (?ds ! c)" "rd_name (rb_dirs ?b ! c) = rd_name (?ds ! c)"
    "rd_parent (rb_dirs ?b ! c) = rd_parent (?ds ! c)" "rd_children (rb_dirs ?b ! c) = rd_children (?ds ! c)"
    "rd_files (rb_dirs ?b ! c) = (if c = i then rd_files (?ds ! i) @ [length ?fs] else rd_files (?ds ! c))"
    if "c < length ?ds" for c
    using at_ [OF that] by simp_all
  have fs: "rb_files ?b ! k = (if k = length ?fs then new_file (rd_path (?ds ! i) @ 0x2F # n) n data i else ?fs ! k)"
    if "k < Suc (length ?fs)" for k
    using that by (auto simp: link_file_def nth_append)
  have pos: "0 < length ?ds" by (rule romfs_wf_root [OF wf])
  have root: "rb_dirs ?b \<noteq> []" "rd_path (rb_dirs ?b ! 0) = []" "rd_name (rb_dirs ?b ! 0) = []"
    "rd_parent (rb_dirs ?b ! 0) = 0"
    using ds [OF pos] romfs_wf_root [OF wf] len(1) by auto
  have kids: "c \<in> set (rd_children (rb_dirs ?b ! j)) \<longleftrightarrow>
      0 < c \<and> c < length (rb_dirs ?b) \<and> rd_parent (rb_dirs ?b ! c) = j" if "j < length ?ds" for c j
    using romfs_wf_lists(3) [OF wf that, of c] ds(3) [of c] len(1) by (auto simp: ds(4) [OF that])
  have entries: "k \<in> set (rd_files (rb_dirs ?b ! j)) \<longleftrightarrow>
      k < length (rb_files ?b) \<and> rf_parent (rb_files ?b ! k) = j" if "j < length ?ds" for k j
    using romfs_wf_lists(4) [OF wf that, of k] fs [of k] len(2)
    by (auto simp: ds(5) [OF that] less_Suc_eq new_file_def)
  have dist: "distinct (rd_files (rb_dirs ?b ! j))" if "j < length ?ds" for j
    using romfs_wf_lists [OF wf that] by (auto simp: ds(5) [OF that])
  have dirs: "rd_parent (rb_dirs ?b ! c) < length (rb_dirs ?b) \<and> name_ok (rd_name (rb_dirs ?b ! c))
      \<and> rd_path (rb_dirs ?b ! c) = rd_path (rb_dirs ?b ! rd_parent (rb_dirs ?b ! c)) @ 0x2F # rd_name (rb_dirs ?b ! c)"
    if "c < length ?ds" "0 < c" for c
    using romfs_wf_dir [OF wf that] ds [OF that(1)] ds(1) [OF romfs_wf_dir(1) [OF wf that]] len(1) by simp
  have files: "rf_parent (rb_files ?b ! k) < length (rb_dirs ?b) \<and> name_ok (rf_name (rb_files ?b ! k))
      \<and> rf_path (rb_files ?b ! k) = rd_path (rb_dirs ?b ! rf_parent (rb_files ?b ! k)) @ 0x2F # rf_name (rb_files ?b ! k)"
    if "k < length (rb_files ?b)" for k
  proof (cases "k = length ?fs")
    case True
    then show ?thesis using fs [of k] ds(1) [OF i] n i len(1) by (simp add: new_file_def)
  next
    case False
    then have k: "k < length ?fs" using that len(2) by simp
    show ?thesis
      using romfs_wf_file [OF wf k] fs [of k] k ds(1) [OF romfs_wf_file(1) [OF wf k]] len(1) by simp
  qed
  have "map rd_path (rb_dirs ?b) = map rd_path ?ds"
    by (intro nth_equalityI) (simp_all add: len ds)
  moreover have "distinct (map rf_path (rb_files ?b))"
    using romfs_wf_paths(2) [OF wf] romfs_file_path [OF wf i] n fresh
    by (simp add: link_file_def name_ok_def new_file_def)
  ultimately show ?thesis
    using root kids entries dist dirs files romfs_wf_lists(1) [OF wf] romfs_wf_paths(1) [OF wf]
    unfolding romfs_wf_def by (simp add: len(1) ds(4))
qed

text \<open>Entering one directory, and all the directories of a path.\<close>

lemma enter_dir_spec:
  assumes wf: "romfs_wf b" and i: "i < length (rb_dirs b)" and n: "name_ok n"
    and step: "romfs_enter_dir (rb_dirs b, i) n = (ds, j)"
  shows "romfs_wf (b\<lparr>rb_dirs := ds\<rparr>)" "j < length ds" "rd_path (ds ! j) = rd_path (rb_dirs b ! i) @ 0x2F # n"
    "set (map rd_path ds) = insert (rd_path (rb_dirs b ! i) @ 0x2F # n) (set (map rd_path (rb_dirs b)))"
proof -
  let ?P = "\<lambda>idx. rd_name (rb_dirs b ! idx) = n"
  have goal: "romfs_wf (b\<lparr>rb_dirs := ds\<rparr>) \<and> j < length ds \<and> rd_path (ds ! j) = rd_path (rb_dirs b ! i) @ 0x2F # n
    \<and> set (map rd_path ds) = insert (rd_path (rb_dirs b ! i) @ 0x2F # n) (set (map rd_path (rb_dirs b)))"
  proof (cases "find ?P (rd_children (rb_dirs b ! i))")
    case None
    then have fresh: "\<not> (\<exists>c\<in>set (rd_children (rb_dirs b ! i)). ?P c)"
      by (auto simp: find_None_iff)
    have "ds = link_dir (rb_dirs b) i n" "j = length (rb_dirs b)"
      using step None i by (auto simp: romfs_enter_dir_def link_dir_def Let_def nth_append)
    then show ?thesis
      using link_dir_wf [OF wf i n fresh] link_dir_paths [OF i, of n] nth_link_dir [OF i, of j n]
        arg_cong [OF link_dir_paths [OF i, of n], of set]
      by (simp add: new_dir_def)
  next
    case (Some c)
    then have c: "c \<in> set (rd_children (rb_dirs b ! i))" "?P c"
      by (auto simp: find_Some_iff)
    then have "0 < c" "c < length (rb_dirs b)" "rd_parent (rb_dirs b ! c) = i"
      using romfs_wf_lists(3) [OF wf i] by blast+
    moreover have "ds = rb_dirs b" "j = c" using step Some by (simp_all add: romfs_enter_dir_def)
    moreover have "rd_path (rb_dirs b ! i) @ 0x2F # n \<in> set (map rd_path (rb_dirs b))"
      using romfs_child_path [OF wf i] n c by (auto simp: name_ok_def)
    ultimately show ?thesis using romfs_wf_dir(3) [OF wf, of c] c(2) wf by auto
  qed
  then show "romfs_wf (b\<lparr>rb_dirs := ds\<rparr>)" "j < length ds" "rd_path (ds ! j) = rd_path (rb_dirs b ! i) @ 0x2F # n"
    "set (map rd_path ds) = insert (rd_path (rb_dirs b ! i) @ 0x2F # n) (set (map rd_path (rb_dirs b)))"
    by simp_all
qed

lemma enter_dirs_spec:
  assumes "romfs_wf b" "i < length (rb_dirs b)" "\<forall>c\<in>set cs. name_ok c"
    and "foldl romfs_enter_dir (rb_dirs b, i) cs = (ds, j)"
  shows "romfs_wf (b\<lparr>rb_dirs := ds\<rparr>) \<and> j < length ds \<and> rd_path (ds ! j) = rd_path (rb_dirs b ! i) @ path_of cs
    \<and> set (map rd_path ds) =
        set (map rd_path (rb_dirs b)) \<union> {rd_path (rb_dirs b ! i) @ path_of (take k cs) | k. k \<le> length cs}"
  using assms
proof (induction cs arbitrary: b i)
  case Nil
  then show ?case by auto
next
  case (Cons c cs)
  obtain ds1 j1 where e: "romfs_enter_dir (rb_dirs b, i) c = (ds1, j1)" by (cases "romfs_enter_dir (rb_dirs b, i) c")
  have "name_ok c" using Cons.prems by simp
  note s = enter_dir_spec [OF Cons.prems(1,2) this e]
  have ih: "romfs_wf (b\<lparr>rb_dirs := ds\<rparr>) \<and> j < length ds \<and> rd_path (ds ! j) = rd_path (ds1 ! j1) @ path_of cs
    \<and> set (map rd_path ds) = set (map rd_path ds1) \<union> {rd_path (ds1 ! j1) @ path_of (take k cs) | k. k \<le> length cs}"
    using Cons.IH [of "b\<lparr>rb_dirs := ds1\<rparr>" j1] s(1,2) Cons.prems(3,4) e by simp
  let ?p = "rd_path (rb_dirs b ! i)"
  have "{?p @ path_of (take k (c # cs)) | k. k \<le> length (c # cs)}
      = insert ?p {?p @ 0x2F # c @ path_of (take k cs) | k. k \<le> length cs}" (is "?A = ?B")
  proof
    show "?A \<subseteq> ?B"
    proof
      fix x assume "x \<in> ?A"
      then obtain k where "k \<le> length (c # cs)" "x = ?p @ path_of (take k (c # cs))" by blast
      then show "x \<in> ?B" by (cases k) auto
    qed
    show "?B \<subseteq> ?A"
      by (auto intro: exI [of _ 0] exI [of _ "Suc k" for k])
  qed
  moreover have "?p \<in> set (map rd_path (rb_dirs b))" using Cons.prems(2) by simp
  moreover have "?p @ 0x2F # c \<in> {?p @ 0x2F # c @ path_of (take k cs) | k. k \<le> length cs}"
    by (auto intro: exI [of _ 0])
  ultimately show ?case using ih s(3,4) by auto
qed

text \<open>The files of a builder as data, and the paths its directories stand for.\<close>

definition romfs_contents :: "romfs_builder \<Rightarrow> (bytes \<times> bytes) list" where
  "romfs_contents b = map (\<lambda>f. (rf_path f, rf_data f)) (rb_files b)"

lemma romfs_contents_paths [simp]: "map fst (romfs_contents b) = map rf_path (rb_files b)"
  by (simp add: romfs_contents_def)

text \<open>No directory but the root is there without a file below it.\<close>

definition romfs_tight :: "romfs_builder \<Rightarrow> bool" where
  "romfs_tight b \<longleftrightarrow>
     set (map rd_path (rb_dirs b)) = insert [] {p. \<exists>q\<in>set (map rf_path (rb_files b)). \<exists>rest. q = p @ 0x2F # rest}"

lemma romfs_tight_new: "romfs_tight romfs_new"
  by (simp add: romfs_tight_def romfs_new_def new_dir_def)

text \<open>The path a string stands for: its non-empty components.\<close>

definition path_components :: "bytes \<Rightarrow> bytes list" where
  "path_components path = filter (\<lambda>s. s \<noteq> []) (split_slash (tl path))"

lemma path_components_ok: "\<forall>c\<in>set (path_components path). name_ok c"
  by (auto simp: path_components_def name_ok_def dest: split_slash_no_slash)

lemma romfs_add_file_ok:
  assumes wf: "romfs_wf b" and path: "path \<noteq> []" "hd path = 0x2F" "path_components path \<noteq> []"
    and fresh: "path_of (path_components path) \<notin> set (map rf_path (rb_files b))"
  shows "\<exists>b'. romfs_add_file b path data = Ok b' \<and> romfs_wf b'
    \<and> romfs_contents b' = romfs_contents b @ [(path_of (path_components path), data)]
    \<and> set (map rd_path (rb_dirs b')) = set (map rd_path (rb_dirs b))
        \<union> {path_of (take k (path_components path)) | k. k < length (path_components path)}"
proof -
  let ?cs = "path_components path"
  let ?n = "last ?cs"
  obtain ds j where e: "foldl romfs_enter_dir (rb_dirs b, 0) (butlast ?cs) = (ds, j)"
    by (cases "foldl romfs_enter_dir (rb_dirs b, 0) (butlast ?cs)")
  have ok: "\<forall>c\<in>set (butlast ?cs). name_ok c" using path_components_ok [of path] by (auto dest: in_set_butlastD)
  note s = enter_dirs_spec [OF wf romfs_wf_root(2) [OF wf] ok e, unfolded romfs_wf_root(3) [OF wf] append_Nil]
  let ?b = "b\<lparr>rb_dirs := ds\<rparr>"
  have n: "name_ok ?n" using path_components_ok [of path] path(3) by simp
  have full: "path_of (butlast ?cs) @ 0x2F # ?n = path_of ?cs"
    using path(3) by (metis append_butlast_last_id append_Nil2 path_of_simps)
  have no: "\<not> (\<exists>k\<in>set (rd_files (ds ! j)). rf_name (rb_files b ! k) = ?n)"
    using romfs_file_path [of ?b j ?n] s n fresh full by (simp add: name_ok_def)
  have result: "romfs_add_file b path data = Ok (link_file ?b j ?n data)"
    using path e no unfolding romfs_add_file_def path_components_def [symmetric]
    by (auto simp: Let_def link_file_def)
  have wf': "romfs_wf (link_file ?b j ?n data)"
    by (rule link_file_wf) (use s n no in simp_all)
  have contents: "romfs_contents (link_file ?b j ?n data) = romfs_contents b @ [(path_of ?cs, data)]"
    using s full by (simp add: romfs_contents_def link_file_def new_file_def)
  have paths: "map rd_path (rb_dirs (link_file ?b j ?n data)) = map rd_path ds"
    using s by (intro nth_equalityI) (simp_all add: link_file_def nth_list_update)
  have le: "k \<le> length (butlast ?cs) \<longleftrightarrow> k < length ?cs" for k
    using path(3) by (cases ?cs) auto
  have "x = path_of (take k (butlast ?cs)) \<and> k \<le> length (butlast ?cs)
      \<longleftrightarrow> x = path_of (take k ?cs) \<and> k < length ?cs" for x k
    unfolding le using take_butlast [of k ?cs] by (cases "k < length ?cs") simp_all
  then have "{path_of (take k (butlast ?cs)) | k. k \<le> length (butlast ?cs)}
      = {path_of (take k ?cs) | k. k < length ?cs}"
    by (intro Collect_cong ex_cong1) (simp only:)
  with s have "set (map rd_path (rb_dirs (link_file ?b j ?n data))) = set (map rd_path (rb_dirs b))
      \<union> {path_of (take k ?cs) | k. k < length ?cs}"
    unfolding paths by (simp only:)
  with result wf' contents show ?thesis by blast
qed

text \<open>The errors, and that the two kinds of outcome are all there are.\<close>

lemma romfs_add_file_errors:
  assumes wf: "romfs_wf b"
  shows "path = [] \<or> hd path \<noteq> 0x2F \<or> path_components path = [] \<Longrightarrow>
      romfs_add_file b path data = Err (Romfs_InvalidPath path)"
    and "path \<noteq> [] \<Longrightarrow> hd path = 0x2F \<Longrightarrow> path_components path \<noteq> [] \<Longrightarrow>
      path_of (path_components path) \<in> set (map rf_path (rb_files b)) \<Longrightarrow>
      romfs_add_file b path data = Err (Romfs_DuplicateEntry path)"
proof -
  show "path = [] \<or> hd path \<noteq> 0x2F \<or> path_components path = [] \<Longrightarrow>
      romfs_add_file b path data = Err (Romfs_InvalidPath path)"
    by (auto simp: romfs_add_file_def path_components_def Let_def)
  let ?cs = "path_components path"
  assume path: "path \<noteq> []" "hd path = 0x2F" "?cs \<noteq> []"
    and dup: "path_of ?cs \<in> set (map rf_path (rb_files b))"
  obtain ds j where e: "foldl romfs_enter_dir (rb_dirs b, 0) (butlast ?cs) = (ds, j)"
    by (cases "foldl romfs_enter_dir (rb_dirs b, 0) (butlast ?cs)")
  have ok: "\<forall>c\<in>set (butlast ?cs). name_ok c" using path_components_ok [of path] by (auto dest: in_set_butlastD)
  note s = enter_dirs_spec [OF wf romfs_wf_root(2) [OF wf] ok e, unfolded romfs_wf_root(3) [OF wf] append_Nil]
  have n: "name_ok (last ?cs)" using path_components_ok [of path] path(3) by simp
  have full: "path_of (butlast ?cs) @ 0x2F # last ?cs = path_of ?cs"
    using path(3) by (metis append_butlast_last_id append_Nil2 path_of_simps)
  have "\<exists>k\<in>set (rd_files (ds ! j)). rf_name (rb_files b ! k) = last ?cs"
    using romfs_file_path [of "b\<lparr>rb_dirs := ds\<rparr>" j "last ?cs"] s n dup full by (simp add: name_ok_def)
  then show "romfs_add_file b path data = Err (Romfs_DuplicateEntry path)"
    using path e unfolding romfs_add_file_def path_components_def [symmetric] by (auto simp: Let_def)
qed

lemma romfs_add_file_tight:
  assumes wf: "romfs_wf b" and tight: "romfs_tight b" and add: "romfs_add_file b path data = Ok b'"
  shows "romfs_tight b'"
proof -
  let ?cs = "path_components path"
  have path: "path \<noteq> []" "hd path = 0x2F" "?cs \<noteq> []" "path_of ?cs \<notin> set (map rf_path (rb_files b))"
    using add romfs_add_file_errors [OF wf, of path data] by (auto simp del: set_map)
  from romfs_add_file_ok [OF wf path, of data] add have
    c: "romfs_contents b' = romfs_contents b @ [(path_of ?cs, data)]"
    and d: "set (map rd_path (rb_dirs b')) = set (map rd_path (rb_dirs b)) \<union> {path_of (take k ?cs) | k. k < length ?cs}"
    by (simp_all del: set_map)
  have f: "map rf_path (rb_files b') = map rf_path (rb_files b) @ [path_of ?cs]"
    using arg_cong [OF c, of "map fst"] by simp
  have slash: "\<forall>c\<in>set ?cs. 0x2F \<notin> set c" using path_components_ok by (auto simp: name_ok_def)
  have new: "{path_of (take k ?cs) | k. k < length ?cs} = {p. \<exists>rest. path_of ?cs = p @ 0x2F # rest}"
    using path_of_prefix [OF slash] by blast
  show ?thesis
    using tight unfolding romfs_tight_def d f new by auto
qed

end
