(* ===== verification/Romfs_Order.thy ===== *)
theory Romfs_Order
  imports Romfs_Tree
begin

text \<open>
  What \<^verbatim>\<open>build\<close> does before it lays anything out: the two vectors are put in path order and
  every index in them is renamed, then the children and files of each directory are put in name
  order.  The tree stays the same; afterwards it is in a canonical form.
\<close>

section \<open>Sorting by keys\<close>

lemma sort_key_indices: "sort_key f xs = map ((!) xs) (sort_key (\<lambda>i. f (xs ! i)) [0..<length xs])"
  using sort_key_map [of f "(!) xs" "[0..<length xs]"] by (simp add: map_nth)

lemma sort_key_pairs: "map fst (sort_key snd (map (\<lambda>i. (i, g i)) xs)) = sort_key g xs"
  by (simp add: sort_key_map comp_def)

section \<open>The renaming\<close>

lemma foldl_update_other:
  "j \<notin> set xs \<Longrightarrow> foldl (\<lambda>v (new, old). v[old := new]) v (enumerate s xs) ! j = v ! j"
  by (induction xs arbitrary: s v) auto

lemma length_foldl_update [simp]:
  "length (foldl (\<lambda>v (new, old). v[old := new]) v (enumerate s xs)) = length v"
  by (induction xs arbitrary: s v) auto

lemma foldl_update_index:
  "distinct xs \<Longrightarrow> set xs \<subseteq> {..<length v} \<Longrightarrow> k < length xs \<Longrightarrow>
     foldl (\<lambda>v (new, old). v[old := new]) v (enumerate s xs) ! (xs ! k) = s + k"
proof (induction xs arbitrary: s v k)
  case (Cons x xs)
  show ?case
  proof (cases k)
    case 0
    then show ?thesis using Cons.prems by (simp add: foldl_update_other)
  next
    case (Suc k')
    then show ?thesis using Cons.prems Cons.IH [of "v[x := s]" k' "Suc s"] by auto
  qed
qed simp

text \<open>An ordering of the indices below \<open>n\<close> and the renaming that goes with it are inverse.\<close>

locale renaming =
  fixes order :: "nat list" and n :: nat
  assumes order: "distinct order" "set order = {..<n}"
begin

lemma order_length: "length order = n"
  using distinct_card [OF order(1)] order(2) by simp

lemma new_length [simp]: "length (new_index_of order) = n"
  by (simp add: new_index_of_def order_length)

lemma new_order: "k < n \<Longrightarrow> new_index_of order ! (order ! k) = k"
  using foldl_update_index [of order "replicate n 0" k 0] order by (simp add: new_index_of_def order_length)

lemma order_lt: "k < n \<Longrightarrow> order ! k < n"
  using order(2) order_length nth_mem by fastforce

lemma order_new: "i < n \<Longrightarrow> order ! (new_index_of order ! i) = i"
  and new_lt: "i < n \<Longrightarrow> new_index_of order ! i < n"
proof -
  have "order ! (new_index_of order ! i) = i \<and> new_index_of order ! i < n" if "i < n"
  proof -
    have "i \<in> set order" using that order(2) by simp
    then obtain k where "k < n" "order ! k = i" unfolding in_set_conv_nth order_length by blast
    then show ?thesis using new_order [of k] by auto
  qed
  then show "i < n \<Longrightarrow> order ! (new_index_of order ! i) = i" "i < n \<Longrightarrow> new_index_of order ! i < n"
    by blast+
qed

lemma new_eq_iff: "i < n \<Longrightarrow> k < n \<Longrightarrow> new_index_of order ! i = k \<longleftrightarrow> i = order ! k"
  using new_order order_new by auto

lemma mem_renamed:
  assumes "set xs \<subseteq> {..<n}"
  shows "c \<in> set (map ((!) (new_index_of order)) xs) \<longleftrightarrow> c < n \<and> order ! c \<in> set xs"
proof
  show "c \<in> set (map ((!) (new_index_of order)) xs) \<Longrightarrow> c < n \<and> order ! c \<in> set xs"
    using assms new_lt order_new by auto
  show "c < n \<and> order ! c \<in> set xs \<Longrightarrow> c \<in> set (map ((!) (new_index_of order)) xs)"
    using image_eqI [of c "(!) (new_index_of order)" "order ! c" "set xs"] new_order [of c] by simp
qed

lemma distinct_renamed:
  assumes "distinct xs" "set xs \<subseteq> {..<n}"
  shows "distinct (map ((!) (new_index_of order)) xs)"
proof -
  have "inj_on ((!) (new_index_of order)) (set xs)"
    by (rule inj_on_inverseI [where g = "(!) order"]) (use assms(2) order_new in auto)
  with assms(1) show ?thesis by (simp add: distinct_map)
qed

end

text \<open>The two orderings the builder uses.\<close>

definition dir_order :: "romfs_builder \<Rightarrow> nat list" where
  "dir_order b = sort_key (\<lambda>i. rd_path (rb_dirs b ! i)) [0..<length (rb_dirs b)]"

definition file_order :: "romfs_builder \<Rightarrow> nat list" where
  "file_order b = sort_key (\<lambda>i. rf_path (rb_files b ! i)) [0..<length (rb_files b)]"

interpretation dir_order: renaming "dir_order b" "length (rb_dirs b)" for b
  by unfold_locales (auto simp: dir_order_def)

interpretation file_order: renaming "file_order b" "length (rb_files b)" for b
  by unfold_locales (auto simp: file_order_def)

section \<open>Path order\<close>

definition renamed_dir :: "romfs_builder \<Rightarrow> rw_dir \<Rightarrow> rw_dir" where
  "renamed_dir b d =
     d\<lparr>rd_parent := new_index_of (dir_order b) ! rd_parent d,
       rd_children := map ((!) (new_index_of (dir_order b))) (rd_children d),
       rd_files := map ((!) (new_index_of (file_order b))) (rd_files d)\<rparr>"

definition renamed_file :: "romfs_builder \<Rightarrow> rw_file \<Rightarrow> rw_file" where
  "renamed_file b f = f\<lparr>rf_parent := new_index_of (dir_order b) ! rf_parent f\<rparr>"

lemma sort_entries_by_path_eq:
  "sort_entries_by_path b =
     b\<lparr>rb_dirs := map (\<lambda>i. renamed_dir b (rb_dirs b ! i)) (dir_order b),
       rb_files := map (\<lambda>i. renamed_file b (rb_files b ! i)) (file_order b)\<rparr>"
  unfolding sort_entries_by_path_def Let_def dir_order_def [symmetric] file_order_def [symmetric]
    sort_key_indices [of rd_path] sort_key_indices [of rf_path]
  by (simp add: dir_order_def [symmetric] file_order_def [symmetric] comp_def
      flip: renamed_dir_def renamed_file_def)

lemma sorted_dirs:
  "length (rb_dirs (sort_entries_by_path b)) = length (rb_dirs b)"
  "length (rb_files (sort_entries_by_path b)) = length (rb_files b)"
  "k < length (rb_dirs b) \<Longrightarrow> rb_dirs (sort_entries_by_path b) ! k = renamed_dir b (rb_dirs b ! (dir_order b ! k))"
  "k < length (rb_files b) \<Longrightarrow> rb_files (sort_entries_by_path b) ! k = renamed_file b (rb_files b ! (file_order b ! k))"
  by (simp_all add: sort_entries_by_path_eq dir_order.order_length file_order.order_length)

lemma sorted_dir_paths:
  "map rd_path (rb_dirs (sort_entries_by_path b)) = sort (map rd_path (rb_dirs b))"
  "map rf_path (rb_files (sort_entries_by_path b)) = sort (map rf_path (rb_files b))"
  "romfs_contents (sort_entries_by_path b) = sort_key fst (romfs_contents b)"
  by (simp_all add: sort_entries_by_path_eq renamed_dir_def renamed_file_def romfs_contents_def comp_def
      sort_key_map dir_order_def file_order_def sort_key_indices [of rd_path "rb_dirs b"]
      sort_key_indices [of rf_path "rb_files b"])

text \<open>The root's path is the smallest, so it stays at index 0.\<close>

lemma dir_order_root:
  assumes "romfs_wf b"
  shows "dir_order b ! 0 = 0" "new_index_of (dir_order b) ! 0 = 0"
proof -
  let ?n = "length (rb_dirs b)"
  have n: "0 < ?n" by (rule romfs_wf_root [OF assms])
  have "sorted (map (\<lambda>i. rd_path (rb_dirs b ! i)) (dir_order b))" by (simp add: dir_order_def)
  moreover have "new_index_of (dir_order b) ! 0 < ?n" by (rule dir_order.new_lt [OF n])
  ultimately have "rd_path (rb_dirs b ! (dir_order b ! 0)) \<le> rd_path (rb_dirs b ! (dir_order b ! (new_index_of (dir_order b) ! 0)))"
    using sorted_nth_mono [of "map (\<lambda>i. rd_path (rb_dirs b ! i)) (dir_order b)" 0 "new_index_of (dir_order b) ! 0"] n
    by (simp add: dir_order.order_length)
  then have "rd_path (rb_dirs b ! (dir_order b ! 0)) = rd_path (rb_dirs b ! 0)"
    by (simp add: dir_order.order_new n romfs_wf_root [OF assms])
  then show "dir_order b ! 0 = 0"
    using romfs_wf_inj [OF assms _ n] dir_order.order_lt [OF n] by simp
  then show "new_index_of (dir_order b) ! 0 = 0"
    using dir_order.new_order [OF n] by simp
qed

lemma sort_entries_wf:
  assumes wf: "romfs_wf b"
  shows "romfs_wf (sort_entries_by_path b)"
proof -
  let ?b = "sort_entries_by_path b" and ?n = "length (rb_dirs b)" and ?m = "length (rb_files b)"
  let ?p = "dir_order b" and ?q = "file_order b"
  let ?s = "new_index_of (dir_order b)" and ?t = "new_index_of (file_order b)"
  note len = sorted_dirs(1,2) [of b]
  have n: "0 < ?n" by (rule romfs_wf_root [OF wf])
  have d: "rd_path (rb_dirs ?b ! k) = rd_path (rb_dirs b ! (?p ! k))" "rd_name (rb_dirs ?b ! k) = rd_name (rb_dirs b ! (?p ! k))"
    "rd_parent (rb_dirs ?b ! k) = ?s ! rd_parent (rb_dirs b ! (?p ! k))"
    "rd_children (rb_dirs ?b ! k) = map ((!) ?s) (rd_children (rb_dirs b ! (?p ! k)))"
    "rd_files (rb_dirs ?b ! k) = map ((!) ?t) (rd_files (rb_dirs b ! (?p ! k)))" if "k < ?n" for k
    using sorted_dirs(3) [OF that] by (simp_all add: renamed_dir_def)
  have f: "rf_path (rb_files ?b ! k) = rf_path (rb_files b ! (?q ! k))" "rf_name (rb_files ?b ! k) = rf_name (rb_files b ! (?q ! k))"
    "rf_parent (rb_files ?b ! k) = ?s ! rf_parent (rb_files b ! (?q ! k))" if "k < ?m" for k
    using sorted_dirs(4) [OF that] by (simp_all add: renamed_file_def)
  have root: "rb_dirs ?b \<noteq> []" "rd_path (rb_dirs ?b ! 0) = []" "rd_name (rb_dirs ?b ! 0) = []" "rd_parent (rb_dirs ?b ! 0) = 0"
    using d [OF n] dir_order_root [OF wf] romfs_wf_root [OF wf] len(1) by auto
  have zero: "?p ! c = 0 \<longleftrightarrow> c = 0" if "c < ?n" for c
    using dir_order.new_order [OF that] dir_order_root [OF wf] by auto
  have lists: "distinct (rd_children (rb_dirs ?b ! i)) \<and> distinct (rd_files (rb_dirs ?b ! i))
      \<and> (\<forall>c. c \<in> set (rd_children (rb_dirs ?b ! i)) \<longleftrightarrow> 0 < c \<and> c < ?n \<and> rd_parent (rb_dirs ?b ! c) = i)
      \<and> (\<forall>k. k \<in> set (rd_files (rb_dirs ?b ! i)) \<longleftrightarrow> k < ?m \<and> rf_parent (rb_files ?b ! k) = i)"
    if i: "i < ?n" for i
  proof -
    have j: "?p ! i < ?n" by (rule dir_order.order_lt [OF i])
    note l = romfs_wf_lists [OF wf j]
    have sub: "set (rd_children (rb_dirs b ! (?p ! i))) \<subseteq> {..<?n}" "set (rd_files (rb_dirs b ! (?p ! i))) \<subseteq> {..<?m}"
      using l(3,4) by auto
    have "c \<in> set (rd_children (rb_dirs ?b ! i)) \<longleftrightarrow> 0 < c \<and> c < ?n \<and> rd_parent (rb_dirs ?b ! c) = i" for c
    proof (cases "c < ?n")
      case True
      have "?s ! rd_parent (rb_dirs b ! (?p ! c)) = i \<longleftrightarrow> rd_parent (rb_dirs b ! (?p ! c)) = ?p ! i"
        by (rule dir_order.new_eq_iff [OF romfs_wf_parent [OF wf dir_order.order_lt [OF True]] i])
      then show ?thesis
        unfolding d(4) [OF i] dir_order.mem_renamed [OF sub(1)] l(3) d(3) [OF True]
        using True dir_order.order_lt [OF True] zero [OF True] by auto
    qed (simp add: d(4) [OF i] dir_order.mem_renamed [OF sub(1)] del: set_map)
    moreover have "k \<in> set (rd_files (rb_dirs ?b ! i)) \<longleftrightarrow> k < ?m \<and> rf_parent (rb_files ?b ! k) = i" for k
    proof (cases "k < ?m")
      case True
      have "?s ! rf_parent (rb_files b ! (?q ! k)) = i \<longleftrightarrow> rf_parent (rb_files b ! (?q ! k)) = ?p ! i"
        by (rule dir_order.new_eq_iff [OF romfs_wf_file(1) [OF wf file_order.order_lt [OF True]] i])
      then show ?thesis
        unfolding d(5) [OF i] file_order.mem_renamed [OF sub(2)] l(4) f(3) [OF True]
        using True file_order.order_lt [OF True] by auto
    qed (simp add: d(5) [OF i] file_order.mem_renamed [OF sub(2)] del: set_map)
    ultimately show ?thesis
      unfolding d(4,5) [OF i]
      using dir_order.distinct_renamed [OF l(1) sub(1)] file_order.distinct_renamed [OF l(2) sub(2)] by blast
  qed
  have dirs: "rd_parent (rb_dirs ?b ! c) < ?n \<and> name_ok (rd_name (rb_dirs ?b ! c))
      \<and> rd_path (rb_dirs ?b ! c) = rd_path (rb_dirs ?b ! rd_parent (rb_dirs ?b ! c)) @ 0x2F # rd_name (rb_dirs ?b ! c)"
    if c: "c < ?n" "0 < c" for c
  proof -
    have "0 < ?p ! c" using zero [OF c(1)] c(2) by simp
    note w = romfs_wf_dir [OF wf dir_order.order_lt [OF c(1)] this]
    show ?thesis
      using w d(1) [OF dir_order.new_lt [OF w(1)]] by (simp add: d [OF c(1)] dir_order.new_lt dir_order.order_new)
  qed
  have files: "rf_parent (rb_files ?b ! k) < ?n \<and> name_ok (rf_name (rb_files ?b ! k))
      \<and> rf_path (rb_files ?b ! k) = rd_path (rb_dirs ?b ! rf_parent (rb_files ?b ! k)) @ 0x2F # rf_name (rb_files ?b ! k)"
    if k: "k < ?m" for k
  proof -
    note w = romfs_wf_file [OF wf file_order.order_lt [OF k]]
    show ?thesis
      using w d(1) [OF dir_order.new_lt [OF w(1)]] by (simp add: f [OF k] dir_order.new_lt dir_order.order_new)
  qed
  show ?thesis
    using root lists dirs files romfs_wf_paths [OF wf]
    unfolding romfs_wf_def sorted_dir_paths by (simp add: len)
qed

section \<open>Name order\<close>

lemma sort_children_eq:
  "sort_children b =
     b\<lparr>rb_dirs := map (\<lambda>d. d\<lparr>rd_children := sort_key (\<lambda>i. rd_name (rb_dirs b ! i)) (rd_children d),
                                rd_files := sort_key (\<lambda>i. rf_name (rb_files b ! i)) (rd_files d)\<rparr>) (rb_dirs b)\<rparr>"
  by (simp add: sort_children_def sort_key_pairs)

lemma sort_children_nth:
  assumes "i < length (rb_dirs b)"
  shows "rd_path (rb_dirs (sort_children b) ! i) = rd_path (rb_dirs b ! i)"
    "rd_name (rb_dirs (sort_children b) ! i) = rd_name (rb_dirs b ! i)"
    "rd_parent (rb_dirs (sort_children b) ! i) = rd_parent (rb_dirs b ! i)"
    "rd_children (rb_dirs (sort_children b) ! i) = sort_key (\<lambda>i. rd_name (rb_dirs b ! i)) (rd_children (rb_dirs b ! i))"
    "rd_files (rb_dirs (sort_children b) ! i) = sort_key (\<lambda>i. rf_name (rb_files b ! i)) (rd_files (rb_dirs b ! i))"
  using assms by (simp_all add: sort_children_eq)

lemma sort_children_same [simp]:
  "length (rb_dirs (sort_children b)) = length (rb_dirs b)" "rb_files (sort_children b) = rb_files b"
  "map rd_path (rb_dirs (sort_children b)) = map rd_path (rb_dirs b)"
  by (simp_all add: sort_children_eq)

lemma sort_children_contents [simp]: "romfs_contents (sort_children b) = romfs_contents b"
  by (simp add: romfs_contents_def)

lemma sort_children_wf:
  assumes wf: "romfs_wf b"
  shows "romfs_wf (sort_children b)"
proof -
  have n: "0 < length (rb_dirs b)" by (rule romfs_wf_root [OF wf])
  have "rb_dirs (sort_children b) \<noteq> []" using n by (simp flip: length_greater_0_conv)
  moreover have "rd_parent (rb_dirs b ! c) < length (rb_dirs b)" if "c < length (rb_dirs b)" for c
    by (rule romfs_wf_parent [OF wf that])
  ultimately show ?thesis
    using n romfs_wf_root [OF wf] romfs_wf_lists [OF wf] romfs_wf_dir [OF wf] romfs_wf_file [OF wf] romfs_wf_paths [OF wf]
    unfolding romfs_wf_def by (auto simp: sort_children_nth)
qed

section \<open>The canonical form\<close>

definition romfs_canonical :: "romfs_builder \<Rightarrow> bool" where
  "romfs_canonical b \<longleftrightarrow> romfs_wf b \<and> sorted (map rd_path (rb_dirs b)) \<and> sorted (map rf_path (rb_files b))
     \<and> (\<forall>i<length (rb_dirs b). sorted (map (\<lambda>c. rd_name (rb_dirs b ! c)) (rd_children (rb_dirs b ! i)))
          \<and> sorted (map (\<lambda>k. rf_name (rb_files b ! k)) (rd_files (rb_dirs b ! i))))"

definition romfs_arranged :: "romfs_builder \<Rightarrow> romfs_builder" where
  "romfs_arranged b = sort_children (sort_entries_by_path b)"

lemma romfs_arranged_canonical:
  assumes "romfs_wf b"
  shows "romfs_canonical (romfs_arranged b)"
proof -
  let ?b = "sort_entries_by_path b"
  have wf: "romfs_wf ?b" by (rule sort_entries_wf [OF assms])
  have "sorted (map (\<lambda>c. rd_name (rb_dirs (sort_children ?b) ! c)) (rd_children (rb_dirs (sort_children ?b) ! i)))"
    "sorted (map (\<lambda>k. rf_name (rb_files (sort_children ?b) ! k)) (rd_files (rb_dirs (sort_children ?b) ! i)))"
    if i: "i < length (rb_dirs ?b)" for i
  proof -
    have "c < length (rb_dirs ?b)" if "c \<in> set (rd_children (rb_dirs ?b ! i))" for c
      using romfs_wf_lists(3) [OF wf i, of c] that by simp
    then have "map (\<lambda>c. rd_name (rb_dirs (sort_children ?b) ! c)) (rd_children (rb_dirs (sort_children ?b) ! i))
        = map (\<lambda>c. rd_name (rb_dirs ?b ! c)) (rd_children (rb_dirs (sort_children ?b) ! i))"
      by (intro map_cong) (simp_all add: sort_children_nth i)
    then show "sorted (map (\<lambda>c. rd_name (rb_dirs (sort_children ?b) ! c)) (rd_children (rb_dirs (sort_children ?b) ! i)))"
      by (simp only: sort_children_nth(4) [OF i] sorted_sort_key)
    show "sorted (map (\<lambda>k. rf_name (rb_files (sort_children ?b) ! k)) (rd_files (rb_dirs (sort_children ?b) ! i)))"
      by (simp add: sort_children_nth i)
  qed
  then show ?thesis
    using sort_children_wf [OF wf] unfolding romfs_canonical_def romfs_arranged_def
    by (simp add: sorted_dir_paths)
qed

lemma romfs_arranged_contents:
  "romfs_contents (romfs_arranged b) = sort_key fst (romfs_contents b)"
  "map rd_path (rb_dirs (romfs_arranged b)) = sort (map rd_path (rb_dirs b))"
  "length (rb_dirs (romfs_arranged b)) = length (rb_dirs b)"
  "length (rb_files (romfs_arranged b)) = length (rb_files b)"
  by (simp_all add: romfs_arranged_def sorted_dir_paths sorted_dirs)

text \<open>A canonical builder is determined by its files and by the paths of its directories.\<close>

lemma canonical_links_unique:
  assumes c: "romfs_canonical b" "romfs_canonical b'"
    and p: "map rd_path (rb_dirs b) = map rd_path (rb_dirs b')" "map rf_path (rb_files b) = map rf_path (rb_files b')"
  shows "i < length (rb_dirs b) \<Longrightarrow> rd_name (rb_dirs b ! i) = rd_name (rb_dirs b' ! i)
      \<and> rd_parent (rb_dirs b ! i) = rd_parent (rb_dirs b' ! i)"
    and "k < length (rb_files b) \<Longrightarrow> rf_name (rb_files b ! k) = rf_name (rb_files b' ! k)
      \<and> rf_parent (rb_files b ! k) = rf_parent (rb_files b' ! k)"
proof -
  note wf = c [unfolded romfs_canonical_def, THEN conjunct1]
  have len: "length (rb_dirs b) = length (rb_dirs b')" "length (rb_files b) = length (rb_files b')"
    using p [THEN arg_cong [of _ _ length]] by simp_all
  have path: "rd_path (rb_dirs b ! i) = rd_path (rb_dirs b' ! i)" if "i < length (rb_dirs b)" for i
    using p(1) len(1) that by (metis nth_map)
  have fpath: "rf_path (rb_files b ! k) = rf_path (rb_files b' ! k)" if "k < length (rb_files b)" for k
    using p(2) len(2) that by (metis nth_map)
  show "rd_name (rb_dirs b ! i) = rd_name (rb_dirs b' ! i) \<and> rd_parent (rb_dirs b ! i) = rd_parent (rb_dirs b' ! i)"
    if i: "i < length (rb_dirs b)" for i
  proof (cases "i = 0")
    case True
    then show ?thesis using romfs_wf_root [OF wf(1)] romfs_wf_root [OF wf(2)] by simp
  next
    case False
    then have "0 < i" by simp
    note d = romfs_wf_dir [OF wf(1) i this] and d' = romfs_wf_dir [OF wf(2) i [unfolded len(1)] this]
    have "rd_path (rb_dirs b ! rd_parent (rb_dirs b ! i)) @ 0x2F # rd_name (rb_dirs b ! i)
        = rd_path (rb_dirs b' ! rd_parent (rb_dirs b' ! i)) @ 0x2F # rd_name (rb_dirs b' ! i)"
      using d(3) d'(3) path [OF i] by simp
    from last_slash_unique [OF this] d d' have
      "rd_name (rb_dirs b ! i) = rd_name (rb_dirs b' ! i)"
      "rd_path (rb_dirs b' ! rd_parent (rb_dirs b ! i)) = rd_path (rb_dirs b' ! rd_parent (rb_dirs b' ! i))"
      using path [OF d(1)] by (simp_all add: name_ok_def)
    then show ?thesis using romfs_wf_inj [OF wf(2) _ d'(1)] d(1) len(1) by simp
  qed
  show "rf_name (rb_files b ! k) = rf_name (rb_files b' ! k) \<and> rf_parent (rb_files b ! k) = rf_parent (rb_files b' ! k)"
    if k: "k < length (rb_files b)" for k
  proof -
    note d = romfs_wf_file [OF wf(1) k] and d' = romfs_wf_file [OF wf(2) k [unfolded len(2)]]
    have "rd_path (rb_dirs b ! rf_parent (rb_files b ! k)) @ 0x2F # rf_name (rb_files b ! k)
        = rd_path (rb_dirs b' ! rf_parent (rb_files b' ! k)) @ 0x2F # rf_name (rb_files b' ! k)"
      using d(3) d'(3) fpath [OF k] by simp
    from last_slash_unique [OF this] d d' have
      "rf_name (rb_files b ! k) = rf_name (rb_files b' ! k)"
      "rd_path (rb_dirs b' ! rf_parent (rb_files b ! k)) = rd_path (rb_dirs b' ! rf_parent (rb_files b' ! k))"
      using path [OF d(1)] by (simp_all add: name_ok_def)
    then show ?thesis using romfs_wf_inj [OF wf(2) _ d'(1)] d(1) len(1) by simp
  qed
qed

text \<open>Within a directory names are distinct, so the name order of a set of indices is unique.\<close>

lemma romfs_wf_names:
  assumes wf: "romfs_wf b" and i: "i < length (rb_dirs b)"
  shows "inj_on (\<lambda>c. rd_name (rb_dirs b ! c)) (set (rd_children (rb_dirs b ! i)))"
    "inj_on (\<lambda>k. rf_name (rb_files b ! k)) (set (rd_files (rb_dirs b ! i)))"
proof -
  show "inj_on (\<lambda>c. rd_name (rb_dirs b ! c)) (set (rd_children (rb_dirs b ! i)))"
  proof (rule inj_onI)
    fix c d assume "c \<in> set (rd_children (rb_dirs b ! i))" "d \<in> set (rd_children (rb_dirs b ! i))"
      and "rd_name (rb_dirs b ! c) = rd_name (rb_dirs b ! d)"
    then show "c = d"
      using romfs_wf_lists(3) [OF wf i] romfs_wf_inj [OF wf, of c d] romfs_wf_dir(3) [OF wf, of c]
        romfs_wf_dir(3) [OF wf, of d] by simp
  qed
  show "inj_on (\<lambda>k. rf_name (rb_files b ! k)) (set (rd_files (rb_dirs b ! i)))"
  proof (rule inj_onI)
    fix c d assume "c \<in> set (rd_files (rb_dirs b ! i))" "d \<in> set (rd_files (rb_dirs b ! i))"
      and "rf_name (rb_files b ! c) = rf_name (rb_files b ! d)"
    then have "c < length (rb_files b)" "d < length (rb_files b)" "rf_path (rb_files b ! c) = rf_path (rb_files b ! d)"
      using romfs_wf_lists(4) [OF wf i] romfs_wf_file(3) [OF wf, of c] romfs_wf_file(3) [OF wf, of d] by auto
    then show "c = d"
      using romfs_wf_paths(2) [OF wf] nth_eq_iff_index_eq [of "map rf_path (rb_files b)" c d] by simp
  qed
qed

lemma canonical_lists_unique:
  assumes c: "romfs_canonical b" "romfs_canonical b'"
    and p: "map rd_path (rb_dirs b) = map rd_path (rb_dirs b')" "map rf_path (rb_files b) = map rf_path (rb_files b')"
    and i: "i < length (rb_dirs b)"
  shows "rd_children (rb_dirs b ! i) = rd_children (rb_dirs b' ! i)"
    "rd_files (rb_dirs b ! i) = rd_files (rb_dirs b' ! i)"
proof -
  note wf = c [unfolded romfs_canonical_def, THEN conjunct1]
  have len: "length (rb_dirs b) = length (rb_dirs b')" "length (rb_files b) = length (rb_files b')"
    using p [THEN arg_cong [of _ _ length]] by simp_all
  note i' = i [unfolded len(1)]
  note same = canonical_links_unique [OF c p]
  note l = romfs_wf_lists [OF wf(1) i] and l' = romfs_wf_lists [OF wf(2) i']
  note inj = romfs_wf_names [OF wf(1) i]
  have sets: "set (rd_children (rb_dirs b ! i)) = set (rd_children (rb_dirs b' ! i))"
    "set (rd_files (rb_dirs b ! i)) = set (rd_files (rb_dirs b' ! i))"
    using l(3,4) l'(3,4) same len by auto
  have names: "map (\<lambda>c. rd_name (rb_dirs b' ! c)) (rd_children (rb_dirs b' ! i))
      = map (\<lambda>c. rd_name (rb_dirs b ! c)) (rd_children (rb_dirs b' ! i))"
    "map (\<lambda>k. rf_name (rb_files b' ! k)) (rd_files (rb_dirs b' ! i))
      = map (\<lambda>k. rf_name (rb_files b ! k)) (rd_files (rb_dirs b' ! i))"
    using l'(3,4) same len by (auto intro!: map_cong)
  have sorted: "sorted (map (\<lambda>c. rd_name (rb_dirs b ! c)) (rd_children (rb_dirs b ! i)))"
    "sorted (map (\<lambda>c. rd_name (rb_dirs b ! c)) (rd_children (rb_dirs b' ! i)))"
    "sorted (map (\<lambda>k. rf_name (rb_files b ! k)) (rd_files (rb_dirs b ! i)))"
    "sorted (map (\<lambda>k. rf_name (rb_files b ! k)) (rd_files (rb_dirs b' ! i)))"
    using c i i' unfolding romfs_canonical_def names [symmetric] by blast+
  show "rd_children (rb_dirs b ! i) = rd_children (rb_dirs b' ! i)"
    by (rule map_sorted_distinct_set_unique [where f = "\<lambda>c. rd_name (rb_dirs b ! c)"])
      (use inj sets sorted l(1) l'(1) in \<open>simp_all add: distinct_map\<close>)
  show "rd_files (rb_dirs b ! i) = rd_files (rb_dirs b' ! i)"
    by (rule map_sorted_distinct_set_unique [where f = "\<lambda>k. rf_name (rb_files b ! k)"])
      (use inj sets sorted l(2) l'(2) in \<open>simp_all add: distinct_map\<close>)
qed

text \<open>Before offsets are calculated every offset is zero.\<close>

definition romfs_fresh :: "romfs_builder \<Rightarrow> bool" where
  "romfs_fresh b \<longleftrightarrow> (\<forall>d\<in>set (rb_dirs b). rd_entry_offset d = 0)
     \<and> (\<forall>f\<in>set (rb_files b). rf_entry_offset f = 0 \<and> rf_data_offset f = 0)
     \<and> rb_dir_hash_siblings b = [] \<and> rb_file_hash_siblings b = []"

lemma canonical_unique:
  assumes c: "romfs_canonical b" "romfs_canonical b'" and fresh: "romfs_fresh b" "romfs_fresh b'"
    and dirs: "map rd_path (rb_dirs b) = map rd_path (rb_dirs b')" and files: "romfs_contents b = romfs_contents b'"
  shows "b = b'"
proof -
  have p: "map rf_path (rb_files b) = map rf_path (rb_files b')"
    using arg_cong [OF files, of "map fst"] by simp
  have len: "length (rb_dirs b) = length (rb_dirs b')" "length (rb_files b) = length (rb_files b')"
    using arg_cong [OF dirs, of length] arg_cong [OF p, of length] by simp_all
  have "rb_dirs b = rb_dirs b'"
  proof (rule nth_equalityI [OF len(1)])
    fix i assume i: "i < length (rb_dirs b)"
    have "rd_path (rb_dirs b ! i) = rd_path (rb_dirs b' ! i)"
      using dirs i len(1) by (metis nth_map)
    moreover have "rb_dirs b ! i \<in> set (rb_dirs b)" "rb_dirs b' ! i \<in> set (rb_dirs b')"
      using i len(1) by simp_all
    ultimately show "rb_dirs b ! i = rb_dirs b' ! i"
      using canonical_links_unique(1) [OF c dirs p i] canonical_lists_unique [OF c dirs p i] fresh
      by (intro rw_dir.equality) (auto simp: romfs_fresh_def)
  qed
  moreover have "rb_files b = rb_files b'"
  proof (rule nth_equalityI [OF len(2)])
    fix k assume k: "k < length (rb_files b)"
    have "(rf_path (rb_files b ! k), rf_data (rb_files b ! k)) = (rf_path (rb_files b' ! k), rf_data (rb_files b' ! k))"
      using files k len(2) unfolding romfs_contents_def by (metis (no_types, lifting) nth_map)
    moreover have "rb_files b ! k \<in> set (rb_files b)" "rb_files b' ! k \<in> set (rb_files b')"
      using k len(2) by simp_all
    ultimately show "rb_files b ! k = rb_files b' ! k"
      using canonical_links_unique(2) [OF c dirs p k] fresh
      by (intro rw_file.equality) (auto simp: romfs_fresh_def)
  qed
  ultimately show ?thesis using fresh by (auto simp: romfs_fresh_def)
qed

lemma romfs_fresh_new: "romfs_fresh romfs_new"
  by (simp add: romfs_fresh_def romfs_new_def new_dir_def)

lemma update_keeps_all:
  assumes "\<forall>x\<in>set xs. P x" "\<And>x. P x \<Longrightarrow> P (f x)"
  shows "\<forall>x\<in>set (xs[i := f (xs ! i)]). P x"
proof (cases "i < length xs")
  case True
  then show ?thesis using assms set_update_subset_insert [of xs i "f (xs ! i)"] by auto
next
  case False
  then have "xs[i := f (xs ! i)] = xs" by (simp add: list_update_beyond)
  then show ?thesis using assms(1) by (simp only:)
qed

text \<open>What every directory has, however it is entered or made, all of them keep.\<close>

lemma enter_dir_all:
  assumes "\<And>d cs. P d \<Longrightarrow> P (d\<lparr>rd_children := cs\<rparr>)" "\<And>p. P (new_dir p n i)" "\<forall>d\<in>set ds. P d"
  shows "\<forall>d\<in>set (fst (romfs_enter_dir (ds, i) n)). P d"
proof (cases "find (\<lambda>idx. rd_name (ds ! idx) = n) (rd_children (ds ! i))")
  case None
  let ?ds = "ds @ [new_dir (rd_path (ds ! i) @ 0x2F # n) n i]"
  have "\<forall>d\<in>set ?ds. P d" using assms(2,3) by simp
  then have "\<forall>d\<in>set (?ds[i := (\<lambda>d. d\<lparr>rd_children := rd_children d @ [length ds]\<rparr>) (?ds ! i)]). P d"
    by (rule update_keeps_all) (rule assms(1))
  then show ?thesis using None by (simp add: romfs_enter_dir_def Let_def)
qed (use assms(3) in \<open>simp add: romfs_enter_dir_def\<close>)

lemma enter_dirs_all:
  assumes "\<And>d cs. P d \<Longrightarrow> P (d\<lparr>rd_children := cs\<rparr>)" "\<And>n p i. n \<in> set cs \<Longrightarrow> P (new_dir p n i)" "\<forall>d\<in>set (fst st). P d"
  shows "\<forall>d\<in>set (fst (foldl romfs_enter_dir st cs)). P d"
  using assms(2,3)
proof (induction cs arbitrary: st)
  case (Cons c cs)
  have "\<forall>d\<in>set (fst (romfs_enter_dir st c)). P d"
    using enter_dir_all [of P c "snd st" "fst st", OF assms(1)] Cons.prems by simp
  with Cons show ?case by simp
qed simp

lemma romfs_add_file_fresh:
  assumes fresh: "romfs_fresh b" and add: "romfs_add_file b path data = Ok b'"
  shows "romfs_fresh b'"
proof -
  obtain ds j where e: "foldl romfs_enter_dir (rb_dirs b, 0) (butlast (path_components path)) = (ds, j)"
    by (cases "foldl romfs_enter_dir (rb_dirs b, 0) (butlast (path_components path))")
  have "\<forall>d\<in>set ds. rd_entry_offset d = 0"
    using enter_dirs_all [of "\<lambda>d. rd_entry_offset d = 0" "butlast (path_components path)" "(rb_dirs b, 0)"] fresh e
    by (simp add: romfs_fresh_def new_dir_def)
  then have "\<forall>d\<in>set (ds[j := (\<lambda>d. d\<lparr>rd_files := rd_files d @ [length (rb_files b)]\<rparr>) (ds ! j)]). rd_entry_offset d = 0"
    by (rule update_keeps_all) simp
  then show ?thesis
    using add e fresh unfolding romfs_add_file_def path_components_def [symmetric] romfs_fresh_def
    by (auto simp: Let_def new_file_def split: if_splits)
qed

text \<open>Arranging changes neither offsets nor hash siblings.\<close>

lemma romfs_arranged_fresh: "romfs_fresh b \<Longrightarrow> romfs_fresh (romfs_arranged b)"
  using dir_order.order_lt [of _ b] file_order.order_lt [of _ b] dir_order.order [of b] file_order.order [of b]
  by (auto simp: romfs_fresh_def romfs_arranged_def sort_children_eq sort_entries_by_path_eq renamed_dir_def
      renamed_file_def)

text \<open>Adding files one after the other.\<close>

definition romfs_add_all :: "romfs_builder \<Rightarrow> (bytes \<times> bytes) list \<Rightarrow> (romfs_builder, romfs_build_error) result" where
  "romfs_add_all b entries = rfold (\<lambda>b (path, data). romfs_add_file b path data) b entries"

lemma romfs_add_file_Ok:
  assumes wf: "romfs_wf b" and add: "romfs_add_file b path data = Ok b'"
  shows "path \<noteq> []" "hd path = 0x2F" "path_components path \<noteq> []" "romfs_wf b'"
    "romfs_contents b' = romfs_contents b @ [(path_of (path_components path), data)]"
proof -
  show path: "path \<noteq> []" "hd path = 0x2F" "path_components path \<noteq> []"
    using add romfs_add_file_errors(1) [OF wf, of path data] by auto
  have "path_of (path_components path) \<notin> set (map rf_path (rb_files b))"
    using add romfs_add_file_errors(2) [OF wf path, of data] by (auto simp del: set_map)
  from romfs_add_file_ok [OF wf path this, of data] add show "romfs_wf b'"
    "romfs_contents b' = romfs_contents b @ [(path_of (path_components path), data)]" by auto
qed

lemma romfs_add_all_inv:
  assumes "romfs_wf b" "romfs_tight b" "romfs_fresh b" "romfs_add_all b entries = Ok b'"
  shows "romfs_wf b' \<and> romfs_tight b' \<and> romfs_fresh b'
    \<and> romfs_contents b' = romfs_contents b @ map (\<lambda>(p, d). (path_of (path_components p), d)) entries"
  using assms
proof (induction entries arbitrary: b)
  case (Cons e es)
  obtain p d where e: "e = (p, d)" by (cases e)
  obtain b1 where b1: "romfs_add_file b p d = Ok b1" "romfs_add_all b1 es = Ok b'"
    using Cons.prems(4) by (auto simp: romfs_add_all_def e rbind_eq_Ok)
  from Cons.IH [OF romfs_add_file_Ok(4) [OF Cons.prems(1) b1(1)] romfs_add_file_tight [OF Cons.prems(1,2) b1(1)]
      romfs_add_file_fresh [OF Cons.prems(3) b1(1)] b1(2)]
  show ?case using romfs_add_file_Ok(5) [OF Cons.prems(1) b1(1)] by (simp add: e)
qed (simp add: romfs_add_all_def)

end
