(* ===== verification/Romfs_Read.thy ===== *)
theory Romfs_Read
  imports Romfs_Write
begin

text \<open>
  The RomFS reader of \<^verbatim>\<open>src/read/romfs.rs\<close>.  The sibling chains are walked by loops that
  follow offsets found in the image and keep no record of where they have been, so a loop may not
  end: it is a \<open>partial_function\<close> whose value \<open>None\<close> means that the walk never returns.
\<close>

section \<open>Validation\<close>

datatype romfs_parse_error =
    Romfs_BufferTooSmall nat nat
  | Romfs_InvalidHeaderSize nat
  | Romfs_DirMetaTableBoundsOverflow nat nat
  | Romfs_DirMetaTableOutOfBounds nat nat nat
  | Romfs_DirHashTableBoundsOverflow nat nat
  | Romfs_DirHashTableOutOfBounds nat nat nat
  | Romfs_FileMetaTableBoundsOverflow nat nat
  | Romfs_FileMetaTableOutOfBounds nat nat nat
  | Romfs_FileHashTableBoundsOverflow nat nat
  | Romfs_FileHashTableOutOfBounds nat nat nat
  | Romfs_FileDataOffsetOutOfBounds nat nat
  | Romfs_FileDataBoundsOverflow nat nat nat
  | Romfs_FileDataOutOfBounds nat nat nat

record romfs =
  ro_bytes :: bytes
  ro_header :: romfs_header

definition romfs_try_from_bytes :: "bytes \<Rightarrow> (romfs, romfs_parse_error) result" where
  "romfs_try_from_bytes bs =
     (if length bs < 0x50 then Err (Romfs_BufferTooSmall 0x50 (length bs))
      else
        rbind (ok_or (Romfs_BufferTooSmall 0x50 (length bs)) (ref_from_prefix dec_romfs_header 0x50 bs)) (\<lambda>(header, _).
        if unat (rh_header_size header) \<noteq> 0x50
        then Err (Romfs_InvalidHeaderSize (unat (rh_header_size header)))
        else
          let dir_off = unat (rh_dir_meta_table_offset header);
              dir_size = unat (rh_dir_meta_table_size header) in
          rbind (ok_or (Romfs_DirMetaTableBoundsOverflow dir_off dir_size) (checked_add dir_off dir_size)) (\<lambda>dir_end.
          if dir_end > length bs then Err (Romfs_DirMetaTableOutOfBounds dir_off dir_size (length bs))
          else
          let dir_hash_off = unat (rh_dir_hash_table_offset header);
              dir_hash_size = unat (rh_dir_hash_table_size header) in
          rbind (ok_or (Romfs_DirHashTableBoundsOverflow dir_hash_off dir_hash_size)
                   (checked_add dir_hash_off dir_hash_size)) (\<lambda>dir_hash_end.
          if dir_hash_end > length bs
          then Err (Romfs_DirHashTableOutOfBounds dir_hash_off dir_hash_size (length bs))
          else
          let file_off = unat (rh_file_meta_table_offset header);
              file_size = unat (rh_file_meta_table_size header) in
          rbind (ok_or (Romfs_FileMetaTableBoundsOverflow file_off file_size) (checked_add file_off file_size)) (\<lambda>file_end.
          if file_end > length bs then Err (Romfs_FileMetaTableOutOfBounds file_off file_size (length bs))
          else
          let file_hash_off = unat (rh_file_hash_table_offset header);
              file_hash_size = unat (rh_file_hash_table_size header) in
          rbind (ok_or (Romfs_FileHashTableBoundsOverflow file_hash_off file_hash_size)
                   (checked_add file_hash_off file_hash_size)) (\<lambda>file_hash_end.
          if file_hash_end > length bs
          then Err (Romfs_FileHashTableOutOfBounds file_hash_off file_hash_size (length bs))
          else
          let data_off = unat (rh_file_data_offset header) in
          if data_off > length bs then Err (Romfs_FileDataOffsetOutOfBounds data_off (length bs))
          else Ok \<lparr>ro_bytes = bs, ro_header = header\<rparr>))))))"

section \<open>Entries\<close>

definition dir_meta_table :: "romfs \<Rightarrow> (bytes, 'e) result" where
  "dir_meta_table r =
     (let offset = unat (rh_dir_meta_table_offset (ro_header r));
          size = unat (rh_dir_meta_table_size (ro_header r))
      in rbind (uadd offset size) (\<lambda>table_end. slice (ro_bytes r) offset table_end))"

definition file_meta_table :: "romfs \<Rightarrow> (bytes, 'e) result" where
  "file_meta_table r =
     (let offset = unat (rh_file_meta_table_offset (ro_header r));
          size = unat (rh_file_meta_table_size (ro_header r))
      in rbind (uadd offset size) (\<lambda>table_end. slice (ro_bytes r) offset table_end))"

text \<open>
  The body the three \<^verbatim>\<open>from_offset\<close> functions share, on the table, the fixed prefix of its
  entries and the error they report a short table with.
\<close>

definition romfs_entry_at ::
  "(bytes \<Rightarrow> 'r) \<Rightarrow> nat \<Rightarrow> ('r \<Rightarrow> u32) \<Rightarrow> (nat \<Rightarrow> nat \<Rightarrow> 'e) \<Rightarrow> bytes \<Rightarrow> nat \<Rightarrow> nat \<Rightarrow> ('r \<times> bytes, 'e) result" where
  "romfs_entry_at dec entry_size name_len too_small table offset table_base =
     (if offset \<ge> length table then Err (too_small (offset + entry_size) (table_base + length table))
      else
        rbind (slice table offset (length table)) (\<lambda>entry_bytes.
        rbind (ok_or (too_small (offset + entry_size) (table_base + length table))
                 (ref_from_prefix dec entry_size entry_bytes)) (\<lambda>(entry, _).
        let len = unat (name_len entry);
            name_offset = offset + entry_size
        in rbind (ok_or (too_small usize_max (table_base + length table)) (checked_add name_offset len)) (\<lambda>name_end.
           if name_end > length table then Err (too_small (table_base + name_end) (table_base + length table))
           else rbind (slice table name_offset name_end) (\<lambda>name_bytes.
             Ok (entry, str_or_empty name_bytes))))))"

datatype root_dir_error = RootDirError nat nat

datatype romfs_open_error =
    Open_BufferTooSmall nat nat
  | Open_PathNotFound
  | Open_DirNotFound
  | Open_FileNotFound

record romfs_dir =
  rdv_entry :: romfs_dir_entry
  rdv_name :: bytes

record romfs_file =
  rfv_entry :: romfs_file_entry
  rfv_name :: bytes

definition romfs_dir_from_offset_for_root :: "romfs \<Rightarrow> u32 \<Rightarrow> nat \<Rightarrow> (romfs_dir, root_dir_error) result" where
  "romfs_dir_from_offset_for_root r offset table_base =
     rbind (dir_meta_table r) (\<lambda>table.
     rbind (romfs_entry_at dec_romfs_dir_entry 0x18 de_name_len RootDirError table (unat offset) table_base) (\<lambda>(entry, n).
       Ok \<lparr>rdv_entry = entry, rdv_name = n\<rparr>))"

definition romfs_dir_from_offset :: "romfs \<Rightarrow> u32 \<Rightarrow> nat \<Rightarrow> (romfs_dir, romfs_open_error) result" where
  "romfs_dir_from_offset r offset table_base =
     rbind (dir_meta_table r) (\<lambda>table.
     rbind (romfs_entry_at dec_romfs_dir_entry 0x18 de_name_len Open_BufferTooSmall table (unat offset) table_base) (\<lambda>(entry, n).
       Ok \<lparr>rdv_entry = entry, rdv_name = n\<rparr>))"

definition romfs_file_from_offset :: "romfs \<Rightarrow> u32 \<Rightarrow> nat \<Rightarrow> (romfs_file, romfs_open_error) result" where
  "romfs_file_from_offset r offset table_base =
     rbind (file_meta_table r) (\<lambda>table.
     rbind (romfs_entry_at dec_romfs_file_entry 0x20 fe_name_len Open_BufferTooSmall table (unat offset) table_base) (\<lambda>(entry, n).
       Ok \<lparr>rfv_entry = entry, rfv_name = n\<rparr>))"

definition romfs_root_dir :: "romfs \<Rightarrow> (romfs_dir, root_dir_error) result" where
  "romfs_root_dir r =
     (let dir_table_offset = unat (rh_dir_meta_table_offset (ro_header r))
      in romfs_dir_from_offset_for_root r 0 dir_table_offset)"

section \<open>Lookup\<close>

partial_function (option) romfs_find_dir_from ::
  "romfs \<Rightarrow> nat \<Rightarrow> bytes \<Rightarrow> u32 \<Rightarrow> (romfs_dir, romfs_open_error) result option" where
  "romfs_find_dir_from r table_base n child_offset =
     (if child_offset = NO_ENTRY then Some (Err Open_DirNotFound)
      else case romfs_dir_from_offset r child_offset table_base of
          Ok child \<Rightarrow>
            if rdv_name child = n then Some (Ok child)
            else romfs_find_dir_from r table_base n (de_sibling_offset (rdv_entry child))
        | Err e \<Rightarrow> Some (Err e)
        | Panic \<Rightarrow> Some Panic)"

definition romfs_find_dir :: "romfs \<Rightarrow> romfs_dir \<Rightarrow> bytes \<Rightarrow> (romfs_dir, romfs_open_error) result option" where
  "romfs_find_dir r d n =
     romfs_find_dir_from r (unat (rh_dir_meta_table_offset (ro_header r))) n (de_child_offset (rdv_entry d))"

partial_function (option) romfs_find_file_from ::
  "romfs \<Rightarrow> nat \<Rightarrow> bytes \<Rightarrow> u32 \<Rightarrow> (romfs_file, romfs_open_error) result option" where
  "romfs_find_file_from r table_base n file_offset =
     (if file_offset = NO_ENTRY then Some (Err Open_FileNotFound)
      else case romfs_file_from_offset r file_offset table_base of
          Ok f \<Rightarrow>
            if rfv_name f = n then Some (Ok f)
            else romfs_find_file_from r table_base n (fe_sibling_offset (rfv_entry f))
        | Err e \<Rightarrow> Some (Err e)
        | Panic \<Rightarrow> Some Panic)"

definition romfs_find_file :: "romfs \<Rightarrow> romfs_dir \<Rightarrow> bytes \<Rightarrow> (romfs_file, romfs_open_error) result option" where
  "romfs_find_file r d n =
     romfs_find_file_from r (unat (rh_file_meta_table_offset (ro_header r))) n (de_file_offset (rdv_entry d))"

text \<open>The loop of \<^verbatim>\<open>open\<close>: every component but the last is a directory to enter.\<close>

fun romfs_open_from ::
  "romfs \<Rightarrow> romfs_dir \<Rightarrow> bytes option \<Rightarrow> bytes list \<Rightarrow> (romfs_file, romfs_open_error) result option" where
  "romfs_open_from r current_dir last_component [] =
     (case last_component of
        Some filename \<Rightarrow> romfs_find_file r current_dir filename
      | None \<Rightarrow> Some (Err Open_PathNotFound))"
| "romfs_open_from r current_dir last_component (component # components) =
     (case last_component of
        None \<Rightarrow> romfs_open_from r current_dir (Some component) components
      | Some prev \<Rightarrow>
          (case romfs_find_dir r current_dir prev of
             None \<Rightarrow> None
           | Some (Ok d) \<Rightarrow> romfs_open_from r d (Some component) components
           | Some (Err e) \<Rightarrow> Some (Err e)
           | Some Panic \<Rightarrow> Some Panic))"

definition romfs_open :: "romfs \<Rightarrow> bytes \<Rightarrow> (romfs_file, romfs_open_error) result option" where
  "romfs_open r path =
     (let path = dropWhile (\<lambda>b. b = 0x2F) path in
      if path = [] then Some (Err Open_PathNotFound)
      else case map_err (\<lambda>e. case e of RootDirError required available \<Rightarrow> Open_BufferTooSmall required available)
                  (romfs_root_dir r) of
             Ok d \<Rightarrow> romfs_open_from r d None (split_slash path)
           | Err e \<Rightarrow> Some (Err e)
           | Panic \<Rightarrow> Some Panic)"

section \<open>Contents\<close>

definition romfs_file_size :: "romfs_file \<Rightarrow> nat" where
  "romfs_file_size f = unat (fe_data_size (rfv_entry f))"

definition romfs_file_slice :: "romfs \<Rightarrow> nat \<Rightarrow> nat \<Rightarrow> (bytes, 'e) result" where
  "romfs_file_slice r offset len =
     (let data_offset = unat (rh_file_data_offset (ro_header r)) in
      rbind (uadd data_offset offset) (\<lambda>from_off.
      rbind (uadd from_off len) (\<lambda>to_off. slice (ro_bytes r) from_off to_off)))"

definition romfs_file_data :: "romfs \<Rightarrow> romfs_file \<Rightarrow> (bytes, romfs_parse_error) result" where
  "romfs_file_data r f =
     (let offset = unat (fe_data_offset (rfv_entry f));
          size = unat (fe_data_size (rfv_entry f));
          data_base = unat (rh_file_data_offset (ro_header r))
      in rbind (ok_or (Romfs_FileDataBoundsOverflow data_base offset size) (checked_add data_base offset)) (\<lambda>abs_start.
         rbind (ok_or (Romfs_FileDataBoundsOverflow data_base offset size) (checked_add abs_start size)) (\<lambda>abs_end.
         if abs_end > length (ro_bytes r)
         then Err (Romfs_FileDataOutOfBounds offset size (length (ro_bytes r)))
         else romfs_file_slice r offset size)))"

section \<open>Iteration\<close>

datatype romfs_entry = Romfs_File romfs_file | Romfs_Dir romfs_dir

record dir_iterator =
  di_next_dir_offset :: u32
  di_next_file_offset :: u32
  di_dir_table_base :: nat
  di_file_table_base :: nat

definition romfs_entries :: "romfs \<Rightarrow> romfs_dir \<Rightarrow> dir_iterator" where
  "romfs_entries r d =
     \<lparr>di_next_dir_offset = de_child_offset (rdv_entry d), di_next_file_offset = de_file_offset (rdv_entry d),
      di_dir_table_base = unat (rh_dir_meta_table_offset (ro_header r)),
      di_file_table_base = unat (rh_file_meta_table_offset (ro_header r))\<rparr>"

text \<open>The second half of \<^verbatim>\<open>next\<close>, then the whole of it.\<close>

definition dir_iterator_next_file ::
  "romfs \<Rightarrow> dir_iterator \<Rightarrow> (romfs_entry option \<times> dir_iterator, 'e) result" where
  "dir_iterator_next_file r it =
     (if di_next_file_offset it = NO_ENTRY then Ok (None, it)
      else case romfs_file_from_offset r (di_next_file_offset it) (di_file_table_base it) of
          Ok f \<Rightarrow> Ok (Some (Romfs_File f), it\<lparr>di_next_file_offset := fe_sibling_offset (rfv_entry f)\<rparr>)
        | Err e \<Rightarrow> Ok (None, it)
        | Panic \<Rightarrow> Panic)"

definition dir_iterator_next ::
  "romfs \<Rightarrow> dir_iterator \<Rightarrow> (romfs_entry option \<times> dir_iterator, 'e) result" where
  "dir_iterator_next r it =
     (if di_next_dir_offset it = NO_ENTRY then dir_iterator_next_file r it
      else case romfs_dir_from_offset r (di_next_dir_offset it) (di_dir_table_base it) of
          Ok d \<Rightarrow> Ok (Some (Romfs_Dir d), it\<lparr>di_next_dir_offset := de_sibling_offset (rdv_entry d)\<rparr>)
        | Err e \<Rightarrow> dir_iterator_next_file r it
        | Panic \<Rightarrow> Panic)"

text \<open>Driving the iterator to its end, as a \<^verbatim>\<open>for\<close> loop does.\<close>

partial_function (option) dir_iterator_collect ::
  "romfs \<Rightarrow> dir_iterator \<Rightarrow> (romfs_entry list, 'e) result option" where
  "dir_iterator_collect r it =
     (case dir_iterator_next r it of
        Ok (None, _) \<Rightarrow> Some (Ok [])
      | Ok (Some e, it) \<Rightarrow>
          Option.bind (dir_iterator_collect r it) (\<lambda>rest. Some (rbind rest (\<lambda>es. Ok (e # es))))
      | Err e \<Rightarrow> Some (Err e)
      | Panic \<Rightarrow> Some Panic)"

end
