(* ===== verification/Romfs_Image.thy ===== *)
theory Romfs_Image
  imports Romfs_Order Romfs_Read
begin

text \<open>
  What \<^verbatim>\<open>build\<close> lays out, region by region: where entries and file data are placed, that the
  metadata tables hold each entry at the offset it was given, and where the header says they are.
\<close>

section \<open>Offsets of entries\<close>

definition entry_size :: "nat \<Rightarrow> nat \<Rightarrow> nat" where
  "entry_size fixed n = fixed + align_up n 4"

text \<open>The offset of entry \<open>k\<close>, and the size of the table, when the names have the given lengths.\<close>

definition table_offset :: "nat \<Rightarrow> nat list \<Rightarrow> nat \<Rightarrow> nat" where
  "table_offset fixed ns k = sum_list (map (entry_size fixed) (take k ns))"

abbreviation table_size :: "nat \<Rightarrow> nat list \<Rightarrow> nat" where
  "table_size fixed ns \<equiv> table_offset fixed ns (length ns)"

lemma table_offset_0 [simp]: "table_offset fixed ns 0 = 0"
  by (simp add: table_offset_def)

lemma table_offset_Cons [simp]:
  "table_offset fixed (n # ns) (Suc k) = entry_size fixed n + table_offset fixed ns k"
  by (simp add: table_offset_def)

lemma table_offset_Suc: "k < length ns \<Longrightarrow> table_offset fixed ns (Suc k) = table_offset fixed ns k + entry_size fixed (ns ! k)"
  by (simp add: table_offset_def take_Suc_conv_app_nth)

lemma table_offset_mono: "j \<le> k \<Longrightarrow> table_offset fixed ns j \<le> table_offset fixed ns k"
proof (induction ns arbitrary: j k)
  case (Cons n ns)
  then show ?case by (cases j; cases k) simp_all
qed (simp add: table_offset_def)

lemma table_offset_next:
  assumes "j < k" "k \<le> length ns"
  shows "table_offset fixed ns j + entry_size fixed (ns ! j) \<le> table_offset fixed ns k"
  using table_offset_Suc [of j ns fixed] table_offset_mono [of "Suc j" k fixed ns] assms by simp

lemma table_offset_inj:
  assumes "0 < fixed" "j < length ns" "k < length ns" "table_offset fixed ns j = table_offset fixed ns k"
  shows "j = k"
proof (rule ccontr)
  assume "j \<noteq> k"
  then consider "j < k" | "k < j" by linarith
  then show False
    using table_offset_next [of j k ns fixed] table_offset_next [of k j ns fixed] assms
    by cases (auto simp: entry_size_def)
qed

lemma align32_ok [run_simps]:
  "v + 3 < 2 ^ 32 \<Longrightarrow> (align32 v 4 :: (nat, 'e) result) = Ok (align_up v 4)"
  by (simp add: align32_def u32_add_def align_up_def)

lemma align_up4_bound: "n \<le> align_up n 4" "align_up n 4 < n + 4"
  by (simp_all add: align_up_ge align_up_lt)

text \<open>The loops of \<^verbatim>\<open>calculate_offsets\<close> succeed while the tables stay below \<open>2 ^ 32\<close> bytes.\<close>

definition set_file_offsets :: "nat \<Rightarrow> rw_file list \<Rightarrow> rw_file list" where
  "set_file_offsets start fs =
     map (\<lambda>(k, f). f\<lparr>rf_entry_offset := start + table_offset 0x20 (map (\<lambda>f. length (rf_name f)) fs) k\<rparr>) (enumerate 0 fs)"

definition set_dir_offsets :: "nat \<Rightarrow> rw_dir list \<Rightarrow> rw_dir list" where
  "set_dir_offsets start ds =
     map (\<lambda>(k, d). d\<lparr>rd_entry_offset := start + table_offset 0x18 (map (\<lambda>d. length (rd_name d)) ds) k\<rparr>) (enumerate 0 ds)"

lemma enumerate_Suc_map: "map (\<lambda>(k, x). f k x) (enumerate (Suc n) xs) = map (\<lambda>(k, x). f (Suc k) x) (enumerate n xs)"
  by (induction xs arbitrary: n) simp_all

lemma place_file_entries_ok:
  "start + table_size 0x20 (map (\<lambda>f. length (rf_name f)) fs) < 2 ^ 32 \<Longrightarrow>
     \<forall>f\<in>set fs. length (rf_name f) + 3 < 2 ^ 32 \<Longrightarrow>
     (place_file_entries start fs :: (rw_file list, 'e) result) = Ok (set_file_offsets start fs)"
proof (induction fs arbitrary: start)
  case (Cons f fs)
  let ?n = "length (rf_name f)"
  have "start + entry_size 0x20 ?n + table_size 0x20 (map (\<lambda>f. length (rf_name f)) fs) < 2 ^ 32"
    using Cons.prems(1) by (simp add: add.assoc)
  then have "(place_file_entries (start + entry_size 0x20 ?n) fs :: (rw_file list, 'e) result)
      = Ok (set_file_offsets (start + entry_size 0x20 ?n) fs)" "start + entry_size 0x20 ?n < 2 ^ 32"
    using Cons.IH Cons.prems(2) by simp_all
  moreover have "?n + 3 < 2 ^ 32" using Cons.prems(2) by simp
  ultimately show ?case
    by (simp add: run_simps entry_size_def set_file_offsets_def enumerate_Suc_map add.assoc)
qed (simp add: set_file_offsets_def)

lemma place_dir_entries_ok:
  "start + table_size 0x18 (map (\<lambda>d. length (rd_name d)) ds) < 2 ^ 32 \<Longrightarrow>
     \<forall>d\<in>set ds. length (rd_name d) + 3 < 2 ^ 32 \<Longrightarrow>
     (place_dir_entries start ds :: (rw_dir list, 'e) result) = Ok (set_dir_offsets start ds)"
proof (induction ds arbitrary: start)
  case (Cons d ds)
  let ?n = "length (rd_name d)"
  have "start + entry_size 0x18 ?n + table_size 0x18 (map (\<lambda>d. length (rd_name d)) ds) < 2 ^ 32"
    using Cons.prems(1) by (simp add: add.assoc)
  then have "(place_dir_entries (start + entry_size 0x18 ?n) ds :: (rw_dir list, 'e) result)
      = Ok (set_dir_offsets (start + entry_size 0x18 ?n) ds)" "start + entry_size 0x18 ?n < 2 ^ 32"
    using Cons.IH Cons.prems(2) by simp_all
  moreover have "?n + 3 < 2 ^ 32" using Cons.prems(2) by simp
  ultimately show ?case
    by (simp add: run_simps entry_size_def set_dir_offsets_def enumerate_Suc_map add.assoc)
qed (simp add: set_dir_offsets_def)

section \<open>File data\<close>

lemma length_place_file_data [simp]: "length (place_file_data d fs) = length fs"
  by (induction d fs rule: place_file_data.induct) (simp_all add: Let_def)

lemma place_file_data_nth:
  "k < length fs \<Longrightarrow> \<exists>d'. place_file_data d fs ! k = (fs ! k)\<lparr>rf_data_offset := d'\<rparr>"
proof (induction d fs arbitrary: k rule: place_file_data.induct)
  case (2 d f fs)
  then show ?case by (cases k) (auto simp: Let_def)
qed simp

lemma place_file_data_offsets:
  "map rf_data fs = map rf_data fs' \<Longrightarrow>
     map rf_data_offset (place_file_data d fs) = map rf_data_offset (place_file_data d fs')"
proof (induction fs arbitrary: fs' d)
  case (Cons f fs)
  then obtain g gs where "fs' = g # gs" "rf_data f = rf_data g" "map rf_data fs = map rf_data gs" by auto
  then show ?case using Cons.IH [of gs] by (simp add: Let_def)
qed simp

lemma place_file_data_same: "map rf_data (place_file_data d fs) = map rf_data fs"
  by (induction d fs rule: place_file_data.induct) (simp_all add: Let_def)

lemma resize0_grow: "length bs \<le> n \<Longrightarrow> resize0 bs n = bs @ zeros (n - length bs)"
  by (simp add: resize0_def)

lemma write_file_data_append: "\<exists>ext. write_file_data buf fs = buf @ ext"
proof (induction fs arbitrary: buf)
  case Nil
  then show ?case by (simp add: write_file_data_def)
next
  case (Cons f fs)
  let ?buf = "resize0 buf (align64 (length buf) 0x10) @ rf_data f"
  obtain e where "write_file_data ?buf fs = ?buf @ e" using Cons by blast
  then show ?case
    by (simp add: write_file_data_def align64_def resize0_grow align_up_ge)
qed

lemma write_file_data_spec:
  assumes "length buf = base + d" "0x10 dvd base"
  shows "length (write_file_data buf fs) = base + foldl (\<lambda>size f. align64 size 0x10 + length (rf_data f)) d fs
    \<and> (\<forall>k<length fs. let off = base + rf_data_offset (place_file_data d fs ! k) in
        off + length (rf_data (fs ! k)) \<le> length (write_file_data buf fs)
      \<and> sub_bytes (write_file_data buf fs) off (length (rf_data (fs ! k))) = rf_data (fs ! k))"
  using assms
proof (induction fs arbitrary: buf d)
  case Nil
  then show ?case by (simp add: write_file_data_def)
next
  case (Cons f fs)
  let ?d = "align64 d 0x10"
  let ?buf = "resize0 buf (align64 (length buf) 0x10) @ rf_data f"
  have al: "align64 (length buf) 0x10 = base + ?d"
    using Cons.prems by (simp add: align64_def align_up_add)
  then have len: "length ?buf = base + (?d + length (rf_data f))" by simp
  have w: "write_file_data buf (f # fs) = write_file_data ?buf fs"
    by (simp add: write_file_data_def)
  obtain e where e: "write_file_data ?buf fs = ?buf @ e" using write_file_data_append by blast
  have here: "sub_bytes (write_file_data ?buf fs) (base + ?d) (length (rf_data f)) = rf_data f"
    unfolding e using al by (simp add: sub_bytes_def)
  have fits: "base + ?d + length (rf_data f) \<le> length (write_file_data ?buf fs)"
    unfolding e length_append len by (simp add: al)
  show ?case
  proof (intro conjI allI impI)
    show "length (write_file_data buf (f # fs)) =
        base + foldl (\<lambda>size f. align64 size 0x10 + length (rf_data f)) d (f # fs)"
      unfolding w using Cons.IH [OF len Cons.prems(2)] by simp
    fix k assume "k < length (f # fs)"
    then show "let off = base + rf_data_offset (place_file_data d (f # fs) ! k) in
        off + length (rf_data ((f # fs) ! k)) \<le> length (write_file_data buf (f # fs))
      \<and> sub_bytes (write_file_data buf (f # fs)) off (length (rf_data ((f # fs) ! k))) = rf_data ((f # fs) ! k)"
      unfolding w using Cons.IH [OF len Cons.prems(2), THEN conjunct2, rule_format, of "k - 1"] here fits
      by (cases k) (simp_all add: Let_def)
  qed
qed

section \<open>Metadata tables\<close>

definition padded :: "bytes \<Rightarrow> bytes" where
  "padded r = r @ zeros (align_up (length r) 4 - length r)"

lemma length_padded [simp]: "length (padded r) = align_up (length r) 4"
  by (simp add: padded_def align_up_ge)

lemma push_record_ok:
  assumes "4 dvd length table" "length table + length r + 3 < 2 ^ 32"
  shows "(push_record table r :: (bytes, 'e) result) = Ok (table @ padded r)"
proof -
  have "align_up (length table + length r) 4 = length table + align_up (length r) 4"
    using assms(1) by (simp add: align_up_add)
  moreover have "length (table @ r) mod 2 ^ 32 = length table + length r" using assms(2) by simp
  ultimately show ?thesis
    using assms align_up4_bound [of "length r"]
    by (simp add: push_record_def Let_def run_simps resize0_grow padded_def)
qed

lemma padded_dvd: "4 dvd length (padded r)"
  by simp

text \<open>A loop that pushes the record of every entry.\<close>

lemma push_records_ok:
  assumes "4 dvd length table" "length table + length (concat (map (\<lambda>x. padded (f x)) xs)) + 3 < 2 ^ 32"
  shows "(rfold (\<lambda>table x. push_record table (f x)) table xs :: (bytes, 'e) result)
    = Ok (table @ concat (map (\<lambda>x. padded (f x)) xs))"
  using assms
proof (induction xs arbitrary: table)
  case (Cons x xs)
  have "length table + length (f x) + 3 < 2 ^ 32"
    using Cons.prems(2) align_up4_bound [of "length (f x)"] by simp
  with Cons.prems(1) have "(push_record table (f x) :: (bytes, 'e) result) = Ok (table @ padded (f x))"
    by (rule push_record_ok)
  moreover have "4 dvd length (table @ padded (f x))" using Cons.prems(1) by simp
  ultimately show ?case using Cons.IH [of "table @ padded (f x)"] Cons.prems(2) by simp
qed simp

lemma length_concat_padded:
  assumes "\<forall>x\<in>set xs. length (f x) = fixed + g x" "4 dvd fixed"
  shows "length (concat (map (\<lambda>x. padded (f x)) xs)) = table_size fixed (map g xs)"
  using assms(1)
proof (induction xs)
  case (Cons x xs)
  then have "length (f x) = fixed + g x" by simp
  then have "align_up (length (f x)) 4 = entry_size fixed (g x)"
    using assms(2) by (simp add: entry_size_def align_up_add)
  then show ?case using Cons by simp
qed (simp add: table_offset_def)

text \<open>Entry \<open>k\<close> of the table stands at its offset.\<close>

lemma concat_padded_nth:
  assumes "\<forall>x\<in>set xs. length (f x) = fixed + g x" "4 dvd fixed" "k < length xs"
  obtains A B where "concat (map (\<lambda>x. padded (f x)) xs) = A @ f (xs ! k) @ B"
    "length A = table_offset fixed (map g xs) k"
proof -
  have "concat (map (\<lambda>x. padded (f x)) xs)
      = concat (map (\<lambda>x. padded (f x)) (take k xs)) @ padded (f (xs ! k)) @ concat (map (\<lambda>x. padded (f x)) (drop (Suc k) xs))"
    using id_take_nth_drop [OF assms(3)] by (metis (no_types, lifting) concat.simps(2) concat_append list.simps(9) map_append)
  moreover have "length (concat (map (\<lambda>x. padded (f x)) (take k xs))) = table_offset fixed (map g xs) k"
    using length_concat_padded [of "take k xs" f fixed g] assms
    by (auto simp: table_offset_def take_map min_absorb2 dest: in_set_takeD)
  ultimately show ?thesis using that by (simp add: padded_def)
qed

section \<open>Reading an entry\<close>

lemma romfs_entry_at_written:
  assumes "table = A @ enc @ n @ B" "length enc = sz" "0 < sz"
    and "\<And>rest. dec (enc @ rest) = e" "unat (name_len e) = length n" "length table \<le> usize_max"
  shows "romfs_entry_at dec sz name_len too_small table (length A) base = Ok (e, str_or_empty n)"
proof -
  have "drop (length A) table = enc @ n @ B" by (simp add: assms(1))
  moreover have "length A < length table" "length A + sz + length n \<le> length table"
    using assms(1-3) by simp_all
  moreover have "take (length n) (drop (length A + sz) table) = n"
    using assms(1,2) by simp
  ultimately show ?thesis
    using assms(2,4-6) by (simp add: romfs_entry_at_def run_simps Let_def)
qed

end
