(* ===== verification/Romfs_Built.thy ===== *)
theory Romfs_Built
  imports Romfs_Image
begin

text \<open>
  A builder with its offsets in place, the image it is written to, and the reader's view of that
  image: validation succeeds, and every entry and every file's data is found where it was put.
\<close>

section \<open>Offsets in place\<close>

definition dir_names :: "romfs_builder \<Rightarrow> nat list" where
  "dir_names b = map (\<lambda>d. length (rd_name d)) (rb_dirs b)"

definition file_names :: "romfs_builder \<Rightarrow> nat list" where
  "file_names b = map (\<lambda>f. length (rf_name f)) (rb_files b)"

lemma length_names [simp]:
  "length (dir_names b) = length (rb_dirs b)" "length (file_names b) = length (rb_files b)"
  by (simp_all add: dir_names_def file_names_def)

lemma nth_names [simp]:
  "k < length (rb_dirs b) \<Longrightarrow> dir_names b ! k = length (rd_name (rb_dirs b ! k))"
  "k < length (rb_files b) \<Longrightarrow> file_names b ! k = length (rf_name (rb_files b ! k))"
  by (simp_all add: dir_names_def file_names_def)

text \<open>The metadata tables of the image, whose sizes the 32-bit entry offsets bound.\<close>

definition romfs_fits :: "romfs_builder \<Rightarrow> bool" where
  "romfs_fits b \<longleftrightarrow> table_size 0x18 (dir_names b) < 2 ^ 32 \<and> table_size 0x20 (file_names b) < 2 ^ 32"

definition romfs_placed :: "romfs_builder \<Rightarrow> bool" where
  "romfs_placed b \<longleftrightarrow> romfs_wf b \<and> romfs_fits b
   \<and> (\<forall>k<length (rb_dirs b). rd_entry_offset (rb_dirs b ! k) = table_offset 0x18 (dir_names b) k)
   \<and> (\<forall>k<length (rb_files b). rf_entry_offset (rb_files b ! k) = table_offset 0x20 (file_names b) k)
   \<and> map rf_data_offset (rb_files b) = map rf_data_offset (place_file_data 0 (rb_files b))"

definition with_offsets :: "romfs_builder \<Rightarrow> romfs_builder" where
  "with_offsets b =
     b\<lparr>rb_files := set_file_offsets 0 (place_file_data 0 (rb_files b)), rb_dirs := set_dir_offsets 0 (rb_dirs b)\<rparr>"

lemma place_file_data_names: "map (\<lambda>f. length (rf_name f)) (place_file_data d fs) = map (\<lambda>f. length (rf_name f)) fs"
  by (induction d fs rule: place_file_data.induct) (simp_all add: Let_def)

lemma name_in_table:
  assumes "n \<in> set ns" "table_size fixed ns < 2 ^ 32" "4 \<le> fixed"
  shows "n + 3 < 2 ^ 32"
proof -
  obtain k where k: "k < length ns" "ns ! k = n" using assms(1) by (auto simp: in_set_conv_nth)
  then have "entry_size fixed n < 2 ^ 32"
    using table_offset_next [of k "length ns" ns fixed] assms(2) by simp
  then show ?thesis using assms(3) align_up4_bound [of n] by (simp add: entry_size_def)
qed

lemma calculate_offsets_ok:
  assumes "romfs_fits b"
  shows "(calculate_offsets b :: (romfs_builder, 'e) result) = Ok (with_offsets b)"
proof -
  note fits = assms [unfolded romfs_fits_def dir_names_def file_names_def]
  have "\<forall>d\<in>set (rb_dirs b). length (rd_name d) + 3 < 2 ^ 32"
    using name_in_table [OF _ conjunct1 [OF fits]] by simp
  then have "(place_dir_entries 0 (rb_dirs b) :: (rw_dir list, 'e) result) = Ok (set_dir_offsets 0 (rb_dirs b))"
    using fits by (intro place_dir_entries_ok) simp_all
  moreover have "length (rf_name f) + 3 < 2 ^ 32" if "f \<in> set (place_file_data 0 (rb_files b))" for f
  proof (rule name_in_table [OF _ conjunct2 [OF fits]])
    show "length (rf_name f) \<in> set (map (\<lambda>f. length (rf_name f)) (rb_files b))"
      using that image_eqI [of "length (rf_name f)" "\<lambda>f. length (rf_name f)" f] place_file_data_names [of 0 "rb_files b"]
      by (metis set_map)
  qed simp
  then have "(place_file_entries 0 (place_file_data 0 (rb_files b)) :: (rw_file list, 'e) result)
      = Ok (set_file_offsets 0 (place_file_data 0 (rb_files b)))"
    using fits by (intro place_file_entries_ok) (simp_all add: place_file_data_names del: length_map)
  ultimately show ?thesis by (simp add: calculate_offsets_def with_offsets_def)
qed

lemma with_offsets_same:
  "length (rb_dirs (with_offsets b)) = length (rb_dirs b)"
  "length (rb_files (with_offsets b)) = length (rb_files b)"
  by (simp_all add: with_offsets_def set_dir_offsets_def set_file_offsets_def)

lemma with_offsets_dir:
  "k < length (rb_dirs b) \<Longrightarrow>
     rb_dirs (with_offsets b) ! k = (rb_dirs b ! k)\<lparr>rd_entry_offset := table_offset 0x18 (dir_names b) k\<rparr>"
  by (simp add: with_offsets_def set_dir_offsets_def nth_enumerate_eq dir_names_def)

lemma with_offsets_file:
  "k < length (rb_files b) \<Longrightarrow>
     rb_files (with_offsets b) ! k =
       (rb_files b ! k)\<lparr>rf_data_offset := rf_data_offset (place_file_data 0 (rb_files b) ! k),
                        rf_entry_offset := table_offset 0x20 (file_names b) k\<rparr>"
  using place_file_data_nth [of k "rb_files b" 0]
  by (auto simp: with_offsets_def set_file_offsets_def nth_enumerate_eq file_names_def place_file_data_names)

lemma with_offsets_names [simp]:
  "dir_names (with_offsets b) = dir_names b" "file_names (with_offsets b) = file_names b"
  by (rule nth_equalityI; simp add: with_offsets_same with_offsets_dir with_offsets_file)+

lemma with_offsets_placed:
  assumes wf: "romfs_wf b" and fits: "romfs_fits b"
  shows "romfs_placed (with_offsets b)"
proof -
  have n: "0 < length (rb_dirs b)" by (rule romfs_wf_root [OF wf])
  have "rb_dirs (with_offsets b) \<noteq> []" using n by (simp add: with_offsets_same flip: length_greater_0_conv)
  moreover have "map rd_path (rb_dirs (with_offsets b)) = map rd_path (rb_dirs b)"
    "map rf_path (rb_files (with_offsets b)) = map rf_path (rb_files b)"
    by (rule nth_equalityI; simp add: with_offsets_same with_offsets_dir with_offsets_file)+
  moreover have "rd_parent (rb_dirs b ! c) < length (rb_dirs b)" if "c < length (rb_dirs b)" for c
    by (rule romfs_wf_parent [OF wf that])
  ultimately have "romfs_wf (with_offsets b)"
    using n romfs_wf_root [OF wf] romfs_wf_lists [OF wf] romfs_wf_dir [OF wf] romfs_wf_file [OF wf] romfs_wf_paths [OF wf]
    unfolding romfs_wf_def by (auto simp: with_offsets_same with_offsets_dir with_offsets_file)
  moreover have "map rf_data_offset (rb_files (with_offsets b)) = map rf_data_offset (place_file_data 0 (rb_files b))"
    by (rule nth_equalityI) (simp_all add: with_offsets_same with_offsets_file)
  moreover have "map rf_data (rb_files (with_offsets b)) = map rf_data (rb_files b)"
    by (rule nth_equalityI) (simp_all add: with_offsets_same with_offsets_file)
  ultimately show ?thesis
    using fits place_file_data_offsets [of "rb_files (with_offsets b)" "rb_files b" 0]
    by (simp add: romfs_placed_def romfs_fits_def with_offsets_same with_offsets_dir with_offsets_file)
qed

lemma placed_offset:
  assumes "romfs_placed b"
  shows "k < length (rb_dirs b) \<Longrightarrow> rd_entry_offset (rb_dirs b ! k) + 0x18 < 2 ^ 32"
    "k < length (rb_files b) \<Longrightarrow> rf_entry_offset (rb_files b ! k) + 0x20 < 2 ^ 32"
proof -
  show "rd_entry_offset (rb_dirs b ! k) + 0x18 < 2 ^ 32" if "k < length (rb_dirs b)"
    using table_offset_next [of k "length (rb_dirs b)" "dir_names b" "0x18"] that assms
    by (simp add: romfs_placed_def romfs_fits_def entry_size_def)
  show "rf_entry_offset (rb_files b ! k) + 0x20 < 2 ^ 32" if "k < length (rb_files b)"
    using table_offset_next [of k "length (rb_files b)" "file_names b" "0x20"] that assms
    by (simp add: romfs_placed_def romfs_fits_def entry_size_def)
qed

lemma placed_inj:
  assumes "romfs_placed b"
  shows "i < length (rb_dirs b) \<Longrightarrow> j < length (rb_dirs b) \<Longrightarrow>
      rd_entry_offset (rb_dirs b ! i) = rd_entry_offset (rb_dirs b ! j) \<longleftrightarrow> i = j"
    "i < length (rb_files b) \<Longrightarrow> j < length (rb_files b) \<Longrightarrow>
      rf_entry_offset (rb_files b ! i) = rf_entry_offset (rb_files b ! j) \<longleftrightarrow> i = j"
  using assms table_offset_inj [of "0x18" i "dir_names b" j] table_offset_inj [of "0x20" i "file_names b" j]
  by (auto simp: romfs_placed_def)

section \<open>The tables\<close>

definition dir_entry_of :: "romfs_builder \<Rightarrow> nat \<Rightarrow> romfs_dir_entry" where
  "dir_entry_of b k =
     (let d = rb_dirs b ! k in
      \<lparr>de_parent_offset = word_of_nat (rd_entry_offset (rb_dirs b ! rd_parent d)),
       de_sibling_offset = word_of_nat (find_sibling_dir b d),
       de_child_offset = word_of_nat (case rd_children d of [] \<Rightarrow> unat NO_ENTRY | c # _ \<Rightarrow> rd_entry_offset (rb_dirs b ! c)),
       de_file_offset = word_of_nat (case rd_files d of [] \<Rightarrow> unat NO_ENTRY | c # _ \<Rightarrow> rf_entry_offset (rb_files b ! c)),
       de_hash_sibling_offset = word_of_nat (rb_dir_hash_siblings b ! k),
       de_name_len = word_of_nat (length (rd_name d))\<rparr>)"

definition file_entry_of :: "romfs_builder \<Rightarrow> nat \<Rightarrow> romfs_file_entry" where
  "file_entry_of b k =
     (let f = rb_files b ! k in
      \<lparr>fe_parent_offset = word_of_nat (rd_entry_offset (rb_dirs b ! rf_parent f)),
       fe_sibling_offset = word_of_nat (find_sibling_file b f),
       fe_data_offset = word_of_nat (rf_data_offset f), fe_data_size = word_of_nat (length (rf_data f)),
       fe_hash_sibling_offset = word_of_nat (rb_file_hash_siblings b ! k),
       fe_name_len = word_of_nat (length (rf_name f))\<rparr>)"

lemma dir_record_eq: "dir_record b k (rb_dirs b ! k) = enc_romfs_dir_entry (dir_entry_of b k) @ rd_name (rb_dirs b ! k)"
  by (simp add: dir_record_def dir_entry_of_def enc_romfs_dir_entry_def le32n_def Let_def)

lemma file_record_eq: "file_record b k (rb_files b ! k) = enc_romfs_file_entry (file_entry_of b k) @ rf_name (rb_files b ! k)"
  by (simp add: file_record_def file_entry_of_def enc_romfs_file_entry_def le32n_def le64n_def Let_def)

lemma length_record_enc [simp]:
  "length (enc_romfs_dir_entry e) = 0x18" "length (enc_romfs_file_entry f) = 0x20"
  using romfs_dir_entry.enc_length [of e] romfs_file_entry.enc_length [of f] by simp_all

definition dir_table_of :: "romfs_builder \<Rightarrow> bytes" where
  "dir_table_of b = concat (map (\<lambda>k. padded (dir_record b k (rb_dirs b ! k))) [0..<length (rb_dirs b)])"

definition file_table_of :: "romfs_builder \<Rightarrow> bytes" where
  "file_table_of b = concat (map (\<lambda>k. padded (file_record b k (rb_files b ! k))) [0..<length (rb_files b)])"

lemma dir_names_upt: "map (\<lambda>k. length (rd_name (rb_dirs b ! k))) [0..<length (rb_dirs b)] = dir_names b"
  by (rule nth_equalityI) simp_all

lemma file_names_upt: "map (\<lambda>k. length (rf_name (rb_files b ! k))) [0..<length (rb_files b)] = file_names b"
  by (rule nth_equalityI) simp_all

lemma dir_record_length: "length (dir_record b k (rb_dirs b ! k)) = 0x18 + length (rd_name (rb_dirs b ! k))"
  by (simp add: dir_record_eq)

lemma file_record_length: "length (file_record b k (rb_files b ! k)) = 0x20 + length (rf_name (rb_files b ! k))"
  by (simp add: file_record_eq)

lemma length_dir_table_of: "length (dir_table_of b) = table_size 0x18 (dir_names b)"
proof -
  have "\<forall>k\<in>set [0..<length (rb_dirs b)]. length (dir_record b k (rb_dirs b ! k)) = 0x18 + length (rd_name (rb_dirs b ! k))"
    by (simp add: dir_record_length)
  from length_concat_padded [OF this] show ?thesis unfolding dir_table_of_def dir_names_upt by simp
qed

lemma length_file_table_of: "length (file_table_of b) = table_size 0x20 (file_names b)"
proof -
  have "\<forall>k\<in>set [0..<length (rb_files b)]. length (file_record b k (rb_files b ! k)) = 0x20 + length (rf_name (rb_files b ! k))"
    by (simp add: file_record_length)
  from length_concat_padded [OF this] show ?thesis unfolding file_table_of_def file_names_upt by simp
qed

lemma enumerate_upt: "enumerate 0 xs = map (\<lambda>k. (k, xs ! k)) [0..<length xs]"
  by (rule nth_equalityI) (simp_all add: nth_enumerate_eq)

lemma rfold_map: "rfold f s (map g xs) = rfold (\<lambda>s x. f s (g x)) s xs"
proof (induction xs arbitrary: s)
  case (Cons x xs)
  then show ?case by simp
qed simp

text \<open>A table ends on a multiple of four, so the padding of its last entry fits too.\<close>

lemma table_room:
  assumes "4 dvd fixed" "table_size fixed ns < 2 ^ 32"
  shows "table_size fixed ns + 3 < 2 ^ 32"
proof -
  have "4 dvd table_size fixed ns"
    using assms(1) by (induction ns) (simp_all add: table_offset_def entry_size_def)
  then obtain q where "table_size fixed ns = 4 * q" by blast
  with assms(2) show ?thesis by simp
qed

lemma build_tables_ok:
  assumes "romfs_fits b"
  shows "(build_dir_table b :: (bytes, 'e) result) = Ok (dir_table_of b)"
    "(build_file_table b :: (bytes, 'e) result) = Ok (file_table_of b)"
proof -
  have "table_size 0x18 (dir_names b) + 3 < 2 ^ 32" "table_size 0x20 (file_names b) + 3 < 2 ^ 32"
    using assms table_room [of "0x18" "dir_names b"] table_room [of "0x20" "file_names b"]
    by (simp_all add: romfs_fits_def)
  then have room: "length (dir_table_of b) + 3 < 2 ^ 32" "length (file_table_of b) + 3 < 2 ^ 32"
    by (simp_all add: length_dir_table_of length_file_table_of)
  have "(rfold (\<lambda>table k. push_record table (dir_record b k (rb_dirs b ! k))) [] [0..<length (rb_dirs b)] :: (bytes, 'e) result)
      = Ok ([] @ dir_table_of b)"
    unfolding dir_table_of_def
    by (rule push_records_ok) (use room(1) in \<open>simp_all flip: dir_table_of_def\<close>)
  then show "(build_dir_table b :: (bytes, 'e) result) = Ok (dir_table_of b)"
    by (simp add: build_dir_table_def enumerate_upt rfold_map)
  have "(rfold (\<lambda>table k. push_record table (file_record b k (rb_files b ! k))) [] [0..<length (rb_files b)] :: (bytes, 'e) result)
      = Ok ([] @ file_table_of b)"
    unfolding file_table_of_def
    by (rule push_records_ok) (use room(2) in \<open>simp_all flip: file_table_of_def\<close>)
  then show "(build_file_table b :: (bytes, 'e) result) = Ok (file_table_of b)"
    by (simp add: build_file_table_def enumerate_upt rfold_map)
qed

lemma concat_padded_upt:
  assumes "\<And>k. length (f k) = fixed + g k" "4 dvd fixed" "k < n"
  shows "\<exists>A B. concat (map (\<lambda>x. padded (f x)) [0..<n]) = A @ f k @ B \<and> length A = table_offset fixed (map g [0..<n]) k"
proof -
  have "\<forall>x\<in>set [0..<n]. length (f x) = fixed + g x" "k < length [0..<n]" using assms(1,3) by simp_all
  from concat_padded_nth [OF this(1) assms(2) this(2)] obtain A B where
    "concat (map (\<lambda>x. padded (f x)) [0..<n]) = A @ f ([0..<n] ! k) @ B" "length A = table_offset fixed (map g [0..<n]) k" .
  then show ?thesis using assms(3) by auto
qed

lemma dir_table_entry:
  assumes "romfs_placed b" "k < length (rb_dirs b)"
  shows "\<exists>A B. dir_table_of b = A @ enc_romfs_dir_entry (dir_entry_of b k) @ rd_name (rb_dirs b ! k) @ B
    \<and> length A = rd_entry_offset (rb_dirs b ! k)"
  using concat_padded_upt [of "\<lambda>k. dir_record b k (rb_dirs b ! k)" "0x18", OF dir_record_length _ assms(2)] assms
  unfolding dir_table_of_def dir_names_upt by (simp add: dir_record_eq romfs_placed_def)

lemma file_table_entry:
  assumes "romfs_placed b" "k < length (rb_files b)"
  shows "\<exists>A B. file_table_of b = A @ enc_romfs_file_entry (file_entry_of b k) @ rf_name (rb_files b ! k) @ B
    \<and> length A = rf_entry_offset (rb_files b ! k)"
  using concat_padded_upt [of "\<lambda>k. file_record b k (rb_files b ! k)" "0x20", OF file_record_length _ assms(2)] assms
  unfolding file_table_of_def file_names_upt by (simp add: file_record_eq romfs_placed_def)

text \<open>What the reader makes of the entries, whatever table base the errors are reported with.\<close>

lemma dir_entry_read:
  assumes "romfs_placed b" "k < length (rb_dirs b)"
  shows "romfs_entry_at dec_romfs_dir_entry 0x18 de_name_len too_small (dir_table_of b)
      (rd_entry_offset (rb_dirs b ! k)) base = Ok (dir_entry_of b k, str_or_empty (rd_name (rb_dirs b ! k)))"
proof -
  obtain A B where t: "dir_table_of b = A @ enc_romfs_dir_entry (dir_entry_of b k) @ rd_name (rb_dirs b ! k) @ B"
    "length A = rd_entry_offset (rb_dirs b ! k)"
    using dir_table_entry [OF assms] by blast
  have size: "length (dir_table_of b) < 2 ^ 32"
    using assms(1) by (simp add: length_dir_table_of romfs_placed_def romfs_fits_def)
  then have "length (rd_name (rb_dirs b ! k)) < 2 ^ 32" by (simp add: t(1))
  then have "unat (de_name_len (dir_entry_of b k)) = length (rd_name (rb_dirs b ! k))"
    by (simp add: dir_entry_of_def Let_def unat_of_nat)
  with size show ?thesis
    using romfs_entry_at_written [OF t(1), where dec = dec_romfs_dir_entry and name_len = de_name_len and sz = "0x18"
        and e = "dir_entry_of b k" and too_small = too_small and base = base]
    by (simp add: t(2) romfs_dir_entry.dec_enc usize_max_def)
qed

lemma file_entry_read:
  assumes "romfs_placed b" "k < length (rb_files b)"
  shows "romfs_entry_at dec_romfs_file_entry 0x20 fe_name_len too_small (file_table_of b)
      (rf_entry_offset (rb_files b ! k)) base = Ok (file_entry_of b k, str_or_empty (rf_name (rb_files b ! k)))"
proof -
  obtain A B where t: "file_table_of b = A @ enc_romfs_file_entry (file_entry_of b k) @ rf_name (rb_files b ! k) @ B"
    "length A = rf_entry_offset (rb_files b ! k)"
    using file_table_entry [OF assms] by blast
  have size: "length (file_table_of b) < 2 ^ 32"
    using assms(1) by (simp add: length_file_table_of romfs_placed_def romfs_fits_def)
  then have "length (rf_name (rb_files b ! k)) < 2 ^ 32" by (simp add: t(1))
  then have "unat (fe_name_len (file_entry_of b k)) = length (rf_name (rb_files b ! k))"
    by (simp add: file_entry_of_def Let_def unat_of_nat)
  with size show ?thesis
    using romfs_entry_at_written [OF t(1), where dec = dec_romfs_file_entry and name_len = fe_name_len and sz = "0x20"
        and e = "file_entry_of b k" and too_small = too_small and base = base]
    by (simp add: t(2) romfs_file_entry.dec_enc usize_max_def)
qed

section \<open>The image\<close>

definition romfs_body :: "romfs_builder \<Rightarrow> nat list \<Rightarrow> nat list \<Rightarrow> bytes" where
  "romfs_body b dht fht =
     (let header = write_header dht (dir_table_of b) fht (file_table_of b) (calculate_file_partition_size b);
          body = write_file_data (resize0 header 0x200) (rb_files b)
      in resize0 body (align64 (length body) 4))"

definition romfs_image :: "romfs_builder \<Rightarrow> nat list \<Rightarrow> nat list \<Rightarrow> bytes" where
  "romfs_image b dht fht =
     romfs_body b dht fht @ concat (map le32n dht) @ dir_table_of b @ concat (map le32n fht) @ file_table_of b"

definition romfs_header_of :: "romfs_builder \<Rightarrow> nat list \<Rightarrow> nat list \<Rightarrow> romfs_header" where
  "romfs_header_of b dht fht =
     (let dir_hash_offset = align_up (0x200 + calculate_file_partition_size b) 4;
          dir_table_offset = dir_hash_offset + length dht * 4;
          file_hash_offset = dir_table_offset + length (dir_table_of b);
          file_table_offset = file_hash_offset + length fht * 4
      in \<lparr>rh_header_size = 0x50,
          rh_dir_hash_table_offset = word_of_nat dir_hash_offset, rh_dir_hash_table_size = word_of_nat (length dht * 4),
          rh_dir_meta_table_offset = word_of_nat dir_table_offset,
          rh_dir_meta_table_size = word_of_nat (length (dir_table_of b)),
          rh_file_hash_table_offset = word_of_nat file_hash_offset, rh_file_hash_table_size = word_of_nat (length fht * 4),
          rh_file_meta_table_offset = word_of_nat file_table_offset,
          rh_file_meta_table_size = word_of_nat (length (file_table_of b)), rh_file_data_offset = 0x200\<rparr>)"

lemma write_header_eq:
  "write_header dht (dir_table_of b) fht (file_table_of b) (calculate_file_partition_size b)
    = enc_romfs_header (romfs_header_of b dht fht)"
  by (simp add: write_header_def romfs_header_of_def enc_romfs_header_def le64n_def align64_def
      ROMFS_FILEPARTITION_OFS_def Let_def)

lemma length_enc_romfs_header [simp]: "length (enc_romfs_header h) = 0x50"
  using romfs_header.enc_length [of h] by simp

lemma length_concat_le32n [simp]: "length (concat (map le32n ns)) = length ns * 4"
  by (induction ns) (simp_all add: le32n_def)

lemma romfs_body_eq:
  "romfs_body b dht fht =
     (let body = write_file_data (enc_romfs_header (romfs_header_of b dht fht) @ zeros 0x1B0) (rb_files b)
      in body @ zeros (align_up (0x200 + calculate_file_partition_size b) 4 - length body))"
  and length_romfs_body: "length (romfs_body b dht fht) = align_up (0x200 + calculate_file_partition_size b) 4"
proof -
  let ?h = "enc_romfs_header (romfs_header_of b dht fht)"
  have r: "resize0 ?h 0x200 = ?h @ zeros 0x1B0" by (simp add: resize0_grow)
  have "length (write_file_data (?h @ zeros 0x1B0) (rb_files b)) = 0x200 + calculate_file_partition_size b"
    using write_file_data_spec [of "?h @ zeros 0x1B0" "0x200" 0 "rb_files b"]
    by (simp add: calculate_file_partition_size_def)
  then show "romfs_body b dht fht =
     (let body = write_file_data (?h @ zeros 0x1B0) (rb_files b)
      in body @ zeros (align_up (0x200 + calculate_file_partition_size b) 4 - length body))"
    "length (romfs_body b dht fht) = align_up (0x200 + calculate_file_partition_size b) 4"
    unfolding romfs_body_def write_header_eq Let_def r
    by (simp_all add: align64_def resize0_grow align_up_ge)
qed

lemma romfs_body_header: "\<exists>rest. romfs_body b dht fht = enc_romfs_header (romfs_header_of b dht fht) @ rest"
  using write_file_data_append [of "enc_romfs_header (romfs_header_of b dht fht) @ zeros 0x1B0" "rb_files b"]
  by (auto simp: romfs_body_eq Let_def)

definition romfs_view :: "romfs_builder \<Rightarrow> nat list \<Rightarrow> nat list \<Rightarrow> romfs" where
  "romfs_view b dht fht = \<lparr>ro_bytes = romfs_image b dht fht, ro_header = romfs_header_of b dht fht\<rparr>"

text \<open>The words of the header are the numbers, in an image that fits in memory.\<close>

lemma romfs_header_fields:
  assumes "length (romfs_image b dht fht) \<le> usize_max"
  defines "o1 \<equiv> length (romfs_body b dht fht)" and "n \<equiv> length (dir_table_of b)" and "m \<equiv> length (file_table_of b)"
  shows "unat (rh_dir_hash_table_offset (romfs_header_of b dht fht)) = o1"
    "unat (rh_dir_hash_table_size (romfs_header_of b dht fht)) = length dht * 4"
    "unat (rh_dir_meta_table_offset (romfs_header_of b dht fht)) = o1 + length dht * 4"
    "unat (rh_dir_meta_table_size (romfs_header_of b dht fht)) = n"
    "unat (rh_file_hash_table_offset (romfs_header_of b dht fht)) = o1 + length dht * 4 + n"
    "unat (rh_file_hash_table_size (romfs_header_of b dht fht)) = length fht * 4"
    "unat (rh_file_meta_table_offset (romfs_header_of b dht fht)) = o1 + length dht * 4 + n + length fht * 4"
    "unat (rh_file_meta_table_size (romfs_header_of b dht fht)) = m"
    "unat (rh_file_data_offset (romfs_header_of b dht fht)) = 0x200"
    "unat (rh_header_size (romfs_header_of b dht fht)) = 0x50"
proof -
  have "o1 + length dht * 4 + n + length fht * 4 + m < 2 ^ 64"
    using assms by (simp add: romfs_image_def usize_max_def)
  then show "unat (rh_dir_hash_table_offset (romfs_header_of b dht fht)) = o1"
    "unat (rh_dir_hash_table_size (romfs_header_of b dht fht)) = length dht * 4"
    "unat (rh_dir_meta_table_offset (romfs_header_of b dht fht)) = o1 + length dht * 4"
    "unat (rh_dir_meta_table_size (romfs_header_of b dht fht)) = n"
    "unat (rh_file_hash_table_offset (romfs_header_of b dht fht)) = o1 + length dht * 4 + n"
    "unat (rh_file_hash_table_size (romfs_header_of b dht fht)) = length fht * 4"
    "unat (rh_file_meta_table_offset (romfs_header_of b dht fht)) = o1 + length dht * 4 + n + length fht * 4"
    "unat (rh_file_meta_table_size (romfs_header_of b dht fht)) = m"
    "unat (rh_file_data_offset (romfs_header_of b dht fht)) = 0x200"
    "unat (rh_header_size (romfs_header_of b dht fht)) = 0x50"
    unfolding romfs_header_of_def Let_def length_romfs_body [symmetric, of b dht fht] o1_def n_def m_def
    by (simp_all add: unat_u64_of_nat del: of_nat_add of_nat_mult)
qed

lemma romfs_image_length:
  "length (romfs_image b dht fht) =
     length (romfs_body b dht fht) + length dht * 4 + length (dir_table_of b) + length fht * 4 + length (file_table_of b)"
  by (simp add: romfs_image_def)

lemma romfs_view_parses:
  assumes "length (romfs_image b dht fht) \<le> usize_max"
  shows "romfs_try_from_bytes (romfs_image b dht fht) = Ok (romfs_view b dht fht)"
proof -
  obtain rest where rest: "romfs_body b dht fht = enc_romfs_header (romfs_header_of b dht fht) @ rest"
    using romfs_body_header by blast
  then have dec: "dec_romfs_header (romfs_image b dht fht) = romfs_header_of b dht fht"
    by (simp add: romfs_image_def romfs_header.dec_enc)
  note f = romfs_header_fields [OF assms]
  have len: "0x200 \<le> length (romfs_body b dht fht)"
    unfolding length_romfs_body using align_up4_bound [of "0x200 + calculate_file_partition_size b"] by simp
  show ?thesis
    using len assms unfolding romfs_try_from_bytes_def romfs_image_length
    by (simp add: run_simps dec f romfs_image_length romfs_view_def Let_def)
qed

lemma romfs_view_tables:
  assumes "length (romfs_image b dht fht) \<le> usize_max"
  shows "(dir_meta_table (romfs_view b dht fht) :: (bytes, 'e) result) = Ok (dir_table_of b)"
    "(file_meta_table (romfs_view b dht fht) :: (bytes, 'e) result) = Ok (file_table_of b)"
  using assms romfs_header_fields [OF assms] unfolding romfs_image_length
  by (simp_all add: dir_meta_table_def file_meta_table_def romfs_view_def Let_def run_simps romfs_image_length)
    (simp_all add: romfs_image_def)

text \<open>The views of directory and file \<open>k\<close>; their names come back when they are UTF-8.\<close>

definition dir_view :: "romfs_builder \<Rightarrow> nat \<Rightarrow> romfs_dir" where
  "dir_view b k = \<lparr>rdv_entry = dir_entry_of b k, rdv_name = str_or_empty (rd_name (rb_dirs b ! k))\<rparr>"

definition file_view :: "romfs_builder \<Rightarrow> nat \<Rightarrow> romfs_file" where
  "file_view b k = \<lparr>rfv_entry = file_entry_of b k, rfv_name = str_or_empty (rf_name (rb_files b ! k))\<rparr>"

lemma romfs_view_entries:
  assumes "length (romfs_image b dht fht) \<le> usize_max" "romfs_placed b"
  shows "k < length (rb_dirs b) \<Longrightarrow>
      romfs_dir_from_offset (romfs_view b dht fht) (word_of_nat (rd_entry_offset (rb_dirs b ! k))) base = Ok (dir_view b k)"
    "k < length (rb_files b) \<Longrightarrow>
      romfs_file_from_offset (romfs_view b dht fht) (word_of_nat (rf_entry_offset (rb_files b ! k))) base = Ok (file_view b k)"
    "romfs_root_dir (romfs_view b dht fht) = Ok (dir_view b 0)"
proof -
  have n: "0 < length (rb_dirs b)" using assms(2) romfs_wf_root by (auto simp: romfs_placed_def)
  have zero: "rd_entry_offset (rb_dirs b ! 0) = 0" using assms(2) n by (simp add: romfs_placed_def)
  show "romfs_dir_from_offset (romfs_view b dht fht) (word_of_nat (rd_entry_offset (rb_dirs b ! k))) base = Ok (dir_view b k)"
    if "k < length (rb_dirs b)"
    using dir_entry_read [OF assms(2) that, of Open_BufferTooSmall base] placed_offset(1) [OF assms(2) that]
    by (simp add: romfs_dir_from_offset_def romfs_view_tables [OF assms(1)] unat_of_nat dir_view_def)
  show "romfs_file_from_offset (romfs_view b dht fht) (word_of_nat (rf_entry_offset (rb_files b ! k))) base = Ok (file_view b k)"
    if "k < length (rb_files b)"
    using file_entry_read [OF assms(2) that, of Open_BufferTooSmall base] placed_offset(2) [OF assms(2) that]
    by (simp add: romfs_file_from_offset_def romfs_view_tables [OF assms(1)] unat_of_nat file_view_def)
  show "romfs_root_dir (romfs_view b dht fht) = Ok (dir_view b 0)"
    using dir_entry_read [OF assms(2) n, of RootDirError] zero
    by (simp add: romfs_root_dir_def romfs_dir_from_offset_for_root_def romfs_view_tables [OF assms(1)] dir_view_def)
qed

text \<open>The contents of every file come back.\<close>

lemma romfs_view_data:
  assumes "length (romfs_image b dht fht) \<le> usize_max" "romfs_placed b" "k < length (rb_files b)"
  shows "romfs_file_data (romfs_view b dht fht) (file_view b k) = Ok (rf_data (rb_files b ! k))"
    "romfs_file_size (file_view b k) = length (rf_data (rb_files b ! k))"
proof -
  let ?buf = "enc_romfs_header (romfs_header_of b dht fht) @ zeros 0x1B0"
  let ?w = "write_file_data ?buf (rb_files b)" and ?d = "rf_data (rb_files b ! k)"
  let ?off = "rf_data_offset (rb_files b ! k)"
  have off: "?off = rf_data_offset (place_file_data 0 (rb_files b) ! k)"
    using assms(2,3) unfolding romfs_placed_def by (metis length_place_file_data nth_map)
  have w: "0x200 + ?off + length ?d \<le> length ?w" "sub_bytes ?w (0x200 + ?off) (length ?d) = ?d"
    using write_file_data_spec [of ?buf "0x200" 0 "rb_files b"] assms(3) by (auto simp: Let_def off)
  obtain rest where img: "romfs_image b dht fht = ?w @ rest"
    by (simp add: romfs_image_def romfs_body_eq Let_def)
  have fits: "0x200 + ?off + length ?d \<le> length (romfs_image b dht fht)"
    using w(1) by (simp add: img)
  have slice: "take (length ?d) (drop (0x200 + ?off) (romfs_image b dht fht)) = ?d"
    using w by (simp add: img sub_bytes_def)
  have u: "unat (word_of_nat ?off :: u64) = ?off" "unat (word_of_nat (length ?d) :: u64) = length ?d"
    using fits assms(1) by (simp_all add: unat_u64_of_nat usize_max_def)
  show "romfs_file_size (file_view b k) = length ?d"
    by (simp add: romfs_file_size_def file_view_def file_entry_of_def Let_def u)
  show "romfs_file_data (romfs_view b dht fht) (file_view b k) = Ok ?d"
    using fits slice assms(1) romfs_header_fields(9) [OF assms(1)]
    by (simp add: romfs_file_data_def romfs_file_slice_def file_view_def file_entry_of_def romfs_view_def u
        run_simps Let_def)
qed

section \<open>What \<open>build\<close> returns\<close>

text \<open>The builder after \<^verbatim>\<open>generate_*_hash_table\<close>, with the two tables.\<close>

definition romfs_hashed :: "romfs_builder \<Rightarrow> romfs_builder \<times> nat list \<times> nat list" where
  "romfs_hashed b =
     (let b = b\<lparr>rb_dir_hash_siblings := replicate (length (rb_dirs b)) (unat NO_ENTRY),
                rb_file_hash_siblings := replicate (length (rb_files b)) (unat NO_ENTRY)\<rparr>;
          (b, dht) = generate_dir_hash_table b;
          (b, fht) = generate_file_hash_table b
      in (b, dht, fht))"

lemma generate_keeps:
  "generate_dir_hash_table b = (b', t) \<Longrightarrow>
     rb_dirs b' = rb_dirs b \<and> rb_files b' = rb_files b \<and> rb_file_hash_siblings b' = rb_file_hash_siblings b"
  "generate_file_hash_table b = (b', t) \<Longrightarrow>
     rb_dirs b' = rb_dirs b \<and> rb_files b' = rb_files b \<and> rb_dir_hash_siblings b' = rb_dir_hash_siblings b"
  by (auto simp: generate_dir_hash_table_def generate_file_hash_table_def Let_def split: prod.splits)

lemma romfs_hashed_keeps:
  assumes "romfs_hashed b = (b', dht, fht)"
  shows "rb_dirs b' = rb_dirs b" "rb_files b' = rb_files b"
  using assms generate_keeps by (auto simp: romfs_hashed_def Let_def split: prod.splits)

lemma romfs_fits_cong: "rb_dirs b' = rb_dirs b \<Longrightarrow> rb_files b' = rb_files b \<Longrightarrow> romfs_fits b' = romfs_fits b"
  by (simp add: romfs_fits_def dir_names_def file_names_def)

lemma romfs_placed_cong: "rb_dirs b' = rb_dirs b \<Longrightarrow> rb_files b' = rb_files b \<Longrightarrow> romfs_placed b' = romfs_placed b"
  using romfs_fits_cong [of b' b] by (simp add: romfs_placed_def romfs_wf_def dir_names_def file_names_def)

lemma romfs_build_ok:
  assumes files: "rb_files b \<noteq> []" and fits: "romfs_fits (romfs_arranged b)"
    and hashed: "romfs_hashed (with_offsets (romfs_arranged b)) = (b', dht, fht)"
  shows "romfs_build b = Ok (romfs_image b' dht fht)"
proof -
  let ?b = "with_offsets (romfs_arranged b)"
  have calc: "(calculate_offsets (romfs_arranged b) :: (romfs_builder, romfs_build_error) result) = Ok ?b"
    by (rule calculate_offsets_ok [OF fits])
  have "romfs_fits ?b" using fits by (simp add: romfs_fits_def with_offsets_same)
  then have "romfs_fits b'"
    using romfs_fits_cong [OF romfs_hashed_keeps [OF hashed]] by simp
  note tables = build_tables_ok [OF this, where 'e = romfs_build_error]
  show ?thesis
    using files hashed unfolding romfs_build_def romfs_arranged_def [symmetric] Let_def
    by (simp add: calc tables romfs_hashed_def Let_def romfs_image_def romfs_body_def ROMFS_FILEPARTITION_OFS_def
        split: prod.splits)
qed

text \<open>Fitting depends on the names only, not on the order of the entries.\<close>

lemma table_size_mset: "mset ns = mset ns' \<Longrightarrow> table_size fixed ns = table_size fixed ns'"
  by (simp add: table_offset_def) (metis mset_map sum_mset_sum_list)

lemma arranged_names:
  "mset (dir_names (romfs_arranged b)) = mset (dir_names b)" "mset (file_names (romfs_arranged b)) = mset (file_names b)"
proof -
  have "mset (map (\<lambda>i. length (rd_name (rb_dirs b ! i))) (dir_order b)) = mset (dir_names b)"
    by (simp add: dir_order_def flip: dir_names_upt)
  then show "mset (dir_names (romfs_arranged b)) = mset (dir_names b)"
    by (simp add: romfs_arranged_def sort_children_eq sort_entries_by_path_eq dir_names_def renamed_dir_def comp_def)
  have "mset (map (\<lambda>k. length (rf_name (rb_files b ! k))) (file_order b)) = mset (file_names b)"
    by (simp add: file_order_def flip: file_names_upt)
  then show "mset (file_names (romfs_arranged b)) = mset (file_names b)"
    by (simp add: romfs_arranged_def sort_entries_by_path_eq file_names_def renamed_file_def comp_def)
qed

lemma romfs_fits_arranged: "romfs_fits (romfs_arranged b) \<longleftrightarrow> romfs_fits b"
  using table_size_mset [OF arranged_names(1), where fixed = "0x18"] table_size_mset [OF arranged_names(2), where fixed = "0x20"]
  by (simp add: romfs_fits_def romfs_arranged_contents)

lemma romfs_contents_cong: "rb_files b' = rb_files b \<Longrightarrow> romfs_contents b' = romfs_contents b"
  by (simp add: romfs_contents_def)

lemma with_offsets_contents [simp]: "romfs_contents (with_offsets b) = romfs_contents b"
  by (rule nth_equalityI) (simp_all add: romfs_contents_def with_offsets_same with_offsets_file)

text \<open>Everything a reader needs to know about a build that succeeds.\<close>

lemma romfs_build_view:
  assumes wf: "romfs_wf b" and files: "rb_files b \<noteq> []" and fits: "romfs_fits b"
  obtains b' dht fht where "romfs_build b = Ok (romfs_image b' dht fht)" "romfs_placed b'" "romfs_wf b'"
    "romfs_contents b' = sort_key fst (romfs_contents b)"
    "set (map rd_path (rb_dirs b')) = set (map rd_path (rb_dirs b))" "romfs_canonical b'"
    "romfs_hashed (with_offsets (romfs_arranged b)) = (b', dht, fht)"
proof -
  let ?b = "with_offsets (romfs_arranged b)"
  obtain b' dht fht where h: "romfs_hashed ?b = (b', dht, fht)" by (cases "romfs_hashed ?b")
  note same = romfs_hashed_keeps [OF h]
  note can = romfs_arranged_canonical [OF wf]
  have placed: "romfs_placed ?b"
    by (rule with_offsets_placed) (use can fits in \<open>simp_all add: romfs_canonical_def romfs_fits_arranged\<close>)
  then have p': "romfs_placed b'" using romfs_placed_cong [OF same] by simp
  have paths: "map rd_path (rb_dirs ?b) = map rd_path (rb_dirs (romfs_arranged b))"
    "map rf_path (rb_files ?b) = map rf_path (rb_files (romfs_arranged b))"
    by (rule nth_equalityI; simp add: with_offsets_same with_offsets_dir with_offsets_file)+
  have "romfs_canonical ?b"
  proof -
    have "map (\<lambda>c. rd_name (rb_dirs ?b ! c)) (rd_children (rb_dirs ?b ! i))
        = map (\<lambda>c. rd_name (rb_dirs (romfs_arranged b) ! c)) (rd_children (rb_dirs (romfs_arranged b) ! i))"
      "map (\<lambda>k. rf_name (rb_files ?b ! k)) (rd_files (rb_dirs ?b ! i))
        = map (\<lambda>k. rf_name (rb_files (romfs_arranged b) ! k)) (rd_files (rb_dirs (romfs_arranged b) ! i))"
      if i: "i < length (rb_dirs (romfs_arranged b))" for i
      using romfs_wf_lists(3,4) [OF can [unfolded romfs_canonical_def, THEN conjunct1] i]
      by (auto simp: with_offsets_dir with_offsets_file i)
    then show ?thesis
      using can placed unfolding romfs_canonical_def romfs_placed_def paths
      by (simp add: with_offsets_same)
  qed
  then have c': "romfs_canonical b'" using same by (simp add: romfs_canonical_def romfs_wf_def)
  show ?thesis
  proof (rule that [OF romfs_build_ok [OF files _ h] p' _ _ _ c' h])
    show "romfs_fits (romfs_arranged b)" using fits by (simp add: romfs_fits_arranged)
    show "romfs_wf b'" using p' by (simp add: romfs_placed_def)
    show "romfs_contents b' = sort_key fst (romfs_contents b)"
      using romfs_contents_cong [OF same(2)] by (simp add: romfs_arranged_contents)
    show "set (map rd_path (rb_dirs b')) = set (map rd_path (rb_dirs b))"
      unfolding same(1) paths romfs_arranged_contents(2) by simp
  qed
qed

end
