(* ===== verification/Romfs_Lookup.thy ===== *)
theory Romfs_Lookup
  imports Romfs_Built
begin

text \<open>
  Lookups in a built image: the sibling chains run through the children and files of a directory
  in name order, the walks along them end, and a path resolves to the file added under it.
\<close>

section \<open>Sibling chains\<close>

lemma find_window:
  assumes "xs = before @ c # ys" "inj_on f (set xs)" "distinct xs"
  shows "find (\<lambda>w. f (fst w) = f c) (windows2 xs) = (case ys of [] \<Rightarrow> None | y # _ \<Rightarrow> Some (c, y))"
  using assms
proof (induction before arbitrary: xs)
  case Nil
  then show ?case by (cases ys) (simp_all add: windows2_def)
next
  case (Cons a before)
  have ne: "f a \<noteq> f c"
    using Cons.prems inj_onD [OF Cons.prems(2), of a c] by auto
  have ih: "find (\<lambda>w. f (fst w) = f c) (windows2 (before @ c # ys)) = (case ys of [] \<Rightarrow> None | y # _ \<Rightarrow> Some (c, y))"
    by (rule Cons.IH [OF refl]) (use Cons.prems in \<open>auto simp: inj_on_def\<close>)
  have "windows2 xs = (a, hd (before @ c # ys)) # windows2 (before @ c # ys)"
    unfolding Cons.prems(1) by (cases before) (simp_all add: windows2_def)
  then show ?case using ih ne by simp
qed

definition dir_head :: "romfs_builder \<Rightarrow> nat list \<Rightarrow> u32" where
  "dir_head b cs = (case cs of [] \<Rightarrow> NO_ENTRY | c # _ \<Rightarrow> word_of_nat (rd_entry_offset (rb_dirs b ! c)))"

definition file_head :: "romfs_builder \<Rightarrow> nat list \<Rightarrow> u32" where
  "file_head b ks = (case ks of [] \<Rightarrow> NO_ENTRY | k # _ \<Rightarrow> word_of_nat (rf_entry_offset (rb_files b ! k)))"

lemma NO_ENTRY_word [simp]: "word_of_nat (unat NO_ENTRY) = NO_ENTRY"
  by simp

lemma offset_not_NO_ENTRY:
  assumes "n + m < 2 ^ 32" "24 \<le> m"
  shows "(word_of_nat n :: u32) \<noteq> NO_ENTRY"
proof
  assume "(word_of_nat n :: u32) = NO_ENTRY"
  then have "unat (word_of_nat n :: u32) = 0xFFFFFFFF" by (simp add: NO_ENTRY_def)
  moreover have "unat (word_of_nat n :: u32) = n" using assms by (simp add: unat_of_nat)
  ultimately show False using assms by simp
qed

lemma dir_entry_heads:
  "de_child_offset (dir_entry_of b k) = dir_head b (rd_children (rb_dirs b ! k))"
  "de_file_offset (dir_entry_of b k) = file_head b (rd_files (rb_dirs b ! k))"
  by (simp_all add: dir_entry_of_def dir_head_def file_head_def Let_def split: list.split)

lemma dir_sibling:
  assumes p: "romfs_placed b" and i: "i < length (rb_dirs b)" and cs: "rd_children (rb_dirs b ! i) = before @ c # ys"
  shows "de_sibling_offset (dir_entry_of b c) = dir_head b ys"
proof -
  have wf: "romfs_wf b" using p by (simp add: romfs_placed_def)
  note l = romfs_wf_lists [OF wf i]
  have c: "c < length (rb_dirs b)" "rd_parent (rb_dirs b ! c) = i" using l(3) [of c] cs by auto
  have "inj_on (\<lambda>c. rd_entry_offset (rb_dirs b ! c)) (set (rd_children (rb_dirs b ! i)))"
    using placed_inj(1) [OF p] l(3) by (auto simp: inj_on_def)
  from find_window [OF cs this l(1)] show ?thesis
    by (simp add: dir_entry_of_def find_sibling_dir_def c Let_def dir_head_def split: list.split)
qed

lemma file_sibling:
  assumes p: "romfs_placed b" and i: "i < length (rb_dirs b)" and ks: "rd_files (rb_dirs b ! i) = before @ k # ys"
  shows "fe_sibling_offset (file_entry_of b k) = file_head b ys"
proof -
  have wf: "romfs_wf b" using p by (simp add: romfs_placed_def)
  note l = romfs_wf_lists [OF wf i]
  have k: "k < length (rb_files b)" "rf_parent (rb_files b ! k) = i" using l(4) [of k] ks by auto
  have "inj_on (\<lambda>k. rf_entry_offset (rb_files b ! k)) (set (rd_files (rb_dirs b ! i)))"
    using placed_inj(2) [OF p] l(4) by (auto simp: inj_on_def)
  from find_window [OF ks this l(2)] show ?thesis
    by (simp add: file_entry_of_def find_sibling_file_def k Let_def file_head_def split: list.split)
qed

section \<open>Searching a directory\<close>

text \<open>Names the builder was given are strings, so they come back as they are.\<close>

definition romfs_utf8 :: "romfs_builder \<Rightarrow> bool" where
  "romfs_utf8 b \<longleftrightarrow> (\<forall>d\<in>set (rb_dirs b). utf8_valid (rd_name d)) \<and> (\<forall>f\<in>set (rb_files b). utf8_valid (rf_name f))"

lemma view_names:
  assumes "romfs_utf8 b"
  shows "k < length (rb_dirs b) \<Longrightarrow> rdv_name (dir_view b k) = rd_name (rb_dirs b ! k)"
    "k < length (rb_files b) \<Longrightarrow> rfv_name (file_view b k) = rf_name (rb_files b ! k)"
  using assms by (simp_all add: romfs_utf8_def dir_view_def file_view_def str_or_empty_def)

lemma view_entries [simp]:
  "rdv_entry (dir_view b k) = dir_entry_of b k" "rfv_entry (file_view b k) = file_entry_of b k"
  by (simp_all add: dir_view_def file_view_def)

lemma find_dir_chain:
  assumes len: "length (romfs_image b dht fht) \<le> usize_max" and p: "romfs_placed b" and u: "romfs_utf8 b"
    and i: "i < length (rb_dirs b)"
  shows "rd_children (rb_dirs b ! i) = before @ cs \<Longrightarrow>
    romfs_find_dir_from (romfs_view b dht fht) base n (dir_head b cs) =
      Some (case find (\<lambda>c. rd_name (rb_dirs b ! c) = n) cs of
              Some c \<Rightarrow> Ok (dir_view b c) | None \<Rightarrow> Err Open_DirNotFound)"
proof (induction cs arbitrary: before)
  case Nil
  show ?case by (subst romfs_find_dir_from.simps) (simp add: dir_head_def)
next
  case (Cons c cs)
  have wf: "romfs_wf b" using p by (simp add: romfs_placed_def)
  have c: "c < length (rb_dirs b)" using romfs_wf_lists(3) [OF wf i, of c] Cons.prems by simp
  have "dir_head b (c # cs) \<noteq> NO_ENTRY"
    using offset_not_NO_ENTRY [OF placed_offset(1) [OF p c]] by (simp add: dir_head_def)
  moreover have "romfs_dir_from_offset (romfs_view b dht fht) (dir_head b (c # cs)) base = Ok (dir_view b c)"
    using romfs_view_entries(1) [OF len p c] by (simp add: dir_head_def)
  moreover have "romfs_find_dir_from (romfs_view b dht fht) base n (dir_head b cs) =
      Some (case find (\<lambda>c. rd_name (rb_dirs b ! c) = n) cs of
              Some c \<Rightarrow> Ok (dir_view b c) | None \<Rightarrow> Err Open_DirNotFound)"
    by (rule Cons.IH [of "before @ [c]"]) (simp add: Cons.prems)
  ultimately show ?case
    using dir_sibling [OF p i Cons.prems] view_names(1) [OF u c]
    by (subst romfs_find_dir_from.simps) simp
qed

lemma find_file_chain:
  assumes len: "length (romfs_image b dht fht) \<le> usize_max" and p: "romfs_placed b" and u: "romfs_utf8 b"
    and i: "i < length (rb_dirs b)"
  shows "rd_files (rb_dirs b ! i) = before @ ks \<Longrightarrow>
    romfs_find_file_from (romfs_view b dht fht) base n (file_head b ks) =
      Some (case find (\<lambda>k. rf_name (rb_files b ! k) = n) ks of
              Some k \<Rightarrow> Ok (file_view b k) | None \<Rightarrow> Err Open_FileNotFound)"
proof (induction ks arbitrary: before)
  case Nil
  show ?case by (subst romfs_find_file_from.simps) (simp add: file_head_def)
next
  case (Cons k ks)
  have wf: "romfs_wf b" using p by (simp add: romfs_placed_def)
  have k: "k < length (rb_files b)" using romfs_wf_lists(4) [OF wf i, of k] Cons.prems by simp
  have "file_head b (k # ks) \<noteq> NO_ENTRY"
    using offset_not_NO_ENTRY [OF placed_offset(2) [OF p k]] by (simp add: file_head_def)
  moreover have "romfs_file_from_offset (romfs_view b dht fht) (file_head b (k # ks)) base = Ok (file_view b k)"
    using romfs_view_entries(2) [OF len p k] by (simp add: file_head_def)
  moreover have "romfs_find_file_from (romfs_view b dht fht) base n (file_head b ks) =
      Some (case find (\<lambda>k. rf_name (rb_files b ! k) = n) ks of
              Some k \<Rightarrow> Ok (file_view b k) | None \<Rightarrow> Err Open_FileNotFound)"
    by (rule Cons.IH [of "before @ [k]"]) (simp add: Cons.prems)
  ultimately show ?case
    using file_sibling [OF p i Cons.prems] view_names(2) [OF u k]
    by (subst romfs_find_file_from.simps) simp
qed

section \<open>Resolving a path\<close>

text \<open>Directories are closed upwards.\<close>

lemma dir_paths_closed:
  assumes wf: "romfs_wf b"
  shows "\<forall>c\<in>set cs. 0x2F \<notin> set c \<Longrightarrow> p @ path_of cs \<in> set (map rd_path (rb_dirs b)) \<Longrightarrow>
    p \<in> set (map rd_path (rb_dirs b))"
proof (induction cs rule: rev_induct)
  case (snoc c cs)
  then obtain j where j: "j < length (rb_dirs b)" "rd_path (rb_dirs b ! j) = (p @ path_of cs) @ 0x2F # c"
    by (auto simp: in_set_conv_nth)
  then have "j \<noteq> 0" using romfs_wf_root(3) [OF wf] by (metis Nil_is_append_conv list.distinct(1))
  then have d: "rd_parent (rb_dirs b ! j) < length (rb_dirs b)" "0x2F \<notin> set (rd_name (rb_dirs b ! j))"
    "rd_path (rb_dirs b ! rd_parent (rb_dirs b ! j)) @ 0x2F # rd_name (rb_dirs b ! j) = (p @ path_of cs) @ 0x2F # c"
    using romfs_wf_dir [OF wf j(1)] j(2) by (simp_all add: name_ok_def)
  have "p @ path_of cs \<in> set (map rd_path (rb_dirs b))"
    using last_slash_unique [OF d(3,2)] snoc.prems(1) d(1) by (metis last_in_set last_snoc append_is_Nil_conv list.distinct(1) length_map nth_map nth_mem)
  with snoc show ?case by simp
qed simp

text \<open>
  What a lookup of the components \<open>cs\<close> from the directory with path \<open>p\<close> amounts to: is there a
  directory under all but the last, and is there a file under all of them?
\<close>

definition romfs_lookup :: "romfs_builder \<Rightarrow> bytes \<Rightarrow> bytes list \<Rightarrow> (romfs_file, romfs_open_error) result" where
  "romfs_lookup b p cs =
     (if p @ path_of (butlast cs) \<notin> set (map rd_path (rb_dirs b)) then Err Open_DirNotFound
      else case find (\<lambda>k. rf_path (rb_files b ! k) = p @ path_of cs) [0..<length (rb_files b)] of
             Some k \<Rightarrow> Ok (file_view b k) | None \<Rightarrow> Err Open_FileNotFound)"

lemma find_unique:
  assumes "x \<in> set xs" "\<And>y. y \<in> set xs \<Longrightarrow> P y \<longleftrightarrow> y = x"
  shows "find P xs = Some x"
proof (cases "find P xs")
  case None
  then show ?thesis using assms by (auto simp: find_None_iff)
next
  case (Some y)
  then have "P y" "y \<in> set xs" by (auto simp: find_Some_iff)
  with Some assms(2) show ?thesis by simp
qed

lemma find_child:
  assumes wf: "romfs_wf b" and i: "i < length (rb_dirs b)" and n: "0x2F \<notin> set n"
    and j: "j < length (rb_dirs b)" "rd_path (rb_dirs b ! j) = rd_path (rb_dirs b ! i) @ 0x2F # n"
  shows "find (\<lambda>c. rd_name (rb_dirs b ! c) = n) (rd_children (rb_dirs b ! i)) = Some j"
proof -
  have "rd_path (rb_dirs b ! i) @ 0x2F # n \<in> set (map rd_path (rb_dirs b))"
    using j by (metis length_map nth_map nth_mem)
  with romfs_child_path [OF wf i n] obtain c where
    c: "c \<in> set (rd_children (rb_dirs b ! i))" "rd_name (rb_dirs b ! c) = n" by blast
  have path: "rd_path (rb_dirs b ! c') = rd_path (rb_dirs b ! i) @ 0x2F # rd_name (rb_dirs b ! c')"
    "c' < length (rb_dirs b)" if "c' \<in> set (rd_children (rb_dirs b ! i))" for c'
  proof -
    have c': "0 < c'" "c' < length (rb_dirs b)" "rd_parent (rb_dirs b ! c') = i"
      using romfs_wf_lists(3) [OF wf i, of c'] that by blast+
    show "rd_path (rb_dirs b ! c') = rd_path (rb_dirs b ! i) @ 0x2F # rd_name (rb_dirs b ! c')"
      using romfs_wf_dir(3) [OF wf c'(2,1)] unfolding c'(3) .
    show "c' < length (rb_dirs b)" by (rule c'(2))
  qed
  have "c = j"
    by (rule romfs_wf_inj [OF wf path(2) [OF c(1)] j(1)]) (simp only: path(1) [OF c(1)] c(2) j(2))
  moreover have "rd_name (rb_dirs b ! c') = n \<longleftrightarrow> c' = c" if "c' \<in> set (rd_children (rb_dirs b ! i))" for c'
    using inj_onD [OF romfs_wf_names(1) [OF wf i] _ that c(1)] c(2) by auto
  then have "find (\<lambda>c. rd_name (rb_dirs b ! c) = n) (rd_children (rb_dirs b ! i)) = Some c"
    by (rule find_unique [OF c(1)])
  ultimately show ?thesis by simp
qed

lemma find_file_index:
  assumes wf: "romfs_wf b" and i: "i < length (rb_dirs b)" and n: "0x2F \<notin> set n"
  shows "find (\<lambda>k. rf_name (rb_files b ! k) = n) (rd_files (rb_dirs b ! i))
    = find (\<lambda>k. rf_path (rb_files b ! k) = rd_path (rb_dirs b ! i) @ 0x2F # n) [0..<length (rb_files b)]"
proof (cases "rd_path (rb_dirs b ! i) @ 0x2F # n \<in> set (map rf_path (rb_files b))")
  case True
  with romfs_file_path [OF wf i n] obtain k where
    k: "k \<in> set (rd_files (rb_dirs b ! i))" "rf_name (rb_files b ! k) = n" by blast
  then have l: "k < length (rb_files b)" "rf_path (rb_files b ! k) = rd_path (rb_dirs b ! i) @ 0x2F # n"
    using romfs_wf_lists(4) [OF wf i, of k] romfs_wf_file(3) [OF wf, of k] by auto
  then have mem: "k \<in> set [0..<length (rb_files b)]" by simp
  have "rf_name (rb_files b ! k') = n \<longleftrightarrow> k' = k" if "k' \<in> set (rd_files (rb_dirs b ! i))" for k'
    using inj_onD [OF romfs_wf_names(2) [OF wf i] _ that k(1)] k(2) by auto
  then have "find (\<lambda>k. rf_name (rb_files b ! k) = n) (rd_files (rb_dirs b ! i)) = Some k"
    by (rule find_unique [OF k(1)])
  moreover have "rf_path (rb_files b ! k') = rd_path (rb_dirs b ! i) @ 0x2F # n \<longleftrightarrow> k' = k"
    if "k' \<in> set [0..<length (rb_files b)]" for k'
    using romfs_wf_paths(2) [OF wf] nth_eq_iff_index_eq [of "map rf_path (rb_files b)" k' k] l that by auto
  then have "find (\<lambda>k. rf_path (rb_files b ! k) = rd_path (rb_dirs b ! i) @ 0x2F # n) [0..<length (rb_files b)] = Some k"
    by (rule find_unique [OF mem])
  ultimately show ?thesis by simp
next
  case False
  have "rf_path (rb_files b ! k) \<noteq> rd_path (rb_dirs b ! i) @ 0x2F # n" if "k < length (rb_files b)" for k
    using False that by (metis length_map nth_map nth_mem)
  then have "find (\<lambda>k. rf_path (rb_files b ! k) = rd_path (rb_dirs b ! i) @ 0x2F # n) [0..<length (rb_files b)] = None"
    by (simp add: find_None_iff)
  moreover have "find (\<lambda>k. rf_name (rb_files b ! k) = n) (rd_files (rb_dirs b ! i)) = None"
    using False romfs_file_path [OF wf i n] by (auto simp: find_None_iff)
  ultimately show ?thesis by simp
qed

text \<open>The walk of \<^verbatim>\<open>open\<close> from any directory finds what is there.\<close>

lemma open_from_view:
  assumes len: "length (romfs_image b dht fht) \<le> usize_max" and p: "romfs_placed b" and u: "romfs_utf8 b"
  shows "i < length (rb_dirs b) \<Longrightarrow> \<forall>c\<in>set (c # cs). 0x2F \<notin> set c \<Longrightarrow>
    romfs_open_from (romfs_view b dht fht) (dir_view b i) (Some c) cs
      = Some (romfs_lookup b (rd_path (rb_dirs b ! i)) (c # cs))"
proof (induction cs arbitrary: c i)
  case Nil
  have wf: "romfs_wf b" using p by (simp add: romfs_placed_def)
  have "romfs_find_file (romfs_view b dht fht) (dir_view b i) c =
      Some (case find (\<lambda>k. rf_name (rb_files b ! k) = c) (rd_files (rb_dirs b ! i)) of
              Some k \<Rightarrow> Ok (file_view b k) | None \<Rightarrow> Err Open_FileNotFound)"
    unfolding romfs_find_file_def view_entries dir_entry_heads
    by (rule find_file_chain [OF len p u Nil.prems(1), of "[]"]) simp
  moreover have "rd_path (rb_dirs b ! i) \<in> set (map rd_path (rb_dirs b))" using Nil.prems(1) by simp
  ultimately show ?case
    using find_file_index [OF wf Nil.prems(1), of c] Nil.prems(2) by (simp add: romfs_lookup_def)
next
  case (Cons c' cs)
  have wf: "romfs_wf b" using p by (simp add: romfs_placed_def)
  let ?p = "rd_path (rb_dirs b ! i)"
  have no: "0x2F \<notin> set c" "\<forall>x\<in>set (c' # cs). 0x2F \<notin> set x" using Cons.prems(2) by auto
  have step: "romfs_find_dir (romfs_view b dht fht) (dir_view b i) c =
      Some (case find (\<lambda>x. rd_name (rb_dirs b ! x) = c) (rd_children (rb_dirs b ! i)) of
              Some x \<Rightarrow> Ok (dir_view b x) | None \<Rightarrow> Err Open_DirNotFound)"
    unfolding romfs_find_dir_def view_entries dir_entry_heads
    by (rule find_dir_chain [OF len p u Cons.prems(1), of "[]"]) simp
  show ?case
  proof (cases "?p @ 0x2F # c \<in> set (map rd_path (rb_dirs b))")
    case True
    then obtain j where j: "j < length (rb_dirs b)" "rd_path (rb_dirs b ! j) = ?p @ 0x2F # c"
      by (auto simp: in_set_conv_nth)
    show ?thesis
      using step find_child [OF wf Cons.prems(1) no(1) j] Cons.IH [OF j(1) no(2)]
      by (simp add: j(2) romfs_lookup_def)
  next
    case False
    then have "find (\<lambda>x. rd_name (rb_dirs b ! x) = c) (rd_children (rb_dirs b ! i)) = None"
      using romfs_child_path [OF wf Cons.prems(1) no(1)] by (auto simp: find_None_iff)
    moreover have "?p @ path_of (butlast (c # c' # cs)) \<notin> set (map rd_path (rb_dirs b))"
    proof
      assume "?p @ path_of (butlast (c # c' # cs)) \<in> set (map rd_path (rb_dirs b))"
      then have "(?p @ 0x2F # c) @ path_of (butlast (c' # cs)) \<in> set (map rd_path (rb_dirs b))" by simp
      moreover have "\<forall>x\<in>set (butlast (c' # cs)). 0x2F \<notin> set x" using no(2) by (meson in_set_butlastD)
      ultimately show False using False dir_paths_closed [OF wf] by blast
    qed
    ultimately show ?thesis using step by (simp add: romfs_lookup_def)
  qed
qed

lemma romfs_open_view:
  assumes len: "length (romfs_image b dht fht) \<le> usize_max" and p: "romfs_placed b" and u: "romfs_utf8 b"
  shows "romfs_open (romfs_view b dht fht) path =
    (let q = dropWhile (\<lambda>b. b = 0x2F) path in
     Some (if q = [] then Err Open_PathNotFound else romfs_lookup b [] (split_slash q)))"
proof (cases "dropWhile (\<lambda>b. b = 0x2F) path = []")
  case False
  let ?q = "dropWhile (\<lambda>b. b = 0x2F) path"
  have wf: "romfs_wf b" using p by (simp add: romfs_placed_def)
  obtain c cs where c: "split_slash ?q = c # cs" by (cases "split_slash ?q") simp_all
  then have "\<forall>x\<in>set (c # cs). 0x2F \<notin> set x" using split_slash_no_slash [of _ ?q] by auto
  from open_from_view [OF len p u romfs_wf_root(2) [OF wf] this] show ?thesis
    using False romfs_view_entries(3) [OF len p] romfs_wf_root(3) [OF wf]
    by (auto simp: romfs_open_def Let_def c)
qed (simp add: romfs_open_def)

section \<open>Iterating over a directory\<close>

lemma collect_files:
  assumes len: "length (romfs_image b dht fht) \<le> usize_max" and p: "romfs_placed b" and i: "i < length (rb_dirs b)"
  shows "rd_files (rb_dirs b ! i) = before @ ks \<Longrightarrow> di_next_dir_offset it = NO_ENTRY \<Longrightarrow>
    di_next_file_offset it = file_head b ks \<Longrightarrow>
    (dir_iterator_collect (romfs_view b dht fht) it :: (romfs_entry list, 'e) result option)
      = Some (Ok (map (\<lambda>k. Romfs_File (file_view b k)) ks))"
proof (induction ks arbitrary: before it)
  case Nil
  then show ?case
    by (subst dir_iterator_collect.simps) (simp add: dir_iterator_next_def dir_iterator_next_file_def file_head_def)
next
  case (Cons k ks)
  have wf: "romfs_wf b" using p by (simp add: romfs_placed_def)
  have k: "k < length (rb_files b)" using romfs_wf_lists(4) [OF wf i, of k] Cons.prems(1) by simp
  have "file_head b (k # ks) \<noteq> NO_ENTRY"
    using offset_not_NO_ENTRY [OF placed_offset(2) [OF p k]] by (simp add: file_head_def)
  moreover have "romfs_file_from_offset (romfs_view b dht fht) (file_head b (k # ks)) (di_file_table_base it) = Ok (file_view b k)"
    using romfs_view_entries(2) [OF len p k] by (simp add: file_head_def)
  ultimately have "(dir_iterator_next (romfs_view b dht fht) it :: (romfs_entry option \<times> dir_iterator, 'e) result)
      = Ok (Some (Romfs_File (file_view b k)), it\<lparr>di_next_file_offset := file_head b ks\<rparr>)"
    using file_sibling [OF p i Cons.prems(1)] Cons.prems(2,3)
    by (simp add: dir_iterator_next_def dir_iterator_next_file_def)
  moreover have "(dir_iterator_collect (romfs_view b dht fht) (it\<lparr>di_next_file_offset := file_head b ks\<rparr>)
      :: (romfs_entry list, 'e) result option) = Some (Ok (map (\<lambda>k. Romfs_File (file_view b k)) ks))"
    by (rule Cons.IH [of "before @ [k]"]) (use Cons.prems in simp_all)
  ultimately show ?case by (subst dir_iterator_collect.simps) simp
qed

lemma collect_dirs:
  assumes len: "length (romfs_image b dht fht) \<le> usize_max" and p: "romfs_placed b" and i: "i < length (rb_dirs b)"
  shows "rd_children (rb_dirs b ! i) = before @ cs \<Longrightarrow> di_next_dir_offset it = dir_head b cs \<Longrightarrow>
    di_next_file_offset it = file_head b (rd_files (rb_dirs b ! i)) \<Longrightarrow>
    (dir_iterator_collect (romfs_view b dht fht) it :: (romfs_entry list, 'e) result option)
      = Some (Ok (map (\<lambda>c. Romfs_Dir (dir_view b c)) cs @ map (\<lambda>k. Romfs_File (file_view b k)) (rd_files (rb_dirs b ! i))))"
proof (induction cs arbitrary: before it)
  case Nil
  have "di_next_dir_offset it = NO_ENTRY" using Nil.prems(2) by (simp add: dir_head_def)
  from collect_files [OF len p i append_Nil [symmetric] this Nil.prems(3)] show ?case by simp
next
  case (Cons c cs)
  have wf: "romfs_wf b" using p by (simp add: romfs_placed_def)
  have c: "c < length (rb_dirs b)" using romfs_wf_lists(3) [OF wf i, of c] Cons.prems(1) by simp
  have "dir_head b (c # cs) \<noteq> NO_ENTRY"
    using offset_not_NO_ENTRY [OF placed_offset(1) [OF p c]] by (simp add: dir_head_def)
  moreover have "romfs_dir_from_offset (romfs_view b dht fht) (dir_head b (c # cs)) (di_dir_table_base it) = Ok (dir_view b c)"
    using romfs_view_entries(1) [OF len p c] by (simp add: dir_head_def)
  ultimately have "(dir_iterator_next (romfs_view b dht fht) it :: (romfs_entry option \<times> dir_iterator, 'e) result)
      = Ok (Some (Romfs_Dir (dir_view b c)), it\<lparr>di_next_dir_offset := dir_head b cs\<rparr>)"
    using dir_sibling [OF p i Cons.prems(1)] Cons.prems(2) by (simp add: dir_iterator_next_def)
  moreover have "(dir_iterator_collect (romfs_view b dht fht) (it\<lparr>di_next_dir_offset := dir_head b cs\<rparr>)
      :: (romfs_entry list, 'e) result option)
      = Some (Ok (map (\<lambda>c. Romfs_Dir (dir_view b c)) cs @ map (\<lambda>k. Romfs_File (file_view b k)) (rd_files (rb_dirs b ! i))))"
    by (rule Cons.IH [of "before @ [c]"]) (use Cons.prems in simp_all)
  ultimately show ?case by (subst dir_iterator_collect.simps) simp
qed

lemma entries_view:
  assumes len: "length (romfs_image b dht fht) \<le> usize_max" and p: "romfs_placed b" and i: "i < length (rb_dirs b)"
  shows "(dir_iterator_collect (romfs_view b dht fht) (romfs_entries (romfs_view b dht fht) (dir_view b i))
      :: (romfs_entry list, 'e) result option)
    = Some (Ok (map (\<lambda>c. Romfs_Dir (dir_view b c)) (rd_children (rb_dirs b ! i))
             @ map (\<lambda>k. Romfs_File (file_view b k)) (rd_files (rb_dirs b ! i))))"
  by (rule collect_dirs [OF len p i, of "[]"]) (simp_all add: romfs_entries_def dir_entry_heads)

section \<open>Names are strings\<close>

lemma split_slash_append: "0x2F \<notin> set ch \<Longrightarrow> split_slash (ch @ bs) = (ch @ hd (split_slash bs)) # tl (split_slash bs)"
  by (induction ch) auto

text \<open>A slash is never part of a longer character, so the components of a string are strings.\<close>

lemma utf8_first_char:
  assumes "utf8_valid (b # bs)"
  shows "\<exists>ch rest. b # bs = ch @ rest \<and> ch \<noteq> [] \<and> (ch = [0x2F] \<or> 0x2F \<notin> set ch) \<and> utf8_valid rest
    \<and> (\<forall>w. utf8_valid (ch @ w) = utf8_valid w)"
proof -
  have I: ?thesis if "b # bs = ch @ rest" "ch \<noteq> []" "ch = [0x2F] \<or> 0x2F \<notin> set ch" "utf8_valid rest"
      "\<And>w. utf8_valid (ch @ w) = utf8_valid w" for ch rest
    using that by blast
  have slash: "x \<noteq> 0x2F" if "\<not> x \<le> 0x7F \<or> cont x \<or> 0x80 \<le> x \<or> 0x90 \<le> x \<or> 0xA0 \<le> x" for x :: u8
    using that by (auto simp: cont_def)
  consider (one) "b \<le> 0x7F" | (two) "\<not> b \<le> 0x7F" "0xC2 \<le> b \<and> b \<le> 0xDF"
    | (three) "\<not> b \<le> 0x7F" "\<not> (0xC2 \<le> b \<and> b \<le> 0xDF)" "0xE0 \<le> b \<and> b \<le> 0xEF"
    | (four) "\<not> b \<le> 0x7F" "\<not> (0xC2 \<le> b \<and> b \<le> 0xDF)" "\<not> (0xE0 \<le> b \<and> b \<le> 0xEF)" "0xF0 \<le> b \<and> b \<le> 0xF4"
    using assms by (auto split: if_splits)
  then show ?thesis
  proof cases
    case one
    then show ?thesis using assms by (intro I [of "[b]" bs]) simp_all
  next
    case two
    then obtain c r where r: "bs = c # r" "cont c" "utf8_valid r"
      using assms by (auto split: list.splits)
    then show ?thesis
      using two slash [of b] slash [of c] by (intro I [of "[b, c]" r]) simp_all
  next
    case three
    then obtain c d r where r: "bs = c # d # r"
      "if b = 0xE0 then 0xA0 \<le> c \<and> c \<le> 0xBF else if b = 0xED then 0x80 \<le> c \<and> c \<le> 0x9F else cont c"
      "cont d" "utf8_valid r"
      using assms by (auto split: list.splits if_splits)
    moreover have "c \<noteq> 0x2F" by (rule slash) (use r(2) in \<open>auto split: if_splits\<close>)
    moreover have "utf8_valid ([b, c, d] @ w) = utf8_valid w" for w
      unfolding append.simps utf8_valid.simps(2) [of b "c # d # w"]
      by (simp only: three r(1,3,4) if_True if_False list.case simp_thms) (use r(2) in blast)
    ultimately show ?thesis
      using three slash [of b] slash [of d] by (intro I [of "[b, c, d]" r]) (simp_all del: utf8_valid.simps)
  next
    case four
    then obtain c d e r where r: "bs = c # d # e # r"
      "if b = 0xF0 then 0x90 \<le> c \<and> c \<le> 0xBF else if b = 0xF4 then 0x80 \<le> c \<and> c \<le> 0x8F else cont c"
      "cont d" "cont e" "utf8_valid r"
      using assms by (auto split: list.splits if_splits)
    moreover have "c \<noteq> 0x2F" by (rule slash) (use r(2) in \<open>auto split: if_splits\<close>)
    moreover have "utf8_valid ([b, c, d, e] @ w) = utf8_valid w" for w
      unfolding append.simps utf8_valid.simps(2) [of b "c # d # e # w"]
      by (simp only: four r(1,3,4,5) if_True if_False list.case simp_thms) (use r(2) in blast)
    ultimately show ?thesis
      using four slash [of b] slash [of d] slash [of e] by (intro I [of "[b, c, d, e]" r]) (simp_all del: utf8_valid.simps)
  qed
qed

lemma split_slash_utf8: "utf8_valid bs \<Longrightarrow> \<forall>c\<in>set (split_slash bs). utf8_valid c"
proof (induction "length bs" arbitrary: bs rule: less_induct)
  case less
  show ?case
  proof (cases bs)
    case (Cons b bs')
    then obtain ch rest where ch: "bs = ch @ rest" "ch \<noteq> []" "ch = [0x2F] \<or> 0x2F \<notin> set ch" "utf8_valid rest"
      "\<forall>w. utf8_valid (ch @ w) = utf8_valid w"
      using utf8_first_char [of b bs'] less.prems by blast
    then have ih: "\<forall>c\<in>set (split_slash rest). utf8_valid c" by (intro less.hyps) simp_all
    show ?thesis
    proof (cases "ch = [0x2F]")
      case True
      then show ?thesis using ih by (simp add: ch(1))
    next
      case False
      then have "split_slash bs = (ch @ hd (split_slash rest)) # tl (split_slash rest)"
        using ch(3) by (simp add: ch(1) split_slash_append)
      then show ?thesis using ih ch(5) by (cases "split_slash rest") auto
    qed
  qed simp
qed

lemma path_components_utf8:
  assumes "utf8_valid path" "path \<noteq> []" "hd path = 0x2F"
  shows "\<forall>c\<in>set (path_components path). utf8_valid c"
proof -
  have "split_slash path = [] # split_slash (tl path)" using assms(2,3) by (cases path) simp_all
  then show ?thesis using split_slash_utf8 [OF assms(1)] by (simp add: path_components_def)
qed

lemma romfs_utf8_names:
  assumes wf: "romfs_wf b" and tight: "romfs_tight b"
    and paths: "\<forall>q\<in>set (map rf_path (rb_files b)). \<exists>cs. q = path_of cs \<and> (\<forall>c\<in>set cs. utf8_valid c \<and> 0x2F \<notin> set c)"
  shows "romfs_utf8 b"
proof -
  have last: "utf8_valid n" if eq: "path_of cs = p @ 0x2F # n" and n: "0x2F \<notin> set n"
      and cs: "\<forall>c\<in>set cs. utf8_valid c \<and> 0x2F \<notin> set c" for cs p n
  proof -
    obtain ds d where "cs = ds @ [d]" using eq by (cases cs rule: rev_cases) auto
    then show ?thesis using path_of_snoc_eq [of ds d p n] eq n cs by simp
  qed
  have "utf8_valid (rf_name (rb_files b ! k))" if k: "k < length (rb_files b)" for k
  proof -
    have "rf_path (rb_files b ! k) \<in> set (map rf_path (rb_files b))" using k by simp
    then obtain cs where cs: "rf_path (rb_files b ! k) = path_of cs" "\<forall>c\<in>set cs. utf8_valid c \<and> 0x2F \<notin> set c"
      using paths by blast
    show ?thesis
      using romfs_wf_file [OF wf k] cs by (intro last [of cs]) (simp_all add: name_ok_def)
  qed
  moreover have "utf8_valid (rd_name (rb_dirs b ! j))" if j: "j < length (rb_dirs b)" for j
  proof (cases "j = 0")
    case False
    then have "0 < j" by simp
    note d = romfs_wf_dir [OF wf j this]
    have "rd_path (rb_dirs b ! j) \<in> set (map rd_path (rb_dirs b))" "rd_path (rb_dirs b ! j) \<noteq> []"
      using j by (simp, simp add: d(3))
    then obtain q rest where q: "q \<in> set (map rf_path (rb_files b))" "q = rd_path (rb_dirs b ! j) @ 0x2F # rest"
      using tight unfolding romfs_tight_def by blast
    then obtain cs where cs: "q = path_of cs" "\<forall>c\<in>set cs. utf8_valid c \<and> 0x2F \<notin> set c" using paths by blast
    then obtain k where "rd_path (rb_dirs b ! j) = path_of (take k cs)"
      using path_of_prefix [of cs "rd_path (rb_dirs b ! j)"] q(2) by blast
    moreover have "\<forall>c\<in>set (take k cs). utf8_valid c \<and> 0x2F \<notin> set c" using cs(2) by (meson in_set_takeD)
    ultimately show ?thesis using d
      by (intro last [of "take k cs" "rd_path (rb_dirs b ! rd_parent (rb_dirs b ! j))"]) (simp_all add: name_ok_def)
  qed (simp add: romfs_wf_root [OF wf])
  ultimately show ?thesis by (auto simp: romfs_utf8_def in_set_conv_nth)
qed

end
