(* ===== verification/Romfs_Hash.thy ===== *)
theory Romfs_Hash
  imports Romfs_Built
begin

text \<open>
  The hash tables of a built image: the chain that starts at a bucket visits exactly the entries
  whose parent and name hash to it, the last one added first.
\<close>

section \<open>Chains\<close>

text \<open>From the offset \<open>head\<close> the sibling links lead through the entries \<open>ks\<close> and end.\<close>

fun hash_chain :: "(nat \<Rightarrow> nat) \<Rightarrow> nat list \<Rightarrow> nat \<Rightarrow> nat list \<Rightarrow> bool" where
  "hash_chain off siblings head [] \<longleftrightarrow> head = unat NO_ENTRY"
| "hash_chain off siblings head (k # ks) \<longleftrightarrow> head = off k \<and> hash_chain off siblings (siblings ! k) ks"

lemma hash_chain_update: "m \<notin> set ks \<Longrightarrow> hash_chain off (siblings[m := x]) head ks = hash_chain off siblings head ks"
  by (induction ks arbitrary: head) auto

lemma hash_loop:
  assumes "m \<le> length siblings" "\<And>k. bucket k < sz"
    and "foldl (\<lambda>st k. hash_insert st (bucket k) k (off k)) (replicate sz (unat NO_ENTRY), siblings) [0..<m] = (t, s)"
  shows "length t = sz \<and> length s = length siblings
    \<and> (\<forall>h < sz. hash_chain off s (t ! h) (rev (filter (\<lambda>k. bucket k = h) [0..<m])))"
  using assms(1,3)
proof (induction m arbitrary: t s)
  case (Suc m)
  obtain t' s' where fold: "foldl (\<lambda>st k. hash_insert st (bucket k) k (off k)) (replicate sz (unat NO_ENTRY), siblings) [0..<m] = (t', s')"
    by (cases "foldl (\<lambda>st k. hash_insert st (bucket k) k (off k)) (replicate sz (unat NO_ENTRY), siblings) [0..<m]")
  have ih: "length t' = sz" "length s' = length siblings"
    "\<forall>h < sz. hash_chain off s' (t' ! h) (rev (filter (\<lambda>k. bucket k = h) [0..<m]))"
    using Suc.IH [OF _ fold] Suc.prems(1) by auto
  have ts: "t = t'[bucket m := off m]" "s = s'[m := t' ! bucket m]"
    using Suc.prems(2) fold by (auto simp: hash_insert_def)
  have "hash_chain off s (t ! h) (rev (filter (\<lambda>k. bucket k = h) [0..<Suc m]))" if "h < sz" for h
    using ih that assms(2) [of m] Suc.prems(1) by (auto simp: ts hash_chain_update nth_list_update)
  then show ?case using ih(1,2) by (simp add: ts)
qed simp

section \<open>The size of a table\<close>

lemma next_pseudo_prime_spec: "n \<le> next_pseudo_prime n \<and> \<not> small_factor (next_pseudo_prime n)"
proof (induction n rule: next_pseudo_prime.induct)
  case (1 n)
  then show ?case by (subst (1 2) next_pseudo_prime.simps) auto
qed

lemma hash_table_count_ge: "3 \<le> romfs_get_hash_table_count n" "n \<le> romfs_get_hash_table_count n"
proof -
  have "n \<le> n OR 1" by (simp only: or_one_eq)
  moreover have "n \<le> next_pseudo_prime n" using next_pseudo_prime_spec [of n] ..
  ultimately show "3 \<le> romfs_get_hash_table_count n" "n \<le> romfs_get_hash_table_count n"
    by (auto simp: romfs_get_hash_table_count_def)
qed

lemma next_pseudo_prime_le: "n \<le> m \<Longrightarrow> \<not> small_factor m \<Longrightarrow> next_pseudo_prime n \<le> m"
proof (induction n rule: next_pseudo_prime.induct)
  case (1 n)
  show ?case
  proof (cases "small_factor n")
    case True
    with 1 have "next_pseudo_prime (n + 1) \<le> m" by (cases "n = m") simp_all
    with True show ?thesis by (subst next_pseudo_prime.simps) simp
  qed (use 1 in \<open>subst next_pseudo_prime.simps, simp\<close>)
qed

lemma hash_table_count_le: "romfs_get_hash_table_count n \<le> n + 510511"
proof -
  let ?m = "510510 * (n div 510510 + 1) + 1"
  have "\<not> p dvd ?m" if "p dvd 510510" "1 < p" for p :: nat
    using that dvd_add_right_iff [of p "510510 * (n div 510510 + 1)" 1] by (auto dest: dvd_mult2)
  then have "\<not> small_factor ?m" by (simp add: small_factor_def del: add_mult_distrib2)
  moreover have "n \<le> ?m" "?m \<le> n + 510511"
    using div_mult_mod_eq [of n 510510] mod_less_divisor [of 510510 n, OF zero_less_numeral]
    by (simp_all add: algebra_simps)
  ultimately have "next_pseudo_prime n \<le> n + 510511" using next_pseudo_prime_le [of n ?m] by linarith
  moreover have "n OR 1 \<le> n + 1" unfolding or_one_eq by (cases "even n") simp_all
  ultimately show ?thesis by (auto simp: romfs_get_hash_table_count_def)
qed

section \<open>The tables of a build\<close>

text \<open>The bucket an entry belongs to in a table of the given size.\<close>

definition dir_bucket :: "romfs_builder \<Rightarrow> nat \<Rightarrow> nat \<Rightarrow> nat" where
  "dir_bucket b sz k =
     unat (path_hash (word_of_nat (rd_entry_offset (rb_dirs b ! rd_parent (rb_dirs b ! k)))) (rd_name (rb_dirs b ! k))) mod sz"

definition file_bucket :: "romfs_builder \<Rightarrow> nat \<Rightarrow> nat \<Rightarrow> nat" where
  "file_bucket b sz k =
     unat (path_hash (word_of_nat (rd_entry_offset (rb_dirs b ! rf_parent (rb_files b ! k)))) (rf_name (rb_files b ! k))) mod sz"

lemma generate_dir_hash_table_fold:
  "generate_dir_hash_table b =
     (let sz = romfs_get_hash_table_count (length (rb_dirs b));
          (t, s) = foldl (\<lambda>st k. hash_insert st (dir_bucket b sz k) k (rd_entry_offset (rb_dirs b ! k)))
                     (replicate sz (unat NO_ENTRY), rb_dir_hash_siblings b) [0..<length (rb_dirs b)]
      in (b\<lparr>rb_dir_hash_siblings := s\<rparr>, t))"
  by (simp add: generate_dir_hash_table_def enumerate_upt foldl_map dir_bucket_def Let_def)

lemma generate_file_hash_table_fold:
  "generate_file_hash_table b =
     (let sz = romfs_get_hash_table_count (length (rb_files b));
          (t, s) = foldl (\<lambda>st k. hash_insert st (file_bucket b sz k) k (rf_entry_offset (rb_files b ! k)))
                     (replicate sz (unat NO_ENTRY), rb_file_hash_siblings b) [0..<length (rb_files b)]
      in (b\<lparr>rb_file_hash_siblings := s\<rparr>, t))"
  by (simp add: generate_file_hash_table_def enumerate_upt foldl_map file_bucket_def Let_def)

lemma bucket_lt: "3 \<le> sz \<Longrightarrow> dir_bucket b sz k < sz" "3 \<le> sz \<Longrightarrow> file_bucket b sz k < sz"
  by (simp_all add: dir_bucket_def file_bucket_def)

lemma generate_dir_chains:
  assumes "generate_dir_hash_table b = (b', t)" "length (rb_dir_hash_siblings b) = length (rb_dirs b)"
  shows "length t = romfs_get_hash_table_count (length (rb_dirs b))"
    "h < length t \<Longrightarrow> hash_chain (\<lambda>k. rd_entry_offset (rb_dirs b ! k)) (rb_dir_hash_siblings b') (t ! h)
      (rev (filter (\<lambda>k. dir_bucket b (length t) k = h) [0..<length (rb_dirs b)]))"
proof -
  let ?sz = "romfs_get_hash_table_count (length (rb_dirs b))"
  obtain s where s: "foldl (\<lambda>st k. hash_insert st (dir_bucket b ?sz k) k (rd_entry_offset (rb_dirs b ! k)))
      (replicate ?sz (unat NO_ENTRY), rb_dir_hash_siblings b) [0..<length (rb_dirs b)] = (t, s)"
    "b' = b\<lparr>rb_dir_hash_siblings := s\<rparr>"
    using assms(1) unfolding generate_dir_hash_table_fold Let_def by (auto split: prod.splits)
  from hash_loop [OF _ _ s(1)] bucket_lt(1) [OF hash_table_count_ge(1)] assms(2)
  show "length t = ?sz"
    "h < length t \<Longrightarrow> hash_chain (\<lambda>k. rd_entry_offset (rb_dirs b ! k)) (rb_dir_hash_siblings b') (t ! h)
      (rev (filter (\<lambda>k. dir_bucket b (length t) k = h) [0..<length (rb_dirs b)]))"
    by (simp_all add: s(2))
qed

lemma generate_file_chains:
  assumes "generate_file_hash_table b = (b', t)" "length (rb_file_hash_siblings b) = length (rb_files b)"
  shows "length t = romfs_get_hash_table_count (length (rb_files b))"
    "h < length t \<Longrightarrow> hash_chain (\<lambda>k. rf_entry_offset (rb_files b ! k)) (rb_file_hash_siblings b') (t ! h)
      (rev (filter (\<lambda>k. file_bucket b (length t) k = h) [0..<length (rb_files b)]))"
proof -
  let ?sz = "romfs_get_hash_table_count (length (rb_files b))"
  obtain s where s: "foldl (\<lambda>st k. hash_insert st (file_bucket b ?sz k) k (rf_entry_offset (rb_files b ! k)))
      (replicate ?sz (unat NO_ENTRY), rb_file_hash_siblings b) [0..<length (rb_files b)] = (t, s)"
    "b' = b\<lparr>rb_file_hash_siblings := s\<rparr>"
    using assms(1) unfolding generate_file_hash_table_fold Let_def by (auto split: prod.splits)
  from hash_loop [OF _ _ s(1)] bucket_lt(2) [OF hash_table_count_ge(1)] assms(2)
  show "length t = ?sz"
    "h < length t \<Longrightarrow> hash_chain (\<lambda>k. rf_entry_offset (rb_files b ! k)) (rb_file_hash_siblings b') (t ! h)
      (rev (filter (\<lambda>k. file_bucket b (length t) k = h) [0..<length (rb_files b)]))"
    by (simp_all add: s(2))
qed

end
