(* ===== verification/Romfs_Safe.thy ===== *)
theory Romfs_Safe
  imports Romfs_Read
begin

text \<open>
  What the RomFS reader does on an arbitrary image: the checks of \<^verbatim>\<open>try_from_bytes\<close> are enough
  for every later access to stay inside the buffer, and a sibling chain that runs into itself is
  walked for ever.
\<close>

section \<open>An accepted image\<close>

definition romfs_valid :: "romfs \<Rightarrow> bool" where
  "romfs_valid r \<longleftrightarrow>
     (let h = ro_header r; n = length (ro_bytes r) in
        unat (rh_dir_meta_table_offset h) + unat (rh_dir_meta_table_size h) \<le> n
      \<and> unat (rh_dir_hash_table_offset h) + unat (rh_dir_hash_table_size h) \<le> n
      \<and> unat (rh_file_meta_table_offset h) + unat (rh_file_meta_table_size h) \<le> n
      \<and> unat (rh_file_hash_table_offset h) + unat (rh_file_hash_table_size h) \<le> n
      \<and> unat (rh_file_data_offset h) \<le> n \<and> n \<le> usize_max)"

lemma romfs_try_from_bytes_iff:
  assumes "length bs \<le> usize_max"
  shows "romfs_try_from_bytes bs = Ok r \<longleftrightarrow>
    0x50 \<le> length bs \<and> unat (rh_header_size (dec_romfs_header bs)) = 0x50
    \<and> r = \<lparr>ro_bytes = bs, ro_header = dec_romfs_header bs\<rparr> \<and> romfs_valid r"
proof -
  have bound: "a + c \<le> length bs \<Longrightarrow> a + c \<le> usize_max" for a c using assms by simp
  show ?thesis
    unfolding romfs_try_from_bytes_def
    by (auto simp: rbind_eq_Ok romfs_valid_def Let_def assms bound split: if_splits)
qed

lemma romfs_try_no_panic: "romfs_try_from_bytes bs \<noteq> Panic"
  by (auto simp: romfs_try_from_bytes_def rbind_eq_Panic Let_def split: if_splits)

section \<open>No panic\<close>

lemma tables_ok:
  assumes "romfs_valid r"
  shows "\<exists>t. (dir_meta_table r :: (bytes, 'e) result) = Ok t \<and> length t \<le> length (ro_bytes r)"
    "\<exists>t. (file_meta_table r :: (bytes, 'e) result) = Ok t \<and> length t \<le> length (ro_bytes r)"
  using assms by (simp_all add: romfs_valid_def dir_meta_table_def file_meta_table_def Let_def run_simps)

lemma romfs_entry_at_no_panic: "romfs_entry_at dec sz name_len too_small table offset base \<noteq> Panic"
  by (auto simp: romfs_entry_at_def rbind_eq_Panic Let_def split: if_splits)

lemma from_offset_no_panic:
  assumes "romfs_valid r"
  shows "romfs_dir_from_offset_for_root r offset base \<noteq> Panic" "romfs_dir_from_offset r offset base \<noteq> Panic"
    "romfs_file_from_offset r offset base \<noteq> Panic"
proof -
  obtain t t' t'' where "(dir_meta_table r :: (bytes, root_dir_error) result) = Ok t"
    "(dir_meta_table r :: (bytes, romfs_open_error) result) = Ok t'"
    "(file_meta_table r :: (bytes, romfs_open_error) result) = Ok t''"
    using tables_ok [OF assms] by metis
  then show "romfs_dir_from_offset_for_root r offset base \<noteq> Panic" "romfs_dir_from_offset r offset base \<noteq> Panic"
    "romfs_file_from_offset r offset base \<noteq> Panic"
    by (auto simp: romfs_dir_from_offset_for_root_def romfs_dir_from_offset_def romfs_file_from_offset_def
        rbind_eq_Panic romfs_entry_at_no_panic split: prod.splits)
qed

lemma find_dir_no_panic:
  assumes "romfs_valid r"
  shows "romfs_find_dir_from r base n off \<noteq> Some Panic"
proof
  assume "romfs_find_dir_from r base n off = Some Panic"
  then have "romfs_valid r \<longrightarrow> (Panic :: (romfs_dir, romfs_open_error) result) \<noteq> Panic"
    by (rule romfs_find_dir_from.raw_induct [where P = "\<lambda>r _ _ _ y. romfs_valid r \<longrightarrow> y \<noteq> Panic", rotated])
      (auto split: if_splits result.splits simp: from_offset_no_panic)
  with assms show False by simp
qed

lemma find_file_no_panic:
  assumes "romfs_valid r"
  shows "romfs_find_file_from r base n off \<noteq> Some Panic"
proof
  assume "romfs_find_file_from r base n off = Some Panic"
  then have "romfs_valid r \<longrightarrow> (Panic :: (romfs_file, romfs_open_error) result) \<noteq> Panic"
    by (rule romfs_find_file_from.raw_induct [where P = "\<lambda>r _ _ _ y. romfs_valid r \<longrightarrow> y \<noteq> Panic", rotated])
      (auto split: if_splits result.splits simp: from_offset_no_panic)
  with assms show False by simp
qed

lemma open_from_no_panic: "romfs_valid r \<Longrightarrow> romfs_open_from r d last_component cs \<noteq> Some Panic"
proof (induction cs arbitrary: d last_component)
  case Nil
  then show ?case by (auto simp: romfs_find_file_def find_file_no_panic split: option.splits)
next
  case (Cons c cs)
  then show ?case
    by (auto simp: romfs_find_dir_def find_dir_no_panic split: option.splits result.splits)
qed

lemma romfs_open_no_panic: "romfs_valid r \<Longrightarrow> romfs_open r path \<noteq> Some Panic"
  using from_offset_no_panic(1) [of r] open_from_no_panic [of r]
  by (auto simp: romfs_open_def Let_def romfs_root_dir_def split: result.splits)

lemma iterator_no_panic: "romfs_valid r \<Longrightarrow> dir_iterator_next r it \<noteq> Panic"
  using from_offset_no_panic [of r]
  by (auto simp: dir_iterator_next_def dir_iterator_next_file_def split: result.splits)

lemma romfs_file_data_safe:
  assumes "romfs_valid r"
  shows "romfs_file_data r f \<noteq> Panic"
    "romfs_file_data r f = Ok d \<Longrightarrow> length d = romfs_file_size f \<and>
      d = sub_bytes (ro_bytes r) (unat (rh_file_data_offset (ro_header r)) + unat (fe_data_offset (rfv_entry f)))
            (romfs_file_size f)"
  using assms
  by (auto simp: romfs_file_data_def romfs_file_slice_def romfs_valid_def rbind_eq_Panic rbind_eq_Ok Let_def
      sub_bytes_def romfs_file_size_def split: if_splits)

section \<open>Chains that do not end\<close>

text \<open>A cycle of sibling links in which no entry has the name that is looked for.\<close>

lemma find_dir_cycle:
  assumes "\<forall>off\<in>S. off \<noteq> NO_ENTRY \<and> (\<exists>d. romfs_dir_from_offset r off base = Ok d \<and> rdv_name d \<noteq> n
      \<and> de_sibling_offset (rdv_entry d) \<in> S)" "off \<in> S"
  shows "romfs_find_dir_from r base n off = None"
proof (cases "romfs_find_dir_from r base n off")
  case (Some y)
  let ?P = "\<lambda>r base n off. \<forall>off\<in>S. off \<noteq> NO_ENTRY \<and> (\<exists>d. romfs_dir_from_offset r off base = Ok d \<and> rdv_name d \<noteq> n
      \<and> de_sibling_offset (rdv_entry d) \<in> S)"
  from Some have "?P r base n off \<and> off \<in> S \<longrightarrow> False"
  proof (rule romfs_find_dir_from.raw_induct [where P = "\<lambda>r base n off y. ?P r base n off \<and> off \<in> S \<longrightarrow> False", rotated],
      intro impI, elim conjE)
    fix find_from r base n off y
    assume ih: "\<And>r base n off y. find_from r base n off = Some y \<Longrightarrow> ?P r base n off \<and> off \<in> S \<longrightarrow> False"
      and body: "(if off = NO_ENTRY then Some (Err Open_DirNotFound)
        else case romfs_dir_from_offset r off base of
            Ok child \<Rightarrow> if rdv_name child = n then Some (Ok child)
                         else find_from r base n (de_sibling_offset (rdv_entry child))
          | Err e \<Rightarrow> Some (Err e) | Panic \<Rightarrow> Some Panic) = Some y"
      and P: "?P r base n off" "off \<in> S"
    then obtain d where "romfs_dir_from_offset r off base = Ok d" "rdv_name d \<noteq> n"
      "de_sibling_offset (rdv_entry d) \<in> S" "off \<noteq> NO_ENTRY" by blast
    with body ih [of r base n "de_sibling_offset (rdv_entry d)" y] P(1) show False by simp
  qed
  with assms show ?thesis by blast
qed

end
