(* ===== verification/Romfs_Serve.thy ===== *)
theory Romfs_Serve
  imports Romfs_Lookup Romfs_Hash Romfs_Safe
begin

text \<open>
  The RomFS components put together: what a builder that files were added to serves once it is
  built, and that the order of the additions does not matter.
\<close>

section \<open>The files that were added\<close>

text \<open>The path a file is stored under, whatever the number of slashes it was added with.\<close>

definition normal_path :: "bytes \<Rightarrow> bytes" where
  "normal_path path = path_of (path_components path)"

definition romfs_files_of :: "(bytes \<times> bytes) list \<Rightarrow> (bytes \<times> bytes) list" where
  "romfs_files_of entries = map (\<lambda>(path, data). (normal_path path, data)) entries"

text \<open>The directories the files need: the root and everything above a file.\<close>

definition is_romfs_dir :: "(bytes \<times> bytes) list \<Rightarrow> bytes \<Rightarrow> bool" where
  "is_romfs_dir entries p \<longleftrightarrow> p = [] \<or> (\<exists>q\<in>fst ` set (romfs_files_of entries). \<exists>rest. q = p @ 0x2F # rest)"

lemma romfs_added:
  assumes "romfs_add_all romfs_new entries = Ok b"
  shows "romfs_wf b" "romfs_tight b" "romfs_fresh b" "romfs_contents b = romfs_files_of entries"
  using romfs_add_all_inv [OF romfs_wf_new romfs_tight_new romfs_fresh_new assms]
  by (simp_all add: romfs_contents_def romfs_new_def romfs_files_of_def normal_path_def)

lemma romfs_add_file_utf8:
  assumes u: "romfs_utf8 b" "utf8_valid path" and add: "romfs_add_file b path data = Ok b'"
  shows "romfs_utf8 b'"
proof -
  obtain ds j where e: "foldl romfs_enter_dir (rb_dirs b, 0) (butlast (path_components path)) = (ds, j)"
    by (cases "foldl romfs_enter_dir (rb_dirs b, 0) (butlast (path_components path))")
  have ok: "path \<noteq> [] \<and> hd path = 0x2F" "path_components path \<noteq> []"
    using add by (auto simp: romfs_add_file_def path_components_def Let_def split: if_splits)
  have cs: "\<forall>c\<in>set (path_components path). utf8_valid c" using path_components_utf8 u(2) ok(1) by blast
  have "\<forall>d\<in>set ds. utf8_valid (rd_name d)"
    using enter_dirs_all [of "\<lambda>d. utf8_valid (rd_name d)" "butlast (path_components path)" "(rb_dirs b, 0)"] u(1) e cs
    by (auto simp: romfs_utf8_def new_dir_def dest: in_set_butlastD)
  then have "\<forall>d\<in>set (ds[j := (\<lambda>d. d\<lparr>rd_files := rd_files d @ [length (rb_files b)]\<rparr>) (ds ! j)]). utf8_valid (rd_name d)"
    by (rule update_keeps_all) simp
  then show ?thesis
    using add e u(1) cs last_in_set [OF ok(2)] unfolding romfs_add_file_def path_components_def [symmetric] romfs_utf8_def
    by (auto simp: Let_def new_file_def split: if_splits)
qed

definition valid_path :: "bytes \<Rightarrow> bool" where
  "valid_path path \<longleftrightarrow> path \<noteq> [] \<and> hd path = 0x2F \<and> path_components path \<noteq> []"

lemma romfs_add_all_paths:
  "romfs_wf b \<Longrightarrow> romfs_add_all b entries = Ok b' \<Longrightarrow> \<forall>(path, data)\<in>set entries. valid_path path"
proof (induction entries arbitrary: b)
  case (Cons e es)
  obtain p d where e: "e = (p, d)" by (cases e)
  obtain b1 where "romfs_add_file b p d = Ok b1" "romfs_add_all b1 es = Ok b'"
    using Cons.prems(2) by (auto simp: romfs_add_all_def e rbind_eq_Ok)
  with Cons romfs_add_file_Ok [OF Cons.prems(1), of p d b1] show ?case by (auto simp: e valid_path_def)
qed simp

text \<open>Valid paths that normalise to different ones can be added in any order.\<close>

lemma romfs_add_all_succeeds:
  "romfs_wf b \<Longrightarrow> \<forall>(path, data)\<in>set entries. valid_path path \<Longrightarrow>
     distinct (map fst (romfs_contents b @ romfs_files_of entries)) \<Longrightarrow> \<exists>b'. romfs_add_all b entries = Ok b'"
proof (induction entries arbitrary: b)
  case (Cons e es)
  obtain p d where e: "e = (p, d)" by (cases e)
  have p: "p \<noteq> []" "hd p = 0x2F" "path_components p \<noteq> []" using Cons.prems(2) by (auto simp: e valid_path_def)
  have "path_of (path_components p) \<notin> set (map rf_path (rb_files b))"
    using Cons.prems(3) by (auto simp: e romfs_files_of_def normal_path_def romfs_contents_def)
  from romfs_add_file_ok [OF Cons.prems(1) p this, of d] obtain b1 where
    b1: "romfs_add_file b p d = Ok b1" "romfs_wf b1" "romfs_contents b1 = romfs_contents b @ [(normal_path p, d)]"
    by (auto simp: normal_path_def)
  have "distinct (map fst (romfs_contents b1 @ romfs_files_of es))"
    using Cons.prems(3) by (simp add: b1(3) romfs_files_of_def e)
  with Cons.IH [OF b1(2)] Cons.prems(2) have "\<exists>b'. romfs_add_all b1 es = Ok b'" by simp
  then show ?case by (simp add: romfs_add_all_def e b1(1))
qed (simp add: romfs_add_all_def)

lemma map_of_permuted:
  assumes "distinct (map fst xs)" "mset xs = mset ys"
  shows "map_of xs = map_of ys"
proof -
  have "set xs = set ys" "distinct (map fst ys)"
    using assms(1) mset_eq_setD [OF assms(2)] mset_eq_imp_distinct_iff [of "map fst xs" "map fst ys"]
      arg_cong [OF assms(2), of "image_mset fst"] by simp_all
  then show ?thesis using assms(1) by (metis map_of_inject_set)
qed

section \<open>Sizes\<close>

lemma file_partition_le:
  "foldl (\<lambda>size f. align64 size 0x10 + length (rf_data f)) d fs \<le> d + sum_list (map (\<lambda>f. length (rf_data f) + 0x10) fs)"
proof (induction fs arbitrary: d)
  case (Cons f fs)
  have "align64 d 0x10 < d + 0x10" by (simp add: align64_def align_up_lt)
  with Cons [of "align64 d 0x10 + length (rf_data f)"] show ?case by simp
qed simp

lemma table_size_count: "0 < fixed \<Longrightarrow> length ns \<le> table_size fixed ns"
proof (induction ns)
  case (Cons n ns)
  have "0 < entry_size fixed n"
    using Cons.prems align_up_ge [of 4 "fixed + n"] by (simp add: entry_size_def)
  with Cons show ?case by (simp add: table_offset_def)
qed (simp add: table_offset_def)

lemma romfs_hashed_lengths:
  assumes "romfs_hashed b = (b', dht, fht)"
  shows "length dht = romfs_get_hash_table_count (length (rb_dirs b))"
    "length fht = romfs_get_hash_table_count (length (rb_files b))"
proof -
  let ?b = "b\<lparr>rb_dir_hash_siblings := replicate (length (rb_dirs b)) (unat NO_ENTRY),
                rb_file_hash_siblings := replicate (length (rb_files b)) (unat NO_ENTRY)\<rparr>"
  obtain b1 where g: "generate_dir_hash_table ?b = (b1, dht)" "generate_file_hash_table b1 = (b', fht)"
    using assms by (auto simp: romfs_hashed_def Let_def split: prod.splits)
  from generate_keeps(1) [OF g(1)] generate_dir_chains(1) [OF g(1)] generate_file_chains(1) [OF g(2)]
  show "length dht = romfs_get_hash_table_count (length (rb_dirs b))"
    "length fht = romfs_get_hash_table_count (length (rb_files b))" by simp_all
qed

text \<open>The length of a built image is bounded by what was added.\<close>

lemma romfs_build_length:
  assumes wf: "romfs_wf b" and files: "rb_files b \<noteq> []" and fits: "romfs_fits b" and build: "romfs_build b = Ok img"
  shows "length img \<le> sum_list (map (\<lambda>(p, d). length d + 0x10) (romfs_contents b)) + 2 ^ 36"
proof -
  obtain b' dht fht where b': "romfs_build b = Ok (romfs_image b' dht fht)" "romfs_placed b'"
    "romfs_contents b' = sort_key fst (romfs_contents b)" "romfs_hashed (with_offsets (romfs_arranged b)) = (b', dht, fht)"
    by (rule romfs_build_view [OF wf files fits])
  have img: "img = romfs_image b' dht fht" using b'(1) build by simp
  have t: "table_size 0x18 (dir_names b') < 2 ^ 32" "table_size 0x20 (file_names b') < 2 ^ 32"
    using b'(2) by (simp_all add: romfs_placed_def romfs_fits_def)
  have n: "length (rb_dirs b') < 2 ^ 32" "length (rb_files b') < 2 ^ 32"
    using table_size_count [of "0x18" "dir_names b'"] table_size_count [of "0x20" "file_names b'"] t by simp_all
  have "length dht \<le> length (rb_dirs b') + 510511" "length fht \<le> length (rb_files b') + 510511"
    using romfs_hashed_lengths [OF b'(4)] romfs_hashed_keeps [OF b'(4)] hash_table_count_le by simp_all
  moreover have "calculate_file_partition_size b' \<le> sum_list (map (\<lambda>(p, d). length d + 0x10) (romfs_contents b))"
  proof -
    have "sum_list (map g (sort_key f xs)) = (sum_list (map g xs) :: nat)" for g f xs
      by (metis mset_map mset_sort sum_mset_sum_list)
    then have "sum_list (map (\<lambda>(p, d). length d + 0x10) (romfs_contents b'))
        = sum_list (map (\<lambda>(p, d). length d + 0x10) (romfs_contents b))"
      by (simp only: b'(3))
    then show ?thesis
      using file_partition_le [of 0 "rb_files b'"]
      by (simp add: calculate_file_partition_size_def romfs_contents_def comp_def)
  qed
  moreover have "align_up (0x200 + calculate_file_partition_size b') 4 < 0x204 + calculate_file_partition_size b'"
    using align_up_lt [of 4 "0x200 + calculate_file_partition_size b'"] by simp
  ultimately show ?thesis
    using t n by (simp add: img romfs_image_length length_romfs_body length_dir_table_of length_file_table_of)
qed

text \<open>Files of a tebibyte in total, each with room for its alignment, make an image a 64-bit offset reaches.\<close>

definition romfs_small :: "(bytes \<times> bytes) list \<Rightarrow> bool" where
  "romfs_small entries \<longleftrightarrow> sum_list (map (\<lambda>(path, data). length data + 0x10) entries) \<le> 2 ^ 40"

lemma romfs_small_image:
  assumes "romfs_add_all romfs_new entries = Ok b" "entries \<noteq> []" "romfs_fits b" "romfs_small entries" "romfs_build b = Ok img"
  shows "length img \<le> 2 ^ 41"
proof -
  note b = romfs_added [OF assms(1)]
  have "rb_files b \<noteq> []" using b(4) assms(2) by (auto simp: romfs_contents_def romfs_files_of_def)
  from romfs_build_length [OF b(1) this assms(3,5)] assms(4) show ?thesis
    by (simp add: b(4) romfs_files_of_def romfs_small_def comp_def case_prod_unfold)
qed

section \<open>What a build serves\<close>

text \<open>What the final builder of a build has in common with the list of files.\<close>

lemma romfs_serve:
  assumes add: "romfs_add_all romfs_new entries = Ok b" and ne: "entries \<noteq> []"
    and str: "\<forall>e\<in>set entries. utf8_valid (fst e)" and fits: "romfs_fits b" and small: "romfs_small entries"
  obtains b' dht fht where "length (romfs_image b' dht fht) \<le> usize_max" "romfs_build b = Ok (romfs_image b' dht fht)" "romfs_placed b'" "romfs_canonical b'"
    "romfs_utf8 b'" "map_of (romfs_contents b') = map_of (romfs_files_of entries)"
    "set (map rd_path (rb_dirs b')) = Collect (is_romfs_dir entries)"
proof -
  note b = romfs_added [OF add]
  have files: "rb_files b \<noteq> []" using b(4) ne by (auto simp: romfs_contents_def romfs_files_of_def)
  obtain b' dht fht where b': "romfs_build b = Ok (romfs_image b' dht fht)" "romfs_placed b'" "romfs_wf b'"
    "romfs_contents b' = sort_key fst (romfs_contents b)"
    "set (map rd_path (rb_dirs b')) = set (map rd_path (rb_dirs b))" "romfs_canonical b'"
    by (rule romfs_build_view [OF b(1) files fits])
  have keys: "set (map rf_path (rb_files b')) = set (map rf_path (rb_files b))"
    using arg_cong [OF b'(4), of "\<lambda>xs. set (map fst xs)"] by (simp flip: romfs_contents_paths)
  have tight: "romfs_tight b'" using b(2) unfolding romfs_tight_def b'(5) keys .
  have paths: "set (map rf_path (rb_files b)) = fst ` set (romfs_files_of entries)"
    using arg_cong [OF b(4), of "\<lambda>xs. set (map fst xs)"] by (simp flip: romfs_contents_paths)
  have "\<exists>cs. q = path_of cs \<and> (\<forall>c\<in>set cs. utf8_valid c \<and> 0x2F \<notin> set c)"
    if q: "q \<in> set (map rf_path (rb_files b'))" for q
  proof -
    obtain path d where e: "(path, d) \<in> set entries" "q = normal_path path"
      using q unfolding keys paths by (auto simp: romfs_files_of_def)
    have "path \<noteq> [] \<and> hd path = 0x2F" using romfs_add_all_paths [OF romfs_wf_new add] e(1) by (auto simp: valid_path_def)
    moreover have "utf8_valid path" using str e(1) by fastforce
    ultimately have "\<forall>c\<in>set (path_components path). utf8_valid c \<and> 0x2F \<notin> set c"
      using path_components_utf8 [of path] path_components_ok [of path] by (auto simp: name_ok_def)
    then show ?thesis using e(2) by (auto simp: normal_path_def)
  qed
  then have "romfs_utf8 b'" by (intro romfs_utf8_names [OF b'(3) tight]) blast
  moreover have "map_of (romfs_contents b') = map_of (romfs_files_of entries)"
    unfolding b'(4) b(4) [symmetric]
    by (rule map_of_permuted [symmetric]) (use romfs_wf_paths(2) [OF b(1)] in simp_all)
  moreover have "set (map rd_path (rb_dirs b')) = Collect (is_romfs_dir entries)"
    using b(2) unfolding b'(5) romfs_tight_def paths is_romfs_dir_def by blast
  moreover have "length (romfs_image b' dht fht) \<le> usize_max"
    using romfs_small_image [OF add ne fits small b'(1)] by (simp add: usize_max_def)
  ultimately show ?thesis using that [OF _ b'(1,2,6)] by blast
qed

section \<open>Lookups\<close>

lemma contents_find:
  assumes "romfs_wf b"
  shows "map_of (romfs_contents b) q = map_option (\<lambda>k. rf_data (rb_files b ! k))
    (find (\<lambda>k. rf_path (rb_files b ! k) = q) [0..<length (rb_files b)])"
proof -
  have "map_of (romfs_contents b) q = map_option (\<lambda>k. rf_data (rb_files b ! k))
    (find (\<lambda>k. rf_path (rb_files b ! k) = q) ks)" if "romfs_contents b = map (\<lambda>k. (rf_path (rb_files b ! k), rf_data (rb_files b ! k))) ks" for ks
    unfolding that by (induction ks) auto
  moreover have "romfs_contents b = map (\<lambda>k. (rf_path (rb_files b ! k), rf_data (rb_files b ! k))) [0..<length (rb_files b)]"
    by (rule nth_equalityI) (simp_all add: romfs_contents_def)
  ultimately show ?thesis .
qed

lemma romfs_lookup_spec:
  assumes len: "length (romfs_image b dht fht) \<le> usize_max" and p: "romfs_placed b" and u: "romfs_utf8 b"
    and q: "q \<noteq> []"
  shows "(case map_of (romfs_contents b) (0x2F # q) of
      Some d \<Rightarrow> \<exists>f. romfs_lookup b [] (split_slash q) = Ok f \<and> romfs_file_data (romfs_view b dht fht) f = Ok d
        \<and> romfs_file_size f = length d \<and> rfv_name f = last (split_slash q)
    | None \<Rightarrow> romfs_lookup b [] (split_slash q) =
        Err (if path_of (butlast (split_slash q)) \<in> set (map rd_path (rb_dirs b)) then Open_FileNotFound else Open_DirNotFound))"
proof -
  have wf: "romfs_wf b" using p by (simp add: romfs_placed_def)
  have split: "path_of (butlast (split_slash q)) @ 0x2F # last (split_slash q) = 0x2F # q"
    by (metis append_butlast_last_id append_Nil2 path_of_simps path_of_split_slash split_slash_nonempty)
  have last: "0x2F \<notin> set (last (split_slash q))" by (rule split_slash_no_slash [of _ q]) simp
  show ?thesis
  proof (cases "find (\<lambda>k. rf_path (rb_files b ! k) = 0x2F # q) [0..<length (rb_files b)]")
    case None
    then show ?thesis by (simp add: contents_find [OF wf] romfs_lookup_def)
  next
    case (Some k)
    then have k: "k < length (rb_files b)" "rf_path (rb_files b ! k) = 0x2F # q"
      by (auto simp: find_Some_iff)
    note f = romfs_wf_file [OF wf k(1)]
    have "rd_path (rb_dirs b ! rf_parent (rb_files b ! k)) @ 0x2F # rf_name (rb_files b ! k)
        = path_of (butlast (split_slash q)) @ 0x2F # last (split_slash q)"
      using f(3) k(2) split by simp
    from last_slash_unique [OF this _ last] f(2) have
      "path_of (butlast (split_slash q)) \<in> set (map rd_path (rb_dirs b))" "rf_name (rb_files b ! k) = last (split_slash q)"
      using f(1) by (auto simp: name_ok_def) (metis nth_mem rev_image_eqI)
    then show ?thesis
      using Some romfs_view_data [OF len p k(1)] view_names(2) [OF u k(1)]
      by (simp add: contents_find [OF wf] romfs_lookup_def)
  qed
qed

text \<open>
  The answer a lookup has to give, over the files and the directories there are: the file under the path, or the
  error that says which part of the path is not there.
\<close>

definition romfs_finds :: "(bytes \<Rightarrow> bytes option) \<Rightarrow> bytes set \<Rightarrow> romfs \<Rightarrow> bytes \<Rightarrow> bool" where
  "romfs_finds files dirs r path \<longleftrightarrow>
     (let q = dropWhile (\<lambda>x. x = 0x2F) path in
      case files (0x2F # q) of
        Some d \<Rightarrow> (case romfs_open r path of
            Some (Ok f) \<Rightarrow> romfs_file_data r f = Ok d \<and> romfs_file_size f = length d \<and> rfv_name f = last (split_slash q)
          | _ \<Rightarrow> False)
      | None \<Rightarrow> romfs_open r path = Some (Err
          (if q = [] then Open_PathNotFound
           else if path_of (butlast (split_slash q)) \<in> dirs then Open_FileNotFound
           else Open_DirNotFound)))"

text \<open>The view of a built image gives it for every path.\<close>

lemma romfs_finds_view:
  assumes len: "length (romfs_image b' dht fht) \<le> usize_max" and p: "romfs_placed b'" and u: "romfs_utf8 b'"
  shows "romfs_finds (map_of (romfs_contents b')) (set (map rd_path (rb_dirs b'))) (romfs_view b' dht fht) path"
proof -
  have wf: "romfs_wf b'" using p by (simp add: romfs_placed_def)
  have no_root: "map_of (romfs_contents b') [0x2F] = None"
  proof -
    have "rf_path f \<noteq> [0x2F]" if f: "f \<in> set (rb_files b')" for f
    proof
      assume p: "rf_path f = [0x2F]"
      obtain k where "k < length (rb_files b')" "f = rb_files b' ! k" using f by (auto simp: in_set_conv_nth)
      with p romfs_wf_file(2,3) [OF wf, of k] show False by (auto simp: name_ok_def append_eq_Cons_conv)
    qed
    then show ?thesis by (fastforce simp: map_of_eq_None_iff romfs_contents_def)
  qed
  show ?thesis
  proof (cases "dropWhile (\<lambda>x. x = 0x2F) path = []")
    case True
    then show ?thesis
      unfolding romfs_finds_def romfs_open_view [OF len p u] Let_def True by (simp add: no_root)
  next
    case False
    show ?thesis
      using romfs_lookup_spec [OF len p u False] False
      unfolding romfs_finds_def romfs_open_view [OF len p u] Let_def by (auto split: option.splits)
  qed
qed

text \<open>What files added under the given paths have to answer.\<close>

definition romfs_answers :: "(bytes \<times> bytes) list \<Rightarrow> romfs \<Rightarrow> bytes \<Rightarrow> bool" where
  "romfs_answers entries = romfs_finds (map_of (romfs_files_of entries)) (Collect (is_romfs_dir entries))"

lemma romfs_answers_built:
  assumes "romfs_add_all romfs_new entries = Ok b" "entries \<noteq> []"
    and "\<forall>e\<in>set entries. utf8_valid (fst e)" "romfs_fits b" "romfs_small entries"
  shows "\<exists>img r. romfs_build b = Ok img \<and> romfs_try_from_bytes img = Ok r \<and> (\<forall>path. romfs_answers entries r path)"
proof -
  obtain b' dht fht where len: "length (romfs_image b' dht fht) \<le> usize_max" and b': "romfs_build b = Ok (romfs_image b' dht fht)" "romfs_placed b'" "romfs_canonical b'"
    "romfs_utf8 b'" "map_of (romfs_contents b') = map_of (romfs_files_of entries)"
    "set (map rd_path (rb_dirs b')) = Collect (is_romfs_dir entries)"
    by (rule romfs_serve [OF assms])
  show ?thesis
    using romfs_finds_view [OF len b'(2,4)] b'(1) romfs_view_parses [OF len]
    unfolding romfs_answers_def b'(5,6) by blast
qed

section \<open>Listings\<close>

text \<open>The view of the directory with a given path.\<close>

definition dir_at :: "romfs_builder \<Rightarrow> bytes \<Rightarrow> romfs_dir" where
  "dir_at b p = dir_view b (the (find (\<lambda>i. rd_path (rb_dirs b ! i) = p) [0..<length (rb_dirs b)]))"

lemma dir_at_path:
  assumes "romfs_wf b" "i < length (rb_dirs b)"
  shows "dir_at b (rd_path (rb_dirs b ! i)) = dir_view b i"
proof -
  have "i \<in> set [0..<length (rb_dirs b)]" using assms(2) by simp
  moreover have "rd_path (rb_dirs b ! j) = rd_path (rb_dirs b ! i) \<longleftrightarrow> j = i" if "j \<in> set [0..<length (rb_dirs b)]" for j
    using romfs_wf_inj [OF assms(1) _ assms(2), of j] that by auto
  ultimately have "find (\<lambda>j. rd_path (rb_dirs b ! j) = rd_path (rb_dirs b ! i)) [0..<length (rb_dirs b)] = Some i"
    by (rule find_unique)
  then show ?thesis by (simp add: dir_at_def)
qed

lemma distinct_names:
  assumes "romfs_wf b" "i < length (rb_dirs b)"
  shows "distinct (map (\<lambda>c. rd_name (rb_dirs b ! c)) (rd_children (rb_dirs b ! i)))"
    "distinct (map (\<lambda>k. rf_name (rb_files b ! k)) (rd_files (rb_dirs b ! i)))"
  using romfs_wf_lists(1,2) [OF assms] romfs_wf_names [OF assms] by (simp_all add: distinct_map)

lemma listing_files:
  assumes len: "length (romfs_image b dht fht) \<le> usize_max" and p: "romfs_placed b" and u: "romfs_utf8 b"
    and i: "i < length (rb_dirs b)"
  shows "(\<exists>f\<in>set (map (file_view b) (rd_files (rb_dirs b ! i))).
      rfv_name f = n \<and> romfs_file_data (romfs_view b dht fht) f = Ok d) \<longleftrightarrow>
    0x2F \<notin> set n \<and> map_of (romfs_contents b) (rd_path (rb_dirs b ! i) @ 0x2F # n) = Some d"
proof -
  have wf: "romfs_wf b" using p by (simp add: romfs_placed_def)
  note l = romfs_wf_lists(4) [OF wf i]
  have "(\<exists>f\<in>set (map (file_view b) (rd_files (rb_dirs b ! i))).
      rfv_name f = n \<and> romfs_file_data (romfs_view b dht fht) f = Ok d) \<longleftrightarrow>
    (\<exists>k\<in>set (rd_files (rb_dirs b ! i)). rf_name (rb_files b ! k) = n \<and> rf_data (rb_files b ! k) = d)"
    using l romfs_view_data(1) [OF len p] view_names(2) [OF u] by auto
  also have "\<dots> \<longleftrightarrow> 0x2F \<notin> set n \<and> map_of (romfs_contents b) (rd_path (rb_dirs b ! i) @ 0x2F # n) = Some d"
  proof (cases "0x2F \<in> set n")
    case True
    then show ?thesis using l romfs_wf_file(2) [OF wf] by (auto simp: name_ok_def)
  next
    case False
    have "(\<exists>k\<in>set (rd_files (rb_dirs b ! i)). rf_name (rb_files b ! k) = n \<and> rf_data (rb_files b ! k) = d)
      \<longleftrightarrow> (\<exists>k. find (\<lambda>k. rf_name (rb_files b ! k) = n) (rd_files (rb_dirs b ! i)) = Some k \<and> rf_data (rb_files b ! k) = d)"
    proof
      assume "\<exists>k\<in>set (rd_files (rb_dirs b ! i)). rf_name (rb_files b ! k) = n \<and> rf_data (rb_files b ! k) = d"
      then obtain k where k: "k \<in> set (rd_files (rb_dirs b ! i))" "rf_name (rb_files b ! k) = n" "rf_data (rb_files b ! k) = d"
        by blast
      have "rf_name (rb_files b ! j) = n \<longleftrightarrow> j = k" if "j \<in> set (rd_files (rb_dirs b ! i))" for j
        using inj_onD [OF romfs_wf_names(2) [OF wf i] _ that k(1)] k(2) by auto
      from find_unique [OF k(1) this] k(3)
      show "\<exists>k. find (\<lambda>k. rf_name (rb_files b ! k) = n) (rd_files (rb_dirs b ! i)) = Some k \<and> rf_data (rb_files b ! k) = d"
        by blast
    qed (auto simp: find_Some_iff)
    then show ?thesis using False by (auto simp: find_file_index [OF wf i False] contents_find [OF wf])
  qed
  finally show ?thesis .
qed

lemma romfs_listing_view:
  assumes len: "length (romfs_image b dht fht) \<le> usize_max" and p: "romfs_placed b" and u: "romfs_utf8 b"
    and c: "romfs_canonical b" and P: "P \<in> set (map rd_path (rb_dirs b))"
  shows "\<exists>ns fs. (dir_iterator_collect (romfs_view b dht fht) (romfs_entries (romfs_view b dht fht) (dir_at b P))
      :: (romfs_entry list, 'e) result option)
      = Some (Ok (map (\<lambda>n. Romfs_Dir (dir_at b (P @ 0x2F # n))) ns @ map Romfs_File fs))
    \<and> sorted ns \<and> distinct ns \<and> sorted (map rfv_name fs) \<and> distinct (map rfv_name fs)
    \<and> (\<forall>n. n \<in> set ns \<longleftrightarrow> 0x2F \<notin> set n \<and> P @ 0x2F # n \<in> set (map rd_path (rb_dirs b)))
    \<and> (\<forall>n\<in>set ns. rdv_name (dir_at b (P @ 0x2F # n)) = n)
    \<and> (\<forall>n d. (\<exists>f\<in>set fs. rfv_name f = n \<and> romfs_file_data (romfs_view b dht fht) f = Ok d) \<longleftrightarrow>
         0x2F \<notin> set n \<and> map_of (romfs_contents b) (P @ 0x2F # n) = Some d)"
proof -
  have wf: "romfs_wf b" using p by (simp add: romfs_placed_def)
  obtain i where i: "i < length (rb_dirs b)" "P = rd_path (rb_dirs b ! i)"
    using P by (auto simp: in_set_conv_nth)
  let ?cs = "rd_children (rb_dirs b ! i)" and ?ks = "rd_files (rb_dirs b ! i)"
  let ?ns = "map (\<lambda>c. rd_name (rb_dirs b ! c)) ?cs" and ?fs = "map (file_view b) ?ks"
  note l = romfs_wf_lists [OF wf i(1)]
  have child: "dir_at b (P @ 0x2F # rd_name (rb_dirs b ! c)) = dir_view b c" "rdv_name (dir_view b c) = rd_name (rb_dirs b ! c)"
    if "c \<in> set ?cs" for c
  proof -
    have c: "0 < c" "c < length (rb_dirs b)" "rd_parent (rb_dirs b ! c) = i" using l(3) that by blast+
    show "dir_at b (P @ 0x2F # rd_name (rb_dirs b ! c)) = dir_view b c"
      using romfs_wf_dir(3) [OF wf c(2,1)] dir_at_path [OF wf c(2)] unfolding c(3) i(2) by simp
    show "rdv_name (dir_view b c) = rd_name (rb_dirs b ! c)" by (rule view_names(1) [OF u c(2)])
  qed
  have names: "map rfv_name ?fs = map (\<lambda>k. rf_name (rb_files b ! k)) ?ks"
    using l(4) view_names(2) [OF u] by simp
  have "dir_iterator_collect (romfs_view b dht fht) (romfs_entries (romfs_view b dht fht) (dir_at b P))
      = (Some (Ok (map (\<lambda>c. Romfs_Dir (dir_view b c)) ?cs @ map (\<lambda>k. Romfs_File (file_view b k)) ?ks))
          :: (romfs_entry list, 'e) result option)"
    unfolding i(2) dir_at_path [OF wf i(1)] by (rule entries_view [OF len p i(1)])
  moreover have "map (\<lambda>c. Romfs_Dir (dir_view b c)) ?cs = map (\<lambda>n. Romfs_Dir (dir_at b (P @ 0x2F # n))) ?ns"
    using child(1) by simp
  moreover have "map (\<lambda>k. Romfs_File (file_view b k)) ?ks = map Romfs_File ?fs" by simp
  moreover have "n \<in> set ?ns \<longleftrightarrow> 0x2F \<notin> set n \<and> P @ 0x2F # n \<in> set (map rd_path (rb_dirs b))" for n
  proof (cases "0x2F \<in> set n")
    case True
    then show ?thesis using l(3) romfs_wf_dir(2) [OF wf] by (auto simp: name_ok_def)
  next
    case False
    then show ?thesis using romfs_child_path [OF wf i(1) False] unfolding i(2) by auto
  qed
  moreover have "\<forall>n\<in>set ?ns. rdv_name (dir_at b (P @ 0x2F # n)) = n" using child by auto
  moreover have "sorted ?ns" "sorted (map rfv_name ?fs)"
    using c i(1) unfolding romfs_canonical_def names by blast+
  moreover have "distinct ?ns" "distinct (map rfv_name ?fs)"
    using distinct_names [OF wf i(1)] unfolding names by blast+
  moreover note listing_files [OF len p u i(1), folded i(2)]
  ultimately show ?thesis by (intro exI [of _ ?ns] exI [of _ ?fs] conjI allI) (simp_all only:)
qed

section \<open>The order of additions\<close>

lemma romfs_arranged_unique:
  assumes wf: "romfs_wf b" "romfs_wf b'" and tight: "romfs_tight b" "romfs_tight b'" and fresh: "romfs_fresh b" "romfs_fresh b'"
    and same: "mset (romfs_contents b) = mset (romfs_contents b')"
  shows "romfs_arranged b = romfs_arranged b'"
proof (rule canonical_unique)
  have "set (map rf_path (rb_files b)) = set (map rf_path (rb_files b'))"
    using mset_eq_setD [OF same] by (simp flip: romfs_contents_paths)
  then have "set (map rd_path (rb_dirs b)) = set (map rd_path (rb_dirs b'))"
    using tight unfolding romfs_tight_def by simp
  then have "mset (map rd_path (rb_dirs b)) = mset (map rd_path (rb_dirs b'))"
    using romfs_wf_paths(1) [OF wf(1)] romfs_wf_paths(1) [OF wf(2)] set_eq_iff_mset_eq_distinct by blast
  then have "sort (map rd_path (rb_dirs b)) = sort (map rd_path (rb_dirs b'))"
    by (intro properties_for_sort) simp_all
  then show "map rd_path (rb_dirs (romfs_arranged b)) = map rd_path (rb_dirs (romfs_arranged b'))"
    by (simp add: romfs_arranged_contents del: map_eq_conv)
  have "inj_on fst (set (romfs_contents b))"
    using romfs_wf_paths(2) [OF wf(1)] by (simp add: distinct_map flip: romfs_contents_paths)
  then have "sort_key fst (romfs_contents b) = sort_key fst (romfs_contents b')"
    by (intro sort_key_inj_key_eq) (simp_all add: same)
  then show "romfs_contents (romfs_arranged b) = romfs_contents (romfs_arranged b')"
    by (simp add: romfs_arranged_contents)
qed (use wf fresh in \<open>simp_all add: romfs_arranged_canonical romfs_arranged_fresh\<close>)

lemma romfs_build_arranged:
  assumes "romfs_arranged b = romfs_arranged b'"
  shows "romfs_build b = romfs_build b'"
proof -
  have "length (rb_files b) = length (rb_files b')"
    using arg_cong [OF assms, of "\<lambda>b. length (rb_files b)"] by (simp add: romfs_arranged_contents)
  then have "rb_files b = [] \<longleftrightarrow> rb_files b' = []" by (simp flip: length_0_conv)
  then show ?thesis
    unfolding romfs_build_def romfs_arranged_def [symmetric] assms by simp
qed

end
