(* ===== verification/Romfs_Directory.thy ===== *)
theory Romfs_Directory
  imports Romfs_Serve
begin

text \<open>
  \<^verbatim>\<open>from_directory\<close>: what a walk over a directory tree of the host has to find, that the loop
  over its stack finds it, and what an image built from it serves.
\<close>

section \<open>The tree\<close>

text \<open>
  \<open>walks fs pre path F D\<close>: the host directory \<open>path\<close>, to be known as \<open>pre\<close>, is the root of a finite tree
  without symbolic links, in which everything can be read, with the files \<open>F\<close> and the directories
  \<open>D\<close>.  Within a directory names are distinct, valid UTF-8, not empty, and free of slashes, as a
  file system guarantees.
\<close>

fun entry_name :: "fs_entry \<Rightarrow> bytes option" where
  "entry_name Fs_Unreadable = None"
| "entry_name (Fs_Entry p k n c) = n"

definition names_fine :: "fs_entry list \<Rightarrow> bool" where
  "names_fine es \<longleftrightarrow> distinct (map entry_name es)
     \<and> (\<forall>e\<in>set es. \<exists>n. entry_name e = Some n \<and> name_ok n \<and> utf8_valid n)"

inductive walks ::
    "(bytes \<Rightarrow> fs_entry list option) \<Rightarrow> bytes \<Rightarrow> bytes \<Rightarrow> (bytes \<times> bytes) list \<Rightarrow> bytes list \<Rightarrow> bool"
  and walks_entries ::
    "(bytes \<Rightarrow> fs_entry list option) \<Rightarrow> bytes \<Rightarrow> fs_entry list \<Rightarrow> (bytes \<times> bytes) list \<Rightarrow> bytes list \<Rightarrow> bool"
  for fs :: "bytes \<Rightarrow> fs_entry list option" where
  walk_dir: "fs path = Some es \<Longrightarrow> names_fine es \<Longrightarrow> walks_entries fs pre es F D \<Longrightarrow> walks fs pre path F (pre # D)"
| walk_end: "walks_entries fs pre [] [] []"
| walk_file: "walks_entries fs pre es F D \<Longrightarrow>
    walks_entries fs pre (Fs_Entry p (Some Fs_File) (Some n) (Some d) # es) ((pre @ 0x2F # n, d) # F) D"
| walk_subdir: "walks fs (pre @ 0x2F # n) p F D \<Longrightarrow> walks_entries fs pre es F' D' \<Longrightarrow>
    walks_entries fs pre (Fs_Entry p (Some Fs_Dir) (Some n) c # es) (F @ F') (D @ D')"
| walk_other: "walks_entries fs pre es F D \<Longrightarrow>
    walks_entries fs pre (Fs_Entry p (Some Fs_Other) (Some n) c # es) F D"

inductive_cases walksE: "walks fs pre path F D"

section \<open>The loop\<close>

text \<open>A directory still to be read: its index, where it is on the host, and what its walk finds.\<close>

type_synonym pending = "nat \<times> bytes \<times> (bytes \<times> bytes) list \<times> bytes list"

definition pending_ok :: "(bytes \<Rightarrow> fs_entry list option) \<Rightarrow> romfs_builder \<Rightarrow> pending \<Rightarrow> bool" where
  "pending_ok fs b = (\<lambda>(i, path, F, D). i < length (rb_dirs b)
     \<and> rd_children (rb_dirs b ! i) = [] \<and> rd_files (rb_dirs b ! i) = []
     \<and> walks fs (rd_path (rb_dirs b ! i)) path F D)"

definition pending_stack :: "pending list \<Rightarrow> (nat \<times> bytes) list" where
  "pending_stack ps = map (\<lambda>(i, path, F, D). (i, path)) ps"

definition pending_files :: "pending list \<Rightarrow> (bytes \<times> bytes) list" where
  "pending_files ps = concat (map (\<lambda>(i, path, F, D). F) ps)"

text \<open>The directories below the pending ones, which are in the builder already.\<close>

definition pending_dirs :: "pending list \<Rightarrow> bytes list" where
  "pending_dirs ps = concat (map (\<lambda>(i, path, F, D). tl D) ps)"

lemma pending_simps [simp]:
  "pending_stack [] = []" "pending_files [] = []" "pending_dirs [] = []"
  "pending_stack ((i, path, F, D) # ps) = (i, path) # pending_stack ps"
  "pending_files ((i, path, F, D) # ps) = F @ pending_files ps"
  "pending_dirs ((i, path, F, D) # ps) = tl D @ pending_dirs ps"
  "pending_stack (ps @ qs) = pending_stack ps @ pending_stack qs"
  "pending_files (ps @ qs) = pending_files ps @ pending_files qs"
  "pending_dirs (ps @ qs) = pending_dirs ps @ pending_dirs qs"
  by (simp_all add: pending_stack_def pending_files_def pending_dirs_def)

lemma scan_dir_entry:
  "i < length (rb_dirs b) \<Longrightarrow> romfs_scan_entry path i (b, stk) (Fs_Entry p (Some Fs_Dir) (Some n) c)
     = Ok (b\<lparr>rb_dirs := link_dir (rb_dirs b) i n\<rparr>, stk @ [(length (rb_dirs b), p)])"
  by (simp add: romfs_scan_entry_def link_dir_def Let_def nth_append)

lemma scan_file_entry:
  "romfs_scan_entry path i (b, stk) (Fs_Entry p (Some Fs_File) (Some n) (Some d)) = Ok (link_file b i n d, stk)"
  by (simp add: romfs_scan_entry_def link_file_def Let_def)

lemma scan_other_entry:
  "romfs_scan_entry path i (b, stk) (Fs_Entry p (Some Fs_Other) (Some n) c) = Ok (b, stk)"
  by (simp add: romfs_scan_entry_def Let_def)

text \<open>What linking does to the contents, and to the other directories.\<close>

lemma link_dir_contents [simp]: "romfs_contents (b\<lparr>rb_dirs := ds\<rparr>) = romfs_contents b"
  by (simp add: romfs_contents_def)

lemma link_file_contents:
  "romfs_contents (link_file b i n d) = romfs_contents b @ [(rd_path (rb_dirs b ! i) @ 0x2F # n, d)]"
  by (simp add: romfs_contents_def link_file_def new_file_def)

lemma link_file_dirs:
  assumes "i < length (rb_dirs b)"
  shows "length (rb_dirs (link_file b i n d)) = length (rb_dirs b)"
    "map rd_path (rb_dirs (link_file b i n d)) = map rd_path (rb_dirs b)"
    "rd_path (rb_dirs (link_file b i n d) ! i) = rd_path (rb_dirs b ! i)"
    "rd_children (rb_dirs (link_file b i n d) ! j) = rd_children (rb_dirs b ! j)"
  using assms by (auto simp: link_file_def map_update nth_list_update intro!: list_update_same_conv [THEN iffD2])

definition names_used :: "romfs_builder \<Rightarrow> nat \<Rightarrow> bytes set" where
  "names_used b i = (\<lambda>c. rd_name (rb_dirs b ! c)) ` set (rd_children (rb_dirs b ! i))
     \<union> (\<lambda>k. rf_name (rb_files b ! k)) ` set (rd_files (rb_dirs b ! i))"

lemma link_dir_step:
  assumes wf: "romfs_wf b" and u: "romfs_utf8 b" and i: "i < length (rb_dirs b)"
    and n: "name_ok n" "utf8_valid n" "n \<notin> names_used b i"
  defines "b1 \<equiv> b\<lparr>rb_dirs := link_dir (rb_dirs b) i n\<rparr>"
  shows "romfs_wf b1" "romfs_utf8 b1" "names_used b1 i = insert n (names_used b i)"
    "rd_path (rb_dirs b1 ! i) = rd_path (rb_dirs b ! i)" "pending_ok fs b x \<Longrightarrow> fst x \<noteq> i \<Longrightarrow> pending_ok fs b1 x"
    "walks fs (rd_path (rb_dirs b ! i) @ 0x2F # n) p F D \<Longrightarrow> pending_ok fs b1 (length (rb_dirs b), p, F, D)"
proof -
  note at_ = nth_link_dir [OF i]
  show "romfs_wf b1"
    unfolding b1_def by (rule link_dir_wf [OF wf i n(1)]) (use n(3) in \<open>auto simp: names_used_def\<close>)
  have "rd_name (link_dir (rb_dirs b) i n ! c) = (if c = length (rb_dirs b) then n else rd_name (rb_dirs b ! c))"
    if "c < Suc (length (rb_dirs b))" for c
    using that at_ [of c n] by (simp add: new_dir_def)
  then show "romfs_utf8 b1"
    using u n(2) by (auto simp: romfs_utf8_def b1_def all_set_conv_all_nth less_Suc_eq)
  have kids: "c < length (rb_dirs b)" if "c \<in> set (rd_children (rb_dirs b ! i))" for c
    using romfs_wf_lists(3) [OF wf i] that by blast
  have "(\<lambda>c. rd_name (link_dir (rb_dirs b) i n ! c)) ` set (rd_children (rb_dirs b ! i))
      = (\<lambda>c. rd_name (rb_dirs b ! c)) ` set (rd_children (rb_dirs b ! i))"
    using kids at_ by (intro image_cong) (auto simp: less_Suc_eq)
  then show "names_used b1 i = insert n (names_used b i)"
    using i at_ [of i n] at_ [of "length (rb_dirs b)" n] by (simp add: names_used_def b1_def new_dir_def)
  show "rd_path (rb_dirs b1 ! i) = rd_path (rb_dirs b ! i)" using i at_ [of i n] by (simp add: b1_def)
  show "pending_ok fs b x \<Longrightarrow> fst x \<noteq> i \<Longrightarrow> pending_ok fs b1 x"
    using at_ by (auto simp: pending_ok_def b1_def less_Suc_eq)
  show "walks fs (rd_path (rb_dirs b ! i) @ 0x2F # n) p F D \<Longrightarrow> pending_ok fs b1 (length (rb_dirs b), p, F, D)"
    using i at_ [of "length (rb_dirs b)" n] by (simp add: pending_ok_def b1_def new_dir_def)
qed

lemma link_file_step:
  fixes d :: bytes
  assumes wf: "romfs_wf b" and u: "romfs_utf8 b" and i: "i < length (rb_dirs b)"
    and n: "name_ok n" "utf8_valid n" "n \<notin> names_used b i"
  defines "b1 \<equiv> link_file b i n d"
  shows "romfs_wf b1" "romfs_utf8 b1" "names_used b1 i = insert n (names_used b i)"
    "pending_ok fs b x \<Longrightarrow> fst x \<noteq> i \<Longrightarrow> pending_ok fs b1 x"
proof -
  show "romfs_wf b1"
    unfolding b1_def by (rule link_file_wf [OF wf i n(1)]) (use n(3) in \<open>auto simp: names_used_def\<close>)
  have names: "rd_name (rb_dirs b1 ! c) = rd_name (rb_dirs b ! c)" if "c < length (rb_dirs b)" for c
    using that i by (simp add: b1_def link_file_def nth_list_update)
  then show "romfs_utf8 b1"
    using u n(2) i link_file_dirs(1) [OF i, of n d]
    by (auto simp: romfs_utf8_def b1_def in_set_conv_nth all_set_conv_all_nth link_file_def new_file_def nth_append nth_list_update less_Suc_eq)
  have ks: "k < length (rb_files b)" if "k \<in> set (rd_files (rb_dirs b ! i))" for k
    using romfs_wf_lists(4) [OF wf i] that by blast
  have "(\<lambda>c. rd_name (rb_dirs b1 ! c)) ` set (rd_children (rb_dirs b1 ! i))
      = (\<lambda>c. rd_name (rb_dirs b ! c)) ` set (rd_children (rb_dirs b ! i))"
    using names romfs_wf_lists(3) [OF wf i] link_file_dirs(4) [OF i] by (auto simp: b1_def)
  moreover have "(\<lambda>k. rf_name (rb_files b1 ! k)) ` set (rd_files (rb_dirs b1 ! i))
      = insert n ((\<lambda>k. rf_name (rb_files b ! k)) ` set (rd_files (rb_dirs b ! i)))"
    using i ks by (auto simp: b1_def link_file_def nth_append new_file_def)
  ultimately show "names_used b1 i = insert n (names_used b i)" by (simp add: names_used_def)
  show "pending_ok fs b x \<Longrightarrow> fst x \<noteq> i \<Longrightarrow> pending_ok fs b1 x"
    by (auto simp: pending_ok_def b1_def link_file_def nth_list_update)
qed

inductive_cases walks_nilE: "walks_entries fs pre [] F D"
inductive_cases walks_consE: "walks_entries fs pre (e # es) F D"

text \<open>
  The loop over the entries of one directory, with others pending: it adds what is there and leaves the
  subdirectories pending.
\<close>

definition scanned ::
  "(bytes \<Rightarrow> fs_entry list option) \<Rightarrow> romfs_builder \<Rightarrow> pending list \<Rightarrow> romfs_builder \<Rightarrow> pending list
     \<Rightarrow> (bytes \<times> bytes) list \<Rightarrow> bytes list \<Rightarrow> bool" where
  "scanned fs b old b' new F D \<longleftrightarrow> romfs_wf b' \<and> romfs_utf8 b'
     \<and> (\<forall>x\<in>set (old @ new). pending_ok fs b' x) \<and> distinct (map fst (old @ new))
     \<and> mset (romfs_contents b') + mset (pending_files new) = mset (romfs_contents b) + mset F
     \<and> set (map rd_path (rb_dirs b')) \<union> set (pending_dirs new) = set (map rd_path (rb_dirs b)) \<union> set D
     \<and> sum_list (map (\<lambda>(i, p, F, D). length D) new) = length D"

lemma scan_entries:
  assumes "walks_entries fs (rd_path (rb_dirs b ! i)) es F D" "romfs_wf b" "romfs_utf8 b" "i < length (rb_dirs b)"
    and "distinct (map entry_name es)"
    and "\<forall>e\<in>set es. \<exists>n. entry_name e = Some n \<and> name_ok n \<and> utf8_valid n \<and> n \<notin> names_used b i"
    and "\<forall>x\<in>set old. pending_ok fs b x \<and> fst x \<noteq> i" "distinct (map fst old)"
  shows "\<exists>b' new. rfold (romfs_scan_entry path i) (b, stk) es = Ok (b', stk @ pending_stack new)
    \<and> scanned fs b old b' new F D"
  using assms
proof (induction es arbitrary: b stk F D old)
  case Nil
  then show ?case
    by (auto elim!: walks_nilE simp: scanned_def intro!: exI [of _ "[] :: pending list"])
next
  case (Cons e es)
  let ?pre = "rd_path (rb_dirs b ! i)"
  note wf = Cons.prems(2) and u = Cons.prems(3) and i = Cons.prems(4)
  have rest: "\<forall>e'\<in>set es. \<exists>m. entry_name e' = Some m \<and> name_ok m \<and> utf8_valid m \<and> m \<notin> insert n (names_used b i)"
    if "entry_name e = Some n" for n
  proof
    fix e' assume e': "e' \<in> set es"
    then obtain m where m: "entry_name e' = Some m" "name_ok m" "utf8_valid m" "m \<notin> names_used b i"
      using Cons.prems(6) by auto
    have "entry_name e \<notin> entry_name ` set es" using Cons.prems(5) by simp
    then have "m \<noteq> n" using that m(1) e' by (metis imageI)
    with m show "\<exists>m. entry_name e' = Some m \<and> name_ok m \<and> utf8_valid m \<and> m \<notin> insert n (names_used b i)" by blast
  qed
  have dist: "distinct (map entry_name es)" using Cons.prems(5) by simp
  from Cons.prems(1) show ?case
  proof (rule walks_consE)
    fix F1 p n d
    assume 1: "e = Fs_Entry p (Some Fs_File) (Some n) (Some d)" "F = (?pre @ 0x2F # n, d) # F1"
      "walks_entries fs ?pre es F1 D"
    have n: "name_ok n" "utf8_valid n" "n \<notin> names_used b i" using Cons.prems(6) by (auto simp: 1)
    let ?b = "link_file b i n d"
    note st = link_file_step [OF wf u i n, where d = d]
    have "\<exists>b' new. rfold (romfs_scan_entry path i) (?b, stk) es = Ok (b', stk @ pending_stack new)
        \<and> scanned fs ?b old b' new F1 D"
    proof (rule Cons.IH [OF _ st(1,2) _ dist _ _ Cons.prems(8)])
      show "walks_entries fs (rd_path (rb_dirs ?b ! i)) es F1 D" using 1(3) link_file_dirs(3) [OF i, of n d] by simp
      show "i < length (rb_dirs ?b)" using i link_file_dirs(1) [OF i, of n d] by simp
      show "\<forall>e\<in>set es. \<exists>m. entry_name e = Some m \<and> name_ok m \<and> utf8_valid m \<and> m \<notin> names_used ?b i"
        unfolding st(3) by (rule rest) (simp add: 1)
      show "\<forall>x\<in>set old. pending_ok fs ?b x \<and> fst x \<noteq> i" using Cons.prems(7) st(4) by blast
    qed
    then show ?thesis
      by (auto simp: 1 scan_file_entry scanned_def link_file_contents link_file_dirs(2) [OF i] simp del: set_map)
  next
    fix n p F1 D1 F2 D2 c
    assume 2: "e = Fs_Entry p (Some Fs_Dir) (Some n) c" "F = F1 @ F2" "D = D1 @ D2"
        "walks fs (?pre @ 0x2F # n) p F1 D1" "walks_entries fs ?pre es F2 D2"
    have n: "name_ok n" "utf8_valid n" "n \<notin> names_used b i" using Cons.prems(6) by (auto simp: 2)
    let ?b = "b\<lparr>rb_dirs := link_dir (rb_dirs b) i n\<rparr>" and ?x = "(length (rb_dirs b), p, F1, D1)"
    note st = link_dir_step [OF wf u i n]
    have D1: "D1 = (?pre @ 0x2F # n) # tl D1" using 2(4) by (auto elim: walksE)
    have idx: "fst x < length (rb_dirs b)" if "x \<in> set old" for x
      using Cons.prems(7) that by (cases x) (auto simp: pending_ok_def)
    have "\<exists>b' new. rfold (romfs_scan_entry path i) (?b, stk @ [(length (rb_dirs b), p)]) es
          = Ok (b', (stk @ [(length (rb_dirs b), p)]) @ pending_stack new)
        \<and> scanned fs ?b (old @ [?x]) b' new F2 D2"
    proof (rule Cons.IH [OF _ st(1,2) _ dist])
      show "walks_entries fs (rd_path (rb_dirs ?b ! i)) es F2 D2" unfolding st(4) by (rule 2(5))
      show "i < length (rb_dirs ?b)" using i by simp
      show "\<forall>e\<in>set es. \<exists>m. entry_name e = Some m \<and> name_ok m \<and> utf8_valid m \<and> m \<notin> names_used ?b i"
        unfolding st(3) by (rule rest) (simp add: 2)
      show "\<forall>x\<in>set (old @ [?x]). pending_ok fs ?b x \<and> fst x \<noteq> i"
        using Cons.prems(7) st(5) st(6) [OF 2(4)] i by fastforce
      show "distinct (map fst (old @ [?x]))" using Cons.prems(8) idx by fastforce
    qed
    then obtain b' new where r: "rfold (romfs_scan_entry path i) (?b, stk @ [(length (rb_dirs b), p)]) es
          = Ok (b', (stk @ [(length (rb_dirs b), p)]) @ pending_stack new)"
      and s: "scanned fs ?b (old @ [?x]) b' new F2 D2" by blast
    have "scanned fs b old b' (?x # new) (F1 @ F2) (D1 @ D2)"
      unfolding scanned_def
    proof (intro conjI)
      note q = s [unfolded scanned_def]
      show "romfs_wf b'" "romfs_utf8 b'" using q by blast+
      show "\<forall>x\<in>set (old @ ?x # new). pending_ok fs b' x" "distinct (map fst (old @ ?x # new))"
        using q by simp_all
      show "mset (romfs_contents b') + mset (pending_files (?x # new)) = mset (romfs_contents b) + mset (F1 @ F2)"
        using q by (simp add: ac_simps)
      have p: "set (map rd_path (rb_dirs b')) \<union> set (pending_dirs new)
          = (set (map rd_path (rb_dirs b)) \<union> {?pre @ 0x2F # n}) \<union> set D2"
        using q by (simp add: link_dir_paths [OF i] del: set_map) 
      have "set (map rd_path (rb_dirs b')) \<union> set (pending_dirs (?x # new))
          = (set (map rd_path (rb_dirs b')) \<union> set (pending_dirs new)) \<union> set (tl D1)"
        by (simp add: ac_simps)
      also have "\<dots> = set (map rd_path (rb_dirs b)) \<union> (insert (?pre @ 0x2F # n) (set (tl D1)) \<union> set D2)"
        unfolding p by blast
      also have "insert (?pre @ 0x2F # n) (set (tl D1)) = set D1" by (subst (2) D1) simp
      finally show "set (map rd_path (rb_dirs b')) \<union> set (pending_dirs (?x # new))
          = set (map rd_path (rb_dirs b)) \<union> set (D1 @ D2)" by simp
      show "sum_list (map (\<lambda>(i, p, F, D). length D) (?x # new)) = length (D1 @ D2)" using q by simp
    qed
    with r show ?thesis
      by (intro exI [of _ b'] exI [of _ "?x # new"]) (simp add: 2 scan_dir_entry [OF i])
  next
    fix p n c
    assume 3: "e = Fs_Entry p (Some Fs_Other) (Some n) c" "walks_entries fs ?pre es F D"
    have "\<exists>b' new. rfold (romfs_scan_entry path i) (b, stk) es = Ok (b', stk @ pending_stack new)
        \<and> scanned fs b old b' new F D"
      by (rule Cons.IH [OF 3(2) wf u i dist _ Cons.prems(7,8)]) (use Cons.prems(6) in simp)
    then show ?thesis by (simp add: 3 scan_other_entry)
  qed
qed

lemma names_fineD:
  "names_fine es \<Longrightarrow> distinct (map entry_name es)"
  "names_fine es \<Longrightarrow> e \<in> set es \<Longrightarrow> \<exists>n. entry_name e = Some n \<and> name_ok n \<and> utf8_valid n"
  by (simp_all add: names_fine_def)

abbreviation pending_size :: "pending list \<Rightarrow> nat" where
  "pending_size ps \<equiv> sum_list (map (\<lambda>(i, path, F, D). length D) ps)"

text \<open>The loop over the stack returns, with everything the pending walks find.\<close>

lemma scan_all:
  assumes "romfs_wf b" "romfs_utf8 b" "\<forall>x\<in>set ps. pending_ok fs b x" "distinct (map fst ps)"
  shows "\<exists>b'. romfs_scan fs b (pending_stack ps) = Some (Ok b') \<and> romfs_wf b' \<and> romfs_utf8 b'
    \<and> mset (romfs_contents b') = mset (romfs_contents b) + mset (pending_files ps)
    \<and> set (map rd_path (rb_dirs b')) = set (map rd_path (rb_dirs b)) \<union> set (pending_dirs ps)"
  using assms
proof (induction "pending_size ps" arbitrary: b ps rule: less_induct)
  case less
  note wf = less.prems(1) and u = less.prems(2)
  show ?case
  proof (cases ps rule: rev_cases)
    case Nil
    then show ?thesis using wf u by (simp add: romfs_scan.simps)
  next
    case (snoc qs x)
    obtain i path F D where x: "x = (i, path, F, D)" by (cases x)
    let ?pre = "rd_path (rb_dirs b ! i)"
    have i: "i < length (rb_dirs b)" "names_used b i = {}" and w: "walks fs ?pre path F D"
      using less.prems(3) by (auto simp: snoc x pending_ok_def names_used_def)
    obtain es D' where es: "fs path = Some es" "names_fine es" "walks_entries fs ?pre es F D'" and D: "D = ?pre # D'"
      using w by (auto elim: walksE)
    have "\<exists>b' new. rfold (romfs_scan_entry path i) (b, pending_stack qs) es = Ok (b', pending_stack qs @ pending_stack new)
      \<and> scanned fs b qs b' new F D'"
    proof (rule scan_entries [OF es(3) wf u i(1) names_fineD(1) [OF es(2)]])
      show "\<forall>e\<in>set es. \<exists>n. entry_name e = Some n \<and> name_ok n \<and> utf8_valid n \<and> n \<notin> names_used b i"
        using names_fineD(2) [OF es(2)] by (simp add: i(2))
      show "\<forall>y\<in>set qs. pending_ok fs b y \<and> fst y \<noteq> i" "distinct (map fst qs)"
        using less.prems(3,4) by (auto simp: snoc x)
    qed
    then obtain b1 new where r: "rfold (romfs_scan_entry path i) (b, pending_stack qs) es = Ok (b1, pending_stack (qs @ new))"
      and s: "scanned fs b qs b1 new F D'" by auto
    note q = s [unfolded scanned_def]
    have "pending_size (qs @ new) < pending_size ps" using q by (simp add: snoc x D)
    from less.hyps [OF this] q obtain b' where b': "romfs_scan fs b1 (pending_stack (qs @ new)) = Some (Ok b')"
      "romfs_wf b'" "romfs_utf8 b'" "mset (romfs_contents b') = mset (romfs_contents b1) + mset (pending_files (qs @ new))"
      "set (map rd_path (rb_dirs b')) = set (map rd_path (rb_dirs b1)) \<union> set (pending_dirs (qs @ new))"
      by blast
    have "romfs_scan fs b (pending_stack ps) = Some (Ok b')"
      using r b'(1) by (subst romfs_scan.simps) (simp add: snoc x es(1))
    moreover have "mset (romfs_contents b') = mset (romfs_contents b) + mset (pending_files ps)"
      using q by (simp add: b'(4) snoc x ac_simps)
    moreover have "set (map rd_path (rb_dirs b')) = set (map rd_path (rb_dirs b)) \<union> set (pending_dirs ps)"
      using q unfolding b'(5) by (auto simp: snoc x D simp del: set_map)
    ultimately show ?thesis using b'(2,3) by blast
  qed
qed

lemma romfs_from_directory_finds:
  assumes "walks fs [] base F D"
  shows "\<exists>b. romfs_from_directory fs base = Some (Ok b) \<and> romfs_wf b \<and> romfs_utf8 b
    \<and> mset (romfs_contents b) = mset F \<and> set (map rd_path (rb_dirs b)) = set D"
proof -
  have D: "D = [] # tl D" using assms by (auto elim: walksE)
  have new: "romfs_contents romfs_new = []" "rb_dirs romfs_new = [new_dir [] [] 0]" "romfs_utf8 romfs_new"
    by (simp_all add: romfs_new_def romfs_contents_def romfs_utf8_def new_dir_def)
  have "pending_ok fs romfs_new (0, base, F, D)"
    using assms by (simp add: pending_ok_def new new_dir_def)
  with scan_all [OF romfs_wf_new new(3), of "[(0, base, F, D)]" fs] obtain b where
    "romfs_scan fs romfs_new [(0, base)] = Some (Ok b)" "romfs_wf b" "romfs_utf8 b" "mset (romfs_contents b) = mset F"
    "set (map rd_path (rb_dirs b)) = {[]} \<union> set (tl D)"
    by (auto simp: new new_dir_def simp del: set_map)
  then show ?thesis using D by (metis insert_is_Un list.simps(15) romfs_from_directory_def)
qed

section \<open>Any tree\<close>

text \<open>
  What the host guarantees of any tree, readable or not: the names within one listing are distinct, and one that is
  valid UTF-8 is neither empty nor holds a slash.
\<close>

definition listing_ok :: "fs_entry list \<Rightarrow> bool" where
  "listing_ok es \<longleftrightarrow> distinct (filter (\<lambda>n. n \<noteq> None) (map entry_name es))
     \<and> (\<forall>e\<in>set es. \<forall>n. entry_name e = Some n \<longrightarrow> name_ok n \<and> utf8_valid n)"

definition host_ok :: "(bytes \<Rightarrow> fs_entry list option) \<Rightarrow> bool" where
  "host_ok fs \<longleftrightarrow> (\<forall>path es. fs path = Some es \<longrightarrow> listing_ok es)"

text \<open>A state of the walk: the tree so far is well formed, and nothing is below a directory on the stack.\<close>

definition walk_state :: "romfs_builder \<times> (nat \<times> bytes) list \<Rightarrow> bool" where
  "walk_state = (\<lambda>(b, stk). romfs_wf b \<and> romfs_utf8 b \<and> romfs_fresh b \<and> distinct (map fst stk)
     \<and> (\<forall>j\<in>fst ` set stk. j < length (rb_dirs b) \<and> rd_children (rb_dirs b ! j) = [] \<and> rd_files (rb_dirs b ! j) = []))"

lemma link_fresh:
  assumes "romfs_fresh b" "i < length (rb_dirs b)"
  shows "romfs_fresh (b\<lparr>rb_dirs := link_dir (rb_dirs b) i n\<rparr>)" "romfs_fresh (link_file b i n d)"
  using assms set_update_subset_insert [of "rb_dirs b @ [new_dir (rd_path (rb_dirs b ! i) @ 0x2F # n) n i]" i]
    set_update_subset_insert [of "rb_dirs b" i]
  by (fastforce simp: romfs_fresh_def link_dir_def link_file_def new_dir_def new_file_def)+

text \<open>One entry: it is linked, or skipped, or the walk fails.\<close>

lemma scan_entry_state:
  assumes st: "walk_state (b, stk)" and i: "i < length (rb_dirs b)" "i \<notin> fst ` set stk"
    and n: "\<forall>n. entry_name e = Some n \<longrightarrow> name_ok n \<and> utf8_valid n \<and> n \<notin> names_used b i"
    and scan: "romfs_scan_entry path i (b, stk) e = Ok (b', stk')"
  shows "walk_state (b', stk') \<and> i < length (rb_dirs b') \<and> i \<notin> fst ` set stk' \<and> entry_name e \<noteq> None
    \<and> (\<forall>m\<in>names_used b' i. m \<in> names_used b i \<or> entry_name e = Some m)"
proof -
  note w = st [unfolded walk_state_def prod.case]
  obtain p k m c where e: "e = Fs_Entry p (Some k) (Some m) c"
    using scan by (cases e) (auto simp: romfs_scan_entry_def rbind_eq_Ok split: option.splits)
  have m: "name_ok m" "utf8_valid m" "m \<notin> names_used b i" using n by (auto simp: e)
  show ?thesis
  proof (cases k)
    case Fs_Dir
    let ?b = "b\<lparr>rb_dirs := link_dir (rb_dirs b) i m\<rparr>"
    have b': "b' = ?b" "stk' = stk @ [(length (rb_dirs b), p)]"
      using scan scan_dir_entry [OF i(1), of path stk p m c] by (simp_all add: e Fs_Dir)
    note l = link_dir_step [OF conjunct1 [OF w] conjunct1 [OF conjunct2 [OF w]] i(1) m]
    have "walk_state (?b, stk @ [(length (rb_dirs b), p)])"
      unfolding walk_state_def prod.case
      using l(1,2) link_fresh(1) [OF _ i(1), of m] w i(2) nth_link_dir [OF i(1)]
      by (auto simp: new_dir_def less_Suc_eq)
    then show ?thesis using i l(3) by (auto simp: b' e)
  next
    case Fs_File
    obtain d where d: "c = Some d" using scan by (cases c) (auto simp: romfs_scan_entry_def e Fs_File Let_def)
    have b': "b' = link_file b i m d" "stk' = stk"
      using scan scan_file_entry [of path i b stk p m d] by (simp_all add: e Fs_File d)
    note l = link_file_step [OF conjunct1 [OF w] conjunct1 [OF conjunct2 [OF w]] i(1) m, where d = d]
    have other: "rb_dirs (link_file b i m d) ! fst x = rb_dirs b ! fst x" if "x \<in> set stk" for x
    proof -
      have "fst x \<noteq> i" using that i(2) by blast
      then show ?thesis by (simp add: link_file_def)
    qed
    have "walk_state (link_file b i m d, stk)"
      unfolding walk_state_def prod.case
      using l(1,2) link_fresh(2) [OF _ i(1), of m d] w link_file_dirs(1) [OF i(1), of m d] by (simp add: other)
    then show ?thesis using i l(3) link_file_dirs(1) [OF i(1), of m d] by (auto simp: b' e)
  next
    case Fs_Other
    with scan st i show ?thesis by (simp add: e scan_other_entry)
  qed (use scan in \<open>simp add: e romfs_scan_entry_def Let_def\<close>)
qed

lemma scan_entries_state:
  assumes "walk_state (b, stk)" "i < length (rb_dirs b)" "i \<notin> fst ` set stk" "listing_ok es"
    and "\<forall>e\<in>set es. \<forall>n. entry_name e = Some n \<longrightarrow> n \<notin> names_used b i"
    and "rfold (romfs_scan_entry path i) (b, stk) es = Ok (b', stk')"
  shows "walk_state (b', stk')"
  using assms
proof (induction es arbitrary: b stk)
  case (Cons e es)
  obtain b1 stk1 where e: "romfs_scan_entry path i (b, stk) e = Ok (b1, stk1)"
    and es: "rfold (romfs_scan_entry path i) (b1, stk1) es = Ok (b', stk')"
    using Cons.prems(6) by (auto simp: rbind_eq_Ok)
  have l: "listing_ok es" "\<forall>n. entry_name e = Some n \<longrightarrow> name_ok n \<and> utf8_valid n \<and> Some n \<notin> entry_name ` set es"
    using Cons.prems(4) by (auto simp: listing_ok_def split: if_splits)
  then have s: "walk_state (b1, stk1) \<and> i < length (rb_dirs b1) \<and> i \<notin> fst ` set stk1 \<and> entry_name e \<noteq> None
    \<and> (\<forall>m\<in>names_used b1 i. m \<in> names_used b i \<or> entry_name e = Some m)"
    using Cons.prems(5) by (intro scan_entry_state [OF Cons.prems(1-3) _ e]) auto
  have "\<forall>e'\<in>set es. \<forall>n. entry_name e' = Some n \<longrightarrow> n \<notin> names_used b1 i"
  proof (intro ballI allI impI notI)
    fix e' n assume e': "e' \<in> set es" "entry_name e' = Some n" "n \<in> names_used b1 i"
    then have "n \<in> names_used b i \<or> entry_name e = Some n" using s by blast
    with l(2) e' Cons.prems(5) show False by (metis image_eqI list.set_intros(2))
  qed
  with Cons.IH [OF _ _ _ l(1) _ es] s show ?case by blast
qed simp

lemma scan_state:
  assumes "host_ok fs" "romfs_scan fs b stk = Some (Ok b')" "walk_state (b, stk)"
  shows "romfs_wf b' \<and> romfs_utf8 b' \<and> romfs_fresh b'"
proof -
  let ?P = "\<lambda>fs b stk (y :: (romfs_builder, romfs_dir_error) result). host_ok fs \<and> walk_state (b, stk) \<longrightarrow> (\<forall>b'. y = Ok b' \<longrightarrow> romfs_wf b' \<and> romfs_utf8 b' \<and> romfs_fresh b')"
  from assms(2) have "?P fs b stk (Ok b')"
  proof (rule romfs_scan.raw_induct [where P = ?P, rotated], intro impI allI, elim conjE)
    fix scan fs b stk y b'
    assume ih: "\<And>fs b stk y. scan fs b stk = Some y \<Longrightarrow> ?P fs b stk y"
      and body: "(if stk = [] then Some (Ok b)
        else case fs (snd (last stk)) of
            None \<Rightarrow> Some (Err (Romfs_Io (snd (last stk))))
          | Some entries \<Rightarrow>
              (case rfold (romfs_scan_entry (snd (last stk)) (fst (last stk))) (b, butlast stk) entries of
                 Ok st \<Rightarrow> scan fs (fst st) (snd st)
               | Err e \<Rightarrow> Some (Err e)
               | Panic \<Rightarrow> Some Panic)) = Some y"
      and fs: "host_ok fs" and st: "walk_state (b, stk)" and y: "y = Ok b'"
    show "romfs_wf b' \<and> romfs_utf8 b' \<and> romfs_fresh b'"
    proof (cases stk rule: rev_cases)
      case Nil
      with body y st show ?thesis by (simp add: walk_state_def)
    next
      case (snoc stk1 x)
      obtain i path where x: "x = (i, path)" by (cases x)
      obtain es b1 stk2 where es: "fs path = Some es"
        "rfold (romfs_scan_entry path i) (b, stk1) es = Ok (b1, stk2)" "scan fs b1 stk2 = Some (Ok b')"
        using body y by (auto simp: snoc x split: option.splits result.splits)
      have "walk_state (b, stk1)" "i < length (rb_dirs b)" "i \<notin> fst ` set stk1" "names_used b i = {}"
        using st by (auto simp: walk_state_def snoc x names_used_def)
      then have "walk_state (b1, stk2)"
        using fs es(1) by (intro scan_entries_state [OF _ _ _ _ _ es(2)]) (auto simp: host_ok_def)
      with ih [OF es(3)] fs show ?thesis by blast
    qed
  qed
  with assms(1,3) show ?thesis by blast
qed

lemma romfs_from_directory_wf:
  assumes "host_ok fs" "romfs_from_directory fs base = Some (Ok b)"
  shows "romfs_wf b" "romfs_utf8 b" "romfs_fresh b"
proof -
  have "walk_state (romfs_new, [(0, base)])"
    using romfs_wf_new romfs_fresh_new
    by (simp add: walk_state_def) (simp add: romfs_new_def romfs_utf8_def new_dir_def)
  from scan_state [OF assms(1) _ this] assms(2) show "romfs_wf b" "romfs_utf8 b" "romfs_fresh b"
    by (simp_all add: romfs_from_directory_def)
qed

section \<open>What its image serves\<close>

text \<open>Names are the ends of paths, so the build, which only permutes the entries, keeps them valid.\<close>

lemma romfs_utf8_permuted:
  assumes wf: "romfs_wf b" "romfs_wf b'" and u: "romfs_utf8 b"
    and dirs: "set (map rd_path (rb_dirs b')) = set (map rd_path (rb_dirs b))"
    and files: "set (map rf_path (rb_files b')) = set (map rf_path (rb_files b))"
  shows "romfs_utf8 b'"
proof -
  have "utf8_valid (rd_name (rb_dirs b' ! c))" if c: "c < length (rb_dirs b')" for c
  proof (cases "c = 0")
    case False
    note d = romfs_wf_dir [OF wf(2) c] and no_root = romfs_wf_root(3) [OF wf(1)]
    have "rd_path (rb_dirs b' ! c) \<in> set (map rd_path (rb_dirs b))" unfolding dirs [symmetric] using c by simp
    then obtain j where j: "j < length (rb_dirs b)" "rd_path (rb_dirs b' ! c) = rd_path (rb_dirs b ! j)"
      by (auto simp: in_set_conv_nth)
    have "j \<noteq> 0"
    proof
      assume "j = 0"
      with j(2) d(3) False no_root show False by simp
    qed
    note e = romfs_wf_dir [OF wf(1) j(1)]
    have "rd_name (rb_dirs b' ! c) = rd_name (rb_dirs b ! j)"
      using last_slash_unique [of "rd_path (rb_dirs b' ! rd_parent (rb_dirs b' ! c))" "rd_name (rb_dirs b' ! c)"] d e j(2) False \<open>j \<noteq> 0\<close>
      by (metis name_ok_def neq0_conv)
    then show ?thesis using u j(1) by (simp add: romfs_utf8_def)
  qed (simp add: romfs_wf_root [OF wf(2)])
  moreover have "utf8_valid (rf_name (rb_files b' ! k))" if k: "k < length (rb_files b')" for k
  proof -
    note d = romfs_wf_file [OF wf(2) k]
    have "rf_path (rb_files b' ! k) \<in> set (map rf_path (rb_files b))" unfolding files [symmetric] using k by simp
    then obtain j where j: "j < length (rb_files b)" "rf_path (rb_files b' ! k) = rf_path (rb_files b ! j)"
      by (auto simp: in_set_conv_nth)
    note e = romfs_wf_file [OF wf(1) j(1)]
    have "rf_name (rb_files b' ! k) = rf_name (rb_files b ! j)"
      using last_slash_unique [of "rd_path (rb_dirs b' ! rf_parent (rb_files b' ! k))" "rf_name (rb_files b' ! k)"] d e j(2)
      by (metis name_ok_def)
    then show ?thesis using u j(1) by (simp add: romfs_utf8_def)
  qed
  ultimately show ?thesis by (auto simp: romfs_utf8_def in_set_conv_nth)
qed

lemma sum_list_permuted:
  fixes g :: "'x \<Rightarrow> nat"
  assumes "mset xs = mset ys"
  shows "sum_list (map g xs) = sum_list (map g ys)"
proof -
  have "mset (map g xs) = mset (map g ys)" using assms by simp
  then have "sum_mset (mset (map g xs)) = sum_mset (mset (map g ys))" by simp
  then show ?thesis by (simp only: sum_mset_sum_list)
qed

lemma romfs_built_finds:
  assumes wf: "romfs_wf b" and files: "rb_files b \<noteq> []" and fits: "romfs_fits b" and u: "romfs_utf8 b"
    and small: "sum_list (map (\<lambda>(p, d). length d + 0x10) (romfs_contents b)) \<le> 2 ^ 40"
  shows "\<exists>img r. romfs_build b = Ok img \<and> romfs_try_from_bytes img = Ok r
    \<and> (\<forall>path. romfs_finds (map_of (romfs_contents b)) (set (map rd_path (rb_dirs b))) r path)"
proof -
  obtain b' dht fht where b': "romfs_build b = Ok (romfs_image b' dht fht)" "romfs_placed b'" "romfs_wf b'"
    "romfs_contents b' = sort_key fst (romfs_contents b)"
    "set (map rd_path (rb_dirs b')) = set (map rd_path (rb_dirs b))"
    by (rule romfs_build_view [OF wf files fits])
  have len: "length (romfs_image b' dht fht) \<le> usize_max"
    using romfs_build_length [OF wf files fits b'(1)] small by (simp add: usize_max_def)
  have "set (map rf_path (rb_files b')) = set (map rf_path (rb_files b))"
    using arg_cong [OF b'(4), of "\<lambda>xs. set (map fst xs)"] by (simp flip: romfs_contents_paths)
  then have u': "romfs_utf8 b'" by (rule romfs_utf8_permuted [OF wf b'(3) u b'(5)])
  have same: "map_of (romfs_contents b') = map_of (romfs_contents b)"
    unfolding b'(4) by (rule map_of_permuted [symmetric]) (use romfs_wf_paths(2) [OF wf] in simp_all)
  show ?thesis
    using romfs_finds_view [OF len b'(2) u'] b'(1) romfs_view_parses [OF len] unfolding same b'(5) by blast
qed

end
