(* ===== verification/Romfs_Properties.thy ===== *)
theory Romfs_Properties
  imports Romfs_Directory
begin

text \<open>What the RomFS builder and reader promise.\<close>

text \<open>Two files for the witnesses: \<^verbatim>\<open>/a/b\<close>, added with a doubled slash, and \<^verbatim>\<open>/c\<close>.\<close>

definition romfs_example :: "(bytes \<times> bytes) list" where
  "romfs_example = [([0x2F, 0x61, 0x2F, 0x2F, 0x62], [1, 2, 3]), ([0x2F, 0x63], [4])]"

lemma romfs_example_fits: "case romfs_add_all romfs_new romfs_example of Ok b \<Rightarrow> romfs_fits b | _ \<Rightarrow> False"
  by (simp add: romfs_add_all_def romfs_example_def romfs_add_file_def romfs_enter_dir_def romfs_new_def new_dir_def
      new_file_def romfs_fits_def dir_names_def file_names_def table_offset_def entry_size_def align_up_def Let_def)

lemma romfs_example_added:
  obtains b where "romfs_add_all romfs_new romfs_example = Ok b" "romfs_fits b"
  using romfs_example_fits by (auto split: result.splits)

lemma romfs_example_entries:
  "romfs_example \<noteq> []" "romfs_small romfs_example" "\<forall>e\<in>set romfs_example. utf8_valid (fst e)"
  "romfs_files_of romfs_example = [([0x2F, 0x61, 0x2F, 0x62], [1, 2, 3]), ([0x2F, 0x63], [4])]"
  by (simp_all add: romfs_example_def romfs_files_of_def normal_path_def path_components_def romfs_small_def)

text \<open>C20. An image serves the files it was built from: building succeeds, the image parses, and
  opening a path gives the file added under it, with its contents; a path under which no file was
  added gives the error that says whether its directory exists.  Leading slashes of the path do not
  matter, and every lookup returns.\<close>

theorem romfs_open_refines_map:
  assumes "romfs_add_all romfs_new entries = Ok b" "entries \<noteq> []"
    and "\<forall>e\<in>set entries. utf8_valid (fst e)" "romfs_fits b" "romfs_small entries"
  shows "\<exists>img r. romfs_build b = Ok img \<and> romfs_try_from_bytes img = Ok r \<and> (\<forall>path. romfs_answers entries r path)"
  by (rule romfs_answers_built [OF assms])

theorem romfs_open_refines_map_witness:
  "\<exists>b img. romfs_add_all romfs_new romfs_example = Ok b \<and> romfs_build b = Ok img
    \<and> (\<exists>r f. romfs_try_from_bytes img = Ok r \<and> romfs_open r [0x61, 0x2F, 0x62] = Some (Ok f)
       \<and> romfs_file_data r f = Ok [1, 2, 3])"
proof -
  obtain b where b: "romfs_add_all romfs_new romfs_example = Ok b" "romfs_fits b" by (rule romfs_example_added)
  have "romfs_answers romfs_example r [0x61, 0x2F, 0x62] \<Longrightarrow>
      \<exists>f. romfs_open r [0x61, 0x2F, 0x62] = Some (Ok f) \<and> romfs_file_data r f = Ok [1, 2, 3]" for r
    by (auto simp: romfs_answers_def romfs_finds_def romfs_example_entries(4) Let_def split: option.splits result.splits)
  then show ?thesis
    using b(1) romfs_open_refines_map [OF b(1) romfs_example_entries(1,3) b(2) romfs_example_entries(2)] by blast
qed

text \<open>C21. The image is a function of the set of files: adding the same files in any other order, or
  with other repeated slashes in their paths, succeeds as well and builds the same bytes.\<close>

theorem romfs_deterministic:
  assumes "romfs_add_all romfs_new entries = Ok b"
    and "mset (romfs_files_of entries') = mset (romfs_files_of entries)" "\<forall>e\<in>set entries'. valid_path (fst e)"
  shows "\<exists>b'. romfs_add_all romfs_new entries' = Ok b' \<and> romfs_build b' = romfs_build b"
proof -
  note b = romfs_added [OF assms(1)]
  have "distinct (map fst (romfs_files_of entries))"
    using romfs_wf_paths(2) [OF b(1)] by (simp flip: b(4))
  then have "distinct (map fst (romfs_files_of entries'))"
    using mset_eq_imp_distinct_iff [of "map fst (romfs_files_of entries)" "map fst (romfs_files_of entries')"]
      arg_cong [OF assms(2), of "image_mset fst"] by simp
  moreover have "\<forall>(path, data)\<in>set entries'. valid_path path" using assms(3) by auto
  moreover have "romfs_contents romfs_new = []" by (simp add: romfs_contents_def romfs_new_def)
  ultimately obtain b' where b': "romfs_add_all romfs_new entries' = Ok b'"
    using romfs_add_all_succeeds [OF romfs_wf_new, of entries'] by auto
  note i = romfs_added [OF b']
  have "romfs_arranged b' = romfs_arranged b"
    by (rule romfs_arranged_unique [OF i(1) b(1) i(2) b(2) i(3) b(3)]) (simp add: i(4) b(4) assms(2))
  with b' romfs_build_arranged show ?thesis by blast
qed

theorem romfs_deterministic_witness:
  "\<exists>b b'. romfs_add_all romfs_new romfs_example = Ok b
     \<and> romfs_add_all romfs_new [([0x2F, 0x63], [4]), ([0x2F, 0x61, 0x2F, 0x62], [1, 2, 3])] = Ok b'
     \<and> romfs_build b' = romfs_build b"
proof -
  let ?e = "[([0x2F, 0x63], [4]), ([0x2F, 0x61, 0x2F, 0x62], [1, 2, 3])] :: (bytes \<times> bytes) list"
  obtain b where b: "romfs_add_all romfs_new romfs_example = Ok b" by (rule romfs_example_added)
  have "mset (romfs_files_of ?e) = mset (romfs_files_of romfs_example)" "\<forall>e\<in>set ?e. valid_path (fst e)"
    unfolding romfs_example_entries(4)
    by (simp_all add: romfs_files_of_def normal_path_def path_components_def valid_path_def)
  from romfs_deterministic [OF b this] b show ?thesis by blast
qed

text \<open>
  What listing the directory \<open>P\<close> has to give: subdirectories named \<open>ns\<close> and files \<open>fs\<close>, both in
  name order, and exactly those that belong there.
\<close>

definition romfs_lists ::
  "(bytes \<times> bytes) list \<Rightarrow> romfs \<Rightarrow> (bytes \<Rightarrow> romfs_dir) \<Rightarrow> bytes \<Rightarrow> bytes list \<Rightarrow> romfs_file list \<Rightarrow> bool" where
  "romfs_lists entries r dirs P ns fs \<longleftrightarrow>
     sorted ns \<and> distinct ns \<and> sorted (map rfv_name fs) \<and> distinct (map rfv_name fs)
   \<and> (\<forall>n. n \<in> set ns \<longleftrightarrow> 0x2F \<notin> set n \<and> is_romfs_dir entries (P @ 0x2F # n))
   \<and> (\<forall>n\<in>set ns. rdv_name (dirs (P @ 0x2F # n)) = n)
   \<and> (\<forall>n d. (\<exists>f\<in>set fs. rfv_name f = n \<and> romfs_file_data r f = Ok d) \<longleftrightarrow>
        0x2F \<notin> set n \<and> map_of (romfs_files_of entries) (P @ 0x2F # n) = Some d)"

text \<open>C22. Iterating over any directory of the image ends, and lists exactly what belongs there: its
  subdirectories in name order, then its files in name order, each under its own name.\<close>

theorem romfs_listing_exact:
  assumes "romfs_add_all romfs_new entries = Ok b" "entries \<noteq> []"
    and "\<forall>e\<in>set entries. utf8_valid (fst e)" "romfs_fits b" "romfs_small entries"
  shows "\<exists>img. romfs_build b = Ok img
    \<and> (\<exists>r dirs. romfs_try_from_bytes img = Ok r \<and> romfs_root_dir r = Ok (dirs [])
     \<and> (\<forall>P. is_romfs_dir entries P \<longrightarrow> (\<exists>ns fs. romfs_lists entries r dirs P ns fs
        \<and> (dir_iterator_collect r (romfs_entries r (dirs P)) :: (romfs_entry list, 'e) result option)
            = Some (Ok (map (\<lambda>n. Romfs_Dir (dirs (P @ 0x2F # n))) ns @ map Romfs_File fs)))))"
proof -
  obtain b' dht fht where len: "length (romfs_image b' dht fht) \<le> usize_max" and b': "romfs_build b = Ok (romfs_image b' dht fht)" "romfs_placed b'" "romfs_canonical b'"
    "romfs_utf8 b'" "map_of (romfs_contents b') = map_of (romfs_files_of entries)"
    "set (map rd_path (rb_dirs b')) = Collect (is_romfs_dir entries)"
    by (rule romfs_serve [OF assms])
  have wf: "romfs_wf b'" using b'(2) by (simp add: romfs_placed_def)
  have dir: "P \<in> set (map rd_path (rb_dirs b')) \<longleftrightarrow> is_romfs_dir entries P" for P unfolding b'(6) by simp
  have "\<exists>ns fs. romfs_lists entries (romfs_view b' dht fht) (dir_at b') P ns fs
        \<and> (dir_iterator_collect (romfs_view b' dht fht) (romfs_entries (romfs_view b' dht fht) (dir_at b' P))
              :: (romfs_entry list, 'e) result option)
            = Some (Ok (map (\<lambda>n. Romfs_Dir (dir_at b' (P @ 0x2F # n))) ns @ map Romfs_File fs))"
    if P: "is_romfs_dir entries P" for P
    using romfs_listing_view [OF len b'(2,4,3), unfolded dir b'(5), OF P, where 'e = 'e]
    unfolding romfs_lists_def by (elim exE) (intro exI, blast)
  moreover have "romfs_root_dir (romfs_view b' dht fht) = Ok (dir_at b' [])"
    using romfs_view_entries(3) [OF len b'(2)] dir_at_path [OF wf romfs_wf_root(2) [OF wf]] romfs_wf_root(3) [OF wf]
    by simp
  ultimately show ?thesis using b'(1) romfs_view_parses [OF len] by blast
qed

theorem romfs_listing_exact_witness:
  "\<exists>b img. romfs_add_all romfs_new romfs_example = Ok b \<and> romfs_build b = Ok img
    \<and> (\<exists>r dirs ns fs. romfs_try_from_bytes img = Ok r \<and> romfs_root_dir r = Ok (dirs [])
      \<and> romfs_lists romfs_example r dirs [] ns fs
      \<and> (dir_iterator_collect r (romfs_entries r (dirs [])) :: (romfs_entry list, unit) result option)
          = Some (Ok (map (\<lambda>n. Romfs_Dir (dirs ([] @ 0x2F # n))) ns @ map Romfs_File fs)))"
proof -
  obtain b where b: "romfs_add_all romfs_new romfs_example = Ok b" "romfs_fits b" by (rule romfs_example_added)
  have "is_romfs_dir romfs_example []" by (simp add: is_romfs_dir_def)
  then show ?thesis
    using b(1) romfs_listing_exact [OF b(1) romfs_example_entries(1,3) b(2) romfs_example_entries(2), where 'e = unit] by blast
qed

text \<open>C23. Adding a file keeps the tree well-formed, with no directory that holds no file: the links
  of directories and files agree both ways, paths follow them and are unique.  The file is stored
  under the components of its path; the path is refused if it is not absolute or names nothing, and
  then if a file is stored there already.\<close>

theorem romfs_add_file_spec:
  assumes "romfs_wf b" "romfs_tight b"
  shows "(case romfs_add_file b path data of
      Ok b' \<Rightarrow> romfs_wf b' \<and> romfs_tight b' \<and> valid_path path
        \<and> romfs_contents b' = romfs_contents b @ [(normal_path path, data)]
        \<and> normal_path path \<notin> fst ` set (romfs_contents b)
    | Err e \<Rightarrow> (if valid_path path then e = Romfs_DuplicateEntry path \<and> normal_path path \<in> fst ` set (romfs_contents b)
        else e = Romfs_InvalidPath path)
    | Panic \<Rightarrow> False)"
proof -
  have keys: "fst ` set (romfs_contents b) = set (map rf_path (rb_files b))" by (simp add: romfs_contents_def image_image)
  consider "\<not> valid_path path" | "valid_path path" "normal_path path \<in> set (map rf_path (rb_files b))"
    | "valid_path path" "normal_path path \<notin> set (map rf_path (rb_files b))" by blast
  then show ?thesis
  proof cases
    case 1
    then show ?thesis using romfs_add_file_errors(1) [OF assms(1), of path data] by (auto simp: valid_path_def)
  next
    case 2
    then have "romfs_add_file b path data = Err (Romfs_DuplicateEntry path)"
      by (intro romfs_add_file_errors(2) [OF assms(1)]) (simp_all add: valid_path_def normal_path_def)
    then show ?thesis using 2 unfolding keys by simp
  next
    case 3
    then obtain b' where b': "romfs_add_file b path data = Ok b'"
      using romfs_add_file_ok [OF assms(1), of path data] by (auto simp: valid_path_def normal_path_def)
    note ok = romfs_add_file_Ok [OF assms(1) b']
    show ?thesis
      using 3 ok(4,5) romfs_add_file_tight [OF assms b'] unfolding keys by (simp add: b' normal_path_def)
  qed
qed

theorem romfs_add_file_spec_witness:
  "romfs_add_file romfs_new [0x61] [] = Err (Romfs_InvalidPath [0x61])"
proof -
  have "\<not> valid_path [0x61]" by (simp add: valid_path_def)
  with romfs_add_file_spec [OF romfs_wf_new romfs_tight_new, of "[0x61]" "[]"] show ?thesis
    using romfs_add_file_errors(1) [OF romfs_wf_new] by (auto split: result.splits)
qed

text \<open>C24. The reader never panics: not while validating, and on an accepted image not in any lookup,
  iteration or access to contents.  A file's contents are the slice of the image its entry names.\<close>

theorem romfs_reader_safe:
  assumes "length bs \<le> usize_max"
  shows "romfs_try_from_bytes bs \<noteq> Panic
    \<and> (\<forall>r. romfs_try_from_bytes bs = Ok r \<longrightarrow>
         romfs_root_dir r \<noteq> Panic \<and> romfs_open r path \<noteq> Some Panic
       \<and> romfs_find_dir r d n \<noteq> Some Panic \<and> romfs_find_file r d n \<noteq> Some Panic
       \<and> dir_iterator_next r it \<noteq> (Panic :: (romfs_entry option \<times> dir_iterator, 'e) result)
       \<and> romfs_file_data r f \<noteq> Panic
       \<and> (\<forall>xs. romfs_file_data r f = Ok xs \<longrightarrow>
            xs = sub_bytes bs (unat (rh_file_data_offset (ro_header r)) + unat (fe_data_offset (rfv_entry f))) (romfs_file_size f)
          \<and> length xs = romfs_file_size f))"
proof -
  have "romfs_valid r \<and> ro_bytes r = bs" if "romfs_try_from_bytes bs = Ok r" for r
    using that romfs_try_from_bytes_iff [OF assms, of r] by auto
  then show ?thesis
    using romfs_try_no_panic [of bs] from_offset_no_panic(1) romfs_open_no_panic find_dir_no_panic find_file_no_panic
      iterator_no_panic romfs_file_data_safe
    unfolding romfs_root_dir_def romfs_find_dir_def romfs_find_file_def Let_def by metis
qed

text \<open>An image with an empty header, and one whose only child directory is its own sibling.\<close>

definition romfs_bare_header :: romfs_header where
  "romfs_bare_header =
     \<lparr>rh_header_size = 0x50, rh_dir_hash_table_offset = 0, rh_dir_hash_table_size = 0, rh_dir_meta_table_offset = 0x50,
      rh_dir_meta_table_size = 0x31, rh_file_hash_table_offset = 0, rh_file_hash_table_size = 0,
      rh_file_meta_table_offset = 0, rh_file_meta_table_size = 0, rh_file_data_offset = 0\<rparr>"

definition romfs_cyclic_root :: romfs_dir_entry where
  "romfs_cyclic_root = \<lparr>de_parent_offset = 0, de_sibling_offset = NO_ENTRY, de_child_offset = 0x18,
     de_file_offset = NO_ENTRY, de_hash_sibling_offset = NO_ENTRY, de_name_len = 0\<rparr>"

definition romfs_cyclic_child :: romfs_dir_entry where
  "romfs_cyclic_child = \<lparr>de_parent_offset = 0, de_sibling_offset = 0x18, de_child_offset = NO_ENTRY,
     de_file_offset = NO_ENTRY, de_hash_sibling_offset = NO_ENTRY, de_name_len = 1\<rparr>"

definition romfs_cyclic_image :: bytes where
  "romfs_cyclic_image = enc_romfs_header romfs_bare_header
     @ enc_romfs_dir_entry romfs_cyclic_root @ enc_romfs_dir_entry romfs_cyclic_child @ [0x61]"

definition romfs_cyclic :: romfs where
  "romfs_cyclic = \<lparr>ro_bytes = romfs_cyclic_image, ro_header = romfs_bare_header\<rparr>"

lemma romfs_cyclic_parses: "romfs_try_from_bytes romfs_cyclic_image = Ok romfs_cyclic"
proof -
  have len: "length romfs_cyclic_image = 0x81" by (simp add: romfs_cyclic_image_def)
  have dec: "dec_romfs_header romfs_cyclic_image = romfs_bare_header"
    by (simp add: romfs_cyclic_image_def romfs_header.dec_enc)
  have "length romfs_cyclic_image \<le> usize_max" by (simp add: len usize_max_def)
  from romfs_try_from_bytes_iff [OF this] show ?thesis
    by (simp add: len dec romfs_cyclic_def romfs_valid_def romfs_bare_header_def usize_max_def)
qed

lemma romfs_cyclic_entries:
  "romfs_root_dir romfs_cyclic = Ok \<lparr>rdv_entry = romfs_cyclic_root, rdv_name = []\<rparr>"
  "romfs_dir_from_offset romfs_cyclic 0x18 base = Ok \<lparr>rdv_entry = romfs_cyclic_child, rdv_name = [0x61]\<rparr>"
proof -
  let ?t = "enc_romfs_dir_entry romfs_cyclic_root @ enc_romfs_dir_entry romfs_cyclic_child @ [0x61]"
  have t: "(dir_meta_table romfs_cyclic :: (bytes, 'x) result) = Ok ?t"
    by (simp add: dir_meta_table_def romfs_cyclic_def romfs_cyclic_image_def romfs_bare_header_def run_simps usize_max_def)
  have "romfs_entry_at dec_romfs_dir_entry 0x18 de_name_len RootDirError ?t (length ([] :: bytes)) b = Ok (romfs_cyclic_root, str_or_empty [])" for b
    by (rule romfs_entry_at_written [where A = "[]" and n = "[]" and enc = "enc_romfs_dir_entry romfs_cyclic_root"
          and B = "enc_romfs_dir_entry romfs_cyclic_child @ [0x61]"])
      (simp_all add: romfs_dir_entry.dec_enc romfs_cyclic_root_def usize_max_def)
  then show "romfs_root_dir romfs_cyclic = Ok \<lparr>rdv_entry = romfs_cyclic_root, rdv_name = []\<rparr>"
    by (simp add: romfs_root_dir_def romfs_dir_from_offset_for_root_def t str_or_empty_def)
  have "romfs_entry_at dec_romfs_dir_entry 0x18 de_name_len Open_BufferTooSmall ?t
      (length (enc_romfs_dir_entry romfs_cyclic_root)) base = Ok (romfs_cyclic_child, str_or_empty [0x61])"
    by (rule romfs_entry_at_written [where n = "[0x61]" and enc = "enc_romfs_dir_entry romfs_cyclic_child" and B = "[]"])
      (simp_all add: romfs_dir_entry.dec_enc romfs_cyclic_child_def usize_max_def)
  then show "romfs_dir_from_offset romfs_cyclic 0x18 base = Ok \<lparr>rdv_entry = romfs_cyclic_child, rdv_name = [0x61]\<rparr>"
    by (simp add: romfs_dir_from_offset_def t str_or_empty_def)
qed

theorem romfs_reader_safe_witness: "romfs_open romfs_cyclic [0x2F] \<noteq> Some Panic"
proof -
  have "length romfs_cyclic_image \<le> usize_max" by (simp add: romfs_cyclic_image_def usize_max_def)
  from romfs_reader_safe [OF this, of "[0x2F]"] romfs_cyclic_parses show ?thesis by blast
qed

text \<open>C25. A sibling chain that returns to itself is never left: a lookup that enters a directory
  through it returns nothing, ever.  No check of the reader rules such an image out.\<close>

theorem romfs_cycle_diverges:
  assumes "romfs_try_from_bytes bs = Ok r" "romfs_root_dir r = Ok root"
    and "dropWhile (\<lambda>x. x = 0x2F) path \<noteq> []" "split_slash (dropWhile (\<lambda>x. x = 0x2F) path) = n # c # cs"
    and "de_child_offset (rdv_entry root) \<in> S"
    and "\<forall>off\<in>S. off \<noteq> NO_ENTRY \<and> (\<exists>d. romfs_dir_from_offset r off (unat (rh_dir_meta_table_offset (ro_header r))) = Ok d
      \<and> rdv_name d \<noteq> n \<and> de_sibling_offset (rdv_entry d) \<in> S)"
  shows "romfs_open r path = None"
proof -
  have "romfs_find_dir r root n = None"
    unfolding romfs_find_dir_def by (rule find_dir_cycle [OF assms(6,5)])
  then show ?thesis
    using assms(2-4) by (simp add: romfs_open_def Let_def)
qed

theorem romfs_cycle_diverges_witness:
  "romfs_try_from_bytes romfs_cyclic_image = Ok romfs_cyclic \<and> romfs_open romfs_cyclic [0x62, 0x2F, 0x63] = None"
proof -
  have "\<forall>off\<in>{0x18}. off \<noteq> NO_ENTRY \<and>
      (\<exists>d. romfs_dir_from_offset romfs_cyclic off (unat (rh_dir_meta_table_offset (ro_header romfs_cyclic))) = Ok d
        \<and> rdv_name d \<noteq> [0x62] \<and> de_sibling_offset (rdv_entry d) \<in> {0x18})"
    by (simp add: romfs_cyclic_entries(2) romfs_cyclic_child_def NO_ENTRY_def)
  from romfs_cycle_diverges [OF romfs_cyclic_parses romfs_cyclic_entries(1) _ _ _ this, of "[0x62, 0x2F, 0x63]"]
  show ?thesis by (simp add: romfs_cyclic_parses romfs_cyclic_root_def)
qed

text \<open>C26. The hash tables index every entry: from each bucket the hash siblings lead through exactly
  the entries whose parent offset and name hash to that bucket, last added first, and then end.\<close>

theorem romfs_hash_tables_complete:
  assumes "romfs_hashed b = (b', dht, fht)"
  shows "length dht = romfs_get_hash_table_count (length (rb_dirs b))
    \<and> length fht = romfs_get_hash_table_count (length (rb_files b))
    \<and> (\<forall>h<length dht. hash_chain (\<lambda>k. rd_entry_offset (rb_dirs b' ! k)) (rb_dir_hash_siblings b') (dht ! h)
         (rev (filter (\<lambda>k. dir_bucket b' (length dht) k = h) [0..<length (rb_dirs b')])))
    \<and> (\<forall>h<length fht. hash_chain (\<lambda>k. rf_entry_offset (rb_files b' ! k)) (rb_file_hash_siblings b') (fht ! h)
         (rev (filter (\<lambda>k. file_bucket b' (length fht) k = h) [0..<length (rb_files b')])))"
proof -
  let ?b = "b\<lparr>rb_dir_hash_siblings := replicate (length (rb_dirs b)) (unat NO_ENTRY),
                rb_file_hash_siblings := replicate (length (rb_files b)) (unat NO_ENTRY)\<rparr>"
  obtain b1 where g: "generate_dir_hash_table ?b = (b1, dht)" "generate_file_hash_table b1 = (b', fht)"
    using assms by (auto simp: romfs_hashed_def Let_def split: prod.splits)
  note k1 = generate_keeps(1) [OF g(1)] and k2 = generate_keeps(2) [OF g(2)]
  have same: "rb_dirs b1 = rb_dirs b" "rb_files b1 = rb_files b" "rb_dirs b' = rb_dirs b" "rb_files b' = rb_files b"
    "rb_dir_hash_siblings b' = rb_dir_hash_siblings b1" "length (rb_file_hash_siblings b1) = length (rb_files b1)"
    using k1 k2 by simp_all
  have bucket: "dir_bucket b' sz k = dir_bucket ?b sz k" "file_bucket b' sz k = file_bucket b1 sz k" for sz k
    by (simp_all add: dir_bucket_def file_bucket_def same)
  show ?thesis
    using generate_dir_chains [OF g(1)] generate_file_chains [OF g(2)] by (simp add: same bucket)
qed

theorem romfs_hash_tables_complete_witness:
  "\<exists>b' dht fht. romfs_hashed romfs_new = (b', dht, fht) \<and> length dht = 3
     \<and> hash_chain (\<lambda>k. rd_entry_offset (rb_dirs b' ! k)) (rb_dir_hash_siblings b') (dht ! 0)
         (rev (filter (\<lambda>k. dir_bucket b' 3 k = 0) [0..<length (rb_dirs b')]))"
proof -
  obtain b' dht fht where h: "romfs_hashed romfs_new = (b', dht, fht)" by (cases "romfs_hashed romfs_new")
  have "romfs_get_hash_table_count (length (rb_dirs romfs_new)) = 3"
    by (simp add: romfs_get_hash_table_count_def romfs_new_def)
  with h romfs_hash_tables_complete [OF h] show ?thesis by auto
qed

text \<open>C5. A directory of the host is served by the image built from it.  Over any finite tree of readable files with valid
  names and no symbolic links, the walk returns, with a well-formed builder; if its names fit the
  tables, the image built from it parses, opening a path gives the file of the host under it, and a
  path that leads to none gives the error that says whether its directory is there, the
  directories that hold no file included.\<close>

theorem romfs_directory_served:
  assumes "walks fs [] base F D" "F \<noteq> []" "romfs_small F"
  shows "\<exists>b. romfs_from_directory fs base = Some (Ok b) \<and> romfs_wf b
    \<and> (romfs_fits b \<longrightarrow> (\<exists>img r. romfs_build b = Ok img \<and> romfs_try_from_bytes img = Ok r
        \<and> (\<forall>path. romfs_finds (map_of F) (set D) r path)))"
proof -
  obtain b where b: "romfs_from_directory fs base = Some (Ok b)" "romfs_wf b" "romfs_utf8 b"
    "mset (romfs_contents b) = mset F" "set (map rd_path (rb_dirs b)) = set D"
    using romfs_from_directory_finds [OF assms(1)] by blast
  have "distinct (map fst (romfs_contents b))" using romfs_wf_paths(2) [OF b(2)] by simp
  note same = map_of_permuted [OF this b(4)]
  have "rb_files b \<noteq> []" using b(4) assms(2) by (auto simp: romfs_contents_def)
  moreover have "sum_list (map (\<lambda>(p, d). length d + 0x10) (romfs_contents b)) = sum_list (map (\<lambda>(p, d). length d + 0x10) F)"
    by (rule sum_list_permuted [OF b(4)])
  ultimately show ?thesis
    using romfs_built_finds [OF b(2) _ _ b(3)] b(1,2) assms(3) unfolding same b(5) romfs_small_def by simp
qed

text \<open>The witness: \<^verbatim>\<open>/a/f\<close>, an empty directory \<^verbatim>\<open>/e\<close>, and a socket, which is skipped.\<close>

definition host_example :: "bytes \<Rightarrow> fs_entry list option" where
  "host_example path =
     (if path = [0] then Some [Fs_Entry [1] (Some Fs_Dir) (Some [0x61]) None, Fs_Entry [2] (Some Fs_Dir) (Some [0x65]) None]
      else if path = [1] then Some [Fs_Entry [3] (Some Fs_File) (Some [0x66]) (Some [7, 8]), Fs_Entry [4] (Some Fs_Other) (Some [0x73]) None]
      else if path = [2] then Some [] else None)"

lemma host_example_walks: "walks host_example [] [0] [([0x2F, 0x61, 0x2F, 0x66], [7, 8])] [[], [0x2F, 0x61], [0x2F, 0x65]]"
proof -
  have "walks_entries host_example [0x2F, 0x61] [Fs_Entry [3] (Some Fs_File) (Some [0x66]) (Some [7, 8]), Fs_Entry [4] (Some Fs_Other) (Some [0x73]) None]
      (([0x2F, 0x61] @ 0x2F # [0x66], [7, 8]) # []) []"
    by (intro walk_file walk_other walk_end)
  then have a: "walks host_example ([] @ 0x2F # [0x61]) [1] [([0x2F, 0x61, 0x2F, 0x66], [7, 8])] ([0x2F, 0x61] # [])"
    using walk_dir [of host_example "[1]" _ "[0x2F, 0x61]"] by (simp add: host_example_def names_fine_def name_ok_def)
  have e: "walks host_example ([] @ 0x2F # [0x65]) [2] [] ([0x2F, 0x65] # [])"
    using walk_dir [of host_example "[2]" "[]" "[0x2F, 0x65]" "[]" "[]"] by (simp add: host_example_def names_fine_def walk_end)
  from walk_subdir [OF a walk_subdir [OF e walk_end, where c = None], where c = None]
  show ?thesis
    using walk_dir [of host_example "[0]" _ "[]"] by (simp add: host_example_def names_fine_def name_ok_def)
qed

theorem romfs_directory_served_witness:
  "\<exists>b. romfs_from_directory host_example [0] = Some (Ok b) \<and> romfs_wf b
    \<and> (romfs_fits b \<longrightarrow> (\<exists>img r f. romfs_build b = Ok img \<and> romfs_try_from_bytes img = Ok r
        \<and> romfs_open r [0x61, 0x2F, 0x66] = Some (Ok f) \<and> romfs_file_data r f = Ok [7, 8]
        \<and> romfs_open r [0x65, 0x2F, 0x66] = Some (Err Open_FileNotFound)))"
proof -
  let ?F = "[([0x2F, 0x61, 0x2F, 0x66], [7, 8])] :: (bytes \<times> bytes) list"
  let ?D = "{[], [0x2F, 0x61], [0x2F, 0x65]} :: bytes set"
  have found: "\<exists>f. romfs_open r [0x61, 0x2F, 0x66] = Some (Ok f) \<and> romfs_file_data r f = Ok [7, 8]"
    if "romfs_finds (map_of ?F) ?D r [0x61, 0x2F, 0x66]" for r
    using that by (auto simp: romfs_finds_def Let_def split: option.splits result.splits)
  have gone: "romfs_open r [0x65, 0x2F, 0x66] = Some (Err Open_FileNotFound)"
    if "romfs_finds (map_of ?F) ?D r [0x65, 0x2F, 0x66]" for r
    using that by (simp add: romfs_finds_def)
  have "romfs_small ?F" by (simp add: romfs_small_def)
  from romfs_directory_served [OF host_example_walks _ this] obtain b where
    b: "romfs_from_directory host_example [0] = Some (Ok b)" "romfs_wf b"
      "romfs_fits b \<longrightarrow> (\<exists>img r. romfs_build b = Ok img \<and> romfs_try_from_bytes img = Ok r
        \<and> (\<forall>path. romfs_finds (map_of ?F) ?D r path))"
    by (simp only: list.set) blast
  have "\<exists>img r f. romfs_build b = Ok img \<and> romfs_try_from_bytes img = Ok r
        \<and> romfs_open r [0x61, 0x2F, 0x66] = Some (Ok f) \<and> romfs_file_data r f = Ok [7, 8]
        \<and> romfs_open r [0x65, 0x2F, 0x66] = Some (Err Open_FileNotFound)" if fits: "romfs_fits b"
  proof -
    obtain img r where r: "romfs_build b = Ok img" "romfs_try_from_bytes img = Ok r"
      "\<forall>path. romfs_finds (map_of ?F) ?D r path"
      using b(3) fits by blast
    obtain f where "romfs_open r [0x61, 0x2F, 0x66] = Some (Ok f)" "romfs_file_data r f = Ok [7, 8]"
      using found [OF spec [OF r(3)]] by blast
    with r(1,2) gone [OF spec [OF r(3)]] show ?thesis by blast
  qed
  with b(1,2) show ?thesis by blast
qed

end
