(* ===== verification/Executable.thy ===== *)
theory Executable
  imports NX_Codec
begin

text \<open>
  What the NSO and NRO builders share: both round each segment up to whole pages of zeros
  (\<^verbatim>\<open>pad_to_alignment\<close>, defined identically in \<^verbatim>\<open>src/write/nso.rs\<close> and
  \<^verbatim>\<open>src/write/nro.rs\<close>), and both readers check that extents given by 32-bit fields lie
  inside the buffer before they slice it.
\<close>

section \<open>Padding to whole pages\<close>

definition pad_to_alignment :: "bytes \<Rightarrow> nat \<Rightarrow> bytes" where
  "pad_to_alignment data alignment =
     (let padded_len = div_ceil (length data) alignment * alignment
      in resize0 data padded_len)"

lemma div_ceil_mult: "div_ceil n a * a = align_up n a" if "0 < a"
  using that by (simp add: div_ceil_def align_up_def Suc_le_eq)

lemma pad_to_alignment_eq:
  assumes "0 < a"
  shows "pad_to_alignment data a = data @ zeros (align_up (length data) a - length data)"
  using align_up_ge [OF assms, of "length data"]
  by (simp add: pad_to_alignment_def resize0_def div_ceil_mult [OF assms])

lemma length_pad_to_alignment:
  "0 < a \<Longrightarrow> length (pad_to_alignment data a) = align_up (length data) a"
  by (simp add: pad_to_alignment_def div_ceil_mult)

text \<open>The page size of both formats.\<close>

abbreviation paged :: "bytes \<Rightarrow> bytes" where
  "paged data \<equiv> pad_to_alignment data 0x1000"

lemma paged_prefix: "take (length data) (paged data) = data"
  by (simp add: pad_to_alignment_eq)

lemma length_paged: "length (paged data) = align_up (length data) 0x1000"
  by (simp add: length_pad_to_alignment)

lemma paged_whole: "0x1000 dvd length data \<Longrightarrow> paged data = data"
  by (auto simp: pad_to_alignment_eq align_up_def elim!: dvdE)

section \<open>Lengths stored in 32 bits\<close>

lemma word_of_nat_mod_u32: "(word_of_nat (n mod 2 ^ 32) :: u32) = word_of_nat n"
  by (simp add: word_of_nat_eq_iff take_bit_eq_mod)

lemma wadd_u32: "wadd (a :: u32) b = (if unat a + unat b < 2 ^ 32 then Ok (a + b) else Panic)"
  by (simp add: wadd_def)

lemma unat_u32_add: "unat (a :: u32) + unat b < 2 ^ 32 \<Longrightarrow> unat (a + b) = unat a + unat b"
  by (simp add: unat_word_ariths)

section \<open>Writing over a buffer\<close>

text \<open>What \<open>copy_at\<close> does when the bytes fit; later writes win where two overlap.\<close>

definition overlay :: "'x list \<Rightarrow> nat \<Rightarrow> 'x list \<Rightarrow> 'x list" where
  "overlay buf a xs = take a buf @ xs @ drop (a + length xs) buf"

lemma copy_at_overlay:
  "copy_at buf a xs = (if a + length xs \<le> length buf then Ok (overlay buf a xs) else Panic)"
  by (simp add: copy_at_def overlay_def)

lemma length_overlay: "a + length xs \<le> length buf \<Longrightarrow> length (overlay buf a xs) = length buf"
  by (simp add: overlay_def)

lemma nth_overlay:
  assumes "a + length xs \<le> length buf" "i < length buf"
  shows "overlay buf a xs ! i = (if a \<le> i \<and> i < a + length xs then xs ! (i - a) else buf ! i)"
  using assms by (auto simp: overlay_def nth_append)

lemma split_at_length:
  assumes "length xs = m + n"
  obtains ys zs where "xs = ys @ zs" "length ys = m" "length zs = n"
  by (rule that [of "take m xs" "drop m xs"]) (use assms in simp_all)

text \<open>An extent of a buffer that is given byte by byte.\<close>

lemma sub_bytes_map:
  "off + n \<le> m \<Longrightarrow> sub_bytes (map f [0..<m]) off n = map (\<lambda>i. f (off + i)) [0..<n]"
  by (rule nth_equalityI) (simp_all add: sub_bytes_def)

lemma sub_bytes_eqI:
  assumes "off + length xs \<le> length bs" "\<And>i. i < length xs \<Longrightarrow> bs ! (off + i) = xs ! i"
  shows "sub_bytes bs off (length xs) = xs"
  by (rule nth_equalityI) (use assms in \<open>simp_all add: sub_bytes_def\<close>)

end
