(* ===== verification/Nso.thy ===== *)
theory Nso
  imports Executable
begin

text \<open>
  NSO, the format of installed executables: the header of \<^verbatim>\<open>src/raw/nso.rs\<close>, the builder of
  \<^verbatim>\<open>src/write/nso.rs\<close> and the reader of \<^verbatim>\<open>src/read/nso.rs\<close>.  SHA-256 (\<open>sha\<close>) and the LZ4 block
  functions of \<^verbatim>\<open>lz4_flex\<close> (\<open>lz4c\<close>, \<open>lz4d\<close>) are third-party code and parameters; expanding answers
  with the bytes or with an error of that crate.  The \<^verbatim>\<open>lz4-compression\<close> feature is on; without it
  the builder is the one below with \<open>nb_compress\<close> off, and the expanding accessors do not exist.
\<close>

section \<open>The header\<close>

definition NSO_MAGIC :: u32 where "NSO_MAGIC = 0x304f534e"

text \<open>\<^verbatim>\<open>NsoFlags\<close>.\<close>

definition TEXT_COMPRESS :: u32 where "TEXT_COMPRESS = push_bit 0 1"
definition RODATA_COMPRESS :: u32 where "RODATA_COMPRESS = push_bit 1 1"
definition DATA_COMPRESS :: u32 where "DATA_COMPRESS = push_bit 2 1"
definition TEXT_HASH :: u32 where "TEXT_HASH = push_bit 3 1"
definition RODATA_HASH :: u32 where "RODATA_HASH = push_bit 4 1"
definition DATA_HASH :: u32 where "DATA_HASH = push_bit 5 1"

lemmas nso_flag_defs =
  TEXT_COMPRESS_def RODATA_COMPRESS_def DATA_COMPRESS_def TEXT_HASH_def RODATA_HASH_def DATA_HASH_def

record nso_segment_header =
  ng_file_offset :: u32
  ng_memory_offset :: u32
  ng_size :: u32

definition enc_nso_segment_header :: "nso_segment_header \<Rightarrow> bytes" where
  "enc_nso_segment_header s = le32 (ng_file_offset s) @ le32 (ng_memory_offset s) @ le32 (ng_size s)"

definition dec_nso_segment_header :: "bytes \<Rightarrow> nso_segment_header" where
  "dec_nso_segment_header bs =
     \<lparr>ng_file_offset = rd32 bs 0, ng_memory_offset = rd32 bs 4, ng_size = rd32 bs 8\<rparr>"

interpretation nso_segment_header:
  layout enc_nso_segment_header dec_nso_segment_header "0xC" "\<lambda>_. True"
  by unfold_locales
    (simp_all add: enc_nso_segment_header_def dec_nso_segment_header_def field_simps_le field_join)

record nso_header =
  nh_magic :: u32
  nh_version :: u32
  nh_reserved :: u32
  nh_flags :: u32
  nh_text :: nso_segment_header
  nh_module_name_offset :: u32
  nh_rodata :: nso_segment_header
  nh_module_name_size :: u32
  nh_data :: nso_segment_header
  nh_bss_size :: u32
  nh_module_id :: bytes
  nh_text_file_size :: u32
  nh_rodata_file_size :: u32
  nh_data_file_size :: u32
  nh_reserved2 :: bytes
  nh_embedded_offset :: u32
  nh_embedded_size :: u32
  nh_dynstr_offset :: u32
  nh_dynstr_size :: u32
  nh_dynsym_offset :: u32
  nh_dynsym_size :: u32
  nh_text_hash :: bytes
  nh_rodata_hash :: bytes
  nh_data_hash :: bytes

definition enc_nso_header :: "nso_header \<Rightarrow> bytes" where
  "enc_nso_header h =
     le32 (nh_magic h) @ le32 (nh_version h) @ le32 (nh_reserved h) @ le32 (nh_flags h)
     @ enc_nso_segment_header (nh_text h) @ le32 (nh_module_name_offset h)
     @ enc_nso_segment_header (nh_rodata h) @ le32 (nh_module_name_size h)
     @ enc_nso_segment_header (nh_data h) @ le32 (nh_bss_size h) @ nh_module_id h
     @ le32 (nh_text_file_size h) @ le32 (nh_rodata_file_size h) @ le32 (nh_data_file_size h)
     @ nh_reserved2 h @ le32 (nh_embedded_offset h) @ le32 (nh_embedded_size h)
     @ le32 (nh_dynstr_offset h) @ le32 (nh_dynstr_size h) @ le32 (nh_dynsym_offset h)
     @ le32 (nh_dynsym_size h) @ nh_text_hash h @ nh_rodata_hash h @ nh_data_hash h"

definition dec_nso_header :: "bytes \<Rightarrow> nso_header" where
  "dec_nso_header bs =
     \<lparr>nh_magic = rd32 bs 0, nh_version = rd32 bs 4, nh_reserved = rd32 bs 8, nh_flags = rd32 bs 0xC,
      nh_text = dec_nso_segment_header (drop 0x10 bs), nh_module_name_offset = rd32 bs 0x1C,
      nh_rodata = dec_nso_segment_header (drop 0x20 bs), nh_module_name_size = rd32 bs 0x2C,
      nh_data = dec_nso_segment_header (drop 0x30 bs), nh_bss_size = rd32 bs 0x3C,
      nh_module_id = sub_bytes bs 0x40 0x20, nh_text_file_size = rd32 bs 0x60,
      nh_rodata_file_size = rd32 bs 0x64, nh_data_file_size = rd32 bs 0x68,
      nh_reserved2 = sub_bytes bs 0x6C 0x1C, nh_embedded_offset = rd32 bs 0x88,
      nh_embedded_size = rd32 bs 0x8C, nh_dynstr_offset = rd32 bs 0x90, nh_dynstr_size = rd32 bs 0x94,
      nh_dynsym_offset = rd32 bs 0x98, nh_dynsym_size = rd32 bs 0x9C,
      nh_text_hash = sub_bytes bs 0xA0 0x20, nh_rodata_hash = sub_bytes bs 0xC0 0x20,
      nh_data_hash = sub_bytes bs 0xE0 0x20\<rparr>"

definition nso_header_wf :: "nso_header \<Rightarrow> bool" where
  "nso_header_wf h \<longleftrightarrow>
     length (nh_module_id h) = 0x20 \<and> length (nh_reserved2 h) = 0x1C
     \<and> length (nh_text_hash h) = 0x20 \<and> length (nh_rodata_hash h) = 0x20 \<and> length (nh_data_hash h) = 0x20"

interpretation nso_header: layout enc_nso_header dec_nso_header "0x100" nso_header_wf
proof unfold_locales
  fix r rest assume wf: "nso_header_wf r"
  show "length (enc_nso_header r) = 0x100"
    using wf by (simp add: enc_nso_header_def nso_header_wf_def nso_segment_header.enc_length)
  show "dec_nso_header (enc_nso_header r @ rest) = r"
    using wf by (simp add: enc_nso_header_def dec_nso_header_def nso_header_wf_def field_simps_le
        nso_segment_header.enc_length nso_segment_header.dec_enc)
next
  fix bs :: bytes assume len: "0x100 \<le> length bs"
  then show "nso_header_wf (dec_nso_header bs)"
    by (simp add: dec_nso_header_def nso_header_wf_def length_sub_bytes)
  have "enc_nso_segment_header (dec_nso_segment_header (drop n bs)) = sub_bytes bs n 0xC" if "n + 0xC \<le> 0x100" for n
    using len that by (simp add: nso_segment_header.enc_dec sub_bytes_def)
  with len show "enc_nso_header (dec_nso_header bs) = take 0x100 bs"
    by (simp add: enc_nso_header_def dec_nso_header_def field_simps_le field_join)
qed

section \<open>The builder\<close>

record nso_builder =
  nb_text :: "bytes option"
  nb_text_vaddr :: u32
  nb_rodata :: "bytes option"
  nb_rodata_vaddr :: u32
  nb_data :: "bytes option"
  nb_data_vaddr :: u32
  nb_bss_size :: u32
  nb_module_id :: "bytes option"
  nb_compress :: bool

definition nso_new :: nso_builder where
  "nso_new =
     \<lparr>nb_text = None, nb_text_vaddr = 0, nb_rodata = None, nb_rodata_vaddr = 0, nb_data = None,
      nb_data_vaddr = 0, nb_bss_size = 0, nb_module_id = None, nb_compress = True\<rparr>"

definition nso_set_text :: "bytes \<Rightarrow> nso_builder \<Rightarrow> nso_builder" where
  "nso_set_text d b = b\<lparr>nb_text := Some d\<rparr>"
definition nso_set_text_vaddr :: "u32 \<Rightarrow> nso_builder \<Rightarrow> nso_builder" where
  "nso_set_text_vaddr v b = b\<lparr>nb_text_vaddr := v\<rparr>"
definition nso_set_rodata :: "bytes \<Rightarrow> nso_builder \<Rightarrow> nso_builder" where
  "nso_set_rodata d b = b\<lparr>nb_rodata := Some d\<rparr>"
definition nso_set_rodata_vaddr :: "u32 \<Rightarrow> nso_builder \<Rightarrow> nso_builder" where
  "nso_set_rodata_vaddr v b = b\<lparr>nb_rodata_vaddr := v\<rparr>"
definition nso_set_data :: "bytes \<Rightarrow> nso_builder \<Rightarrow> nso_builder" where
  "nso_set_data d b = b\<lparr>nb_data := Some d\<rparr>"
definition nso_set_data_vaddr :: "u32 \<Rightarrow> nso_builder \<Rightarrow> nso_builder" where
  "nso_set_data_vaddr v b = b\<lparr>nb_data_vaddr := v\<rparr>"
definition nso_set_bss_size :: "u32 \<Rightarrow> nso_builder \<Rightarrow> nso_builder" where
  "nso_set_bss_size n b = b\<lparr>nb_bss_size := n\<rparr>"
definition nso_set_module_id :: "bytes \<Rightarrow> nso_builder \<Rightarrow> nso_builder" where
  "nso_set_module_id i b = b\<lparr>nb_module_id := Some i\<rparr>"
definition nso_set_compressed :: "bool \<Rightarrow> nso_builder \<Rightarrow> nso_builder" where
  "nso_set_compressed c b = b\<lparr>nb_compress := c\<rparr>"

lemmas nso_setters =
  nso_new_def nso_set_text_def nso_set_text_vaddr_def nso_set_rodata_def nso_set_rodata_vaddr_def
  nso_set_data_def nso_set_data_vaddr_def nso_set_bss_size_def nso_set_module_id_def
  nso_set_compressed_def

datatype nso_build_error = Nso_MissingText | Nso_MissingRodata | Nso_MissingData

definition nso_build :: "(bytes \<Rightarrow> bytes) \<Rightarrow> (bytes \<Rightarrow> bytes) \<Rightarrow> nso_builder \<Rightarrow> (bytes, nso_build_error) result" where
  "nso_build sha lz4c b =
     rbind (ok_or Nso_MissingText (nb_text b)) (\<lambda>text.
     rbind (ok_or Nso_MissingRodata (nb_rodata b)) (\<lambda>rodata.
     rbind (ok_or Nso_MissingData (nb_data b)) (\<lambda>data.
       let text_padded = pad_to_alignment text 0x1000;
           rodata_padded = pad_to_alignment rodata 0x1000;
           data_padded = pad_to_alignment data 0x1000;
           text_hash = sha text_padded; rodata_hash = sha rodata_padded; data_hash = sha data_padded;
           (text_data, text_compressed, rodata_data, rodata_compressed, data_data, data_compressed) =
             (if nb_compress b
              then (lz4c text_padded, True, lz4c rodata_padded, True, lz4c data_padded, True)
              else (text_padded, False, rodata_padded, False, data_padded, False));
           flags = 0;
           flags = (if text_compressed then flags OR TEXT_COMPRESS else flags);
           flags = (if rodata_compressed then flags OR RODATA_COMPRESS else flags);
           flags = (if data_compressed then flags OR DATA_COMPRESS else flags);
           flags = flags OR (TEXT_HASH OR RODATA_HASH OR DATA_HASH);
           text_offset = 0x100
       in rbind (wadd text_offset (word_of_nat (length text_data))) (\<lambda>rodata_offset.
          rbind (wadd rodata_offset (word_of_nat (length rodata_data))) (\<lambda>data_offset.
            let header =
              \<lparr>nh_magic = NSO_MAGIC, nh_version = 0, nh_reserved = 0, nh_flags = flags,
               nh_text = \<lparr>ng_file_offset = text_offset, ng_memory_offset = nb_text_vaddr b,
                          ng_size = word_of_nat (length text_padded)\<rparr>,
               nh_module_name_offset = 1,
               nh_rodata = \<lparr>ng_file_offset = rodata_offset, ng_memory_offset = nb_rodata_vaddr b,
                            ng_size = word_of_nat (length rodata_padded)\<rparr>,
               nh_module_name_size = 1,
               nh_data = \<lparr>ng_file_offset = data_offset, ng_memory_offset = nb_data_vaddr b,
                          ng_size = word_of_nat (length data_padded)\<rparr>,
               nh_bss_size = nb_bss_size b,
               nh_module_id = (case nb_module_id b of Some i \<Rightarrow> i | None \<Rightarrow> zeros 0x20),
               nh_text_file_size = word_of_nat (length text_data),
               nh_rodata_file_size = word_of_nat (length rodata_data),
               nh_data_file_size = word_of_nat (length data_data),
               nh_reserved2 = zeros 0x1C, nh_embedded_offset = 0, nh_embedded_size = 0,
               nh_dynstr_offset = 0, nh_dynstr_size = 0, nh_dynsym_offset = 0, nh_dynsym_size = 0,
               nh_text_hash = text_hash, nh_rodata_hash = rodata_hash, nh_data_hash = data_hash\<rparr>
            in Ok (enc_nso_header header @ text_data @ rodata_data @ data_data))))))"

section \<open>The reader\<close>

datatype nso_parse_error =
    Nso_BufferTooSmall (required: nat) (available: nat)
  | Nso_InvalidMagic (found: u32)
  | Nso_SegmentOutOfBounds (segment: string) (seg_offset: nat) (seg_size: nat) (out_of: nat)

record nso =
  nso_bytes :: bytes
  nso_hdr :: nso_header

definition nso_validate_segment_bounds ::
  "nat \<Rightarrow> string \<Rightarrow> u32 \<Rightarrow> u32 \<Rightarrow> (unit, nso_parse_error) result" where
  "nso_validate_segment_bounds buffer_len segment_name offset sz =
     (let offset = unat offset; sz = unat sz in
      rbind (ok_or (Nso_SegmentOutOfBounds segment_name offset sz buffer_len) (checked_add offset sz)) (\<lambda>end_off.
        if end_off > buffer_len then Err (Nso_SegmentOutOfBounds segment_name offset sz buffer_len)
        else Ok ()))"

definition nso_try_from_bytes :: "bytes \<Rightarrow> (nso, nso_parse_error) result" where
  "nso_try_from_bytes bs =
     (if length bs < 0x100 then Err (Nso_BufferTooSmall 0x100 (length bs))
      else
        rbind (ok_or (Nso_BufferTooSmall 0x100 (length bs)) (ref_from_prefix dec_nso_header 0x100 bs)) (\<lambda>(header, _).
          if nh_magic header \<noteq> NSO_MAGIC then Err (Nso_InvalidMagic (nh_magic header))
          else
            rbind (nso_validate_segment_bounds (length bs) ''text''
                     (ng_file_offset (nh_text header)) (nh_text_file_size header)) (\<lambda>_.
            rbind (nso_validate_segment_bounds (length bs) ''rodata''
                     (ng_file_offset (nh_rodata header)) (nh_rodata_file_size header)) (\<lambda>_.
            rbind (nso_validate_segment_bounds (length bs) ''data''
                     (ng_file_offset (nh_data header)) (nh_data_file_size header)) (\<lambda>_.
              Ok \<lparr>nso_bytes = bs, nso_hdr = header\<rparr>)))))"

definition nso_module_id :: "nso \<Rightarrow> bytes" where
  "nso_module_id n = nh_module_id (nso_hdr n)"

text \<open>\<^verbatim>\<open>from_bits_truncate\<close> keeps the six known bits; \<^verbatim>\<open>contains\<close> asks for all bits of its argument.\<close>

definition nso_flags :: "nso \<Rightarrow> u32" where
  "nso_flags n =
     nh_flags (nso_hdr n)
     AND (TEXT_COMPRESS OR RODATA_COMPRESS OR DATA_COMPRESS OR TEXT_HASH OR RODATA_HASH OR DATA_HASH)"

definition nso_flags_contains :: "u32 \<Rightarrow> u32 \<Rightarrow> bool" where
  "nso_flags_contains flags flag \<longleftrightarrow> flags AND flag = flag"

definition nso_text_compressed :: "nso \<Rightarrow> (bytes, 'e) result" where
  "nso_text_compressed n =
     (let off = unat (ng_file_offset (nh_text (nso_hdr n))); sz = unat (nh_text_file_size (nso_hdr n))
      in rbind (uadd off sz) (\<lambda>end_off. slice (nso_bytes n) off end_off))"

definition nso_rodata_compressed :: "nso \<Rightarrow> (bytes, 'e) result" where
  "nso_rodata_compressed n =
     (let off = unat (ng_file_offset (nh_rodata (nso_hdr n))); sz = unat (nh_rodata_file_size (nso_hdr n))
      in rbind (uadd off sz) (\<lambda>end_off. slice (nso_bytes n) off end_off))"

definition nso_data_compressed :: "nso \<Rightarrow> (bytes, 'e) result" where
  "nso_data_compressed n =
     (let off = unat (ng_file_offset (nh_data (nso_hdr n))); sz = unat (nh_data_file_size (nso_hdr n))
      in rbind (uadd off sz) (\<lambda>end_off. slice (nso_bytes n) off end_off))"

datatype nso_segment_id = NsoText | NsoRoData | NsoData

fun nso_segment_display :: "nso_segment_id \<Rightarrow> string" where
  "nso_segment_display NsoText = ''text''"
| "nso_segment_display NsoRoData = ''rodata''"
| "nso_segment_display NsoData = ''data''"

datatype 'd nso_decompress_error = Nso_Decompress (failed_segment: nso_segment_id) (source: 'd)

text \<open>What \<^verbatim>\<open>lz4_flex::decompress\<close> is to the reader: the stored bytes and the size the segment
  header gives, to the expanded bytes or that crate's error.\<close>

type_synonym 'd lz4_decoder = "bytes \<Rightarrow> nat \<Rightarrow> 'd + bytes"

definition nso_decompress ::
  "'d lz4_decoder \<Rightarrow> nso \<Rightarrow> nso_segment_id \<Rightarrow> bytes \<Rightarrow> nat \<Rightarrow> u32 \<Rightarrow> (bytes, 'd nso_decompress_error) result" where
  "nso_decompress lz4d n seg stored decompressed_size flag =
     (if \<not> nso_flags_contains (nso_flags n) flag then Ok stored
      else (case lz4d stored decompressed_size of
              Inr bs \<Rightarrow> Ok bs
            | Inl e \<Rightarrow> Err (Nso_Decompress seg e)))"

definition nso_text :: "'d lz4_decoder \<Rightarrow> nso \<Rightarrow> (bytes, 'd nso_decompress_error) result" where
  "nso_text lz4d n =
     rbind (nso_text_compressed n) (\<lambda>stored.
       nso_decompress lz4d n NsoText stored (unat (ng_size (nh_text (nso_hdr n)))) TEXT_COMPRESS)"

definition nso_rodata :: "'d lz4_decoder \<Rightarrow> nso \<Rightarrow> (bytes, 'd nso_decompress_error) result" where
  "nso_rodata lz4d n =
     rbind (nso_rodata_compressed n) (\<lambda>stored.
       nso_decompress lz4d n NsoRoData stored (unat (ng_size (nh_rodata (nso_hdr n)))) RODATA_COMPRESS)"

definition nso_data :: "'d lz4_decoder \<Rightarrow> nso \<Rightarrow> (bytes, 'd nso_decompress_error) result" where
  "nso_data lz4d n =
     rbind (nso_data_compressed n) (\<lambda>stored.
       nso_decompress lz4d n NsoData stored (unat (ng_size (nh_data (nso_hdr n)))) DATA_COMPRESS)"

section \<open>The builder in closed form\<close>

text \<open>The stored form of a segment, and the header of a build that gets past the checks.\<close>

definition nso_stored :: "(bytes \<Rightarrow> bytes) \<Rightarrow> nso_builder \<Rightarrow> bytes \<Rightarrow> bytes" where
  "nso_stored lz4c b xs = (if nb_compress b then lz4c (paged xs) else paged xs)"

definition nso_header_of ::
  "(bytes \<Rightarrow> bytes) \<Rightarrow> (bytes \<Rightarrow> bytes) \<Rightarrow> nso_builder \<Rightarrow> bytes \<Rightarrow> bytes \<Rightarrow> bytes \<Rightarrow> nso_header" where
  "nso_header_of sha lz4c b t r d =
     (let len = (\<lambda>xs. length (nso_stored lz4c b xs)) in
      \<lparr>nh_magic = NSO_MAGIC, nh_version = 0, nh_reserved = 0,
       nh_flags = (if nb_compress b then 0x3F else 0x38),
       nh_text = \<lparr>ng_file_offset = 0x100, ng_memory_offset = nb_text_vaddr b,
                  ng_size = word_of_nat (length (paged t))\<rparr>,
       nh_module_name_offset = 1,
       nh_rodata = \<lparr>ng_file_offset = word_of_nat (0x100 + len t), ng_memory_offset = nb_rodata_vaddr b,
                    ng_size = word_of_nat (length (paged r))\<rparr>,
       nh_module_name_size = 1,
       nh_data = \<lparr>ng_file_offset = word_of_nat (0x100 + len t + len r),
                  ng_memory_offset = nb_data_vaddr b, ng_size = word_of_nat (length (paged d))\<rparr>,
       nh_bss_size = nb_bss_size b,
       nh_module_id = (case nb_module_id b of Some i \<Rightarrow> i | None \<Rightarrow> zeros 0x20),
       nh_text_file_size = word_of_nat (len t), nh_rodata_file_size = word_of_nat (len r),
       nh_data_file_size = word_of_nat (len d),
       nh_reserved2 = zeros 0x1C, nh_embedded_offset = 0, nh_embedded_size = 0, nh_dynstr_offset = 0,
       nh_dynstr_size = 0, nh_dynsym_offset = 0, nh_dynsym_size = 0,
       nh_text_hash = sha (paged t), nh_rodata_hash = sha (paged r), nh_data_hash = sha (paged d)\<rparr>)"

definition nso_image ::
  "(bytes \<Rightarrow> bytes) \<Rightarrow> (bytes \<Rightarrow> bytes) \<Rightarrow> nso_builder \<Rightarrow> bytes \<Rightarrow> bytes \<Rightarrow> bytes \<Rightarrow> bytes" where
  "nso_image sha lz4c b t r d =
     enc_nso_header (nso_header_of sha lz4c b t r d)
     @ nso_stored lz4c b t @ nso_stored lz4c b r @ nso_stored lz4c b d"

text \<open>Adding two lengths that were cut to 32 bits: the sum is right when it does not overflow.\<close>

lemma wadd_length:
  "(wadd (word_of_nat m :: u32) (word_of_nat n) :: (u32, 'e) result)
     = (if m mod 2 ^ 32 + n mod 2 ^ 32 < 2 ^ 32 then Ok (word_of_nat (m + n)) else Panic)"
  by (simp add: wadd_def unat_of_nat)

lemma nso_offsets:
  "(rbind (wadd (0x100 :: u32) (word_of_nat m)) (\<lambda>x. rbind (wadd x (word_of_nat n)) (f x)) :: ('a, 'e) result)
     = (if 0x100 + m mod 2 ^ 32 + n mod 2 ^ 32 < 2 ^ 32
        then f (word_of_nat (0x100 + m)) (word_of_nat (0x100 + m + n)) else Panic)"
proof (cases "0x100 + m mod 2 ^ 32 < 2 ^ 32")
  case True
  then have low: "(0x100 + m) mod 2 ^ 32 = 0x100 + m mod 2 ^ 32"
    by (metis mod_add_right_eq mod_less)
  have "(wadd (0x100 :: u32) (word_of_nat m) :: (u32, 'e) result) = Ok (word_of_nat (0x100 + m))"
    using True wadd_length [of "0x100" m] by simp
  then show ?thesis
    using wadd_length [of "0x100 + m" n, where 'e = 'e] low by simp
next
  case False
  then have "(wadd (0x100 :: u32) (word_of_nat m) :: (u32, 'e) result) = Panic"
    using wadd_length [of "0x100" m] by simp
  then show ?thesis using False by simp
qed

lemma nso_build_eq:
  "nso_build sha lz4c b =
     (case (nb_text b, nb_rodata b, nb_data b) of
        (None, _, _) \<Rightarrow> Err Nso_MissingText
      | (_, None, _) \<Rightarrow> Err Nso_MissingRodata
      | (_, _, None) \<Rightarrow> Err Nso_MissingData
      | (Some t, Some r, Some d) \<Rightarrow>
          (if 0x100 + length (nso_stored lz4c b t) mod 2 ^ 32 + length (nso_stored lz4c b r) mod 2 ^ 32 < 2 ^ 32
           then Ok (nso_image sha lz4c b t r d) else Panic))"
proof (cases "nb_text b")
  case (Some t)
  show ?thesis
  proof (cases "nb_rodata b")
    case r: (Some r)
    show ?thesis
    proof (cases "nb_data b")
      case d: (Some d)
      show ?thesis
        by (cases "nb_compress b")
          (simp_all add: nso_build_def Some r d Let_def nso_offsets nso_image_def nso_header_of_def
            nso_stored_def nso_flag_defs)
    qed (simp add: nso_build_def Some r)
  qed (simp add: nso_build_def Some)
qed (simp add: nso_build_def split: option.split)

section \<open>The reader in closed form\<close>

text \<open>The stored extents of the three segments, in the order they are validated.\<close>

definition nso_extents :: "nso_header \<Rightarrow> (string \<times> nat \<times> nat) list" where
  "nso_extents h =
     [(''text'', unat (ng_file_offset (nh_text h)), unat (nh_text_file_size h)),
      (''rodata'', unat (ng_file_offset (nh_rodata h)), unat (nh_rodata_file_size h)),
      (''data'', unat (ng_file_offset (nh_data h)), unat (nh_data_file_size h))]"

lemma nso_validate_eq:
  "nso_validate_segment_bounds n name off sz =
     (if unat off + unat sz \<le> n then Ok ()
      else Err (Nso_SegmentOutOfBounds name (unat off) (unat sz) n))"
  by (simp add: nso_validate_segment_bounds_def Let_def run_simps unat_u32_sum_usize)

lemma nso_try_eq:
  "nso_try_from_bytes bs =
     (if length bs < 0x100 then Err (Nso_BufferTooSmall 0x100 (length bs))
      else let h = dec_nso_header bs in
        if nh_magic h \<noteq> NSO_MAGIC then Err (Nso_InvalidMagic (nh_magic h))
        else (case find (\<lambda>(name, off, sz). length bs < off + sz) (nso_extents h) of
                None \<Rightarrow> Ok \<lparr>nso_bytes = bs, nso_hdr = h\<rparr>
              | Some (name, off, sz) \<Rightarrow> Err (Nso_SegmentOutOfBounds name off sz (length bs))))"
  by (simp add: nso_try_from_bytes_def run_simps nso_validate_eq nso_extents_def Let_def)

lemma nso_try_Ok:
  "nso_try_from_bytes bs = Ok n \<longleftrightarrow>
     0x100 \<le> length bs \<and> nh_magic (dec_nso_header bs) = NSO_MAGIC
     \<and> (\<forall>(name, off, sz)\<in>set (nso_extents (dec_nso_header bs)). off + sz \<le> length bs)
     \<and> n = \<lparr>nso_bytes = bs, nso_hdr = dec_nso_header bs\<rparr>"
proof -
  have "find (\<lambda>(name, off, sz). length bs < off + sz) xs = None
      \<longleftrightarrow> (\<forall>(name, off, sz)\<in>set xs. off + sz \<le> length bs)" for xs :: "(string \<times> nat \<times> nat) list"
    by (auto simp: find_None_iff not_less)
  from this [of "nso_extents (dec_nso_header bs)"] show ?thesis
    by (auto simp: nso_try_eq Let_def split: option.splits if_splits)
qed

text \<open>On an accepted image every stored extent is a slice of the buffer.\<close>

lemma nso_stored_ok:
  assumes "nso_try_from_bytes bs = Ok n"
  shows "(nso_text_compressed n :: (bytes, 'e) result)
      = Ok (sub_bytes bs (unat (ng_file_offset (nh_text (nso_hdr n)))) (unat (nh_text_file_size (nso_hdr n))))"
    and "(nso_rodata_compressed n :: (bytes, 'e) result)
      = Ok (sub_bytes bs (unat (ng_file_offset (nh_rodata (nso_hdr n)))) (unat (nh_rodata_file_size (nso_hdr n))))"
    and "(nso_data_compressed n :: (bytes, 'e) result)
      = Ok (sub_bytes bs (unat (ng_file_offset (nh_data (nso_hdr n)))) (unat (nh_data_file_size (nso_hdr n))))"
  using assms
  by (simp_all add: nso_try_Ok nso_extents_def nso_text_compressed_def nso_rodata_compressed_def
      nso_data_compressed_def Let_def run_simps unat_u32_sum_usize sub_bytes_def)

lemma and_single_bit:
  assumes "k < LENGTH('a)"
  shows "(w :: 'a::len word) AND push_bit k 1 = push_bit k 1 \<longleftrightarrow> bit w k"
proof
  assume "w AND push_bit k 1 = push_bit k 1"
  then have "bit (w AND push_bit k 1) k = bit (push_bit k 1 :: 'a word) k" by simp
  then show "bit w k" using assms by (simp add: bit_simps)
next
  assume "bit w k"
  then show "w AND push_bit k 1 = push_bit k 1"
    by (intro bit_eqI) (auto simp: bit_simps)
qed

lemma nso_compress_bits:
  "nso_flags_contains (nso_flags n) TEXT_COMPRESS \<longleftrightarrow> bit (nh_flags (nso_hdr n)) 0"
  "nso_flags_contains (nso_flags n) RODATA_COMPRESS \<longleftrightarrow> bit (nh_flags (nso_hdr n)) 1"
  "nso_flags_contains (nso_flags n) DATA_COMPRESS \<longleftrightarrow> bit (nh_flags (nso_hdr n)) 2"
  unfolding nso_flags_contains_def nso_flags_def nso_flag_defs
  by (subst and_single_bit; simp add: bit_simps)+

section \<open>Reading back what was built\<close>

lemma nso_header_of_wf:
  assumes "digest_size sha" "\<forall>i. nb_module_id b = Some i \<longrightarrow> length i = 0x20"
  shows "nso_header_wf (nso_header_of sha lz4c b t r d)"
  using assms by (simp add: nso_header_wf_def nso_header_of_def Let_def digest_size_def split: option.split)

lemma nso_build_ok:
  assumes "nb_text b = Some t" "nb_rodata b = Some r" "nb_data b = Some d"
    and "0x100 + length (nso_stored lz4c b t) + length (nso_stored lz4c b r) < 2 ^ 32"
  shows "nso_build sha lz4c b = Ok (nso_image sha lz4c b t r d)"
  using assms by (simp add: nso_build_eq)

text \<open>What fits the 32-bit fields: the expanded sizes, the stored sizes, and the file offsets.\<close>

definition nso_fits :: "(bytes \<Rightarrow> bytes) \<Rightarrow> nso_builder \<Rightarrow> bytes \<Rightarrow> bytes \<Rightarrow> bytes \<Rightarrow> bool" where
  "nso_fits lz4c b t r d \<longleftrightarrow>
     length (paged t) < 2 ^ 32 \<and> length (paged r) < 2 ^ 32 \<and> length (paged d) < 2 ^ 32
     \<and> length (nso_stored lz4c b d) < 2 ^ 32
     \<and> 0x100 + length (nso_stored lz4c b t) + length (nso_stored lz4c b r) < 2 ^ 32"

lemma nso_image_parts:
  assumes "digest_size sha" "\<forall>i. nb_module_id b = Some i \<longrightarrow> length i = 0x20" "nso_fits lz4c b t r d"
  defines "h \<equiv> nso_header_of sha lz4c b t r d" and "img \<equiv> nso_image sha lz4c b t r d"
  shows "nso_try_from_bytes img = Ok \<lparr>nso_bytes = img, nso_hdr = h\<rparr>"
    and "sub_bytes img (unat (ng_file_offset (nh_text h))) (unat (nh_text_file_size h)) = nso_stored lz4c b t"
    and "sub_bytes img (unat (ng_file_offset (nh_rodata h))) (unat (nh_rodata_file_size h)) = nso_stored lz4c b r"
    and "sub_bytes img (unat (ng_file_offset (nh_data h))) (unat (nh_data_file_size h)) = nso_stored lz4c b d"
proof -
  let ?t = "nso_stored lz4c b t" and ?r = "nso_stored lz4c b r" and ?d = "nso_stored lz4c b d"
  have wf: "nso_header_wf h" unfolding h_def by (rule nso_header_of_wf [OF assms(1,2)])
  have img: "img = enc_nso_header h @ ?t @ ?r @ ?d" by (simp add: img_def h_def nso_image_def)
  have len: "length (enc_nso_header h) = 0x100" by (rule nso_header.enc_length [OF wf])
  have dec: "dec_nso_header img = h" unfolding img by (rule nso_header.dec_enc [OF wf])
  have field:
    "unat (ng_file_offset (nh_text h)) = 0x100" "unat (nh_text_file_size h) = length ?t"
    "unat (ng_file_offset (nh_rodata h)) = 0x100 + length ?t" "unat (nh_rodata_file_size h) = length ?r"
    "unat (ng_file_offset (nh_data h)) = 0x100 + length ?t + length ?r" "unat (nh_data_file_size h) = length ?d"
    using assms(3)
    by (simp_all add: h_def nso_header_of_def nso_fits_def Let_def unat_u32_of_nat del: of_nat_add of_nat_Suc)
  have "nh_magic h = NSO_MAGIC" by (simp add: h_def nso_header_of_def Let_def)
  then show "nso_try_from_bytes img = Ok \<lparr>nso_bytes = img, nso_hdr = h\<rparr>"
    using dec field len by (simp add: nso_try_Ok nso_extents_def img)
  show "sub_bytes img (unat (ng_file_offset (nh_text h))) (unat (nh_text_file_size h)) = ?t"
    "sub_bytes img (unat (ng_file_offset (nh_rodata h))) (unat (nh_rodata_file_size h)) = ?r"
    "sub_bytes img (unat (ng_file_offset (nh_data h))) (unat (nh_data_file_size h)) = ?d"
    unfolding field img using len by (simp_all add: sub_bytes_def)
qed

text \<open>Expanding the stored form of a segment gives the segment back, given the codec's round trip.\<close>

definition lz4_inverse :: "(bytes \<Rightarrow> bytes) \<Rightarrow> 'd lz4_decoder \<Rightarrow> bool" where
  "lz4_inverse lz4c lz4d \<longleftrightarrow> (\<forall>xs. lz4d (lz4c xs) (length xs) = Inr xs)"

lemma nso_decompress_stored:
  assumes "lz4_inverse lz4c lz4d" "nso_flags_contains (nso_flags n) flag \<longleftrightarrow> nb_compress b"
    and "sz = length (paged xs)"
  shows "nso_decompress lz4d n seg (nso_stored lz4c b xs) sz flag = Ok (paged xs)"
  using assms by (simp add: nso_decompress_def nso_stored_def lz4_inverse_def)

lemma nso_image_expands:
  fixes lz4d :: "'d lz4_decoder"
  assumes "digest_size sha" "\<forall>i. nb_module_id b = Some i \<longrightarrow> length i = 0x20" "nso_fits lz4c b t r d"
    and "lz4_inverse lz4c lz4d"
  defines "n \<equiv> \<lparr>nso_bytes = nso_image sha lz4c b t r d, nso_hdr = nso_header_of sha lz4c b t r d\<rparr>"
  shows "nso_text lz4d n = Ok (paged t)" "nso_rodata lz4d n = Ok (paged r)" "nso_data lz4d n = Ok (paged d)"
proof -
  note parts = nso_image_parts [OF assms(1-3)]
  note stored = nso_stored_ok [OF parts(1), where 'e = "'d nso_decompress_error"]
  have bits: "bit (nh_flags (nso_hdr n)) k \<longleftrightarrow> nb_compress b" if "k < 3" for k
    using that by (auto simp: n_def nso_header_of_def Let_def less_Suc_eq numeral_3_eq_3 bit_numeral_rec)
  have c: "nso_flags_contains (nso_flags n) TEXT_COMPRESS \<longleftrightarrow> nb_compress b"
    "nso_flags_contains (nso_flags n) RODATA_COMPRESS \<longleftrightarrow> nb_compress b"
    "nso_flags_contains (nso_flags n) DATA_COMPRESS \<longleftrightarrow> nb_compress b"
    by (simp_all add: nso_compress_bits bits)
  have sz: "unat (ng_size (nh_text (nso_hdr n))) = length (paged t)"
    "unat (ng_size (nh_rodata (nso_hdr n))) = length (paged r)"
    "unat (ng_size (nh_data (nso_hdr n))) = length (paged d)"
    using assms(3) by (simp_all add: n_def nso_header_of_def Let_def nso_fits_def unat_u32_of_nat)
  show "nso_text lz4d n = Ok (paged t)"
    using parts(2) stored(1) nso_decompress_stored [OF assms(4) c(1) sz(1)]
    by (simp add: nso_text_def n_def)
  show "nso_rodata lz4d n = Ok (paged r)"
    using parts(3) stored(2) nso_decompress_stored [OF assms(4) c(2) sz(2)]
    by (simp add: nso_rodata_def n_def)
  show "nso_data lz4d n = Ok (paged d)"
    using parts(4) stored(3) nso_decompress_stored [OF assms(4) c(3) sz(3)]
    by (simp add: nso_data_def n_def)
qed

end
