(* ===== verification/Nso_Properties.thy ===== *)
theory Nso_Properties
  imports Nso
begin

text \<open>
  What the NSO builder and reader promise.  The witnesses run the builder with a concrete digest
  (the first 32 bytes of its input) and a concrete codec (a marker byte before the bytes).
\<close>

definition nso_digest :: "bytes \<Rightarrow> bytes" where "nso_digest xs = resize0 xs 0x20"
definition nso_pack :: "bytes \<Rightarrow> bytes" where "nso_pack xs = 0xF0 # xs"

fun nso_unpack :: "bytes \<Rightarrow> nat \<Rightarrow> unit + bytes" where
  "nso_unpack (x # xs) n = (if x = 0xF0 \<and> length xs \<le> n then Inr xs else Inl ())"
| "nso_unpack [] n = Inl ()"

definition nso_example :: nso_builder where
  "nso_example = nso_set_data [3] (nso_set_rodata [2, 2] (nso_set_text [1] nso_new))"

lemma nso_parameters: "digest_size nso_digest" "lz4_inverse nso_pack nso_unpack"
  by (simp_all add: digest_size_def nso_digest_def lz4_inverse_def nso_pack_def)

lemma nso_example_fields:
  "nb_text nso_example = Some [1]" "nb_rodata nso_example = Some [2, 2]" "nb_data nso_example = Some [3]"
  "nb_module_id nso_example = None" "nb_compress nso_example"
  by (simp_all add: nso_example_def nso_setters)

lemma nso_example_fits: "nso_fits nso_pack nso_example [1] [2, 2] [3]"
  by (simp add: nso_fits_def nso_stored_def nso_example_fields nso_pack_def length_paged align_up_def)

lemma nso_example_parses:
  "nso_try_from_bytes (nso_image nso_digest nso_pack nso_example [1] [2, 2] [3])
     = Ok \<lparr>nso_bytes = nso_image nso_digest nso_pack nso_example [1] [2, 2] [3],
          nso_hdr = nso_header_of nso_digest nso_pack nso_example [1] [2, 2] [3]\<rparr>"
  by (rule nso_image_parts(1) [OF nso_parameters(1) _ nso_example_fits]) (simp add: nso_example_fields)

text \<open>C27. An NSO that was built parses, and its segments expand to what the builder was given, rounded up
  to whole pages of zeros; the header carries the digest of exactly those bytes, and the module
  identity, the addresses and the size of bss come back.  Compression may be on or off: the flags
  follow the builder's choice.\<close>

theorem nso_round_trip:
  assumes "nb_text b = Some t" "nb_rodata b = Some r" "nb_data b = Some d"
    and "digest_size sha" "lz4_inverse lz4c lz4d"
    and "\<forall>i. nb_module_id b = Some i \<longrightarrow> length i = 0x20" "nso_fits lz4c b t r d"
  shows "\<exists>img n. nso_build sha lz4c b = Ok img \<and> nso_try_from_bytes img = Ok n
    \<and> nso_text lz4d n = Ok (paged t) \<and> nso_rodata lz4d n = Ok (paged r) \<and> nso_data lz4d n = Ok (paged d)
    \<and> nh_text_hash (nso_hdr n) = sha (paged t) \<and> nh_rodata_hash (nso_hdr n) = sha (paged r)
    \<and> nh_data_hash (nso_hdr n) = sha (paged d)
    \<and> nso_flags n = (if nb_compress b then 0x3F else 0x38)
    \<and> nso_module_id n = (case nb_module_id b of Some i \<Rightarrow> i | None \<Rightarrow> zeros 0x20)
    \<and> map ng_memory_offset [nh_text (nso_hdr n), nh_rodata (nso_hdr n), nh_data (nso_hdr n)]
        = [nb_text_vaddr b, nb_rodata_vaddr b, nb_data_vaddr b]
    \<and> nh_bss_size (nso_hdr n) = nb_bss_size b"
proof -
  let ?n = "\<lparr>nso_bytes = nso_image sha lz4c b t r d, nso_hdr = nso_header_of sha lz4c b t r d\<rparr>"
  have "nso_build sha lz4c b = Ok (nso_image sha lz4c b t r d)"
    by (rule nso_build_ok [OF assms(1-3)]) (use assms(7) in \<open>simp add: nso_fits_def\<close>)
  moreover note nso_image_parts(1) [OF assms(4,6,7)] nso_image_expands [OF assms(4,6,7,5)]
  ultimately show ?thesis
    by (intro exI [of _ "nso_image sha lz4c b t r d"] exI [of _ ?n])
      (simp add: nso_header_of_def Let_def nso_flags_def nso_flag_defs nso_module_id_def)
qed

theorem nso_round_trip_witness:
  "\<exists>img n. nso_build nso_digest nso_pack nso_example = Ok img \<and> nso_try_from_bytes img = Ok n
    \<and> nso_text nso_unpack n = Ok (paged [1]) \<and> nso_rodata nso_unpack n = Ok (paged [2, 2])
    \<and> nso_data nso_unpack n = Ok (paged [3]) \<and> nso_flags n = 0x3F"
proof -
  have "\<forall>i. nb_module_id nso_example = Some i \<longrightarrow> length i = 0x20" by (simp add: nso_example_fields)
  from nso_round_trip [OF nso_example_fields(1-3) nso_parameters this nso_example_fits] show ?thesis
    by (auto simp: nso_example_fields)
qed

text \<open>Building an NSO has exactly these outcomes: the first missing segment is reported in the order
  text, rodata, data; the file offsets are 32-bit sums of 32-bit lengths, and a sum that overflows
  panics; otherwise the image is the header followed by the three stored segments.\<close>

theorem nso_build_outcome:
  "nso_build sha lz4c b =
     (case (nb_text b, nb_rodata b, nb_data b) of
        (None, _, _) \<Rightarrow> Err Nso_MissingText
      | (_, None, _) \<Rightarrow> Err Nso_MissingRodata
      | (_, _, None) \<Rightarrow> Err Nso_MissingData
      | (Some t, Some r, Some d) \<Rightarrow>
          (if 0x100 + length (nso_stored lz4c b t) mod 2 ^ 32 + length (nso_stored lz4c b r) mod 2 ^ 32 < 2 ^ 32
           then Ok (nso_image sha lz4c b t r d) else Panic))"
  by (rule nso_build_eq)

text \<open>The contents of a segment, as the header and the buffer determine them.\<close>

definition nso_contents ::
  "'d lz4_decoder \<Rightarrow> bytes \<Rightarrow> nso_segment_id \<Rightarrow> nso_segment_header \<Rightarrow> u32 \<Rightarrow> bool \<Rightarrow> (bytes, 'd nso_decompress_error) result" where
  "nso_contents lz4d bs i seg file_size packed =
     (let stored = sub_bytes bs (unat (ng_file_offset seg)) (unat file_size) in
      if packed
      then (case lz4d stored (unat (ng_size seg)) of Inr xs \<Rightarrow> Ok xs | Inl e \<Rightarrow> Err (Nso_Decompress i e))
      else Ok stored)"

lemma nso_accessors:
  fixes lz4d :: "'d lz4_decoder"
  assumes "nso_try_from_bytes bs = Ok n"
  shows "nso_text lz4d n
      = nso_contents lz4d bs NsoText (nh_text (nso_hdr n)) (nh_text_file_size (nso_hdr n)) (bit (nh_flags (nso_hdr n)) 0)
    \<and> nso_rodata lz4d n
      = nso_contents lz4d bs NsoRoData (nh_rodata (nso_hdr n)) (nh_rodata_file_size (nso_hdr n)) (bit (nh_flags (nso_hdr n)) 1)
    \<and> nso_data lz4d n
      = nso_contents lz4d bs NsoData (nh_data (nso_hdr n)) (nh_data_file_size (nso_hdr n)) (bit (nh_flags (nso_hdr n)) 2)"
  using nso_stored_ok [OF assms, where 'e = "'d nso_decompress_error"]
  by (simp add: nso_text_def nso_rodata_def nso_data_def nso_decompress_def nso_compress_bits nso_contents_def
      Let_def split: sum.split)

text \<open>C40. The NSO reader accepts exactly the buffers that hold the header, carry the magic, and contain
  the three stored extents; otherwise it names the first thing that is wrong.  On an accepted image
  every segment accessor returns: the bytes of the extent the header names, as they are when the
  compression bit is clear (the header's expanded size is then not consulted), else whatever the
  codec makes of them.  Nothing panics.\<close>

theorem nso_reader_exact:
  "nso_try_from_bytes bs =
     (if length bs < 0x100 then Err (Nso_BufferTooSmall 0x100 (length bs))
      else let h = dec_nso_header bs in
        if nh_magic h \<noteq> NSO_MAGIC then Err (Nso_InvalidMagic (nh_magic h))
        else (case find (\<lambda>(name, off, sz). length bs < off + sz) (nso_extents h) of
                None \<Rightarrow> Ok \<lparr>nso_bytes = bs, nso_hdr = h\<rparr>
              | Some (name, off, sz) \<Rightarrow> Err (Nso_SegmentOutOfBounds name off sz (length bs))))
   \<and> (\<forall>n. nso_try_from_bytes bs = Ok n \<longrightarrow>
        nso_text lz4d n
          = nso_contents lz4d bs NsoText (nh_text (nso_hdr n)) (nh_text_file_size (nso_hdr n)) (bit (nh_flags (nso_hdr n)) 0)
      \<and> nso_rodata lz4d n
          = nso_contents lz4d bs NsoRoData (nh_rodata (nso_hdr n)) (nh_rodata_file_size (nso_hdr n)) (bit (nh_flags (nso_hdr n)) 1)
      \<and> nso_data lz4d n
          = nso_contents lz4d bs NsoData (nh_data (nso_hdr n)) (nh_data_file_size (nso_hdr n)) (bit (nh_flags (nso_hdr n)) 2))"
  by (intro conjI allI impI; (elim nso_accessors [THEN conjunct1] nso_accessors [THEN conjunct2, THEN conjunct1]
      nso_accessors [THEN conjunct2, THEN conjunct2])?) (rule nso_try_eq)

theorem nso_reader_exact_witness:
  "\<exists>n. nso_try_from_bytes (nso_image nso_digest nso_pack nso_example [1] [2, 2] [3]) = Ok n
    \<and> nso_data nso_unpack n = Ok (paged [3])"
proof -
  have e: "\<forall>i. nb_module_id nso_example = Some i \<longrightarrow> length i = 0x20" by (simp add: nso_example_fields)
  from nso_reader_exact [THEN conjunct2, rule_format, OF nso_example_parses, of nso_unpack]
    nso_image_parts(4) [OF nso_parameters(1) e nso_example_fits]
  show ?thesis
    by (simp add: nso_example_parses nso_contents_def nso_stored_def nso_example_fields nso_pack_def)
      (simp add: nso_header_of_def Let_def nso_example_fields length_paged align_up_def)
qed

end
