(* ===== verification/Nro.thy ===== *)
theory Nro
  imports Executable
begin

text \<open>
  NRO, the format of homebrew executables: the structures of \<^verbatim>\<open>src/raw/nro.rs\<close>, the builder of
  \<^verbatim>\<open>src/write/nro.rs\<close>, which writes segments, header and assets over each other into one
  zeroed buffer, and the reader of \<^verbatim>\<open>src/read/nro.rs\<close>.
\<close>

section \<open>The structures\<close>

definition NRO_MAGIC :: u32 where "NRO_MAGIC = 0x304f524e"
definition ASSET_MAGIC :: u32 where "ASSET_MAGIC = 0x54455341"

record nro_segment_header =
  rs_file_off :: u32
  rs_size :: u32

definition enc_nro_segment_header :: "nro_segment_header \<Rightarrow> bytes" where
  "enc_nro_segment_header s = le32 (rs_file_off s) @ le32 (rs_size s)"

definition dec_nro_segment_header :: "bytes \<Rightarrow> nro_segment_header" where
  "dec_nro_segment_header bs = \<lparr>rs_file_off = rd32 bs 0, rs_size = rd32 bs 4\<rparr>"

interpretation nro_segment_header:
  layout enc_nro_segment_header dec_nro_segment_header "8" "\<lambda>_. True"
  by unfold_locales
    (simp_all add: enc_nro_segment_header_def dec_nro_segment_header_def field_simps_le field_join)

record nro_start =
  rt_unused :: u32
  rt_mod_offset :: u32
  rt_padding :: bytes

definition enc_nro_start :: "nro_start \<Rightarrow> bytes" where
  "enc_nro_start s = le32 (rt_unused s) @ le32 (rt_mod_offset s) @ rt_padding s"

definition dec_nro_start :: "bytes \<Rightarrow> nro_start" where
  "dec_nro_start bs = \<lparr>rt_unused = rd32 bs 0, rt_mod_offset = rd32 bs 4, rt_padding = sub_bytes bs 8 8\<rparr>"

interpretation nro_start: layout enc_nro_start dec_nro_start "0x10" "\<lambda>s. length (rt_padding s) = 8"
  by unfold_locales
    (simp_all add: enc_nro_start_def dec_nro_start_def field_simps_le field_join length_sub_bytes)

record nro_header =
  rh_magic :: u32
  rh_version :: u32
  rh_size :: u32
  rh_flags :: u32
  rh_segments :: "nro_segment_header list"
  rh_bss_size :: u32
  rh_reserved :: u32
  rh_build_id :: bytes
  rh_reserved2 :: bytes

definition enc_nro_header :: "nro_header \<Rightarrow> bytes" where
  "enc_nro_header h =
     le32 (rh_magic h) @ le32 (rh_version h) @ le32 (rh_size h) @ le32 (rh_flags h)
     @ enc_table enc_nro_segment_header (rh_segments h) @ le32 (rh_bss_size h) @ le32 (rh_reserved h)
     @ rh_build_id h @ rh_reserved2 h"

definition dec_nro_header :: "bytes \<Rightarrow> nro_header" where
  "dec_nro_header bs =
     \<lparr>rh_magic = rd32 bs 0, rh_version = rd32 bs 4, rh_size = rd32 bs 8, rh_flags = rd32 bs 0xC,
      rh_segments = dec_table dec_nro_segment_header 8 3 (drop 0x10 bs), rh_bss_size = rd32 bs 0x28,
      rh_reserved = rd32 bs 0x2C, rh_build_id = sub_bytes bs 0x30 0x20,
      rh_reserved2 = sub_bytes bs 0x50 0x20\<rparr>"

definition nro_header_wf :: "nro_header \<Rightarrow> bool" where
  "nro_header_wf h \<longleftrightarrow>
     length (rh_segments h) = 3 \<and> length (rh_build_id h) = 0x20 \<and> length (rh_reserved2 h) = 0x20"

interpretation nro_header: layout enc_nro_header dec_nro_header "0x70" nro_header_wf
proof unfold_locales
  fix r rest assume wf: "nro_header_wf r"
  note len = nro_segment_header.enc_table_length [of "rh_segments r"]
  show "length (enc_nro_header r) = 0x70"
    using wf len by (simp add: enc_nro_header_def nro_header_wf_def)
  show "dec_nro_header (enc_nro_header r @ rest) = r"
    using wf len nro_segment_header.dec_enc_table [of "rh_segments r"]
    by (simp add: enc_nro_header_def dec_nro_header_def nro_header_wf_def field_simps_le)
next
  fix bs :: bytes assume len: "0x70 \<le> length bs"
  then show "nro_header_wf (dec_nro_header bs)"
    by (simp add: dec_nro_header_def nro_header_wf_def length_sub_bytes)
  have "enc_table enc_nro_segment_header (dec_table dec_nro_segment_header 8 3 (drop 0x10 bs)) = sub_bytes bs 0x10 0x18"
    using nro_segment_header.enc_dec_table [of 3 "drop 0x10 bs"] len by (simp add: sub_bytes_def)
  with len show "enc_nro_header (dec_nro_header bs) = take 0x70 bs"
    by (simp add: enc_nro_header_def dec_nro_header_def field_simps_le field_join)
qed

record nro_asset_section =
  ra_offset :: u64
  ra_size :: u64

definition enc_nro_asset_section :: "nro_asset_section \<Rightarrow> bytes" where
  "enc_nro_asset_section s = le64 (ra_offset s) @ le64 (ra_size s)"

definition dec_nro_asset_section :: "bytes \<Rightarrow> nro_asset_section" where
  "dec_nro_asset_section bs = \<lparr>ra_offset = rd64 bs 0, ra_size = rd64 bs 8\<rparr>"

interpretation nro_asset_section:
  layout enc_nro_asset_section dec_nro_asset_section "0x10" "\<lambda>_. True"
  by unfold_locales
    (simp_all add: enc_nro_asset_section_def dec_nro_asset_section_def field_simps_le field_join)

record nro_asset_header =
  rx_magic :: u32
  rx_version :: u32
  rx_icon :: nro_asset_section
  rx_nacp :: nro_asset_section
  rx_romfs :: nro_asset_section

definition enc_nro_asset_header :: "nro_asset_header \<Rightarrow> bytes" where
  "enc_nro_asset_header h =
     le32 (rx_magic h) @ le32 (rx_version h) @ enc_nro_asset_section (rx_icon h)
     @ enc_nro_asset_section (rx_nacp h) @ enc_nro_asset_section (rx_romfs h)"

definition dec_nro_asset_header :: "bytes \<Rightarrow> nro_asset_header" where
  "dec_nro_asset_header bs =
     \<lparr>rx_magic = rd32 bs 0, rx_version = rd32 bs 4, rx_icon = dec_nro_asset_section (drop 8 bs),
      rx_nacp = dec_nro_asset_section (drop 0x18 bs), rx_romfs = dec_nro_asset_section (drop 0x28 bs)\<rparr>"

interpretation nro_asset_header:
  layout enc_nro_asset_header dec_nro_asset_header "0x38" "\<lambda>_. True"
proof unfold_locales
  fix r rest
  show "length (enc_nro_asset_header r) = 0x38"
    by (simp add: enc_nro_asset_header_def nro_asset_section.enc_length)
  show "dec_nro_asset_header (enc_nro_asset_header r @ rest) = r"
    by (simp add: enc_nro_asset_header_def dec_nro_asset_header_def field_simps_le
        nro_asset_section.enc_length nro_asset_section.dec_enc)
next
  fix bs :: bytes assume len: "0x38 \<le> length bs"
  have "enc_nro_asset_section (dec_nro_asset_section (drop n bs)) = sub_bytes bs n 0x10" if "n + 0x10 \<le> 0x38" for n
    using len that by (simp add: nro_asset_section.enc_dec sub_bytes_def)
  with len show "enc_nro_asset_header (dec_nro_asset_header bs) = take 0x38 bs"
    by (simp add: enc_nro_asset_header_def dec_nro_asset_header_def field_simps_le field_join)
qed simp

section \<open>The builder\<close>

record nro_builder =
  rb_text :: "bytes option"
  rb_text_vaddr :: u32
  rb_rodata :: "bytes option"
  rb_rodata_vaddr :: u32
  rb_data :: "bytes option"
  rb_data_vaddr :: u32
  rb_bss_size :: u32
  rb_build_id :: "bytes option"
  rb_flags :: u32
  rb_icon :: "bytes option"
  rb_nacp :: "bytes option"
  rb_romfs :: "bytes option"

definition nro_new :: nro_builder where
  "nro_new =
     \<lparr>rb_text = None, rb_text_vaddr = 0, rb_rodata = None, rb_rodata_vaddr = 0, rb_data = None,
      rb_data_vaddr = 0, rb_bss_size = 0, rb_build_id = None, rb_flags = 0, rb_icon = None,
      rb_nacp = None, rb_romfs = None\<rparr>"

definition nro_set_text :: "bytes \<Rightarrow> nro_builder \<Rightarrow> nro_builder" where
  "nro_set_text d b = b\<lparr>rb_text := Some d\<rparr>"
definition nro_set_text_vaddr :: "u32 \<Rightarrow> nro_builder \<Rightarrow> nro_builder" where
  "nro_set_text_vaddr v b = b\<lparr>rb_text_vaddr := v\<rparr>"
definition nro_set_rodata :: "bytes \<Rightarrow> nro_builder \<Rightarrow> nro_builder" where
  "nro_set_rodata d b = b\<lparr>rb_rodata := Some d\<rparr>"
definition nro_set_rodata_vaddr :: "u32 \<Rightarrow> nro_builder \<Rightarrow> nro_builder" where
  "nro_set_rodata_vaddr v b = b\<lparr>rb_rodata_vaddr := v\<rparr>"
definition nro_set_data :: "bytes \<Rightarrow> nro_builder \<Rightarrow> nro_builder" where
  "nro_set_data d b = b\<lparr>rb_data := Some d\<rparr>"
definition nro_set_data_vaddr :: "u32 \<Rightarrow> nro_builder \<Rightarrow> nro_builder" where
  "nro_set_data_vaddr v b = b\<lparr>rb_data_vaddr := v\<rparr>"
definition nro_set_bss_size :: "u32 \<Rightarrow> nro_builder \<Rightarrow> nro_builder" where
  "nro_set_bss_size n b = b\<lparr>rb_bss_size := n\<rparr>"
definition nro_set_build_id :: "bytes \<Rightarrow> nro_builder \<Rightarrow> nro_builder" where
  "nro_set_build_id i b = b\<lparr>rb_build_id := Some i\<rparr>"
definition nro_set_flags :: "u32 \<Rightarrow> nro_builder \<Rightarrow> nro_builder" where
  "nro_set_flags f b = b\<lparr>rb_flags := f\<rparr>"
definition nro_set_icon :: "bytes \<Rightarrow> nro_builder \<Rightarrow> nro_builder" where
  "nro_set_icon d b = b\<lparr>rb_icon := Some d\<rparr>"
definition nro_set_nacp :: "bytes \<Rightarrow> nro_builder \<Rightarrow> nro_builder" where
  "nro_set_nacp d b = b\<lparr>rb_nacp := Some d\<rparr>"
definition nro_set_romfs :: "bytes \<Rightarrow> nro_builder \<Rightarrow> nro_builder" where
  "nro_set_romfs d b = b\<lparr>rb_romfs := Some d\<rparr>"

lemmas nro_setters =
  nro_new_def nro_set_text_def nro_set_text_vaddr_def nro_set_rodata_def nro_set_rodata_vaddr_def
  nro_set_data_def nro_set_data_vaddr_def nro_set_bss_size_def nro_set_build_id_def nro_set_flags_def
  nro_set_icon_def nro_set_nacp_def nro_set_romfs_def

datatype nro_build_error = Nro_MissingText | Nro_MissingRodata | Nro_MissingData

text \<open>\<^verbatim>\<open>map_or(0, |v| v.len())\<close>.\<close>

definition asset_len :: "bytes option \<Rightarrow> nat" where
  "asset_len a = (case a of None \<Rightarrow> 0 | Some v \<Rightarrow> length v)"

definition nro_has_assets :: "nro_builder \<Rightarrow> bool" where
  "nro_has_assets b \<longleftrightarrow> rb_icon b \<noteq> None \<or> rb_nacp b \<noteq> None \<or> rb_romfs b \<noteq> None"

text \<open>One asset descriptor and the offset behind it.\<close>

definition nro_place_asset :: "bytes option \<Rightarrow> nat \<Rightarrow> nro_asset_section \<times> nat" where
  "nro_place_asset a asset_offset =
     (case a of
        Some v \<Rightarrow> (\<lparr>ra_offset = word_of_nat asset_offset, ra_size = word_of_nat (length v)\<rparr>, asset_offset + length v)
      | None \<Rightarrow> (\<lparr>ra_offset = 0, ra_size = 0\<rparr>, asset_offset))"

definition nro_asset_header_of :: "nro_builder \<Rightarrow> nro_asset_header" where
  "nro_asset_header_of b =
     (let asset_offset = 0x38;
          (icon, asset_offset) = nro_place_asset (rb_icon b) asset_offset;
          (nacp, asset_offset) = nro_place_asset (rb_nacp b) asset_offset;
          (romfs, _) = nro_place_asset (rb_romfs b) asset_offset
      in \<lparr>rx_magic = ASSET_MAGIC, rx_version = 0, rx_icon = icon, rx_nacp = nacp, rx_romfs = romfs\<rparr>)"

definition nro_write_asset :: "bytes option \<Rightarrow> bytes \<times> nat \<Rightarrow> (bytes \<times> nat, 'e) result" where
  "nro_write_asset a =
     (\<lambda>(buf, current_pos). case a of
        None \<Rightarrow> Ok (buf, current_pos)
      | Some v \<Rightarrow> rbind (copy_at buf current_pos v) (\<lambda>buf. Ok (buf, current_pos + length v)))"

definition nro_write_assets :: "nro_builder \<Rightarrow> nat \<Rightarrow> bytes \<Rightarrow> (bytes, 'e) result" where
  "nro_write_assets b asset_section_start buf =
     rbind (copy_at buf asset_section_start (enc_nro_asset_header (nro_asset_header_of b))) (\<lambda>buf.
     rbind (nro_write_asset (rb_icon b) (buf, asset_section_start + 0x38)) (\<lambda>st.
     rbind (nro_write_asset (rb_nacp b) st) (\<lambda>st.
     rbind (nro_write_asset (rb_romfs b) st) (\<lambda>(buf, _). Ok buf))))"

definition nro_build :: "nro_builder \<Rightarrow> (bytes, nro_build_error) result" where
  "nro_build b =
     rbind (ok_or Nro_MissingText (rb_text b)) (\<lambda>text.
     rbind (ok_or Nro_MissingRodata (rb_rodata b)) (\<lambda>rodata.
     rbind (ok_or Nro_MissingData (rb_data b)) (\<lambda>data.
       let text_padded = pad_to_alignment text 0x1000;
           rodata_padded = pad_to_alignment rodata 0x1000;
           data_padded = pad_to_alignment data 0x1000;
           text_offset = rb_text_vaddr b; rodata_offset = rb_rodata_vaddr b; data_offset = rb_data_vaddr b
       in rbind (wadd data_offset (word_of_nat (length data_padded))) (\<lambda>nro_size.
       let total_size =
             (if nro_has_assets b
              then unat nro_size + 0x38 + asset_len (rb_icon b) + asset_len (rb_nacp b) + asset_len (rb_romfs b)
              else unat nro_size);
           buf = zeros total_size
       in rbind (copy_at buf (unat text_offset) text_padded) (\<lambda>buf.
          rbind (copy_at buf (unat rodata_offset) rodata_padded) (\<lambda>buf.
          rbind (copy_at buf (unat data_offset) data_padded) (\<lambda>buf.
            let header =
              \<lparr>rh_magic = NRO_MAGIC, rh_version = 0, rh_size = nro_size, rh_flags = rb_flags b,
               rh_segments =
                 [\<lparr>rs_file_off = text_offset, rs_size = word_of_nat (length text_padded)\<rparr>,
                  \<lparr>rs_file_off = rodata_offset, rs_size = word_of_nat (length rodata_padded)\<rparr>,
                  \<lparr>rs_file_off = data_offset, rs_size = word_of_nat (length data_padded)\<rparr>],
               rh_bss_size = rb_bss_size b, rh_reserved = 0,
               rh_build_id = (case rb_build_id b of Some i \<Rightarrow> i | None \<Rightarrow> zeros 0x20),
               rh_reserved2 = zeros 0x20\<rparr>
            in rbind (copy_at buf 0x10 (enc_nro_header header)) (\<lambda>buf.
               if nro_has_assets b then nro_write_assets b (unat nro_size) buf else Ok buf))))))))"

section \<open>The reader\<close>

datatype nro_parse_error =
    Nro_BufferTooSmall (required: nat) (available: nat)
  | Nro_InvalidMagic (found: u32)
  | Nro_SegmentBoundsOverflow (segment_index: nat) (seg_offset: nat) (seg_size: nat)
  | Nro_SegmentOutOfBounds (segment_index: nat) (seg_offset: nat) (seg_size: nat) (available: nat)
  | Nro_AssetSectionBoundsOverflow (section_name: string) (asset_base: nat) (asset_offset: nat) (asset_size: nat)
  | Nro_AssetSectionOutOfBounds (section_name: string) (asset_offset: nat) (asset_size: nat) (available: nat)

record nro =
  nro_bytes :: bytes
  nro_st :: nro_start
  nro_hdr :: nro_header
  nro_assets :: "nro_asset_header option"

definition nro_check_segment :: "bytes \<Rightarrow> nat \<times> nro_segment_header \<Rightarrow> (unit, nro_parse_error) result" where
  "nro_check_segment bs = (\<lambda>(idx, seg).
     let off = unat (rs_file_off seg); sz = unat (rs_size seg) in
     rbind (ok_or (Nro_SegmentBoundsOverflow idx off sz) (checked_add off sz)) (\<lambda>end_off.
       if end_off > length bs then Err (Nro_SegmentOutOfBounds idx off sz (length bs)) else Ok ()))"

definition nro_check_asset :: "bytes \<Rightarrow> nat \<Rightarrow> string \<times> nro_asset_section \<Rightarrow> (unit, nro_parse_error) result" where
  "nro_check_asset bs base_off = (\<lambda>(name, section).
     let off = unat (ra_offset section); sz = unat (ra_size section) in
     if sz = 0 then Ok ()
     else
       rbind (ok_or (Nro_AssetSectionBoundsOverflow name base_off off sz) (checked_add base_off off)) (\<lambda>abs_off.
       rbind (ok_or (Nro_AssetSectionBoundsOverflow name base_off off sz) (checked_add abs_off sz)) (\<lambda>end_off.
         if end_off > length bs then Err (Nro_AssetSectionOutOfBounds name abs_off sz (length bs)) else Ok ())))"

definition nro_find_assets :: "bytes \<Rightarrow> nat \<Rightarrow> nro_asset_header option" where
  "nro_find_assets bs nro_size =
     (if length bs > nro_size + 0x38 then
        (case ref_from_prefix dec_nro_asset_header 0x38 (drop nro_size bs) of
           None \<Rightarrow> None
         | Some (h, _) \<Rightarrow> if rx_magic h = ASSET_MAGIC then Some h else None)
      else None)"

definition nro_try_from_bytes :: "bytes \<Rightarrow> (nro, nro_parse_error) result" where
  "nro_try_from_bytes bs =
     (if length bs < 0x10 + 0x70 then Err (Nro_BufferTooSmall (0x10 + 0x70) (length bs))
      else
        rbind (ok_or (Nro_BufferTooSmall 0x10 (length bs)) (ref_from_prefix dec_nro_start 0x10 bs)) (\<lambda>(start, _).
        rbind (slice bs 0x10 (length bs)) (\<lambda>rest.
        rbind (ok_or (Nro_BufferTooSmall 0x80 (length bs)) (ref_from_prefix dec_nro_header 0x70 rest)) (\<lambda>(header, _).
          if rh_magic header \<noteq> NRO_MAGIC then Err (Nro_InvalidMagic (rh_magic header))
          else
            rbind (rfold (\<lambda>_ p. nro_check_segment bs p) ()
                     (zip [0..<length (rh_segments header)] (rh_segments header))) (\<lambda>_.
            let nro_size = unat (rh_size header);
                asset_header = nro_find_assets bs nro_size
            in rbind (case asset_header of
                        None \<Rightarrow> Ok ()
                      | Some h \<Rightarrow> rfold (\<lambda>_ p. nro_check_asset bs nro_size p) ()
                                   [(''icon'', rx_icon h), (''nacp'', rx_nacp h), (''romfs'', rx_romfs h)]) (\<lambda>_.
               Ok \<lparr>nro_bytes = bs, nro_st = start, nro_hdr = header, nro_assets = asset_header\<rparr>))))))"

definition nro_build_id :: "nro \<Rightarrow> bytes" where
  "nro_build_id n = rh_build_id (nro_hdr n)"

definition nro_segment :: "nro \<Rightarrow> nat \<Rightarrow> (bytes, 'e) result" where
  "nro_segment n idx =
     rbind (at (rh_segments (nro_hdr n)) idx) (\<lambda>seg.
       let off = unat (rs_file_off seg); sz = unat (rs_size seg) in
       rbind (uadd off sz) (\<lambda>end_off. slice (nro_bytes n) off end_off))"

definition nro_text_segment :: "nro \<Rightarrow> (bytes, 'e) result" where
  "nro_text_segment n = nro_segment n 0"
definition nro_rodata_segment :: "nro \<Rightarrow> (bytes, 'e) result" where
  "nro_rodata_segment n = nro_segment n 1"
definition nro_data_segment :: "nro \<Rightarrow> (bytes, 'e) result" where
  "nro_data_segment n = nro_segment n 2"

definition nro_asset :: "nro \<Rightarrow> (nro_asset_header \<Rightarrow> nro_asset_section) \<Rightarrow> (bytes option, 'e) result" where
  "nro_asset n f =
     (case nro_assets n of
        None \<Rightarrow> Ok None
      | Some header \<Rightarrow>
          let section = f header; base_off = unat (rh_size (nro_hdr n)) in
          rbind (uadd base_off (unat (ra_offset section))) (\<lambda>off.
          let sz = unat (ra_size section) in
          if sz = 0 then Ok None
          else rbind (uadd off sz) (\<lambda>end_off.
               rbind (slice (nro_bytes n) off end_off) (\<lambda>bs. Ok (Some bs)))))"

definition nro_asset_icon :: "nro \<Rightarrow> (bytes option, 'e) result" where
  "nro_asset_icon n = nro_asset n rx_icon"
definition nro_asset_nacp :: "nro \<Rightarrow> (bytes option, 'e) result" where
  "nro_asset_nacp n = nro_asset n rx_nacp"
definition nro_asset_romfs :: "nro \<Rightarrow> (bytes option, 'e) result" where
  "nro_asset_romfs n = nro_asset n rx_romfs"

end
