(* ===== verification/Nro_Image.thy ===== *)
theory Nro_Image
  imports Nro
begin

text \<open>
  The NRO builder as one function of the byte position: which of the writes into the buffer is the
  last to reach it.
\<close>

section \<open>The assets\<close>

definition asset_bytes :: "bytes option \<Rightarrow> bytes" where
  "asset_bytes a = (case a of None \<Rightarrow> [] | Some v \<Rightarrow> v)"

lemma length_asset_bytes [simp]: "length (asset_bytes a) = asset_len a"
  by (simp add: asset_bytes_def asset_len_def split: option.split)

definition nro_asset_area :: "nro_builder \<Rightarrow> bytes" where
  "nro_asset_area b =
     (if nro_has_assets b
      then enc_nro_asset_header (nro_asset_header_of b)
        @ asset_bytes (rb_icon b) @ asset_bytes (rb_nacp b) @ asset_bytes (rb_romfs b)
      else [])"

lemma length_nro_asset_area:
  "length (nro_asset_area b) =
     (if nro_has_assets b then 0x38 + asset_len (rb_icon b) + asset_len (rb_nacp b) + asset_len (rb_romfs b) else 0)"
  by (simp add: nro_asset_area_def nro_asset_header.enc_length)

lemma nro_write_asset_eq:
  "length pre = pos \<Longrightarrow> length mid = asset_len a \<Longrightarrow>
     nro_write_asset a (pre @ mid @ post, pos) = Ok ((pre @ asset_bytes a) @ post, pos + asset_len a)"
  by (cases a) (simp_all add: nro_write_asset_def asset_len_def asset_bytes_def copy_at_def)

lemma nro_write_assets_eq:
  assumes "nro_has_assets b" "length buf = s + length (nro_asset_area b)"
  shows "(nro_write_assets b s buf :: (bytes, 'e) result) = Ok (take s buf @ nro_asset_area b)"
proof -
  let ?i = "rb_icon b" and ?n = "rb_nacp b" and ?r = "rb_romfs b"
  let ?h = "enc_nro_asset_header (nro_asset_header_of b)"
  have h: "length ?h = 0x38" by (simp add: nro_asset_header.enc_length)
  have "length (drop s buf) = 0x38 + (asset_len ?i + (asset_len ?n + asset_len ?r))"
    using assms by (simp add: length_nro_asset_area)
  then obtain A R where A: "drop s buf = A @ R" "length A = 0x38" "length R = asset_len ?i + (asset_len ?n + asset_len ?r)"
    by (rule split_at_length)
  from A(3) obtain B R' where B: "R = B @ R'" "length B = asset_len ?i" "length R' = asset_len ?n + asset_len ?r"
    by (rule split_at_length)
  from B(3) obtain C D where C: "R' = C @ D" "length C = asset_len ?n" "length D = asset_len ?r"
    by (rule split_at_length)
  note buf = A(1) [unfolded B(1) C(1)] A(2) B(2) C(2,3)
  have split: "buf = take s buf @ A @ B @ C @ D" by (metis append_take_drop_id buf(1))
  have s: "length (take s buf) = s" using assms(2) by simp
  have c: "(copy_at buf s ?h :: (bytes, 'e) result) = Ok ((take s buf @ ?h) @ B @ C @ D)"
    by (subst split) (use buf(2) h s in \<open>simp add: copy_at_def\<close>)
  have i: "(nro_write_asset ?i ((take s buf @ ?h) @ B @ C @ D, s + 0x38) :: (bytes \<times> nat, 'e) result)
      = Ok ((take s buf @ ?h @ asset_bytes ?i) @ C @ D, s + 0x38 + asset_len ?i)"
    using nro_write_asset_eq [of "take s buf @ ?h" "s + 0x38" B ?i "C @ D", where 'a = 'e] s h buf(3) by simp
  have n: "(nro_write_asset ?n ((take s buf @ ?h @ asset_bytes ?i) @ C @ D, s + 0x38 + asset_len ?i) :: (bytes \<times> nat, 'e) result)
      = Ok ((take s buf @ ?h @ asset_bytes ?i @ asset_bytes ?n) @ D, s + 0x38 + asset_len ?i + asset_len ?n)"
    using nro_write_asset_eq [of "take s buf @ ?h @ asset_bytes ?i" "s + 0x38 + asset_len ?i" C ?n D, where 'a = 'e] s h buf(4) by simp
  have r: "(nro_write_asset ?r ((take s buf @ ?h @ asset_bytes ?i @ asset_bytes ?n) @ D, s + 0x38 + asset_len ?i + asset_len ?n) :: (bytes \<times> nat, 'e) result)
      = Ok (take s buf @ ?h @ asset_bytes ?i @ asset_bytes ?n @ asset_bytes ?r,
          s + 0x38 + asset_len ?i + asset_len ?n + asset_len ?r)"
    using nro_write_asset_eq [of "take s buf @ ?h @ asset_bytes ?i @ asset_bytes ?n"
        "s + 0x38 + asset_len ?i + asset_len ?n" D ?r "[]", where 'a = 'e] s h buf(5) by simp
  show ?thesis
    using assms(1) by (simp only: nro_write_assets_def nro_asset_area_def c i n r rbind.simps prod.case if_True)
qed

section \<open>The whole image\<close>

definition nro_size_of :: "nro_builder \<Rightarrow> bytes \<Rightarrow> nat" where
  "nro_size_of b d = unat (rb_data_vaddr b) + length (paged d) mod 2 ^ 32"

definition nro_total :: "nro_builder \<Rightarrow> bytes \<Rightarrow> nat" where
  "nro_total b d = nro_size_of b d + length (nro_asset_area b)"

definition nro_header_of :: "nro_builder \<Rightarrow> bytes \<Rightarrow> bytes \<Rightarrow> bytes \<Rightarrow> nro_header" where
  "nro_header_of b t r d =
     \<lparr>rh_magic = NRO_MAGIC, rh_version = 0, rh_size = word_of_nat (nro_size_of b d), rh_flags = rb_flags b,
      rh_segments =
        [\<lparr>rs_file_off = rb_text_vaddr b, rs_size = word_of_nat (length (paged t))\<rparr>,
         \<lparr>rs_file_off = rb_rodata_vaddr b, rs_size = word_of_nat (length (paged r))\<rparr>,
         \<lparr>rs_file_off = rb_data_vaddr b, rs_size = word_of_nat (length (paged d))\<rparr>],
      rh_bss_size = rb_bss_size b, rh_reserved = 0,
      rh_build_id = (case rb_build_id b of Some i \<Rightarrow> i | None \<Rightarrow> zeros 0x20), rh_reserved2 = zeros 0x20\<rparr>"

definition nro_id_ok :: "nro_builder \<Rightarrow> bool" where
  "nro_id_ok b \<longleftrightarrow> (case rb_build_id b of Some i \<Rightarrow> length i = 0x20 | None \<Rightarrow> True)"

lemma nro_header_of_wf: "nro_id_ok b \<Longrightarrow> nro_header_wf (nro_header_of b t r d)"
  by (simp add: nro_header_wf_def nro_header_of_def nro_id_ok_def split: option.splits)

text \<open>Every write fits: the 32-bit end of data does not overflow, and each segment and the header end
  inside the buffer, whose length depends on data and the assets only.\<close>

definition nro_writes_fit :: "nro_builder \<Rightarrow> bytes \<Rightarrow> bytes \<Rightarrow> bytes \<Rightarrow> bool" where
  "nro_writes_fit b t r d \<longleftrightarrow>
     nro_size_of b d < 2 ^ 32
     \<and> unat (rb_text_vaddr b) + length (paged t) \<le> nro_total b d
     \<and> unat (rb_rodata_vaddr b) + length (paged r) \<le> nro_total b d
     \<and> unat (rb_data_vaddr b) + length (paged d) \<le> nro_total b d
     \<and> 0x80 \<le> nro_total b d"

text \<open>The byte at a position: the last of the writes that reaches it.\<close>

definition nro_byte :: "nro_builder \<Rightarrow> bytes \<Rightarrow> bytes \<Rightarrow> bytes \<Rightarrow> nat \<Rightarrow> u8" where
  "nro_byte b t r d i =
     (let inside = (\<lambda>at n. at \<le> i \<and> i < at + n);
          tv = unat (rb_text_vaddr b); rv = unat (rb_rodata_vaddr b); dv = unat (rb_data_vaddr b)
      in if inside (nro_size_of b d) (length (nro_asset_area b)) then nro_asset_area b ! (i - nro_size_of b d)
         else if inside 0x10 0x70 then enc_nro_header (nro_header_of b t r d) ! (i - 0x10)
         else if inside dv (length (paged d)) then paged d ! (i - dv)
         else if inside rv (length (paged r)) then paged r ! (i - rv)
         else if inside tv (length (paged t)) then paged t ! (i - tv)
         else 0)"

definition nro_image :: "nro_builder \<Rightarrow> bytes \<Rightarrow> bytes \<Rightarrow> bytes \<Rightarrow> bytes" where
  "nro_image b t r d = map (nro_byte b t r d) [0..<nro_total b d]"

lemma length_nro_image [simp]: "length (nro_image b t r d) = nro_total b d"
  by (simp add: nro_image_def)

lemma nro_image_overlay:
  assumes "nro_id_ok b" "nro_writes_fit b t r d"
  shows "take (nro_size_of b d)
      (overlay (overlay (overlay (overlay (zeros (nro_total b d))
         (unat (rb_text_vaddr b)) (paged t)) (unat (rb_rodata_vaddr b)) (paged r))
         (unat (rb_data_vaddr b)) (paged d)) 0x10 (enc_nro_header (nro_header_of b t r d)))
      @ nro_asset_area b = nro_image b t r d"
    (is "take ?s ?buf @ _ = _")
proof (rule nth_equalityI)
  have h: "length (enc_nro_header (nro_header_of b t r d)) = 0x70"
    by (rule nro_header.enc_length [OF nro_header_of_wf [OF assms(1)]])
  have len: "length ?buf = nro_total b d"
    using assms(2) h by (simp add: length_overlay nro_writes_fit_def)
  then show "length (take ?s ?buf @ nro_asset_area b) = length (nro_image b t r d)"
    by (simp add: nro_total_def)
  fix i assume "i < length (take ?s ?buf @ nro_asset_area b)"
  then have i: "i < nro_total b d" using len by (simp add: nro_total_def)
  show "(take ?s ?buf @ nro_asset_area b) ! i = nro_image b t r d ! i"
  proof (cases "i < ?s")
    case True
    then show ?thesis
      using i len h assms(2)
      by (simp add: nth_append nth_overlay length_overlay nro_writes_fit_def nro_image_def nro_byte_def Let_def zeros_def)
  next
    case False
    then show ?thesis
      using i len by (simp add: nth_append nro_image_def nro_byte_def Let_def nro_total_def)
  qed
qed

lemma four_copies:
  "(rbind (copy_at buf a xs) (\<lambda>buf. rbind (copy_at buf b ys) (\<lambda>buf. rbind (copy_at buf c zs) (\<lambda>buf.
      rbind (copy_at buf d ws) k))) :: ('r, 'e) result)
   = (if a + length xs \<le> length buf \<and> b + length ys \<le> length buf \<and> c + length zs \<le> length buf
        \<and> d + length ws \<le> length buf
      then k (overlay (overlay (overlay (overlay buf a xs) b ys) c zs) d ws) else Panic)"
  by (simp add: copy_at_overlay length_overlay)

lemma nro_finish:
  assumes "length buf = nro_total b d"
  shows "((if nro_has_assets b then nro_write_assets b (nro_size_of b d) buf else Ok buf) :: (bytes, 'e) result)
     = Ok (take (nro_size_of b d) buf @ nro_asset_area b)"
proof (cases "nro_has_assets b")
  case True
  then show ?thesis
    using nro_write_assets_eq [OF True, of buf "nro_size_of b d"] assms by (simp add: nro_total_def)
next
  case False
  then have "nro_asset_area b = []" by (simp add: nro_asset_area_def)
  then show ?thesis using False assms by (simp add: nro_total_def)
qed

lemma nro_build_some:
  assumes "nro_id_ok b" and s: "rb_text b = Some t" "rb_rodata b = Some r" "rb_data b = Some d"
  shows "nro_build b = (if nro_writes_fit b t r d then Ok (nro_image b t r d) else Panic)"
proof (cases "nro_size_of b d < 2 ^ 32")
  case True
  let ?n = "rb_data_vaddr b + word_of_nat (length (paged d))"
  have n: "?n = word_of_nat (nro_size_of b d)" by (simp add: nro_size_of_def word_of_nat_mod_u32 [simplified])
  have "(wadd (rb_data_vaddr b) (word_of_nat (length (paged d))) :: (u32, nro_build_error) result) = Ok ?n"
    using True by (simp add: wadd_def nro_size_of_def unat_of_nat)
  moreover have "unat ?n = nro_size_of b d" unfolding n using True by (rule unat_u32_of_nat)
  moreover have "(if nro_has_assets b
      then nro_size_of b d + 0x38 + asset_len (rb_icon b) + asset_len (rb_nacp b) + asset_len (rb_romfs b)
      else nro_size_of b d) = nro_total b d"
    by (simp add: nro_total_def length_nro_asset_area)
  moreover have "\<lparr>rh_magic = NRO_MAGIC, rh_version = 0, rh_size = ?n, rh_flags = rb_flags b,
      rh_segments =
        [\<lparr>rs_file_off = rb_text_vaddr b, rs_size = word_of_nat (length (paged t))\<rparr>,
         \<lparr>rs_file_off = rb_rodata_vaddr b, rs_size = word_of_nat (length (paged r))\<rparr>,
         \<lparr>rs_file_off = rb_data_vaddr b, rs_size = word_of_nat (length (paged d))\<rparr>],
      rh_bss_size = rb_bss_size b, rh_reserved = 0,
      rh_build_id = (case rb_build_id b of Some i \<Rightarrow> i | None \<Rightarrow> zeros 0x20), rh_reserved2 = zeros 0x20\<rparr>
      = nro_header_of b t r d" by (simp add: nro_header_of_def n)
  ultimately have "nro_build b =
      rbind (copy_at (zeros (nro_total b d)) (unat (rb_text_vaddr b)) (paged t)) (\<lambda>buf.
      rbind (copy_at buf (unat (rb_rodata_vaddr b)) (paged r)) (\<lambda>buf.
      rbind (copy_at buf (unat (rb_data_vaddr b)) (paged d)) (\<lambda>buf.
      rbind (copy_at buf 0x10 (enc_nro_header (nro_header_of b t r d))) (\<lambda>buf.
        if nro_has_assets b then nro_write_assets b (nro_size_of b d) buf else Ok buf))))"
    unfolding nro_build_def s Let_def ok_or_simps rbind.simps
    by (cases "nro_has_assets b") simp_all
  also have "\<dots> = (if nro_writes_fit b t r d then Ok (nro_image b t r d) else Panic)"
    using True nro_header.enc_length [OF nro_header_of_wf [OF assms(1)]] nro_image_overlay [OF assms(1)]
    by (simp add: four_copies nro_writes_fit_def nro_finish length_overlay)
  finally show ?thesis .
next
  case False
  then have "(wadd (rb_data_vaddr b) (word_of_nat (length (paged d))) :: (u32, nro_build_error) result) = Panic"
    by (simp add: wadd_def nro_size_of_def unat_of_nat)
  then show ?thesis using False by (simp add: nro_build_def s Let_def nro_writes_fit_def)
qed

lemma nro_build_eq:
  assumes "nro_id_ok b"
  shows "nro_build b =
     (case (rb_text b, rb_rodata b, rb_data b) of
        (None, _, _) \<Rightarrow> Err Nro_MissingText
      | (_, None, _) \<Rightarrow> Err Nro_MissingRodata
      | (_, _, None) \<Rightarrow> Err Nro_MissingData
      | (Some t, Some r, Some d) \<Rightarrow>
          (if nro_writes_fit b t r d then Ok (nro_image b t r d) else Panic))"
proof (cases "rb_text b = None \<or> rb_rodata b = None \<or> rb_data b = None")
  case True
  then show ?thesis by (auto simp: nro_build_def split: option.split)
next
  case False
  then obtain t r d where "rb_text b = Some t" "rb_rodata b = Some r" "rb_data b = Some d" by auto
  then show ?thesis using nro_build_some [OF assms] by simp
qed

end
