(* ===== verification/Nro_Read.thy ===== *)
theory Nro_Read
  imports Nro
begin

text \<open>The NRO reader in closed form: what it accepts, and what its accessors return.\<close>

section \<open>Validation\<close>

definition nro_asset_list :: "nro_asset_header \<Rightarrow> (string \<times> nro_asset_section) list" where
  "nro_asset_list h = [(''icon'', rx_icon h), (''nacp'', rx_nacp h), (''romfs'', rx_romfs h)]"

text \<open>What is wrong with an asset that starts \<open>base_off\<close> before its offset, in a buffer of \<open>n\<close> bytes.\<close>

definition nro_asset_fault :: "nat \<Rightarrow> nat \<Rightarrow> string \<times> nro_asset_section \<Rightarrow> nro_parse_error option" where
  "nro_asset_fault n base_off = (\<lambda>(name, s).
     let off = unat (ra_offset s); sz = unat (ra_size s) in
     if sz = 0 then None
     else if usize_max < base_off + off + sz then Some (Nro_AssetSectionBoundsOverflow name base_off off sz)
     else if n < base_off + off + sz then Some (Nro_AssetSectionOutOfBounds name (base_off + off) sz n)
     else None)"

lemma nro_check_segment_eq:
  "nro_check_segment bs (i, s) =
     (if length bs < unat (rs_file_off s) + unat (rs_size s)
      then Err (Nro_SegmentOutOfBounds i (unat (rs_file_off s)) (unat (rs_size s)) (length bs)) else Ok ())"
  by (simp add: nro_check_segment_def Let_def run_simps unat_u32_sum_usize)

lemma nro_check_asset_eq:
  "nro_check_asset bs base_off p =
     (if nro_asset_fault (length bs) base_off p \<noteq> None then Err (the (nro_asset_fault (length bs) base_off p)) else Ok ())"
proof -
  obtain name s where p: "p = (name, s)" by (cases p)
  let ?off = "unat (ra_offset s)" and ?sz = "unat (ra_size s)"
  consider (zero) "?sz = 0" | (far) "?sz \<noteq> 0" "usize_max < base_off + ?off"
    | (over) "?sz \<noteq> 0" "base_off + ?off \<le> usize_max" "usize_max < base_off + ?off + ?sz"
    | (fine) "?sz \<noteq> 0" "base_off + ?off + ?sz \<le> usize_max"
    by linarith
  then show ?thesis
    by cases (simp_all add: p nro_check_asset_def nro_asset_fault_def Let_def run_simps)
qed

definition nro_asset_problem :: "bytes \<Rightarrow> nat \<Rightarrow> nro_parse_error option" where
  "nro_asset_problem bs nro_size =
     (case nro_find_assets bs nro_size of
        None \<Rightarrow> None
      | Some h \<Rightarrow>
          (case find (\<lambda>p. nro_asset_fault (length bs) nro_size p \<noteq> None) (nro_asset_list h) of
             None \<Rightarrow> None
           | Some p \<Rightarrow> nro_asset_fault (length bs) nro_size p))"

lemma nro_try_eq:
  "nro_try_from_bytes bs =
     (if length bs < 0x80 then Err (Nro_BufferTooSmall 0x80 (length bs))
      else let h = dec_nro_header (drop 0x10 bs) in
        if rh_magic h \<noteq> NRO_MAGIC then Err (Nro_InvalidMagic (rh_magic h))
        else (case find (\<lambda>(i, s). length bs < unat (rs_file_off s) + unat (rs_size s)) (enumerate 0 (rh_segments h)) of
                Some (i, s) \<Rightarrow>
                  Err (Nro_SegmentOutOfBounds i (unat (rs_file_off s)) (unat (rs_size s)) (length bs))
              | None \<Rightarrow>
                  (case nro_asset_problem bs (unat (rh_size h)) of
                     Some e \<Rightarrow> Err e
                   | None \<Rightarrow> Ok \<lparr>nro_bytes = bs, nro_st = dec_nro_start bs, nro_hdr = h,
                                nro_assets = nro_find_assets bs (unat (rh_size h))\<rparr>)))"
proof (cases "length bs < 0x80")
  case False
  let ?h = "dec_nro_header (drop 0x10 bs)"
  have segs: "rfold (\<lambda>_ p. nro_check_segment bs p) () (zip [0..<length xs] xs)
    = (case find (\<lambda>(i, s). length bs < unat (rs_file_off s) + unat (rs_size s)) (enumerate 0 xs) of
         None \<Rightarrow> Ok ()
       | Some (i, s) \<Rightarrow> Err (Nro_SegmentOutOfBounds i (unat (rs_file_off s)) (unat (rs_size s)) (length bs)))" for xs
    unfolding enumerate_eq_zip
    by (subst rfold_find [where bad = "\<lambda>(i, s). length bs < unat (rs_file_off s) + unat (rs_size s)"
        and e = "\<lambda>(i, s). Nro_SegmentOutOfBounds i (unat (rs_file_off s)) (unat (rs_size s)) (length bs)"])
      (auto simp: nro_check_segment_eq split: option.split)
  have assets: "(case nro_find_assets bs n of None \<Rightarrow> Ok ()
      | Some a \<Rightarrow> rfold (\<lambda>_ p. nro_check_asset bs n p) () (nro_asset_list a))
    = (case nro_asset_problem bs n of None \<Rightarrow> Ok () | Some e \<Rightarrow> Err e)" for n
  proof (cases "nro_find_assets bs n")
    case (Some a)
    show ?thesis
    proof (cases "find (\<lambda>p. nro_asset_fault (length bs) n p \<noteq> None) (nro_asset_list a)")
      case p: (Some p)
      then have "nro_asset_fault (length bs) n p \<noteq> None" by (auto simp: find_Some_iff)
      then show ?thesis using Some p by (auto simp: nro_asset_problem_def rfold_find [OF nro_check_asset_eq])
    qed (simp add: Some nro_asset_problem_def rfold_find [OF nro_check_asset_eq] del: not_None_eq)
  qed (simp add: nro_asset_problem_def)
  show ?thesis
    unfolding nro_try_from_bytes_def nro_asset_list_def [symmetric] Let_def
    using False by (simp add: run_simps segs assets split: option.split)
qed (simp add: nro_try_from_bytes_def)

lemma nro_try_Ok:
  "nro_try_from_bytes bs = Ok n \<longleftrightarrow>
     0x80 \<le> length bs \<and> rh_magic (dec_nro_header (drop 0x10 bs)) = NRO_MAGIC
     \<and> (\<forall>s\<in>set (rh_segments (dec_nro_header (drop 0x10 bs))). unat (rs_file_off s) + unat (rs_size s) \<le> length bs)
     \<and> (\<forall>a p. nro_find_assets bs (unat (rh_size (dec_nro_header (drop 0x10 bs)))) = Some a \<and> p \<in> set (nro_asset_list a)
          \<longrightarrow> nro_asset_fault (length bs) (unat (rh_size (dec_nro_header (drop 0x10 bs)))) p = None)
     \<and> n = \<lparr>nro_bytes = bs, nro_st = dec_nro_start bs, nro_hdr = dec_nro_header (drop 0x10 bs),
            nro_assets = nro_find_assets bs (unat (rh_size (dec_nro_header (drop 0x10 bs))))\<rparr>"
proof -
  let ?h = "dec_nro_header (drop 0x10 bs)"
  have segs: "find (\<lambda>(i, s). length bs < unat (rs_file_off s) + unat (rs_size s)) (enumerate k xs) = None
      \<longleftrightarrow> (\<forall>s\<in>set xs. unat (rs_file_off s) + unat (rs_size s) \<le> length bs)" for k xs
    by (induction xs arbitrary: k) (auto simp: not_less)
  have assets: "nro_asset_problem bs k = None \<longleftrightarrow>
      (\<forall>a p. nro_find_assets bs k = Some a \<and> p \<in> set (nro_asset_list a) \<longrightarrow> nro_asset_fault (length bs) k p = None)" for k
  proof (cases "nro_find_assets bs k")
    case (Some a)
    have "nro_asset_problem bs k = None \<longleftrightarrow>
        find (\<lambda>p. nro_asset_fault (length bs) k p \<noteq> None) (nro_asset_list a) = None"
    proof (cases "find (\<lambda>p. nro_asset_fault (length bs) k p \<noteq> None) (nro_asset_list a)")
      case p: (Some p)
      then have "nro_asset_fault (length bs) k p \<noteq> None" by (auto simp: find_Some_iff)
      then show ?thesis using p by (auto simp: nro_asset_problem_def Some)
    qed (simp add: nro_asset_problem_def Some del: not_None_eq)
    then show ?thesis by (simp only: Some find_None_iff) auto
  qed (simp add: nro_asset_problem_def)
  show ?thesis
    using segs [of 0 "rh_segments ?h"] assets [of "unat (rh_size ?h)"]
    by (auto simp: nro_try_eq Let_def not_less split: option.splits if_splits)
qed

section \<open>Accessors\<close>

lemma nro_segments_length:
  "nro_try_from_bytes bs = Ok n \<Longrightarrow> length (rh_segments (nro_hdr n)) = 3"
  using nro_header.dec_wf [of "drop 0x10 bs"] by (auto simp: nro_try_Ok nro_header_wf_def)

lemma nro_segment_ok:
  assumes "nro_try_from_bytes bs = Ok n" "i < 3"
  defines "s \<equiv> rh_segments (nro_hdr n) ! i"
  shows "(nro_segment n i :: (bytes, 'e) result) = Ok (sub_bytes bs (unat (rs_file_off s)) (unat (rs_size s)))"
proof -
  have "s \<in> set (rh_segments (nro_hdr n))"
    using assms(2) nro_segments_length [OF assms(1)] by (simp add: s_def)
  then have "unat (rs_file_off s) + unat (rs_size s) \<le> length bs" "nro_bytes n = bs"
    using assms(1) by (auto simp: nro_try_Ok)
  then show ?thesis
    using assms(2) nro_segments_length [OF assms(1)]
    by (simp add: nro_segment_def Let_def run_simps unat_u32_sum_usize sub_bytes_def flip: s_def)
qed

text \<open>An asset of an accepted image: absent, empty or a slice.  The address of an empty asset is added
  up all the same, which can overflow.\<close>

definition nro_asset_contents :: "bytes \<Rightarrow> nat \<Rightarrow> nro_asset_section \<Rightarrow> (bytes option, 'e) result" where
  "nro_asset_contents bs base_off s =
     (let off = base_off + unat (ra_offset s); sz = unat (ra_size s) in
      if sz = 0 then (if off \<le> usize_max then Ok None else Panic)
      else Ok (Some (sub_bytes bs off sz)))"

lemma nro_asset_ok:
  assumes "nro_try_from_bytes bs = Ok n"
    and "\<And>a. (name, f a) \<in> set (nro_asset_list a)"
  shows "(nro_asset n f :: (bytes option, 'e) result) =
     (case nro_assets n of None \<Rightarrow> Ok None | Some a \<Rightarrow> nro_asset_contents bs (unat (rh_size (nro_hdr n))) (f a))"
proof (cases "nro_assets n")
  case (Some a)
  have "nro_asset_fault (length bs) (unat (rh_size (nro_hdr n))) (name, f a) = None" "nro_bytes n = bs"
    using assms(1) assms(2) [of a] Some by (auto simp: nro_try_Ok)
  then show ?thesis
    by (auto simp: nro_asset_def Some nro_asset_contents_def nro_asset_fault_def Let_def run_simps sub_bytes_def
        uadd_def split: if_splits)
qed (simp add: nro_asset_def)

end

