(* ===== verification/Nro_Roundtrip.thy ===== *)
theory Nro_Roundtrip
  imports Nro_Image Nro_Read
begin

text \<open>Reading back a built NRO whose segments follow each other, the layout a linker produces.\<close>

section \<open>The layout of a linked image\<close>

text \<open>Text starts the file and the others follow without overlapping; the end fits 32 bits and the
  whole image fits memory.\<close>

definition nro_linked :: "nro_builder \<Rightarrow> bytes \<Rightarrow> bytes \<Rightarrow> bytes \<Rightarrow> bool" where
  "nro_linked b t r d \<longleftrightarrow>
     t \<noteq> [] \<and> rb_text_vaddr b = 0 \<and> length (paged t) \<le> unat (rb_rodata_vaddr b)
     \<and> unat (rb_rodata_vaddr b) + length (paged r) \<le> unat (rb_data_vaddr b)
     \<and> unat (rb_data_vaddr b) + length (paged d) < 2 ^ 32 \<and> nro_total b d \<le> usize_max"

lemma paged_page: "xs \<noteq> [] \<Longrightarrow> 0x1000 \<le> length (paged xs)"
proof -
  assume "xs \<noteq> []"
  then have "0 < length (paged xs)"
    using align_up_ge [of "0x1000" "length xs"] by (simp add: length_paged) (cases xs; simp)
  moreover have "0x1000 dvd length (paged xs)" by (simp add: length_paged)
  ultimately show ?thesis by (rule dvd_imp_le [rotated])
qed

lemma nro_linked_sizes:
  assumes "nro_linked b t r d"
  shows "nro_size_of b d = unat (rb_data_vaddr b) + length (paged d)"
    and "0x1000 \<le> nro_size_of b d" "nro_size_of b d < 2 ^ 32" "nro_size_of b d \<le> nro_total b d"
    and "nro_writes_fit b t r d"
  using assms paged_page [of t]
  by (simp_all add: nro_linked_def nro_size_of_def nro_writes_fit_def nro_total_def)

lemma nro_header_size:
  assumes "nro_linked b t r d"
  shows "unat (rh_size (nro_header_of b t r d)) = nro_size_of b d"
proof -
  have "rh_size (nro_header_of b t r d) = word_of_nat (nro_size_of b d)" by (simp add: nro_header_of_def)
  then show ?thesis by (simp only: unat_u32_of_nat [OF nro_linked_sizes(3) [OF assms]])
qed

lemma drop_sub_bytes: "sub_bytes bs off n = xs \<Longrightarrow> drop off bs = xs @ drop (off + n) bs"
  by (metis append_take_drop_id drop_drop add.commute sub_bytes_def)

text \<open>Where each part of the builder's input ends up.\<close>

lemma nro_image_parts:
  assumes "nro_id_ok b" and l: "nro_linked b t r d"
  defines "img \<equiv> nro_image b t r d"
  shows "sub_bytes img 0x10 0x70 = enc_nro_header (nro_header_of b t r d)"
    and "take 0x10 img = take 0x10 (paged t)"
    and "sub_bytes img 0 (length (paged t))
           = take 0x10 (paged t) @ enc_nro_header (nro_header_of b t r d) @ drop 0x80 (paged t)"
    and "sub_bytes img (unat (rb_rodata_vaddr b)) (length (paged r)) = paged r"
    and "sub_bytes img (unat (rb_data_vaddr b)) (length (paged d)) = paged d"
    and "drop (nro_size_of b d) img = nro_asset_area b"
proof -
  let ?h = "enc_nro_header (nro_header_of b t r d)"
  note sz = nro_linked_sizes [OF l] and t = paged_page [of t]
  note f = l [unfolded nro_linked_def]
  have h: "length ?h = 0x70" by (rule nro_header.enc_length [OF nro_header_of_wf [OF assms(1)]])
  have len: "length img = nro_total b d" by (simp add: img_def)
  have nth: "i < nro_total b d \<Longrightarrow> img ! i = nro_byte b t r d i" for i by (simp add: img_def nro_image_def)
  show header: "sub_bytes img 0x10 0x70 = ?h"
    using sub_bytes_eqI [of "0x10" ?h img] h len sz nth by (simp add: nro_byte_def Let_def)
  have low: "img ! i = paged t ! i" if "i < length (paged t)" "\<not> (0x10 \<le> i \<and> i < 0x80)" for i
    using that f sz nth [of i] by (auto simp: nro_byte_def Let_def)
  show "take 0x10 img = take 0x10 (paged t)"
    by (rule nth_equalityI) (use len sz t f low in auto)
  have "sub_bytes img 0 (length (paged t)) = take 0x10 img @ sub_bytes img 0x10 0x70 @ sub_bytes img 0x80 (length (paged t) - 0x80)"
    using t f by (simp add: sub_bytes_join field_join)
  moreover have "sub_bytes img 0x80 (length (paged t) - 0x80) = drop 0x80 (paged t)"
    using sub_bytes_eqI [of "0x80" "drop 0x80 (paged t)" img] t f len sz low by simp
  ultimately show "sub_bytes img 0 (length (paged t)) = take 0x10 (paged t) @ ?h @ drop 0x80 (paged t)"
    using header \<open>take 0x10 img = _\<close> by simp
  show "sub_bytes img (unat (rb_rodata_vaddr b)) (length (paged r)) = paged r"
    by (rule sub_bytes_eqI) (use f sz t len nth in \<open>auto simp: nro_byte_def Let_def\<close>)
  show "sub_bytes img (unat (rb_data_vaddr b)) (length (paged d)) = paged d"
    by (rule sub_bytes_eqI) (use f sz t len nth in \<open>auto simp: nro_byte_def Let_def\<close>)
  show "drop (nro_size_of b d) img = nro_asset_area b"
    by (rule nth_equalityI) (use len nth in \<open>auto simp: nro_total_def nro_byte_def Let_def\<close>)
qed

section \<open>The assets\<close>

text \<open>An empty asset reads as an absent one.\<close>

definition asset_seen :: "bytes option \<Rightarrow> bytes option" where
  "asset_seen a = (case a of Some v \<Rightarrow> if v = [] then None else Some v | None \<Rightarrow> None)"

lemma nro_asset_placed:
  assumes "drop s img = pre @ asset_bytes a @ post" "length pre = off" "s \<le> length img" "length img \<le> usize_max"
  shows "nro_asset_fault (length img) s (name, fst (nro_place_asset a off)) = None"
    and "(nro_asset_contents img s (fst (nro_place_asset a off)) :: (bytes option, 'e) result) = Ok (asset_seen a)"
proof -
  have "length (drop s img) = off + asset_len a + length post"
    unfolding assms(1) using assms(2) by simp
  then have len: "s + off + asset_len a \<le> length img" using assms(3) by simp
  have val: "unat (word_of_nat n :: u64) = n" if "n \<le> length img" for n
    using that assms(4) by (intro unat_u64_of_nat) (simp add: usize_max_def)
  have "sub_bytes img (s + off) (asset_len a) = asset_bytes a"
    using assms(1,2) by (simp add: sub_bytes_def flip: drop_drop [of off s, unfolded add.commute [of off s]])
  then show "nro_asset_fault (length img) s (name, fst (nro_place_asset a off)) = None"
    and "(nro_asset_contents img s (fst (nro_place_asset a off)) :: (bytes option, 'e) result) = Ok (asset_seen a)"
    using len val assms(3,4)
    by (auto simp: nro_asset_fault_def nro_asset_contents_def nro_place_asset_def asset_seen_def asset_len_def
        asset_bytes_def Let_def split: option.splits)
qed

text \<open>The descriptors the builder writes point into the area behind the executable.\<close>

lemma nro_area_split:
  assumes "nro_has_assets b"
  defines "a \<equiv> nro_asset_header_of b"
  obtains h where "nro_asset_area b = h @ asset_bytes (rb_icon b) @ asset_bytes (rb_nacp b) @ asset_bytes (rb_romfs b)"
    and "h = enc_nro_asset_header a" "length h = 0x38" "rx_magic a = ASSET_MAGIC"
    and "rx_icon a = fst (nro_place_asset (rb_icon b) 0x38)"
    and "rx_nacp a = fst (nro_place_asset (rb_nacp b) (0x38 + asset_len (rb_icon b)))"
    and "rx_romfs a = fst (nro_place_asset (rb_romfs b) (0x38 + asset_len (rb_icon b) + asset_len (rb_nacp b)))"
proof
  have snd: "snd (nro_place_asset x off) = off + asset_len x" for x off
    by (simp add: nro_place_asset_def asset_len_def split: option.split)
  show "nro_asset_area b = enc_nro_asset_header a @ asset_bytes (rb_icon b) @ asset_bytes (rb_nacp b) @ asset_bytes (rb_romfs b)"
    using assms by (simp add: nro_asset_area_def)
  show "length (enc_nro_asset_header a) = 0x38" by (simp add: nro_asset_header.enc_length)
  show "rx_magic a = ASSET_MAGIC" "rx_icon a = fst (nro_place_asset (rb_icon b) 0x38)"
    "rx_nacp a = fst (nro_place_asset (rb_nacp b) (0x38 + asset_len (rb_icon b)))"
    "rx_romfs a = fst (nro_place_asset (rb_romfs b) (0x38 + asset_len (rb_icon b) + asset_len (rb_nacp b)))"
    by (simp_all add: a_def nro_asset_header_of_def Let_def case_prod_beta snd)
qed simp

lemma nro_assets_read:
  assumes area: "drop s img = nro_asset_area b" and "s \<le> length img" "length img \<le> usize_max"
  defines "a \<equiv> nro_asset_header_of b"
  shows "nro_find_assets img s
      = (if asset_len (rb_icon b) + asset_len (rb_nacp b) + asset_len (rb_romfs b) = 0 then None else Some a)"
    and "nro_has_assets b \<Longrightarrow> p \<in> set (nro_asset_list a) \<Longrightarrow> nro_asset_fault (length img) s p = None"
    and "nro_has_assets b \<Longrightarrow>
      (nro_asset_contents img s (rx_icon a) :: (bytes option, 'e) result) = Ok (asset_seen (rb_icon b))
      \<and> (nro_asset_contents img s (rx_nacp a) :: (bytes option, 'e) result) = Ok (asset_seen (rb_nacp b))
      \<and> (nro_asset_contents img s (rx_romfs a) :: (bytes option, 'e) result) = Ok (asset_seen (rb_romfs b))"
proof -
  have len: "length img = s + length (nro_asset_area b)"
    using arg_cong [OF area, of length] assms(2) by simp
  show "nro_find_assets img s
      = (if asset_len (rb_icon b) + asset_len (rb_nacp b) + asset_len (rb_romfs b) = 0 then None else Some a)"
  proof (cases "nro_has_assets b")
    case True
    then obtain h where h: "nro_asset_area b = h @ asset_bytes (rb_icon b) @ asset_bytes (rb_nacp b) @ asset_bytes (rb_romfs b)"
      "h = enc_nro_asset_header a" "length h = 0x38" "rx_magic a = ASSET_MAGIC"
      unfolding a_def by (rule nro_area_split)
    then show ?thesis
      using len by (simp add: nro_find_assets_def run_simps area nro_asset_header.dec_enc)
  next
    case False
    then show ?thesis
      using len by (simp add: nro_find_assets_def nro_asset_area_def nro_has_assets_def asset_len_def)
  qed
  assume "nro_has_assets b"
  then obtain h where h: "nro_asset_area b = h @ asset_bytes (rb_icon b) @ asset_bytes (rb_nacp b) @ asset_bytes (rb_romfs b)"
    and l: "length h = 0x38"
    and x: "rx_icon a = fst (nro_place_asset (rb_icon b) 0x38)"
      "rx_nacp a = fst (nro_place_asset (rb_nacp b) (0x38 + asset_len (rb_icon b)))"
      "rx_romfs a = fst (nro_place_asset (rb_romfs b) (0x38 + asset_len (rb_icon b) + asset_len (rb_nacp b)))"
    unfolding a_def by (rule nro_area_split)
  note i = nro_asset_placed [OF _ _ assms(2,3), of h "rb_icon b" "asset_bytes (rb_nacp b) @ asset_bytes (rb_romfs b)" "0x38"]
    and n = nro_asset_placed [OF _ _ assms(2,3), of "h @ asset_bytes (rb_icon b)" "rb_nacp b" "asset_bytes (rb_romfs b)" "0x38 + asset_len (rb_icon b)"]
    and r = nro_asset_placed [OF _ _ assms(2,3), of "h @ asset_bytes (rb_icon b) @ asset_bytes (rb_nacp b)" "rb_romfs b" "[]"
        "0x38 + asset_len (rb_icon b) + asset_len (rb_nacp b)"]
  show "nro_asset_fault (length img) s p = None" if "p \<in> set (nro_asset_list a)"
    using that i(1) n(1) r(1) by (auto simp: nro_asset_list_def x area h l)
  show "(nro_asset_contents img s (rx_icon a) :: (bytes option, 'e) result) = Ok (asset_seen (rb_icon b))
      \<and> (nro_asset_contents img s (rx_nacp a) :: (bytes option, 'e) result) = Ok (asset_seen (rb_nacp b))
      \<and> (nro_asset_contents img s (rx_romfs a) :: (bytes option, 'e) result) = Ok (asset_seen (rb_romfs b))"
    using i(2) n(2) r(2) by (simp add: x area h l)
qed

section \<open>The parsed image\<close>

lemma nro_built:
  assumes id: "nro_id_ok b" and l: "nro_linked b t r d"
  defines "img \<equiv> nro_image b t r d" and "s \<equiv> nro_size_of b d"
  shows "nro_try_from_bytes img = Ok \<lparr>nro_bytes = img, nro_st = dec_nro_start (paged t),
      nro_hdr = nro_header_of b t r d, nro_assets = nro_find_assets img s\<rparr>"
proof -
  note sz = nro_linked_sizes [OF l] and parts = nro_image_parts [OF id l, folded img_def] and t = paged_page [of t]
  note f = l [unfolded nro_linked_def]
  have len: "length img = nro_total b d" by (simp add: img_def)
  have hdr: "dec_nro_header (drop 0x10 img) = nro_header_of b t r d"
    using drop_sub_bytes [OF parts(1)] nro_header.dec_enc [OF nro_header_of_wf [OF id]] by simp
  have "dec_nro_start img = dec_nro_start (take 0x10 img)"
    using nro_start.dec_take [of "0x10" img] len sz by simp
  then have st: "dec_nro_start img = dec_nro_start (paged t)"
    using parts(2) nro_start.dec_take [of "0x10" "paged t"] t f by simp
  have size: "unat (rh_size (nro_header_of b t r d)) = s"
    unfolding s_def by (rule nro_header_size [OF l])
  have w: "unat (word_of_nat (length (paged xs)) :: u32) = length (paged xs)" if "length (paged xs) < 2 ^ 32" for xs
    using that by (rule unat_u32_of_nat)
  have "\<forall>x\<in>set (rh_segments (nro_header_of b t r d)). unat (rs_file_off x) + unat (rs_size x) \<le> length img"
    using sz(4,5) f len by (simp add: nro_header_of_def w nro_writes_fit_def)
  moreover have "nro_asset_fault (length img) s p = None"
    if "nro_find_assets img s = Some a" "p \<in> set (nro_asset_list a)" for a p
  proof -
    note rd = nro_assets_read [OF parts(6), folded s_def] len sz(4) f
    have "nro_has_assets b" "a = nro_asset_header_of b"
      using that(1) rd(1) len sz(4) f
      by (auto simp: s_def nro_has_assets_def asset_len_def split: if_splits option.splits)
    then show ?thesis using rd(2) that(2) len sz(4) f by (simp add: s_def)
  qed
  ultimately show ?thesis
    using hdr st size len sz by (simp add: nro_try_Ok) (simp add: nro_header_of_def)
qed

lemma nro_built_accessors:
  assumes id: "nro_id_ok b" and l: "nro_linked b t r d"
  defines "img \<equiv> nro_image b t r d"
  assumes n: "nro_try_from_bytes img = Ok n"
  shows "(nro_text_segment n :: (bytes, 'e) result)
      = Ok (take 0x10 (paged t) @ enc_nro_header (nro_header_of b t r d) @ drop 0x80 (paged t))"
    and "(nro_rodata_segment n :: (bytes, 'e) result) = Ok (paged r)"
    and "(nro_data_segment n :: (bytes, 'e) result) = Ok (paged d)"
    and "(nro_asset_icon n :: (bytes option, 'e) result) = Ok (asset_seen (rb_icon b))"
    and "(nro_asset_nacp n :: (bytes option, 'e) result) = Ok (asset_seen (rb_nacp b))"
    and "(nro_asset_romfs n :: (bytes option, 'e) result) = Ok (asset_seen (rb_romfs b))"
proof -
  note sz = nro_linked_sizes [OF l] and parts = nro_image_parts [OF id l, folded img_def]
  note f = l [unfolded nro_linked_def]
  have len: "length img = nro_total b d" by (simp add: img_def)
  have nn: "nro_hdr n = nro_header_of b t r d" "nro_assets n = nro_find_assets img (nro_size_of b d)"
    using n nro_built [OF id l] by (auto simp: img_def)
  note size = nro_header_size [OF l]
  have w: "unat (word_of_nat (length (paged xs)) :: u32) = length (paged xs)" if "length (paged xs) < 2 ^ 32" for xs
    using that by (rule unat_u32_of_nat)
  note seg = nro_segment_ok [OF n, where 'e = 'e, unfolded nn]
  show "(nro_text_segment n :: (bytes, 'e) result)
      = Ok (take 0x10 (paged t) @ enc_nro_header (nro_header_of b t r d) @ drop 0x80 (paged t))"
    using seg [of 0] parts(3) f by (simp add: nro_text_segment_def nro_header_of_def w)
  show "(nro_rodata_segment n :: (bytes, 'e) result) = Ok (paged r)"
    using seg [of 1] parts(4) f by (simp add: nro_rodata_segment_def nro_header_of_def w)
  show "(nro_data_segment n :: (bytes, 'e) result) = Ok (paged d)"
    using seg [of 2] parts(5) f by (simp add: nro_data_segment_def nro_header_of_def w)
  note rd = nro_assets_read(1) [OF parts(6)] nro_assets_read(3) [OF parts(6), where 'e = 'e]
  have find: "nro_find_assets img (nro_size_of b d)
      = (if asset_len (rb_icon b) + asset_len (rb_nacp b) + asset_len (rb_romfs b) = 0 then None
         else Some (nro_asset_header_of b))"
    by (rule rd(1)) (use len sz(4) f in simp_all)
  have none: "asset_len x = 0 \<Longrightarrow> asset_seen x = None" for x
    by (simp add: asset_len_def asset_seen_def split: option.splits)
  have has: "asset_len (rb_icon b) + asset_len (rb_nacp b) + asset_len (rb_romfs b) \<noteq> 0 \<Longrightarrow> nro_has_assets b"
    by (auto simp: nro_has_assets_def asset_len_def split: option.splits)
  note ok = nro_asset_ok [OF n, where 'e = 'e, unfolded nn size find]
  show "(nro_asset_icon n :: (bytes option, 'e) result) = Ok (asset_seen (rb_icon b))"
    using ok [of "''icon''" rx_icon] rd(2) has none len sz(4) f
    by (simp add: nro_asset_icon_def nro_asset_list_def split: if_splits)
  show "(nro_asset_nacp n :: (bytes option, 'e) result) = Ok (asset_seen (rb_nacp b))"
    using ok [of "''nacp''" rx_nacp] rd(2) has none len sz(4) f
    by (simp add: nro_asset_nacp_def nro_asset_list_def split: if_splits)
  show "(nro_asset_romfs n :: (bytes option, 'e) result) = Ok (asset_seen (rb_romfs b))"
    using ok [of "''romfs''" rx_romfs] rd(2) has none len sz(4) f
    by (simp add: nro_asset_romfs_def nro_asset_list_def split: if_splits)
qed

end
