(* ===== verification/Nro_Properties.thy ===== *)
theory Nro_Properties
  imports Nro_Roundtrip
begin

text \<open>What the NRO builder and reader promise.\<close>

definition nro_example :: nro_builder where
  "nro_example =
     nro_set_icon [0xFF, 0xD8] (nro_set_romfs [] (nro_set_data_vaddr 0x2000 (nro_set_data [3]
       (nro_set_rodata_vaddr 0x1000 (nro_set_rodata [2] (nro_set_text [1] nro_new))))))"

lemma nro_example_fields:
  "rb_text nro_example = Some [1]" "rb_rodata nro_example = Some [2]" "rb_data nro_example = Some [3]"
  "rb_icon nro_example = Some [0xFF, 0xD8]" "rb_nacp nro_example = None" "rb_romfs nro_example = Some []"
  "rb_text_vaddr nro_example = 0" "rb_rodata_vaddr nro_example = 0x1000" "rb_data_vaddr nro_example = 0x2000"
  "rb_build_id nro_example = None" "nro_id_ok nro_example"
  by (simp_all add: nro_example_def nro_setters nro_id_ok_def)

lemma nro_example_linked: "nro_linked nro_example [1] [2] [3]"
  by (simp add: nro_linked_def nro_example_fields length_paged align_up_def nro_total_def nro_size_of_def
      length_nro_asset_area asset_len_def nro_has_assets_def usize_max_def)

text \<open>C28. A build refines a function of the byte position.  It reports the first missing segment; it panics
  exactly when the 32-bit end of data overflows, or a segment or the header ends outside the
  buffer, whose length only data and the assets decide; and otherwise every byte of the image is
  the asset area's behind the executable, else the header's at 0x10, else data's, rodata's or
  text's at its address, else zero.\<close>

theorem nro_build_refines_layout:
  assumes "nro_id_ok b"
  shows "nro_build b =
     (case (rb_text b, rb_rodata b, rb_data b) of
        (None, _, _) \<Rightarrow> Err Nro_MissingText
      | (_, None, _) \<Rightarrow> Err Nro_MissingRodata
      | (_, _, None) \<Rightarrow> Err Nro_MissingData
      | (Some t, Some r, Some d) \<Rightarrow>
          (if nro_writes_fit b t r d then Ok (map (nro_byte b t r d) [0..<nro_total b d]) else Panic))"
  unfolding nro_image_def [symmetric] by (rule nro_build_eq [OF assms])

text \<open>The witness: rodata placed behind data.  Only data decides the length, so the build panics.\<close>

theorem nro_build_refines_layout_witness:
  "nro_build (nro_set_rodata_vaddr 0x3000 nro_example) = Panic"
proof -
  let ?b = "nro_set_rodata_vaddr 0x3000 nro_example"
  have "nro_id_ok ?b" using nro_example_fields by (simp add: nro_id_ok_def nro_set_rodata_vaddr_def)
  moreover have "\<not> nro_writes_fit ?b [1] [2] [3]"
    by (simp add: nro_writes_fit_def nro_set_rodata_vaddr_def nro_example_fields length_paged align_up_def
        nro_total_def nro_size_of_def length_nro_asset_area asset_len_def nro_has_assets_def)
  ultimately show ?thesis
    using nro_build_refines_layout [of ?b] by (simp add: nro_set_rodata_vaddr_def nro_example_fields)
qed

text \<open>C29. An NRO built from segments laid out one behind the other parses.  Rodata and data come back padded
  to pages; text comes back with the header in place of its bytes 0x10 to 0x80, so the entry stub
  is the one text began with; each asset comes back, an empty one as absent; build identity, flags
  and the size of bss are the builder's.\<close>

theorem nro_round_trip:
  assumes "rb_text b = Some t" "rb_rodata b = Some r" "rb_data b = Some d"
    and "nro_id_ok b" "nro_linked b t r d"
  shows "\<exists>img n. nro_build b = Ok img \<and> nro_try_from_bytes img = Ok n
    \<and> (nro_text_segment n :: (bytes, 'e) result)
        = Ok (take 0x10 (paged t) @ enc_nro_header (nro_hdr n) @ drop 0x80 (paged t))
    \<and> (nro_rodata_segment n :: (bytes, 'e) result) = Ok (paged r)
    \<and> (nro_data_segment n :: (bytes, 'e) result) = Ok (paged d)
    \<and> (nro_asset_icon n :: (bytes option, 'e) result) = Ok (asset_seen (rb_icon b))
    \<and> (nro_asset_nacp n :: (bytes option, 'e) result) = Ok (asset_seen (rb_nacp b))
    \<and> (nro_asset_romfs n :: (bytes option, 'e) result) = Ok (asset_seen (rb_romfs b))
    \<and> nro_st n = dec_nro_start (paged t)
    \<and> nro_build_id n = (case rb_build_id b of Some i \<Rightarrow> i | None \<Rightarrow> zeros 0x20)
    \<and> rh_flags (nro_hdr n) = rb_flags b \<and> rh_bss_size (nro_hdr n) = rb_bss_size b
    \<and> unat (rh_size (nro_hdr n)) = unat (rb_data_vaddr b) + length (paged d)"
proof -
  let ?img = "nro_image b t r d"
  have "nro_build b = Ok ?img"
    using nro_build_some [OF assms(4,1-3)] nro_linked_sizes [OF assms(5)] by simp
  moreover obtain n where n: "nro_try_from_bytes ?img = Ok n" "nro_hdr n = nro_header_of b t r d"
    "nro_st n = dec_nro_start (paged t)"
    using nro_built [OF assms(4,5)] by simp
  moreover note nro_built_accessors [OF assms(4,5) n(1), where 'e = 'e]
  moreover have "unat (rh_size (nro_header_of b t r d)) = unat (rb_data_vaddr b) + length (paged d)"
    by (simp only: nro_header_size [OF assms(5)] nro_linked_sizes(1) [OF assms(5)])
  ultimately show ?thesis
    by (intro exI [of _ ?img] exI [of _ n]) (simp add: nro_build_id_def, simp add: nro_header_of_def)
qed

theorem nro_round_trip_witness:
  "\<exists>img n. nro_build nro_example = Ok img \<and> nro_try_from_bytes img = Ok n
    \<and> (nro_rodata_segment n :: (bytes, unit) result) = Ok (paged [2])
    \<and> (nro_asset_icon n :: (bytes option, unit) result) = Ok (Some [0xFF, 0xD8])
    \<and> (nro_asset_romfs n :: (bytes option, unit) result) = Ok None"
  using nro_round_trip [OF nro_example_fields(1-3,11) nro_example_linked, where 'e = unit]
  by (auto simp: nro_example_fields asset_seen_def)

text \<open>C30. The NRO reader accepts exactly the buffers that hold start and header, carry the magic, and
  contain every segment and every asset that is not empty, and otherwise names the first thing
  that is wrong.  On an accepted image the segment accessors return the extents the header names,
  and the asset accessors the extent behind the executable, or \<open>None\<close>; only the accessor of an
  empty asset can panic, when the address of its no bytes overflows.\<close>

theorem nro_reader_exact:
  "nro_try_from_bytes bs =
     (if length bs < 0x80 then Err (Nro_BufferTooSmall 0x80 (length bs))
      else let h = dec_nro_header (drop 0x10 bs) in
        if rh_magic h \<noteq> NRO_MAGIC then Err (Nro_InvalidMagic (rh_magic h))
        else (case find (\<lambda>(i, s). length bs < unat (rs_file_off s) + unat (rs_size s)) (enumerate 0 (rh_segments h)) of
                Some (i, s) \<Rightarrow>
                  Err (Nro_SegmentOutOfBounds i (unat (rs_file_off s)) (unat (rs_size s)) (length bs))
              | None \<Rightarrow>
                  (case nro_asset_problem bs (unat (rh_size h)) of
                     Some e \<Rightarrow> Err e
                   | None \<Rightarrow> Ok \<lparr>nro_bytes = bs, nro_st = dec_nro_start bs, nro_hdr = h,
                                nro_assets = nro_find_assets bs (unat (rh_size h))\<rparr>)))
   \<and> (\<forall>n. nro_try_from_bytes bs = Ok n \<longrightarrow>
        [nro_text_segment n, nro_rodata_segment n, nro_data_segment n]
          = map (\<lambda>s. Ok (sub_bytes bs (unat (rs_file_off s)) (unat (rs_size s))) :: (bytes, 'e) result)
              (rh_segments (nro_hdr n))
      \<and> [nro_asset_icon n, nro_asset_nacp n, nro_asset_romfs n]
          = (case nro_assets n of
               None \<Rightarrow> [Ok None, Ok None, Ok None]
             | Some a \<Rightarrow> map (nro_asset_contents bs (unat (rh_size (nro_hdr n))) :: _ \<Rightarrow> (bytes option, 'e) result)
                           [rx_icon a, rx_nacp a, rx_romfs a]))"
proof (intro conjI allI impI)
  fix n assume n: "nro_try_from_bytes bs = Ok n"
  obtain s0 s1 s2 where s: "rh_segments (nro_hdr n) = [s0, s1, s2]"
    using nro_segments_length [OF n] by (auto simp: length_Suc_conv numeral_3_eq_3)
  show "[nro_text_segment n, nro_rodata_segment n, nro_data_segment n]
      = map (\<lambda>s. Ok (sub_bytes bs (unat (rs_file_off s)) (unat (rs_size s))) :: (bytes, 'e) result)
          (rh_segments (nro_hdr n))"
    using nro_segment_ok [OF n, of 0] nro_segment_ok [OF n, of 1] nro_segment_ok [OF n, of 2]
    by (simp add: s nro_text_segment_def nro_rodata_segment_def nro_data_segment_def)
  show "[nro_asset_icon n, nro_asset_nacp n, nro_asset_romfs n]
      = (case nro_assets n of
           None \<Rightarrow> [Ok None, Ok None, Ok None]
         | Some a \<Rightarrow> map (nro_asset_contents bs (unat (rh_size (nro_hdr n))) :: _ \<Rightarrow> (bytes option, 'e) result)
                       [rx_icon a, rx_nacp a, rx_romfs a])"
    using nro_asset_ok [OF n, of "''icon''" rx_icon, where 'e = 'e]
      nro_asset_ok [OF n, of "''nacp''" rx_nacp, where 'e = 'e]
      nro_asset_ok [OF n, of "''romfs''" rx_romfs, where 'e = 'e]
    by (simp add: nro_asset_list_def nro_asset_icon_def nro_asset_nacp_def nro_asset_romfs_def split: option.split)
qed (rule nro_try_eq)

text \<open>The witness: an accepted image whose empty icon has an offset at the end of the address space.\<close>

definition nro_far_icon_header :: nro_header where
  "nro_far_icon_header =
     \<lparr>rh_magic = NRO_MAGIC, rh_version = 0, rh_size = 0x80, rh_flags = 0,
      rh_segments = replicate 3 \<lparr>rs_file_off = 0, rs_size = 0\<rparr>, rh_bss_size = 0, rh_reserved = 0,
      rh_build_id = zeros 0x20, rh_reserved2 = zeros 0x20\<rparr>"

definition nro_far_icon_assets :: nro_asset_header where
  "nro_far_icon_assets =
     \<lparr>rx_magic = ASSET_MAGIC, rx_version = 0,
      rx_icon = \<lparr>ra_offset = 0xFFFFFFFFFFFFFFFF, ra_size = 0\<rparr>,
      rx_nacp = \<lparr>ra_offset = 0, ra_size = 0\<rparr>, rx_romfs = \<lparr>ra_offset = 0, ra_size = 0\<rparr>\<rparr>"

definition nro_far_icon :: bytes where
  "nro_far_icon = zeros 0x10 @ enc_nro_header nro_far_icon_header @ enc_nro_asset_header nro_far_icon_assets @ [0]"

lemma nro_far_icon_parses:
  "\<exists>n. nro_try_from_bytes nro_far_icon = Ok n \<and> nro_hdr n = nro_far_icon_header
     \<and> nro_assets n = Some nro_far_icon_assets"
proof -
  have wf: "nro_header_wf nro_far_icon_header" by (simp add: nro_header_wf_def nro_far_icon_header_def)
  note len = nro_header.enc_length [OF wf] nro_asset_header.enc_length [OF TrueI, of nro_far_icon_assets]
  have hdr: "dec_nro_header (drop 0x10 nro_far_icon) = nro_far_icon_header"
    by (simp add: nro_far_icon_def nro_header.dec_enc [OF wf])
  have "nro_find_assets nro_far_icon 0x80 = Some nro_far_icon_assets"
    using len by (simp add: nro_find_assets_def nro_far_icon_def run_simps nro_asset_header.dec_enc)
      (simp add: nro_far_icon_assets_def)
  moreover have "nro_asset_fault n 0x80 p = None" if "p \<in> set (nro_asset_list nro_far_icon_assets)" for n p
    using that by (auto simp: nro_asset_list_def nro_far_icon_assets_def nro_asset_fault_def)
  moreover have "length nro_far_icon = 0xB9" using len by (simp add: nro_far_icon_def)
  ultimately show ?thesis
    using hdr by (simp add: nro_try_Ok) (simp add: nro_far_icon_header_def)
qed

theorem nro_reader_exact_witness:
  "\<exists>n. nro_try_from_bytes nro_far_icon = Ok n
    \<and> (nro_text_segment n :: (bytes, unit) result) = Ok []
    \<and> (nro_asset_icon n :: (bytes option, unit) result) = Panic"
proof -
  obtain n where n: "nro_try_from_bytes nro_far_icon = Ok n" "nro_hdr n = nro_far_icon_header"
    "nro_assets n = Some nro_far_icon_assets"
    using nro_far_icon_parses by blast
  then show ?thesis
    using nro_reader_exact [of nro_far_icon, THEN conjunct2, rule_format, OF n(1), where 'e = unit] n
    by (simp add: nro_far_icon_header_def nro_far_icon_assets_def nro_asset_contents_def sub_bytes_def numeral_3_eq_3
        usize_max_def)
qed

end
