(* ===== verification/Mod0.thy ===== *)
theory Mod0
  imports NX_Codec
begin

text \<open>
  The MOD0 header embedded in executables: \<^verbatim>\<open>src/raw/mod0.rs\<close> and the reader of
  \<^verbatim>\<open>src/read/mod0.rs\<close>.  The offsets are signed 32-bit integers relative to the header; they are
  stored as words and read as integers.
\<close>

definition MOD0_MAGIC :: u32 where "MOD0_MAGIC = 0x30444f4d"

record mod0_header =
  mh_magic :: u32
  mh_dynamic_offset :: u32
  mh_bss_start_offset :: u32
  mh_bss_end_offset :: u32
  mh_eh_frame_hdr_start :: u32
  mh_eh_frame_hdr_end :: u32
  mh_module_object_offset :: u32

definition enc_mod0_header :: "mod0_header \<Rightarrow> bytes" where
  "enc_mod0_header h =
     le32 (mh_magic h) @ le32 (mh_dynamic_offset h) @ le32 (mh_bss_start_offset h)
     @ le32 (mh_bss_end_offset h) @ le32 (mh_eh_frame_hdr_start h) @ le32 (mh_eh_frame_hdr_end h)
     @ le32 (mh_module_object_offset h)"

definition dec_mod0_header :: "bytes \<Rightarrow> mod0_header" where
  "dec_mod0_header bs =
     \<lparr>mh_magic = rd32 bs 0, mh_dynamic_offset = rd32 bs 4, mh_bss_start_offset = rd32 bs 8,
      mh_bss_end_offset = rd32 bs 0xC, mh_eh_frame_hdr_start = rd32 bs 0x10,
      mh_eh_frame_hdr_end = rd32 bs 0x14, mh_module_object_offset = rd32 bs 0x18\<rparr>"

interpretation mod0_header: layout enc_mod0_header dec_mod0_header "0x1C" "\<lambda>_. True"
  by unfold_locales (simp_all add: enc_mod0_header_def dec_mod0_header_def field_simps_le field_join)

datatype mod0_parse_error =
    Mod0_BufferTooSmall (required: nat) (available: nat)
  | Mod0_InvalidMagic (found: u32)

record mod0 =
  mod0_hdr :: mod0_header

definition mod0_try_from_bytes :: "bytes \<Rightarrow> (mod0, mod0_parse_error) result" where
  "mod0_try_from_bytes bs =
     (if length bs < 0x1C then Err (Mod0_BufferTooSmall 0x1C (length bs))
      else
        rbind (ok_or (Mod0_BufferTooSmall 0x1C (length bs)) (ref_from_prefix dec_mod0_header 0x1C bs)) (\<lambda>(header, _).
          if mh_magic header \<noteq> MOD0_MAGIC then Err (Mod0_InvalidMagic (mh_magic header))
          else Ok \<lparr>mod0_hdr = header\<rparr>))"

text \<open>\<^verbatim>\<open>I32::get\<close> reads the word as a signed integer.\<close>

definition mod0_dynamic_offset :: "mod0 \<Rightarrow> int" where
  "mod0_dynamic_offset m = sint (mh_dynamic_offset (mod0_hdr m))"
definition mod0_bss_start_offset :: "mod0 \<Rightarrow> int" where
  "mod0_bss_start_offset m = sint (mh_bss_start_offset (mod0_hdr m))"
definition mod0_bss_end_offset :: "mod0 \<Rightarrow> int" where
  "mod0_bss_end_offset m = sint (mh_bss_end_offset (mod0_hdr m))"
definition mod0_eh_frame_hdr_start :: "mod0 \<Rightarrow> int" where
  "mod0_eh_frame_hdr_start m = sint (mh_eh_frame_hdr_start (mod0_hdr m))"
definition mod0_eh_frame_hdr_end :: "mod0 \<Rightarrow> int" where
  "mod0_eh_frame_hdr_end m = sint (mh_eh_frame_hdr_end (mod0_hdr m))"
definition mod0_module_object_offset :: "mod0 \<Rightarrow> int" where
  "mod0_module_object_offset m = sint (mh_module_object_offset (mod0_hdr m))"

section \<open>What the reader accepts\<close>

lemma mod0_try_eq:
  "mod0_try_from_bytes bs =
     (if length bs < 0x1C then Err (Mod0_BufferTooSmall 0x1C (length bs))
      else if mh_magic (dec_mod0_header bs) \<noteq> MOD0_MAGIC then Err (Mod0_InvalidMagic (mh_magic (dec_mod0_header bs)))
      else Ok \<lparr>mod0_hdr = dec_mod0_header bs\<rparr>)"
  by (simp add: mod0_try_from_bytes_def run_simps)

lemma mod0_try_written:
  "mh_magic h = MOD0_MAGIC \<Longrightarrow> mod0_try_from_bytes (enc_mod0_header h @ rest) = Ok \<lparr>mod0_hdr = h\<rparr>"
  by (simp add: mod0_try_eq mod0_header.dec_enc mod0_header.enc_length)

text \<open>The reader looks at the header's bytes only.\<close>

lemma mod0_try_cong:
  assumes "take 0x1C bs = take 0x1C bs'"
  shows "mod0_try_from_bytes bs = Ok m \<longleftrightarrow> mod0_try_from_bytes bs' = Ok m"
proof -
  have len: "0x1C \<le> length bs \<longleftrightarrow> 0x1C \<le> length bs'"
    using arg_cong [OF assms, of length] by (auto simp: min_def split: if_splits)
  show ?thesis
  proof (cases "0x1C \<le> length bs")
    case True
    then have "dec_mod0_header bs = dec_mod0_header bs'"
      using mod0_header.dec_take [of "0x1C" bs] mod0_header.dec_take [of "0x1C" bs'] len assms by simp
    then show ?thesis using True len by (simp add: mod0_try_eq)
  qed (use len in \<open>simp add: mod0_try_eq\<close>)
qed

end
