(* ===== verification/Module_Properties.thy ===== *)
theory Module_Properties
  imports Mod0 Nro_Roundtrip
begin

text \<open>
  The module header and the executable that carries it: a crt0 puts a MOD0 header into the text
  segment and its offset into the entry stub, and both have to survive the NRO builder, which
  writes its own header over the bytes in between.
\<close>

lemma drop_stub:
  "length h = 0x70 \<Longrightarrow> 0x80 \<le> length xs \<Longrightarrow> 0x80 \<le> n \<Longrightarrow> drop n (take 0x10 xs @ h @ drop 0x80 xs) = drop n xs"
  by simp

text \<open>C31. If the entry stub of text names a MOD0 header behind the NRO header, then the reader of a built
  image finds the same stub, and the same MOD0 header at the offset it names in the text it hands
  out.\<close>

theorem nro_keeps_mod0:
  assumes "rb_text b = Some t" "rb_rodata b = Some r" "rb_data b = Some d"
    and "nro_id_ok b" "nro_linked b t r d"
    and "mod_off = unat (rt_mod_offset (dec_nro_start (paged t)))" "0x80 \<le> mod_off" "mod_off + 0x1C \<le> length t"
    and "mod0_try_from_bytes (drop mod_off t) = Ok m"
  shows "\<exists>img n txt. nro_build b = Ok img \<and> nro_try_from_bytes img = Ok n
    \<and> (nro_text_segment n :: (bytes, 'e) result) = Ok txt
    \<and> unat (rt_mod_offset (nro_st n)) = mod_off
    \<and> mod0_try_from_bytes (drop mod_off txt) = Ok m"
proof -
  let ?img = "nro_image b t r d"
  let ?txt = "take 0x10 (paged t) @ enc_nro_header (nro_header_of b t r d) @ drop 0x80 (paged t)"
  have b: "nro_build b = Ok ?img"
    using nro_build_some [OF assms(4,1-3)] nro_linked_sizes [OF assms(5)] by simp
  obtain n where n: "nro_try_from_bytes ?img = Ok n" "nro_st n = dec_nro_start (paged t)"
    using nro_built [OF assms(4,5)] by simp
  have h: "length (enc_nro_header (nro_header_of b t r d)) = 0x70"
    by (rule nro_header.enc_length [OF nro_header_of_wf [OF assms(4)]])
  have "drop mod_off ?txt = drop mod_off (paged t)"
    by (rule drop_stub [OF h _ assms(7)]) (use paged_page [of t] assms(5) in \<open>simp add: nro_linked_def\<close>)
  moreover have "take 0x1C (drop mod_off (paged t)) = take 0x1C (drop mod_off t)"
    using assms(8) by (simp add: pad_to_alignment_eq)
  ultimately have "mod0_try_from_bytes (drop mod_off ?txt) = Ok m"
    using mod0_try_cong [of "drop mod_off (paged t)" "drop mod_off t"] assms(9) by simp
  then show ?thesis
    using b n nro_built_accessors(1) [OF assms(4,5) n(1), where 'e = 'e] assms(6) by auto
qed

text \<open>A text segment with a stub, room for the NRO header, and a MOD0 header.\<close>

definition mod0_example :: mod0_header where
  "mod0_example =
     \<lparr>mh_magic = MOD0_MAGIC, mh_dynamic_offset = 0x1000, mh_bss_start_offset = 0x2000,
      mh_bss_end_offset = 0x3000, mh_eh_frame_hdr_start = - 4, mh_eh_frame_hdr_end = 0,
      mh_module_object_offset = 0x2000\<rparr>"

definition mod0_text :: bytes where
  "mod0_text =
     enc_nro_start \<lparr>rt_unused = 0x14000020, rt_mod_offset = 0x80, rt_padding = zeros 8\<rparr>
     @ zeros 0x70 @ enc_mod0_header mod0_example"

theorem nro_keeps_mod0_witness:
  "\<exists>img n txt. nro_build (nro_set_data_vaddr 0x1000 (nro_set_data [] (nro_set_rodata_vaddr 0x1000
        (nro_set_rodata [] (nro_set_text mod0_text nro_new))))) = Ok img
    \<and> nro_try_from_bytes img = Ok n \<and> (nro_text_segment n :: (bytes, unit) result) = Ok txt
    \<and> mod0_try_from_bytes (drop 0x80 txt) = Ok \<lparr>mod0_hdr = mod0_example\<rparr>"
proof -
  let ?b = "nro_set_data_vaddr 0x1000 (nro_set_data [] (nro_set_rodata_vaddr 0x1000
        (nro_set_rodata [] (nro_set_text mod0_text nro_new))))"
  let ?s = "\<lparr>rt_unused = 0x14000020, rt_mod_offset = 0x80, rt_padding = zeros 8\<rparr>"
  note len = nro_start.enc_length [of ?s, simplified] mod0_header.enc_length [of mod0_example, simplified]
  have f: "rb_text ?b = Some mod0_text" "rb_rodata ?b = Some []" "rb_data ?b = Some []" "nro_id_ok ?b"
    by (simp_all add: nro_setters nro_id_ok_def)
  have t: "length mod0_text = 0x9C" using len by (simp add: mod0_text_def)
  then have "mod0_text \<noteq> []" by auto
  then have l: "nro_linked ?b mod0_text [] []"
    using t by (simp add: nro_linked_def nro_setters length_paged align_up_def nro_total_def nro_size_of_def
        nro_asset_area_def nro_has_assets_def usize_max_def)
  have "dec_nro_start (paged mod0_text) = ?s"
    by (simp add: pad_to_alignment_eq mod0_text_def nro_start.dec_enc del: append_assoc) 
      (simp add: nro_start.dec_enc)
  then have off: "0x80 = unat (rt_mod_offset (dec_nro_start (paged mod0_text)))" by simp
  have "mod0_try_from_bytes (drop 0x80 mod0_text) = Ok \<lparr>mod0_hdr = mod0_example\<rparr>"
    using mod0_try_written [of mod0_example "[]"] len by (simp add: mod0_text_def) (simp add: mod0_example_def)
  from nro_keeps_mod0 [OF f l off _ _ this, where 'e = unit] t show ?thesis by auto
qed

end
