(* ===== verification/Npdm_Capability.thy ===== *)
theory Npdm_Capability
  imports NX_Codec
begin

text \<open>
  The kernel capabilities of \<^verbatim>\<open>src/write/npdm.rs\<close>: their encoding into 32-bit descriptors, and
  the reading of descriptors that the documentation of the encoding gives, by the number of low
  one-bits and the bit ranges behind them.  What the reading finds is what the capability grants.
\<close>

section \<open>Capabilities and their encoding\<close>

record map_region_descriptor =
  mr_region_type :: u8
  mr_is_ro :: bool

text \<open>The map of system calls is ordered by name; it is the list of its entries in that order.\<close>

datatype kernel_capability =
    KernelFlags (highest_thread_priority: u8) (lowest_thread_priority: u8) (highest_cpu_id: u8) (lowest_cpu_id: u8)
  | Syscalls "(bytes \<times> u64) list"
  | MapRange (map_address: u64) (map_size: u64) (map_is_ro: bool) (map_is_io: bool)
  | MapPage u64
  | MapRegion "map_region_descriptor list"
  | IrqPair u16 u16
  | ApplicationType u16
  | MinKernelVersion u64
  | HandleTableSize u16
  | DebugFlags (allow_debug: bool) (force_debug_prod: bool) (force_debug: bool)

text \<open>\<^verbatim>\<open>u32::from\<close> on a \<^verbatim>\<open>bool\<close>, and \<^verbatim>\<open>Vec::remove\<close>.\<close>

definition u32_of_bool :: "bool \<Rightarrow> u32" where
  "u32_of_bool b = (if b then 1 else 0)"

definition remove_nth :: "nat \<Rightarrow> 'x list \<Rightarrow> 'x list" where
  "remove_nth i xs = take i xs @ drop (Suc i) xs"

definition encode_syscalls :: "(bytes \<times> u64) list \<Rightarrow> u32 list" where
  "encode_syscalls syscalls =
     (let masks = replicate 8 (0xF :: u32);
          used = replicate 8 False;
          masks = map (\<lambda>(idx, m). m OR push_bit 29 (word_of_nat idx AND 0x7)) (enumerate 0 masks);
          (masks, used) =
            foldl (\<lambda>(masks, used) syscall_id.
                let mask_idx = unat (syscall_id div 24); bit_offset = unat (syscall_id mod 24) + 5 in
                if mask_idx < 8 \<and> bit_offset < 32
                then (masks[mask_idx := masks ! mask_idx OR push_bit bit_offset 1], used[mask_idx := True])
                else (masks, used))
              (masks, used) (map snd syscalls)
      in foldl (\<lambda>masks idx. if \<not> used ! idx then remove_nth idx masks else masks) masks (rev [0..<8]))"

fun encode :: "kernel_capability \<Rightarrow> u32 list" where
  "encode (KernelFlags highest_prio lowest_prio highest_cpu lowest_cpu) =
     [0b111 OR push_bit 4 (ucast lowest_prio AND 0x3F) OR push_bit 10 (ucast highest_prio AND 0x3F)
        OR push_bit 16 (ucast lowest_cpu AND 0xFF) OR push_bit 24 (ucast highest_cpu AND 0xFF)]"
| "encode (Syscalls syscalls) = encode_syscalls syscalls"
| "encode (MapRange address sz is_ro is_io) =
     (let desc1 = ucast address AND 0x00FFFFFF;
          desc1 = (if is_ro then desc1 OR push_bit 24 1 else desc1);
          val1 = push_bit 7 desc1 OR 0b111111;
          desc2 = ucast sz AND 0x000FFFFF;
          desc2 = desc2 OR push_bit 20 (ucast (drop_bit 24 address) AND 0xF);
          is_io_inverted = (\<not> is_io);
          desc2 = (if is_io_inverted then desc2 OR push_bit 24 1 else desc2);
          val2 = push_bit 7 desc2 OR 0b111111
      in [val1, val2])"
| "encode (MapPage page) = [0b1111111 OR push_bit 8 (ucast page AND 0x00FFFFFF)]"
| "encode (MapRegion regions) =
     [foldl (\<lambda>val (i, region).
         val OR push_bit (11 + 7 * i) ((ucast (mr_region_type region) AND 0x3F) OR push_bit 6 (u32_of_bool (mr_is_ro region))))
       0b1111111111 (enumerate 0 (take 3 regions))]"
| "encode (IrqPair irq0 irq1) =
     [0b11111111111 OR push_bit 12 (ucast irq0 AND 0x3FF) OR push_bit 22 (ucast irq1 AND 0x3FF)]"
| "encode (ApplicationType app_type) = [0b1111111111111 OR push_bit 14 (ucast app_type AND 0x7)]"
| "encode (MinKernelVersion min_kernel) = [0b11111111111111 OR push_bit 15 (ucast min_kernel AND 0x0001FFFF)]"
| "encode (HandleTableSize n) = [0b111111111111111 OR push_bit 16 (ucast n AND 0x3FF)]"
| "encode (DebugFlags allow force_prod force) =
     [let val = 0b1111111111111111;
          val = (if allow then val OR push_bit 17 1 else val);
          val = (if force_prod then val OR push_bit 18 1 else val);
          val = (if force then val OR push_bit 19 1 else val)
      in val]"

definition build_kernel_capabilities :: "kernel_capability list \<Rightarrow> bytes" where
  "build_kernel_capabilities capabilities =
     foldl (\<lambda>data cap. foldl (\<lambda>data desc. data @ le32 desc) data (encode cap)) [] capabilities"

section \<open>What a descriptor grants\<close>

text \<open>A bit range, and the number of low one-bits that identifies the type of a descriptor.\<close>

definition bit_field :: "nat \<Rightarrow> nat \<Rightarrow> u32 \<Rightarrow> u32" where
  "bit_field lo n w = take_bit n (drop_bit lo w)"

definition trailing_ones :: "u32 \<Rightarrow> nat" where
  "trailing_ones w = length (takeWhile (bit w) [0..<32])"

datatype kernel_grant =
    GrantFlags (low_prio: u32) (high_prio: u32) (low_cpu: u32) (high_cpu: u32)
  | GrantSyscall nat
  | GrantMap (page_low: u32) (page_high: u32) (page_count: u32) (read_only: bool) (device: bool)
  | GrantPage u32
  | GrantRegions "(u32 \<times> bool) list"
  | GrantIrqs u32 u32
  | GrantApplication u32
  | GrantKernelVersion u32
  | GrantHandles u32
  | GrantDebug bool bool bool

fun decode_descriptors :: "u32 list \<Rightarrow> kernel_grant list" where
  "decode_descriptors [] = []"
| "decode_descriptors (w # ws) =
     (let k = trailing_ones w in
      if k = 3 then GrantFlags (bit_field 4 6 w) (bit_field 10 6 w) (bit_field 16 8 w) (bit_field 24 8 w) # decode_descriptors ws
      else if k = 4 then
        map (\<lambda>i. GrantSyscall (24 * unat (bit_field 29 3 w) + i)) (filter (\<lambda>i. bit w (5 + i)) [0..<24])
        @ decode_descriptors ws
      else if k = 6 then
        (case ws of
           [] \<Rightarrow> []
         | w' # ws' \<Rightarrow> GrantMap (bit_field 7 24 w) (bit_field 27 4 w') (bit_field 7 20 w') (bit w 31) (\<not> bit w' 31)
                       # decode_descriptors ws')
      else if k = 7 then GrantPage (bit_field 8 24 w) # decode_descriptors ws
      else if k = 10 then
        GrantRegions (map (\<lambda>i. (bit_field (11 + 7 * i) 6 w, bit w (17 + 7 * i))) [0..<3]) # decode_descriptors ws
      else if k = 11 then GrantIrqs (bit_field 12 10 w) (bit_field 22 10 w) # decode_descriptors ws
      else if k = 13 then GrantApplication (bit_field 14 3 w) # decode_descriptors ws
      else if k = 14 then GrantKernelVersion (bit_field 15 17 w) # decode_descriptors ws
      else if k = 15 then GrantHandles (bit_field 16 10 w) # decode_descriptors ws
      else if k = 16 then GrantDebug (bit w 17) (bit w 18) (bit w 19) # decode_descriptors ws
      else decode_descriptors ws)"

text \<open>What a capability asks for, cut to what its descriptor can express: fields to their width, system
  calls below 192, three regions.\<close>

fun grants :: "kernel_capability \<Rightarrow> kernel_grant list" where
  "grants (KernelFlags highest_prio lowest_prio highest_cpu lowest_cpu) =
     [GrantFlags (take_bit 6 (ucast lowest_prio)) (take_bit 6 (ucast highest_prio)) (take_bit 8 (ucast lowest_cpu)) (take_bit 8 (ucast highest_cpu))]"
| "grants (Syscalls syscalls) = map GrantSyscall (filter (\<lambda>i. word_of_nat i \<in> snd ` set syscalls) [0..<192])"
| "grants (MapRange address sz is_ro is_io) =
     [GrantMap (take_bit 24 (ucast address)) (take_bit 4 (ucast (drop_bit 24 address))) (take_bit 20 (ucast sz)) is_ro is_io]"
| "grants (MapPage page) = [GrantPage (take_bit 24 (ucast page))]"
| "grants (MapRegion regions) =
     [GrantRegions (map (\<lambda>i. if i < length regions
        then (take_bit 6 (ucast (mr_region_type (regions ! i))), mr_is_ro (regions ! i)) else (0, False)) [0..<3])]"
| "grants (IrqPair irq0 irq1) = [GrantIrqs (take_bit 10 (ucast irq0)) (take_bit 10 (ucast irq1))]"
| "grants (ApplicationType app_type) = [GrantApplication (take_bit 3 (ucast app_type))]"
| "grants (MinKernelVersion min_kernel) = [GrantKernelVersion (take_bit 17 (ucast min_kernel))]"
| "grants (HandleTableSize n) = [GrantHandles (take_bit 10 (ucast n))]"
| "grants (DebugFlags allow force_prod force) = [GrantDebug allow force_prod force]"

section \<open>Reading the descriptors back\<close>

lemma trailing_onesI:
  assumes "k < 32" "\<And>i. i < k \<Longrightarrow> bit w i" "\<not> bit w k"
  shows "trailing_ones w = k"
proof -
  have "[0..<32] = [0..<k] @ k # [Suc k..<32]"
    using assms(1) upt_add_eq_append [of 0 k "32 - k"] by (simp add: upt_conv_Cons)
  then have "takeWhile (bit w) [0..<32] = [0..<k]"
    using assms(2,3) by (simp add: takeWhile_append)
  then show ?thesis by (simp add: trailing_ones_def)
qed

text \<open>The constants of the encoding are masks.\<close>

lemma low_masks:
  "(0b111 :: u32) = mask 3" "(0xF :: u32) = mask 4" "(0b111111 :: u32) = mask 6" "(0b1111111 :: u32) = mask 7"
  "(0b1111111111 :: u32) = mask 10" "(0b11111111111 :: u32) = mask 11" "(0b1111111111111 :: u32) = mask 13"
  "(0b11111111111111 :: u32) = mask 14" "(0b111111111111111 :: u32) = mask 15"
  "(0b1111111111111111 :: u32) = mask 16" "(0xFF :: u32) = mask 8" "(0xFFFFFF :: u32) = mask 24"
  "(0xFFFFF :: u32) = mask 20" "(0x1FFFF :: u32) = mask 17"
  by (simp_all add: mask_eq_exp_minus_1)

lemma and_masks: "(x AND mask n :: u32) = take_bit n x"
  by (simp add: take_bit_eq_mask)

text \<open>A descriptor is a mask and shifted fields that do not overlap; each is read on its own.\<close>

named_theorems field_read \<open>reading one field of a descriptor\<close>

lemma bit_field_or [field_read]: "bit_field lo n (a OR b) = bit_field lo n a OR bit_field lo n b"
  by (simp add: bit_field_def drop_bit_or take_bit_or)

lemma bit_field_mask [field_read]: "k \<le> lo \<Longrightarrow> bit_field lo n (mask k) = 0"
  by (rule bit_eqI) (auto simp: bit_field_def bit_simps)

lemma bit_field_here [field_read]: "m + n \<le> 32 \<Longrightarrow> bit_field m n (push_bit m x) = take_bit n x"
  by (rule bit_eqI) (auto simp: bit_field_def bit_simps)

lemma bit_field_above [field_read]: "lo + n \<le> m \<Longrightarrow> bit_field lo n (push_bit m x) = 0"
  by (rule bit_eqI) (auto simp: bit_field_def bit_simps)

lemma bit_field_below [field_read]: "m + k \<le> lo \<Longrightarrow> bit_field lo n (push_bit m (take_bit k x)) = 0"
  by (rule bit_eqI) (auto simp: bit_field_def bit_simps)

lemma bit_field_flag [field_read]: "m < lo \<Longrightarrow> bit_field lo n (push_bit m 1) = 0"
  by (rule bit_eqI) (auto simp: bit_field_def bit_simps)

lemma trailing_ones_mask [field_read]:
  assumes "k < 32" "bit_field 0 (Suc k) x = 0"
  shows "trailing_ones (mask k OR x) = k" "trailing_ones (x OR mask k) = k"
proof -
  have "\<not> bit x k"
    using arg_cong [OF assms(2), of "\<lambda>w. bit w k"] assms(1) by (simp add: bit_field_def bit_simps)
  then show "trailing_ones (mask k OR x) = k" "trailing_ones (x OR mask k) = k"
    using assms(1) by (intro trailing_onesI; auto simp: bit_simps)+
qed

lemma trailing_ones_mask_alone [field_read]: "k < 32 \<Longrightarrow> trailing_ones (mask k) = k"
  by (intro trailing_onesI) (simp_all add: bit_simps)

lemma bit_field_shifted:
  "m + lo + n \<le> 32 \<Longrightarrow> bit_field (m + lo) n (push_bit m x) = bit_field lo n x"
  by (rule bit_eqI) (auto simp: bit_field_def bit_simps add.commute add.left_commute)

lemmas decode_step = low_masks and_masks Let_def field_read

lemma decode_flags:
  "decode_descriptors (encode (KernelFlags hp lp hc lc) @ ws) = grants (KernelFlags hp lp hc lc) @ decode_descriptors ws"
  by (simp add: decode_step or.assoc del: mask_numeral)

lemma decode_page:
  "decode_descriptors (encode (MapPage p) @ ws) = grants (MapPage p) @ decode_descriptors ws"
  by (simp add: decode_step or.assoc del: mask_numeral)

lemma decode_irqs:
  "decode_descriptors (encode (IrqPair i j) @ ws) = grants (IrqPair i j) @ decode_descriptors ws"
  by (simp add: decode_step or.assoc del: mask_numeral)

lemma decode_numbers:
  "decode_descriptors (encode (ApplicationType a) @ ws) = grants (ApplicationType a) @ decode_descriptors ws"
  "decode_descriptors (encode (MinKernelVersion v) @ ws) = grants (MinKernelVersion v) @ decode_descriptors ws"
  "decode_descriptors (encode (HandleTableSize n) @ ws) = grants (HandleTableSize n) @ decode_descriptors ws"
  by (simp_all add: decode_step or.assoc del: mask_numeral)

lemma decode_debug:
  "decode_descriptors (encode (DebugFlags a p f) @ ws) = grants (DebugFlags a p f) @ decode_descriptors ws"
  by (cases a; cases p; cases f) (simp_all add: decode_step bit_field_def bit_simps or.assoc del: mask_numeral)

text \<open>Both words of a mapping carry a payload of 25 bits whose highest one is a flag.\<close>

definition flag24 :: "bool \<Rightarrow> u32" where
  "flag24 b = (if b then push_bit 24 1 else 0)"

lemma flag24_low [field_read]: "lo + n \<le> 24 \<Longrightarrow> bit_field lo n (flag24 b) = 0"
proof (cases b)
  case True
  then have "flag24 b = push_bit 24 1" by (simp only: flag24_def if_True)
  then show "bit_field lo n (flag24 b) = 0" if "lo + n \<le> 24"
    by (simp only: bit_field_above [OF that])
qed (simp add: flag24_def bit_field_def)

lemma flag24_high [field_read]: "bit (flag24 b) 24 = b"
  by (simp add: flag24_def)

lemma decode_mapping_words:
  assumes "bit d1 24 = r" "bit d2 24 = i"
  shows "decode_descriptors ((push_bit 7 d1 OR mask 6) # (push_bit 7 d2 OR mask 6) # ws)
    = GrantMap (take_bit 24 d1) (bit_field 20 4 d2) (take_bit 20 d2) r (\<not> i) # decode_descriptors ws"
proof -
  have t: "trailing_ones (push_bit 7 d OR mask 6) = 6" for d
    by (rule trailing_ones_mask(2)) (simp_all add: bit_field_above)
  have m: "bit_field lo n (push_bit 7 d OR mask 6) = bit_field lo n (push_bit 7 d)" if "6 \<le> lo" for lo n d
    using that by (simp add: bit_field_or bit_field_mask)
  have "bit (push_bit 7 d OR mask 6 :: u32) 31 = bit d 24" for d by (simp add: bit_simps)
  then show ?thesis
    using assms bit_field_shifted [of 7 20 4 d2] by (simp add: t m Let_def bit_field_here)
qed

lemma decode_map:
  "decode_descriptors (encode (MapRange a n ro io) @ ws) = grants (MapRange a n ro io) @ decode_descriptors ws"
proof -
  let ?d1 = "take_bit 24 (ucast a) OR flag24 ro :: u32"
  let ?d2 = "take_bit 20 (ucast n) OR push_bit 20 (take_bit 4 (ucast (drop_bit 24 a))) OR flag24 (\<not> io) :: u32"
  have e: "encode (MapRange a n ro io) = [push_bit 7 ?d1 OR mask 6, push_bit 7 ?d2 OR mask 6]"
    by (simp add: Let_def low_masks and_masks flag24_def or.assoc del: mask_numeral)
  have f0: "take_bit k x = bit_field 0 k x" for k x by (simp add: bit_field_def)
  have low: "bit_field 20 4 (take_bit 20 x) = 0" for x
    using bit_field_below [of 0 20 20 4 x] by simp
  have "bit ?d1 24 = ro" "bit ?d2 24 = (\<not> io)" by (simp_all add: bit_simps flag24_high)
  moreover have "take_bit 24 ?d1 = take_bit 24 (ucast a)" "take_bit 20 ?d2 = take_bit 20 (ucast n)"
    by (simp_all add: take_bit_or) (simp_all add: f0 field_read)
  moreover have "bit_field 20 4 ?d2 = take_bit 4 (ucast (drop_bit 24 a))"
    by (simp add: field_read low)
  ultimately show ?thesis
    unfolding e using decode_mapping_words [of ?d1 ro ?d2 "\<not> io" ws] by simp
qed

text \<open>A region descriptor packs up to three payloads of seven bits.\<close>

definition region_payload :: "map_region_descriptor list \<Rightarrow> nat \<Rightarrow> u32" where
  "region_payload rs i =
     (if i < length rs then take_bit 6 (ucast (mr_region_type (rs ! i))) OR push_bit 6 (u32_of_bool (mr_is_ro (rs ! i))) else 0)"

lemma region_payload_bits:
  "take_bit 7 (region_payload rs i) = region_payload rs i"
  "take_bit 6 (region_payload rs i) = (if i < length rs then take_bit 6 (ucast (mr_region_type (rs ! i))) else 0)"
  "bit (region_payload rs i) 6 \<longleftrightarrow> i < length rs \<and> mr_is_ro (rs ! i)"
  by (auto intro!: bit_eqI simp: region_payload_def u32_of_bool_def bit_simps)

lemma decode_region_word:
  "decode_descriptors ((mask 10 OR push_bit 11 (take_bit 7 x) OR push_bit 18 (take_bit 7 y) OR push_bit 25 (take_bit 7 z)) # ws)
     = GrantRegions [(take_bit 6 x, bit x 6), (take_bit 6 y, bit y 6), (take_bit 6 z, bit z 6)] # decode_descriptors ws"
  (is "decode_descriptors (?w # ws) = _")
proof -
  have "[0..<3] = [0, 1, 2 :: nat]" by (simp add: upt_rec)
  moreover have "trailing_ones ?w = 10" by (simp add: field_read or.assoc)
  moreover have "bit_field 11 6 ?w = take_bit 6 x" "bit_field 18 6 ?w = take_bit 6 y" "bit_field 25 6 ?w = take_bit 6 z"
    by (simp_all add: field_read)
  moreover have "bit ?w 17 = bit x 6" "bit ?w 24 = bit y 6" "bit ?w 31 = bit z 6"
    by (simp_all add: bit_simps)
  ultimately show ?thesis by (simp add: Let_def del: upt_Suc)
qed

lemma encode_regions:
  "encode (MapRegion rs) =
     [mask 10 OR push_bit 11 (region_payload rs 0) OR push_bit 18 (region_payload rs 1) OR push_bit 25 (region_payload rs 2)]"
proof -
  let ?p = "\<lambda>r. take_bit 6 (ucast (mr_region_type r)) OR push_bit 6 (u32_of_bool (mr_is_ro r))"
  consider "rs = []" | x where "rs = [x]" | x y where "rs = [x, y]" | x y z rest where "rs = x # y # z # rest"
    by (metis list.exhaust)
  then show ?thesis
    by cases (simp_all add: region_payload_def low_masks and_masks or.assoc enumerate_Suc_eq numeral_3_eq_3 numeral_2_eq_2 del: mask_numeral)
qed

lemma decode_regions:
  "decode_descriptors (encode (MapRegion rs) @ ws) = grants (MapRegion rs) @ decode_descriptors ws"
proof -
  have "[0..<3] = [0, 1, 2 :: nat]" by (simp add: upt_rec)
  then show ?thesis
    using decode_region_word [of "region_payload rs 0" "region_payload rs 1" "region_payload rs 2" ws]
    by (simp add: encode_regions region_payload_bits del: encode.simps upt_Suc)
qed

section \<open>System calls\<close>

text \<open>One mask per 24 calls: after any number of insertions, a call's bit is set if and only if it was
  inserted, and a mask counts as used if and only if one of its calls was.\<close>

definition syscall_step :: "u32 list \<times> bool list \<Rightarrow> u64 \<Rightarrow> u32 list \<times> bool list" where
  "syscall_step = (\<lambda>(masks, used) syscall_id.
     let mask_idx = unat (syscall_id div 24); bit_offset = unat (syscall_id mod 24) + 5 in
     if mask_idx < 8 \<and> bit_offset < 32
     then (masks[mask_idx := masks ! mask_idx OR push_bit bit_offset 1], used[mask_idx := True])
     else (masks, used))"

lemma bit_set_one: "k < 32 \<Longrightarrow> bit (w OR push_bit k 1 :: u32) i \<longleftrightarrow> bit w i \<or> k = i"
  by (auto simp: bit_simps)

lemma syscall_loop:
  assumes "length m0 = 8"
  shows "\<exists>ms us. foldl syscall_step (m0, replicate 8 False) ids = (ms, us) \<and> length ms = 8 \<and> length us = 8
    \<and> (\<forall>j<8. us ! j \<longleftrightarrow> (\<exists>x\<in>set ids. unat x div 24 = j))
    \<and> (\<forall>j<8. \<forall>i. bit (ms ! j) i \<longleftrightarrow> bit (m0 ! j) i \<or> (\<exists>x\<in>set ids. unat x div 24 = j \<and> i = unat x mod 24 + 5))"
proof (induction ids rule: rev_induct)
  case Nil
  show ?case using assms by simp
next
  case (snoc x ids)
  then obtain ms us where IH: "foldl syscall_step (m0, replicate 8 False) ids = (ms, us)" "length ms = 8" "length us = 8"
    "\<forall>j<8. us ! j \<longleftrightarrow> (\<exists>x\<in>set ids. unat x div 24 = j)"
    "\<forall>j<8. \<forall>i. bit (ms ! j) i \<longleftrightarrow> bit (m0 ! j) i \<or> (\<exists>x\<in>set ids. unat x div 24 = j \<and> i = unat x mod 24 + 5)"
    by blast
  have u: "unat (x div 24) = unat x div 24" "unat (x mod 24) = unat x mod 24"
    by (simp_all add: unat_div unat_mod)
  have b: "unat x mod 24 + 5 < 32" using mod_less_divisor [of 24 "unat x"] by linarith
  show ?case
  proof (cases "unat x div 24 < 8")
    case True
    then have "syscall_step (ms, us) x
        = (ms[unat x div 24 := ms ! (unat x div 24) OR push_bit (unat x mod 24 + 5) 1], us[unat x div 24 := True])"
      using b by (simp add: syscall_step_def u Let_def)
    then have "foldl syscall_step (m0, replicate 8 False) (ids @ [x])
        = (ms[unat x div 24 := ms ! (unat x div 24) OR push_bit (unat x mod 24 + 5) 1], us[unat x div 24 := True])"
      by (simp only: foldl_append IH(1) foldl.simps)
    moreover have "bit (ms[unat x div 24 := ms ! (unat x div 24) OR push_bit (unat x mod 24 + 5) 1] ! j) i
        \<longleftrightarrow> bit (ms ! j) i \<or> (unat x div 24 = j \<and> i = unat x mod 24 + 5)" if "j < 8" for j i
      using that IH(2) bit_set_one [OF b] by (cases "unat x div 24 = j") (simp_all only: nth_list_update_eq nth_list_update_neq, auto)
    moreover have "us[unat x div 24 := True] ! j \<longleftrightarrow> us ! j \<or> unat x div 24 = j" if "j < 8" for j
      using that IH(3) by (cases "unat x div 24 = j") simp_all
    ultimately show ?thesis
      using IH(2-5) by auto
  next
    case False
    then have "syscall_step (ms, us) x = (ms, us)" by (simp add: syscall_step_def u Let_def)
    then have "foldl syscall_step (m0, replicate 8 False) (ids @ [x]) = (ms, us)"
      by (simp only: foldl_append IH(1) foldl.simps)
    then show ?thesis using IH False by auto
  qed
qed

text \<open>Removing the unused masks from the top keeps the used ones in order.\<close>

lemma remove_unused:
  assumes "n \<le> length xs"
  shows "foldl (\<lambda>xs i. if \<not> P i then remove_nth i xs else xs) xs (rev [0..<n])
     = map ((!) xs) (filter P [0..<n]) @ drop n xs"
  using assms
proof (induction n arbitrary: xs)
  case (Suc n)
  show ?case
  proof (cases "P n")
    case True
    then show ?thesis using Suc.IH [of xs] Suc.prems by (simp add: Cons_nth_drop_Suc [symmetric])
  next
    case False
    have "foldl (\<lambda>xs i. if \<not> P i then remove_nth i xs else xs) (remove_nth n xs) (rev [0..<n])
        = map ((!) (remove_nth n xs)) (filter P [0..<n]) @ drop n (remove_nth n xs)"
      using Suc by (intro Suc.IH) (simp add: remove_nth_def)
    moreover have "map ((!) (remove_nth n xs)) (filter P [0..<n]) = map ((!) xs) (filter P [0..<n])"
      using Suc.prems by (auto simp: remove_nth_def nth_append)
    ultimately show ?thesis using False Suc.prems by (simp add: remove_nth_def)
  qed
qed simp

lemma encode_syscalls_eq:
  "\<exists>ms. encode_syscalls sc = map ((!) ms) (filter (\<lambda>j. \<exists>x\<in>snd ` set sc. unat x div 24 = j) [0..<8])
     \<and> (\<forall>j<8. \<forall>i. bit (ms ! j) i \<longleftrightarrow>
          i < 4 \<or> (29 \<le> i \<and> i < 32 \<and> bit j (i - 29)) \<or> (\<exists>x\<in>snd ` set sc. unat x div 24 = j \<and> i = unat x mod 24 + 5))"
proof -
  define m0 where "m0 = map (\<lambda>(idx, m). m OR push_bit 29 (word_of_nat idx AND 0x7)) (enumerate 0 (replicate 8 (0xF :: u32)))"
  have len: "length m0 = 8" by (simp add: m0_def)
  have m0: "bit (m0 ! j) i \<longleftrightarrow> i < 4 \<or> (29 \<le> i \<and> i < 32 \<and> bit j (i - 29))" if "j < 8" for j i
  proof -
    have "k < 3" if "bit j k" for k
    proof (rule ccontr)
      assume "\<not> k < 3"
      then have "(2 :: nat) ^ 3 \<le> 2 ^ k" by (intro power_increasing) simp_all
      then have "j div 2 ^ k = 0" using \<open>j < 8\<close> by simp
      with \<open>bit j k\<close> show False by (simp add: bit_iff_odd)
    qed
    moreover have "m0 ! j = mask 4 OR push_bit 29 (word_of_nat j AND mask 3)"
      using that by (simp add: m0_def nth_enumerate_eq low_masks del: mask_numeral)
    ultimately show ?thesis by (auto simp: bit_simps)
  qed
  obtain ms us where loop: "foldl syscall_step (m0, replicate 8 False) (map snd sc) = (ms, us)" "length ms = 8"
    "\<forall>j<8. us ! j \<longleftrightarrow> (\<exists>x\<in>set (map snd sc). unat x div 24 = j)"
    "\<forall>j<8. \<forall>i. bit (ms ! j) i \<longleftrightarrow> bit (m0 ! j) i \<or> (\<exists>x\<in>set (map snd sc). unat x div 24 = j \<and> i = unat x mod 24 + 5)"
    using syscall_loop [OF len, of "map snd sc"] by blast
  have "encode_syscalls sc = map ((!) ms) (filter ((!) us) [0..<8])"
    using remove_unused [of 8 ms "(!) us"] loop(1,2)
    unfolding encode_syscalls_def syscall_step_def m0_def [symmetric] Let_def by simp
  moreover have "filter ((!) us) [0..<8] = filter (\<lambda>j. \<exists>x\<in>snd ` set sc. unat x div 24 = j) [0..<8]"
    using loop(3) by (intro filter_cong) auto
  ultimately show ?thesis using loop(4) m0 by (intro exI [of _ ms]) simp
qed

text \<open>Reading one mask, and all of them: the calls below 192, in order.\<close>

lemma decode_syscall_mask:
  assumes "j < 8" and bits: "\<And>i. bit w i \<longleftrightarrow> i < 4 \<or> (29 \<le> i \<and> i < 32 \<and> bit j (i - 29)) \<or> (\<exists>k<24. P k \<and> i = k + 5)"
  shows "decode_descriptors (w # ws) = map (\<lambda>k. GrantSyscall (24 * j + k)) (filter P [0..<24]) @ decode_descriptors ws"
proof -
  have "trailing_ones w = 4" by (rule trailing_onesI) (auto simp: bits)
  moreover have "bit_field 29 3 w = word_of_nat j"
  proof (rule bit_eqI)
    fix k
    have "take_bit 3 j = j" using assms(1) by (simp add: take_bit_eq_mod)
    then have "bit j k \<longleftrightarrow> k < 3 \<and> bit j k" by (metis bit_take_bit_iff)
    then show "bit (bit_field 29 3 w) k \<longleftrightarrow> bit (word_of_nat j :: u32) k"
      by (auto simp: bit_field_def bit_simps bits)
  qed
  then have "unat (bit_field 29 3 w) = j" using assms(1) by (simp add: unat_of_nat)
  moreover have "filter (\<lambda>i. bit w (5 + i)) [0..<24] = filter P [0..<24]"
    by (rule filter_cong) (auto simp: bits)
  ultimately show ?thesis by (simp add: Let_def)
qed

lemma decode_syscall_masks:
  assumes "\<And>j. j \<in> set js \<Longrightarrow> j < 8 \<and> (\<forall>i. bit (ms ! j) i \<longleftrightarrow>
      i < 4 \<or> (29 \<le> i \<and> i < 32 \<and> bit j (i - 29)) \<or> (\<exists>k<24. P j k \<and> i = k + 5))"
  shows "decode_descriptors (map ((!) ms) js @ ws)
    = concat (map (\<lambda>j. map (\<lambda>k. GrantSyscall (24 * j + k)) (filter (P j) [0..<24])) js) @ decode_descriptors ws"
  using assms
proof (induction js)
  case (Cons j js)
  then show ?case
    using decode_syscall_mask [of j "ms ! j" "P j" "map ((!) ms) js @ ws"] by simp
qed simp

lemma concat_unused:
  "(\<And>x. x \<in> set xs \<Longrightarrow> \<not> P x \<Longrightarrow> f x = []) \<Longrightarrow> concat (map f (filter P xs)) = concat (map f xs)"
  by (induction xs) auto

lemma upt_blocks: "[0..<m * n] = concat (map (\<lambda>j. map (\<lambda>k. m * j + k) [0..<m]) [0..<n])"
proof (induction n)
  case (Suc n)
  have "[0..<m * Suc n] = [0..<m * n] @ [m * n..<m * n + m]"
    using upt_add_eq_append [of 0 "m * n" m] by (simp add: add.commute)
  moreover have "[m * n..<m * n + m] = map (\<lambda>k. m * n + k) [0..<m]"
    by (simp add: map_add_upt add.commute)
  ultimately show ?case using Suc by simp
qed simp

lemma decode_syscalls:
  "decode_descriptors (encode (Syscalls sc) @ ws) = grants (Syscalls sc) @ decode_descriptors ws"
proof -
  let ?ids = "snd ` set sc" and ?used = "\<lambda>j. \<exists>x\<in>snd ` set sc. unat x div 24 = j"
  let ?P = "\<lambda>j k. \<exists>x\<in>?ids. unat x = 24 * j + k"
  let ?f = "\<lambda>j. map (\<lambda>k. GrantSyscall (24 * j + k)) (filter (?P j) [0..<24])"
  obtain ms where ms: "encode_syscalls sc = map ((!) ms) (filter ?used [0..<8])"
    "\<forall>j<8. \<forall>i. bit (ms ! j) i \<longleftrightarrow> i < 4 \<or> (29 \<le> i \<and> i < 32 \<and> bit j (i - 29))
        \<or> (\<exists>x\<in>?ids. unat x div 24 = j \<and> i = unat x mod 24 + 5)"
    using encode_syscalls_eq [of sc] by blast
  have split: "(\<exists>x\<in>?ids. unat x div 24 = j \<and> i = unat x mod 24 + 5) \<longleftrightarrow> (\<exists>k<24. ?P j k \<and> i = k + 5)" for i j
  proof
    assume "\<exists>x\<in>?ids. unat x div 24 = j \<and> i = unat x mod 24 + 5"
    then obtain x where x: "x \<in> ?ids" "unat x div 24 = j" "i = unat x mod 24 + 5" by blast
    then have "unat x = 24 * j + unat x mod 24" by (metis mult_div_mod_eq)
    moreover have "unat x mod 24 < 24" by simp
    ultimately show "\<exists>k<24. ?P j k \<and> i = k + 5" using x by blast
  next
    assume "\<exists>k<24. ?P j k \<and> i = k + 5"
    then obtain k x where "k < 24" "x \<in> ?ids" "unat x = 24 * j + k" "i = k + 5" by blast
    then show "\<exists>x\<in>?ids. unat x div 24 = j \<and> i = unat x mod 24 + 5" by (intro bexI [of _ x]) simp_all
  qed
  have "decode_descriptors (encode (Syscalls sc) @ ws)
      = concat (map ?f (filter ?used [0..<8])) @ decode_descriptors ws"
    unfolding encode.simps ms(1)
    by (rule decode_syscall_masks) (use ms(2) in \<open>simp only: split, simp\<close>)
  also have "concat (map ?f (filter ?used [0..<8])) = concat (map ?f [0..<8])"
  proof (rule concat_unused)
    fix j :: nat assume "\<not> ?used j"
    then have "\<not> ?P j k" if "k < 24" for k using that by fastforce
    then show "?f j = []" by (simp add: filter_empty_conv)
  qed
  also have "\<dots> = map GrantSyscall (filter (\<lambda>i. \<exists>x\<in>?ids. unat x = i) (concat (map (\<lambda>j. map (\<lambda>k. 24 * j + k) [0..<24]) [0..<8])))"
    by (simp add: filter_concat map_concat filter_map comp_def del: upt_Suc)
  also have "\<dots> = map GrantSyscall (filter (\<lambda>i. \<exists>x\<in>?ids. unat x = i) [0..<192])"
    using upt_blocks [of 24 8] by (simp del: upt_Suc)
  also have "filter (\<lambda>i. \<exists>x\<in>?ids. unat x = i) [0..<192] = filter (\<lambda>i. word_of_nat i \<in> ?ids) [0..<192]"
  proof (rule filter_cong)
    fix i :: nat assume "i \<in> set [0..<192]"
    then have i: "unat (word_of_nat i :: u64) = i" by (simp add: unat_of_nat)
    then have "unat x = i \<longleftrightarrow> x = word_of_nat i" for x :: u64 by (auto intro: unsigned_word_eqI)
    then show "(\<exists>x\<in>?ids. unat x = i) \<longleftrightarrow> word_of_nat i \<in> ?ids" by metis
  qed simp
  finally show ?thesis by simp
qed

section \<open>All capabilities\<close>

lemma decode_encode:
  "decode_descriptors (encode c @ ws) = grants c @ decode_descriptors ws"
proof (cases c)
  case (Syscalls sc)
  then show ?thesis by (simp only: decode_syscalls)
next
  case (MapRegion rs)
  then show ?thesis by (simp only: decode_regions)
next
  case (MapRange a n ro io)
  then show ?thesis by (simp only: decode_map)
qed (simp_all only: decode_flags decode_page decode_irqs decode_numbers decode_debug)

lemma decode_capabilities:
  "decode_descriptors (concat (map encode cs)) = concat (map grants cs)"
  by (induction cs) (simp_all only: list.map concat.simps decode_encode decode_descriptors.simps)

text \<open>The bytes of the block are the descriptors one after the other, and are read as such.\<close>

lemma foldl_append_bytes: "foldl (\<lambda>data x. data @ f x) data xs = data @ concat (map f xs)"
  by (induction xs arbitrary: data) simp_all

lemma build_kernel_capabilities_eq:
  "build_kernel_capabilities cs = enc_table le32 (concat (map encode cs))"
proof -
  have "foldl (\<lambda>data cap. foldl (\<lambda>data desc. data @ le32 desc) data (encode cap)) data cs
      = data @ enc_table le32 (concat (map encode cs))" for data
    by (induction cs arbitrary: data) (simp_all add: foldl_append_bytes enc_table_def)
  from this [of "[]"] show ?thesis by (simp add: build_kernel_capabilities_def)
qed

definition read_capabilities :: "bytes \<Rightarrow> kernel_grant list" where
  "read_capabilities bs = decode_descriptors (dec_table (\<lambda>bs. rd32 bs 0) 4 (length bs div 4) bs)"

lemma read_built_capabilities: "read_capabilities (build_kernel_capabilities cs) = concat (map grants cs)"
proof -
  let ?ws = "concat (map encode cs)"
  have "length (enc_table le32 ?ws) div 4 = length ?ws"
    using u32_word.enc_table_length [of ?ws] by simp
  then show ?thesis
    using u32_word.dec_enc_table [of ?ws "[]"]
    by (simp add: read_capabilities_def build_kernel_capabilities_eq decode_capabilities)
qed

end
