(* ===== verification/Npdm.thy ===== *)
theory Npdm
  imports Npdm_Capability
begin

text \<open>
  NPDM, the description of a process: the section headers of \<^verbatim>\<open>src/raw/npdm.rs\<close>, the builder of
  \<^verbatim>\<open>src/write/npdm.rs\<close> (the kernel capabilities are in \<open>Npdm_Capability\<close>) and the reader of
  \<^verbatim>\<open>src/read/npdm.rs\<close>.
\<close>

section \<open>The section headers\<close>

definition META_MAGIC :: u32 where "META_MAGIC = 0x4154454d"
definition ACID_MAGIC :: u32 where "ACID_MAGIC = 0x44494341"
definition ACI0_MAGIC :: u32 where "ACI0_MAGIC = 0x30494341"

record npdm_header =
  pm_magic :: u32
  pm_signature_key_generation :: u32
  pm_reserved_08 :: u32
  pm_flags :: u8
  pm_reserved_0d :: u8
  pm_main_thread_priority :: u8
  pm_main_thread_core_number :: u8
  pm_reserved_10 :: u32
  pm_system_resource_size :: u32
  pm_version :: u32
  pm_main_thread_stack_size :: u32
  pm_name :: bytes
  pm_product_code :: bytes
  pm_reserved_40 :: bytes
  pm_aci_offset :: u32
  pm_aci_size :: u32
  pm_acid_offset :: u32
  pm_acid_size :: u32

definition enc_npdm_header :: "npdm_header \<Rightarrow> bytes" where
  "enc_npdm_header h =
     le32 (pm_magic h) @ le32 (pm_signature_key_generation h) @ le32 (pm_reserved_08 h)
     @ [pm_flags h, pm_reserved_0d h, pm_main_thread_priority h, pm_main_thread_core_number h]
     @ le32 (pm_reserved_10 h) @ le32 (pm_system_resource_size h) @ le32 (pm_version h)
     @ le32 (pm_main_thread_stack_size h) @ pm_name h @ pm_product_code h @ pm_reserved_40 h
     @ le32 (pm_aci_offset h) @ le32 (pm_aci_size h) @ le32 (pm_acid_offset h) @ le32 (pm_acid_size h)"

definition dec_npdm_header :: "bytes \<Rightarrow> npdm_header" where
  "dec_npdm_header bs =
     \<lparr>pm_magic = rd32 bs 0, pm_signature_key_generation = rd32 bs 4, pm_reserved_08 = rd32 bs 8,
      pm_flags = rd8 bs 0xC, pm_reserved_0d = rd8 bs 0xD, pm_main_thread_priority = rd8 bs 0xE,
      pm_main_thread_core_number = rd8 bs 0xF, pm_reserved_10 = rd32 bs 0x10,
      pm_system_resource_size = rd32 bs 0x14, pm_version = rd32 bs 0x18,
      pm_main_thread_stack_size = rd32 bs 0x1C, pm_name = sub_bytes bs 0x20 0x10,
      pm_product_code = sub_bytes bs 0x30 0x10, pm_reserved_40 = sub_bytes bs 0x40 0x30,
      pm_aci_offset = rd32 bs 0x70, pm_aci_size = rd32 bs 0x74, pm_acid_offset = rd32 bs 0x78,
      pm_acid_size = rd32 bs 0x7C\<rparr>"

definition npdm_header_wf :: "npdm_header \<Rightarrow> bool" where
  "npdm_header_wf h \<longleftrightarrow>
     length (pm_name h) = 0x10 \<and> length (pm_product_code h) = 0x10 \<and> length (pm_reserved_40 h) = 0x30"

interpretation npdm_header: layout enc_npdm_header dec_npdm_header "0x80" npdm_header_wf
  by unfold_locales
    (simp_all add: enc_npdm_header_def dec_npdm_header_def npdm_header_wf_def field_simps_le field_join length_sub_bytes)

record acid_header =
  ad_signature :: bytes
  ad_public_key :: bytes
  ad_magic :: u32
  ad_size :: u32
  ad_version :: u8
  ad_reserved_209 :: bytes
  ad_flags :: u32
  ad_program_id_min :: u64
  ad_program_id_max :: u64
  ad_fac_offset :: u32
  ad_fac_size :: u32
  ad_sac_offset :: u32
  ad_sac_size :: u32
  ad_kc_offset :: u32
  ad_kc_size :: u32
  ad_reserved_238 :: u64

definition enc_acid_header :: "acid_header \<Rightarrow> bytes" where
  "enc_acid_header h =
     ad_signature h @ ad_public_key h @ le32 (ad_magic h) @ le32 (ad_size h) @ [ad_version h]
     @ ad_reserved_209 h @ le32 (ad_flags h) @ le64 (ad_program_id_min h) @ le64 (ad_program_id_max h)
     @ le32 (ad_fac_offset h) @ le32 (ad_fac_size h) @ le32 (ad_sac_offset h) @ le32 (ad_sac_size h)
     @ le32 (ad_kc_offset h) @ le32 (ad_kc_size h) @ le64 (ad_reserved_238 h)"

definition dec_acid_header :: "bytes \<Rightarrow> acid_header" where
  "dec_acid_header bs =
     \<lparr>ad_signature = sub_bytes bs 0 0x100, ad_public_key = sub_bytes bs 0x100 0x100,
      ad_magic = rd32 bs 0x200, ad_size = rd32 bs 0x204, ad_version = rd8 bs 0x208,
      ad_reserved_209 = sub_bytes bs 0x209 3, ad_flags = rd32 bs 0x20C,
      ad_program_id_min = rd64 bs 0x210, ad_program_id_max = rd64 bs 0x218,
      ad_fac_offset = rd32 bs 0x220, ad_fac_size = rd32 bs 0x224, ad_sac_offset = rd32 bs 0x228,
      ad_sac_size = rd32 bs 0x22C, ad_kc_offset = rd32 bs 0x230, ad_kc_size = rd32 bs 0x234,
      ad_reserved_238 = rd64 bs 0x238\<rparr>"

definition acid_header_wf :: "acid_header \<Rightarrow> bool" where
  "acid_header_wf h \<longleftrightarrow>
     length (ad_signature h) = 0x100 \<and> length (ad_public_key h) = 0x100 \<and> length (ad_reserved_209 h) = 3"

interpretation acid_header: layout enc_acid_header dec_acid_header "0x240" acid_header_wf
  by unfold_locales
    (simp_all add: enc_acid_header_def dec_acid_header_def acid_header_wf_def field_simps_le field_join length_sub_bytes)

record aci0_header =
  ai_magic :: u32
  ai_reserved_04 :: bytes
  ai_program_id :: u64
  ai_reserved_18 :: u64
  ai_fac_offset :: u32
  ai_fac_size :: u32
  ai_sac_offset :: u32
  ai_sac_size :: u32
  ai_kc_offset :: u32
  ai_kc_size :: u32
  ai_reserved_38 :: u64

definition enc_aci0_header :: "aci0_header \<Rightarrow> bytes" where
  "enc_aci0_header h =
     le32 (ai_magic h) @ ai_reserved_04 h @ le64 (ai_program_id h) @ le64 (ai_reserved_18 h)
     @ le32 (ai_fac_offset h) @ le32 (ai_fac_size h) @ le32 (ai_sac_offset h) @ le32 (ai_sac_size h)
     @ le32 (ai_kc_offset h) @ le32 (ai_kc_size h) @ le64 (ai_reserved_38 h)"

definition dec_aci0_header :: "bytes \<Rightarrow> aci0_header" where
  "dec_aci0_header bs =
     \<lparr>ai_magic = rd32 bs 0, ai_reserved_04 = sub_bytes bs 4 12, ai_program_id = rd64 bs 0x10,
      ai_reserved_18 = rd64 bs 0x18, ai_fac_offset = rd32 bs 0x20, ai_fac_size = rd32 bs 0x24,
      ai_sac_offset = rd32 bs 0x28, ai_sac_size = rd32 bs 0x2C, ai_kc_offset = rd32 bs 0x30,
      ai_kc_size = rd32 bs 0x34, ai_reserved_38 = rd64 bs 0x38\<rparr>"

interpretation aci0_header: layout enc_aci0_header dec_aci0_header "0x40" "\<lambda>h. length (ai_reserved_04 h) = 12"
  by unfold_locales
    (simp_all add: enc_aci0_header_def dec_aci0_header_def field_simps_le field_join length_sub_bytes)

section \<open>The permissions\<close>

record save_data_owner_id =
  sd_accessibility :: u8
  sd_id :: u64

record filesystem_access =
  fa_permissions :: u64
  fa_content_owner_ids :: "u64 list"
  fa_save_data_owner_ids :: "save_data_owner_id list"
  fa_content_owner_id_min :: u64
  fa_content_owner_id_max :: u64
  fa_save_data_owner_id_min :: u64
  fa_save_data_owner_id_max :: u64

definition filesystem_access_default :: filesystem_access where
  "filesystem_access_default =
     \<lparr>fa_permissions = 0xFFFFFFFFFFFFFFFF, fa_content_owner_ids = [], fa_save_data_owner_ids = [],
      fa_content_owner_id_min = 0, fa_content_owner_id_max = 0xFFFFFFFFFFFFFFFF,
      fa_save_data_owner_id_min = 0, fa_save_data_owner_id_max = 0xFFFFFFFFFFFFFFFF\<rparr>"

text \<open>\<^verbatim>\<open>ServiceAccess\<close>: the services with their is-host flags.\<close>

type_synonym service_access = "(bytes \<times> bool) list"

record aci_data =
  ac_program_id :: u64
  ac_filesystem_access :: filesystem_access
  ac_service_access :: service_access
  ac_kernel_capabilities :: "kernel_capability list"

definition aci_data_default :: aci_data where
  "aci_data_default =
     \<lparr>ac_program_id = 0, ac_filesystem_access = filesystem_access_default, ac_service_access = [],
      ac_kernel_capabilities = []\<rparr>"

record acid_data =
  ap_program_id_min :: u64
  ap_program_id_max :: u64
  ap_filesystem_access :: filesystem_access
  ap_service_access :: service_access
  ap_kernel_capabilities :: "kernel_capability list"
  ap_flags :: u32

definition acid_data_default :: acid_data where
  "acid_data_default =
     \<lparr>ap_program_id_min = 0, ap_program_id_max = 0xFFFFFFFFFFFFFFFF,
      ap_filesystem_access = filesystem_access_default, ap_service_access = [],
      ap_kernel_capabilities = [], ap_flags = 0\<rparr>"

record npdm_metadata =
  nm_name :: bytes
  nm_title_id :: u64
  nm_version :: u32
  nm_main_thread_priority :: u8
  nm_default_cpu_id :: u8
  nm_main_thread_stack_size :: u32
  nm_flags :: u8

record npdm_builder =
  np_metadata :: npdm_metadata
  np_aci :: "aci_data option"
  np_acid :: "acid_data option"

definition npdm_new :: "npdm_metadata \<Rightarrow> npdm_builder" where
  "npdm_new m = \<lparr>np_metadata = m, np_aci = None, np_acid = None\<rparr>"
definition npdm_with_aci :: "aci_data \<Rightarrow> npdm_builder \<Rightarrow> npdm_builder" where
  "npdm_with_aci a b = b\<lparr>np_aci := Some a\<rparr>"
definition npdm_with_acid :: "acid_data \<Rightarrow> npdm_builder \<Rightarrow> npdm_builder" where
  "npdm_with_acid a b = b\<lparr>np_acid := Some a\<rparr>"

section \<open>The permission blocks\<close>

text \<open>\<^verbatim>\<open>(count + 3) & !3\<close>.\<close>

definition round_up_4 :: "nat \<Rightarrow> nat" where
  "round_up_4 count = (count + 3) div 4 * 4"

definition build_filesystem_access_header :: "filesystem_access \<Rightarrow> (bytes, 'e) result" where
  "build_filesystem_access_header fs =
     (let coi_ids = fa_content_owner_ids fs; sdoi_ids = fa_save_data_owner_ids fs;
          data = le32 1 @ le64 (fa_permissions fs);
          coi_size = (if coi_ids = [] then 0 else (4 + length coi_ids * 8) mod 2 ^ 32);
          sdoi_size =
            (if sdoi_ids = [] then 0
             else (4 + round_up_4 (length sdoi_ids) + length sdoi_ids * 8) mod 2 ^ 32);
          coi_offset = 0x1C;
          data = data @ le32 (word_of_nat coi_offset) @ le32 (word_of_nat coi_size)
      in rbind (u32_add coi_offset coi_size) (\<lambda>sdoi_offset.
         let data = data @ le32 (word_of_nat sdoi_offset) @ le32 (word_of_nat sdoi_size);
             data =
               (if coi_ids \<noteq> []
                then foldl (\<lambda>data i. data @ le64 i) (data @ le32 (word_of_nat (length coi_ids))) coi_ids
                else data);
             data =
               (if sdoi_ids \<noteq> [] then
                  let data = data @ le32 (word_of_nat (length sdoi_ids));
                      data = foldl (\<lambda>data e. data @ [sd_accessibility e]) data sdoi_ids;
                      padding = round_up_4 (length sdoi_ids) - length sdoi_ids;
                      data = data @ replicate padding 0
                  in foldl (\<lambda>data e. data @ le64 (sd_id e)) data sdoi_ids
                else data)
         in Ok data))"

definition build_filesystem_access_control :: "filesystem_access \<Rightarrow> bytes" where
  "build_filesystem_access_control fs =
     [1, 0, 0, 0] @ le64 (fa_permissions fs)
     @ le64 (fa_content_owner_id_min fs) @ le64 (fa_content_owner_id_max fs)
     @ le64 (fa_save_data_owner_id_min fs) @ le64 (fa_save_data_owner_id_max fs)"

definition build_service_access_control :: "service_access \<Rightarrow> bytes" where
  "build_service_access_control sac =
     foldl (\<lambda>data (service_name, is_host).
       let len = min (length service_name) 8 in
       if len = 0 then data
       else
         let control = word_of_nat (len - 1) :: u8;
             control = (if is_host then control OR 0x80 else control)
         in (data @ [control]) @ take len service_name) [] sac"

definition build_aci_sections :: "aci_data \<Rightarrow> (bytes \<times> bytes \<times> bytes, 'e) result" where
  "build_aci_sections aci =
     rbind (build_filesystem_access_header (ac_filesystem_access aci)) (\<lambda>fac_data.
       Ok (fac_data, build_service_access_control (ac_service_access aci),
           build_kernel_capabilities (ac_kernel_capabilities aci)))"

definition build_acid_sections :: "acid_data \<Rightarrow> bytes \<times> bytes \<times> bytes" where
  "build_acid_sections acid =
     (build_filesystem_access_control (ap_filesystem_access acid),
      build_service_access_control (ap_service_access acid),
      build_kernel_capabilities (ap_kernel_capabilities acid))"

section \<open>The builder\<close>

text \<open>\<^verbatim>\<open>(value + 0xF) & !0xF\<close> on a \<^verbatim>\<open>u32\<close>.\<close>

definition align_up_16 :: "nat \<Rightarrow> (nat, 'e) result" where
  "align_up_16 v = rbind (u32_add v 0xF) (\<lambda>s. Ok (s div 0x10 * 0x10))"

text \<open>The offsets of the service and capability blocks of a section, and the section's size.\<close>

definition npdm_section_layout :: "nat \<Rightarrow> bytes \<Rightarrow> bytes \<Rightarrow> bytes \<Rightarrow> (nat \<times> nat \<times> nat, 'e) result" where
  "npdm_section_layout fac_offset fac_data sac_data kc_data =
     rbind (u32_add fac_offset (length fac_data mod 2 ^ 32)) (\<lambda>fac_end.
     rbind (align_up_16 fac_end) (\<lambda>sac_offset.
     rbind (u32_add sac_offset (length sac_data mod 2 ^ 32)) (\<lambda>sac_end.
     rbind (align_up_16 sac_end) (\<lambda>kc_offset.
     rbind (u32_add kc_offset (length kc_data mod 2 ^ 32)) (\<lambda>section_size.
       Ok (sac_offset, kc_offset, section_size))))))"

text \<open>A section's header and its three blocks, written into the image.\<close>

definition npdm_write_section ::
  "bytes \<Rightarrow> nat \<Rightarrow> bytes \<Rightarrow> nat \<times> bytes \<Rightarrow> nat \<times> bytes \<Rightarrow> nat \<times> bytes \<Rightarrow> (bytes, 'e) result" where
  "npdm_write_section npdm start header fac sac kc =
     rbind (copy_at npdm start header) (\<lambda>npdm.
     rbind (copy_at npdm (start + fst fac) (snd fac)) (\<lambda>npdm.
     rbind (copy_at npdm (start + fst sac) (snd sac)) (\<lambda>npdm.
       copy_at npdm (start + fst kc) (snd kc))))"

definition npdm_name_field :: "bytes \<Rightarrow> bytes" where
  "npdm_name_field n =
     (let copy_len = min (length n) (0x10 - 1) in take copy_len n @ drop copy_len (zeros 0x10))"

definition npdm_build :: "npdm_builder \<Rightarrow> (bytes, 'e) result" where
  "npdm_build b =
     (let m = np_metadata b;
          aci = (case np_aci b of Some a \<Rightarrow> a | None \<Rightarrow> aci_data_default\<lparr>ac_program_id := nm_title_id m\<rparr>);
          acid = (case np_acid b of Some a \<Rightarrow> a | None \<Rightarrow> acid_data_default)
      in rbind (build_aci_sections aci) (\<lambda>(fac_data, sac_data, kc_data).
         let (acid_fac_data, acid_sac_data, acid_kc_data) = build_acid_sections acid;
             aci0_fac_offset = 0x40; acid_fac_offset = 0x240
         in rbind (npdm_section_layout aci0_fac_offset fac_data sac_data kc_data)
              (\<lambda>(aci0_sac_offset, aci0_kc_offset, aci0_size).
            rbind (npdm_section_layout acid_fac_offset acid_fac_data acid_sac_data acid_kc_data)
              (\<lambda>(acid_sac_offset, acid_kc_offset, acid_size).
            let acid_offset = 0x80 in
            rbind (u32_add acid_offset acid_size) (\<lambda>acid_end.
            rbind (align_up_16 acid_end) (\<lambda>aci0_offset.
            rbind (usub acid_size 0x100) (\<lambda>signed_size.
            let meta_header =
                  \<lparr>pm_magic = META_MAGIC, pm_signature_key_generation = 0, pm_reserved_08 = 0,
                   pm_flags = nm_flags m, pm_reserved_0d = 0,
                   pm_main_thread_priority = nm_main_thread_priority m,
                   pm_main_thread_core_number = nm_default_cpu_id m, pm_reserved_10 = 0,
                   pm_system_resource_size = 0, pm_version = nm_version m,
                   pm_main_thread_stack_size = nm_main_thread_stack_size m,
                   pm_name = npdm_name_field (nm_name m), pm_product_code = zeros 0x10,
                   pm_reserved_40 = zeros 0x30, pm_aci_offset = word_of_nat aci0_offset,
                   pm_aci_size = word_of_nat aci0_size, pm_acid_offset = word_of_nat acid_offset,
                   pm_acid_size = word_of_nat acid_size\<rparr>;
                acid_header =
                  \<lparr>ad_signature = zeros 0x100, ad_public_key = zeros 0x100, ad_magic = ACID_MAGIC,
                   ad_size = word_of_nat signed_size, ad_version = 0, ad_reserved_209 = zeros 3,
                   ad_flags = ap_flags acid, ad_program_id_min = ap_program_id_min acid,
                   ad_program_id_max = ap_program_id_max acid,
                   ad_fac_offset = word_of_nat acid_fac_offset,
                   ad_fac_size = word_of_nat (length acid_fac_data),
                   ad_sac_offset = word_of_nat acid_sac_offset,
                   ad_sac_size = word_of_nat (length acid_sac_data),
                   ad_kc_offset = word_of_nat acid_kc_offset,
                   ad_kc_size = word_of_nat (length acid_kc_data), ad_reserved_238 = 0\<rparr>;
                aci0_header =
                  \<lparr>ai_magic = ACI0_MAGIC, ai_reserved_04 = zeros 12, ai_program_id = ac_program_id aci,
                   ai_reserved_18 = 0, ai_fac_offset = word_of_nat aci0_fac_offset,
                   ai_fac_size = word_of_nat (length fac_data),
                   ai_sac_offset = word_of_nat aci0_sac_offset,
                   ai_sac_size = word_of_nat (length sac_data),
                   ai_kc_offset = word_of_nat aci0_kc_offset,
                   ai_kc_size = word_of_nat (length kc_data), ai_reserved_38 = 0\<rparr>;
                npdm = zeros (aci0_offset + aci0_size)
            in rbind (copy_at npdm 0 (enc_npdm_header meta_header)) (\<lambda>npdm.
               rbind (npdm_write_section npdm acid_offset (enc_acid_header acid_header)
                        (acid_fac_offset, acid_fac_data) (acid_sac_offset, acid_sac_data)
                        (acid_kc_offset, acid_kc_data)) (\<lambda>npdm.
                 npdm_write_section npdm aci0_offset (enc_aci0_header aci0_header)
                   (aci0_fac_offset, fac_data) (aci0_sac_offset, sac_data) (aci0_kc_offset, kc_data))))))))))"

section \<open>The reader\<close>

datatype npdm_parse_error =
    Npdm_BufferTooSmall (required: nat) (available: nat)
  | Npdm_InvalidMetaMagic (found: u32)
  | Npdm_InvalidAcidMagic (found: u32)
  | Npdm_InvalidAci0Magic (found: u32)
  | Npdm_InvalidAcidSize (found_size: nat)
  | Npdm_InvalidAci0Size (found_size: nat)
  | Npdm_Aci0InnerSectionOutOfBounds (inner_section: string) (inner_offset: nat) (inner_size: nat)
      (inner_end: nat) (buffer_size: nat)

record npdm =
  npdm_bytes :: bytes
  npdm_hdr :: npdm_header
  npdm_acid :: acid_header
  npdm_aci0 :: aci0_header

definition npdm_try_from_bytes :: "bytes \<Rightarrow> (npdm, npdm_parse_error) result" where
  "npdm_try_from_bytes bs =
     (if length bs < 0x80 then Err (Npdm_BufferTooSmall 0x80 (length bs))
      else
        rbind (ok_or (Npdm_BufferTooSmall 0x80 (length bs)) (ref_from_prefix dec_npdm_header 0x80 bs)) (\<lambda>(header, _).
        if pm_magic header \<noteq> META_MAGIC then Err (Npdm_InvalidMetaMagic (pm_magic header))
        else
          let acid_offset = unat (pm_acid_offset header); acid_size = unat (pm_acid_size header) in
          rbind (uadd acid_offset acid_size) (\<lambda>acid_end.
          if acid_end > length bs then Err (Npdm_BufferTooSmall acid_end (length bs))
          else if acid_size < 0x240 then Err (Npdm_InvalidAcidSize acid_size)
          else
            rbind (slice bs acid_offset (length bs)) (\<lambda>rest.
            rbind (ok_or (Npdm_BufferTooSmall (acid_offset + 0x240) (length bs)) (ref_from_prefix dec_acid_header 0x240 rest)) (\<lambda>(acid, _).
            if ad_magic acid \<noteq> ACID_MAGIC then Err (Npdm_InvalidAcidMagic (ad_magic acid))
            else
              let aci_offset = unat (pm_aci_offset header); aci_size = unat (pm_aci_size header) in
              rbind (uadd aci_offset aci_size) (\<lambda>aci_end.
              if aci_end > length bs then Err (Npdm_BufferTooSmall aci_end (length bs))
              else if aci_size < 0x40 then Err (Npdm_InvalidAci0Size aci_size)
              else
                rbind (slice bs aci_offset (length bs)) (\<lambda>rest.
                rbind (ok_or (Npdm_BufferTooSmall (aci_offset + 0x40) (length bs)) (ref_from_prefix dec_aci0_header 0x40 rest)) (\<lambda>(aci0, _).
                if ai_magic aci0 \<noteq> ACI0_MAGIC then Err (Npdm_InvalidAci0Magic (ai_magic aci0))
                else Ok \<lparr>npdm_bytes = bs, npdm_hdr = header, npdm_acid = acid, npdm_aci0 = aci0\<rparr>))))))))"

definition npdm_name :: "npdm \<Rightarrow> bytes" where
  "npdm_name n = cstr (pm_name (npdm_hdr n))"
definition npdm_main_thread_priority :: "npdm \<Rightarrow> u8" where
  "npdm_main_thread_priority n = pm_main_thread_priority (npdm_hdr n)"
definition npdm_main_thread_stack_size :: "npdm \<Rightarrow> u32" where
  "npdm_main_thread_stack_size n = pm_main_thread_stack_size (npdm_hdr n)"
definition npdm_program_id_range :: "npdm \<Rightarrow> u64 \<times> u64" where
  "npdm_program_id_range n = (ad_program_id_min (npdm_acid n), ad_program_id_max (npdm_acid n))"
definition npdm_program_id :: "npdm \<Rightarrow> u64" where
  "npdm_program_id n = ai_program_id (npdm_aci0 n)"

text \<open>The three accessors of the ACI0 blocks differ in the fields they read and the name in the error.\<close>

definition aci0_inner_data :: "npdm \<Rightarrow> string \<Rightarrow> u32 \<Rightarrow> u32 \<Rightarrow> (bytes, npdm_parse_error) result" where
  "aci0_inner_data n name offset sz =
     (let aci_offset = unat (pm_aci_offset (npdm_hdr n)); offset = unat offset; sz = unat sz in
      rbind (uadd aci_offset offset) (\<lambda>start.
      rbind (ok_or (Npdm_Aci0InnerSectionOutOfBounds name offset sz usize_max (length (npdm_bytes n)))
               (checked_add start sz)) (\<lambda>end_off.
        if end_off > length (npdm_bytes n)
        then Err (Npdm_Aci0InnerSectionOutOfBounds name offset sz end_off (length (npdm_bytes n)))
        else slice (npdm_bytes n) start end_off)))"

definition aci0_fac_data :: "npdm \<Rightarrow> (bytes, npdm_parse_error) result" where
  "aci0_fac_data n = aci0_inner_data n ''FAC'' (ai_fac_offset (npdm_aci0 n)) (ai_fac_size (npdm_aci0 n))"
definition aci0_sac_data :: "npdm \<Rightarrow> (bytes, npdm_parse_error) result" where
  "aci0_sac_data n = aci0_inner_data n ''SAC'' (ai_sac_offset (npdm_aci0 n)) (ai_sac_size (npdm_aci0 n))"
definition aci0_kc_data :: "npdm \<Rightarrow> (bytes, npdm_parse_error) result" where
  "aci0_kc_data n = aci0_inner_data n ''KC'' (ai_kc_offset (npdm_aci0 n)) (ai_kc_size (npdm_aci0 n))"

end
