(* ===== verification/Npdm_Access.thy ===== *)
theory Npdm_Access
  imports Npdm
begin

text \<open>
  The filesystem and service permissions of an NPDM as bytes.  The readings below are those the
  comments of the two builders in \<^verbatim>\<open>src/write/npdm.rs\<close> give: the offsets and sizes in the access
  header lead to the two lists of owner ids, and the service list is a sequence of control bytes, each followed
  by a name of the length it announces.
\<close>

section \<open>The filesystem access header\<close>

definition coi_block :: "u64 list \<Rightarrow> bytes" where
  "coi_block ids = (if ids = [] then [] else le32 (word_of_nat (length ids)) @ enc_table le64 ids)"

definition sdoi_block :: "save_data_owner_id list \<Rightarrow> bytes" where
  "sdoi_block es =
     (if es = [] then []
      else le32 (word_of_nat (length es)) @ map sd_accessibility es
           @ zeros (round_up_4 (length es) - length es) @ enc_table le64 (map sd_id es))"

lemma round_up_4_ge: "n \<le> round_up_4 n"
  unfolding round_up_4_def by presburger

lemma length_coi_block: "length (coi_block ids) = (if ids = [] then 0 else 4 + length ids * 8)"
  using u64_word.enc_table_length [of ids] by (simp add: coi_block_def)

lemma length_sdoi_block:
  "length (sdoi_block es) = (if es = [] then 0 else 4 + round_up_4 (length es) + length es * 8)"
  using u64_word.enc_table_length [of "map sd_id es"] round_up_4_ge [of "length es"] by (simp add: sdoi_block_def)

definition access_header :: "filesystem_access \<Rightarrow> bytes" where
  "access_header fs =
     (let coi = coi_block (fa_content_owner_ids fs); sdoi = sdoi_block (fa_save_data_owner_ids fs)
      in le32 1 @ le64 (fa_permissions fs) @ le32 0x1C @ le32 (word_of_nat (length coi))
         @ le32 (word_of_nat (0x1C + length coi)) @ le32 (word_of_nat (length sdoi)) @ coi @ sdoi)"

lemma length_access_header:
  "length (access_header fs)
     = 0x1C + length (coi_block (fa_content_owner_ids fs)) + length (sdoi_block (fa_save_data_owner_ids fs))"
  by (simp add: access_header_def Let_def)

lemma build_filesystem_access_header_eq:
  assumes "length (access_header fs) < 2 ^ 32"
  shows "build_filesystem_access_header fs = Ok (access_header fs)"
proof -
  let ?c = "fa_content_owner_ids fs" and ?s = "fa_save_data_owner_ids fs"
  have l: "0x1C + length (coi_block ?c) + length (sdoi_block ?s) < 2 ^ 32"
    using assms by (simp only: length_access_header)
  have c: "(if ?c = [] then 0 else (4 + length ?c * 8) mod 2 ^ 32) = length (coi_block ?c)"
    and s: "(if ?s = [] then 0 else (4 + round_up_4 (length ?s) + length ?s * 8) mod 2 ^ 32) = length (sdoi_block ?s)"
    using l by (auto simp: length_coi_block length_sdoi_block split: if_splits)
  have u: "u32_add 0x1C (length (coi_block ?c)) = Ok (0x1C + length (coi_block ?c))"
    using l by (intro u32_add_ok) simp
  show ?thesis
    unfolding build_filesystem_access_header_def Let_def c s u
    by (simp add: access_header_def coi_block_def sdoi_block_def foldl_append_bytes enc_table_def comp_def
        zeros_def Let_def)
qed

text \<open>Reading it back.\<close>

definition read_content_owner_ids :: "bytes \<Rightarrow> u64 list" where
  "read_content_owner_ids bs =
     (let off = unat (rd32 bs 0xC) in
      if rd32 bs 0x10 = 0 then []
      else dec_table (\<lambda>bs. rd64 bs 0) 8 (unat (rd32 (drop off bs) 0)) (drop (off + 4) bs))"

definition read_save_data_owner_ids :: "bytes \<Rightarrow> (u8 \<times> u64) list" where
  "read_save_data_owner_ids bs =
     (let off = unat (rd32 bs 0x14); count = unat (rd32 (drop off bs) 0) in
      if rd32 bs 0x18 = 0 then []
      else zip (sub_bytes bs (off + 4) count)
               (dec_table (\<lambda>bs. rd64 bs 0) 8 count (drop (off + 4 + round_up_4 count) bs)))"

lemma word_of_nat_zero_iff: "n < 2 ^ 32 \<Longrightarrow> (word_of_nat n :: u32) = 0 \<longleftrightarrow> n = 0"
  using nat_dvd_not_less [of n "2 ^ 32"] by (auto simp: word_of_nat_eq_0_iff)

lemma access_header_fields:
  "rd64 (access_header fs) 4 = fa_permissions fs"
  "rd32 (access_header fs) 0xC = 0x1C"
  "rd32 (access_header fs) 0x10 = word_of_nat (length (coi_block (fa_content_owner_ids fs)))"
  "rd32 (access_header fs) 0x14 = word_of_nat (0x1C + length (coi_block (fa_content_owner_ids fs)))"
  "rd32 (access_header fs) 0x18 = word_of_nat (length (sdoi_block (fa_save_data_owner_ids fs)))"
  by (simp_all only: access_header_def Let_def) (simp_all add: field_simps_le del: of_nat_add)

lemma drop_access_header:
  "drop 0x1C (access_header fs) = coi_block (fa_content_owner_ids fs) @ sdoi_block (fa_save_data_owner_ids fs)"
  by (simp add: access_header_def Let_def)

lemma read_content_owner_ids_access_header:
  assumes "length (access_header fs) < 2 ^ 32"
  shows "read_content_owner_ids (access_header fs) = fa_content_owner_ids fs"
proof (cases "fa_content_owner_ids fs = []")
  case True
  then show ?thesis by (simp add: read_content_owner_ids_def access_header_fields coi_block_def)
next
  case False
  let ?ids = "fa_content_owner_ids fs"
  have l: "length (coi_block ?ids) < 2 ^ 32" "length ?ids < 2 ^ 32"
    using assms False by (simp_all add: length_access_header length_coi_block)
  have d: "drop 0x1C (access_header fs) = le32 (word_of_nat (length ?ids)) @ enc_table le64 ?ids @ sdoi_block (fa_save_data_owner_ids fs)"
    using False by (simp only: drop_access_header coi_block_def) simp
  have d4: "drop (0x1C + 4) (access_header fs) = enc_table le64 ?ids @ sdoi_block (fa_save_data_owner_ids fs)"
    by (simp only: drop_drop [of 4 "0x1C", symmetric] add.commute [of "0x1C" 4] d) simp
  have "rd32 (drop 0x1C (access_header fs)) 0 = word_of_nat (length ?ids)"
    by (simp only: d) (simp add: field_simps_le)
  moreover have "length (coi_block ?ids) \<noteq> 0" using False by (simp add: length_coi_block)
  ultimately show ?thesis
    using d4 l u64_word.dec_enc_table [of ?ids "sdoi_block (fa_save_data_owner_ids fs)"]
    by (simp add: read_content_owner_ids_def access_header_fields word_of_nat_zero_iff unat_u32_of_nat)
qed

lemma read_save_data_owner_ids_access_header:
  assumes "length (access_header fs) < 2 ^ 32"
  shows "read_save_data_owner_ids (access_header fs) = map (\<lambda>e. (sd_accessibility e, sd_id e)) (fa_save_data_owner_ids fs)"
proof (cases "fa_save_data_owner_ids fs = []")
  case True
  then show ?thesis by (simp add: read_save_data_owner_ids_def access_header_fields sdoi_block_def Let_def)
next
  case False
  let ?es = "fa_save_data_owner_ids fs" and ?c = "length (coi_block (fa_content_owner_ids fs))"
  let ?pad = "zeros (round_up_4 (length ?es) - length ?es)"
  have l: "0x1C + ?c < 2 ^ 32" "length (sdoi_block ?es) < 2 ^ 32" "length ?es < 2 ^ 32"
    using assms False by (simp_all add: length_access_header length_sdoi_block)
  have off: "unat (rd32 (access_header fs) 0x14) = 0x1C + ?c"
    unfolding access_header_fields using l(1) by (rule unat_u32_of_nat)
  have d: "drop (0x1C + ?c) (access_header fs)
      = le32 (word_of_nat (length ?es)) @ map sd_accessibility ?es @ ?pad @ enc_table le64 (map sd_id ?es)"
    using False
    by (simp only: drop_drop [of ?c "0x1C", symmetric] add.commute [of "0x1C" ?c] drop_access_header) (simp add: sdoi_block_def)
  have n: "unat (rd32 (drop (0x1C + ?c) (access_header fs)) 0) = length ?es"
    using l(3) by (simp only: d) (simp add: field_simps_le unat_u32_of_nat)
  have d4: "drop (0x1C + ?c + 4) (access_header fs) = map sd_accessibility ?es @ ?pad @ enc_table le64 (map sd_id ?es)"
    by (simp only: drop_drop [of 4 "0x1C + ?c", symmetric] add.commute [of "0x1C + ?c" 4] d) simp
  have acc: "sub_bytes (access_header fs) (0x1C + ?c + 4) (length ?es) = map sd_accessibility ?es"
    unfolding sub_bytes_def by (simp only: d4) simp
  have "drop (0x1C + ?c + 4 + round_up_4 (length ?es)) (access_header fs) = enc_table le64 (map sd_id ?es)"
    using round_up_4_ge [of "length ?es"]
    by (simp only: drop_drop [of "round_up_4 (length ?es)" "0x1C + ?c + 4", symmetric]
        add.commute [of "0x1C + ?c + 4" "round_up_4 (length ?es)"] d4) simp
  then have ids: "dec_table (\<lambda>bs. rd64 bs 0) 8 (length ?es) (drop (0x1C + ?c + 4 + round_up_4 (length ?es)) (access_header fs)) = map sd_id ?es"
    using u64_word.dec_enc_table [of "map sd_id ?es" "[]"] by simp
  have "length (sdoi_block ?es) \<noteq> 0" using False by (simp add: length_sdoi_block)
  then have "rd32 (access_header fs) 0x18 \<noteq> 0"
    using word_of_nat_zero_iff [OF l(2)] by (simp only: access_header_fields) simp
  then show ?thesis
    unfolding read_save_data_owner_ids_def Let_def off n acc ids
    by (simp add: zip_map_map zip_same_conv_map)
qed

section \<open>The service list\<close>

text \<open>A name of a service that reaches the process: cut to eight bytes, and not empty.\<close>

definition services_asked :: "service_access \<Rightarrow> (bytes \<times> bool) list" where
  "services_asked sac = map (\<lambda>(n, host). (take 8 n, host)) (filter (\<lambda>(n, host). n \<noteq> []) sac)"

function read_services :: "bytes \<Rightarrow> (bytes \<times> bool) list" where
  "read_services [] = []"
| "read_services (control # bs) =
     (let len = unat (control AND 0x7F) + 1 in (take len bs, bit control 7) # read_services (drop len bs))"
  by pat_completeness auto
termination by (relation "measure length") simp_all

definition service_entry :: "bytes \<times> bool \<Rightarrow> bytes" where
  "service_entry = (\<lambda>(n, host).
     if n = [] then []
     else (word_of_nat (min (length n) 8 - 1) OR (if host then 0x80 else 0)) # take 8 n)"

lemma build_service_access_control_eq:
  "build_service_access_control sac = concat (map service_entry sac)"
proof -
  have "(\<lambda>data (service_name, is_host).
       let len = min (length service_name) 8 in
       if len = 0 then data
       else
         let control = word_of_nat (len - 1) :: u8;
             control = (if is_host then control OR 0x80 else control)
         in (data @ [control]) @ take len service_name) = (\<lambda>data e. data @ service_entry e)"
    by (auto simp: fun_eq_iff service_entry_def Let_def min_def)
  then show ?thesis
    by (simp only: build_service_access_control_def foldl_append_bytes append_Nil)
qed

lemma service_control:
  assumes "n < 8"
  shows "unat ((word_of_nat n OR (if host then 0x80 else 0)) AND (0x7F :: u8)) = n"
    and "bit (word_of_nat n OR (if host then 0x80 else 0) :: u8) 7 \<longleftrightarrow> host"
proof -
  have "n \<in> {0, 1, 2, 3, 4, 5, 6, 7}" using assms by auto
  then show "unat ((word_of_nat n OR (if host then 0x80 else 0)) AND (0x7F :: u8)) = n"
    and "bit (word_of_nat n OR (if host then 0x80 else 0) :: u8) 7 \<longleftrightarrow> host"
    by (auto simp: bit_simps)
qed

lemma read_service_entry:
  assumes "n \<noteq> []"
  shows "read_services (service_entry (n, host) @ bs) = (take 8 n, host) # read_services bs"
proof -
  let ?k = "min (length n) 8 - 1"
  have k: "?k < 8" "?k + 1 = min (length n) 8" using assms by (cases n; simp)+
  have len: "length (take 8 n) = min (length n) 8" by simp
  have whole: "take (length xs) (xs @ bs) = xs" "drop (length xs) (xs @ bs) = bs" for xs bs :: bytes
    by simp_all
  have "take (min (length n) 8) (take 8 n @ bs) = take 8 n" "drop (min (length n) 8) (take 8 n @ bs) = bs"
    using whole [of "take 8 n" bs] by (simp_all only: len)
  moreover have "service_entry (n, host) = (word_of_nat ?k OR (if host then 0x80 else 0)) # take 8 n"
    using assms by (simp add: service_entry_def)
  ultimately show ?thesis
    by (simp only: append_Cons read_services.simps Let_def service_control [OF k(1)] k(2))
qed

lemma read_built_services: "read_services (build_service_access_control sac) = services_asked sac"
proof -
  have "read_services (concat (map service_entry sac)) = services_asked sac"
  proof (induction sac)
    case (Cons e sac)
    obtain n host where e: "e = (n, host)" by (cases e)
    show ?case
    proof (cases "n = []")
      case True
      with Cons e show ?thesis by (simp add: service_entry_def services_asked_def)
    next
      case False
      with Cons e read_service_entry [OF False, of host] show ?thesis by (simp add: services_asked_def)
    qed
  qed (simp add: services_asked_def)
  then show ?thesis by (simp only: build_service_access_control_eq)
qed

section \<open>The filesystem access control of the ACID section\<close>

lemma filesystem_access_control_fields:
  "length (build_filesystem_access_control fs) = 0x2C"
  "rd64 (build_filesystem_access_control fs) 4 = fa_permissions fs"
  "rd64 (build_filesystem_access_control fs) 0xC = fa_content_owner_id_min fs"
  "rd64 (build_filesystem_access_control fs) 0x14 = fa_content_owner_id_max fs"
  "rd64 (build_filesystem_access_control fs) 0x1C = fa_save_data_owner_id_min fs"
  "rd64 (build_filesystem_access_control fs) 0x24 = fa_save_data_owner_id_max fs"
  by (simp_all add: build_filesystem_access_control_def field_simps_le rd_here(4) [of _ "[]", simplified])

end
