(* ===== verification/Npdm_Image.thy ===== *)
theory Npdm_Image
  imports Npdm_Access
begin

text \<open>
  The image \<^verbatim>\<open>NpdmBuilder::build\<close> produces, as one expression: the META header, the ACID
  section, zeros up to the next multiple of sixteen, the ACI0 section.  A section is its header
  and its three blocks, the second and third on a multiple of sixteen.
\<close>

section \<open>A section\<close>

definition sac_at :: "nat \<Rightarrow> bytes \<Rightarrow> nat" where
  "sac_at hdr fac = align_up (hdr + length fac) 0x10"
definition kc_at :: "nat \<Rightarrow> bytes \<Rightarrow> bytes \<Rightarrow> nat" where
  "kc_at hdr fac sac = align_up (sac_at hdr fac + length sac) 0x10"
definition section_size :: "nat \<Rightarrow> bytes \<Rightarrow> bytes \<Rightarrow> bytes \<Rightarrow> nat" where
  "section_size hdr fac sac kc = kc_at hdr fac sac + length kc"

definition section_bytes :: "bytes \<Rightarrow> bytes \<Rightarrow> bytes \<Rightarrow> bytes \<Rightarrow> bytes" where
  "section_bytes header fac sac kc =
     (let h = length header
      in header @ fac @ zeros (sac_at h fac - (h + length fac)) @ sac
         @ zeros (kc_at h fac sac - (sac_at h fac + length sac)) @ kc)"

lemma section_bounds:
  "hdr + length fac \<le> sac_at hdr fac" "sac_at hdr fac + length sac \<le> kc_at hdr fac sac"
  "sac_at hdr fac < hdr + length fac + 0x10" "kc_at hdr fac sac < sac_at hdr fac + length sac + 0x10"
  by (simp_all add: sac_at_def kc_at_def align_up_ge align_up_lt)

lemma length_section_bytes:
  "length (section_bytes header fac sac kc) = section_size (length header) fac sac kc"
  using section_bounds(1) [of "length header" fac] section_bounds(2) [of "length header" fac sac]
  by (simp add: section_bytes_def section_size_def Let_def)

lemma align_up_16_eq: "v + 0xF < 2 ^ 32 \<Longrightarrow> align_up_16 v = Ok (align_up v 0x10)"
  by (simp add: align_up_16_def u32_add_ok align_up_def)

lemma npdm_section_layout_eq:
  assumes "section_size hdr fac sac kc + 0xF < 2 ^ 32"
  shows "npdm_section_layout hdr fac sac kc = Ok (sac_at hdr fac, kc_at hdr fac sac, section_size hdr fac sac kc)"
proof -
  note b = section_bounds(1,2) [of hdr fac]
  have l: "hdr + length fac + 0xF < 2 ^ 32" "sac_at hdr fac + length sac + 0xF < 2 ^ 32"
    "kc_at hdr fac sac + length kc < 2 ^ 32"
    using assms b(1) b(2) [of sac] unfolding section_size_def by linarith+
  then have m: "length fac mod 2 ^ 32 = length fac" "length sac mod 2 ^ 32 = length sac" "length kc mod 2 ^ 32 = length kc"
    by simp_all
  have u: "u32_add hdr (length fac) = Ok (hdr + length fac)"
    "u32_add (sac_at hdr fac) (length sac) = Ok (sac_at hdr fac + length sac)"
    "u32_add (kc_at hdr fac sac) (length kc) = Ok (kc_at hdr fac sac + length kc)"
    using l by (simp_all add: u32_add_ok)
  show ?thesis
    unfolding npdm_section_layout_def m
    by (simp add: u align_up_16_eq [OF l(1)] align_up_16_eq [OF l(2)] sac_at_def [of hdr fac, symmetric]
        kc_at_def [of hdr fac sac, symmetric] section_size_def)
qed

text \<open>Written past what the image holds so far, a section lands there whole.\<close>

lemma npdm_write_section_eq:
  assumes "length pre \<le> start"
    and "start + section_size (length header) fac sac kc \<le> length pre + n"
  shows "npdm_write_section (pre @ zeros n) start header (length header, fac)
      (sac_at (length header) fac, sac) (kc_at (length header) fac sac, kc)
    = Ok ((pre @ zeros (start - length pre) @ section_bytes header fac sac kc)
        @ zeros (length pre + n - start - section_size (length header) fac sac kc))"
proof -
  let ?h = "length header" and ?s = "sac_at (length header) fac" and ?k = "kc_at (length header) fac sac"
  note b = section_bounds(1,2) [of ?h fac] and z = assms [unfolded section_size_def]
  let ?p1 = "pre @ zeros (start - length pre) @ header"
  have p1: "length ?p1 = start + ?h" using assms(1) by simp
  have 1: "copy_at (pre @ zeros n) start header = Ok (?p1 @ zeros (length pre + n - start - ?h))"
    using copy_at_ahead [OF assms(1), of n header] z(2) b(1) b(2) [of sac] by simp
  let ?p2 = "?p1 @ fac"
  have p2: "length ?p2 = start + ?h + length fac" using p1 by simp
  have 2: "copy_at (?p1 @ zeros (length pre + n - start - ?h)) (start + ?h) fac
      = Ok (?p2 @ zeros (length pre + n - start - ?h - length fac))"
  proof -
    have "length fac \<le> length pre + n - start - ?h" using z b(1) b(2) [of sac] by linarith
    then show ?thesis
      using copy_at_cursor [of ?p1 "length pre + n - start - ?h" fac] by (simp only: p1 if_True)
  qed
  let ?p3 = "?p2 @ zeros (?s - (?h + length fac)) @ sac"
  have p3: "length ?p3 = start + ?s + length sac" using p2 b(1) by simp
  have 3: "copy_at (?p2 @ zeros (length pre + n - start - ?h - length fac)) (start + ?s) sac
      = Ok (?p3 @ zeros (length pre + n - start - ?s - length sac))"
  proof -
    have a: "length ?p2 \<le> start + ?s"
      and c: "start + ?s + length sac \<le> length ?p2 + (length pre + n - start - ?h - length fac)"
      and d: "start + ?s - length ?p2 = ?s - (?h + length fac)"
      and e: "length ?p2 + (length pre + n - start - ?h - length fac) - (start + ?s) - length sac
        = length pre + n - start - ?s - length sac"
      unfolding p2 using z b(1) b(2) [of sac] by linarith+
    show ?thesis
      using copy_at_ahead [OF a, of "length pre + n - start - ?h - length fac" sac] c
      by (simp only: d e if_True)
  qed
  have 4: "copy_at (?p3 @ zeros (length pre + n - start - ?s - length sac)) (start + ?k) kc
      = Ok ((?p3 @ zeros (?k - (?s + length sac)) @ kc) @ zeros (length pre + n - start - ?k - length kc))"
  proof -
    have a: "length ?p3 \<le> start + ?k"
      and c: "start + ?k + length kc \<le> length ?p3 + (length pre + n - start - ?s - length sac)"
      and d: "start + ?k - length ?p3 = ?k - (?s + length sac)"
      and e: "length ?p3 + (length pre + n - start - ?s - length sac) - (start + ?k) - length kc
        = length pre + n - start - ?k - length kc"
      unfolding p3 using z b(1) b(2) [of sac] by linarith+
    show ?thesis
      using copy_at_ahead [OF a, of "length pre + n - start - ?s - length sac" kc] c
      by (simp only: d e if_True)
  qed
  show ?thesis
    by (simp only: npdm_write_section_def fst_conv snd_conv 1 2 3 4 rbind.simps)
      (simp add: section_bytes_def section_size_def Let_def diff_diff_eq add.assoc)
qed

section \<open>The image\<close>

definition npdm_aci_of :: "npdm_builder \<Rightarrow> aci_data" where
  "npdm_aci_of b =
     (case np_aci b of Some a \<Rightarrow> a | None \<Rightarrow> aci_data_default\<lparr>ac_program_id := nm_title_id (np_metadata b)\<rparr>)"
definition npdm_acid_of :: "npdm_builder \<Rightarrow> acid_data" where
  "npdm_acid_of b = (case np_acid b of Some a \<Rightarrow> a | None \<Rightarrow> acid_data_default)"

definition aci0_fac_of :: "npdm_builder \<Rightarrow> bytes" where
  "aci0_fac_of b = access_header (ac_filesystem_access (npdm_aci_of b))"
definition aci0_sac_of :: "npdm_builder \<Rightarrow> bytes" where
  "aci0_sac_of b = build_service_access_control (ac_service_access (npdm_aci_of b))"
definition aci0_kc_of :: "npdm_builder \<Rightarrow> bytes" where
  "aci0_kc_of b = build_kernel_capabilities (ac_kernel_capabilities (npdm_aci_of b))"
definition acid_fac_of :: "npdm_builder \<Rightarrow> bytes" where
  "acid_fac_of b = build_filesystem_access_control (ap_filesystem_access (npdm_acid_of b))"
definition acid_sac_of :: "npdm_builder \<Rightarrow> bytes" where
  "acid_sac_of b = build_service_access_control (ap_service_access (npdm_acid_of b))"
definition acid_kc_of :: "npdm_builder \<Rightarrow> bytes" where
  "acid_kc_of b = build_kernel_capabilities (ap_kernel_capabilities (npdm_acid_of b))"

definition acid_size_of :: "npdm_builder \<Rightarrow> nat" where
  "acid_size_of b = section_size 0x240 (acid_fac_of b) (acid_sac_of b) (acid_kc_of b)"
definition aci0_at :: "npdm_builder \<Rightarrow> nat" where
  "aci0_at b = align_up (0x80 + acid_size_of b) 0x10"
definition aci0_size_of :: "npdm_builder \<Rightarrow> nat" where
  "aci0_size_of b = section_size 0x40 (aci0_fac_of b) (aci0_sac_of b) (aci0_kc_of b)"

definition meta_header_of :: "npdm_builder \<Rightarrow> npdm_header" where
  "meta_header_of b =
     (let m = np_metadata b in
      \<lparr>pm_magic = META_MAGIC, pm_signature_key_generation = 0, pm_reserved_08 = 0,
       pm_flags = nm_flags m, pm_reserved_0d = 0,
       pm_main_thread_priority = nm_main_thread_priority m,
       pm_main_thread_core_number = nm_default_cpu_id m, pm_reserved_10 = 0,
       pm_system_resource_size = 0, pm_version = nm_version m,
       pm_main_thread_stack_size = nm_main_thread_stack_size m,
       pm_name = npdm_name_field (nm_name m), pm_product_code = zeros 0x10,
       pm_reserved_40 = zeros 0x30, pm_aci_offset = word_of_nat (aci0_at b),
       pm_aci_size = word_of_nat (aci0_size_of b), pm_acid_offset = word_of_nat 0x80,
       pm_acid_size = word_of_nat (acid_size_of b)\<rparr>)"

definition acid_header_of :: "npdm_builder \<Rightarrow> acid_header" where
  "acid_header_of b =
     (let acid = npdm_acid_of b in
      \<lparr>ad_signature = zeros 0x100, ad_public_key = zeros 0x100, ad_magic = ACID_MAGIC,
       ad_size = word_of_nat (acid_size_of b - 0x100), ad_version = 0, ad_reserved_209 = zeros 3,
       ad_flags = ap_flags acid, ad_program_id_min = ap_program_id_min acid,
       ad_program_id_max = ap_program_id_max acid,
       ad_fac_offset = word_of_nat 0x240, ad_fac_size = word_of_nat (length (acid_fac_of b)),
       ad_sac_offset = word_of_nat (sac_at 0x240 (acid_fac_of b)),
       ad_sac_size = word_of_nat (length (acid_sac_of b)),
       ad_kc_offset = word_of_nat (kc_at 0x240 (acid_fac_of b) (acid_sac_of b)),
       ad_kc_size = word_of_nat (length (acid_kc_of b)), ad_reserved_238 = 0\<rparr>)"

definition aci0_header_of :: "npdm_builder \<Rightarrow> aci0_header" where
  "aci0_header_of b =
     \<lparr>ai_magic = ACI0_MAGIC, ai_reserved_04 = zeros 12, ai_program_id = ac_program_id (npdm_aci_of b),
      ai_reserved_18 = 0, ai_fac_offset = word_of_nat 0x40,
      ai_fac_size = word_of_nat (length (aci0_fac_of b)),
      ai_sac_offset = word_of_nat (sac_at 0x40 (aci0_fac_of b)),
      ai_sac_size = word_of_nat (length (aci0_sac_of b)),
      ai_kc_offset = word_of_nat (kc_at 0x40 (aci0_fac_of b) (aci0_sac_of b)),
      ai_kc_size = word_of_nat (length (aci0_kc_of b)), ai_reserved_38 = 0\<rparr>"

definition npdm_image :: "npdm_builder \<Rightarrow> bytes" where
  "npdm_image b =
     enc_npdm_header (meta_header_of b)
     @ section_bytes (enc_acid_header (acid_header_of b)) (acid_fac_of b) (acid_sac_of b) (acid_kc_of b)
     @ zeros (aci0_at b - (0x80 + acid_size_of b))
     @ section_bytes (enc_aci0_header (aci0_header_of b)) (aci0_fac_of b) (aci0_sac_of b) (aci0_kc_of b)"

text \<open>The builder's 32-bit sums stay in range.\<close>

definition npdm_fits :: "npdm_builder \<Rightarrow> bool" where
  "npdm_fits b \<longleftrightarrow> aci0_at b + aci0_size_of b + 0xF < 2 ^ 32"

lemma npdm_header_lengths [simp]:
  "length (enc_npdm_header (meta_header_of b)) = 0x80"
  "length (enc_acid_header (acid_header_of b)) = 0x240"
  "length (enc_aci0_header (aci0_header_of b)) = 0x40"
  by (simp_all add: npdm_header.enc_length acid_header.enc_length aci0_header.enc_length npdm_header_wf_def
      acid_header_wf_def meta_header_of_def acid_header_of_def aci0_header_of_def npdm_name_field_def Let_def)

lemma section_size_ge: "hdr + length fac \<le> section_size hdr fac sac kc"
  using section_bounds(1) [of hdr fac] section_bounds(2) [of hdr fac sac] by (simp add: section_size_def)

lemma npdm_fits_bounds:
  assumes "npdm_fits b"
  shows "acid_size_of b + 0xF < 2 ^ 32" "aci0_size_of b + 0xF < 2 ^ 32" "0x80 + acid_size_of b + 0xF < 2 ^ 32"
    "aci0_at b < 2 ^ 32" "0x240 \<le> acid_size_of b" "0x40 \<le> aci0_size_of b" "length (aci0_fac_of b) < 2 ^ 32"
    "0x80 + acid_size_of b \<le> aci0_at b"
proof -
  have "0x40 + length (aci0_fac_of b) \<le> aci0_size_of b" "0x240 + length (acid_fac_of b) \<le> acid_size_of b"
    by (simp_all only: acid_size_of_def aci0_size_of_def section_size_ge)
  moreover have "0x80 + acid_size_of b \<le> aci0_at b" unfolding aci0_at_def by (rule align_up_ge) simp
  ultimately show "acid_size_of b + 0xF < 2 ^ 32" "aci0_size_of b + 0xF < 2 ^ 32" "0x80 + acid_size_of b + 0xF < 2 ^ 32"
    "aci0_at b < 2 ^ 32" "0x240 \<le> acid_size_of b" "0x40 \<le> aci0_size_of b" "length (aci0_fac_of b) < 2 ^ 32"
    "0x80 + acid_size_of b \<le> aci0_at b"
    using assms unfolding npdm_fits_def by linarith+
qed

lemma length_npdm_image: "npdm_fits b \<Longrightarrow> length (npdm_image b) = aci0_at b + aci0_size_of b"
  using npdm_fits_bounds(8) [of b]
  by (simp add: npdm_image_def length_section_bytes acid_size_of_def [symmetric] aci0_size_of_def [symmetric])

text \<open>What the builder assembles is the image.\<close>

lemma npdm_build_image:
  assumes "npdm_fits b"
  shows "npdm_build b = Ok (npdm_image b)"
proof -
  note bd = npdm_fits_bounds [OF assms]
  let ?aci = "npdm_aci_of b" and ?acid = "npdm_acid_of b"
  have aci: "build_aci_sections ?aci = Ok (aci0_fac_of b, aci0_sac_of b, aci0_kc_of b)"
    using bd(7) by (simp add: build_aci_sections_def build_filesystem_access_header_eq aci0_fac_of_def aci0_sac_of_def aci0_kc_of_def)
  have acid: "build_acid_sections ?acid = (acid_fac_of b, acid_sac_of b, acid_kc_of b)"
    by (simp add: build_acid_sections_def acid_fac_of_def acid_sac_of_def acid_kc_of_def)
  have l1: "npdm_section_layout 0x40 (aci0_fac_of b) (aci0_sac_of b) (aci0_kc_of b)
      = Ok (sac_at 0x40 (aci0_fac_of b), kc_at 0x40 (aci0_fac_of b) (aci0_sac_of b), aci0_size_of b)"
    and l2: "npdm_section_layout 0x240 (acid_fac_of b) (acid_sac_of b) (acid_kc_of b)
      = Ok (sac_at 0x240 (acid_fac_of b), kc_at 0x240 (acid_fac_of b) (acid_sac_of b), acid_size_of b)"
    using bd(1,2) by (simp_all only: npdm_section_layout_eq acid_size_of_def aci0_size_of_def)
  have o: "u32_add 0x80 (acid_size_of b) = Ok (0x80 + acid_size_of b)"
    "align_up_16 (0x80 + acid_size_of b) = Ok (aci0_at b)"
    "usub (acid_size_of b) 0x100 = Ok (acid_size_of b - 0x100)"
    using bd by (simp_all add: u32_add_ok align_up_16_eq aci0_at_def run_ok(4))
  let ?M = "enc_npdm_header (meta_header_of b)"
  let ?A = "section_bytes (enc_acid_header (acid_header_of b)) (acid_fac_of b) (acid_sac_of b) (acid_kc_of b)"
  let ?N = "aci0_at b + aci0_size_of b"
  have w0: "copy_at (zeros ?N) 0 ?M = Ok (?M @ zeros (?N - 0x80))"
    using copy_at_ahead [of "[]" 0 ?N ?M] bd by simp
  have w1: "npdm_write_section (?M @ zeros (?N - 0x80)) 0x80 (enc_acid_header (acid_header_of b))
      (0x240, acid_fac_of b) (sac_at 0x240 (acid_fac_of b), acid_sac_of b)
      (kc_at 0x240 (acid_fac_of b) (acid_sac_of b), acid_kc_of b)
    = Ok ((?M @ ?A) @ zeros (?N - 0x80 - acid_size_of b))"
    using npdm_write_section_eq [of ?M "0x80" "enc_acid_header (acid_header_of b)" "acid_fac_of b" "acid_sac_of b" "acid_kc_of b" "?N - 0x80"]
      bd by (simp add: acid_size_of_def [symmetric])
  have MA: "length (?M @ ?A) = 0x80 + acid_size_of b"
    by (simp add: length_section_bytes acid_size_of_def)
  have w2: "npdm_write_section ((?M @ ?A) @ zeros (?N - 0x80 - acid_size_of b)) (aci0_at b) (enc_aci0_header (aci0_header_of b))
      (0x40, aci0_fac_of b) (sac_at 0x40 (aci0_fac_of b), aci0_sac_of b)
      (kc_at 0x40 (aci0_fac_of b) (aci0_sac_of b), aci0_kc_of b)
    = Ok (npdm_image b)"
    using npdm_write_section_eq [of "?M @ ?A" "aci0_at b" "enc_aci0_header (aci0_header_of b)" "aci0_fac_of b" "aci0_sac_of b" "aci0_kc_of b" "?N - 0x80 - acid_size_of b"]
      bd unfolding MA by (simp add: aci0_size_of_def [symmetric] npdm_image_def)
  show ?thesis
    unfolding npdm_build_def Let_def npdm_aci_of_def [symmetric] npdm_acid_of_def [symmetric] aci
      rbind.simps prod.case acid l1 l2 o
    by (simp only: meta_header_of_def [unfolded Let_def, symmetric] acid_header_of_def [unfolded Let_def, symmetric]
        aci0_header_of_def [symmetric] w0 w1 w2 rbind.simps)
qed

end
