(* ===== verification/Npdm_Read.thy ===== *)
theory Npdm_Read
  imports Npdm_Image
begin

text \<open>
  The reader of \<^verbatim>\<open>src/read/npdm.rs\<close> without its bookkeeping: which check decides, on any buffer
  and on the images the builder makes.
\<close>

section \<open>What the reader decides\<close>

text \<open>An extent given by two 32-bit fields lies inside the buffer and holds at least \<open>need\<close> bytes; the two
  failures it can have.\<close>

definition extent_problem ::
  "bytes \<Rightarrow> nat \<Rightarrow> nat \<Rightarrow> nat \<Rightarrow> (nat \<Rightarrow> npdm_parse_error) \<Rightarrow> npdm_parse_error option" where
  "extent_problem bs off sz need bad =
     (if length bs < off + sz then Some (Npdm_BufferTooSmall (off + sz) (length bs))
      else if sz < need then Some (bad sz) else None)"

definition npdm_problem :: "bytes \<Rightarrow> npdm_parse_error option" where
  "npdm_problem bs =
     (if length bs < 0x80 then Some (Npdm_BufferTooSmall 0x80 (length bs))
      else
        let h = dec_npdm_header bs;
            acid_at = unat (pm_acid_offset h); acid = dec_acid_header (drop acid_at bs);
            aci0_at = unat (pm_aci_offset h); aci0 = dec_aci0_header (drop aci0_at bs)
        in
          if pm_magic h \<noteq> META_MAGIC then Some (Npdm_InvalidMetaMagic (pm_magic h))
          else case extent_problem bs acid_at (unat (pm_acid_size h)) 0x240 Npdm_InvalidAcidSize of
            Some e \<Rightarrow> Some e
          | None \<Rightarrow>
              if ad_magic acid \<noteq> ACID_MAGIC then Some (Npdm_InvalidAcidMagic (ad_magic acid))
              else case extent_problem bs aci0_at (unat (pm_aci_size h)) 0x40 Npdm_InvalidAci0Size of
                Some e \<Rightarrow> Some e
              | None \<Rightarrow>
                  if ai_magic aci0 \<noteq> ACI0_MAGIC then Some (Npdm_InvalidAci0Magic (ai_magic aci0)) else None)"

definition npdm_view :: "bytes \<Rightarrow> npdm" where
  "npdm_view bs =
     (let h = dec_npdm_header bs in
      \<lparr>npdm_bytes = bs, npdm_hdr = h, npdm_acid = dec_acid_header (drop (unat (pm_acid_offset h)) bs),
       npdm_aci0 = dec_aci0_header (drop (unat (pm_aci_offset h)) bs)\<rparr>)"

lemma uadd_u32: "uadd (unat (v :: u32)) (unat (w :: u32)) = Ok (unat v + unat w)"
  using unat_u32_sum_usize [of v w] by (simp add: run_ok)

lemma npdm_try_from_bytes_eq:
  "npdm_try_from_bytes bs = (case npdm_problem bs of Some e \<Rightarrow> Err e | None \<Rightarrow> Ok (npdm_view bs))"
proof (cases "length bs < 0x80")
  case True
  then show ?thesis by (simp add: npdm_try_from_bytes_def npdm_problem_def)
next
  case False
  let ?h = "dec_npdm_header bs"
  let ?ao = "unat (pm_acid_offset ?h)" and ?as = "unat (pm_acid_size ?h)"
  let ?io = "unat (pm_aci_offset ?h)" and ?is = "unat (pm_aci_size ?h)"
  have tail: "slice bs off (length bs) = Ok (drop off bs)" if "\<not> length bs < off + sz" for off sz
    using that by (simp add: slice_def)
  have front: "ref_from_prefix dec_npdm_header 0x80 bs = Some (?h, drop 0x80 bs)"
    using False by (simp add: ref_from_prefix_run)
  have inner: "ref_from_prefix dec n (drop off bs) = Some (dec (drop off bs), drop n (drop off bs))"
    if "\<not> length bs < off + sz" "\<not> sz < n" for dec :: "bytes \<Rightarrow> 'r" and off sz n
    using that by (simp add: ref_from_prefix_run)
  consider
      (magic) "pm_magic ?h \<noteq> META_MAGIC"
    | (acid_bad) "pm_magic ?h = META_MAGIC" "length bs < ?ao + ?as \<or> ?as < 0x240"
    | (aci) "pm_magic ?h = META_MAGIC" "\<not> length bs < ?ao + ?as" "\<not> ?as < 0x240"
    by blast
  then show ?thesis
  proof cases
    case magic
    then show ?thesis
      using False by (simp add: npdm_try_from_bytes_def npdm_problem_def front Let_def)
  next
    case acid_bad
    then show ?thesis
      using False by (auto simp: npdm_try_from_bytes_def npdm_problem_def front Let_def uadd_u32 extent_problem_def)
  next
    case aci
    note acid = tail [OF aci(2)] inner [OF aci(2,3)]
    show ?thesis
    proof (cases "length bs < ?io + ?is \<or> ?is < 0x40")
      case True
      then show ?thesis
        using False aci
        by (auto simp: npdm_try_from_bytes_def npdm_problem_def front Let_def uadd_u32 extent_problem_def acid)
    next
      case ok: False
      then have ok: "\<not> length bs < ?io + ?is" "\<not> ?is < 0x40" by simp_all
      show ?thesis
        using False aci ok
        by (simp add: npdm_try_from_bytes_def npdm_problem_def front Let_def uadd_u32 extent_problem_def acid
            tail [OF ok(1)] inner [OF ok] npdm_view_def)
    qed
  qed
qed

text \<open>The blocks of the ACI0 section are checked when they are asked for.\<close>

lemma aci0_inner_data_eq:
  "aci0_inner_data n name offset sz =
     (let start = unat (pm_aci_offset (npdm_hdr n)) + unat offset in
      if length (npdm_bytes n) < start + unat sz
      then Err (Npdm_Aci0InnerSectionOutOfBounds name (unat offset) (unat sz) (start + unat sz) (length (npdm_bytes n)))
      else Ok (sub_bytes (npdm_bytes n) start (unat sz)))"
proof -
  let ?a = "unat (pm_aci_offset (npdm_hdr n))"
  have "?a + unat offset + unat sz \<le> usize_max"
    using unat_u32_bound [of "pm_aci_offset (npdm_hdr n)"] unat_u32_bound [of offset] unat_u32_bound [of sz]
    by (simp add: usize_max_def)
  then show ?thesis
    by (simp add: aci0_inner_data_def Let_def uadd_u32 run_ok(1) slice_def sub_bytes_def)
qed

section \<open>Reading an image\<close>

text \<open>A block of a section, where the section starts at \<open>length pre\<close>.\<close>

lemma section_blocks:
  assumes "length header = h"
  shows "sub_bytes (pre @ section_bytes header fac sac kc @ post) (length pre + h) (length fac) = fac"
    and "sub_bytes (pre @ section_bytes header fac sac kc @ post) (length pre + sac_at h fac) (length sac) = sac"
    and "sub_bytes (pre @ section_bytes header fac sac kc @ post) (length pre + kc_at h fac sac) (length kc) = kc"
proof -
  note b = section_bounds(1) [of h fac] section_bounds(2) [of h fac sac]
  let ?all = "pre @ section_bytes header fac sac kc @ post"
  have s: "?all = (pre @ header) @ fac @ (zeros (sac_at h fac - (h + length fac)) @ sac
          @ zeros (kc_at h fac sac - (sac_at h fac + length sac)) @ kc @ post)"
    "?all = (pre @ header @ fac @ zeros (sac_at h fac - (h + length fac))) @ sac
          @ (zeros (kc_at h fac sac - (sac_at h fac + length sac)) @ kc @ post)"
    "?all = (pre @ header @ fac @ zeros (sac_at h fac - (h + length fac)) @ sac
          @ zeros (kc_at h fac sac - (sac_at h fac + length sac))) @ kc @ post"
    by (simp_all add: section_bytes_def assms Let_def)
  have l: "length (pre @ header) = length pre + h"
    "length (pre @ header @ fac @ zeros (sac_at h fac - (h + length fac))) = length pre + sac_at h fac"
    "length (pre @ header @ fac @ zeros (sac_at h fac - (h + length fac)) @ sac
          @ zeros (kc_at h fac sac - (sac_at h fac + length sac))) = length pre + kc_at h fac sac"
    using assms b by simp_all
  have here: "sub_bytes (xs @ ys @ zs) (length xs) (length ys) = ys" for xs ys zs :: bytes
    by (simp add: sub_bytes_def)
  show "sub_bytes ?all (length pre + h) (length fac) = fac" by (simp only: s(1) l(1) [symmetric] here)
  show "sub_bytes ?all (length pre + sac_at h fac) (length sac) = sac" by (simp only: s(2) l(2) [symmetric] here)
  show "sub_bytes ?all (length pre + kc_at h fac sac) (length kc) = kc" by (simp only: s(3) l(3) [symmetric] here)
qed

text \<open>The META header leads to both sections of an image, and each section to its three blocks.\<close>

lemma npdm_image_headers:
  assumes "npdm_fits b"
  shows "dec_npdm_header (npdm_image b) = meta_header_of b"
    and "dec_acid_header (drop 0x80 (npdm_image b)) = acid_header_of b"
    and "dec_aci0_header (drop (aci0_at b) (npdm_image b)) = aci0_header_of b"
proof -
  have wf: "npdm_header_wf (meta_header_of b)" "acid_header_wf (acid_header_of b)"
    "length (ai_reserved_04 (aci0_header_of b)) = 12"
    by (simp_all add: npdm_header_wf_def acid_header_wf_def meta_header_of_def acid_header_of_def
        aci0_header_of_def npdm_name_field_def Let_def)
  show "dec_npdm_header (npdm_image b) = meta_header_of b"
    unfolding npdm_image_def by (rule npdm_header.dec_enc [OF wf(1)])
  show "dec_acid_header (drop 0x80 (npdm_image b)) = acid_header_of b"
    by (simp add: npdm_image_def section_bytes_def Let_def acid_header.dec_enc [OF wf(2)])
  have "drop (aci0_at b) (npdm_image b) = section_bytes (enc_aci0_header (aci0_header_of b)) (aci0_fac_of b) (aci0_sac_of b) (aci0_kc_of b)"
    using npdm_fits_bounds(8) [OF assms]
    by (simp add: npdm_image_def length_section_bytes acid_size_of_def [symmetric])
  then show "dec_aci0_header (drop (aci0_at b) (npdm_image b)) = aci0_header_of b"
    by (simp add: section_bytes_def Let_def aci0_header.dec_enc [OF wf(3)])
qed

lemma npdm_image_offsets:
  assumes "npdm_fits b"
  shows "unat (pm_acid_offset (meta_header_of b)) = 0x80" "unat (pm_acid_size (meta_header_of b)) = acid_size_of b"
    "unat (pm_aci_offset (meta_header_of b)) = aci0_at b" "unat (pm_aci_size (meta_header_of b)) = aci0_size_of b"
  using npdm_fits_bounds [OF assms] by (simp_all add: meta_header_of_def Let_def unat_u32_of_nat)

lemma npdm_read_image:
  assumes "npdm_fits b"
  shows "npdm_try_from_bytes (npdm_image b) = Ok \<lparr>npdm_bytes = npdm_image b, npdm_hdr = meta_header_of b,
    npdm_acid = acid_header_of b, npdm_aci0 = aci0_header_of b\<rparr>"
proof -
  note h = npdm_image_headers [OF assms] npdm_image_offsets [OF assms] npdm_fits_bounds [OF assms]
    length_npdm_image [OF assms]
  have m: "pm_magic (meta_header_of b) = META_MAGIC" "ad_magic (acid_header_of b) = ACID_MAGIC"
    "ai_magic (aci0_header_of b) = ACI0_MAGIC"
    by (simp_all add: meta_header_of_def acid_header_of_def aci0_header_of_def Let_def)
  have "npdm_problem (npdm_image b) = None"
    using h(8-15) m by (simp add: npdm_problem_def Let_def h(1-7,16) extent_problem_def)
  then show ?thesis by (simp add: npdm_try_from_bytes_eq npdm_view_def Let_def h(1-7))
qed

lemma section_fields:
  assumes "section_size h fac sac kc < 2 ^ 32"
  shows "unat (word_of_nat (length fac) :: u32) = length fac" "unat (word_of_nat (length sac) :: u32) = length sac"
    "unat (word_of_nat (length kc) :: u32) = length kc" "unat (word_of_nat (sac_at h fac) :: u32) = sac_at h fac"
    "unat (word_of_nat (kc_at h fac sac) :: u32) = kc_at h fac sac"
  using assms section_bounds(1) [of h fac] section_bounds(2) [of h fac sac]
  by (auto simp: section_size_def intro!: unat_u32_of_nat)

lemma npdm_image_aci0_blocks:
  assumes "npdm_fits b"
  shows "sub_bytes (npdm_image b) (aci0_at b + 0x40) (length (aci0_fac_of b)) = aci0_fac_of b"
    and "sub_bytes (npdm_image b) (aci0_at b + sac_at 0x40 (aci0_fac_of b)) (length (aci0_sac_of b)) = aci0_sac_of b"
    and "sub_bytes (npdm_image b) (aci0_at b + kc_at 0x40 (aci0_fac_of b) (aci0_sac_of b)) (length (aci0_kc_of b)) = aci0_kc_of b"
proof -
  define pre where "pre = enc_npdm_header (meta_header_of b)
     @ section_bytes (enc_acid_header (acid_header_of b)) (acid_fac_of b) (acid_sac_of b) (acid_kc_of b)
     @ zeros (aci0_at b - (0x80 + acid_size_of b))"
  have l: "length pre = aci0_at b"
    using npdm_fits_bounds(8) [OF assms] by (simp add: pre_def length_section_bytes acid_size_of_def [symmetric])
  have img: "npdm_image b = pre @ section_bytes (enc_aci0_header (aci0_header_of b)) (aci0_fac_of b) (aci0_sac_of b) (aci0_kc_of b) @ []"
    by (simp add: npdm_image_def pre_def)
  note blocks = section_blocks [where header = "enc_aci0_header (aci0_header_of b)" and pre = pre and post = "[]"
      and fac = "aci0_fac_of b" and sac = "aci0_sac_of b" and kc = "aci0_kc_of b", OF npdm_header_lengths(3), unfolded l]
  show "sub_bytes (npdm_image b) (aci0_at b + 0x40) (length (aci0_fac_of b)) = aci0_fac_of b"
    "sub_bytes (npdm_image b) (aci0_at b + sac_at 0x40 (aci0_fac_of b)) (length (aci0_sac_of b)) = aci0_sac_of b"
    "sub_bytes (npdm_image b) (aci0_at b + kc_at 0x40 (aci0_fac_of b) (aci0_sac_of b)) (length (aci0_kc_of b)) = aci0_kc_of b"
    by (simp_all only: img blocks)
qed

lemma npdm_image_acid_blocks:
  "sub_bytes (npdm_image b) (0x80 + 0x240) (length (acid_fac_of b)) = acid_fac_of b"
  "sub_bytes (npdm_image b) (0x80 + sac_at 0x240 (acid_fac_of b)) (length (acid_sac_of b)) = acid_sac_of b"
  "sub_bytes (npdm_image b) (0x80 + kc_at 0x240 (acid_fac_of b) (acid_sac_of b)) (length (acid_kc_of b)) = acid_kc_of b"
  using section_blocks [where header = "enc_acid_header (acid_header_of b)" and pre = "enc_npdm_header (meta_header_of b)"
      and fac = "acid_fac_of b" and sac = "acid_sac_of b" and kc = "acid_kc_of b", OF npdm_header_lengths(2)]
  by (simp_all only: npdm_image_def npdm_header_lengths(1))

lemma npdm_image_accessors:
  assumes "npdm_fits b" and n: "n = \<lparr>npdm_bytes = npdm_image b, npdm_hdr = meta_header_of b,
    npdm_acid = acid_header_of b, npdm_aci0 = aci0_header_of b\<rparr>"
  shows "aci0_fac_data n = Ok (aci0_fac_of b)" "aci0_sac_data n = Ok (aci0_sac_of b)" "aci0_kc_data n = Ok (aci0_kc_of b)"
proof -
  have sz: "section_size 0x40 (aci0_fac_of b) (aci0_sac_of b) (aci0_kc_of b) < 2 ^ 32"
    using npdm_fits_bounds(2) [OF assms(1)] by (simp add: aci0_size_of_def)
  note f = section_fields [OF sz] npdm_image_offsets(3) [OF assms(1)] length_npdm_image [OF assms(1)]
    section_bounds(1) [of "0x40" "aci0_fac_of b"] section_bounds(2) [of "0x40" "aci0_fac_of b" "aci0_sac_of b"]
  have l: "aci0_size_of b = kc_at 0x40 (aci0_fac_of b) (aci0_sac_of b) + length (aci0_kc_of b)"
    by (simp add: aci0_size_of_def section_size_def)
  have c: "unat (word_of_nat 0x40 :: u32) = 0x40" by simp
  show "aci0_fac_data n = Ok (aci0_fac_of b)"
    using f(8,9) l npdm_image_aci0_blocks(1) [OF assms(1)]
    by (simp add: n aci0_fac_data_def aci0_inner_data_eq aci0_header_of_def Let_def f(1,6,7))
  show "aci0_sac_data n = Ok (aci0_sac_of b)"
    using f(8,9) l npdm_image_aci0_blocks(2) [OF assms(1)]
    by (simp add: n aci0_sac_data_def aci0_inner_data_eq aci0_header_of_def Let_def f(2,4,6,7))
  show "aci0_kc_data n = Ok (aci0_kc_of b)"
    using f(8,9) l npdm_image_aci0_blocks(3) [OF assms(1)]
    by (simp add: n aci0_kc_data_def aci0_inner_data_eq aci0_header_of_def Let_def f(3,5,6,7))
qed

end
