(* ===== verification/Npdm_Properties.thy ===== *)
theory Npdm_Properties
  imports Npdm_Read
begin

text \<open>What the NPDM builder and reader promise.\<close>

lemma npdm_name_field_eq: "npdm_name_field n = take 15 n @ zeros (0x10 - length (take 15 n))"
  by (auto simp: npdm_name_field_def zeros_def min_def)

definition npdm_example :: npdm_builder where
  "npdm_example =
     npdm_with_aci (aci_data_default\<lparr>ac_program_id := 0x42, ac_service_access := [(ascii ''fsp-srv'', False), ([], True)],
         ac_kernel_capabilities := [MapPage 5, HandleTableSize 0x200]\<rparr>)
       (npdm_new \<lparr>nm_name = replicate 14 0x41 @ [0xC3, 0xA9], nm_title_id = 7, nm_version = 1, nm_main_thread_priority = 44,
         nm_default_cpu_id = 0, nm_main_thread_stack_size = 0x100000, nm_flags = 3\<rparr>)"

lemma npdm_example_fields:
  "np_metadata npdm_example = \<lparr>nm_name = replicate 14 0x41 @ [0xC3, 0xA9], nm_title_id = 7, nm_version = 1,
     nm_main_thread_priority = 44, nm_default_cpu_id = 0, nm_main_thread_stack_size = 0x100000, nm_flags = 3\<rparr>"
  "npdm_aci_of npdm_example = aci_data_default\<lparr>ac_program_id := 0x42, ac_service_access := [(ascii ''fsp-srv'', False), ([], True)],
     ac_kernel_capabilities := [MapPage 5, HandleTableSize 0x200]\<rparr>"
  "npdm_acid_of npdm_example = acid_data_default"
  by (simp_all add: npdm_example_def npdm_with_aci_def npdm_new_def npdm_aci_of_def npdm_acid_of_def)

lemma npdm_example_fits: "npdm_fits npdm_example"
proof -
  have "length (aci0_fac_of npdm_example) = 0x1C" "length (aci0_sac_of npdm_example) = 8" "length (aci0_kc_of npdm_example) = 8"
    "length (acid_fac_of npdm_example) = 0x2C" "acid_sac_of npdm_example = []" "acid_kc_of npdm_example = []"
    by (simp_all add: aci0_fac_of_def aci0_sac_of_def aci0_kc_of_def acid_fac_of_def acid_sac_of_def acid_kc_of_def
        npdm_example_fields aci_data_default_def acid_data_default_def filesystem_access_default_def
        length_access_header coi_block_def sdoi_block_def build_service_access_control_eq service_entry_def
        build_kernel_capabilities_eq filesystem_access_control_fields ascii_def)
  then show ?thesis
    by (simp add: npdm_fits_def aci0_at_def acid_size_of_def aci0_size_of_def section_size_def kc_at_def sac_at_def align_up_def)
qed

text \<open>C32. What a kernel capability grants is what its descriptors say.  Read back by the type tag and bit ranges the
  documentation of the encoding gives, the capability block of any list of capabilities yields, in
  order, every field cut to its width, the first three memory regions, and exactly the requested system
  calls below 192, each in the mask of its group of 24.\<close>

theorem npdm_capabilities_granted:
  "read_capabilities (build_kernel_capabilities cs) = concat (map grants cs)"
  by (rule read_built_capabilities)

text \<open>C33. An NPDM whose size fits 32 bits is built without a panic and parses.  Each permission block comes back as
  asked for: the filesystem permissions with the owner ids, in the ACID section with the ranges of both kinds of owner
  ids, the services cut to eight bytes and the empty ones gone, the capabilities; in the ACI0 section through
  the accessors, in the ACID section at the offsets its header names.  Without explicit ACI0 data the program id is the title id, and the
  name is cut to fifteen bytes before it is read as UTF-8.\<close>

theorem npdm_round_trip:
  assumes "npdm_fits b"
  shows "\<exists>img n fah sac kc. npdm_build b = Ok img \<and> npdm_try_from_bytes img = Ok n
    \<and> aci0_fac_data n = Ok fah \<and> aci0_sac_data n = Ok sac \<and> aci0_kc_data n = Ok kc
    \<and> rd64 fah 4 = fa_permissions (ac_filesystem_access (npdm_aci_of b))
    \<and> read_content_owner_ids fah = fa_content_owner_ids (ac_filesystem_access (npdm_aci_of b))
    \<and> read_save_data_owner_ids fah
        = map (\<lambda>e. (sd_accessibility e, sd_id e)) (fa_save_data_owner_ids (ac_filesystem_access (npdm_aci_of b)))
    \<and> read_services sac = services_asked (ac_service_access (npdm_aci_of b))
    \<and> read_capabilities kc = concat (map grants (ac_kernel_capabilities (npdm_aci_of b)))
    \<and> (let at = \<lambda>off sz. sub_bytes img (unat (pm_acid_offset (npdm_hdr n)) + unat off) (unat sz);
           fac = at (ad_fac_offset (npdm_acid n)) (ad_fac_size (npdm_acid n))
       in rd64 fac 4 = fa_permissions (ap_filesystem_access (npdm_acid_of b))
        \<and> (rd64 fac 0xC, rd64 fac 0x14)
            = (fa_content_owner_id_min (ap_filesystem_access (npdm_acid_of b)),
               fa_content_owner_id_max (ap_filesystem_access (npdm_acid_of b)))
        \<and> (rd64 fac 0x1C, rd64 fac 0x24)
            = (fa_save_data_owner_id_min (ap_filesystem_access (npdm_acid_of b)),
               fa_save_data_owner_id_max (ap_filesystem_access (npdm_acid_of b)))
        \<and> length fac = 0x2C
        \<and> read_services (at (ad_sac_offset (npdm_acid n)) (ad_sac_size (npdm_acid n)))
            = services_asked (ap_service_access (npdm_acid_of b))
        \<and> read_capabilities (at (ad_kc_offset (npdm_acid n)) (ad_kc_size (npdm_acid n)))
            = concat (map grants (ap_kernel_capabilities (npdm_acid_of b))))
    \<and> npdm_name n = cstr (take 15 (nm_name (np_metadata b)))
    \<and> npdm_main_thread_priority n = nm_main_thread_priority (np_metadata b)
    \<and> npdm_main_thread_stack_size n = nm_main_thread_stack_size (np_metadata b)
    \<and> npdm_program_id_range n = (ap_program_id_min (npdm_acid_of b), ap_program_id_max (npdm_acid_of b))
    \<and> npdm_program_id n
        = (case np_aci b of Some a \<Rightarrow> ac_program_id a | None \<Rightarrow> nm_title_id (np_metadata b))"
proof -
  define n where "n = \<lparr>npdm_bytes = npdm_image b, npdm_hdr = meta_header_of b,
    npdm_acid = acid_header_of b, npdm_aci0 = aci0_header_of b\<rparr>"
  have fah: "length (access_header (ac_filesystem_access (npdm_aci_of b))) < 2 ^ 32"
    using npdm_fits_bounds(7) [OF assms] by (simp only: aci0_fac_of_def)
  have "section_size 0x240 (acid_fac_of b) (acid_sac_of b) (acid_kc_of b) < 2 ^ 32"
    using npdm_fits_bounds(1) [OF assms] by (simp add: acid_size_of_def)
  note f = section_fields [OF this] npdm_image_offsets(1) [OF assms]
  have c: "unat (word_of_nat 0x240 :: u32) = 0x240" by simp
  have acid: "sub_bytes (npdm_image b) (unat (pm_acid_offset (npdm_hdr n)) + unat (ad_fac_offset (npdm_acid n)))
      (unat (ad_fac_size (npdm_acid n))) = acid_fac_of b"
    "sub_bytes (npdm_image b) (unat (pm_acid_offset (npdm_hdr n)) + unat (ad_sac_offset (npdm_acid n)))
      (unat (ad_sac_size (npdm_acid n))) = acid_sac_of b"
    "sub_bytes (npdm_image b) (unat (pm_acid_offset (npdm_hdr n)) + unat (ad_kc_offset (npdm_acid n)))
      (unat (ad_kc_size (npdm_acid n))) = acid_kc_of b"
    using npdm_image_acid_blocks [of b] by (simp_all add: n_def acid_header_of_def Let_def f)
  have id: "ac_program_id (npdm_aci_of b) = (case np_aci b of Some a \<Rightarrow> ac_program_id a | None \<Rightarrow> nm_title_id (np_metadata b))"
    by (simp add: npdm_aci_of_def aci_data_default_def split: option.split)
  have name: "npdm_name n = cstr (take 15 (nm_name (np_metadata b)))"
    by (simp only: npdm_name_def n_def npdm.simps meta_header_of_def Let_def npdm_header.simps npdm_name_field_eq cstr_padded)
  show ?thesis
    by (intro exI [of _ "npdm_image b"] exI [of _ n] exI [of _ "aci0_fac_of b"] exI [of _ "aci0_sac_of b"] exI [of _ "aci0_kc_of b"] conjI)
      (simp_all only: npdm_build_image [OF assms] npdm_read_image [OF assms] n_def [symmetric]
        npdm_image_accessors [OF assms n_def] acid Let_def name,
       simp_all add: aci0_fac_of_def aci0_sac_of_def aci0_kc_of_def acid_fac_of_def acid_sac_of_def acid_kc_of_def
        access_header_fields read_content_owner_ids_access_header [OF fah] read_save_data_owner_ids_access_header [OF fah]
        read_built_services read_built_capabilities filesystem_access_control_fields,
       simp_all add: n_def npdm_main_thread_priority_def npdm_main_thread_stack_size_def npdm_program_id_range_def
        npdm_program_id_def meta_header_of_def acid_header_of_def aci0_header_of_def Let_def id)
qed

text \<open>The witness: fourteen letters and an accented one.  The cut goes through the two bytes of the last, and the name is
  read back as empty.\<close>

theorem npdm_round_trip_witness:
  "\<exists>img n sac. npdm_build npdm_example = Ok img \<and> npdm_try_from_bytes img = Ok n \<and> npdm_name n = []
    \<and> aci0_sac_data n = Ok sac \<and> read_services sac = [(ascii ''fsp-srv'', False)] \<and> npdm_program_id n = 0x42"
proof -
  have name: "cstr (take 15 (nm_name (np_metadata npdm_example))) = []"
    unfolding npdm_example_fields npdm_metadata.simps by code_simp
  have sac: "services_asked (ac_service_access (npdm_aci_of npdm_example)) = [(ascii ''fsp-srv'', False)]"
    by (simp add: npdm_example_fields services_asked_def ascii_def)
  have id: "(case np_aci npdm_example of Some a \<Rightarrow> ac_program_id a | None \<Rightarrow> nm_title_id (np_metadata npdm_example)) = 0x42"
    by (simp add: npdm_example_def npdm_with_aci_def aci_data_default_def npdm_new_def)
  show ?thesis
    using npdm_round_trip [OF npdm_example_fits] unfolding name sac id by blast
qed

text \<open>The NPDM reader never panics.  It accepts a buffer if and only if META header, magics and the extents and
  minimal sizes of both sections check out, and otherwise reports the first that does not.  An accessor
  of an ACI0 block returns the extent its fields name, relative to the section, if it ends inside
  the buffer, and otherwise reports that extent.\<close>

theorem npdm_reader_exact:
  "npdm_try_from_bytes bs = (case npdm_problem bs of Some e \<Rightarrow> Err e | None \<Rightarrow> Ok (npdm_view bs))
   \<and> [aci0_fac_data n, aci0_sac_data n, aci0_kc_data n]
      = map (\<lambda>(name, off, sz).
          let start = unat (pm_aci_offset (npdm_hdr n)) + unat off in
          if length (npdm_bytes n) < start + unat sz
          then Err (Npdm_Aci0InnerSectionOutOfBounds name (unat off) (unat sz) (start + unat sz) (length (npdm_bytes n)))
          else Ok (sub_bytes (npdm_bytes n) start (unat sz)))
        [(''FAC'', ai_fac_offset (npdm_aci0 n), ai_fac_size (npdm_aci0 n)),
         (''SAC'', ai_sac_offset (npdm_aci0 n), ai_sac_size (npdm_aci0 n)),
         (''KC'', ai_kc_offset (npdm_aci0 n), ai_kc_size (npdm_aci0 n))]"
  by (simp only: npdm_try_from_bytes_eq aci0_fac_data_def aci0_sac_data_def aci0_kc_data_def aci0_inner_data_eq
      list.map prod.case simp_thms)

end
