(* ===== verification/Nacp_Layout.thy ===== *)
theory Nacp_Layout
  imports NX_Codec
begin

text \<open>
  The NACP control structure of \<^verbatim>\<open>src/raw/nacp.rs\<close>: 0x4000 bytes in which every field has a fixed
  offset, with the language table and the two configurations nested in it.  The ages of
  \<^verbatim>\<open>rating_age\<close> are signed in the source; here they are their bytes.
\<close>

section \<open>The nested structures\<close>

record nacp_language_entry =
  nl_name :: bytes
  nl_author :: bytes

definition enc_nacp_language_entry :: "nacp_language_entry \<Rightarrow> bytes" where
  "enc_nacp_language_entry e = nl_name e @ nl_author e"

definition dec_nacp_language_entry :: "bytes \<Rightarrow> nacp_language_entry" where
  "dec_nacp_language_entry bs = \<lparr>nl_name = sub_bytes bs 0 0x200, nl_author = sub_bytes bs 0x200 0x100\<rparr>"

definition nacp_language_entry_wf :: "nacp_language_entry \<Rightarrow> bool" where
  "nacp_language_entry_wf e \<longleftrightarrow> length (nl_name e) = 0x200 \<and> length (nl_author e) = 0x100"

interpretation nacp_language_entry:
  layout enc_nacp_language_entry dec_nacp_language_entry "0x300" nacp_language_entry_wf
  by unfold_locales
    (simp_all add: enc_nacp_language_entry_def dec_nacp_language_entry_def nacp_language_entry_wf_def
      field_simps_le field_join length_sub_bytes)

record nacp_neighbor_detection_group_config =
  ng_group_id :: u64
  ng_key :: bytes

definition enc_nacp_neighbor_detection_group_config :: "nacp_neighbor_detection_group_config \<Rightarrow> bytes" where
  "enc_nacp_neighbor_detection_group_config g = le64 (ng_group_id g) @ ng_key g"

definition dec_nacp_neighbor_detection_group_config :: "bytes \<Rightarrow> nacp_neighbor_detection_group_config" where
  "dec_nacp_neighbor_detection_group_config bs = \<lparr>ng_group_id = rd64 bs 0, ng_key = sub_bytes bs 8 0x10\<rparr>"

interpretation nacp_group_config:
  layout enc_nacp_neighbor_detection_group_config dec_nacp_neighbor_detection_group_config "0x18"
    "\<lambda>g. length (ng_key g) = 0x10"
  by unfold_locales
    (simp_all add: enc_nacp_neighbor_detection_group_config_def dec_nacp_neighbor_detection_group_config_def
      field_simps_le field_join length_sub_bytes)

record nacp_neighbor_detection_client_config =
  nc_send_group_config :: nacp_neighbor_detection_group_config
  nc_receivable_group_configs :: "nacp_neighbor_detection_group_config list"

definition enc_nacp_neighbor_detection_client_config :: "nacp_neighbor_detection_client_config \<Rightarrow> bytes" where
  "enc_nacp_neighbor_detection_client_config c =
     enc_nacp_neighbor_detection_group_config (nc_send_group_config c)
     @ enc_table enc_nacp_neighbor_detection_group_config (nc_receivable_group_configs c)"

definition dec_nacp_neighbor_detection_client_config :: "bytes \<Rightarrow> nacp_neighbor_detection_client_config" where
  "dec_nacp_neighbor_detection_client_config bs =
     \<lparr>nc_send_group_config = dec_nacp_neighbor_detection_group_config bs,
      nc_receivable_group_configs = dec_table dec_nacp_neighbor_detection_group_config 0x18 0x10 (drop 0x18 bs)\<rparr>"

definition nacp_neighbor_detection_client_config_wf :: "nacp_neighbor_detection_client_config \<Rightarrow> bool" where
  "nacp_neighbor_detection_client_config_wf c \<longleftrightarrow>
     length (ng_key (nc_send_group_config c)) = 0x10 \<and> length (nc_receivable_group_configs c) = 0x10
     \<and> (\<forall>g\<in>set (nc_receivable_group_configs c). length (ng_key g) = 0x10)"

interpretation nacp_client_config:
  layout enc_nacp_neighbor_detection_client_config dec_nacp_neighbor_detection_client_config "0x198"
    nacp_neighbor_detection_client_config_wf
proof unfold_locales
  fix r rest assume wf: "nacp_neighbor_detection_client_config_wf r"
  note w = wf [unfolded nacp_neighbor_detection_client_config_wf_def]
  note len = nacp_group_config.enc_length [of "nc_send_group_config r"]
    nacp_group_config.enc_table_length [of "nc_receivable_group_configs r"]
  show "length (enc_nacp_neighbor_detection_client_config r) = 0x198"
    using w len by (simp add: enc_nacp_neighbor_detection_client_config_def)
  show "dec_nacp_neighbor_detection_client_config (enc_nacp_neighbor_detection_client_config r @ rest) = r"
    using w len nacp_group_config.dec_enc_table [of "nc_receivable_group_configs r" rest]
    by (simp add: enc_nacp_neighbor_detection_client_config_def dec_nacp_neighbor_detection_client_config_def
        nacp_group_config.dec_enc)
next
  fix bs :: bytes assume len: "0x198 \<le> length bs"
  have "\<forall>g\<in>set (dec_table dec_nacp_neighbor_detection_group_config 0x18 0x10 (drop 0x18 bs)). length (ng_key g) = 0x10"
    by (rule nacp_group_config.dec_table_wf) (use len in simp)
  then show "nacp_neighbor_detection_client_config_wf (dec_nacp_neighbor_detection_client_config bs)"
    using nacp_group_config.dec_wf [of bs] len
    by (simp only: nacp_neighbor_detection_client_config_wf_def dec_nacp_neighbor_detection_client_config_def
        nacp_neighbor_detection_client_config.simps length_dec_table)
  have "enc_table enc_nacp_neighbor_detection_group_config (dec_table dec_nacp_neighbor_detection_group_config 0x18 0x10 (drop 0x18 bs))
      = sub_bytes bs 0x18 0x180"
    using nacp_group_config.enc_dec_table [of "0x10" "drop 0x18 bs"] len by (simp add: sub_bytes_def)
  with len show "enc_nacp_neighbor_detection_client_config (dec_nacp_neighbor_detection_client_config bs) = take 0x198 bs"
    by (simp add: enc_nacp_neighbor_detection_client_config_def dec_nacp_neighbor_detection_client_config_def
        nacp_group_config.enc_dec field_join)
qed

record nacp_jit_configuration =
  nj_flags :: u64
  nj_memory_size :: u64

definition enc_nacp_jit_configuration :: "nacp_jit_configuration \<Rightarrow> bytes" where
  "enc_nacp_jit_configuration j = le64 (nj_flags j) @ le64 (nj_memory_size j)"

definition dec_nacp_jit_configuration :: "bytes \<Rightarrow> nacp_jit_configuration" where
  "dec_nacp_jit_configuration bs = \<lparr>nj_flags = rd64 bs 0, nj_memory_size = rd64 bs 8\<rparr>"

interpretation nacp_jit_configuration:
  layout enc_nacp_jit_configuration dec_nacp_jit_configuration "0x10" "\<lambda>_. True"
  by unfold_locales
    (simp_all add: enc_nacp_jit_configuration_def dec_nacp_jit_configuration_def field_simps_le field_join)

section \<open>The control structure\<close>

record nacp_struct =
  na_lang :: "nacp_language_entry list"
  na_isbn :: bytes
  na_startup_user_account :: u8
  na_user_account_switch_lock :: u8
  na_add_on_content_registration_type :: u8
  na_attribute_flag :: u32
  na_supported_language_flag :: u32
  na_parental_control_flag :: u32
  na_screenshot :: u8
  na_video_capture :: u8
  na_data_loss_confirmation :: u8
  na_play_log_policy :: u8
  na_presence_group_id :: u64
  na_rating_age :: bytes
  na_display_version :: bytes
  na_add_on_content_base_id :: u64
  na_save_data_owner_id :: u64
  na_user_account_save_data_size :: u64
  na_user_account_save_data_journal_size :: u64
  na_device_save_data_size :: u64
  na_device_save_data_journal_size :: u64
  na_bcat_delivery_cache_storage_size :: u64
  na_application_error_code_category :: u64
  na_local_communication_id :: "u64 list"
  na_logo_type :: u8
  na_logo_handling :: u8
  na_runtime_add_on_content_install :: u8
  na_runtime_parameter_delivery :: u8
  na_reserved_x30f4 :: bytes
  na_crash_report :: u8
  na_hdcp :: u8
  na_pseudo_device_id_seed :: u64
  na_bcat_passphrase :: bytes
  na_startup_user_account_option :: u8
  na_reserved_user_account_save_data_op :: bytes
  na_user_account_save_data_size_max :: u64
  na_user_account_save_data_journal_size_max :: u64
  na_device_save_data_size_max :: u64
  na_device_save_data_journal_size_max :: u64
  na_temporary_storage_size :: u64
  na_cache_storage_size :: u64
  na_cache_storage_journal_size :: u64
  na_cache_storage_data_and_journal_size_max :: u64
  na_cache_storage_index_max :: u16
  na_reserved_x318a :: bytes
  na_play_log_queryable_application_id :: "u64 list"
  na_play_log_query_capability :: u8
  na_repair_flag :: u8
  na_program_index :: u8
  na_required_network_service_license_on_launch :: u8
  na_reserved_x3214 :: u32
  na_neighbor_detection_client_config :: nacp_neighbor_detection_client_config
  na_jit_configuration :: nacp_jit_configuration
  na_reserved_x33c0 :: bytes

definition enc_nacp_struct :: "nacp_struct \<Rightarrow> bytes" where
  "enc_nacp_struct h =
     enc_table enc_nacp_language_entry (na_lang h) @ na_isbn h @ [na_startup_user_account h]
     @ [na_user_account_switch_lock h] @ [na_add_on_content_registration_type h]
     @ le32 (na_attribute_flag h) @ le32 (na_supported_language_flag h)
     @ le32 (na_parental_control_flag h) @ [na_screenshot h] @ [na_video_capture h]
     @ [na_data_loss_confirmation h] @ [na_play_log_policy h] @ le64 (na_presence_group_id h)
     @ na_rating_age h @ na_display_version h @ le64 (na_add_on_content_base_id h)
     @ le64 (na_save_data_owner_id h) @ le64 (na_user_account_save_data_size h)
     @ le64 (na_user_account_save_data_journal_size h) @ le64 (na_device_save_data_size h)
     @ le64 (na_device_save_data_journal_size h) @ le64 (na_bcat_delivery_cache_storage_size h)
     @ le64 (na_application_error_code_category h) @ enc_table le64 (na_local_communication_id h)
     @ [na_logo_type h] @ [na_logo_handling h] @ [na_runtime_add_on_content_install h]
     @ [na_runtime_parameter_delivery h] @ na_reserved_x30f4 h @ [na_crash_report h] @ [na_hdcp h]
     @ le64 (na_pseudo_device_id_seed h) @ na_bcat_passphrase h @ [na_startup_user_account_option h]
     @ na_reserved_user_account_save_data_op h @ le64 (na_user_account_save_data_size_max h)
     @ le64 (na_user_account_save_data_journal_size_max h) @ le64 (na_device_save_data_size_max h)
     @ le64 (na_device_save_data_journal_size_max h) @ le64 (na_temporary_storage_size h)
     @ le64 (na_cache_storage_size h) @ le64 (na_cache_storage_journal_size h)
     @ le64 (na_cache_storage_data_and_journal_size_max h) @ le16 (na_cache_storage_index_max h)
     @ na_reserved_x318a h @ enc_table le64 (na_play_log_queryable_application_id h)
     @ [na_play_log_query_capability h] @ [na_repair_flag h] @ [na_program_index h]
     @ [na_required_network_service_license_on_launch h] @ le32 (na_reserved_x3214 h)
     @ enc_nacp_neighbor_detection_client_config (na_neighbor_detection_client_config h)
     @ enc_nacp_jit_configuration (na_jit_configuration h) @ na_reserved_x33c0 h"

definition dec_nacp_struct :: "bytes \<Rightarrow> nacp_struct" where
  "dec_nacp_struct bs =
     \<lparr>na_lang = dec_table dec_nacp_language_entry 0x300 0x10 bs,
      na_isbn = sub_bytes bs 0x3000 0x25, na_startup_user_account = rd8 bs 0x3025,
      na_user_account_switch_lock = rd8 bs 0x3026, na_add_on_content_registration_type = rd8 bs 0x3027,
      na_attribute_flag = rd32 bs 0x3028, na_supported_language_flag = rd32 bs 0x302C,
      na_parental_control_flag = rd32 bs 0x3030, na_screenshot = rd8 bs 0x3034,
      na_video_capture = rd8 bs 0x3035, na_data_loss_confirmation = rd8 bs 0x3036,
      na_play_log_policy = rd8 bs 0x3037, na_presence_group_id = rd64 bs 0x3038,
      na_rating_age = sub_bytes bs 0x3040 0x20, na_display_version = sub_bytes bs 0x3060 0x10,
      na_add_on_content_base_id = rd64 bs 0x3070, na_save_data_owner_id = rd64 bs 0x3078,
      na_user_account_save_data_size = rd64 bs 0x3080,
      na_user_account_save_data_journal_size = rd64 bs 0x3088, na_device_save_data_size = rd64 bs 0x3090,
      na_device_save_data_journal_size = rd64 bs 0x3098,
      na_bcat_delivery_cache_storage_size = rd64 bs 0x30A0,
      na_application_error_code_category = rd64 bs 0x30A8,
      na_local_communication_id = dec_table (\<lambda>bs. rd64 bs 0) 8 8 (drop 0x30B0 bs),
      na_logo_type = rd8 bs 0x30F0, na_logo_handling = rd8 bs 0x30F1,
      na_runtime_add_on_content_install = rd8 bs 0x30F2, na_runtime_parameter_delivery = rd8 bs 0x30F3,
      na_reserved_x30f4 = sub_bytes bs 0x30F4 2, na_crash_report = rd8 bs 0x30F6, na_hdcp = rd8 bs 0x30F7,
      na_pseudo_device_id_seed = rd64 bs 0x30F8, na_bcat_passphrase = sub_bytes bs 0x3100 0x41,
      na_startup_user_account_option = rd8 bs 0x3141,
      na_reserved_user_account_save_data_op = sub_bytes bs 0x3142 6,
      na_user_account_save_data_size_max = rd64 bs 0x3148,
      na_user_account_save_data_journal_size_max = rd64 bs 0x3150,
      na_device_save_data_size_max = rd64 bs 0x3158,
      na_device_save_data_journal_size_max = rd64 bs 0x3160, na_temporary_storage_size = rd64 bs 0x3168,
      na_cache_storage_size = rd64 bs 0x3170, na_cache_storage_journal_size = rd64 bs 0x3178,
      na_cache_storage_data_and_journal_size_max = rd64 bs 0x3180,
      na_cache_storage_index_max = rd16 bs 0x3188, na_reserved_x318a = sub_bytes bs 0x318A 6,
      na_play_log_queryable_application_id = dec_table (\<lambda>bs. rd64 bs 0) 8 0x10 (drop 0x3190 bs),
      na_play_log_query_capability = rd8 bs 0x3210, na_repair_flag = rd8 bs 0x3211,
      na_program_index = rd8 bs 0x3212, na_required_network_service_license_on_launch = rd8 bs 0x3213,
      na_reserved_x3214 = rd32 bs 0x3214,
      na_neighbor_detection_client_config = dec_nacp_neighbor_detection_client_config (drop 0x3218 bs),
      na_jit_configuration = dec_nacp_jit_configuration (drop 0x33B0 bs),
      na_reserved_x33c0 = sub_bytes bs 0x33C0 0xC40\<rparr>"

definition nacp_struct_wf :: "nacp_struct \<Rightarrow> bool" where
  "nacp_struct_wf h \<longleftrightarrow>
     length (na_lang h) = 0x10 \<and> (\<forall>e\<in>set (na_lang h). nacp_language_entry_wf e)
     \<and> length (na_isbn h) = 0x25 \<and> length (na_rating_age h) = 0x20
     \<and> length (na_display_version h) = 0x10 \<and> length (na_local_communication_id h) = 8
     \<and> length (na_reserved_x30f4 h) = 2 \<and> length (na_bcat_passphrase h) = 0x41
     \<and> length (na_reserved_user_account_save_data_op h) = 6 \<and> length (na_reserved_x318a h) = 6
     \<and> length (na_play_log_queryable_application_id h) = 0x10
     \<and> nacp_neighbor_detection_client_config_wf (na_neighbor_detection_client_config h)
     \<and> length (na_reserved_x33c0 h) = 0xC40"

text \<open>The fields that are arrays or structures, in one place; the rest is bytes at fixed offsets.\<close>

lemma nacp_struct_lengths:
  assumes "nacp_struct_wf r"
  shows "length (na_isbn r) = 0x25" "length (na_rating_age r) = 0x20" "length (na_display_version r) = 0x10"
    "length (na_reserved_x30f4 r) = 2" "length (na_bcat_passphrase r) = 0x41"
    "length (na_reserved_user_account_save_data_op r) = 6" "length (na_reserved_x318a r) = 6"
    "length (na_reserved_x33c0 r) = 0xC40"
    "length (enc_table enc_nacp_language_entry (na_lang r)) = 0x3000"
    "length (enc_table le64 (na_local_communication_id r)) = 0x40"
    "length (enc_table le64 (na_play_log_queryable_application_id r)) = 0x80"
    "length (enc_nacp_neighbor_detection_client_config (na_neighbor_detection_client_config r)) = 0x198"
    "length (enc_nacp_jit_configuration (na_jit_configuration r)) = 0x10"
  using assms nacp_language_entry.enc_table_length [of "na_lang r"] u64_word.enc_table_length [of "na_local_communication_id r"]
    u64_word.enc_table_length [of "na_play_log_queryable_application_id r"]
    nacp_client_config.enc_length [of "na_neighbor_detection_client_config r"]
    nacp_jit_configuration.enc_length [of "na_jit_configuration r"]
  by (simp_all add: nacp_struct_wf_def)

lemma nacp_struct_nested:
  assumes "nacp_struct_wf r"
  shows "dec_table dec_nacp_language_entry 0x300 0x10 (enc_table enc_nacp_language_entry (na_lang r) @ xs) = na_lang r"
    "dec_table (\<lambda>bs. rd64 bs 0) 8 8 (enc_table le64 (na_local_communication_id r) @ xs) = na_local_communication_id r"
    "dec_table (\<lambda>bs. rd64 bs 0) 8 0x10 (enc_table le64 (na_play_log_queryable_application_id r) @ xs)
       = na_play_log_queryable_application_id r"
    "dec_nacp_neighbor_detection_client_config (enc_nacp_neighbor_detection_client_config (na_neighbor_detection_client_config r) @ xs)
       = na_neighbor_detection_client_config r"
    "dec_nacp_jit_configuration (enc_nacp_jit_configuration (na_jit_configuration r) @ xs) = na_jit_configuration r"
  using assms nacp_language_entry.dec_enc_table [of "na_lang r" xs] u64_word.dec_enc_table [of "na_local_communication_id r" xs]
    u64_word.dec_enc_table [of "na_play_log_queryable_application_id r" xs]
    nacp_client_config.dec_enc [of "na_neighbor_detection_client_config r" xs]
    nacp_jit_configuration.dec_enc [of "na_jit_configuration r" xs]
  by (simp_all add: nacp_struct_wf_def)

interpretation nacp_struct: layout enc_nacp_struct dec_nacp_struct "0x4000" nacp_struct_wf
proof unfold_locales
  fix r rest assume wf: "nacp_struct_wf r"
  note L = nacp_struct_lengths [OF wf] and T = nacp_struct_nested [OF wf]
  show "length (enc_nacp_struct r) = 0x4000"
    by (simp add: enc_nacp_struct_def L)
  show "dec_nacp_struct (enc_nacp_struct r @ rest) = r"
    unfolding dec_nacp_struct_def enc_nacp_struct_def append_assoc append_Cons append_Nil
    by (simp add: L T field_simps_le drop_skip del: drop_append)
next
  fix bs :: bytes assume len: "0x4000 \<le> length bs"
  have w: "\<forall>e\<in>set (dec_table dec_nacp_language_entry 0x300 0x10 bs). nacp_language_entry_wf e"
    "nacp_neighbor_detection_client_config_wf (dec_nacp_neighbor_detection_client_config (drop 0x3218 bs))"
    by (rule nacp_language_entry.dec_table_wf nacp_client_config.dec_wf; use len in simp)+
  show "nacp_struct_wf (dec_nacp_struct bs)"
    using w unfolding nacp_struct_wf_def dec_nacp_struct_def nacp_struct.simps
    by (intro conjI) (use len in \<open>simp_all only: length_dec_table length_sub_bytes\<close>)
  have t: "enc_table enc_nacp_language_entry (dec_table dec_nacp_language_entry 0x300 0x10 bs) = sub_bytes bs 0 0x3000"
    "enc_table le64 (dec_table (\<lambda>bs. rd64 bs 0) 8 8 (drop 0x30B0 bs)) = sub_bytes bs 0x30B0 0x40"
    "enc_table le64 (dec_table (\<lambda>bs. rd64 bs 0) 8 0x10 (drop 0x3190 bs)) = sub_bytes bs 0x3190 0x80"
    "enc_nacp_neighbor_detection_client_config (dec_nacp_neighbor_detection_client_config (drop 0x3218 bs)) = sub_bytes bs 0x3218 0x198"
    "enc_nacp_jit_configuration (dec_nacp_jit_configuration (drop 0x33B0 bs)) = sub_bytes bs 0x33B0 0x10"
    unfolding sub_bytes_def
    by (subst nacp_language_entry.enc_dec_table u64_word.enc_dec_table nacp_client_config.enc_dec
        nacp_jit_configuration.enc_dec; use len in simp)+
  from len show "enc_nacp_struct (dec_nacp_struct bs) = take 0x4000 bs"
    by (simp add: enc_nacp_struct_def dec_nacp_struct_def t field_simps_le field_join)
qed

end
