(* ===== verification/Nacp.thy ===== *)
theory Nacp
  imports Nacp_Layout
begin

text \<open>
  NACP, the control structure a title is presented by: the builder of \<^verbatim>\<open>src/write/nacp.rs\<close> and
  the reader of \<^verbatim>\<open>src/read/nacp.rs\<close>.  The builder fills the fields of a structure mapped onto
  a zeroed buffer; the image is that structure's bytes.
\<close>

section \<open>Languages\<close>

datatype set_language =
    JA | ENUS | FR | DE | IT | ES | ZHCN | KO | NL | PT | RU | ZHTW | ENGB | FRCA | ES419 | ZHHANS | ZHHANT | PTBR

text \<open>\<^verbatim>\<open>lang as usize\<close>.\<close>

fun set_language_code :: "set_language \<Rightarrow> nat" where
  "set_language_code JA = 0"
| "set_language_code ENUS = 1"
| "set_language_code FR = 2"
| "set_language_code DE = 3"
| "set_language_code IT = 4"
| "set_language_code ES = 5"
| "set_language_code ZHCN = 6"
| "set_language_code KO = 7"
| "set_language_code NL = 8"
| "set_language_code PT = 9"
| "set_language_code RU = 10"
| "set_language_code ZHTW = 11"
| "set_language_code ENGB = 12"
| "set_language_code FRCA = 13"
| "set_language_code ES419 = 14"
| "set_language_code ZHHANS = 15"
| "set_language_code ZHHANT = 16"
| "set_language_code PTBR = 17"

definition LANGUAGE_TABLE :: "nat list" where
  "LANGUAGE_TABLE = [2, 0, 3, 4, 7, 6, 14, 12, 8, 10, 11, 13, 1, 9, 5, 14, 13, 15]"

fun language_to_index :: "set_language \<Rightarrow> nat option" where
  "language_to_index ENUS = Some 0"
| "language_to_index ENGB = Some 1"
| "language_to_index JA = Some 2"
| "language_to_index FR = Some 3"
| "language_to_index DE = Some 4"
| "language_to_index ES419 = Some 5"
| "language_to_index ES = Some 6"
| "language_to_index IT = Some 7"
| "language_to_index NL = Some 8"
| "language_to_index FRCA = Some 9"
| "language_to_index PT = Some 10"
| "language_to_index RU = Some 11"
| "language_to_index KO = Some 12"
| "language_to_index ZHTW = Some 13"
| "language_to_index ZHHANT = Some 13"
| "language_to_index ZHCN = Some 14"
| "language_to_index ZHHANS = Some 14"
| "language_to_index PTBR = Some 15"

section \<open>The builder\<close>

record nacp_builder =
  nb_names :: "bytes option list"
  nb_authors :: "bytes option list"
  nb_display_version :: "bytes option"
  nb_application_id :: "u64 option"
  nb_save_data_owner_id :: "u64 option"
  nb_user_account_save_data_size :: "u64 option"
  nb_user_account_save_data_journal_size :: "u64 option"

definition nacp_new :: nacp_builder where
  "nacp_new =
     \<lparr>nb_names = replicate 16 None, nb_authors = replicate 16 None, nb_display_version = None,
      nb_application_id = None, nb_save_data_owner_id = None, nb_user_account_save_data_size = None,
      nb_user_account_save_data_journal_size = None\<rparr>"

definition nacp_set_name :: "bytes \<Rightarrow> nacp_builder \<Rightarrow> nacp_builder" where
  "nacp_set_name n b = b\<lparr>nb_names := map (\<lambda>_. Some n) (nb_names b)\<rparr>"
definition nacp_set_name_for_language :: "set_language \<Rightarrow> bytes \<Rightarrow> nacp_builder \<Rightarrow> nacp_builder" where
  "nacp_set_name_for_language lang n b =
     (case language_to_index lang of
        Some idx \<Rightarrow> b\<lparr>nb_names := (nb_names b)[idx := Some n]\<rparr>
      | None \<Rightarrow> b)"
definition nacp_set_author :: "bytes \<Rightarrow> nacp_builder \<Rightarrow> nacp_builder" where
  "nacp_set_author a b = b\<lparr>nb_authors := map (\<lambda>_. Some a) (nb_authors b)\<rparr>"
definition nacp_set_author_for_language :: "set_language \<Rightarrow> bytes \<Rightarrow> nacp_builder \<Rightarrow> nacp_builder" where
  "nacp_set_author_for_language lang a b =
     (case language_to_index lang of
        Some idx \<Rightarrow> b\<lparr>nb_authors := (nb_authors b)[idx := Some a]\<rparr>
      | None \<Rightarrow> b)"
definition nacp_set_version :: "bytes \<Rightarrow> nacp_builder \<Rightarrow> nacp_builder" where
  "nacp_set_version v b = b\<lparr>nb_display_version := Some v\<rparr>"
definition nacp_set_application_id :: "u64 \<Rightarrow> nacp_builder \<Rightarrow> nacp_builder" where
  "nacp_set_application_id i b = b\<lparr>nb_application_id := Some i\<rparr>"
definition nacp_set_save_data_owner_id :: "u64 \<Rightarrow> nacp_builder \<Rightarrow> nacp_builder" where
  "nacp_set_save_data_owner_id i b = b\<lparr>nb_save_data_owner_id := Some i\<rparr>"
definition nacp_set_user_account_save_data_size :: "u64 \<Rightarrow> nacp_builder \<Rightarrow> nacp_builder" where
  "nacp_set_user_account_save_data_size n b = b\<lparr>nb_user_account_save_data_size := Some n\<rparr>"
definition nacp_set_user_account_save_data_journal_size :: "u64 \<Rightarrow> nacp_builder \<Rightarrow> nacp_builder" where
  "nacp_set_user_account_save_data_journal_size n b = b\<lparr>nb_user_account_save_data_journal_size := Some n\<rparr>"

datatype nacp_build_error =
    Nacp_NameTooLong (language_index: nat) (text_len: nat)
  | Nacp_AuthorTooLong (language_index: nat) (text_len: nat)
  | Nacp_VersionTooLong (text_len: nat)
  | Nacp_InternalBufferSizeError

text \<open>\<^verbatim>\<open>field[..text.len()].copy_from_slice(text)\<close>, after the check that leaves room for a NUL.\<close>

definition nacp_fill_text ::
  "nat \<Rightarrow> (nat \<Rightarrow> nacp_build_error) \<Rightarrow> bytes option \<Rightarrow> bytes \<Rightarrow> (bytes, nacp_build_error) result" where
  "nacp_fill_text width too_long opt field =
     (case opt of
        None \<Rightarrow> Ok field
      | Some txt \<Rightarrow> if length txt \<ge> width then Err (too_long (length txt)) else copy_at field 0 txt)"

definition nacp_fill_language ::
  "nacp_struct \<Rightarrow> nat \<times> bytes option \<times> bytes option \<Rightarrow> (nacp_struct, nacp_build_error) result" where
  "nacp_fill_language nacp = (\<lambda>(i, name_opt, author_opt).
     rbind (at (na_lang nacp) i) (\<lambda>entry.
     rbind (nacp_fill_text 0x200 (Nacp_NameTooLong i) name_opt (nl_name entry)) (\<lambda>name.
     rbind (nacp_fill_text 0x100 (Nacp_AuthorTooLong i) author_opt (nl_author entry)) (\<lambda>author.
       Ok (nacp\<lparr>na_lang := (na_lang nacp)[i := \<lparr>nl_name = name, nl_author = author\<rparr>]\<rparr>)))))"

definition nacp_defaults :: "nacp_struct \<Rightarrow> nacp_struct" where
  "nacp_defaults nacp =
     nacp\<lparr>na_startup_user_account := 1, na_supported_language_flag := 0xFFFF, na_data_loss_confirmation := 1,
       na_rating_age := replicate 0x20 0xFF, na_user_account_save_data_size := 0x3e00000,
       na_user_account_save_data_journal_size := 0x180000, na_logo_type := 2, na_logo_handling := 1\<rparr>"

definition nacp_fill_application_id :: "u64 option \<Rightarrow> nacp_struct \<Rightarrow> (nacp_struct, 'e) result" where
  "nacp_fill_application_id opt nacp =
     (case opt of
        None \<Rightarrow> Ok nacp
      | Some i \<Rightarrow>
          rbind (wadd i 0x1000) (\<lambda>base.
            Ok (nacp\<lparr>na_presence_group_id := i, na_add_on_content_base_id := base, na_save_data_owner_id := i,
              na_local_communication_id := (na_local_communication_id nacp)[0 := i, 1 := i],
              na_pseudo_device_id_seed := i\<rparr>)))"

definition nacp_overrides :: "nacp_builder \<Rightarrow> nacp_struct \<Rightarrow> nacp_struct" where
  "nacp_overrides b nacp =
     (let nacp = (case nb_save_data_owner_id b of Some i \<Rightarrow> nacp\<lparr>na_save_data_owner_id := i\<rparr> | None \<Rightarrow> nacp);
          nacp = (case nb_user_account_save_data_size b of
                    Some n \<Rightarrow> nacp\<lparr>na_user_account_save_data_size := n\<rparr> | None \<Rightarrow> nacp)
      in (case nb_user_account_save_data_journal_size b of
            Some n \<Rightarrow> nacp\<lparr>na_user_account_save_data_journal_size := n\<rparr> | None \<Rightarrow> nacp))"

definition nacp_build :: "nacp_builder \<Rightarrow> (bytes, nacp_build_error) result" where
  "nacp_build b =
     (let buf = zeros 0x4000 in
      if length buf \<noteq> 0x4000 then Err Nacp_InternalBufferSizeError
      else
        rbind (rfold nacp_fill_language (dec_nacp_struct buf) (enumerate 0 (zip (nb_names b) (nb_authors b)))) (\<lambda>nacp.
        rbind (nacp_fill_text 0x10 Nacp_VersionTooLong (nb_display_version b) (na_display_version nacp)) (\<lambda>version.
        let nacp = nacp_defaults (nacp\<lparr>na_display_version := version\<rparr>) in
        rbind (nacp_fill_application_id (nb_application_id b) nacp) (\<lambda>nacp.
          Ok (enc_nacp_struct (nacp_overrides b nacp))))))"

section \<open>The reader\<close>

datatype nacp_parse_error = Nacp_BufferTooSmall (required: nat) (available: nat)

record nacp =
  nacp_raw :: nacp_struct

definition nacp_try_from_bytes :: "bytes \<Rightarrow> (nacp, nacp_parse_error) result" where
  "nacp_try_from_bytes bs =
     (if length bs < 0x4000 then Err (Nacp_BufferTooSmall 0x4000 (length bs))
      else rbind (ok_or (Nacp_BufferTooSmall 0x4000 (length bs)) (ref_from_prefix dec_nacp_struct 0x4000 bs))
             (\<lambda>(raw, _). Ok \<lparr>nacp_raw = raw\<rparr>))"

definition nacp_language_entry_at :: "nacp \<Rightarrow> nat \<Rightarrow> nacp_language_entry option" where
  "nacp_language_entry_at n index =
     (if index \<ge> 16 then None
      else let entry = na_lang (nacp_raw n) ! index in
        if nl_name entry ! 0 = 0 then None else Some entry)"

definition nacp_display_version :: "nacp \<Rightarrow> bytes" where
  "nacp_display_version n = cstr (na_display_version (nacp_raw n))"

fun nacp_first_entry :: "nacp \<Rightarrow> nat list \<Rightarrow> nacp_language_entry option" where
  "nacp_first_entry n [] = None"
| "nacp_first_entry n (i # is) =
     (case nacp_language_entry_at n i of Some entry \<Rightarrow> Some entry | None \<Rightarrow> nacp_first_entry n is)"

definition nacp_language_entry_for :: "nacp \<Rightarrow> set_language \<Rightarrow> nacp_language_entry option" where
  "nacp_language_entry_for n lang =
     (let idx = (if set_language_code lang < length LANGUAGE_TABLE then LANGUAGE_TABLE ! set_language_code lang else 0)
      in case nacp_language_entry_at n idx of
           Some entry \<Rightarrow> Some entry
         | None \<Rightarrow> nacp_first_entry n [0..<16])"

end
