(* ===== verification/Nacp_Properties.thy ===== *)
theory Nacp_Properties
  imports Nacp
begin

text \<open>What the NACP builder and reader promise: which problem of a build is reported, what a built structure
  holds, and that both sides agree on where a language's entry is.\<close>

section \<open>The texts of a structure\<close>

definition nacp_text_problem :: "nat \<Rightarrow> (nat \<Rightarrow> nacp_build_error) \<Rightarrow> bytes option \<Rightarrow> nacp_build_error list" where
  "nacp_text_problem width bad opt =
     (case opt of Some t \<Rightarrow> if width \<le> length t then [bad (length t)] else [] | None \<Rightarrow> [])"

definition nacp_padded :: "nat \<Rightarrow> bytes option \<Rightarrow> bytes" where
  "nacp_padded width opt = (case opt of Some t \<Rightarrow> t @ zeros (width - length t) | None \<Rightarrow> zeros width)"

lemma nacp_fill_text_eq:
  "nacp_fill_text width bad opt (zeros width) =
     (case nacp_text_problem width bad opt of e # _ \<Rightarrow> Err e | [] \<Rightarrow> Ok (nacp_padded width opt))"
  by (cases opt) (simp_all add: nacp_fill_text_def nacp_text_problem_def nacp_padded_def drop_zeros)

lemma length_nacp_padded: "nacp_text_problem width bad opt = [] \<Longrightarrow> length (nacp_padded width opt) = width"
  by (cases opt) (simp_all add: nacp_text_problem_def nacp_padded_def split: if_splits)

lemma cstr_nacp_padded: "cstr (nacp_padded width opt) = (case opt of Some t \<Rightarrow> cstr t | None \<Rightarrow> [])"
  using takeWhile_padded [of "[]" width]
  by (cases opt) (simp_all add: nacp_padded_def cstr_padded, simp add: cstr_def str_or_empty_def)

definition nacp_language_problems :: "nat \<times> bytes option \<times> bytes option \<Rightarrow> nacp_build_error list" where
  "nacp_language_problems = (\<lambda>(i, name, author).
     nacp_text_problem 0x200 (Nacp_NameTooLong i) name @ nacp_text_problem 0x100 (Nacp_AuthorTooLong i) author)"

definition nacp_language_entry :: "bytes option \<times> bytes option \<Rightarrow> nacp_language_entry" where
  "nacp_language_entry = (\<lambda>(name, author).
     \<lparr>nl_name = nacp_padded 0x200 name, nl_author = nacp_padded 0x100 author\<rparr>)"

text \<open>The loop over the language table.\<close>

lemma nacp_fill_language_eq:
  assumes "na_lang s = pre @ \<lparr>nl_name = zeros 0x200, nl_author = zeros 0x100\<rparr> # post"
  shows "nacp_fill_language s (length pre, e) =
     (case nacp_language_problems (length pre, e) of
        x # _ \<Rightarrow> Err x
      | [] \<Rightarrow> Ok (s\<lparr>na_lang := pre @ nacp_language_entry e # post\<rparr>))"
proof -
  obtain name author where e: "e = (name, author)" by (cases e)
  let ?entry = "\<lparr>nl_name = zeros 0x200, nl_author = zeros 0x100\<rparr>"
  have at: "at (na_lang s) (length pre) = (Ok ?entry :: (_, nacp_build_error) result)"
    using assms by simp
  show ?thesis
    unfolding nacp_fill_language_def e prod.case at
    by (cases "nacp_text_problem 0x200 (Nacp_NameTooLong (length pre)) name";
        cases "nacp_text_problem 0x100 (Nacp_AuthorTooLong (length pre)) author")
      (simp_all add: assms nacp_language_problems_def nacp_language_entry_def nacp_fill_text_eq)
qed

lemma nacp_fill_languages:
  assumes "na_lang s = pre @ replicate (length es) \<lparr>nl_name = zeros 0x200, nl_author = zeros 0x100\<rparr>"
  shows "rfold nacp_fill_language s (enumerate (length pre) es) =
     (case concat (map nacp_language_problems (enumerate (length pre) es)) of
        x # _ \<Rightarrow> Err x
      | [] \<Rightarrow> Ok (s\<lparr>na_lang := pre @ map nacp_language_entry es\<rparr>))"
  using assms
proof (induction es arbitrary: s pre)
  case (Cons e es)
  have fill: "nacp_fill_language s (length pre, e) =
     (case nacp_language_problems (length pre, e) of
        x # _ \<Rightarrow> Err x
      | [] \<Rightarrow> Ok (s\<lparr>na_lang := pre @ nacp_language_entry e # replicate (length es) \<lparr>nl_name = zeros 0x200, nl_author = zeros 0x100\<rparr>\<rparr>))"
    using Cons.prems by (intro nacp_fill_language_eq) simp
  show ?case
  proof (cases "nacp_language_problems (length pre, e)")
    case (Cons x xs)
    then show ?thesis by (simp add: fill)
  next
    case Nil
    let ?s = "s\<lparr>na_lang := (pre @ [nacp_language_entry e]) @ replicate (length es) \<lparr>nl_name = zeros 0x200, nl_author = zeros 0x100\<rparr>\<rparr>"
    show ?thesis
      using Cons.IH [of ?s "pre @ [nacp_language_entry e]"] Nil
      by (cases "concat (map nacp_language_problems (enumerate (Suc (length pre)) es))")
        (simp_all add: fill del: concat_eq_Nil_conv)
  qed
qed simp

section \<open>The structure a build produces\<close>

definition nacp_builder_ok :: "nacp_builder \<Rightarrow> bool" where
  "nacp_builder_ok b \<longleftrightarrow> length (nb_names b) = 16 \<and> length (nb_authors b) = 16"

definition nacp_problems :: "nacp_builder \<Rightarrow> nacp_build_error list" where
  "nacp_problems b =
     concat (map nacp_language_problems (enumerate 0 (zip (nb_names b) (nb_authors b))))
     @ nacp_text_problem 0x10 Nacp_VersionTooLong (nb_display_version b)"

definition nacp_id_ok :: "nacp_builder \<Rightarrow> bool" where
  "nacp_id_ok b = (case nb_application_id b of Some i \<Rightarrow> unat i + 0x1000 < 2 ^ 64 | None \<Rightarrow> True)"

definition nacp_contents :: "nacp_builder \<Rightarrow> nacp_struct" where
  "nacp_contents b =
     (let app = (case nb_application_id b of Some i \<Rightarrow> i | None \<Rightarrow> 0) in
      (dec_nacp_struct (zeros 0x4000))
        \<lparr>na_lang := map nacp_language_entry (zip (nb_names b) (nb_authors b)),
         na_display_version := nacp_padded 0x10 (nb_display_version b),
         na_startup_user_account := 1, na_supported_language_flag := 0xFFFF, na_data_loss_confirmation := 1,
         na_rating_age := replicate 0x20 0xFF, na_logo_type := 2, na_logo_handling := 1,
         na_presence_group_id := app,
         na_add_on_content_base_id := (case nb_application_id b of Some i \<Rightarrow> i + 0x1000 | None \<Rightarrow> 0),
         na_save_data_owner_id := (case nb_save_data_owner_id b of Some i \<Rightarrow> i | None \<Rightarrow> app),
         na_local_communication_id := [app, app, 0, 0, 0, 0, 0, 0], na_pseudo_device_id_seed := app,
         na_user_account_save_data_size := (case nb_user_account_save_data_size b of Some n \<Rightarrow> n | None \<Rightarrow> 0x3e00000),
         na_user_account_save_data_journal_size :=
           (case nb_user_account_save_data_journal_size b of Some n \<Rightarrow> n | None \<Rightarrow> 0x180000)\<rparr>)"

lemma sub_bytes_zeros: "off + k \<le> n \<Longrightarrow> sub_bytes (zeros n) off k = zeros k"
  by (simp add: sub_bytes_def drop_zeros take_zeros)

lemma rd64_zeros: "off + 8 \<le> n \<Longrightarrow> rd64 (zeros n) off = 0"
  using le_nat_append_zeros [of "[]" 8] by (simp add: rd64_def sub_bytes_zeros) (simp add: zeros_def)

lemma nacp_zeroed:
  "na_lang (dec_nacp_struct (zeros 0x4000)) = replicate 16 \<lparr>nl_name = zeros 0x200, nl_author = zeros 0x100\<rparr>"
  "na_display_version (dec_nacp_struct (zeros 0x4000)) = zeros 0x10"
  "na_local_communication_id (dec_nacp_struct (zeros 0x4000)) = [0, 0, 0, 0, 0, 0, 0, 0]"
  "na_presence_group_id (dec_nacp_struct (zeros 0x4000)) = 0" "na_pseudo_device_id_seed (dec_nacp_struct (zeros 0x4000)) = 0"
  "na_add_on_content_base_id (dec_nacp_struct (zeros 0x4000)) = 0" "na_save_data_owner_id (dec_nacp_struct (zeros 0x4000)) = 0"
proof -
  have "dec_table dec_nacp_language_entry 0x300 0x10 (zeros 0x4000) = replicate 16 \<lparr>nl_name = zeros 0x200, nl_author = zeros 0x100\<rparr>"
  proof (rule nth_equalityI)
    fix i assume "i < length (dec_table dec_nacp_language_entry 0x300 0x10 (zeros 0x4000))"
    then show "dec_table dec_nacp_language_entry 0x300 0x10 (zeros 0x4000) ! i
        = replicate 16 \<lparr>nl_name = zeros 0x200, nl_author = zeros 0x100\<rparr> ! i"
      by (simp add: dec_nacp_language_entry_def drop_zeros sub_bytes_zeros)
  qed simp
  then show "na_lang (dec_nacp_struct (zeros 0x4000)) = replicate 16 \<lparr>nl_name = zeros 0x200, nl_author = zeros 0x100\<rparr>"
    by (simp only: dec_nacp_struct_def nacp_struct.simps)
  have "dec_table (\<lambda>bs. rd64 bs 0) 8 8 (zeros n) = replicate 8 0" if "0x40 \<le> n" for n
    by (rule nth_equalityI) (use that in \<open>simp_all add: drop_zeros rd64_zeros\<close>)
  moreover have eight: "replicate 8 (0 :: u64) = [0, 0, 0, 0, 0, 0, 0, 0]" by (simp add: numeral_eq_Suc)
  ultimately show "na_local_communication_id (dec_nacp_struct (zeros 0x4000)) = [0, 0, 0, 0, 0, 0, 0, 0]"
    by (simp only: dec_nacp_struct_def nacp_struct.simps drop_zeros)
qed (simp_all only: dec_nacp_struct_def nacp_struct.simps, simp_all add: sub_bytes_zeros rd64_zeros)

lemma nacp_contents_wf:
  assumes "nacp_builder_ok b" "nacp_problems b = []"
  shows "nacp_struct_wf (nacp_contents b)"
proof -
  have "nacp_struct_wf (dec_nacp_struct (zeros 0x4000))" by (rule nacp_struct.dec_wf) simp
  moreover have "nacp_language_entry_wf e" if mem: "e \<in> set (map nacp_language_entry (zip (nb_names b) (nb_authors b)))" for e
  proof -
    obtain p where p: "p \<in> set (zip (nb_names b) (nb_authors b))" and e: "e = nacp_language_entry p"
      using mem unfolding set_map by blast
    obtain i where "i < length (zip (nb_names b) (nb_authors b))" "p = zip (nb_names b) (nb_authors b) ! i"
      using p [unfolded in_set_conv_nth] by blast
    then have "(i, p) \<in> set (enumerate 0 (zip (nb_names b) (nb_authors b)))"
      by (simp add: in_set_enumerate_eq)
    then have "nacp_language_problems (i, p) = []" using assms(2) by (auto simp: nacp_problems_def)
    then show ?thesis
      by (auto simp: e nacp_language_entry_wf_def nacp_language_entry_def nacp_language_problems_def
          length_nacp_padded split: prod.splits)
  qed
  moreover have "length (nacp_padded 0x10 (nb_display_version b)) = 0x10"
    using assms(2) by (intro length_nacp_padded [where bad = Nacp_VersionTooLong]) (simp add: nacp_problems_def)
  ultimately show ?thesis
    using assms(1) by (simp add: nacp_struct_wf_def nacp_contents_def nacp_builder_ok_def Let_def)
qed

lemma nacp_overrides_eq:
  "nacp_overrides b s = s
     \<lparr>na_save_data_owner_id := (case nb_save_data_owner_id b of Some i \<Rightarrow> i | None \<Rightarrow> na_save_data_owner_id s),
      na_user_account_save_data_size :=
        (case nb_user_account_save_data_size b of Some n \<Rightarrow> n | None \<Rightarrow> na_user_account_save_data_size s),
      na_user_account_save_data_journal_size :=
        (case nb_user_account_save_data_journal_size b of
           Some n \<Rightarrow> n | None \<Rightarrow> na_user_account_save_data_journal_size s)\<rparr>"
  by (cases "nb_save_data_owner_id b"; cases "nb_user_account_save_data_size b";
      cases "nb_user_account_save_data_journal_size b") (simp_all add: nacp_overrides_def)

lemma nacp_fill_fields:
  "rbind (nacp_fill_application_id (nb_application_id b)
       (nacp_defaults ((dec_nacp_struct (zeros 0x4000))
         \<lparr>na_lang := map nacp_language_entry (zip (nb_names b) (nb_authors b)),
          na_display_version := nacp_padded 0x10 (nb_display_version b)\<rparr>)))
     (\<lambda>nacp. Ok (enc_nacp_struct (nacp_overrides b nacp)) :: (bytes, 'e) result)
   = (if nacp_id_ok b then Ok (enc_nacp_struct (nacp_contents b)) else Panic)"
proof (cases "nb_application_id b")
  case None
  then show ?thesis
    by (simp add: nacp_fill_application_id_def nacp_id_ok_def)
      (intro arg_cong [where f = enc_nacp_struct] nacp_struct.equality;
        simp add: nacp_overrides_eq nacp_defaults_def nacp_contents_def nacp_zeroed Let_def split: option.split)
next
  case (Some i)
  show ?thesis
  proof (cases "unat i + 0x1000 < 2 ^ 64")
    case True
    then show ?thesis
      using Some
      by (simp add: nacp_fill_application_id_def nacp_id_ok_def wadd_def)
        (intro arg_cong [where f = enc_nacp_struct] nacp_struct.equality;
          simp add: nacp_overrides_eq nacp_defaults_def nacp_contents_def nacp_zeroed Let_def split: option.split)
  next
    case False
    with Some show ?thesis by (simp add: nacp_fill_application_id_def nacp_id_ok_def wadd_def)
  qed
qed

lemma nacp_build_eq:
  assumes "nacp_builder_ok b"
  shows "nacp_build b =
     (case nacp_problems b of
        e # _ \<Rightarrow> Err e
      | [] \<Rightarrow> if nacp_id_ok b then Ok (enc_nacp_struct (nacp_contents b)) else Panic)"
proof -
  let ?es = "zip (nb_names b) (nb_authors b)" and ?z = "dec_nacp_struct (zeros 0x4000)"
  let ?ps = "concat (map nacp_language_problems (enumerate 0 ?es))"
  have loop: "rfold nacp_fill_language ?z (enumerate 0 ?es) =
     (case ?ps of x # _ \<Rightarrow> Err x | [] \<Rightarrow> Ok (?z\<lparr>na_lang := map nacp_language_entry ?es\<rparr>))"
    by (rule nacp_fill_languages [of ?z "[]" ?es, unfolded append_Nil list.size(3)])
      (use assms in \<open>simp add: nacp_zeroed nacp_builder_ok_def\<close>)
  show ?thesis
  proof (cases ?ps)
    case (Cons e ps)
    then show ?thesis by (simp add: nacp_build_def loop nacp_problems_def)
  next
    case noname: Nil
    have version: "nacp_fill_text 0x10 Nacp_VersionTooLong (nb_display_version b) (zeros 0x10) =
       (case nacp_problems b of e # _ \<Rightarrow> Err e | [] \<Rightarrow> Ok (nacp_padded 0x10 (nb_display_version b)))"
      by (simp only: nacp_fill_text_eq nacp_problems_def noname append_Nil)
    show ?thesis
    proof (cases "nacp_problems b")
      case (Cons e ps)
      then show ?thesis by (simp add: nacp_build_def loop noname nacp_zeroed version)
    next
      case Nil
      show ?thesis
        by (simp add: nacp_build_def loop noname nacp_zeroed version Nil nacp_fill_fields)
    qed
  qed
qed

section \<open>Reading it back\<close>

definition nacp_example :: nacp_builder where
  "nacp_example = nacp_set_application_id 0x0100000000010000 (nacp_set_version [0x31] (nacp_set_author [0x42]
     (nacp_set_name_for_language ZHHANT [0x43] (nacp_set_name [0x41] nacp_new))))"

lemma nacp_example_fields:
  "nb_names nacp_example = (replicate 16 (Some [0x41]))[13 := Some [0x43]]"
  "nb_authors nacp_example = replicate 16 (Some [0x42])"
  "nb_display_version nacp_example = Some [0x31]" "nb_application_id nacp_example = Some 0x0100000000010000"
  by (simp_all add: nacp_example_def nacp_new_def nacp_set_name_def nacp_set_name_for_language_def nacp_set_author_def
      nacp_set_version_def nacp_set_application_id_def map_replicate_const)

lemma nacp_example_ok: "nacp_builder_ok nacp_example" "nacp_problems nacp_example = []" "nacp_id_ok nacp_example"
proof -
  show "nacp_builder_ok nacp_example" by (simp add: nacp_builder_ok_def nacp_example_fields)
  show "nacp_id_ok nacp_example" by (simp add: nacp_id_ok_def nacp_example_fields)
  show "nacp_problems nacp_example = []"
    unfolding nacp_problems_def nacp_example_fields by code_simp
qed

text \<open>A language's entry shows when its name does not begin with a NUL.\<close>

definition nacp_visible :: "nacp_builder \<Rightarrow> nat \<Rightarrow> bool" where
  "nacp_visible b i =
     (case nb_names b ! i of Some n \<Rightarrow> n \<noteq> [] \<and> hd n \<noteq> 0 | None \<Rightarrow> False)"

lemma nacp_padded_first:
  "0 < width \<Longrightarrow> nacp_padded width opt ! 0 = (case opt of Some (b # _) \<Rightarrow> b | _ \<Rightarrow> 0)"
  by (auto simp: nacp_padded_def zeros_def split: option.split list.split)

lemma nacp_entry_at:
  assumes "nacp_builder_ok b"
  shows "nacp_language_entry_at \<lparr>nacp_raw = nacp_contents b\<rparr> i =
     (if i < 16 \<and> nacp_visible b i then Some (nacp_language_entry (nb_names b ! i, nb_authors b ! i)) else None)"
proof (cases "i < 16")
  case True
  have "na_lang (nacp_contents b) ! i = nacp_language_entry (nb_names b ! i, nb_authors b ! i)"
    using assms True by (simp add: nacp_contents_def nacp_builder_ok_def Let_def)
  then show ?thesis
    using True
    by (auto simp: nacp_language_entry_at_def nacp_visible_def nacp_language_entry_def nacp_padded_first
        split: option.split list.split)
qed (simp add: nacp_language_entry_at_def)

lemma nacp_first_entry_eq:
  assumes "nacp_builder_ok b" "\<forall>i\<in>set is. i < 16"
  shows "nacp_first_entry \<lparr>nacp_raw = nacp_contents b\<rparr> is =
     map_option (\<lambda>i. nacp_language_entry (nb_names b ! i, nb_authors b ! i)) (find (nacp_visible b) is)"
  using assms(2) by (induction "is") (simp_all add: nacp_entry_at [OF assms(1)])

text \<open>The writer's match and the reader's table name the same slots.\<close>

lemma language_tables_agree:
  "\<exists>i<16. language_to_index lang = Some i \<and> set_language_code lang < length LANGUAGE_TABLE
     \<and> LANGUAGE_TABLE ! set_language_code lang = i"
  by (cases lang) (simp_all add: LANGUAGE_TABLE_def)

text \<open>C35. The outcome of a build.  Its problems are a name of 512 bytes or more, an author of 256 or more, each with its
  language, in the order of the table, and last a version of 16 or more; the first of them is
  reported.  With none, the build succeeds unless the title id plus 0x1000 overflows, when it panics; the image is
  the zeroed structure with the documented fields set.\<close>

theorem nacp_build_outcome:
  assumes "nacp_builder_ok b"
  shows "nacp_build b =
     (case nacp_problems b of
        e # _ \<Rightarrow> Err e
      | [] \<Rightarrow> if nacp_id_ok b then Ok (enc_nacp_struct (nacp_contents b)) else Panic)"
  by (rule nacp_build_eq [OF assms])

theorem nacp_build_outcome_witness:
  "nacp_build (nacp_set_application_id 0xFFFFFFFFFFFFF000 nacp_new) = Panic"
proof -
  let ?b = "nacp_set_application_id 0xFFFFFFFFFFFFF000 nacp_new"
  have "nacp_builder_ok ?b" by (simp add: nacp_builder_ok_def nacp_set_application_id_def nacp_new_def)
  moreover have "nacp_problems ?b = []"
    unfolding nacp_problems_def nacp_set_application_id_def nacp_new_def nacp_builder.simps by code_simp
  moreover have "\<not> nacp_id_ok ?b" by (simp add: nacp_id_ok_def nacp_set_application_id_def)
  ultimately show ?thesis using nacp_build_outcome [of ?b] by simp
qed

text \<open>C34. A NACP that builds is 0x4000 bytes and parses to the structure that was filled.  The entry of a language is
  the name and author set for it, padded with zeros, or absent when the name is unset, empty or
  begins with a NUL.  A lookup by language finds the slot the builder used for that language, and
  falls back to the first entry that shows.  The version comes back up to its first NUL.\<close>

theorem nacp_round_trip:
  assumes "nacp_builder_ok b" "nacp_problems b = []" "nacp_id_ok b"
  shows "\<exists>img n. nacp_build b = Ok img \<and> length img = 0x4000 \<and> nacp_try_from_bytes img = Ok n
    \<and> nacp_raw n = nacp_contents b
    \<and> nacp_language_entry_at n i =
        (if i < 16 \<and> nacp_visible b i then Some (nacp_language_entry (nb_names b ! i, nb_authors b ! i)) else None)
    \<and> nacp_language_entry_for n lang =
        map_option (\<lambda>i. nacp_language_entry (nb_names b ! i, nb_authors b ! i))
          (find (nacp_visible b) (the (language_to_index lang) # [0..<16]))
    \<and> nacp_display_version n = (case nb_display_version b of Some v \<Rightarrow> cstr v | None \<Rightarrow> [])"
proof -
  let ?img = "enc_nacp_struct (nacp_contents b)" and ?n = "\<lparr>nacp_raw = nacp_contents b\<rparr>"
  note wf = nacp_contents_wf [OF assms(1,2)]
  have "nacp_build b = Ok ?img" using nacp_build_eq [OF assms(1)] assms(2,3) by simp
  moreover have len: "length ?img = 0x4000" by (rule nacp_struct.enc_length [OF wf])
  moreover have "nacp_try_from_bytes ?img = Ok ?n"
    using nacp_struct.dec_enc [OF wf, of "[]"] len by (simp add: nacp_try_from_bytes_def ref_from_prefix_run)
  moreover note at = nacp_entry_at [OF assms(1)]
  moreover have "nacp_language_entry_for ?n lang =
        map_option (\<lambda>i. nacp_language_entry (nb_names b ! i, nb_authors b ! i))
          (find (nacp_visible b) (the (language_to_index lang) # [0..<16]))"
  proof -
    obtain j where j: "j < 16" "language_to_index lang = Some j" "set_language_code lang < length LANGUAGE_TABLE"
      "LANGUAGE_TABLE ! set_language_code lang = j"
      using language_tables_agree [of lang] by blast
    show ?thesis
      using j by (simp add: nacp_language_entry_for_def at nacp_first_entry_eq [OF assms(1)])
  qed
  moreover have "nacp_display_version ?n = (case nb_display_version b of Some v \<Rightarrow> cstr v | None \<Rightarrow> [])"
    by (simp add: nacp_display_version_def nacp_contents_def Let_def cstr_nacp_padded)
  ultimately show ?thesis by (intro exI [of _ ?img] exI [of _ ?n]) simp
qed

theorem nacp_round_trip_witness:
  "\<exists>img n. nacp_build nacp_example = Ok img \<and> nacp_try_from_bytes img = Ok n
    \<and> nacp_language_entry_for n ZHTW = Some \<lparr>nl_name = [0x43] @ zeros 0x1FF, nl_author = [0x42] @ zeros 0xFF\<rparr>
    \<and> nacp_display_version n = [0x31]"
  using nacp_round_trip [OF nacp_example_ok, of 0 ZHTW]
  by (auto simp: nacp_example_fields nacp_visible_def nacp_language_entry_def nacp_padded_def cstr_def str_or_empty_def)

end
