(* ===== verification/Elf.thy ===== *)
theory Elf
  imports Nro Nso
begin

text \<open>
  \<^verbatim>\<open>src/elf/segments.rs\<close>: from a linked ELF to the builders of NRO and NSO.  Parsing the ELF is
  the work of the third-party \<^verbatim>\<open>object\<close> crate and a parameter, \<open>object_parse\<close>; the records
  below hold what the source asks of the parsed file and nothing else.
\<close>

section \<open>What is asked of a parsed ELF\<close>

text \<open>A segment: its address, its size in memory, the size of its file range, and its bytes unless they cannot be
  read.  A section: its name unless that cannot be read, whether its kind is \<^verbatim>\<open>Note\<close>, its
  bytes, its address and its size.\<close>

record elf_segment =
  es_address :: u64
  es_size :: u64
  es_file_size :: u64
  es_data :: "bytes option"

record elf_section =
  ec_name :: "bytes option"
  ec_is_note :: bool
  ec_data :: "bytes option"
  ec_address :: u64
  ec_size :: u64

record elf_file =
  ef_aarch64 :: bool
  ef_program_header_types :: "u32 list"
  ef_segments :: "elf_segment list"
  ef_sections :: "elf_section list"

text \<open>Two constants of the ELF standard.\<close>

definition PT_LOAD :: u32 where "PT_LOAD = 1"
definition NT_GNU_BUILD_ID :: u32 where "NT_GNU_BUILD_ID = 3"

section \<open>The segments of an executable\<close>

record section_info =
  si_addr :: u64
  si_size :: u64

record elf_segments =
  el_text :: bytes
  el_text_vaddr :: u64
  el_rodata :: bytes
  el_rodata_vaddr :: u64
  el_data :: bytes
  el_data_vaddr :: u64
  el_bss_size :: u64
  el_build_id :: "bytes option"
  el_mod0_offset :: "u32 option"
  el_dynamic :: "section_info option"
  el_dynstr :: "section_info option"
  el_dynsym :: "section_info option"
  el_eh_frame_hdr :: "section_info option"

datatype 'x elf_parse_error =
    Elf_InvalidElf 'x
  | Elf_UnsupportedArch
  | Elf_MissingText
  | Elf_MissingRodata
  | Elf_MissingData
  | Elf_UnreadableSegment u64

text \<open>The note with the build identity: the first section that holds one.\<close>

fun extract_build_id :: "elf_section list \<Rightarrow> (bytes option, 'e) result" where
  "extract_build_id [] = Ok None"
| "extract_build_id (sec # rest) =
     (case (ec_is_note sec, ec_data sec) of
        (True, Some data) \<Rightarrow>
          if length data < 12 then extract_build_id rest
          else
            let namesz = unat (rd32 data 0); descsz = unat (rd32 data 4); note_type = rd32 data 8 in
            if note_type = NT_GNU_BUILD_ID \<and> namesz = 4 then
              if length data < 12 + namesz then extract_build_id rest
              else
                rbind (slice data 12 (12 + namesz)) (\<lambda>name.
                if name \<noteq> ascii ''GNU'' @ [0] then extract_build_id rest
                else
                  let desc_offset = 12 + align_up namesz 4 in
                  if length data < desc_offset then extract_build_id rest
                  else
                    let copy_size = min (min descsz 0x20) (length data - desc_offset) in
                    rbind (slice data desc_offset (desc_offset + copy_size)) (\<lambda>desc.
                    rbind (copy_at (zeros 0x20) 0 desc) (\<lambda>build_id. Ok (Some build_id))))
            else extract_build_id rest
      | _ \<Rightarrow> extract_build_id rest)"

type_synonym elf_load = "u64 \<times> bytes \<times> u64 \<times> u64"

text \<open>The loop over \<^verbatim>\<open>elf_program_headers().iter().zip(elf.segments())\<close>.\<close>

definition elf_collect_step ::
  "elf_load list \<Rightarrow> u32 \<times> elf_segment \<Rightarrow> (elf_load list, 'x elf_parse_error) result" where
  "elf_collect_step segments = (\<lambda>(p_type, seg).
     if p_type = PT_LOAD then
       let memsz = es_size seg; filesz = es_file_size seg in
       rbind (ok_or (Elf_UnreadableSegment (es_address seg)) (es_data seg)) (\<lambda>data.
         Ok (segments @ [(es_address seg, data, memsz, filesz)]))
     else Ok segments)"

text \<open>\<^verbatim>\<open>(n + 0xFFF) & !0xFFF\<close> on a \<^verbatim>\<open>u64\<close>.\<close>

definition elf_page_up :: "u64 \<Rightarrow> (u64, 'e) result" where
  "elf_page_up n = rbind (wadd n 0xFFF) (\<lambda>s. Ok (s AND NOT 0xFFF))"

definition elf_nth_load ::
  "elf_load list \<Rightarrow> nat \<Rightarrow> 'x elf_parse_error \<Rightarrow> (elf_load, 'x elf_parse_error) result" where
  "elf_nth_load segments i e = ok_or e (if i < length segments then Some (segments ! i) else None)"

definition elf_bss_size_of :: "elf_load list \<Rightarrow> (u64, 'x elf_parse_error) result" where
  "elf_bss_size_of segments =
     (if length segments \<ge> 4 then
        rbind (elf_nth_load segments 3 Elf_MissingData) (\<lambda>(_, _, memsz, _). elf_page_up memsz)
      else
        rbind (elf_nth_load segments 2 Elf_MissingData) (\<lambda>(_, _, memsz, filesz).
          if memsz > filesz then
            rbind (elf_page_up filesz) (\<lambda>aligned_filesz.
              if memsz > aligned_filesz then elf_page_up (memsz - aligned_filesz) else Ok 0)
          else Ok 0))"

definition elf_find_mod0 :: "bytes \<Rightarrow> (u32 option, 'e) result" where
  "elf_find_mod0 txt =
     (if length txt \<ge> 8 then
        rbind (slice txt 4 8) (\<lambda>offset_bytes.
          let offset = rd32 offset_bytes 0 in
          Ok (if offset > 0 \<and> offset < word_of_nat (length txt) then Some offset else None))
      else Ok None)"

text \<open>The sections the headers have fields for; the last section of a name counts.\<close>

definition elf_section_step ::
  "section_info option \<times> section_info option \<times> section_info option \<times> section_info option \<Rightarrow> elf_section \<Rightarrow>
   section_info option \<times> section_info option \<times> section_info option \<times> section_info option" where
  "elf_section_step = (\<lambda>(dynamic, dynstr, dynsym, eh_frame_hdr) sec.
     (case ec_name sec of
        None \<Rightarrow> (dynamic, dynstr, dynsym, eh_frame_hdr)
      | Some name \<Rightarrow>
          let info = \<lparr>si_addr = ec_address sec, si_size = ec_size sec\<rparr> in
          if name = ascii ''.dynamic'' then (Some info, dynstr, dynsym, eh_frame_hdr)
          else if name = ascii ''.dynstr'' then (dynamic, Some info, dynsym, eh_frame_hdr)
          else if name = ascii ''.dynsym'' then (dynamic, dynstr, Some info, eh_frame_hdr)
          else if name = ascii ''.eh_frame_hdr'' then (dynamic, dynstr, dynsym, Some info)
          else (dynamic, dynstr, dynsym, eh_frame_hdr)))"

definition elf_parse ::
  "(bytes \<Rightarrow> 'x + elf_file) \<Rightarrow> bytes \<Rightarrow> (elf_segments, 'x elf_parse_error) result" where
  "elf_parse object_parse data =
     rbind (case object_parse data of Inl x \<Rightarrow> Err (Elf_InvalidElf x) | Inr elf \<Rightarrow> Ok elf) (\<lambda>elf.
     if \<not> ef_aarch64 elf then Err Elf_UnsupportedArch
     else
       rbind (rfold elf_collect_step [] (zip (ef_program_header_types elf) (ef_segments elf))) (\<lambda>segments.
       let segments = sort_key fst segments in
       rbind (elf_nth_load segments 0 Elf_MissingText) (\<lambda>(text_vaddr, text_bytes, _, _).
       rbind (elf_nth_load segments 1 Elf_MissingRodata) (\<lambda>(rodata_vaddr, rodata, _, _).
       rbind (elf_nth_load segments 2 Elf_MissingData) (\<lambda>(data_vaddr, data, _, _).
       rbind (elf_bss_size_of segments) (\<lambda>bss_size.
       rbind (extract_build_id (ef_sections elf)) (\<lambda>build_id.
       rbind (elf_find_mod0 text_bytes) (\<lambda>mod0_offset.
       let (dynamic, dynstr, dynsym, eh_frame_hdr) =
             foldl elf_section_step (None, None, None, None) (ef_sections elf)
       in Ok \<lparr>el_text = text_bytes, el_text_vaddr = text_vaddr, el_rodata = rodata,
              el_rodata_vaddr = rodata_vaddr, el_data = data, el_data_vaddr = data_vaddr,
              el_bss_size = bss_size, el_build_id = build_id, el_mod0_offset = mod0_offset,
              el_dynamic = dynamic, el_dynstr = dynstr, el_dynsym = dynsym,
              el_eh_frame_hdr = eh_frame_hdr\<rparr>))))))))"

section \<open>Handing over to the builders\<close>

definition elf_into_nro_builder :: "elf_segments \<Rightarrow> nro_builder" where
  "elf_into_nro_builder s =
     (let builder =
            nro_set_bss_size (ucast (el_bss_size s))
              (nro_set_data_vaddr (ucast (el_data_vaddr s)) (nro_set_data (el_data s)
              (nro_set_rodata_vaddr (ucast (el_rodata_vaddr s)) (nro_set_rodata (el_rodata s)
              (nro_set_text_vaddr (ucast (el_text_vaddr s)) (nro_set_text (el_text s) nro_new))))))
      in case el_build_id s of Some build_id \<Rightarrow> nro_set_build_id build_id builder | None \<Rightarrow> builder)"

definition elf_into_nso_builder :: "elf_segments \<Rightarrow> nso_builder" where
  "elf_into_nso_builder s =
     (let builder =
            nso_set_bss_size (ucast (el_bss_size s))
              (nso_set_data_vaddr (ucast (el_data_vaddr s)) (nso_set_data (el_data s)
              (nso_set_rodata_vaddr (ucast (el_rodata_vaddr s)) (nso_set_rodata (el_rodata s)
              (nso_set_text_vaddr (ucast (el_text_vaddr s)) (nso_set_text (el_text s) nso_new))))))
      in case el_build_id s of Some build_id \<Rightarrow> nso_set_module_id build_id builder | None \<Rightarrow> builder)"

section \<open>Which segments are seen\<close>

definition elf_loads :: "elf_file \<Rightarrow> elf_segment list" where
  "elf_loads e = map snd (filter (\<lambda>(p_type, _). p_type = PT_LOAD) (zip (ef_program_header_types e) (ef_segments e)))"

definition elf_load_of :: "elf_segment \<Rightarrow> elf_load" where
  "elf_load_of s = (es_address s, the (es_data s), es_size s, es_file_size s)"

lemma elf_collect_eq:
  "(rfold elf_collect_step acc ps :: (_, 'x elf_parse_error) result) =
     (case find (\<lambda>s. es_data s = None) (map snd (filter (\<lambda>(p_type, _). p_type = PT_LOAD) ps)) of
        Some s \<Rightarrow> Err (Elf_UnreadableSegment (es_address s))
      | None \<Rightarrow> Ok (acc @ map elf_load_of (map snd (filter (\<lambda>(p_type, _). p_type = PT_LOAD) ps))))"
proof (induction ps arbitrary: acc)
  case (Cons p ps)
  obtain t s where p: "p = (t, s)" by (cases p)
  show ?case
  proof (cases "t = PT_LOAD")
    case True
    then show ?thesis
      using Cons.IH by (cases "es_data s") (simp_all add: p elf_collect_step_def elf_load_of_def split: option.split)
  next
    case False
    then have "elf_collect_step acc p = (Ok acc :: (_, 'x elf_parse_error) result)"
      by (simp add: p elf_collect_step_def)
    then show ?thesis using Cons.IH [of acc] False by (simp add: p cong: option.case_cong)
  qed
qed simp

text \<open>The size of bss as a number: the fourth segment's size in memory, or what the third's exceeds its file pages by.\<close>

definition elf_bss_nat :: "elf_segment \<Rightarrow> elf_segment list \<Rightarrow> nat option" where
  "elf_bss_nat d rest =
     (let up = \<lambda>n. if n + 0xFFF < 2 ^ 64 then Some (align_up n 0x1000) else None;
          mem = unat (es_size d); file = unat (es_file_size d)
      in case rest of
           f # _ \<Rightarrow> up (unat (es_size f))
         | [] \<Rightarrow> if mem \<le> file then Some 0
                else case up file of None \<Rightarrow> None | Some a \<Rightarrow> if mem \<le> a then Some 0 else up (mem - a))"

lemma elf_page_up_eq:
  "elf_page_up n = (if unat n + 0xFFF < 2 ^ 64 then Ok (word_of_nat (align_up (unat n) 0x1000)) else Panic)"
proof (cases "unat n + 0xFFF < 2 ^ 64")
  case True
  then have u: "unat (n + 0xFFF) = unat n + 0xFFF" by (simp add: unat_word_ariths)
  have m: "(0xFFF :: u64) = mask 12" by (simp add: mask_eq_exp_minus_1)
  have "w AND NOT (mask 12) = push_bit 12 (drop_bit 12 w)" for w :: u64
    by (rule bit_word_eqI) (auto simp: bit_simps)
  then have "n + 0xFFF AND NOT 0xFFF = push_bit 12 (drop_bit 12 (n + 0xFFF))"
    by (simp only: m)
  also have "\<dots> = word_of_nat (unat (drop_bit 12 (n + 0xFFF))) * 0x1000"
    by (simp add: push_bit_eq_mult)
  also have "unat (drop_bit 12 (n + 0xFFF)) = (unat n + 0xFFF) div 0x1000"
    by (simp add: drop_bit_eq_div unat_div u)
  also have "word_of_nat ((unat n + 0xFFF) div 0x1000) * (0x1000 :: u64) = word_of_nat (align_up (unat n) 0x1000)"
    by (simp add: align_up_def)
  finally show ?thesis using True by (simp add: elf_page_up_def wadd_def)
next
  case False
  then show ?thesis by (simp add: elf_page_up_def wadd_def)
qed

end
