(* ===== verification/Elf_Properties.thy ===== *)
theory Elf_Properties
  imports Elf Nro_Roundtrip Nso_Properties
begin

text \<open>
  What the segments of an ELF are, in terms of what \<^verbatim>\<open>object\<close> reports, and what the executables
  built from them hold.
\<close>

section \<open>The parts of the result\<close>

lemma elf_bss_size_eq:
  "(elf_bss_size_of (map elf_load_of (t # r # d # rest)) :: (u64, 'x elf_parse_error) result) =
     (case elf_bss_nat d rest of None \<Rightarrow> Panic | Some n \<Rightarrow> Ok (word_of_nat n))"
proof (cases rest)
  case Nil
  have a: "unat (word_of_nat (align_up (unat m) 0x1000) :: u64) = align_up (unat m) 0x1000"
    if "unat m + 0xFFF < 2 ^ 64" for m :: u64
  proof (rule unat_u64_of_nat)
    have "(0 :: nat) < 0x1000" by simp
    from align_up_lt [OF this, of "unat m"] show "align_up (unat m) 0x1000 < 2 ^ 64" using that by simp
  qed
  let ?m = "es_size d" and ?f = "es_file_size d"
  let ?a = "word_of_nat (align_up (unat ?f) 0x1000) :: u64"
  consider "?m \<le> ?f" | "?f < ?m" "\<not> unat ?f + 0xFFF < 2 ^ 64"
    | "?f < ?m" "unat ?f + 0xFFF < 2 ^ 64" "?m \<le> ?a" | "?f < ?m" "unat ?f + 0xFFF < 2 ^ 64" "?a < ?m"
    by (meson not_le)
  then show ?thesis
  proof cases
    case 4
    then have s: "unat (?m - ?a) = unat ?m - align_up (unat ?f) 0x1000"
      using a [of ?f] by (simp add: unat_sub less_imp_le)
    show ?thesis
      using 4 a [of ?f] s
      by (simp add: Nil elf_bss_size_of_def elf_nth_load_def elf_load_of_def elf_bss_nat_def elf_page_up_eq Let_def
          word_less_nat_alt numeral_2_eq_2)
  qed (use a [of ?f] in \<open>simp_all add: Nil elf_bss_size_of_def elf_nth_load_def elf_load_of_def elf_bss_nat_def
      elf_page_up_eq Let_def word_less_nat_alt word_le_nat_alt numeral_2_eq_2\<close>)
next
  case (Cons f fs)
  then show ?thesis
    by (simp add: elf_bss_size_of_def elf_nth_load_def elf_load_of_def elf_bss_nat_def elf_page_up_eq numeral_3_eq_3)
qed

text \<open>The first note that holds a build identity, and the identity in it, cut or padded to 32 bytes.\<close>

definition elf_notes :: "elf_section list \<Rightarrow> bytes list" where
  "elf_notes secs = List.map_filter (\<lambda>s. if ec_is_note s then ec_data s else None) secs"

definition holds_build_id :: "bytes \<Rightarrow> bool" where
  "holds_build_id data \<longleftrightarrow>
     16 \<le> length data \<and> rd32 data 0 = 4 \<and> rd32 data 8 = NT_GNU_BUILD_ID \<and> sub_bytes data 12 4 = ascii ''GNU'' @ [0]"

definition build_id_in :: "bytes \<Rightarrow> bytes" where
  "build_id_in data = resize0 (take (unat (rd32 data 4)) (drop 16 data)) 0x20"

lemma extract_build_id_eq:
  "(extract_build_id secs :: (bytes option, 'e) result) = Ok (map_option build_id_in (find holds_build_id (elf_notes secs)))"
proof (induction secs)
  case (Cons sec rest)
  show ?case
  proof (cases "if ec_is_note sec then ec_data sec else None")
    case None
    then show ?thesis
      using Cons.IH by (cases "ec_data sec") (auto simp: elf_notes_def List.map_filter_simps split: if_splits)
  next
    case (Some data)
    then have isn: "ec_is_note sec" "ec_data sec = Some data" by (auto split: if_splits)
    have n4: "unat (rd32 data 0) = 4 \<longleftrightarrow> rd32 data 0 = 4" by (auto simp: word_unat_eq_iff)
    have ns: "elf_notes (sec # rest) = data # elf_notes rest"
      by (simp add: elf_notes_def List.map_filter_simps isn)
    show ?thesis
    proof (cases "holds_build_id data")
      case True
      then have d: "16 \<le> length data" "unat (rd32 data 0) = 4" "rd32 data 8 = NT_GNU_BUILD_ID"
        "take 4 (drop 12 data) = ascii ''GNU'' @ [0]"
        by (simp_all add: holds_build_id_def sub_bytes_def)
      let ?c = "min (min (unat (rd32 data 4)) 0x20) (length data - 16)"
      have "take ?c (drop 16 data) @ zeros (0x20 - length (take ?c (drop 16 data))) = build_id_in data"
        by (auto simp: build_id_in_def resize0_def min_def)
      then have cp: "copy_at (zeros 0x20) 0 (take ?c (drop 16 data)) = (Ok (build_id_in data) :: (bytes, 'e) result)"
        by (simp add: copy_at_def drop_zeros)
      show ?thesis
        using d True by (simp add: isn ns Let_def align_up_def run_ok(5) cp del: copy_at_Ok)
    next
      case False
      then show ?thesis
        using Cons.IH
        by (auto simp: isn ns Let_def n4 holds_build_id_def align_up_def run_ok(5) sub_bytes_def)
    qed
  qed
qed (simp add: elf_notes_def List.map_filter_simps)

lemma length_build_id_in: "length (build_id_in data) = 0x20"
  by (simp add: build_id_in_def)

lemma elf_find_mod0_eq:
  "elf_find_mod0 txt =
     Ok (if 8 \<le> length txt \<and> 0 < rd32 txt 4 \<and> rd32 txt 4 < word_of_nat (length txt) then Some (rd32 txt 4) else None)"
proof (cases "8 \<le> length txt")
  case True
  have "rd32 (take 4 (drop 4 txt)) 0 = rd32 txt 4" by (simp add: rd32_def sub_bytes_def)
  then show ?thesis using True by (simp add: elf_find_mod0_def run_ok(5) Let_def)
qed (simp add: elf_find_mod0_def)

definition elf_section_named :: "elf_section list \<Rightarrow> string \<Rightarrow> section_info option" where
  "elf_section_named secs name =
     map_option (\<lambda>s. \<lparr>si_addr = ec_address s, si_size = ec_size s\<rparr>) (find (\<lambda>s. ec_name s = Some (ascii name)) (rev secs))"

lemma elf_sections_eq:
  "foldl elf_section_step (None, None, None, None) secs =
     (elf_section_named secs ''.dynamic'', elf_section_named secs ''.dynstr'', elf_section_named secs ''.dynsym'',
      elf_section_named secs ''.eh_frame_hdr'')"
proof (induction secs rule: rev_induct)
  case (snoc s secs)
  have ne: "ascii ''.dynamic'' \<noteq> ascii ''.dynstr''" "ascii ''.dynamic'' \<noteq> ascii ''.dynsym''"
    "ascii ''.dynamic'' \<noteq> ascii ''.eh_frame_hdr''" "ascii ''.dynstr'' \<noteq> ascii ''.dynsym''"
    "ascii ''.dynstr'' \<noteq> ascii ''.eh_frame_hdr''" "ascii ''.dynsym'' \<noteq> ascii ''.eh_frame_hdr''"
    by (simp_all add: ascii_def)
  show ?case
  proof (cases "ec_name s")
    case None
    then show ?thesis using snoc by (simp add: elf_section_step_def elf_section_named_def)
  next
    case (Some n)
    then show ?thesis
      using snoc ne ne [symmetric] by (auto simp: elf_section_step_def elf_section_named_def Let_def)
  qed
qed (simp add: elf_section_named_def)

section \<open>Parsing\<close>

definition elf_segments_of :: "elf_file \<Rightarrow> elf_segment \<Rightarrow> elf_segment \<Rightarrow> elf_segment \<Rightarrow> nat \<Rightarrow> elf_segments" where
  "elf_segments_of e t r d bss =
     (let txt = the (es_data t); off = rd32 txt 4 in
      \<lparr>el_text = txt, el_text_vaddr = es_address t, el_rodata = the (es_data r), el_rodata_vaddr = es_address r,
       el_data = the (es_data d), el_data_vaddr = es_address d, el_bss_size = word_of_nat bss,
       el_build_id = map_option build_id_in (find holds_build_id (elf_notes (ef_sections e))),
       el_mod0_offset = (if 8 \<le> length txt \<and> 0 < off \<and> off < word_of_nat (length txt) then Some off else None),
       el_dynamic = elf_section_named (ef_sections e) ''.dynamic'',
       el_dynstr = elf_section_named (ef_sections e) ''.dynstr'',
       el_dynsym = elf_section_named (ef_sections e) ''.dynsym'',
       el_eh_frame_hdr = elf_section_named (ef_sections e) ''.eh_frame_hdr''\<rparr>)"

definition elf_outcome :: "elf_file \<Rightarrow> (elf_segments, 'x elf_parse_error) result" where
  "elf_outcome e =
     (if \<not> ef_aarch64 e then Err Elf_UnsupportedArch
      else case find (\<lambda>s. es_data s = None) (elf_loads e) of
        Some s \<Rightarrow> Err (Elf_UnreadableSegment (es_address s))
      | None \<Rightarrow>
          (case sort_key es_address (elf_loads e) of
             [] \<Rightarrow> Err Elf_MissingText
           | [_] \<Rightarrow> Err Elf_MissingRodata
           | [_, _] \<Rightarrow> Err Elf_MissingData
           | t # r # d # rest \<Rightarrow>
               (case elf_bss_nat d rest of None \<Rightarrow> Panic | Some bss \<Rightarrow> Ok (elf_segments_of e t r d bss))))"

lemma elf_parse_eq:
  "elf_parse object_parse bs = (case object_parse bs of Inl x \<Rightarrow> Err (Elf_InvalidElf x) | Inr e \<Rightarrow> elf_outcome e)"
proof (cases "object_parse bs")
  case (Inl x)
  then show ?thesis by (simp add: elf_parse_def)
next
  case (Inr e)
  let ?ls = "elf_loads e" and ?sorted = "sort_key es_address (elf_loads e)"
  show ?thesis
  proof (cases "ef_aarch64 e \<and> find (\<lambda>s. es_data s = None) ?ls = None")
    case False
    then show ?thesis
      by (auto simp: elf_parse_def elf_outcome_def Inr elf_collect_eq elf_loads_def [symmetric])
  next
    case True
    define S where S: "S = ?sorted"
    have sorted: "sort_key fst (map elf_load_of ?ls) = map elf_load_of S"
      by (simp add: sort_key_map elf_load_of_def S)
    have l: "length ?ls = length S" by (simp add: S)
    have collect: "(rfold elf_collect_step [] (zip (ef_program_header_types e) (ef_segments e)) :: (_, 'a elf_parse_error) result)
        = Ok (map elf_load_of ?ls)"
      using True by (simp add: elf_collect_eq elf_loads_def [symmetric])
    consider "S = []" | t where "S = [t]" | t r where "S = [t, r]"
      | t r d rest where "S = t # r # d # rest"
      by (metis list.exhaust)
    then show ?thesis
    proof cases
      case 4
      note elf_bss_size_eq [of t r d rest, where 'x = 'a]
      then show ?thesis
        using True 4
        by (cases "elf_bss_nat d rest")
          (simp_all add: elf_parse_def elf_outcome_def Inr collect sorted l S [symmetric] elf_nth_load_def elf_load_of_def
            extract_build_id_eq elf_find_mod0_eq elf_sections_eq elf_segments_of_def Let_def numeral_2_eq_2)
    qed (use True in \<open>simp_all add: elf_parse_def elf_outcome_def Inr collect sorted l S [symmetric] elf_nth_load_def elf_load_of_def Let_def\<close>)
  qed
qed

lemma elf_parse_build_id:
  assumes "elf_parse object_parse bs = Ok s" "el_build_id s = Some i"
  shows "length i = 0x20"
proof -
  obtain e t r d bss where "s = elf_segments_of e t r d bss"
    using assms(1) by (auto simp: elf_parse_eq elf_outcome_def split: sum.splits if_splits option.splits list.splits)
  then show ?thesis using assms(2) by (auto simp: elf_segments_of_def Let_def length_build_id_in)
qed

lemma elf_parse_mod0:
  assumes "elf_parse object_parse bs = Ok s" "el_mod0_offset s = Some off"
  shows "8 \<le> length (el_text s)" "off = rd32 (el_text s) 4"
proof -
  obtain e t r d bss where "s = elf_segments_of e t r d bss"
    using assms(1) by (auto simp: elf_parse_eq elf_outcome_def split: sum.splits if_splits option.splits list.splits)
  then show "8 \<le> length (el_text s)" "off = rd32 (el_text s) 4"
    using assms(2) by (auto simp: elf_segments_of_def Let_def split: if_splits)
qed

section \<open>The builders\<close>

lemma elf_nro_fields:
  "rb_text (elf_into_nro_builder s) = Some (el_text s)" "rb_rodata (elf_into_nro_builder s) = Some (el_rodata s)"
  "rb_data (elf_into_nro_builder s) = Some (el_data s)" "rb_build_id (elf_into_nro_builder s) = el_build_id s"
  "rb_bss_size (elf_into_nro_builder s) = ucast (el_bss_size s)"
  "rb_text_vaddr (elf_into_nro_builder s) = ucast (el_text_vaddr s)"
  "rb_rodata_vaddr (elf_into_nro_builder s) = ucast (el_rodata_vaddr s)"
  "rb_data_vaddr (elf_into_nro_builder s) = ucast (el_data_vaddr s)"
  by (simp_all add: elf_into_nro_builder_def nro_setters Let_def split: option.split)

lemma elf_nso_fields:
  "nb_text (elf_into_nso_builder s) = Some (el_text s)" "nb_rodata (elf_into_nso_builder s) = Some (el_rodata s)"
  "nb_data (elf_into_nso_builder s) = Some (el_data s)" "nb_module_id (elf_into_nso_builder s) = el_build_id s"
  "nb_bss_size (elf_into_nso_builder s) = ucast (el_bss_size s)"
  "nb_text_vaddr (elf_into_nso_builder s) = ucast (el_text_vaddr s)"
  "nb_rodata_vaddr (elf_into_nso_builder s) = ucast (el_rodata_vaddr s)"
  "nb_data_vaddr (elf_into_nso_builder s) = ucast (el_data_vaddr s)"
  by (simp_all add: elf_into_nso_builder_def nso_setters Let_def split: option.split)

section \<open>Examples\<close>

definition elf_example_segment :: "u64 \<Rightarrow> bytes \<Rightarrow> elf_segment" where
  "elf_example_segment a xs =
     \<lparr>es_address = a, es_size = word_of_nat (length xs), es_file_size = word_of_nat (length xs), es_data = Some xs\<rparr>"

definition elf_example :: "u32 list \<Rightarrow> elf_file" where
  "elf_example types =
     \<lparr>ef_aarch64 = True, ef_program_header_types = types,
      ef_segments = [elf_example_segment 0 [0, 0, 0, 0, 4, 0, 0, 0], elf_example_segment 0x1000 [2], elf_example_segment 0x2000 [3]],
      ef_sections = [\<lparr>ec_name = None, ec_is_note = True,
        ec_data = Some (le32 4 @ le32 2 @ le32 3 @ ascii ''GNU'' @ [0, 0xAB, 0xCD]), ec_address = 0, ec_size = 0\<rparr>]\<rparr>"

lemma elf_example_outcome:
  assumes "elf_loads (elf_example types) = ef_segments (elf_example types)"
  shows "(elf_outcome (elf_example types) :: (_, 'x elf_parse_error) result) = Ok \<lparr>el_text = [0, 0, 0, 0, 4, 0, 0, 0], el_text_vaddr = 0, el_rodata = [2],
    el_rodata_vaddr = 0x1000, el_data = [3], el_data_vaddr = 0x2000, el_bss_size = 0,
    el_build_id = Some ([0xAB, 0xCD] @ zeros 0x1E), el_mod0_offset = Some 4, el_dynamic = None, el_dynstr = None,
    el_dynsym = None, el_eh_frame_hdr = None\<rparr>"
proof -
  have four: "rd32 [0, 0, 0, 0, 4, 0, 0, 0] 4 = 4" by (simp add: rd32_def sub_bytes_def)
  let ?d = "le32 4 @ le32 2 @ le32 3 @ ascii ''GNU'' @ [0, 0xAB, 0xCD]"
  have "rd32 ?d 0 = 4" "rd32 ?d 4 = 2" "rd32 ?d 8 = 3" "sub_bytes ?d 12 4 = ascii ''GNU'' @ [0]" "drop 16 ?d = [0xAB, 0xCD]"
    by (simp_all add: field_simps_le ascii_def) (simp_all add: sub_bytes_def ascii_def)
  then have "holds_build_id ?d" "build_id_in ?d = [0xAB, 0xCD] @ zeros 0x1E"
    by (simp_all add: holds_build_id_def build_id_in_def NT_GNU_BUILD_ID_def resize0_def ascii_def)
  then show ?thesis
    using assms four
    by (simp add: elf_outcome_def elf_example_def elf_example_segment_def elf_segments_of_def elf_bss_nat_def Let_def
        elf_notes_def elf_section_named_def List.map_filter_simps)
qed

lemma elf_example_parsed:
  obtains s where "elf_parse (\<lambda>_. Inr (elf_example [1, 1, 1]) :: unit + elf_file) [] = Ok s"
    "el_text s = [0, 0, 0, 0, 4, 0, 0, 0]" "el_text_vaddr s = 0" "el_rodata s = [2]" "el_rodata_vaddr s = 0x1000"
    "el_data s = [3]" "el_data_vaddr s = 0x2000" "el_build_id s = Some ([0xAB, 0xCD] @ zeros 0x1E)" "el_mod0_offset s = Some 4"
    "nso_fits nso_pack (elf_into_nso_builder s) (el_text s) (el_rodata s) (el_data s)"
proof -
  have "elf_loads (elf_example [1, 1, 1]) = ef_segments (elf_example [1, 1, 1])"
    by (simp add: elf_loads_def elf_example_def PT_LOAD_def)
  from elf_example_outcome [OF this, where 'x = unit]
  obtain s where s: "elf_parse (\<lambda>_. Inr (elf_example [1, 1, 1]) :: unit + elf_file) [] = Ok s"
    "el_text s = [0, 0, 0, 0, 4, 0, 0, 0]" "el_text_vaddr s = 0" "el_rodata s = [2]" "el_rodata_vaddr s = 0x1000"
    "el_data s = [3]" "el_data_vaddr s = 0x2000" "el_build_id s = Some ([0xAB, 0xCD] @ zeros 0x1E)" "el_mod0_offset s = Some 4"
    by (simp add: elf_parse_eq)
  moreover have "nso_fits nso_pack (elf_into_nso_builder s) (el_text s) (el_rodata s) (el_data s)"
    by (simp add: nso_fits_def nso_stored_def elf_into_nso_builder_def nso_setters s nso_pack_def length_paged align_up_def)
  ultimately show ?thesis by (rule that)
qed

text \<open>The loop sees every segment when the loadable headers come first, and only then.\<close>

lemma elf_loads_prefix:
  assumes "ef_program_header_types e = replicate (length (ef_segments e)) PT_LOAD @ others"
  shows "elf_loads e = ef_segments e"
proof -
  have "map snd (filter (\<lambda>(t, _). t = PT_LOAD) (zip (replicate (length ss) PT_LOAD @ others) ss)) = ss"
    for ss :: "elf_segment list"
    by (induction ss) simp_all
  then show ?thesis by (simp only: elf_loads_def assms)
qed

lemma elf_loads_all:
  assumes "length (ef_segments e) = length (filter (\<lambda>t. t = PT_LOAD) (ef_program_header_types e))"
  shows "length (elf_loads e) = length (ef_segments e) \<longleftrightarrow>
    (\<exists>others. ef_program_header_types e = replicate (length (ef_segments e)) PT_LOAD @ others)"
proof
  let ?n = "length (ef_segments e)" and ?ts = "ef_program_header_types e"
  have le: "?n \<le> length ?ts" using assms by simp
  assume all: "length (elf_loads e) = ?n"
  have "length (elf_loads e) = length (filter (\<lambda>t. t = PT_LOAD) (map fst (zip ?ts (ef_segments e))))"
    by (simp add: elf_loads_def filter_map comp_def case_prod_unfold)
  then have len: "length (filter (\<lambda>t. t = PT_LOAD) (take ?n ?ts)) = length (take ?n ?ts)"
    using le all by (simp add: map_fst_zip_take)
  have "\<forall>t\<in>set (take ?n ?ts). t = PT_LOAD"
  proof (rule ccontr)
    assume "\<not> ?thesis"
    then obtain t where "t \<in> set (take ?n ?ts)" "\<not> t = PT_LOAD" by blast
    from length_filter_less [of t "take ?n ?ts" "\<lambda>t. t = PT_LOAD", OF this] len show False by (simp only: less_irrefl)
  qed
  then have "take ?n ?ts = replicate ?n PT_LOAD"
    using le by (intro replicate_eqI) simp_all
  then have "?ts = replicate ?n PT_LOAD @ drop ?n ?ts" by (metis append_take_drop_id)
  then show "\<exists>others. ?ts = replicate ?n PT_LOAD @ others" by blast
next
  assume "\<exists>others. ef_program_header_types e = replicate (length (ef_segments e)) PT_LOAD @ others"
  then show "length (elf_loads e) = length (ef_segments e)" by (metis elf_loads_prefix)
qed

lemma elf_loads_full:
  assumes "length (ef_segments e) = length (filter (\<lambda>t. t = PT_LOAD) (ef_program_header_types e))"
    and "length (elf_loads e) = length (ef_segments e)"
  shows "elf_loads e = ef_segments e"
  using elf_loads_all [OF assms(1)] assms(2) elf_loads_prefix by blast

section \<open>Properties\<close>

text \<open>Parsing has exactly these outcomes.  What \<^verbatim>\<open>object\<close> rejects, and what is not AArch64, is rejected; then
  the first loadable segment that cannot be read is named; with fewer than three the first missing
  slot is reported.  Otherwise the three lowest are text, rodata and data in that order (segments of equal address in
  file order); bss is the fourth segment's memory, or what data's memory exceeds its file pages by,
  in whole pages, and a sum past 64 bits panics; the build identity is that of the first GNU note; and the offset
  of MOD0 is the second word of text, if it lies inside it.\<close>

theorem elf_parse_outcome:
  "elf_parse object_parse bs = (case object_parse bs of Inl x \<Rightarrow> Err (Elf_InvalidElf x) | Inr e \<Rightarrow> elf_outcome e)"
  by (rule elf_parse_eq)

text \<open>C37. \<^verbatim>\<open>object\<close> lists the loadable segments only, while the program headers they are zipped with are
  all there.  So the parser sees every segment if and only if no other program header precedes a
  loadable one; with one in front, segments are lost.\<close>

theorem elf_loads_complete:
  fixes e :: elf_file
  assumes "length (ef_segments e) = length (filter (\<lambda>t. t = PT_LOAD) (ef_program_header_types e))"
    and "\<forall>s\<in>set (ef_segments e). es_data s \<noteq> None"
  shows "(rfold elf_collect_step [] (zip (ef_program_header_types e) (ef_segments e)) :: (_, 'x elf_parse_error) result)
      = Ok (map elf_load_of (ef_segments e)) \<longleftrightarrow>
    (\<exists>others. ef_program_header_types e = replicate (length (ef_segments e)) PT_LOAD @ others)"
proof -
  have sub: "set (elf_loads e) \<subseteq> set (ef_segments e)" by (auto simp: elf_loads_def dest: set_zip_rightD)
  then have "find (\<lambda>s. es_data s = None) (elf_loads e) = None"
    using assms(2) by (auto simp: find_None_iff)
  then have "(rfold elf_collect_step [] (zip (ef_program_header_types e) (ef_segments e)) :: (_, 'x elf_parse_error) result)
      = Ok (map elf_load_of (elf_loads e))"
    by (simp add: elf_collect_eq elf_loads_def [symmetric])
  moreover have "map elf_load_of (elf_loads e) = map elf_load_of (ef_segments e) \<longleftrightarrow> length (elf_loads e) = length (ef_segments e)"
    using elf_loads_full [OF assms(1)] by (auto dest: map_eq_imp_length_eq)
  ultimately show ?thesis using elf_loads_all [OF assms(1)] by simp
qed

text \<open>The witness: a program header table that begins with \<^verbatim>\<open>PT_PHDR\<close>.  Three loadable segments are there,
  and data is reported missing.\<close>

theorem elf_loads_complete_witness:
  "(rfold elf_collect_step [] (zip [6, 1, 1, 1] (ef_segments (elf_example [6, 1, 1, 1]))) :: (_, unit elf_parse_error) result)
      \<noteq> Ok (map elf_load_of (ef_segments (elf_example [6, 1, 1, 1])))
   \<and> elf_parse (\<lambda>_. Inr (elf_example [6, 1, 1, 1]) :: unit + elf_file) [] = Err Elf_MissingData"
proof
  let ?e = "elf_example [6, 1, 1, 1]"
  have "length (ef_segments ?e) = length (filter (\<lambda>t. t = PT_LOAD) (ef_program_header_types ?e))"
    "\<forall>s\<in>set (ef_segments ?e). es_data s \<noteq> None"
    by (simp_all add: elf_example_def elf_example_segment_def PT_LOAD_def)
  from elf_loads_complete [OF this, where 'x = unit]
  show "(rfold elf_collect_step [] (zip [6, 1, 1, 1] (ef_segments ?e)) :: (_, unit elf_parse_error) result)
      \<noteq> Ok (map elf_load_of (ef_segments ?e))"
    by (simp add: elf_example_def PT_LOAD_def numeral_3_eq_3)
  show "elf_parse (\<lambda>_. Inr ?e :: unit + elf_file) [] = Err Elf_MissingData"
    by (simp add: elf_parse_eq elf_outcome_def elf_loads_def elf_example_def elf_example_segment_def PT_LOAD_def)
qed

text \<open>C36. The executables built from a parsed ELF hold it.  If its segments are linked one behind the other and the
  sizes fit, both builders succeed and both readers accept the image: the segments come back padded
  to pages, in the NRO with the header in place of bytes 0x10 to 0x80 of text; each lies where the ELF has it, the
  build identity and the size of bss are the ELF's, and the NRO's start names the MOD0 offset that was
  found in text.\<close>

theorem elf_executables:
  assumes "elf_parse object_parse bs = Ok s"
    and "nro_linked (elf_into_nro_builder s) (el_text s) (el_rodata s) (el_data s)"
    and "digest_size sha" "lz4_inverse lz4c lz4d"
    and "nso_fits lz4c (elf_into_nso_builder s) (el_text s) (el_rodata s) (el_data s)"
  shows "\<exists>nro_img m nso_img n.
      nro_build (elf_into_nro_builder s) = Ok nro_img \<and> nro_try_from_bytes nro_img = Ok m
    \<and> (nro_text_segment m :: (bytes, unit) result)
        = Ok (take 0x10 (paged (el_text s)) @ enc_nro_header (nro_hdr m) @ drop 0x80 (paged (el_text s)))
    \<and> (nro_rodata_segment m :: (bytes, unit) result) = Ok (paged (el_rodata s))
    \<and> (nro_data_segment m :: (bytes, unit) result) = Ok (paged (el_data s))
    \<and> map rs_file_off (rh_segments (nro_hdr m)) = map ucast [el_text_vaddr s, el_rodata_vaddr s, el_data_vaddr s]
    \<and> nro_build_id m = (case el_build_id s of Some i \<Rightarrow> i | None \<Rightarrow> zeros 0x20)
    \<and> rh_bss_size (nro_hdr m) = ucast (el_bss_size s)
    \<and> (\<forall>off. el_mod0_offset s = Some off \<longrightarrow> rt_mod_offset (nro_st m) = off)
    \<and> nso_build sha lz4c (elf_into_nso_builder s) = Ok nso_img \<and> nso_try_from_bytes nso_img = Ok n
    \<and> nso_text lz4d n = Ok (paged (el_text s)) \<and> nso_rodata lz4d n = Ok (paged (el_rodata s))
    \<and> nso_data lz4d n = Ok (paged (el_data s))
    \<and> map ng_memory_offset [nh_text (nso_hdr n), nh_rodata (nso_hdr n), nh_data (nso_hdr n)]
        = map ucast [el_text_vaddr s, el_rodata_vaddr s, el_data_vaddr s]
    \<and> nso_module_id n = (case el_build_id s of Some i \<Rightarrow> i | None \<Rightarrow> zeros 0x20)
    \<and> nh_bss_size (nso_hdr n) = ucast (el_bss_size s)"
proof -
  let ?b = "elf_into_nro_builder s" and ?c = "elf_into_nso_builder s"
  let ?t = "el_text s" and ?r = "el_rodata s" and ?d = "el_data s"
  have id: "nro_id_ok ?b"
    using elf_parse_build_id [OF assms(1)] by (simp add: nro_id_ok_def elf_nro_fields split: option.split)
  have mid: "\<forall>i. nb_module_id ?c = Some i \<longrightarrow> length i = 0x20"
    using elf_parse_build_id [OF assms(1)] by (simp add: elf_nso_fields)
  let ?m = "nro_image ?b ?t ?r ?d" and ?n = "\<lparr>nso_bytes = nso_image sha lz4c ?c ?t ?r ?d, nso_hdr = nso_header_of sha lz4c ?c ?t ?r ?d\<rparr>"
  have "nro_build ?b = Ok ?m"
    using nro_build_some [OF id elf_nro_fields(1-3)] nro_linked_sizes [OF assms(2)] by simp
  moreover obtain m where m: "nro_try_from_bytes ?m = Ok m" "nro_hdr m = nro_header_of ?b ?t ?r ?d"
    "nro_st m = dec_nro_start (paged ?t)"
    using nro_built [OF id assms(2)] by simp
  moreover note nro_built_accessors(1-3) [OF id assms(2) m(1), where 'e = unit, folded m(2)]
  moreover have "nro_build_id m = (case el_build_id s of Some i \<Rightarrow> i | None \<Rightarrow> zeros 0x20)" "rh_bss_size (nro_hdr m) = ucast (el_bss_size s)"
    "map rs_file_off (rh_segments (nro_hdr m)) = map ucast [el_text_vaddr s, el_rodata_vaddr s, el_data_vaddr s]"
    by (simp_all add: nro_build_id_def m(2) nro_header_of_def elf_nro_fields)
  moreover have "\<forall>off. el_mod0_offset s = Some off \<longrightarrow> rt_mod_offset (nro_st m) = off"
    using elf_parse_mod0 [OF assms(1)]
    by (auto simp: m(3) dec_nro_start_def pad_to_alignment_eq rd32_def sub_bytes_def)
  moreover have "nso_build sha lz4c ?c = Ok (nso_image sha lz4c ?c ?t ?r ?d)"
    by (rule nso_build_ok [OF elf_nso_fields(1-3)]) (use assms(5) in \<open>simp add: nso_fits_def\<close>)
  moreover note nso_image_parts(1) [OF assms(3) mid assms(5)] nso_image_expands [OF assms(3) mid assms(5,4)]
  moreover have "nso_module_id ?n = (case el_build_id s of Some i \<Rightarrow> i | None \<Rightarrow> zeros 0x20)" "nh_bss_size (nso_hdr ?n) = ucast (el_bss_size s)"
    "map ng_memory_offset [nh_text (nso_hdr ?n), nh_rodata (nso_hdr ?n), nh_data (nso_hdr ?n)]
      = map ucast [el_text_vaddr s, el_rodata_vaddr s, el_data_vaddr s]"
    by (simp_all add: nso_module_id_def nso_header_of_def Let_def elf_nso_fields)
  ultimately show ?thesis by blast
qed

theorem elf_executables_witness:
  "\<exists>s nro_img m nso_img n. elf_parse (\<lambda>_. Inr (elf_example [1, 1, 1]) :: unit + elf_file) [] = Ok s
    \<and> nro_build (elf_into_nro_builder s) = Ok nro_img \<and> nro_try_from_bytes nro_img = Ok m
    \<and> (nro_rodata_segment m :: (bytes, unit) result) = Ok (paged [2])
    \<and> nro_build_id m = [0xAB, 0xCD] @ zeros 0x1E \<and> rt_mod_offset (nro_st m) = 4
    \<and> nso_build nso_digest nso_pack (elf_into_nso_builder s) = Ok nso_img \<and> nso_try_from_bytes nso_img = Ok n
    \<and> nso_data nso_unpack n = Ok (paged [3])"
proof (rule elf_example_parsed)
  fix s
  assume s: "elf_parse (\<lambda>_. Inr (elf_example [1, 1, 1]) :: unit + elf_file) [] = Ok s"
    "el_text s = [0, 0, 0, 0, 4, 0, 0, 0]" "el_text_vaddr s = 0" "el_rodata s = [2]" "el_rodata_vaddr s = 0x1000"
    "el_data s = [3]" "el_data_vaddr s = 0x2000" "el_build_id s = Some ([0xAB, 0xCD] @ zeros 0x1E)" "el_mod0_offset s = Some 4"
    "nso_fits nso_pack (elf_into_nso_builder s) (el_text s) (el_rodata s) (el_data s)"
  have l: "nro_linked (elf_into_nro_builder s) (el_text s) (el_rodata s) (el_data s)"
    by (simp add: nro_linked_def elf_into_nro_builder_def nro_setters s length_paged align_up_def nro_total_def
        nro_size_of_def length_nro_asset_area asset_len_def nro_has_assets_def usize_max_def)
  from elf_executables [OF s(1) l nso_parameters s(10)] show ?thesis
    using s(1) unfolding s(4,6,8,9) by fastforce
qed

end
