(* ===== verification/Package.thy ===== *)
theory Package
  imports Nca_Roundtrip Pfs0 Romfs_Serve Nro_Roundtrip
begin

text \<open>
  How the formats nest.  A title is a PFS0 of NCAs, an NCA holds a PFS0 or a RomFS in each section,
  and an NRO carries a RomFS behind its executable.  The one interface they share is stated as a
  locale: an image built from keyed contents gives each of them back under its key.  Nesting two
  such formats gives a third, by a sublocale, so that a package of any depth is an instance.
\<close>

section \<open>Containers\<close>

text \<open>
  \<open>build\<close> makes the image, \<open>get\<close> is what a reader finds in it under a key, and \<open>holds\<close> what was put
  under that key; \<open>keys\<close> are the ones the builder answers for.
\<close>

locale container =
  fixes build :: "'b \<Rightarrow> bytes option" and get :: "bytes \<Rightarrow> 'k \<Rightarrow> bytes option"
    and holds :: "'b \<Rightarrow> 'k \<Rightarrow> bytes option" and keys :: "'b \<Rightarrow> 'k set" and ok :: "'b \<Rightarrow> bool"
  assumes built: "ok b \<Longrightarrow> build b = Some img \<Longrightarrow> k \<in> keys b \<Longrightarrow> get img k = holds b k"
begin

lemma same_contents:
  assumes "ok b" "ok c" "build b = Some img" "build c = Some img" "k \<in> keys b" "k \<in> keys c"
  shows "holds b k = holds c k"
  using built [OF assms(1,3,5)] built [OF assms(2,4,6)] by simp

end

text \<open>A format every well-formed builder of which has an image.\<close>

locale total_container = container +
  assumes builds: "ok b \<Longrightarrow> \<exists>img. build b = Some img"
begin

lemma serves: "ok b \<Longrightarrow> \<exists>img. build b = Some img \<and> (\<forall>k\<in>keys b. get img k = holds b k)"
  using builds built by blast

end

section \<open>Nesting\<close>

text \<open>A nested builder is an outer one, and for some of its keys the inner builder of what it holds there.\<close>

definition build_in :: "('b \<Rightarrow> bytes option) \<Rightarrow> 'b \<times> ('k \<Rightarrow> 'c option) \<Rightarrow> bytes option" where
  "build_in build = (\<lambda>(b, inner). build b)"

definition get_in ::
  "(bytes \<Rightarrow> 'k \<Rightarrow> bytes option) \<Rightarrow> (bytes \<Rightarrow> 'j \<Rightarrow> bytes option) \<Rightarrow> bytes \<Rightarrow> 'k \<times> 'j \<Rightarrow> bytes option" where
  "get_in get get' img = (\<lambda>(k, j). Option.bind (get img k) (\<lambda>x. get' x j))"

definition holds_in :: "('c \<Rightarrow> 'j \<Rightarrow> bytes option) \<Rightarrow> 'b \<times> ('k \<Rightarrow> 'c option) \<Rightarrow> 'k \<times> 'j \<Rightarrow> bytes option" where
  "holds_in holds' = (\<lambda>(b, inner) (k, j). Option.bind (inner k) (\<lambda>c. holds' c j))"

definition keys_in :: "('b \<Rightarrow> 'k set) \<Rightarrow> ('c \<Rightarrow> 'j set) \<Rightarrow> 'b \<times> ('k \<Rightarrow> 'c option) \<Rightarrow> ('k \<times> 'j) set" where
  "keys_in keys keys' = (\<lambda>(b, inner). {(k, j). k \<in> keys b \<and> (\<exists>c. inner k = Some c \<and> j \<in> keys' c)})"

definition ok_in ::
  "('b \<Rightarrow> bool) \<Rightarrow> ('b \<Rightarrow> 'k \<Rightarrow> bytes option) \<Rightarrow> ('c \<Rightarrow> bool) \<Rightarrow> ('c \<Rightarrow> bytes option)
     \<Rightarrow> 'b \<times> ('k \<Rightarrow> 'c option) \<Rightarrow> bool" where
  "ok_in ok holds ok' build' = (\<lambda>(b, inner). ok b \<and>
     (\<forall>k c. inner k = Some c \<longrightarrow> ok' c \<and> (\<exists>img. build' c = Some img \<and> holds b k = Some img)))"

locale nested = outer: container build get holds keys ok + inner: container build' get' holds' keys' ok'
  for build :: "'b \<Rightarrow> bytes option" and get :: "bytes \<Rightarrow> 'k \<Rightarrow> bytes option" and holds keys ok
    and build' :: "'c \<Rightarrow> bytes option" and get' :: "bytes \<Rightarrow> 'j \<Rightarrow> bytes option" and holds' keys' ok'
begin

lemma through:
  assumes "ok b" "build b = Some img" "k \<in> keys b" "holds b k = build' c" "ok' c" "build' c = Some x" "j \<in> keys' c"
  shows "get_in get get' img (k, j) = holds' c j"
  using outer.built [OF assms(1-3)] inner.built [OF assms(5-7)] assms(4,6) by (simp add: get_in_def)

end

sublocale nested \<subseteq> both: container "build_in build" "get_in get get'" "holds_in holds'" "keys_in keys keys'"
    "ok_in ok holds ok' build'"
proof
  fix b :: "'b \<times> ('k \<Rightarrow> 'c option)" and img k
  assume a: "ok_in ok holds ok' build' b" "build_in build b = Some img" "k \<in> keys_in keys keys' b"
  obtain o_b inner where b: "b = (o_b, inner)" by (cases b)
  obtain k1 j c where k: "k = (k1, j)" "k1 \<in> keys o_b" "inner k1 = Some c" "j \<in> keys' c"
    using a(3) by (auto simp: b keys_in_def)
  obtain x where x: "ok' c" "build' c = Some x" "holds o_b k1 = Some x"
    using a(1) k(3) by (auto simp: b ok_in_def)
  have "ok o_b" "build o_b = Some img" using a(1,2) by (simp_all add: b ok_in_def build_in_def)
  from through [OF this k(2) _ x(1,2) k(4)] x(2,3) show "get_in get get' img k = holds_in holds' b k"
    by (simp add: b k(1,3) holds_in_def)
qed

section \<open>The formats as containers\<close>

fun ok_of :: "('a, 'e) result \<Rightarrow> 'a option" where
  "ok_of (Ok x) = Some x"
| "ok_of (Err e) = None"
| "ok_of Panic = None"

text \<open>PFS0: files by name.\<close>

definition pfs0_image :: "pfs0_builder \<Rightarrow> bytes option" where
  "pfs0_image files = ok_of (pfs0_build files :: (bytes, unit) result)"

definition pfs0_get :: "bytes \<Rightarrow> bytes \<Rightarrow> bytes option" where
  "pfs0_get img n =
     Option.bind (ok_of (pfs0_try_from_bytes img)) (\<lambda>p.
     Option.bind (ok_of (pfs0_file_by_name p n :: (pfs0_file option, unit) result)) (map_option pf_data))"

definition pfs0_ok :: "pfs0_builder \<Rightarrow> bool" where
  "pfs0_ok files \<longleftrightarrow> pfs0_inv files \<and> pfs0_fits files"

interpretation pfs0: total_container pfs0_image pfs0_get map_of "\<lambda>_. UNIV" pfs0_ok
proof
  fix files img n
  assume ok: "pfs0_ok files"
  from ok obtain img' p where p: "(pfs0_build files :: (bytes, unit) result) = Ok img'" "pfs0_try_from_bytes img' = Ok p"
    "\<forall>n. (pfs0_file_by_name p n :: (pfs0_file option, unit) result)
           = Ok (map_option (\<lambda>d. \<lparr>pf_name = n, pf_data = d\<rparr>) (map_of files n))"
    using pfs0_lookup [of files, where 'e = unit and 'f = unit] by (auto simp: pfs0_ok_def)
  then show "\<exists>img. pfs0_image files = Some img" by (simp add: pfs0_image_def)
  assume "pfs0_image files = Some img"
  then have "img' = img" using p(1) by (simp add: pfs0_image_def)
  then show "pfs0_get img n = map_of files n"
    using p by (simp add: pfs0_get_def option.map_comp comp_def option.map_ident)
qed

text \<open>NCA: section contents by slot.\<close>

definition nca_image :: "(bytes \<Rightarrow> bytes) \<Rightarrow> nca_builder \<Rightarrow> bytes option" where
  "nca_image sha b = map_option plain_nca_to_bytes (ok_of (nca_build sha b))"

definition nca_get :: "bytes \<Rightarrow> nat \<Rightarrow> bytes option" where
  "nca_get img i =
     Option.bind (ok_of (nca_try_from_bytes img)) (\<lambda>n.
     Option.bind (ok_of (nca_section_at n i :: (nca_section option, unit) result)) (map_option sx_data))"

definition nca_holds :: "nca_builder \<Rightarrow> nat \<Rightarrow> bytes option" where
  "nca_holds b i = map_option (\<lambda>s. section_content (ws_data s)) (nb_sections b ! i)"

definition nca_ok :: "(bytes \<Rightarrow> bytes) \<Rightarrow> nca_builder \<Rightarrow> bool" where
  "nca_ok sha b \<longleftrightarrow> nca_builder_inv b \<and> digest_size sha"

interpretation nca: container "nca_image sha" nca_get nca_holds "\<lambda>_. {..<4}" "nca_ok sha" for sha
proof
  fix b img and i :: nat
  assume a: "nca_ok sha b" "nca_image sha b = Some img" "i \<in> {..<4}"
  obtain p where p: "nca_build sha b = Ok p" "img = plain_nca_to_bytes p"
    using a(2) by (cases "nca_build sha b") (auto simp: nca_image_def)
  have b: "nca_builder_inv b" "digest_size sha" "i < 4" using a(1,3) by (simp_all add: nca_ok_def)
  note slot = nca_slot_built [OF p(1) b refl, where 'e = unit]
  show "nca_get img i = nca_holds b i"
  proof (cases "nb_sections b ! i")
    case None
    with slot(1) nca_parse_built(1) [OF p(1) b(1,2)] show ?thesis
      by (simp add: nca_get_def nca_holds_def p(2))
  next
    case (Some s)
    with slot(2) nca_parse_built(1) [OF p(1) b(1,2)] show ?thesis
      by (fastforce simp: nca_get_def nca_holds_def p(2))
  qed
qed

text \<open>RomFS: file contents by path, leading slashes aside.\<close>

definition romfs_image_of :: "(bytes \<times> bytes) list \<Rightarrow> bytes option" where
  "romfs_image_of entries =
     Option.bind (ok_of (romfs_add_all romfs_new entries)) (\<lambda>b. ok_of (romfs_build b))"

definition romfs_get :: "bytes \<Rightarrow> bytes \<Rightarrow> bytes option" where
  "romfs_get img path =
     Option.bind (ok_of (romfs_try_from_bytes img)) (\<lambda>r.
     case romfs_open r path of
       Some (Ok f) \<Rightarrow> ok_of (romfs_file_data r f)
     | _ \<Rightarrow> None)"

definition romfs_holds :: "(bytes \<times> bytes) list \<Rightarrow> bytes \<Rightarrow> bytes option" where
  "romfs_holds entries path = map_of (romfs_files_of entries) (0x2F # dropWhile (\<lambda>x. x = 0x2F) path)"

definition romfs_ok :: "(bytes \<times> bytes) list \<Rightarrow> bool" where
  "romfs_ok entries \<longleftrightarrow> entries \<noteq> [] \<and> (\<forall>e\<in>set entries. utf8_valid (fst e))
     \<and> romfs_small entries \<and> (\<exists>b. romfs_add_all romfs_new entries = Ok b \<and> romfs_fits b)"

interpretation romfs: total_container romfs_image_of romfs_get romfs_holds "\<lambda>_. UNIV" romfs_ok
proof
  fix entries img path
  assume "romfs_ok entries"
  then obtain b where b: "romfs_add_all romfs_new entries = Ok b" "entries \<noteq> []" "\<forall>e\<in>set entries. utf8_valid (fst e)"
    "romfs_fits b" "romfs_small entries"
    by (auto simp: romfs_ok_def)
  from romfs_answers_built [OF b] obtain img' r where r: "romfs_build b = Ok img'"
    "romfs_try_from_bytes img' = Ok r" "\<forall>path. romfs_answers entries r path"
    by blast
  then show "\<exists>img. romfs_image_of entries = Some img" by (simp add: romfs_image_of_def b(1))
  assume "romfs_image_of entries = Some img"
  then have img: "img' = img" using r(1) by (simp add: romfs_image_of_def b(1))
  from r(3) have "romfs_answers entries r path" ..
  then show "romfs_get img path = romfs_holds entries path"
    using r(2) by (auto simp: img romfs_get_def romfs_holds_def romfs_answers_def romfs_finds_def Let_def split: option.splits result.splits)
qed

text \<open>NRO: the assets, an empty one being as good as none.\<close>

datatype nro_asset = Asset_Icon | Asset_Nacp | Asset_Romfs

definition nro_image_of :: "nro_builder \<Rightarrow> bytes option" where
  "nro_image_of b = ok_of (nro_build b)"

definition nro_get :: "bytes \<Rightarrow> nro_asset \<Rightarrow> bytes option" where
  "nro_get img a =
     Option.bind (ok_of (nro_try_from_bytes img)) (\<lambda>n.
     Option.bind (ok_of (case a of
         Asset_Icon \<Rightarrow> nro_asset_icon n :: (bytes option, unit) result
       | Asset_Nacp \<Rightarrow> nro_asset_nacp n
       | Asset_Romfs \<Rightarrow> nro_asset_romfs n)) (\<lambda>d. d))"

fun nro_holds :: "nro_builder \<Rightarrow> nro_asset \<Rightarrow> bytes option" where
  "nro_holds b Asset_Icon = asset_seen (rb_icon b)"
| "nro_holds b Asset_Nacp = asset_seen (rb_nacp b)"
| "nro_holds b Asset_Romfs = asset_seen (rb_romfs b)"

definition nro_ok :: "nro_builder \<Rightarrow> bool" where
  "nro_ok b \<longleftrightarrow> nro_id_ok b \<and> (\<exists>t r d. rb_text b = Some t \<and> rb_rodata b = Some r \<and> rb_data b = Some d
     \<and> nro_linked b t r d)"

interpretation nro: total_container nro_image_of nro_get nro_holds "\<lambda>_. UNIV" nro_ok
proof
  fix b img a
  assume "nro_ok b"
  then obtain t r d where s: "rb_text b = Some t" "rb_rodata b = Some r" "rb_data b = Some d"
    and l: "nro_id_ok b" "nro_linked b t r d"
    by (auto simp: nro_ok_def)
  have b: "nro_build b = Ok (nro_image b t r d)"
    using nro_build_some [OF l(1) s] nro_linked_sizes [OF l(2)] by simp
  then show "\<exists>img. nro_image_of b = Some img" by (simp add: nro_image_of_def)
  assume "nro_image_of b = Some img"
  then have img: "img = nro_image b t r d" using b by (simp add: nro_image_of_def)
  obtain n where n: "nro_try_from_bytes (nro_image b t r d) = Ok n" using nro_built [OF l] by simp
  show "nro_get img a = nro_holds b a"
    using n nro_built_accessors(4-6) [OF l n, where 'e = unit] by (cases a) (simp_all add: nro_get_def img)
qed

section \<open>The packages\<close>

interpretation nca_pfs0: nested "nca_image sha" nca_get nca_holds "\<lambda>_. {..<4}" "nca_ok sha"
    pfs0_image pfs0_get map_of "\<lambda>_. UNIV" pfs0_ok for sha
  by unfold_locales

interpretation nca_romfs: nested "nca_image sha" nca_get nca_holds "\<lambda>_. {..<4}" "nca_ok sha"
    romfs_image_of romfs_get romfs_holds "\<lambda>_. UNIV" romfs_ok for sha
  by unfold_locales

interpretation nro_romfs: nested nro_image_of nro_get nro_holds "\<lambda>_. UNIV" nro_ok
    romfs_image_of romfs_get romfs_holds "\<lambda>_. UNIV" romfs_ok
  by unfold_locales

text \<open>A title: the third level is the files of a section.\<close>

interpretation title_pfs0: nested pfs0_image pfs0_get map_of "\<lambda>_. UNIV" pfs0_ok
    "build_in (nca_image sha)" "get_in nca_get pfs0_get" "holds_in map_of" "keys_in (\<lambda>_. {..<4}) (\<lambda>_. UNIV)"
    "ok_in (nca_ok sha) nca_holds pfs0_ok pfs0_image" for sha
  by unfold_locales

interpretation title_romfs: nested pfs0_image pfs0_get map_of "\<lambda>_. UNIV" pfs0_ok
    "build_in (nca_image sha)" "get_in nca_get romfs_get" "holds_in romfs_holds" "keys_in (\<lambda>_. {..<4}) (\<lambda>_. UNIV)"
    "ok_in (nca_ok sha) nca_holds romfs_ok romfs_image_of" for sha
  by unfold_locales

end
