(* ===== verification/Package_Pack.thy ===== *)
theory Package_Pack
  imports Package Npdm_Read Cnmt Elf_Properties
begin

text \<open>
  The packages a caller assembles out of several builders, step by step: an archive that carries
  one PFS0, the program archive with its executable and its permissions, and the archive of a
  content meta.  Each step is a builder of the crate; what is shown here is that the steps fit.
\<close>

section \<open>An NCA with one partition\<close>

definition pack_partition ::
  "(bytes \<Rightarrow> bytes) \<Rightarrow> nca_content_type \<Rightarrow> u64 \<Rightarrow> u32 \<Rightarrow> section_encryption \<Rightarrow> pfs0_builder \<Rightarrow> bytes option" where
  "pack_partition sha t title block enc files =
     Option.bind (pfs0_image files) (\<lambda>archive.
     Option.bind (ok_of (nca_add_section (nca_new t title) 0
         \<lparr>ws_data = Section_Partition archive block, ws_encryption = enc\<rparr>)) (\<lambda>b.
       nca_image sha b))"

lemma div_ceil_le: "0 < d \<Longrightarrow> div_ceil n d \<le> n div d + 1"
  using div_le_mono [of "n + d - 1" "n + d" d] by (simp add: div_ceil_def div_add_self2 del: div_le_mono)

lemma length_pfs0_image:
  assumes "pfs0_fits files" "pfs0_image files = Some img"
  shows "length img \<le> 2 ^ 38 + length (pfs0_datas files)"
proof -
  let ?fs = "sort_key fst files"
  have img: "img = pfs0_archive ?fs"
    using assms(2) pfs0_build_archive [OF assms(1), where 'e = unit] by (simp add: pfs0_image_def)
  have "length (enc_pfs0_header (pfs0_header_of ?fs)) = 0x10"
    "length (enc_table enc_pfs0_entry (pfs0_entries 0 0 ?fs)) = length files * 0x18"
    by (simp_all add: pfs0_header.enc_length pfs0_entry.enc_table_length)
  moreover have "pfs0_pad ?fs \<le> 0x20"
    using align_up_lt [of "0x20" "length (pfs0_names ?fs)"] by (simp add: pfs0_pad_def)
  ultimately show ?thesis
    using assms(1) pfs0_names_count [of files]
    by (simp add: img pfs0_archive_def pfs0_fits_def sort_key_names)
qed

lemma partition_section_size:
  assumes "digest_size sha" "0x20 \<le> unat block"
  shows "Nca_Build.section_size sha \<lparr>ws_data = Section_Partition archive block, ws_encryption = enc\<rparr>
     \<le> 2 * length archive + 0x220"
proof -
  have "block \<noteq> 0" using assms(2) by auto
  moreover have "0x20 * div_ceil (length archive) (unat block) \<le> length archive + 0x20"
  proof -
    have "div_ceil (length archive) (unat block) \<le> length archive div unat block + 1"
      by (rule div_ceil_le) (use assms(2) in simp)
    moreover have "length archive div unat block \<le> length archive div 0x20"
      by (rule div_le_mono2) (use assms(2) in simp_all)
    ultimately show ?thesis using div_times_less_eq_dividend [of "length archive" "0x20"] by linarith
  qed
  ultimately show ?thesis
    using assms(2)
    by (simp add: Nca_Build.section_size_def lay_out_partition [OF assms(1)] partition_build_def Let_def
        length_block_digests [OF assms(1)] nca_consts)
qed

lemma pack_partition_ok:
  assumes "pfs0_ok files" "digest_size sha" "0x20 \<le> unat block" "length (pfs0_datas files) \<le> 2 ^ 38"
  obtains archive b p n where "pack_partition sha t title block enc files = Some (plain_nca_to_bytes p)"
    "pfs0_image files = Some archive" "nca_build sha b = Ok p" "nca_ok sha b" "nca_holds b 0 = Some archive"
    "nca_try_from_bytes (plain_nca_to_bytes p) = Ok n" "nr_content_type n = t" "nca_title_id n = title"
    "length (plain_nca_to_bytes p) < 2 ^ 41"
proof -
  obtain archive where a: "pfs0_image files = Some archive" using pfs0.builds [OF assms(1)] by blast
  let ?s = "\<lparr>ws_data = Section_Partition archive block, ws_encryption = enc\<rparr>"
  have add: "\<exists>b. nca_add_section (nca_new t title) 0 ?s = Ok b"
    by (simp add: nca_add_section_def nca_new_def nca_consts)
  then obtain b where b: "nca_add_section (nca_new t title) 0 ?s = Ok b" by blast
  then have secs: "nb_sections b = [Some ?s, None, None, None]" and f: "nb_content_type b = t" "nb_title_id b = title"
    by (auto simp: nca_add_section_def nca_new_def nca_consts numeral_eq_Suc)
  have inv: "nca_builder_inv b" by (rule nca_builder_inv_set(4) [OF nca_builder_inv_new b])
  have "length archive \<le> 2 ^ 39"
    using length_pfs0_image [OF _ a] assms(1,4) by (simp add: pfs0_ok_def)
  then have "Nca_Build.section_size sha ?s \<le> 2 ^ 40 + 0x220"
    using partition_section_size [OF assms(2,3), of archive enc] by simp
  then have size: "NCA_HEADER_SIZE + nca_body_size sha 0 (nb_sections b) < 2 ^ 41"
    using align_up_lt [of "MEDIA_UNIT_SIZE" "Nca_Build.section_size sha ?s"] by (simp add: secs nca_consts)
  have "\<not> zero_block (ws_data s)" if "Some s \<in> set (nb_sections b)" for s
    using that assms(3) by (auto simp: secs)
  from nca_build_succeeds [OF inv assms(2) this size] obtain p where p: "nca_build sha b = Ok p" by blast
  show ?thesis
  proof
    show "pack_partition sha t title block enc files = Some (plain_nca_to_bytes p)"
      by (simp add: pack_partition_def a b nca_image_def p)
    show "nca_holds b 0 = Some archive" by (simp add: nca_holds_def secs)
    show "nca_try_from_bytes (plain_nca_to_bytes p)
      = Ok \<lparr>nr_bytes = plain_nca_to_bytes p, nr_header = pn_header p, nr_content_type = nb_content_type b\<rparr>"
      by (rule nca_parse_built(1) [OF p inv assms(2)])
    show "nca_title_id \<lparr>nr_bytes = plain_nca_to_bytes p, nr_header = pn_header p, nr_content_type = nb_content_type b\<rparr> = title"
      using only_slots_differ_fields [OF nca_build_ok(1) [OF p inv assms(2)]]
      by (simp add: nca_title_id_def start_header_fields f)
    show "length (plain_nca_to_bytes p) < 2 ^ 41"
      using nca_parse_built(2) [OF p inv assms(2)] nca_build_ok(2) [OF p inv assms(2)] by simp
  qed (use a p inv assms(2) f in \<open>simp_all add: nca_ok_def\<close>)
qed

text \<open>Every file of the partition is found through the archive.\<close>

lemma pack_partition_serves:
  assumes "pfs0_ok files" "digest_size sha" "0x20 \<le> unat block" "length (pfs0_datas files) \<le> 2 ^ 38"
  obtains img n where "pack_partition sha t title block enc files = Some img" "nca_try_from_bytes img = Ok n"
    "nr_content_type n = t" "nca_title_id n = title" "length img < 2 ^ 41"
    "\<And>name. Option.bind (nca_get img 0) (\<lambda>archive. pfs0_get archive name) = map_of files name"
proof (rule pack_partition_ok [OF assms])
  fix archive b p n
  assume a: "pack_partition sha t title block enc files = Some (plain_nca_to_bytes p)"
    "pfs0_image files = Some archive" "nca_build sha b = Ok p" "nca_ok sha b" "nca_holds b 0 = Some archive"
    "nca_try_from_bytes (plain_nca_to_bytes p) = Ok n" "nr_content_type n = t" "nca_title_id n = title"
    "length (plain_nca_to_bytes p) < 2 ^ 41"
  have "nca_image sha b = Some (plain_nca_to_bytes p)" by (simp add: nca_image_def a(3))
  from nca_pfs0.through [OF a(4) this _ _ assms(1) a(2), of 0]
  have "Option.bind (nca_get (plain_nca_to_bytes p) 0) (\<lambda>archive. pfs0_get archive name) = map_of files name" for name
    by (simp add: a(2,5) get_in_def)
  with a show ?thesis by (intro that)
qed

section \<open>Steps of a package\<close>

definition add_files :: "pfs0_builder \<Rightarrow> (bytes \<times> bytes) list \<Rightarrow> (pfs0_builder, pfs0_add_error) result" where
  "add_files b fs = rfold (\<lambda>b (n, d). pfs0_add_file b n d) b fs"

lemma add_files_simps [simp]:
  "add_files b [] = Ok b" "add_files b ((n, d) # fs) = rbind (pfs0_add_file b n d) (\<lambda>b. add_files b fs)"
  by (simp_all add: add_files_def)

lemma add_files_ok:
  assumes "add_files b fs = Ok b'" "pfs0_inv b" "\<forall>f\<in>set fs. utf8_valid (fst f)"
  shows "b' = b @ fs \<and> pfs0_inv b'"
  using assms
proof (induction fs arbitrary: b)
  case (Cons f fs)
  obtain n d where f: "f = (n, d)" by (cases f)
  obtain b1 where b1: "pfs0_add_file b n d = Ok b1" "add_files b1 fs = Ok b'"
    using Cons.prems(1) by (auto simp: f rbind_eq_Ok)
  have "b1 = b @ [f]" using b1(1) by (auto simp: f pfs0_add_file_def split: if_splits)
  moreover have "pfs0_inv b1" by (rule pfs0_inv_add [OF Cons.prems(2) _ b1(1)]) (use Cons.prems(3) f in simp)
  ultimately show ?case using Cons.IH [OF b1(2)] Cons.prems(3) by auto
qed simp

text \<open>The program archive: the executable linked from an ELF, and its permissions.\<close>

definition pack_program ::
  "(bytes \<Rightarrow> bytes) \<Rightarrow> (bytes \<Rightarrow> bytes) \<Rightarrow> elf_segments \<Rightarrow> npdm_builder \<Rightarrow> u64 \<Rightarrow> u32 \<Rightarrow> section_encryption \<Rightarrow> bytes option" where
  "pack_program sha lz4c s perm title block enc =
     Option.bind (ok_of (nso_build sha lz4c (elf_into_nso_builder s))) (\<lambda>nso.
     Option.bind (ok_of (npdm_build perm :: (bytes, unit) result)) (\<lambda>npdm.
     Option.bind (ok_of (add_files pfs0_new [(ascii ''main'', nso), (ascii ''main.npdm'', npdm)])) (\<lambda>files.
       pack_partition sha Nca_Program title block enc files)))"

text \<open>What a section holds under a name, once the archive is opened.\<close>

definition open_partition :: "bytes \<Rightarrow> bytes \<Rightarrow> bytes option" where
  "open_partition img name = Option.bind (nca_get img 0) (\<lambda>archive. pfs0_get archive name)"

text \<open>The content meta of finished archives, and the archive it ships in.\<close>

definition content_of :: "(bytes \<Rightarrow> bytes) \<Rightarrow> cnmt_content_type \<times> bytes \<Rightarrow> content_record" where
  "content_of sha = (\<lambda>(t, x). \<lparr>co_hash = sha x, co_size = word_of_nat (length x), co_type = t\<rparr>)"

definition meta_of ::
  "(bytes \<Rightarrow> bytes) \<Rightarrow> u64 \<Rightarrow> (cnmt_content_type \<times> bytes) list \<Rightarrow> (cnmt_builder, cnmt_add_error) result" where
  "meta_of sha title contents = rfold (\<lambda>b c. cnmt_add_content b (content_of sha c)) (cnmt_new title) contents"

definition pack_meta :: "(bytes \<Rightarrow> bytes) \<Rightarrow> u32 \<Rightarrow> section_encryption \<Rightarrow> cnmt_builder \<Rightarrow> bytes option" where
  "pack_meta sha block enc b =
     Option.bind (ok_of (add_files pfs0_new [(cnmt_file_name b, cnmt_build b)])) (\<lambda>files.
       pack_partition sha Nca_Meta (cb_title_id b) block enc files)"

text \<open>
  The package of a title: its meta, and each content under the name its id stands for; how an id is
  spelled as a file name is up to the caller.
\<close>

definition title_files ::
  "(bytes \<Rightarrow> bytes) \<Rightarrow> (bytes \<Rightarrow> bytes) \<Rightarrow> bytes \<times> bytes \<Rightarrow> (cnmt_content_type \<times> bytes) list \<Rightarrow> (bytes \<times> bytes) list" where
  "title_files sha spell meta contents = meta # map (\<lambda>(t, x). (spell (take 0x10 (sha x)), x)) contents"

text \<open>Checking a package against its meta: every record names a file of the recorded size and hash, and
  there is one more file than there are records.\<close>

definition package_matches :: "(bytes \<Rightarrow> bytes) \<Rightarrow> (bytes \<Rightarrow> bytes) \<Rightarrow> pfs0 \<Rightarrow> cnmt \<Rightarrow> bool" where
  "package_matches sha spell p c \<longleftrightarrow>
     pfs0_file_count p = cnmt_record_count c + 1
     \<and> (\<forall>r\<in>set (cn_records c).
          case (pfs0_file_by_name p (spell (cr_nca_id r)) :: (pfs0_file option, unit) result) of
            Ok (Some f) \<Rightarrow> sha (pf_data f) = cr_hash r \<and> length (pf_data f) = unat (cnmt_record_size r)
          | _ \<Rightarrow> False)"

section \<open>The steps fit\<close>

lemma meta_of_ok:
  assumes "rfold (\<lambda>b c. cnmt_add_content b (content_of sha c)) b contents = Ok mb" "cnmt_inv b" "digest_size sha"
  shows "cnmt_inv mb \<and> cb_title_id mb = cb_title_id b
    \<and> cb_records mb = cb_records b @ map (content_of sha) contents"
  using assms
proof (induction contents arbitrary: b)
  case (Cons c cs)
  obtain b1 where b1: "cnmt_add_content b (content_of sha c) = Ok b1"
    "rfold (\<lambda>b c. cnmt_add_content b (content_of sha c)) b1 cs = Ok mb"
    using Cons.prems(1) by (auto simp: rbind_eq_Ok)
  have "length (co_hash (content_of sha c)) = 0x20"
    using assms(3) by (simp add: content_of_def digest_size_def split: prod.split)
  from cnmt_inv_add [OF Cons.prems(2) this b1(1)] Cons.IH [OF b1(2) _ assms(3)] b1(1) show ?case
    by (auto simp: cnmt_add_content_def split: if_splits)
qed simp

lemma hex_lower_range: "b \<in> set (hex_lower k n) \<Longrightarrow> (0x30 \<le> b \<and> b \<le> 0x39) \<or> (0x61 \<le> b \<and> b \<le> 0x66)"
proof (induction k arbitrary: n)
  case (Suc k)
  have "unat (hex_digit d) = (if d < 10 then 48 + d else 87 + d)" if "d < 16" for d
    using that unat_of_nat [where 'a = 8, of "48 + d"] unat_of_nat [where 'a = 8, of "87 + d"]
    by (simp only: hex_digit_def split: if_split) simp
  from this [of "n mod 16"] Suc show ?case
    by (auto simp: word_le_nat_alt split: if_splits)
qed simp

lemma cnmt_file_name_ok:
  "cnmt_file_name b \<noteq> []" "0 \<notin> set (cnmt_file_name b)" "0x2F \<notin> set (cnmt_file_name b)"
  "0x5C \<notin> set (cnmt_file_name b)" "utf8_valid (cnmt_file_name b)"
proof -
  let ?h = "set (hex_lower 16 (unat (cb_title_id b)))"
  have h: "c \<in> ?h \<Longrightarrow> 0x30 \<le> c \<and> c \<le> 0x66 \<and> c \<noteq> 0x5C" for c
    using hex_lower_range [of c 16 "unat (cb_title_id b)"] by (auto simp: word_le_nat_alt)
  have z: "0 \<notin> ?h" "0x2F \<notin> ?h" "0x5C \<notin> ?h" using h [of 0] h [of "0x2F"] h [of "0x5C"] by auto
  then show "cnmt_file_name b \<noteq> []" "0 \<notin> set (cnmt_file_name b)" "0x2F \<notin> set (cnmt_file_name b)"
    "0x5C \<notin> set (cnmt_file_name b)"
    by (simp_all add: cnmt_file_name_def ascii_def)
  have "c \<in> ?h \<Longrightarrow> c \<le> 0x7F" for c using h [of c] by (simp add: word_le_nat_alt)
  then show "utf8_valid (cnmt_file_name b)"
    by (intro utf8_ascii) (auto simp: cnmt_file_name_def ascii_def)
qed

lemma length_cnmt_build: "cnmt_inv b \<Longrightarrow> length (cnmt_build b) \<le> 0x200"
proof -
  assume inv: "cnmt_inv b"
  let ?rs = "map cnmt_raw_record (sort_key (\<lambda>r. cnmt_content_type_u8 (co_type r)) (cb_records b))"
  have wf: "\<forall>r\<in>set ?rs. cnmt_record_wf r" using inv by (auto simp: cnmt_inv_def intro!: cnmt_raw_record_wf)
  show "length (cnmt_build b) \<le> 0x200"
    using cnmt_record.enc_table_length [OF wf] cnmt_inv_count [OF inv]
    by (simp add: cnmt_build_def Let_def cnmt_header.enc_length cnmt_app_header.enc_length)
qed

lemma pack_meta_serves:
  assumes "cnmt_inv b" "digest_size sha" "0x20 \<le> unat block"
  obtains img n where "pack_meta sha block enc b = Some img" "nca_try_from_bytes img = Ok n"
    "nr_content_type n = Nca_Meta" "nca_title_id n = cb_title_id b" "length img < 2 ^ 41"
    "open_partition img (cnmt_file_name b) = Some (cnmt_build b)"
proof -
  let ?files = "[(cnmt_file_name b, cnmt_build b)]"
  have add: "add_files pfs0_new ?files = Ok ?files"
    using cnmt_file_name_ok [of b] by (simp add: pfs0_add_file_def pfs0_new_def)
  have ok: "pfs0_ok ?files"
    using cnmt_file_name_ok [of b] length_cnmt_build [OF assms(1)]
    by (simp add: pfs0_ok_def pfs0_inv_def pfs0_fits_def cnmt_file_name_def usize_max_def)
  have size: "length (pfs0_datas ?files) \<le> 2 ^ 38" using length_cnmt_build [OF assms(1)] by simp
  show ?thesis
  proof (rule pack_partition_serves [OF ok assms(2,3) size, of Nca_Meta "cb_title_id b" enc])
    fix img n
    assume a: "pack_partition sha Nca_Meta (cb_title_id b) block enc ?files = Some img" "nca_try_from_bytes img = Ok n"
      "nr_content_type n = Nca_Meta" "nca_title_id n = cb_title_id b" "length img < 2 ^ 41"
      "\<And>name. Option.bind (nca_get img 0) (\<lambda>archive. pfs0_get archive name) = map_of ?files name"
    have "pack_meta sha block enc b = Some img" by (simp only: pack_meta_def add ok_of.simps Option.bind.bind_lunit a(1))
    then show thesis by (rule that [OF _ a(2-5)]) (simp add: open_partition_def a(6))
  qed
qed

lemma pack_program_serves:
  assumes "digest_size sha" "nso_fits lz4c (elf_into_nso_builder s) (el_text s) (el_rodata s) (el_data s)"
    and "\<forall>i. nb_module_id (elf_into_nso_builder s) = Some i \<longrightarrow> length i = 0x20"
    and "npdm_fits perm" "0x20 \<le> unat block"
  obtains img n where "pack_program sha lz4c s perm title block enc = Some img" "nca_try_from_bytes img = Ok n"
    "nr_content_type n = Nca_Program" "nca_title_id n = title"
    "open_partition img (ascii ''main'')
      = Some (nso_image sha lz4c (elf_into_nso_builder s) (el_text s) (el_rodata s) (el_data s))"
    "open_partition img (ascii ''main.npdm'') = Some (npdm_image perm)"
proof -
  let ?b = "elf_into_nso_builder s"
  let ?nso = "nso_image sha lz4c ?b (el_text s) (el_rodata s) (el_data s)"
  let ?files = "[(ascii ''main'', ?nso), (ascii ''main.npdm'', npdm_image perm)]"
  have nso: "nso_build sha lz4c ?b = Ok ?nso"
    by (rule nso_build_ok [OF elf_nso_fields(1-3)]) (use assms(2) in \<open>simp add: nso_fits_def\<close>)
  have names: "ascii ''main'' \<noteq> ascii ''main.npdm''" by (simp add: ascii_def)
  have add: "add_files pfs0_new ?files = Ok ?files"
    using names by (simp add: pfs0_add_file_def pfs0_new_def) (simp add: ascii_def)
  have "length (enc_nso_header (nso_header_of sha lz4c ?b (el_text s) (el_rodata s) (el_data s))) = 0x100"
    by (rule nso_header.enc_length [OF nso_header_of_wf [OF assms(1,3)]])
  then have len: "length ?nso + length (npdm_image perm) \<le> 2 ^ 38"
    using assms(2,4) by (simp add: nso_image_def nso_fits_def length_npdm_image npdm_fits_def)
  then have ok: "pfs0_ok ?files"
    using names by (simp add: pfs0_ok_def pfs0_inv_def pfs0_fits_def usize_max_def) (simp add: ascii_def)
  have size: "length (pfs0_datas ?files) \<le> 2 ^ 38" using len by simp
  show ?thesis
  proof (rule pack_partition_serves [OF ok assms(1,5) size, of Nca_Program title enc])
    fix img n
    assume a: "pack_partition sha Nca_Program title block enc ?files = Some img" "nca_try_from_bytes img = Ok n"
      "nr_content_type n = Nca_Program" "nca_title_id n = title" "length img < 2 ^ 41"
      "\<And>name. Option.bind (nca_get img 0) (\<lambda>archive. pfs0_get archive name) = map_of ?files name"
    have "pack_program sha lz4c s perm title block enc = Some img"
      by (simp only: pack_program_def nso npdm_build_image [OF assms(4)] add ok_of.simps Option.bind.bind_lunit a(1))
    then show thesis
      by (rule that [OF _ a(2-4)]) (use names in \<open>simp_all add: open_partition_def a(6)\<close>)
  qed
qed

section \<open>The package of a title\<close>

lemma pfs0_built:
  assumes "pfs0_inv files" "pfs0_fits files"
  obtains img p where "(pfs0_build files :: (bytes, 'e) result) = Ok img" "pfs0_try_from_bytes img = Ok p"
    "pfs0_file_count p = length files"
    "\<And>n. (pfs0_file_by_name p n :: (pfs0_file option, 'f) result)
        = Ok (map_option (\<lambda>d. \<lparr>pf_name = n, pf_data = d\<rparr>) (map_of files n))"
proof -
  obtain img p where p: "(pfs0_build files :: (bytes, 'e) result) = Ok img" "pfs0_try_from_bytes img = Ok p"
    "\<forall>n. (pfs0_file_by_name p n :: (pfs0_file option, 'f) result)
        = Ok (map_option (\<lambda>d. \<lparr>pf_name = n, pf_data = d\<rparr>) (map_of files n))"
    using pfs0_lookup [OF assms, where 'e = 'e and 'f = 'f] by blast
  have "pfs0_fits (sort_key fst files)" using assms(2) by (simp add: pfs0_fits_def sort_key_names)
  from pfs0_parse_archive [OF this] have "p = pfs0_view (sort_key fst files)"
    using p(1,2) pfs0_build_archive [OF assms(2), where 'e = 'e] by simp
  then have "pfs0_file_count p = length files" by (simp add: pfs0_file_count_def pfs0_view_def)
  with p show ?thesis by (intro that) blast+
qed

lemma matches_meta:
  assumes "cnmt_inv mb" "cb_records mb = map (content_of sha) contents"
    and "pfs0_file_count p = length contents + 1" "\<forall>(t, x)\<in>set contents. length x \<le> usize_max"
    and "\<And>t x. (t, x) \<in> set contents \<Longrightarrow> (pfs0_file_by_name p (spell (take 0x10 (sha x))) :: (pfs0_file option, unit) result)
      = Ok (Some \<lparr>pf_name = spell (take 0x10 (sha x)), pf_data = x\<rparr>)"
  shows "package_matches sha spell p (cnmt_view mb)"
proof -
  have "case (pfs0_file_by_name p (spell (cr_nca_id r)) :: (pfs0_file option, unit) result) of
      Ok (Some f) \<Rightarrow> sha (pf_data f) = cr_hash r \<and> length (pf_data f) = unat (cnmt_record_size r)
    | _ \<Rightarrow> False" if r: "r \<in> set (cn_records (cnmt_view mb))" for r
  proof -
    obtain t x where c: "(t, x) \<in> set contents" "r = cnmt_raw_record (content_of sha (t, x))"
      using r by (auto simp: cnmt_view_def Let_def assms(2))
    then have "content_of sha (t, x) \<in> set (cb_records mb)" by (auto simp: assms(2))
    then have "co_size (content_of sha (t, x)) \<le> MAX_CONTENT_SIZE" using assms(1) by (auto simp: cnmt_inv_def)
    from cnmt_record_size_raw [OF this] have "cnmt_record_size r = word_of_nat (length x)"
      by (simp add: c(2) content_of_def)
    moreover have "cr_nca_id r = take 0x10 (sha x)" "cr_hash r = sha x"
      by (simp_all add: c(2) cnmt_raw_record_def content_of_def)
    moreover have "unat (word_of_nat (length x) :: u64) = length x"
      using assms(4) c(1) by (intro unat_u64_of_nat) (auto simp: usize_max_def)
    ultimately show ?thesis
      using assms(5) [OF c(1)] by simp
  qed
  moreover have "length (cn_records (cnmt_view mb)) = length contents"
    by (simp add: cnmt_view_def Let_def assms(2))
  ultimately show ?thesis using assms(3) by (simp add: package_matches_def cnmt_record_count_def)
qed

text \<open>Whatever else matches the same meta holds the same contents, or shows two inputs with one digest.\<close>

lemma matches_authentic:
  assumes "cb_records mb = map (content_of sha) contents" "package_matches sha spell p (cnmt_view mb)" "(t, x) \<in> set contents"
  shows "\<exists>f. (pfs0_file_by_name p (spell (take 0x10 (sha x))) :: (pfs0_file option, unit) result) = Ok (Some f)
    \<and> (pf_data f = x \<or> clash sha [pf_data f] [x])"
proof -
  let ?r = "cnmt_raw_record (content_of sha (t, x))"
  have "content_of sha (t, x) \<in> set (cb_records mb)" using assms(3) by (auto simp: assms(1))
  then have "?r \<in> set (cn_records (cnmt_view mb))" by (auto simp: cnmt_view_def Let_def)
  then have "case (pfs0_file_by_name p (spell (cr_nca_id ?r)) :: (pfs0_file option, unit) result) of
      Ok (Some f) \<Rightarrow> sha (pf_data f) = cr_hash ?r \<and> length (pf_data f) = unat (cnmt_record_size ?r)
    | _ \<Rightarrow> False"
    using assms(2) by (simp add: package_matches_def)
  then show ?thesis
    by (auto simp: cnmt_raw_record_def content_of_def clash_def split: result.splits option.splits)
qed

end
