(* ===== verification/Package_Properties.thy ===== *)
theory Package_Properties
  imports Package_Pack Nacp_Properties Npdm_Properties Romfs_Properties
begin

text \<open>
  What packages of several formats promise: that what went into the innermost builder is what a
  reader finds who opens them one inside the other.
\<close>

text \<open>C2. From the linker to the console.  An executable linked as an ELF, packed as an NSO next to its permissions
  into the PFS0 of a program archive, always packs, and is found again by a reader that goes the same way
  back: the archive opens as a program of its title, \<^verbatim>\<open>main\<close> parses as an NSO whose segments expand to the
  linked ones padded to pages, under the ELF's build identity, and \<^verbatim>\<open>main.npdm\<close> parses to the
  services and capabilities that were asked for.\<close>

theorem program_round_trip:
  assumes "elf_parse object_parse elf = Ok s" "digest_size sha" "lz4_inverse lz4c lz4d"
    and "nso_fits lz4c (elf_into_nso_builder s) (el_text s) (el_rodata s) (el_data s)"
    and "npdm_fits perm" "0x20 \<le> unat block"
  shows "\<exists>img n nso m npdm q sac kc.
      pack_program sha lz4c s perm title block enc = Some img \<and> nca_try_from_bytes img = Ok n
    \<and> nr_content_type n = Nca_Program \<and> nca_title_id n = title
    \<and> open_partition img (ascii ''main'') = Some nso \<and> nso_try_from_bytes nso = Ok m
    \<and> nso_text lz4d m = Ok (paged (el_text s)) \<and> nso_rodata lz4d m = Ok (paged (el_rodata s))
    \<and> nso_data lz4d m = Ok (paged (el_data s))
    \<and> nso_module_id m = (case el_build_id s of Some i \<Rightarrow> i | None \<Rightarrow> zeros 0x20)
    \<and> nh_bss_size (nso_hdr m) = ucast (el_bss_size s)
    \<and> open_partition img (ascii ''main.npdm'') = Some npdm \<and> npdm_try_from_bytes npdm = Ok q
    \<and> aci0_sac_data q = Ok sac \<and> read_services sac = services_asked (ac_service_access (npdm_aci_of perm))
    \<and> aci0_kc_data q = Ok kc \<and> read_capabilities kc = concat (map grants (ac_kernel_capabilities (npdm_aci_of perm)))"
proof -
  let ?b = "elf_into_nso_builder s" and ?t = "el_text s" and ?r = "el_rodata s" and ?d = "el_data s"
  have mid: "\<forall>i. nb_module_id ?b = Some i \<longrightarrow> length i = 0x20"
    using elf_parse_build_id [OF assms(1)] by (simp add: elf_nso_fields)
  let ?m = "\<lparr>nso_bytes = nso_image sha lz4c ?b ?t ?r ?d, nso_hdr = nso_header_of sha lz4c ?b ?t ?r ?d\<rparr>"
  have "nso_module_id ?m = (case el_build_id s of Some i \<Rightarrow> i | None \<Rightarrow> zeros 0x20)"
    "nh_bss_size (nso_hdr ?m) = ucast (el_bss_size s)"
    by (simp_all add: nso_module_id_def nso_header_of_def Let_def elf_nso_fields)
  moreover have "read_services (aci0_sac_of perm) = services_asked (ac_service_access (npdm_aci_of perm))"
    "read_capabilities (aci0_kc_of perm) = concat (map grants (ac_kernel_capabilities (npdm_aci_of perm)))"
    by (simp_all add: aci0_sac_of_def aci0_kc_of_def read_built_services read_built_capabilities)
  ultimately show ?thesis
    using nso_image_parts(1) [OF assms(2) mid assms(4)] nso_image_expands [OF assms(2) mid assms(4,3)]
      npdm_read_image [OF assms(5)] npdm_image_accessors(2,3) [OF assms(5) refl]
    by (rule_tac pack_program_serves [OF assms(2,4) mid assms(5,6), of title enc]) blast
qed

theorem program_round_trip_witness:
  "\<exists>s img nso m npdm q sac. elf_parse (\<lambda>_. Inr (elf_example [1, 1, 1]) :: unit + elf_file) [] = Ok s
    \<and> pack_program nso_digest nso_pack s npdm_example 0x0100000000001000 0x4000 Section_Ctr = Some img
    \<and> open_partition img (ascii ''main'') = Some nso \<and> nso_try_from_bytes nso = Ok m
    \<and> nso_rodata nso_unpack m = Ok (paged [2]) \<and> nso_module_id m = [0xAB, 0xCD] @ zeros 0x1E
    \<and> open_partition img (ascii ''main.npdm'') = Some npdm \<and> npdm_try_from_bytes npdm = Ok q
    \<and> aci0_sac_data q = Ok sac \<and> read_services sac = [(ascii ''fsp-srv'', False)]"
proof (rule elf_example_parsed)
  fix s
  assume s: "elf_parse (\<lambda>_. Inr (elf_example [1, 1, 1]) :: unit + elf_file) [] = Ok s" "el_rodata s = [2]"
    "el_build_id s = Some ([0xAB, 0xCD] @ zeros 0x1E)"
    "nso_fits nso_pack (elf_into_nso_builder s) (el_text s) (el_rodata s) (el_data s)"
  have sac: "services_asked (ac_service_access (npdm_aci_of npdm_example)) = [(ascii ''fsp-srv'', False)]"
    by (simp add: npdm_example_fields services_asked_def ascii_def)
  have "0x20 \<le> unat (0x4000 :: u32)" by simp
  from program_round_trip [OF s(1) nso_parameters s(4) npdm_example_fits this, of "0x0100000000001000" Section_Ctr] s(1)
  show ?thesis unfolding s(2,3) sac option.case by blast
qed

text \<open>C4. A title answers every lookup as the files it was made from.  Through three levels, package, archive and
  file system: the file of a PFS0 or of a RomFS in a section of an NCA in the PFS0 of the title is the
  one that was added under its name or its path, and none where none was added.\<close>

theorem title_serves_files:
  assumes "pfs0_inv title" "pfs0_fits title" "(pfs0_build title :: (bytes, unit) result) = Ok package"
    and "map_of title name = Some (plain_nca_to_bytes p)" "nca_build sha b = Ok p" "nca_builder_inv b" "digest_size sha"
    and "i < 4" "nb_sections b ! i = Some s"
  shows "(\<forall>files n. pfs0_inv files \<longrightarrow> pfs0_fits files
        \<longrightarrow> (pfs0_build files :: (bytes, unit) result) = Ok (section_content (ws_data s))
        \<longrightarrow> get_in pfs0_get (get_in nca_get pfs0_get) package (name, i, n) = map_of files n)
    \<and> (\<forall>entries path. romfs_ok entries \<longrightarrow> romfs_image_of entries = Some (section_content (ws_data s))
        \<longrightarrow> get_in pfs0_get (get_in nca_get romfs_get) package (name, i, path) = romfs_holds entries path)"
proof (intro conjI allI impI)
  have outer: "pfs0_ok title" "pfs0_image title = Some package" using assms(1-3) by (simp_all add: pfs0_ok_def pfs0_image_def)
  have nca: "nca_ok sha b" "nca_image sha b = Some (plain_nca_to_bytes p)" "nca_holds b i = Some (section_content (ws_data s))"
    using assms(5-9) by (simp_all add: nca_ok_def nca_image_def nca_holds_def)
  {
    fix files n
    assume "pfs0_inv files" "pfs0_fits files" "(pfs0_build files :: (bytes, unit) result) = Ok (section_content (ws_data s))"
    then have files: "pfs0_ok files" "pfs0_image files = Some (section_content (ws_data s))"
      by (simp_all add: pfs0_ok_def pfs0_image_def)
    let ?c = "(b, [i \<mapsto> files])"
    have "get_in pfs0_get (get_in nca_get pfs0_get) package (name, i, n) = holds_in map_of ?c (i, n)"
      by (rule title_pfs0.through [OF outer, where sha = sha and c = "?c"])
        (use nca files assms(4,8) in \<open>auto simp: build_in_def ok_in_def keys_in_def split: if_splits\<close>)
    then show "get_in pfs0_get (get_in nca_get pfs0_get) package (name, i, n) = map_of files n"
      by (simp add: holds_in_def)
  }
  fix entries path
  assume files: "romfs_ok entries" "romfs_image_of entries = Some (section_content (ws_data s))"
  let ?c = "(b, [i \<mapsto> entries])"
  have "get_in pfs0_get (get_in nca_get romfs_get) package (name, i, path) = holds_in romfs_holds ?c (i, path)"
    by (rule title_romfs.through [OF outer, where sha = sha and c = "?c"])
      (use nca files assms(4,8) in \<open>auto simp: build_in_def ok_in_def keys_in_def split: if_splits\<close>)
  then show "get_in pfs0_get (get_in nca_get romfs_get) package (name, i, path) = romfs_holds entries path"
    by (simp add: holds_in_def)
qed

theorem title_serves_files_witness:
  "\<exists>package. get_in pfs0_get (get_in nca_get pfs0_get) package ([0x62], 0, [0x61]) = Some [7]
     \<and> get_in pfs0_get (get_in nca_get pfs0_get) package ([0x62], 0, [0x63]) = None"
proof -
  let ?files = "[([0x61], [7])] :: pfs0_builder"
  have ok: "pfs0_ok ?files" by (simp add: pfs0_ok_def pfs0_inv_def pfs0_fits_def usize_max_def)
  show ?thesis
  proof (rule pack_partition_ok [OF ok nso_parameters(1), of "0x20" Nca_Data 7 Section_None])
    fix archive b p n
    assume a: "pfs0_image ?files = Some archive" "nca_build nso_digest b = Ok p" "nca_ok nso_digest b"
      "nca_holds b 0 = Some archive"
    then obtain s where s: "nb_sections b ! 0 = Some s" "section_content (ws_data s) = archive"
      by (auto simp: nca_holds_def)
    have b: "nca_builder_inv b" using a(3) by (simp add: nca_ok_def)
    let ?title = "[([0x62], plain_nca_to_bytes p)] :: pfs0_builder"
    have t: "pfs0_inv ?title" "pfs0_fits ?title"
      using nca_parse_built(3) [OF a(2) b nso_parameters(1)] by (simp_all add: pfs0_inv_def pfs0_fits_def)
    then obtain package where "(pfs0_build ?title :: (bytes, unit) result) = Ok package"
      using pfs0_lookup [OF t, where 'e = unit and 'f = unit] by blast
    from title_serves_files [OF t this _ a(2) b nso_parameters(1) _ s(1), of "[0x62]"]
    have "\<forall>files n. pfs0_inv files \<longrightarrow> pfs0_fits files
        \<longrightarrow> (pfs0_build files :: (bytes, unit) result) = Ok archive
        \<longrightarrow> get_in pfs0_get (get_in nca_get pfs0_get) package ([0x62], 0, n) = map_of files n"
      by (simp add: s(2))
    moreover have "(pfs0_build ?files :: (bytes, unit) result) = Ok archive"
      using a(1) by (cases "pfs0_build ?files :: (bytes, unit) result") (simp_all add: pfs0_image_def)
    ultimately have "get_in pfs0_get (get_in nca_get pfs0_get) package ([0x62], 0, n) = map_of ?files n" for n
      using ok by (simp only: pfs0_ok_def)
    then show ?thesis by (intro exI [of _ package]) simp
  qed simp_all
qed

text \<open>C3. A package matches its meta.  The meta that was made from finished contents, found in the package
  through its own archive, lists each of them by a size and a hash that the file under its id has, and
  the package holds one file more than it lists.  And no other package will do: one that matches the
  same meta holds the same bytes under the same names, or exhibits two inputs of one digest.\<close>

theorem title_matches_meta:
  assumes "digest_size sha" "meta_of sha title contents = Ok mb" "pack_meta sha block enc mb = Some meta"
    and "0x20 \<le> unat block" "utf8_valid meta_name" "\<forall>id. utf8_valid (spell id)"
    and "add_files pfs0_new (title_files sha spell (meta_name, meta) contents) = Ok files" "pfs0_fits files"
  shows "\<exists>package p cnmt c. (pfs0_build files :: (bytes, unit) result) = Ok package
    \<and> pfs0_try_from_bytes package = Ok p
    \<and> Option.bind (pfs0_get package meta_name) (\<lambda>x. open_partition x (cnmt_file_name mb)) = Some cnmt
    \<and> cnmt_try_from_bytes cnmt = Ok c \<and> cnmt_title_id c = title
    \<and> package_matches sha spell p c
    \<and> (\<forall>p'. package_matches sha spell p' c \<longrightarrow> (\<forall>(t, x)\<in>set contents.
         \<exists>f. (pfs0_file_by_name p' (spell (take 0x10 (sha x))) :: (pfs0_file option, unit) result) = Ok (Some f)
           \<and> (pf_data f = x \<or> clash sha [pf_data f] [x])))"
proof -
  have mb: "cnmt_inv mb" "cb_title_id mb = title" "cb_records mb = map (content_of sha) contents"
    using meta_of_ok [OF assms(2) [unfolded meta_of_def] cnmt_inv_new assms(1)] by (simp_all add: cnmt_new_def)
  have meta: "open_partition meta (cnmt_file_name mb) = Some (cnmt_build mb)"
    by (rule pack_meta_serves [OF mb(1) assms(1,4), of enc]) (use assms(3) in simp)
  have "\<forall>f\<in>set (title_files sha spell (meta_name, meta) contents). utf8_valid (fst f)"
    using assms(5,6) by (auto simp: title_files_def)
  from add_files_ok [OF assms(7) pfs0_inv_new this]
  have files: "files = title_files sha spell (meta_name, meta) contents" "pfs0_inv files"
    by (auto simp: pfs0_new_def)
  have dist: "distinct (map fst files)" using files(2) by (simp add: pfs0_inv_def)
  have in_files: "(spell (take 0x10 (sha x)), x) \<in> set files" if "(t, x) \<in> set contents" for t x
    using that by (auto simp: files(1) title_files_def)
  have look: "map_of files n = Some d" if "(n, d) \<in> set files" for n d
    by (rule map_of_is_SomeI [OF dist that])
  have size: "\<forall>(t, x)\<in>set contents. length x \<le> usize_max"
  proof -
    have "length d \<le> length (pfs0_datas files)" if "(n, d) \<in> set files" for n d
      using that by (induction files) auto
    then show ?thesis using in_files assms(8) by (fastforce simp: pfs0_fits_def)
  qed
  show ?thesis
  proof (rule pfs0_built [OF files(2) assms(8), where 'e = unit and 'f = unit])
    fix package p
    assume p: "(pfs0_build files :: (bytes, unit) result) = Ok package" "pfs0_try_from_bytes package = Ok p"
      "pfs0_file_count p = length files"
      "\<And>n. (pfs0_file_by_name p n :: (pfs0_file option, unit) result)
        = Ok (map_option (\<lambda>d. \<lparr>pf_name = n, pf_data = d\<rparr>) (map_of files n))"
    have "pfs0_ok files" "pfs0_image files = Some package" by (simp_all add: pfs0_ok_def pfs0_image_def files(2) assms(8) p(1))
    from pfs0.built [OF this] have "pfs0_get package meta_name = Some meta"
      by (simp add: files(1) title_files_def)
    moreover have "package_matches sha spell p (cnmt_view mb)"
      by (rule matches_meta [OF mb(1,3) _ size]) (use p(3,4) look [OF in_files] files(1) in \<open>auto simp: title_files_def\<close>)
    moreover have "cnmt_title_id (cnmt_view mb) = title" by (simp add: cnmt_title_id_def cnmt_view_def Let_def mb(2))
    ultimately show ?thesis
      using p(1,2) meta cnmt_parse_built [OF mb(1)] matches_authentic [OF mb(3)]
      by (intro exI [of _ package] exI [of _ p] exI [of _ "cnmt_build mb"] exI [of _ "cnmt_view mb"]) auto
  qed
qed

text \<open>Ids are spelled as the console does, in hexadecimal before \<^verbatim>\<open>.nca\<close>.\<close>

definition spell_hex :: "bytes \<Rightarrow> bytes" where
  "spell_hex nid = concat (map (\<lambda>b. hex_lower 2 (unat b)) nid) @ ascii ''.nca''"

lemma spell_hex_chars: "c \<in> set (spell_hex nid) \<Longrightarrow> 0x2E \<le> c \<and> c \<le> 0x6E \<and> c \<noteq> 0x2F \<and> c \<noteq> 0x5C"
  using hex_lower_range [of c 2] by (fastforce simp: spell_hex_def ascii_def word_le_nat_alt)

theorem title_matches_meta_witness:
  "\<exists>mb meta files package p cnmt c. meta_of nso_digest 7 [(Cnmt_Program, [1, 2])] = Ok mb
    \<and> pack_meta nso_digest 0x1000 Section_None mb = Some meta
    \<and> add_files pfs0_new (title_files nso_digest spell_hex (ascii ''meta'', meta) [(Cnmt_Program, [1, 2])]) = Ok files
    \<and> (pfs0_build files :: (bytes, unit) result) = Ok package \<and> pfs0_try_from_bytes package = Ok p
    \<and> Option.bind (pfs0_get package (ascii ''meta'')) (\<lambda>x. open_partition x (cnmt_file_name mb)) = Some cnmt
    \<and> cnmt_try_from_bytes cnmt = Ok c \<and> package_matches nso_digest spell_hex p c"
proof -
  let ?cs = "[(Cnmt_Program, [1, 2])] :: (cnmt_content_type \<times> bytes) list"
  have m: "\<exists>mb. meta_of nso_digest 7 ?cs = Ok mb"
    by (simp add: meta_of_def cnmt_add_content_def content_of_def cnmt_new_def not_less word_le_nat_alt unat_max_content_size)
  then obtain mb where mb: "meta_of nso_digest 7 ?cs = Ok mb" by blast
  have inv: "cnmt_inv mb"
    using meta_of_ok [OF mb [unfolded meta_of_def] cnmt_inv_new nso_parameters(1)] by simp
  have block: "0x20 \<le> unat (0x1000 :: u32)" by simp
  obtain meta where meta: "pack_meta nso_digest 0x1000 Section_None mb = Some meta" "length meta < 2 ^ 41"
    by (rule pack_meta_serves [OF inv nso_parameters(1) block])
  have spell: "utf8_valid (spell_hex nid)" for nid
    by (rule utf8_ascii) (use spell_hex_chars [of _ nid] in \<open>fastforce simp: word_le_nat_alt\<close>)
  let ?files = "title_files nso_digest spell_hex (ascii ''meta'', meta) ?cs"
  have chars: "0 \<notin> set (spell_hex nid)" "0x2F \<notin> set (spell_hex nid)" "0x5C \<notin> set (spell_hex nid)" "spell_hex nid \<noteq> []"
    "spell_hex nid \<noteq> ascii ''meta''" for nid
  proof -
    show "0 \<notin> set (spell_hex nid)" "0x2F \<notin> set (spell_hex nid)" "0x5C \<notin> set (spell_hex nid)"
      using spell_hex_chars [of _ nid] by (fastforce simp: word_le_nat_alt)+
    show "spell_hex nid \<noteq> []" by (simp add: spell_hex_def ascii_def)
    have "(0x74 :: u8) \<notin> set (spell_hex nid)" using spell_hex_chars [of "0x74" nid] by (auto simp: word_le_nat_alt)
    then show "spell_hex nid \<noteq> ascii ''meta''" by (auto simp: ascii_def)
  qed
  have add: "add_files pfs0_new ?files = Ok ?files"
    using chars chars(5) [symmetric] by (simp add: title_files_def pfs0_add_file_def pfs0_new_def) (simp add: ascii_def)
  have "length (spell_hex (take 0x10 (nso_digest [1, 2]))) = 0x24"
    by (simp add: spell_hex_def nso_digest_def resize0_def length_concat comp_def sum_list_triv)
  then have fits: "pfs0_fits ?files"
    using meta(2) by (simp add: title_files_def pfs0_fits_def usize_max_def)
  have "utf8_valid (ascii ''meta'')" by (simp add: ascii_def)
  from title_matches_meta [OF nso_parameters(1) mb meta(1) block this _ add fits] spell
  show ?thesis using mb meta(1) add by blast
qed

text \<open>A homebrew bundle: the executable linked from an ELF, with its presentation and its files behind it.\<close>

definition pack_homebrew :: "elf_segments \<Rightarrow> bytes \<Rightarrow> bytes \<Rightarrow> bytes \<Rightarrow> nro_builder" where
  "pack_homebrew s icon nacp romfs =
     nro_set_romfs romfs (nro_set_nacp nacp (nro_set_icon icon (elf_into_nro_builder s)))"

lemma pack_homebrew_fields:
  "rb_text (pack_homebrew s icon nacp romfs) = Some (el_text s)" "rb_rodata (pack_homebrew s icon nacp romfs) = Some (el_rodata s)"
  "rb_data (pack_homebrew s icon nacp romfs) = Some (el_data s)" "rb_build_id (pack_homebrew s icon nacp romfs) = el_build_id s"
  "rb_icon (pack_homebrew s icon nacp romfs) = Some icon" "rb_nacp (pack_homebrew s icon nacp romfs) = Some nacp"
  "rb_romfs (pack_homebrew s icon nacp romfs) = Some romfs"
  "rb_bss_size (pack_homebrew s icon nacp romfs) = ucast (el_bss_size s)"
  by (simp_all add: pack_homebrew_def elf_nro_fields nro_set_romfs_def nro_set_nacp_def nro_set_icon_def)

lemma romfs_image_nonempty:
  assumes "romfs_ok entries" "romfs_image_of entries = Some img"
  shows "img \<noteq> []"
proof
  assume "img = []"
  moreover obtain b where b: "romfs_add_all romfs_new entries = Ok b" "entries \<noteq> []" "\<forall>e\<in>set entries. utf8_valid (fst e)"
    "romfs_fits b" "romfs_small entries"
    using assms(1) by (auto simp: romfs_ok_def)
  moreover have "romfs_build b = Ok img"
    using assms(2) b(1) by (cases "romfs_build b") (simp_all add: romfs_image_of_def)
  ultimately obtain r where "romfs_try_from_bytes [] = Ok r" using romfs_answers_built [OF b] by auto
  then show False by (simp add: romfs_try_from_bytes_def)
qed

lemma romfs_example_ok: "romfs_ok romfs_example"
  by (rule romfs_example_added) (use romfs_example_entries in \<open>auto simp: romfs_ok_def\<close>)

lemma romfs_image_small: "romfs_ok entries \<Longrightarrow> romfs_image_of entries = Some img \<Longrightarrow> length img \<le> 2 ^ 41"
  using romfs_small_image
  by (auto simp: romfs_ok_def romfs_image_of_def elim!: ok_of.elims)

text \<open>C38. A homebrew bundle carries everything it was made of.  The executable linked from an ELF builds with its
  presentation and its file system behind it, and parses: the linked segments come back padded to pages, with the
  header in place of bytes 0x10 to 0x80 of text, and the build identity and the size of bss with them; the presentation asset parses to the structure that was filled, with the same
  name and author in every language, and the file system asset answers every path as the files that
  were added.\<close>

theorem homebrew_bundle:
  assumes "elf_parse object_parse elf = Ok s"
    and "nacp_builder_ok nb" "nacp_problems nb = []" "nacp_id_ok nb" "nacp_build nb = Ok nacp"
    and "romfs_ok entries" "romfs_image_of entries = Some romfs"
    and "nro_linked (pack_homebrew s icon nacp romfs) (el_text s) (el_rodata s) (el_data s)"
  shows "\<exists>img n x m. nro_build (pack_homebrew s icon nacp romfs) = Ok img \<and> nro_try_from_bytes img = Ok n
    \<and> (nro_text_segment n :: (bytes, unit) result)
        = Ok (take 0x10 (paged (el_text s)) @ enc_nro_header (nro_hdr n) @ drop 0x80 (paged (el_text s)))
    \<and> (nro_rodata_segment n :: (bytes, unit) result) = Ok (paged (el_rodata s))
    \<and> (nro_data_segment n :: (bytes, unit) result) = Ok (paged (el_data s))
    \<and> nro_build_id n = (case el_build_id s of Some i \<Rightarrow> i | None \<Rightarrow> zeros 0x20)
    \<and> rh_bss_size (nro_hdr n) = ucast (el_bss_size s)
    \<and> nro_get img Asset_Icon = asset_seen (Some icon)
    \<and> nro_get img Asset_Nacp = Some x \<and> nacp_try_from_bytes x = Ok m \<and> nacp_raw m = nacp_contents nb
    \<and> (\<forall>i. nacp_language_entry_at m i =
        (if i < 16 \<and> nacp_visible nb i then Some (nacp_language_entry (nb_names nb ! i, nb_authors nb ! i)) else None))
    \<and> (\<forall>path. get_in nro_get romfs_get img (Asset_Romfs, path) = romfs_holds entries path)"
proof -
  let ?b = "pack_homebrew s icon nacp romfs" and ?m = "\<lparr>nacp_raw = nacp_contents nb\<rparr>"
  let ?img = "nro_image ?b (el_text s) (el_rodata s) (el_data s)"
  have id: "nro_id_ok ?b"
    using elf_parse_build_id [OF assms(1)] by (simp add: nro_id_ok_def pack_homebrew_fields split: option.split)
  have ok: "nro_ok ?b" using id assms(8) by (simp add: nro_ok_def pack_homebrew_fields)
  have b: "nro_build ?b = Ok ?img"
    using nro_build_some [OF id pack_homebrew_fields(1-3)] nro_linked_sizes [OF assms(8)] by simp
  then have img: "nro_image_of ?b = Some ?img" by (simp add: nro_image_of_def)
  note wf = nacp_contents_wf [OF assms(2,3)]
  have nacp: "nacp = enc_nacp_struct (nacp_contents nb)" "length nacp = 0x4000"
    using nacp_build_eq [OF assms(2)] assms(3-5) nacp_struct.enc_length [OF wf] by simp_all
  then have m: "nacp_try_from_bytes nacp = Ok ?m"
    using nacp_struct.dec_enc [OF wf, of "[]"] by (simp add: nacp_try_from_bytes_def ref_from_prefix_run)
  have "nro_holds ?b Asset_Romfs = romfs_image_of entries"
    using romfs_image_nonempty [OF assms(6,7)] by (simp add: assms(7) pack_homebrew_fields asset_seen_def)
  then have files: "get_in nro_get romfs_get ?img (Asset_Romfs, path) = romfs_holds entries path" for path
    by (intro nro_romfs.through [OF ok img UNIV_I _ assms(6,7) UNIV_I])
  have x: "nro_get ?img Asset_Nacp = Some nacp" "nro_get ?img Asset_Icon = asset_seen (Some icon)"
    using nacp(2) nro.built [OF ok img, of Asset_Nacp] nro.built [OF ok img, of Asset_Icon]
    by (auto simp: pack_homebrew_fields asset_seen_def)
  obtain n where n: "nro_try_from_bytes ?img = Ok n" "nro_hdr n = nro_header_of ?b (el_text s) (el_rodata s) (el_data s)"
    using nro_built [OF id assms(8)] by simp
  have "nro_build_id n = (case el_build_id s of Some i \<Rightarrow> i | None \<Rightarrow> zeros 0x20)" "rh_bss_size (nro_hdr n) = ucast (el_bss_size s)"
    by (simp_all add: nro_build_id_def n(2) nro_header_of_def pack_homebrew_fields)
  then show ?thesis
    using b n(1) nro_built_accessors(1-3) [OF id assms(8) n(1), where 'e = unit, folded n(2)] x m nacp_entry_at [OF assms(2)] files
    by (intro exI [of _ ?img] exI [of _ n] exI [of _ nacp] exI [of _ ?m]) simp
qed

theorem homebrew_bundle_witness:
  "\<exists>s nacp romfs img n x m. elf_parse (\<lambda>_. Inr (elf_example [1, 1, 1]) :: unit + elf_file) [] = Ok s
    \<and> nacp_build nacp_example = Ok nacp \<and> romfs_image_of romfs_example = Some romfs
    \<and> nro_build (pack_homebrew s [0xFF] nacp romfs) = Ok img \<and> nro_try_from_bytes img = Ok n
    \<and> (nro_data_segment n :: (bytes, unit) result) = Ok (paged [3])
    \<and> nro_get img Asset_Icon = Some [0xFF] \<and> nro_get img Asset_Nacp = Some x \<and> nacp_try_from_bytes x = Ok m
    \<and> get_in nro_get romfs_get img (Asset_Romfs, [0x2F, 0x61, 0x2F, 0x62]) = Some [1, 2, 3]"
proof (rule elf_example_parsed)
  fix s
  assume s: "elf_parse (\<lambda>_. Inr (elf_example [1, 1, 1]) :: unit + elf_file) [] = Ok s"
    "el_text s = [0, 0, 0, 0, 4, 0, 0, 0]" "el_text_vaddr s = 0" "el_rodata s = [2]" "el_rodata_vaddr s = 0x1000"
    "el_data s = [3]" "el_data_vaddr s = 0x2000"
  obtain romfs where romfs: "romfs_image_of romfs_example = Some romfs" using romfs.builds [OF romfs_example_ok] by blast
  obtain nacp where nacp: "nacp_build nacp_example = Ok nacp" "length nacp = 0x4000"
    using nacp_build_eq [OF nacp_example_ok(1)] nacp_example_ok(2,3)
      nacp_struct.enc_length [OF nacp_contents_wf [OF nacp_example_ok(1,2)]] by simp
  let ?b = "pack_homebrew s [0xFF] nacp romfs"
  have a: "rb_text_vaddr ?b = 0" "rb_rodata_vaddr ?b = 0x1000" "rb_data_vaddr ?b = 0x2000"
    by (simp_all add: pack_homebrew_def elf_into_nro_builder_def nro_setters s Let_def split: option.split)
  have l: "nro_linked ?b (el_text s) (el_rodata s) (el_data s)"
    using romfs_image_small [OF romfs_example_ok romfs] nacp(2)
    by (simp add: nro_linked_def a s(2,4,6) length_paged align_up_def nro_total_def nro_size_of_def
        length_nro_asset_area asset_len_def pack_homebrew_fields usize_max_def)
  have files: "romfs_holds romfs_example [0x2F, 0x61, 0x2F, 0x62] = Some [1, 2, 3]"
    by (simp add: romfs_holds_def romfs_example_entries)
  from homebrew_bundle [OF s(1) nacp_example_ok nacp(1) romfs_example_ok romfs l] s(1,6) nacp(1) romfs files
  show ?thesis by (fastforce simp: asset_seen_def)
qed

end
