(* ===== verification/Reachable.thy ===== *)
theory Reachable
  imports Nca_Write Cnmt Pfs0 Romfs_Directory
begin

text \<open>
  What a caller can do.  A builder is a small state machine: it is made by \<^verbatim>\<open>new\<close>, or for PFS0 and RomFS by
  \<^verbatim>\<open>from_directory\<close>, and the public methods that return one are its steps; the other components' theorems assume an invariant of it.
  Here the invariants are related to the states that can be reached.
\<close>

section \<open>Scripts of calls\<close>

definition reachable :: "('b \<Rightarrow> bool) \<Rightarrow> ('b \<Rightarrow> 'b \<Rightarrow> bool) \<Rightarrow> 'b \<Rightarrow> bool" where
  "reachable start step b \<longleftrightarrow> (\<exists>b0. start b0 \<and> step\<^sup>*\<^sup>* b0 b)"

lemma reachable_start: "start b \<Longrightarrow> reachable start step b"
  by (auto simp: reachable_def)

lemma reachable_step: "reachable start step b \<Longrightarrow> step b b' \<Longrightarrow> reachable start step b'"
  unfolding reachable_def by (blast intro: rtranclp.rtrancl_into_rtrancl)

locale state_machine =
  fixes start :: "'b \<Rightarrow> bool" and step :: "'b \<Rightarrow> 'b \<Rightarrow> bool" and inv :: "'b \<Rightarrow> bool"
  assumes inv_start: "start b \<Longrightarrow> inv b"
    and inv_step: "inv b \<Longrightarrow> step b b' \<Longrightarrow> inv b'"
begin

lemma inv_reachable: "reachable start step b \<Longrightarrow> inv b"
proof -
  assume "reachable start step b"
  then obtain b0 where "start b0" "step\<^sup>*\<^sup>* b0 b" by (auto simp: reachable_def)
  from this(2,1) show "inv b" by (induction rule: rtranclp_induct) (blast intro: inv_start inv_step)+
qed

end

text \<open>A machine that reaches every state of its invariant.\<close>

locale exact_machine = state_machine +
  assumes complete: "inv b \<Longrightarrow> reachable start step b"
begin

lemma reachable_iff: "reachable start step b \<longleftrightarrow> inv b"
  using inv_reachable complete by blast

end

section \<open>The builders\<close>

text \<open>
  A file name and a path are each a \<^verbatim>\<open>String\<close>, so they are UTF-8; a hash is an array of 32 bytes, a key one of
  16.  The host may hold anything, within what it guarantees of the names in a directory (\<open>host_ok\<close>).
\<close>

inductive pfs0_start :: "pfs0_builder \<Rightarrow> bool" where
  pfs0_started: "pfs0_start pfs0_new"
| pfs0_listed: "\<forall>p k n d. Dir_Entry p k (Some n) d \<in> set es \<longrightarrow> utf8_valid n \<Longrightarrow>
    pfs0_from_directory path (Some es) = Ok b \<Longrightarrow> pfs0_start b"

inductive pfs0_step :: "pfs0_builder \<Rightarrow> pfs0_builder \<Rightarrow> bool" where
  pfs0_add: "utf8_valid n \<Longrightarrow> pfs0_add_file b n d = Ok b' \<Longrightarrow> pfs0_step b b'"

inductive cnmt_start :: "cnmt_builder \<Rightarrow> bool" where
  "cnmt_start (cnmt_new title)"

inductive cnmt_step :: "cnmt_builder \<Rightarrow> cnmt_builder \<Rightarrow> bool" where
  cnmt_version: "cnmt_step b (cnmt_title_version v b)"
| cnmt_add: "length (co_hash r) = 0x20 \<Longrightarrow> cnmt_add_content b r = Ok b' \<Longrightarrow> cnmt_step b b'"

inductive nca_start :: "nca_builder \<Rightarrow> bool" where
  "nca_start (nca_new t title)"

inductive nca_step :: "nca_builder \<Rightarrow> nca_builder \<Rightarrow> bool" where
  nca_sdk: "nca_step b (nca_sdk_version b v)"
| nca_gen: "key_generation_try_from u = Ok g \<Longrightarrow> nca_step b (nca_set_key_generation b g)"
| nca_gen_text: "key_generation_from_str t = Ok g \<Longrightarrow> nca_step b (nca_set_key_generation b g)"
| nca_key: "length k = 0x10 \<Longrightarrow> nca_key_area_key b i k = Ok b' \<Longrightarrow> nca_step b b'"
| nca_section: "nca_add_section b i s = Ok b' \<Longrightarrow> nca_step b b'"

inductive romfs_start :: "romfs_builder \<Rightarrow> bool" where
  romfs_started: "romfs_start romfs_new"
| romfs_walked: "host_ok fs \<Longrightarrow> romfs_from_directory fs base = Some (Ok b) \<Longrightarrow> romfs_start b"

inductive romfs_step :: "romfs_builder \<Rightarrow> romfs_builder \<Rightarrow> bool" where
  romfs_add: "utf8_valid path \<Longrightarrow> romfs_add_file b path d = Ok b' \<Longrightarrow> romfs_step b b'"

inductive_cases pfs0_stepE: "pfs0_step b b'"
inductive_cases cnmt_stepE: "cnmt_step b b'"
inductive_cases nca_stepE: "nca_step b b'"
inductive_cases romfs_stepE: "romfs_step b b'"
inductive_simps pfs0_start_iff: "pfs0_start b"
inductive_simps cnmt_start_iff: "cnmt_start b"
inductive_simps nca_start_iff: "nca_start b"
inductive_simps romfs_start_iff: "romfs_start b"

lemma key_generation_parsed: "key_generation_from_str t = Ok g \<Longrightarrow> \<exists>u. key_generation_try_from u = Ok g"
  by (auto simp: key_generation_from_str_def rbind_eq_Ok)

text \<open>PFS0: the files are added in their order.\<close>

interpretation pfs0_machine: exact_machine pfs0_start pfs0_step pfs0_inv
proof
  show "pfs0_start b \<Longrightarrow> pfs0_inv b" for b 
    unfolding pfs0_start_iff using pfs0_inv_new pfs0_from_directory_inv by blast
  show "pfs0_inv b \<Longrightarrow> pfs0_step b b' \<Longrightarrow> pfs0_inv b'" for b b'
    by (auto elim: pfs0_stepE intro: pfs0_inv_add)
  show "pfs0_inv b \<Longrightarrow> reachable pfs0_start pfs0_step b" for b
  proof (induction b rule: rev_induct)
    case Nil
    then show ?case by (simp add: reachable_start pfs0_start_iff pfs0_new_def)
  next
    case (snoc f fs)
    obtain n d where f: "f = (n, d)" by (cases f)
    have "pfs0_add_file fs n d = Ok (fs @ [f])" "utf8_valid n"
      using snoc.prems by (auto simp: f pfs0_inv_def pfs0_add_file_def rev_image_eqI)
    moreover have "pfs0_inv fs" using snoc.prems by (simp add: pfs0_inv_def)
    ultimately show ?case using snoc.IH by (blast intro: reachable_step pfs0_add)
  qed
qed

text \<open>CNMT: the version first, then the records in their order.\<close>

interpretation cnmt_machine: exact_machine cnmt_start cnmt_step cnmt_inv
proof
  show "cnmt_start b \<Longrightarrow> cnmt_inv b" for b by (auto simp: cnmt_start_iff cnmt_inv_new)
  show "cnmt_inv b \<Longrightarrow> cnmt_step b b' \<Longrightarrow> cnmt_inv b'" for b b'
    by (auto elim!: cnmt_stepE intro: cnmt_inv_add cnmt_inv_version)
  have "reachable cnmt_start cnmt_step \<lparr>cb_title_id = t, cb_title_version = v, cb_records = rs\<rparr>"
    if "cnmt_inv \<lparr>cb_title_id = t, cb_title_version = v, cb_records = rs\<rparr>" for t v rs
    using that
  proof (induction rs rule: rev_induct)
    case Nil
    have "reachable cnmt_start cnmt_step (cnmt_new t)" by (rule reachable_start) (auto simp: cnmt_start_iff)
    from reachable_step [OF this cnmt_version, of v] show ?case by (simp add: cnmt_title_version_def cnmt_new_def)
  next
    case (snoc r rs)
    let ?b = "\<lparr>cb_title_id = t, cb_title_version = v, cb_records = rs\<rparr>"
    have "cnmt_add_content ?b r = Ok \<lparr>cb_title_id = t, cb_title_version = v, cb_records = rs @ [r]\<rparr>" "length (co_hash r) = 0x20"
      using snoc.prems by (auto simp: cnmt_inv_def cnmt_add_content_def rev_image_eqI)
    moreover have "cnmt_inv ?b" using snoc.prems by (simp add: cnmt_inv_def)
    ultimately show ?case using snoc.IH by (blast intro: reachable_step cnmt_add)
  qed
  then show "cnmt_inv b \<Longrightarrow> reachable cnmt_start cnmt_step b" for b by (cases b) simp
qed

text \<open>NCA: every field can be set, every key replaced, and every empty slot filled.\<close>

lemma nca_slot_reachable:
  assumes "reachable nca_start nca_step b" "i < length (nb_sections b)" "nb_sections b ! i = None"
  shows "reachable nca_start nca_step (b\<lparr>nb_sections := (nb_sections b)[i := s]\<rparr>)"
proof (cases s)
  case None
  then have "b\<lparr>nb_sections := (nb_sections b)[i := s]\<rparr> = b" using assms(3) list_update_id [of "nb_sections b" i] by simp
  with assms(1) show ?thesis by simp
next
  case (Some t)
  then have "nca_add_section b i t = Ok (b\<lparr>nb_sections := (nb_sections b)[i := s]\<rparr>)"
    using assms(2,3) by (simp add: nca_add_section_def)
  with assms(1) show ?thesis by (blast intro: reachable_step nca_section)
qed

lemma nca_key_reachable:
  assumes "reachable nca_start nca_step b" "i < length (nb_key_area b)" "length k = 0x10"
  shows "reachable nca_start nca_step (b\<lparr>nb_key_area := (nb_key_area b)[i := k]\<rparr>)"
proof -
  have "nca_key_area_key b i k = Ok (b\<lparr>nb_key_area := (nb_key_area b)[i := k]\<rparr>)"
    using assms(2) by (simp add: nca_key_area_key_def)
  with assms(1,3) show ?thesis by (blast intro: reachable_step nca_key)
qed

interpretation nca_machine: exact_machine nca_start nca_step nca_builder_inv
proof
  show "nca_start b \<Longrightarrow> nca_builder_inv b" for b by (auto simp: nca_start_iff nca_builder_inv_new)
  show "nca_builder_inv b \<Longrightarrow> nca_step b b' \<Longrightarrow> nca_builder_inv b'" for b b'
    by (auto elim!: nca_stepE intro: nca_builder_inv_set dest!: key_generation_parsed)
  fix b
  assume inv: "nca_builder_inv b"
  obtain ct t v g ks ss where b: "b = \<lparr>nb_content_type = ct, nb_title_id = t, nb_sdk_version = v, nb_key_generation = g,
      nb_key_area = ks, nb_sections = ss\<rparr>" by (cases b)
  obtain k0 k1 k2 k3 where ks: "ks = [k0, k1, k2, k3]"
    using inv by (auto simp: nca_builder_inv_def b length_Suc_conv numeral_eq_Suc)
  obtain s0 s1 s2 s3 where ss: "ss = [s0, s1, s2, s3]"
    using inv by (auto simp: nca_builder_inv_def b length_Suc_conv numeral_eq_Suc)
  have k: "length k0 = 0x10" "length k1 = 0x10" "length k2 = 0x10" "length k3 = 0x10"
    using inv by (simp_all add: nca_builder_inv_def b ks)
  have g: "key_generation_try_from g = Ok g"
    using inv by (auto simp: nca_builder_inv_def b key_generation_try_from_def not_less)
  let ?z = "zeros 0x10 :: bytes" and ?R = "reachable nca_start nca_step"
  let ?b = "\<lambda>ks ss. \<lparr>nb_content_type = ct, nb_title_id = t, nb_sdk_version = v, nb_key_generation = g,
      nb_key_area = ks, nb_sections = ss\<rparr>"
  have "?R (nca_new ct t)" by (rule reachable_start) (auto simp: nca_start_iff)
  from reachable_step [OF reachable_step [OF this nca_sdk] nca_gen [OF g], of v]
  have "?R (?b [?z, ?z, ?z, ?z] [None, None, None, None])"
    by (simp add: nca_new_def nca_sdk_version_def nca_set_key_generation_def nca_consts numeral_eq_Suc)
  from nca_key_reachable [OF this, of 0 k0] have "?R (?b [k0, ?z, ?z, ?z] [None, None, None, None])" by (simp add: k)
  from nca_key_reachable [OF this, of 1 k1] have "?R (?b [k0, k1, ?z, ?z] [None, None, None, None])" by (simp add: k)
  from nca_key_reachable [OF this, of 2 k2] have "?R (?b [k0, k1, k2, ?z] [None, None, None, None])"
    by (simp add: k numeral_2_eq_2)
  from nca_key_reachable [OF this, of 3 k3] have "?R (?b ks [None, None, None, None])"
    by (simp add: k ks numeral_3_eq_3)
  from nca_slot_reachable [OF this, of 0 s0] have "?R (?b ks [s0, None, None, None])" by simp
  from nca_slot_reachable [OF this, of 1 s1] have "?R (?b ks [s0, s1, None, None])" by simp
  from nca_slot_reachable [OF this, of 2 s2] have "?R (?b ks [s0, s1, s2, None])" by (simp add: numeral_2_eq_2)
  from nca_slot_reachable [OF this, of 3 s3] have "?R (?b ks ss)" by (simp add: ss numeral_3_eq_3)
  then show "?R b" by (simp add: b)
qed

text \<open>RomFS: wherever it starts, a builder holds a well-formed tree with valid names and nothing computed yet.\<close>

lemma romfs_step_keeps:
  assumes "romfs_wf b" "romfs_step b b'"
  shows "romfs_wf b'" "romfs_utf8 b \<Longrightarrow> romfs_utf8 b'" "romfs_fresh b \<Longrightarrow> romfs_fresh b'" "romfs_tight b \<Longrightarrow> romfs_tight b'"
  using assms(2) romfs_add_file_Ok(4) [OF assms(1)] romfs_add_file_tight [OF assms(1)]
  by (auto elim!: romfs_stepE intro: romfs_add_file_utf8 romfs_add_file_fresh)

interpretation romfs_machine: state_machine romfs_start romfs_step "\<lambda>b. romfs_wf b \<and> romfs_utf8 b \<and> romfs_fresh b"
proof
  have "romfs_utf8 romfs_new" by (simp add: romfs_new_def romfs_utf8_def new_dir_def)
  then show "romfs_start b \<Longrightarrow> romfs_wf b \<and> romfs_utf8 b \<and> romfs_fresh b" for b
    using romfs_wf_new romfs_fresh_new romfs_from_directory_wf by (auto simp: romfs_start_iff)
  show "romfs_wf b \<and> romfs_utf8 b \<and> romfs_fresh b \<Longrightarrow> romfs_step b b' \<Longrightarrow> romfs_wf b' \<and> romfs_utf8 b' \<and> romfs_fresh b'" for b b'
    using romfs_step_keeps by blast
qed

text \<open>One that starts from \<^verbatim>\<open>new\<close> has no empty directory; a walk brings those of the host.\<close>

interpretation romfs_new_machine: state_machine "(=) romfs_new" romfs_step "\<lambda>b. romfs_wf b \<and> romfs_tight b"
proof
  show "romfs_new = b \<Longrightarrow> romfs_wf b \<and> romfs_tight b" for b using romfs_wf_new romfs_tight_new by blast
  show "romfs_wf b \<and> romfs_tight b \<Longrightarrow> romfs_step b b' \<Longrightarrow> romfs_wf b' \<and> romfs_tight b'" for b b'
    using romfs_step_keeps by blast
qed

end
