(* ===== verification/Reachable_Properties.thy ===== *)
theory Reachable_Properties
  imports Reachable Nca_Properties Cnmt_Properties
begin

text \<open>What scripts of calls of the builders' methods can reach.\<close>

text \<open>C39. The invariants the other theorems assume are what the builders guarantee.  A state of a
  PFS0, CNMT or NCA builder is reached by some script of calls of its public constructors and methods if and only
  if it satisfies its invariant.  Every state a RomFS builder reaches, from \<^verbatim>\<open>new\<close> or from the walk of a directory
  of any host, is a well-formed tree with valid names and no offset computed; one reached from \<^verbatim>\<open>new\<close> has no
  empty directory, which a walk may bring in.\<close>

theorem reachable_builders:
  "(reachable pfs0_start pfs0_step files \<longleftrightarrow> pfs0_inv files)
   \<and> (reachable cnmt_start cnmt_step meta \<longleftrightarrow> cnmt_inv meta)
   \<and> (reachable nca_start nca_step archive \<longleftrightarrow> nca_builder_inv archive)
   \<and> (reachable romfs_start romfs_step tree \<longrightarrow> romfs_wf tree \<and> romfs_utf8 tree \<and> romfs_fresh tree)
   \<and> (reachable ((=) romfs_new) romfs_step tree \<longrightarrow> romfs_tight tree)"
  using pfs0_machine.reachable_iff cnmt_machine.reachable_iff nca_machine.reachable_iff romfs_machine.inv_reachable
    romfs_new_machine.inv_reachable
  by blast

text \<open>The witness: a host directory that holds one empty directory is walked to a state \<^verbatim>\<open>add_file\<close> never makes.\<close>

theorem reachable_builders_witness:
  "reachable nca_start nca_step nca_example \<and> reachable cnmt_start cnmt_step cnmt_example
   \<and> \<not> reachable pfs0_start pfs0_step [([0x61], []), ([0x61], [])]
   \<and> (\<exists>b. reachable romfs_start romfs_step b \<and> romfs_wf b \<and> \<not> reachable ((=) romfs_new) romfs_step b)"
proof -
  have no: "\<not> pfs0_inv [([0x61], []), ([0x61], [])]" by (simp add: pfs0_inv_def)
  let ?fs = "\<lambda>p. Some (if p = [0] then [Fs_Entry [1] (Some Fs_Dir) (Some [0x65]) None] else [])"
  let ?b = "romfs_new\<lparr>rb_dirs := [(new_dir [] [] 0)\<lparr>rd_children := [1]\<rparr>, new_dir [0x2F, 0x65] [0x65] 0]\<rparr>"
  have "host_ok ?fs" by (simp add: host_ok_def listing_ok_def name_ok_def)
  moreover have "romfs_from_directory ?fs [0] = Some (Ok ?b)"
    by (simp add: romfs_from_directory_def romfs_scan.simps romfs_scan_entry_def romfs_new_def new_dir_def Let_def)
  ultimately have walked: "reachable romfs_start romfs_step ?b" by (blast intro: reachable_start romfs_walked)
  have empty: "\<not> romfs_tight ?b" by (simp add: romfs_tight_def romfs_new_def new_dir_def)
  show ?thesis
    using reachable_builders [of "[([0x61], []), ([0x61], [])]" cnmt_example nca_example ?b]
      nca_example_inv cnmt_example_inv no walked empty by blast
qed

end
