(* ===== verification/Spec2Isabelle.thy ===== *)
theory Spec2Isabelle
  imports Blz_Properties Kip_Properties Pfs0_Properties Cnmt_Properties Nca_Properties Romfs_Properties
    Nso_Properties Nro_Properties Module_Properties Npdm_Properties Nacp_Properties Elf_Properties
    Package_Properties Reachable_Properties
begin

text \<open>
  A verification library for \<^verbatim>\<open>nx-object\<close>, a Rust crate that reads and writes the binary
  formats of the Nintendo Switch: executables, archives and the containers that hold them.  The
  crate has three layers.  \<^verbatim>\<open>src/raw/\<close> declares the packed structures of each format,
  \<^verbatim>\<open>src/write/\<close> holds a builder per format and \<^verbatim>\<open>src/read/\<close> a validating view;
  \<^verbatim>\<open>src/blz.rs\<close> is the compression codec the KIP1 format uses.  Builders and readers do not call
  each other: they meet in the bytes, and most properties below are about that meeting.

  \<^bold>\<open>Vocabulary.\<close>  \<open>NX_Prelude\<close> has the outcome of a fallible function (\<open>result\<close>: a value, an error,
  or a panic), byte lists and little-endian integers, bounds-checked slices, alignment, and UTF-8
  strings.  A panic is a value, so that its absence is a theorem.  \<open>NX_Codec\<close> has the locale \<open>layout\<close>,
  the contract between an encoder and a decoder of a structure; every structure of
  \<^verbatim>\<open>src/raw/\<close> interprets it, and the builders and readers only use its laws.
  A \<^verbatim>\<open>usize\<close> is a natural number bounded by \<open>usize_max = 2 ^ 64 - 1\<close> where it comes out of an
  image; fields keep their width as words.  Overflow checks are taken to be on, so an arithmetic
  overflow is a panic.

  \<^bold>\<open>BLZ\<close> (\<^verbatim>\<open>src/blz.rs\<close>).  \<open>Blz_Match\<close>: the hash-chain match finder and the exhaustive search it
  is compared with.  \<open>Blz_Encode\<close>: the encoder loop, lazy matching, and the choice between the packed
  and the stored layout.  \<open>Blz_Decode\<close>: the in-place decoder.  \<open>Blz_Stream\<close> describes a compressed
  stream as a list of codes in groups of eight, \<open>Blz_Roundtrip\<close> relates both directions to it, and
  \<open>Blz_Properties\<close> has the results.  The chain walk runs on fuel: \<open>pos + 2\<close> steps are enough
  (\<open>blz_walk_terminates\<close>).

  \<^bold>\<open>KIP1\<close> (\<^verbatim>\<open>kip.rs\<close> in each layer): \<open>Kip\<close> and \<open>Kip_Properties\<close>.  The builder
  compresses three segments with the BLZ encoder; the reader expands them with the decoder.

  \<^bold>\<open>PFS0\<close> (\<^verbatim>\<open>pfs0.rs\<close>): \<open>Pfs0\<close> and \<open>Pfs0_Properties\<close>.  The abstract
  specification is a finite map from names to contents.

  \<^bold>\<open>CNMT\<close> (\<^verbatim>\<open>cnmt.rs\<close>): \<open>Cnmt\<close> and \<open>Cnmt_Properties\<close>.

  \<^bold>\<open>NCA\<close> (\<^verbatim>\<open>nca.rs\<close>, \<^verbatim>\<open>write/nca/ivfc.rs\<close>, \<^verbatim>\<open>write/nca/partition.rs\<close>):
  \<open>Nca_Layout\<close> has the structures, \<open>Nca_Hash\<close> the hash tables and trees over a section, \<open>Nca_Write\<close>
  key generations and the builder, \<open>Nca_Build\<close> what a build lays out, \<open>Nca_Read\<close> the reader,
  \<open>Nca_Roundtrip\<close> the two together, and \<open>Nca_Properties\<close> the results.  SHA-256 is third-party code
  and a parameter of the model; all that is used of it is that a digest has 32 bytes.  Security
  is stated as binding: changed bytes that still verify exhibit two inputs with the same digest.

  \<^bold>\<open>RomFS\<close> (\<^verbatim>\<open>romfs.rs\<close>): \<open>Romfs_Layout\<close> and \<open>Romfs_Write\<close> have the structures and the
  builder, \<open>Romfs_Read\<close> the reader.  \<open>Romfs_Tree\<close> has the invariant of the builder's two vectors
  (\<open>romfs_wf\<close>) and what adding a file does to it, \<open>Romfs_Order\<close> shows that sorting only renames
  indices and ends in a canonical form, \<open>Romfs_Image\<close> and \<open>Romfs_Built\<close> place the entries in the
  tables and read them back, \<open>Romfs_Lookup\<close> follows the sibling chains, \<open>Romfs_Hash\<close> the hash
  chains, \<open>Romfs_Safe\<close> treats arbitrary images, \<open>Romfs_Serve\<close> puts the parts together,
  \<open>Romfs_Directory\<close> follows \<^verbatim>\<open>from_directory\<close> over a tree of the host, given as an inductive
  relation, and \<open>Romfs_Properties\<close> has the results.  An image is read back when its tables fit 32-bit
  offsets (\<open>romfs_fits\<close>) and its contents, each with 16 bytes for its alignment, have at most \<open>2 ^ 40\<close> bytes
  (\<open>romfs_small\<close>), so that no 64-bit sum can wrap.
  The loops of the reader that follow offsets found in the
  image are partial functions: \<open>None\<close> means that the loop does not end.  On built images it always
  ends (\<open>romfs_open_refines_map\<close>, \<open>romfs_listing_exact\<close>); on others it need not
  (\<open>romfs_cycle_diverges\<close>).

  \<^bold>\<open>NSO\<close> and \<^bold>\<open>NRO\<close> (\<^verbatim>\<open>nso.rs\<close>, \<^verbatim>\<open>nro.rs\<close>): \<open>Executable\<close> has the padding to pages and
  the writes over a buffer that both share.  \<open>Nso\<close> and \<open>Nso_Properties\<close> take LZ4 and SHA-256 as
  parameters; of LZ4 the round trip uses that expanding what was packed, to its length, gives it
  back.  \<open>Nro\<close> has the structures, the builder and the reader.  The builder writes segments, header
  and assets over each other; \<open>Nro_Image\<close> gives the result byte by byte, \<open>Nro_Read\<close> the reader in
  closed form, \<open>Nro_Roundtrip\<close> both together for segments laid out one behind the other.
  \<open>Mod0\<close> has the module header, and \<open>Module_Properties\<close> follows one through the NRO builder.

  \<^bold>\<open>NPDM\<close> (\<^verbatim>\<open>npdm.rs\<close>): \<open>Npdm_Capability\<close> encodes kernel capabilities and reads
  descriptors back by their documented bit ranges; \<open>Npdm\<close> has the headers, the builder and the
  reader, \<open>Npdm_Access\<close> the bytes of the filesystem and service permissions and how to read them,
  \<open>Npdm_Image\<close> the image a build produces, \<open>Npdm_Read\<close> the reader in closed form,
  \<open>Npdm_Properties\<close> the results.  An image fits if the end of its last section, rounded up,
  is below \<open>2 ^ 32\<close> (\<open>npdm_fits\<close>), which keeps every 32-bit sum of the builder in range.

  \<^bold>\<open>NACP\<close> (\<^verbatim>\<open>nacp.rs\<close>): \<open>Nacp_Layout\<close> has the control structure field by field, \<open>Nacp\<close> the
  builder and the reader, \<open>Nacp_Properties\<close> the outcome of a build and the lookup by language.

  \<^bold>\<open>ELF\<close> (\<^verbatim>\<open>elf/segments.rs\<close>): \<open>Elf\<close> takes what the third-party \<^verbatim>\<open>object\<close> crate says of a
  file as a parameter and extracts the segments; \<open>Elf_Properties\<close> has the outcome of a parse, which
  segments it sees, and the way of an ELF through the NRO and NSO builders to their readers.

  \<^bold>\<open>Packages.\<close>  The formats nest: a title is a PFS0 of NCAs, an NCA holds a PFS0 or a RomFS in each
  section, an NRO carries a RomFS.  \<open>Package\<close> states what they have in common as the locale
  \<open>container\<close>, interprets it for PFS0, NCA, RomFS and NRO, and nests two containers into a third by a
  \<open>sublocale\<close>.  \<open>Package_Pack\<close> composes the builders the way a caller does (ELF to NSO, NSO and NPDM
  to a program archive, files to a title, contents to the CNMT that lists them), and \<open>Package_Properties\<close> follows
  what goes into the innermost builder to the reader that opens the layers one by one.  A hash
  block of at least 0x20 bytes and at most 2 to the 38 bytes of files keep a partition below the 2 to the 41 bytes
  that 32-bit media units can place.

  \<^bold>\<open>Builders as state machines.\<close>  \<open>Reachable\<close> has the constructors (\<^verbatim>\<open>new\<close>, and for PFS0 and RomFS
  \<^verbatim>\<open>from_directory\<close> over any host) and the public methods of the PFS0, CNMT, NCA and RomFS builders as
  inductive step relations.  The invariants other theorems assume hold in every reachable state, and for the
  first three nothing else does (\<open>reachable_builders\<close>).  A RomFS builder has an empty directory
  (not \<open>romfs_tight\<close>) only if a walk brought it in.

  \<^bold>\<open>Filesystem.\<close>  The functions that scan a directory work on what the filesystem answers, which is
  an argument: the listing, and of each entry its kind, its name and its contents.

  \<^bold>\<open>Not modelled.\<close>  \<^verbatim>\<open>Display\<close> texts of errors, other than the decimal text of a key
  generation; the readers that wrap a raw pointer (\<^verbatim>\<open>try_from_ptr\<close>); the capacity a buffer is
  allocated with, which does not show in its contents; the accessors that return one field of a
  record, and the derived traits of the structures; the re-exports of \<^verbatim>\<open>lib.rs\<close>, \<^verbatim>\<open>raw.rs\<close>,
  \<^verbatim>\<open>read.rs\<close>, \<^verbatim>\<open>write.rs\<close> and \<^verbatim>\<open>elf.rs\<close>; the \<^verbatim>\<open>Default\<close> implementations, which
  call \<^verbatim>\<open>new\<close>; and the crate's own tests.  The wrappers around SHA-256 and LZ4 are parameters.  Every
  other function of the crate is a definition here.
\<close>

end
